(* ===== verification/Warped_Prelude.thy ===== *)
theory Warped_Prelude
  imports Main "HOL-Library.Word" "HOL-Library.Multiset" "HOL-Library.List_Lexorder"
    "HOL-Library.Char_ord" "HOL-Library.Product_Lexorder"
begin

text \<open>
  Shared vocabulary of the development: the machine integers of the code, the ways in which an
  operation can fail, sequencing of operations that can fail, and the generic lemmas on lists and
  on ordered containers that the components use.

  A C++ \<open>unsigned int\<close> is a \<open>u32\<close> and an \<open>unsigned long long\<close> or \<open>uint64_t\<close> a \<open>u64\<close>;
  indices into arrays (LP ids, scheduler ids, thread ids) are \<open>nat\<close>. An operation that contains
  an \<open>assert\<close>, a \<open>throw\<close> or a division returns \<open>Inl\<close> of a \<open>fault\<close> where the code aborts,
  throws or traps (the asserts are those of a debug build), and \<open>Inr\<close> of its result otherwise.
\<close>

type_synonym u32 = "32 word"
type_synonym u64 = "64 word"
type_synonym i32 = "32 word"
type_synonym i64 = "64 word"

named_theorems warped_defs "definitions of the model, unfolded by the component proofs"
named_theorems warped_inv "preservation of the component invariants"

datatype fault =
    Assert_Failed
  | Div_By_Zero
  | Null_Deref
  | Out_Of_Range
  | Runtime_Error string

type_synonym 'a res = "fault + 'a"

fun bindR :: "'a res \<Rightarrow> ('a \<Rightarrow> 'b res) \<Rightarrow> 'b res" where
  "bindR (Inl f) k = Inl f"
| "bindR (Inr x) k = k x"

definition assertR :: "bool \<Rightarrow> unit res" where
  "assertR b = (if b then Inr () else Inl Assert_Failed)"

lemma bindR_eq_Inr [simp]: "bindR m k = Inr y \<longleftrightarrow> (\<exists>x. m = Inr x \<and> k x = Inr y)"
  by (cases m) auto

lemma assertR_eq_Inr [simp]: "assertR b = Inr u \<longleftrightarrow> b"
  by (simp add: assertR_def)

lemma assertR_True [simp]: "assertR True = Inr ()"
  by (simp add: assertR_def)

text \<open>A loop whose body can fail.\<close>

fun foldR :: "('a \<Rightarrow> 's \<Rightarrow> 's res) \<Rightarrow> 'a list \<Rightarrow> 's \<Rightarrow> 's res" where
  "foldR f [] s = Inr s"
| "foldR f (x # xs) s = bindR (f x s) (foldR f xs)"

lemma foldR_append: "foldR f (xs @ ys) s = bindR (foldR f xs s) (foldR f ys)"
proof (induction xs arbitrary: s)
  case (Cons x xs)
  then show ?case by (cases "f x s") simp_all
qed simp

lemma foldR_invariant:
  assumes "\<And>x s s'. x \<in> set xs \<Longrightarrow> f x s = Inr s' \<Longrightarrow> P s \<Longrightarrow> P s'" and "foldR f xs s = Inr s'" and "P s"
  shows "P s'"
  using assms by (induction xs arbitrary: s) auto

section \<open>The largest unsigned integer\<close>

text \<open>\<open>(unsigned int)-1\<close> and \<open>std::numeric_limits<unsigned int>::max()\<close>.\<close>

definition uint_max :: u32 where
  "uint_max = - 1"

lemma uint_max_ge [simp]: "x \<le> uint_max"
  by (simp add: uint_max_def)

lemma min_uint_max [simp]: "min x uint_max = x" "min uint_max x = x"
  by (simp_all add: min_def antisym)

lemma uint_max_less [simp]: "\<not> uint_max < x"
  by (simp add: not_less)

lemma unat_less_power_32: "unat (x :: u32) < 2 ^ 32"
  using unsigned_less [of x] by simp

lemma unat_plus_one_less: "x < y \<Longrightarrow> unat (x + 1) = Suc (unat (x :: u32))"
proof -
  assume "x < y"
  then have "Suc (unat x) < 2 ^ 32" using unat_less_power_32 [of y]
    by (simp add: word_less_nat_alt)
  then show ?thesis by (simp add: unat_word_ariths)
qed

section \<open>Lists\<close>

lemma nth_list_update_if:
  "i < length xs \<Longrightarrow> xs[i := x] ! j = (if j = i then x else xs ! j)"
  by (cases "i = j") auto

lemma concat_update_mset:
  "i < length xss \<Longrightarrow>
   mset (concat (xss[i := ys])) + mset (xss ! i) = mset (concat xss) + mset ys"
proof (induction xss arbitrary: i)
  case (Cons xs xss)
  then show ?case by (cases i) (auto simp: ac_simps)
qed simp

lemma takeWhile_eq_filter_sorted:
  assumes "sorted_wrt r xs" and "\<And>x y. r x y \<Longrightarrow> P y \<Longrightarrow> P x"
  shows "takeWhile P xs = filter P xs"
  using assms
proof (induction xs)
  case (Cons x xs)
  show ?case
  proof (cases "P x")
    case False
    with Cons.prems have "\<forall>y\<in>set xs. \<not> P y" by (auto dest: Cons.prems(2))
    with False show ?thesis by (simp add: filter_empty_conv)
  qed (use Cons in auto)
qed simp

lemma dropWhile_eq_filter_sorted:
  assumes "sorted_wrt r xs" and "\<And>x y. r x y \<Longrightarrow> P y \<Longrightarrow> P x"
  shows "dropWhile P xs = filter (\<lambda>x. \<not> P x) xs"
  using assms
proof (induction xs)
  case (Cons x xs)
  show ?case
  proof (cases "P x")
    case False
    with Cons.prems have "\<forall>y\<in>set xs. \<not> P y" by (auto dest: Cons.prems(2))
    with False show ?thesis by simp
  qed (use Cons in auto)
qed simp

text \<open>The loops that pop from the back of an ordered queue while a test holds.\<close>

lemma rev_dropWhile_rev_sorted:
  assumes "sorted_wrt r xs" and "\<forall>x y. r x y \<longrightarrow> P x \<longrightarrow> P y"
  shows "rev (dropWhile P (rev xs)) = filter (\<lambda>x. \<not> P x) xs"
    and "takeWhile P (rev xs) = rev (filter P xs)"
proof -
  have rev: "sorted_wrt (\<lambda>x y. r y x) (rev xs)" using assms(1) by (simp add: sorted_wrt_rev)
  have closed: "\<And>x y. r y x \<Longrightarrow> P y \<Longrightarrow> P x" using assms(2) by blast
  from dropWhile_eq_filter_sorted [of _ "rev xs" P, OF rev] closed
  show "rev (dropWhile P (rev xs)) = filter (\<lambda>x. \<not> P x) xs" by (simp add: rev_filter)
  from takeWhile_eq_filter_sorted [of _ "rev xs" P, OF rev] closed
  show "takeWhile P (rev xs) = rev (filter P xs)" by (simp add: rev_filter)
qed

lemma sorted_wrt_filter: "sorted_wrt r xs \<Longrightarrow> sorted_wrt r (filter P xs)"
  by (induction xs) auto

lemma sorted_wrt_snoc:
  "sorted_wrt r (xs @ [x]) \<longleftrightarrow> sorted_wrt r xs \<and> (\<forall>y\<in>set xs. r y x)"
  by (auto simp: sorted_wrt_append)

lemma sorted_wrt_butlast: "sorted_wrt r xs \<Longrightarrow> sorted_wrt r (butlast xs)"
  by (cases xs rule: rev_cases) (auto simp: sorted_wrt_append)

end
