(* ===== verification/Warped_Event.thy ===== *)
theory Warped_Event
  imports Warped_Prelude
begin

text \<open>
  Events (\<open>src/src/Event.hpp\<close>): the fields of \<open>Event\<close> and of its subclasses
  \<open>NegativeEvent\<close> and \<open>InitialEvent\<close>, the comparison operators and \<open>compareEvents\<close>.

  An event is always handled through a \<open>std::shared_ptr\<close>; \<open>ev_ptr\<close> is the address of the
  shared object, and comparing two such pointers compares \<open>ev_ptr\<close>. The virtual functions
  \<open>receiverName()\<close> and \<open>timestamp()\<close> are fields; the data a model adds in its own subclasses is
  \<open>payload\<close>, which the library never reads.
\<close>

section \<open>Data\<close>

datatype EventType = NEGATIVE | POSITIVE

fun event_type_num :: "EventType \<Rightarrow> nat" where
  "event_type_num NEGATIVE = 0"
| "event_type_num POSITIVE = 1"

lemma event_type_num_inject: "event_type_num a = event_type_num b \<longleftrightarrow> a = b"
  by (cases a; cases b) auto

instantiation EventType :: linorder
begin

definition less_eq_EventType :: "EventType \<Rightarrow> EventType \<Rightarrow> bool" where
  "a \<le> b \<longleftrightarrow> event_type_num a \<le> event_type_num b"

definition less_EventType :: "EventType \<Rightarrow> EventType \<Rightarrow> bool" where
  "a < b \<longleftrightarrow> event_type_num a < event_type_num b"

instance
  by standard (auto simp: less_eq_EventType_def less_EventType_def event_type_num_inject)

end

record event =
  ev_ptr :: nat
  receiverName :: string
  timestamp :: u32
  sender_name :: string
  event_type :: EventType
  send_time :: u32
  generation :: u64
  payload :: nat

text \<open>\<open>NegativeEvent(e)\<close>: a new object at address \<open>p\<close> with the header fields of \<open>e\<close>.\<close>

definition NegativeEvent :: "nat \<Rightarrow> event \<Rightarrow> event" where
  "NegativeEvent p e =
     \<lparr>ev_ptr = p, receiverName = receiverName e, timestamp = timestamp e,
      sender_name = sender_name e, event_type = NEGATIVE, send_time = send_time e,
      generation = generation e, payload = 0\<rparr>"

definition InitialEvent :: "nat \<Rightarrow> event" where
  "InitialEvent p =
     \<lparr>ev_ptr = p, receiverName = '''', timestamp = 0, sender_name = '''',
      event_type = POSITIVE, send_time = 0, generation = 0, payload = 0\<rparr>"

section \<open>Comparison operators\<close>

definition ev_eq :: "event \<Rightarrow> event \<Rightarrow> bool" where
  "ev_eq a b \<longleftrightarrow>
     timestamp a = timestamp b \<and> send_time a = send_time b \<and>
     sender_name a = sender_name b \<and> generation a = generation b"

definition ev_less :: "event \<Rightarrow> event \<Rightarrow> bool" where
  "ev_less a b =
     (if timestamp a < timestamp b then True
      else if timestamp a \<noteq> timestamp b then False
      else if send_time a < send_time b then True
      else if send_time a \<noteq> send_time b then False
      else if sender_name a < sender_name b then True
      else if sender_name a \<noteq> sender_name b then False
      else if generation a < generation b then True
      else False)"

definition ev_le :: "event \<Rightarrow> event \<Rightarrow> bool" where
  "ev_le a b \<longleftrightarrow> ev_less a b \<or> ev_eq a b"

definition ev_ge :: "event \<Rightarrow> event \<Rightarrow> bool" where
  "ev_ge a b \<longleftrightarrow> \<not> ev_less a b"

definition ev_gt :: "event \<Rightarrow> event \<Rightarrow> bool" where
  "ev_gt a b \<longleftrightarrow> \<not> ev_le a b"

definition compareEvents :: "event \<Rightarrow> event \<Rightarrow> bool" where
  "compareEvents a b =
     (if timestamp a < timestamp b then True
      else if timestamp a \<noteq> timestamp b then False
      else if send_time a < send_time b then True
      else if send_time a \<noteq> send_time b then False
      else if sender_name a < sender_name b then True
      else if sender_name a \<noteq> sender_name b then False
      else if generation a < generation b then True
      else if generation a \<noteq> generation b then False
      else if event_type a < event_type b then True
      else False)"

section \<open>The keys behind the operators\<close>

text \<open>
  \<open>ev_key\<close> is what \<open>operator<\<close> compares, \<open>ev_key5\<close> what \<open>compareEvents\<close> compares: the
  operators are the lexicographic order of these tuples, so they are (strict) linear orders of
  the keys.
\<close>

type_synonym key4 = "u32 \<times> u32 \<times> string \<times> u64"

definition ev_key :: "event \<Rightarrow> key4" where
  "ev_key e = (timestamp e, send_time e, sender_name e, generation e)"

definition ev_key5 :: "event \<Rightarrow> key4 \<times> EventType" where
  "ev_key5 e = (ev_key e, event_type e)"

lemma ev_eq_key: "ev_eq a b \<longleftrightarrow> ev_key a = ev_key b"
  by (simp add: ev_eq_def ev_key_def)

lemma ev_less_key: "ev_less a b \<longleftrightarrow> ev_key a < ev_key b"
  by (auto simp: ev_less_def ev_key_def)

lemma compareEvents_key: "compareEvents a b \<longleftrightarrow> ev_key5 a < ev_key5 b"
  by (auto simp: compareEvents_def ev_key5_def ev_key_def)

lemma ev_le_key: "ev_le a b \<longleftrightarrow> ev_key a \<le> ev_key b"
  by (auto simp: ev_le_def ev_less_key ev_eq_key)

lemma ev_ge_key: "ev_ge a b \<longleftrightarrow> ev_key b \<le> ev_key a"
  by (auto simp: ev_ge_def ev_less_key)

lemma ev_gt_key: "ev_gt a b \<longleftrightarrow> ev_key b < ev_key a"
  by (auto simp: ev_gt_def ev_le_key)

lemmas ev_key_simps = ev_eq_key ev_less_key ev_le_key ev_ge_key ev_gt_key

lemma ev_key5_less: "ev_key5 a < ev_key5 b \<longleftrightarrow>
    ev_key a < ev_key b \<or> ev_key a = ev_key b \<and> event_type a < event_type b"
  by (auto simp: ev_key5_def)

lemma ev_key_less_imp_key5: "ev_key a < ev_key b \<Longrightarrow> ev_key5 a < ev_key5 b"
  by (simp add: ev_key5_less)

lemma ev_key5_le_imp_key: "ev_key5 a \<le> ev_key5 b \<Longrightarrow> ev_key a \<le> ev_key b"
  by (auto simp: ev_key5_def)

lemma ev_key_timestamp_le: "ev_key a \<le> ev_key b \<Longrightarrow> timestamp a \<le> timestamp b"
  by (auto simp: ev_key_def)

lemma timestamp_less_ev_key: "timestamp a < timestamp b \<Longrightarrow> ev_key a < ev_key b"
  by (simp add: ev_key_def)

lemma ev_key5_NegativeEvent:
  "event_type e = POSITIVE \<Longrightarrow> ev_key5 (NegativeEvent p e) < ev_key5 e"
  by (simp add: ev_key5_def ev_key_def NegativeEvent_def less_EventType_def)

lemma ev_key_NegativeEvent [simp]: "ev_key (NegativeEvent p e) = ev_key e"
  by (simp add: ev_key_def NegativeEvent_def)

lemma NegativeEvent_sel [simp]:
  "ev_ptr (NegativeEvent p e) = p" "receiverName (NegativeEvent p e) = receiverName e"
  "timestamp (NegativeEvent p e) = timestamp e" "event_type (NegativeEvent p e) = NEGATIVE"
  "sender_name (NegativeEvent p e) = sender_name e" "generation (NegativeEvent p e) = generation e"
  by (simp_all add: NegativeEvent_def)

end
