(* ===== verification/Stl_Ordered.thy ===== *)
theory Stl_Ordered
  imports Warped_Event
begin

text \<open>
  The ordered containers of the C++ standard library that the code instantiates with a
  comparator: \<open>std::multiset\<close> (input queues, schedule queues, bottom of the ladder queue) and
  \<open>std::priority_queue\<close> (sequential event list). Both are lists kept in the order of the
  comparator, the smallest element first; equivalent elements keep their order of insertion, as
  \<open>std::multiset\<close> guarantees. \<open>erase(key)\<close> removes every element equivalent to the key and returns
  how many, \<open>find\<close> gives the position of the first equivalent element, \<open>erase(iterator)\<close> is
  removal by position. The comparator has to be a strict weak order; that contract is the locale
  \<open>strict_weak\<close>, interpreted below on the comparators the code uses.
\<close>

section \<open>Operations\<close>

fun ms_insert :: "('a \<Rightarrow> 'a \<Rightarrow> bool) \<Rightarrow> 'a \<Rightarrow> 'a list \<Rightarrow> 'a list" where
  "ms_insert lt x [] = [x]"
| "ms_insert lt x (y # ys) = (if lt x y then x # y # ys else y # ms_insert lt x ys)"

definition ms_equiv :: "('a \<Rightarrow> 'a \<Rightarrow> bool) \<Rightarrow> 'a \<Rightarrow> 'a \<Rightarrow> bool" where
  "ms_equiv lt x y \<longleftrightarrow> \<not> lt x y \<and> \<not> lt y x"

definition ms_erase :: "('a \<Rightarrow> 'a \<Rightarrow> bool) \<Rightarrow> 'a \<Rightarrow> 'a list \<Rightarrow> nat \<times> 'a list" where
  "ms_erase lt x ys =
     (length (filter (ms_equiv lt x) ys), filter (\<lambda>y. \<not> ms_equiv lt x y) ys)"

definition ms_find :: "('a \<Rightarrow> 'a \<Rightarrow> bool) \<Rightarrow> 'a \<Rightarrow> 'a list \<Rightarrow> nat option" where
  "ms_find lt x ys =
     (let i = length (takeWhile (\<lambda>y. lt y x) ys)
      in if i < length ys \<and> \<not> lt x (ys ! i) then Some i else None)"

definition ms_erase_at :: "nat \<Rightarrow> 'a list \<Rightarrow> 'a list" where
  "ms_erase_at i ys = take i ys @ drop (Suc i) ys"

definition ms_sorted :: "('a \<Rightarrow> 'a \<Rightarrow> bool) \<Rightarrow> 'a list \<Rightarrow> bool" where
  "ms_sorted lt ys \<longleftrightarrow> sorted_wrt (\<lambda>x y. \<not> lt y x) ys"

lemma mset_ms_insert [simp]: "mset (ms_insert lt x ys) = add_mset x (mset ys)"
  by (induction ys) auto

lemma set_ms_insert [simp]: "set (ms_insert lt x ys) = insert x (set ys)"
  by (induction ys) auto

lemma length_ms_insert [simp]: "length (ms_insert lt x ys) = Suc (length ys)"
  by (induction ys) auto

lemma ms_insert_not_Nil [simp]: "ms_insert lt x ys \<noteq> []"
  by (cases ys) auto

lemma ms_sorted_Nil [simp]: "ms_sorted lt []"
  by (simp add: ms_sorted_def)

lemma ms_sorted_Cons: "ms_sorted lt (y # ys) \<longleftrightarrow> (\<forall>z\<in>set ys. \<not> lt z y) \<and> ms_sorted lt ys"
  by (simp add: ms_sorted_def)

lemma ms_sorted_filter: "ms_sorted lt ys \<Longrightarrow> ms_sorted lt (filter P ys)"
  by (simp add: ms_sorted_def sorted_wrt_filter)

lemma mset_ms_erase_at: "i < length ys \<Longrightarrow> add_mset (ys ! i) (mset (ms_erase_at i ys)) = mset ys"
  by (metis id_take_nth_drop mset.simps(2) mset_append ms_erase_at_def union_mset_add_mset_right)

lemma ms_erase_at_simps [simp]:
  "ms_erase_at i [] = []"
  "ms_erase_at 0 (y # ys) = ys"
  "ms_erase_at (Suc i) (y # ys) = y # ms_erase_at i ys"
  by (simp_all add: ms_erase_at_def)

lemma set_ms_erase_at: "set (ms_erase_at i ys) \<subseteq> set ys"
  by (auto simp: ms_erase_at_def dest: in_set_takeD in_set_dropD)

lemma ms_sorted_erase_at: "ms_sorted lt ys \<Longrightarrow> ms_sorted lt (ms_erase_at i ys)"
proof (induction ys arbitrary: i)
  case (Cons y ys)
  then show ?case by (cases i) (auto simp: ms_sorted_Cons dest: set_ms_erase_at [THEN subsetD])
qed simp

lemma ms_find_Nil [simp]: "ms_find lt x [] = None"
  by (simp add: ms_find_def)

lemma ms_find_Cons:
  "ms_find lt x (y # ys) =
     (if lt y x then map_option Suc (ms_find lt x ys) else if lt x y then None else Some 0)"
  by (simp add: ms_find_def Let_def)

section \<open>The comparator contract\<close>

locale strict_weak =
  fixes lt :: "'a \<Rightarrow> 'a \<Rightarrow> bool"
  assumes irrefl: "\<not> lt x x"
    and trans: "lt x y \<Longrightarrow> lt y z \<Longrightarrow> lt x z"
    and neg_trans: "lt x z \<Longrightarrow> lt x y \<or> lt y z"
begin

lemma asym: "lt x y \<Longrightarrow> \<not> lt y x"
  using irrefl trans by blast

lemma not_less_trans: "\<not> lt y x \<Longrightarrow> \<not> lt z y \<Longrightarrow> \<not> lt z x"
  using neg_trans by blast

lemma less_not_less_trans: "lt x y \<Longrightarrow> \<not> lt z y \<Longrightarrow> lt x z"
  using neg_trans by blast

lemma not_less_less_trans: "\<not> lt y x \<Longrightarrow> lt y z \<Longrightarrow> lt x z"
  using neg_trans by blast

lemma equiv_refl: "ms_equiv lt x x"
  by (simp add: ms_equiv_def irrefl)

lemma sorted_insert: "ms_sorted lt ys \<Longrightarrow> ms_sorted lt (ms_insert lt x ys)"
proof (induction ys)
  case (Cons y ys)
  then show ?case
    by (auto simp: ms_sorted_Cons asym dest: asym less_not_less_trans)
qed (simp add: ms_sorted_Cons)

lemma sorted_erase: "ms_sorted lt ys \<Longrightarrow> ms_sorted lt (snd (ms_erase lt x ys))"
  by (simp add: ms_erase_def ms_sorted_filter)

lemma hd_least: "ms_sorted lt ys \<Longrightarrow> y \<in> set ys \<Longrightarrow> \<not> lt y (hd ys)"
  by (cases ys) (auto simp: ms_sorted_Cons irrefl)

lemma find_SomeD:
  assumes "ms_find lt x ys = Some i"
  shows "i < length ys" and "\<not> lt x (ys ! i)" and "\<not> lt (ys ! i) x"
proof -
  let ?n = "length (takeWhile (\<lambda>y. lt y x) ys)"
  from assms have i: "i = ?n" "?n < length ys" "\<not> lt x (ys ! ?n)"
    by (auto simp: ms_find_def Let_def split: if_splits)
  then show "i < length ys" "\<not> lt x (ys ! i)" by simp_all
  from i show "\<not> lt (ys ! i) x" using nth_length_takeWhile [of "\<lambda>y. lt y x" ys] by simp
qed

lemma find_member: "ms_sorted lt ys \<Longrightarrow> x \<in> set ys \<Longrightarrow> \<exists>i. ms_find lt x ys = Some i"
proof (induction ys)
  case (Cons y ys)
  then show ?case by (cases "lt y x") (auto simp: ms_find_Cons ms_sorted_Cons irrefl)
qed simp

end

section \<open>Interpretations\<close>

text \<open>A comparator that compares a linearly ordered key is a strict weak order.\<close>

lemma strict_weak_key: "strict_weak (\<lambda>x y. (f x :: 'b::linorder) < f y)"
  by unfold_locales auto

text \<open>\<open>compareEvents\<close>, the comparator of every event multiset of the code.\<close>

interpretation ce: strict_weak compareEvents
  by (rule strict_weak_key [of ev_key5, folded compareEvents_key])

text \<open>\<open>operator<\<close> of \<open>Event\<close>, by which the rollback loops compare.\<close>

interpretation evl: strict_weak ev_less
  by (rule strict_weak_key [of ev_key, folded ev_less_key])

text \<open>
  \<open>std::priority_queue\<close> keeps its greatest element on top; with the comparator
  \<open>!(*lhs <= *rhs)\<close> the greatest is the least event, so the list in the converse order of the
  comparator has the top first.
\<close>

definition queue_comp :: "event \<Rightarrow> event \<Rightarrow> bool" where
  "queue_comp lhs rhs \<longleftrightarrow> \<not> ev_le lhs rhs"

lemma queue_comp_key: "queue_comp y x \<longleftrightarrow> ev_key x < ev_key y"
  by (simp add: queue_comp_def ev_le_key not_le)

interpretation pq: strict_weak "\<lambda>x y. queue_comp y x"
  by (rule strict_weak_key [of ev_key, folded queue_comp_key])

section \<open>Event multisets\<close>

abbreviation ev_insert :: "event \<Rightarrow> event list \<Rightarrow> event list" where
  "ev_insert \<equiv> ms_insert compareEvents"

abbreviation ev_sorted :: "event list \<Rightarrow> bool" where
  "ev_sorted \<equiv> ms_sorted compareEvents"

lemma eq_if_neither_less: "\<not> x < y \<and> \<not> y < x \<longleftrightarrow> x = (y :: 'a::linorder)"
  by auto

lemma ms_equiv_compareEvents: "ms_equiv compareEvents a b \<longleftrightarrow> ev_key5 a = ev_key5 b"
  unfolding ms_equiv_def compareEvents_key by (rule eq_if_neither_less [of "ev_key5 a"])

lemma ev_sorted_key5: "ev_sorted es \<longleftrightarrow> sorted (map ev_key5 es)"
  by (simp add: ms_sorted_def compareEvents_key sorted_map not_less)

lemma ev_sorted_nth: "ev_sorted es \<Longrightarrow> i \<le> j \<Longrightarrow> j < length es \<Longrightarrow> ev_key5 (es ! i) \<le> ev_key5 (es ! j)"
  by (auto simp: ev_sorted_key5 dest: sorted_nth_mono [of _ i j])

end
