(* ===== verification/TW_EventSet.thy ===== *)
theory TW_EventSet
  imports Stl_Ordered
begin

text \<open>
  The event set of a node (\<open>src/src/TimeWarpEventSet.hpp\<close>, \<open>.cpp\<close>): for each LP an input queue of
  unprocessed events and a queue of processed ones, a number of schedule queues shared by the
  worker threads, and for each LP the one event that is scheduled.

  The type of the schedule queue is chosen when the library is built
  (\<open>LADDER_QUEUE_SCHEDULER\<close>), so the operations take the schedule queue's operations as the record
  \<open>sched_ops\<close>; \<open>multiset_ops\<close> is the default build. The contract the event set needs from it is the
  locale \<open>sched_queue\<close>. Every operation of the class runs under the input queue lock of its LP or
  the lock of one schedule queue, so it is one atomic step on the state (\<open>TicketLock\<close> shows it of
  the spin lock that the build option \<open>SCHEDULE_QUEUE_SPINLOCKS\<close> puts in the place of the mutex).
\<close>

section \<open>Schedule queues\<close>

record 'q sched_ops =
  sq_new :: 'q
  sq_insert :: "event \<Rightarrow> 'q \<Rightarrow> 'q res"
  sq_erase :: "event \<Rightarrow> 'q \<Rightarrow> (nat \<times> 'q) res"
  sq_pop :: "'q \<Rightarrow> (event option \<times> 'q) res"

definition multiset_pop :: "event list \<Rightarrow> (event option \<times> event list) res" where
  "multiset_pop q = (case q of [] \<Rightarrow> Inr (None, []) | e # _ \<Rightarrow> Inr (Some e, ms_erase_at 0 q))"

definition multiset_ops :: "event list sched_ops" where
  "multiset_ops =
     \<lparr>sq_new = [], sq_insert = (\<lambda>e q. Inr (ev_insert e q)),
      sq_erase = (\<lambda>e q. Inr (ms_erase compareEvents e q)), sq_pop = multiset_pop\<rparr>"

section \<open>State\<close>

record 'q event_set =
  num_of_lps :: nat
  input_queue_lock :: "bool list"
  input_queue :: "event list list"
  processed_queue :: "event list list"
  num_of_schedulers :: nat
  schedule_queue :: "'q list"
  input_queue_scheduler_map :: "nat list"
  is_lp_migration_on :: bool
  worker_thread_scheduler_map :: "nat list"
  scheduled_event_pointer :: "event option list"

definition event_set_new :: "'q event_set" where
  "event_set_new =
     \<lparr>num_of_lps = 0, input_queue_lock = [], input_queue = [], processed_queue = [],
      num_of_schedulers = 0, schedule_queue = [], input_queue_scheduler_map = [],
      is_lp_migration_on = False, worker_thread_scheduler_map = [],
      scheduled_event_pointer = []\<rparr>"

definition set_input :: "nat \<Rightarrow> event list \<Rightarrow> 'q event_set \<Rightarrow> 'q event_set" where
  "set_input lp q es = es\<lparr>input_queue := (input_queue es)[lp := q]\<rparr>"

definition set_processed :: "nat \<Rightarrow> event list \<Rightarrow> 'q event_set \<Rightarrow> 'q event_set" where
  "set_processed lp q es = es\<lparr>processed_queue := (processed_queue es)[lp := q]\<rparr>"

definition set_schedule :: "nat \<Rightarrow> 'q \<Rightarrow> 'q event_set \<Rightarrow> 'q event_set" where
  "set_schedule s q es = es\<lparr>schedule_queue := (schedule_queue es)[s := q]\<rparr>"

definition set_pointer :: "nat \<Rightarrow> event option \<Rightarrow> 'q event_set \<Rightarrow> 'q event_set" where
  "set_pointer lp p es = es\<lparr>scheduled_event_pointer := (scheduled_event_pointer es)[lp := p]\<rparr>"

definition set_scheduler :: "nat \<Rightarrow> nat \<Rightarrow> 'q event_set \<Rightarrow> 'q event_set" where
  "set_scheduler lp s es =
     es\<lparr>input_queue_scheduler_map := (input_queue_scheduler_map es)[lp := s]\<rparr>"

lemmas set_defs [simp] =
  set_input_def set_processed_def set_schedule_def set_pointer_def set_scheduler_def

section \<open>Operations\<close>

text \<open>Each vector is extended as by \<open>push_back\<close>; \<open>lps\<close> is the list of scheduler partitions.\<close>

definition initialize :: "'q sched_ops \<Rightarrow> 'lp list list \<Rightarrow> nat \<Rightarrow> bool \<Rightarrow> nat \<Rightarrow>
    'q event_set \<Rightarrow> 'q event_set res" where
  "initialize ops lps num_lps migration num_worker_threads es =
     (let es1 = es\<lparr>num_of_lps := num_lps, num_of_schedulers := length lps,
                   is_lp_migration_on := migration,
                   input_queue_lock := replicate num_lps False,
                   input_queue := input_queue es @ map (\<lambda>_. []) (concat lps),
                   processed_queue := processed_queue es @ map (\<lambda>_. []) (concat lps),
                   scheduled_event_pointer :=
                     scheduled_event_pointer es @ map (\<lambda>_. None) (concat lps),
                   input_queue_scheduler_map := input_queue_scheduler_map es @
                     concat (map (\<lambda>(scheduler_id, part). map (\<lambda>_. scheduler_id) part)
                       (zip [0..<length lps] lps)),
                   schedule_queue := schedule_queue es @ map (\<lambda>_. sq_new ops) [0..<length lps]\<rparr>
      in if num_worker_threads > 0 \<and> length lps = 0 then Inl Div_By_Zero
         else Inr (es1\<lparr>worker_thread_scheduler_map := worker_thread_scheduler_map es @
                     map (\<lambda>thread_id. thread_id mod length lps) [0..<num_worker_threads]\<rparr>))"

text \<open>A mutex that is taken blocks its caller: \<open>None\<close> is "blocks".\<close>

definition acquireInputQueueLock :: "nat \<Rightarrow> 'q event_set \<Rightarrow> 'q event_set option" where
  "acquireInputQueueLock lp es =
     (if input_queue_lock es ! lp then None
      else Some (es\<lparr>input_queue_lock := (input_queue_lock es)[lp := True]\<rparr>))"

definition releaseInputQueueLock :: "nat \<Rightarrow> 'q event_set \<Rightarrow> 'q event_set" where
  "releaseInputQueueLock lp es = es\<lparr>input_queue_lock := (input_queue_lock es)[lp := False]\<rparr>"

definition insertEvent ::
    "'q sched_ops \<Rightarrow> nat \<Rightarrow> event \<Rightarrow> 'q event_set \<Rightarrow> 'q event_set res" where
  "insertEvent ops lp event es0 =
     (let es = set_input lp (ev_insert event (input_queue es0 ! lp)) es0;
          s = input_queue_scheduler_map es ! lp
      in case scheduled_event_pointer es ! lp of
           None \<Rightarrow>
             bindR (assertR (length (input_queue es ! lp) = 1)) (\<lambda>_.
             bindR (sq_insert ops event (schedule_queue es ! s)) (\<lambda>q.
             Inr (set_pointer lp (Some event) (set_schedule s q es))))
         | Some scheduled \<Rightarrow>
             (let smallest = hd (input_queue es ! lp)
              in if ev_ptr smallest \<noteq> ev_ptr scheduled then
                   bindR (sq_erase ops scheduled (schedule_queue es ! s)) (\<lambda>(num_erased, q).
                     if num_erased \<noteq> 0 then
                       bindR (assertR (num_erased = 1)) (\<lambda>_.
                       bindR (sq_insert ops smallest q) (\<lambda>q'.
                       Inr (set_pointer lp (Some smallest) (set_schedule s q' es))))
                     else Inr (set_schedule s q es))
                 else Inr es))"

definition getEvent :: "'q sched_ops \<Rightarrow> nat \<Rightarrow> 'q event_set \<Rightarrow> (event option \<times> 'q event_set) res" where
  "getEvent ops thread_id es =
     (let s = worker_thread_scheduler_map es ! thread_id
      in bindR (sq_pop ops (schedule_queue es ! s)) (\<lambda>(event, q).
           Inr (event, set_schedule s q es)))"

definition lastProcessedEvent :: "nat \<Rightarrow> 'q event_set \<Rightarrow> event option" where
  "lastProcessedEvent lp es =
     (if length (processed_queue es ! lp) \<noteq> 0 then Some (last (processed_queue es ! lp)) else None)"

function rollback_loop :: "event \<Rightarrow> event list \<Rightarrow> event list \<Rightarrow> event list \<times> event list" where
  "rollback_loop straggler pq iq =
     (if pq \<noteq> [] \<and> ev_ge (last pq) straggler
      then rollback_loop straggler (butlast pq) (ev_insert (last pq) iq)
      else (pq, iq))"
  by pat_completeness auto
termination
  by (relation "measure (\<lambda>(_, pq, _). length pq)") auto

declare rollback_loop.simps [simp del]

definition rollback :: "nat \<Rightarrow> event \<Rightarrow> 'q event_set \<Rightarrow> 'q event_set" where
  "rollback lp straggler es =
     (let (pq, iq) = rollback_loop straggler (processed_queue es ! lp) (input_queue es ! lp)
      in set_input lp iq (set_processed lp pq es))"

text \<open>The reverse iteration over the processed queue, \<open>events\<close> is the vector built so far.\<close>

fun coast_loop :: "event \<Rightarrow> event \<Rightarrow> event list \<Rightarrow> event list \<Rightarrow> event list res" where
  "coast_loop straggler restored [] events = Inr events"
| "coast_loop straggler restored (e # es) events =
     (if ev_gt e restored then
        bindR (assertR (ev_less e straggler)) (\<lambda>_.
        coast_loop straggler restored es (events @ [e]))
      else Inr events)"

definition getEventsForCoastForward ::
    "nat \<Rightarrow> event \<Rightarrow> event \<Rightarrow> 'q event_set \<Rightarrow> event list res" where
  "getEventsForCoastForward lp straggler restored es =
     coast_loop straggler restored (rev (processed_queue es ! lp)) []"

definition startScheduling :: "'q sched_ops \<Rightarrow> nat \<Rightarrow> 'q event_set \<Rightarrow> 'q event_set res" where
  "startScheduling ops lp es =
     (if input_queue es ! lp \<noteq> [] then
        (let event = hd (input_queue es ! lp); s = input_queue_scheduler_map es ! lp
         in bindR (sq_insert ops event (schedule_queue es ! s)) (\<lambda>q.
              Inr (set_schedule s q (set_pointer lp (Some event) es))))
      else Inr (set_pointer lp None es))"

definition migrate :: "nat \<Rightarrow> 'q event_set \<Rightarrow> 'q event_set" where
  "migrate lp es =
     (if is_lp_migration_on es
      then set_scheduler lp ((input_queue_scheduler_map es ! lp + 1) mod num_of_schedulers es) es
      else es)"

definition replenishScheduler :: "'q sched_ops \<Rightarrow> nat \<Rightarrow> 'q event_set \<Rightarrow> 'q event_set res" where
  "replenishScheduler ops lp es =
     (case scheduled_event_pointer es ! lp of
        None \<Rightarrow> Inl Assert_Failed
      | Some e \<Rightarrow>
          (let (num_erased, iq) = ms_erase compareEvents e (input_queue es ! lp)
           in bindR (assertR (num_erased = 1)) (\<lambda>_.
              startScheduling ops lp (migrate lp
                (set_processed lp (processed_queue es ! lp @ [e]) (set_input lp iq es))))))"

definition cancelEvent :: "nat \<Rightarrow> event \<Rightarrow> 'q event_set \<Rightarrow> (bool \<times> 'q event_set) res" where
  "cancelEvent lp cancel es =
     (let iq = input_queue es ! lp
      in case ms_find compareEvents cancel iq of
           None \<Rightarrow> Inl Assert_Failed
         | Some i \<Rightarrow>
             bindR (assertR (Suc i < length iq)) (\<lambda>_.
               if ev_eq (iq ! Suc i) (iq ! i)
               then Inr (True, set_input lp (ms_erase_at i (ms_erase_at (Suc i) iq)) es)
               else Inr (False, es)))"

text \<open>The loop keeps the last element: \<open>begin() != std::prev(end())\<close>.\<close>

fun fossil_loop :: "u32 \<Rightarrow> event list \<Rightarrow> nat \<Rightarrow> nat \<times> event list" where
  "fossil_loop t (e # e' # es) cnt =
     (if timestamp e < t then fossil_loop t (e' # es) (Suc cnt) else (cnt, e # e' # es))"
| "fossil_loop t es cnt = (cnt, es)"

definition fossilCollect :: "u32 \<Rightarrow> nat \<Rightarrow> 'q event_set \<Rightarrow> nat \<times> 'q event_set" where
  "fossilCollect t lp es =
     (let pq = processed_queue es ! lp
      in if pq = [] then (0, es)
         else if t = uint_max then (length pq, set_processed lp [] es)
         else (let (cnt, pq') = fossil_loop t pq 0 in (cnt, set_processed lp pq' es)))"

end
