(* ===== verification/TW_Output.thy ===== *)
theory TW_Output
  imports TW_EventSet
begin

text \<open>
  The output manager (\<open>src/src/TimeWarpOutputManager.*\<close>, \<open>TimeWarpAggressiveOutputManager.*\<close>): for
  each LP the events it has sent, each with the input event whose processing sent it, so that a
  rollback knows which anti-messages to send.
\<close>

record OutputEvent =
  input_event :: event
  output_event :: event

record output_manager =
  output_queue :: "OutputEvent list list"
  om_num_local_lps :: nat

definition om_initialize :: "nat \<Rightarrow> output_manager" where
  "om_initialize n = \<lparr>output_queue = replicate n [], om_num_local_lps = n\<rparr>"

definition om_insertEvent :: "event \<Rightarrow> event \<Rightarrow> nat \<Rightarrow> output_manager \<Rightarrow> output_manager" where
  "om_insertEvent ie oe lp om =
     om\<lparr>output_queue := (output_queue om)[lp := output_queue om ! lp @
        [\<lparr>input_event = ie, output_event = oe\<rparr>]]\<rparr>"

fun om_fossil_loop :: "u32 \<Rightarrow> OutputEvent list \<Rightarrow> OutputEvent list" where
  "om_fossil_loop gvt [] = []"
| "om_fossil_loop gvt (o1 # q) =
     (if timestamp (input_event o1) < gvt then om_fossil_loop gvt q else o1 # q)"

definition om_fossilCollect :: "u32 \<Rightarrow> nat \<Rightarrow> output_manager \<Rightarrow> u32 \<times> output_manager" where
  "om_fossilCollect gvt lp om =
     (let q = output_queue om ! lp
      in if q = [] then (uint_max, om)
         else let q' = om_fossil_loop gvt q
              in (case q' of [] \<Rightarrow> uint_max | o1 # _ \<Rightarrow> timestamp (input_event o1),
                  om\<lparr>output_queue := (output_queue om)[lp := q']\<rparr>))"

text \<open>The loop of \<open>removeEventsSentAfter\<close>: the remaining queue and the events to cancel.\<close>

function remove_loop :: "event \<Rightarrow> OutputEvent list \<Rightarrow> event list \<Rightarrow> OutputEvent list \<times> event list" where
  "remove_loop straggler q cancel =
     (if q \<noteq> [] \<and> ev_ge (input_event (last q)) straggler
      then remove_loop straggler (butlast q) (cancel @ [output_event (last q)])
      else (q, cancel))"
  by pat_completeness auto
termination
  by (relation "measure (\<lambda>(_, q, _). length q)") auto

declare remove_loop.simps [simp del]

definition removeEventsSentAfter :: "event \<Rightarrow> nat \<Rightarrow> output_manager \<Rightarrow> event list \<times> output_manager" where
  "removeEventsSentAfter straggler lp om =
     (let (q, cancel) = remove_loop straggler (output_queue om ! lp) []
      in (cancel, om\<lparr>output_queue := (output_queue om)[lp := q]\<rparr>))"

definition om_rollback :: "event \<Rightarrow> nat \<Rightarrow> output_manager \<Rightarrow> event list \<times> output_manager" where
  "om_rollback straggler lp om = removeEventsSentAfter straggler lp om"

definition om_size :: "nat \<Rightarrow> output_manager \<Rightarrow> nat" where
  "om_size lp om = length (output_queue om ! lp)"

section \<open>Lemmas\<close>

lemma remove_loop_simps [simp]:
  "remove_loop s [] c = ([], c)"
  "remove_loop s (q @ [x]) c =
     (if ev_ge (input_event x) s then remove_loop s q (c @ [output_event x]) else (q @ [x], c))"
  by (simp_all add: remove_loop.simps [of s "[]" c] remove_loop.simps [of s "q @ [x]" c])

lemma remove_loop_eq:
  "remove_loop s q c =
     (rev (dropWhile (\<lambda>x. ev_ge (input_event x) s) (rev q)),
      c @ map output_event (takeWhile (\<lambda>x. ev_ge (input_event x) s) (rev q)))"
  by (induction q arbitrary: c rule: rev_induct) auto

text \<open>The queue of an LP is in the order of the input events, which may repeat.\<close>

definition om_sorted :: "OutputEvent list \<Rightarrow> bool" where
  "om_sorted q \<longleftrightarrow> sorted (map (ev_key \<circ> input_event) q)"

lemma om_sorted_wrt: "om_sorted q \<longleftrightarrow> sorted_wrt (\<lambda>x y. ev_key (input_event x) \<le> ev_key (input_event y)) q"
  by (simp add: om_sorted_def sorted_map)

lemma remove_loop_sorted:
  assumes "om_sorted q"
  shows "remove_loop s q [] =
    (filter (\<lambda>x. ev_less (input_event x) s) q,
     rev (map output_event (filter (\<lambda>x. ev_ge (input_event x) s) q)))"
proof -
  let ?P = "\<lambda>x. ev_ge (input_event x) s"
  have "\<forall>x y. ev_key (input_event x) \<le> ev_key (input_event y) \<longrightarrow> ?P x \<longrightarrow> ?P y"
    by (auto simp: ev_ge_key)
  note * = rev_dropWhile_rev_sorted [OF assms [unfolded om_sorted_wrt] this]
  show ?thesis unfolding remove_loop_eq * by (simp add: rev_map ev_ge_def)
qed

lemma om_fossil_loop_eq: "om_fossil_loop gvt q = dropWhile (\<lambda>x. timestamp (input_event x) < gvt) q"
  by (induction q) auto

lemma om_sorted_append: "om_sorted (q @ [x]) \<longleftrightarrow>
    om_sorted q \<and> (\<forall>y\<in>set q. ev_key (input_event y) \<le> ev_key (input_event x))"
  by (simp add: om_sorted_wrt sorted_wrt_append)

lemma om_sorted_filter: "om_sorted q \<Longrightarrow> om_sorted (filter P q)"
  by (simp add: om_sorted_wrt sorted_wrt_filter)

section \<open>Properties\<close>

text \<open>C16: A rollback removes from the output queue of the LP exactly the entries whose input event is
  not before the straggler, returns their output events latest first, for which anti-messages have
  to be sent, keeps all others in order, and touches no other LP. The comment in the code
  (\<open>src/src/TimeWarpOutputManager.cpp:42\<close>) says that the events strictly greater than the straggler are wanted; the
  loop (line 49) compares with \<open>>=\<close>, so that the output of an event equal to the straggler is removed and
  cancelled too, as it has to be when a negative event takes back its positive counterpart. The
  theorem states what the code does, which on equal events is not what the comment says.\<close>

theorem om_rollback_exact:
  assumes "om_sorted (output_queue om ! lp)"
  shows "om_rollback s lp om =
    (rev (map output_event (filter (\<lambda>x. ev_ge (input_event x) s) (output_queue om ! lp))),
     om\<lparr>output_queue := (output_queue om)[lp :=
        filter (\<lambda>x. ev_less (input_event x) s) (output_queue om ! lp)]\<rparr>)"
  using assms by (simp add: om_rollback_def removeEventsSentAfter_def remove_loop_sorted)

theorem om_rollback_exact_witness:
  "fst (om_rollback (InitialEvent 0) 0
     (om_insertEvent (InitialEvent 1) (InitialEvent 2) 0 (om_initialize 1))) = [InitialEvent 2]"
  using om_rollback_exact [of "om_insertEvent (InitialEvent 1) (InitialEvent 2) 0 (om_initialize 1)" 0]
  by (simp add: om_insertEvent_def om_initialize_def om_sorted_def ev_ge_key ev_key_def InitialEvent_def)

text \<open>Fossil collection of the output queue keeps exactly the entries whose input event is not
  before GVT, and returns the time of the first of them, or the largest unsigned value if none is
  left.\<close>

theorem om_fossilCollect_exact:
  assumes "om_sorted (output_queue om ! lp)" and "lp < length (output_queue om)"
  shows "output_queue (snd (om_fossilCollect gvt lp om)) = (output_queue om)[lp :=
      filter (\<lambda>x. \<not> timestamp (input_event x) < gvt) (output_queue om ! lp)] \<and>
    fst (om_fossilCollect gvt lp om) =
      (case filter (\<lambda>x. \<not> timestamp (input_event x) < gvt) (output_queue om ! lp) of
         [] \<Rightarrow> uint_max | x # _ \<Rightarrow> timestamp (input_event x))"
proof -
  have "sorted_wrt (\<lambda>x y. timestamp (input_event x) \<le> timestamp (input_event y)) (output_queue om ! lp)"
    using assms(1) unfolding om_sorted_wrt
    by (rule sorted_wrt_mono_rel [rotated]) (rule ev_key_timestamp_le)
  then have drop: "dropWhile (\<lambda>x. timestamp (input_event x) < gvt) (output_queue om ! lp) =
      filter (\<lambda>x. \<not> timestamp (input_event x) < gvt) (output_queue om ! lp)"
    by (rule dropWhile_eq_filter_sorted) simp
  have "(output_queue om)[lp := []] = output_queue om" if "output_queue om ! lp = []"
    using that by (metis list_update_id)
  then show ?thesis using drop by (simp add: om_fossilCollect_def om_fossil_loop_eq Let_def)
qed

theorem om_fossilCollect_exact_witness:
  "fst (om_fossilCollect 5 0
     (om_insertEvent (InitialEvent 1) (InitialEvent 2) 0 (om_initialize 1))) = uint_max"
  using om_fossilCollect_exact [of "om_insertEvent (InitialEvent 1) (InitialEvent 2) 0 (om_initialize 1)" 0 5]
  by (simp add: om_insertEvent_def om_initialize_def om_sorted_def InitialEvent_def)

end
