(* ===== verification/TW_State.thy ===== *)
theory TW_State
  imports TW_EventSet
begin

text \<open>
  Logical processes and the state manager: \<open>src/src/LogicalProcess.hpp\<close>, \<open>LPState.hpp\<close>,
  \<open>RandomNumberGenerator.hpp\<close>, \<open>TimeWarpStateManager.*\<close>, \<open>TimeWarpPeriodicStateManager.*\<close>.

  The model's own code is a parameter: the record \<open>lp_ops\<close> holds what a subclass of
  \<open>LogicalProcess\<close> defines (\<open>receiveEvent\<close>, \<open>initializeLP\<close>), the textual form in which a random
  number generator writes and reads its state, and \<open>moved\<close>, the value that the model's state class
  leaves behind in an object it is move-assigned from. \<open>'s\<close> is the type of LP states and \<open>'g\<close> of
  generators.
\<close>

record ('s, 'g) lp =
  name :: string
  lp_state :: 's
  rng_list :: "'g list"
  last_fossil_collect_gvt :: u32
  lp_generation :: u64

record ('s, 'g) lp_ops =
  receiveEvent :: "event \<Rightarrow> 's \<times> 'g list \<Rightarrow> ('s \<times> 'g list) \<times> event list"
  initializeLP :: "'s \<times> 'g list \<Rightarrow> ('s \<times> 'g list) \<times> event list"
  rng_getState :: "'g \<Rightarrow> string"
  rng_restoreState :: "string \<Rightarrow> 'g \<Rightarrow> 'g"
  moved :: "'s \<Rightarrow> 's"

definition lp_receive :: "('s, 'g) lp_ops \<Rightarrow> event \<Rightarrow> ('s, 'g) lp \<Rightarrow> ('s, 'g) lp \<times> event list" where
  "lp_receive ops e lp =
     (let ((s, g), new_events) = receiveEvent ops e (lp_state lp, rng_list lp)
      in (lp\<lparr>lp_state := s, rng_list := g\<rparr>, new_events))"

text \<open>\<open>LPStateMixin::restoreState\<close>: move assignment; the new value and what remains of the source.\<close>

definition LPState_restoreState :: "('s, 'g) lp_ops \<Rightarrow> 's \<Rightarrow> 's \<times> 's" where
  "LPState_restoreState ops os = (os, moved ops os)"

section \<open>State manager\<close>

record 's SavedState =
  state_event :: event
  saved_lp_state :: 's
  rng_state :: "string list"

record 's state_manager =
  state_queue :: "'s SavedState list list"
  sm_num_local_lps :: nat
  period :: u32
  count :: "u32 list"

definition sm_initialize :: "nat \<Rightarrow> 's state_manager \<Rightarrow> 's state_manager" where
  "sm_initialize n sm =
     sm\<lparr>sm_num_local_lps := n, count := replicate n 0, state_queue := replicate n []\<rparr>"

definition saveState :: "('s, 'g) lp_ops \<Rightarrow> event \<Rightarrow> nat \<Rightarrow> ('s, 'g) lp \<Rightarrow>
    's state_manager \<Rightarrow> 's state_manager" where
  "saveState ops current_event lp_id lp sm =
     (if count sm ! lp_id = 0 then
        sm\<lparr>state_queue := (state_queue sm)[lp_id := state_queue sm ! lp_id @
             [\<lparr>state_event = current_event, saved_lp_state = lp_state lp,
               rng_state = map (rng_getState ops) (rng_list lp)\<rparr>]],
           count := (count sm)[lp_id := period sm - 1]\<rparr>
      else sm\<lparr>count := (count sm)[lp_id := count sm ! lp_id - 1]\<rparr>)"

function restore_loop :: "event \<Rightarrow> 's SavedState list \<Rightarrow> 's SavedState list" where
  "restore_loop rollback_event q =
     (if q \<noteq> [] \<and> ev_ge (state_event (last q)) rollback_event
      then restore_loop rollback_event (butlast q) else q)"
  by pat_completeness auto
termination
  by (relation "measure (\<lambda>(_, q). length q)") auto

declare restore_loop.simps [simp del]

text \<open>
  The generators are restored from the back of the list of saved states, each of which is removed
  (\<open>back()\<close> of an empty list would be undefined), and their states are saved again.
\<close>

fun restore_rngs :: "('s, 'g) lp_ops \<Rightarrow> 'g list \<Rightarrow> string list \<Rightarrow> ('g list \<times> string list) res" where
  "restore_rngs ops [] saved = Inr ([], saved)"
| "restore_rngs ops (rng # rngs) saved =
     (if saved = [] then Inl Null_Deref
      else bindR (restore_rngs ops rngs (butlast saved)) (\<lambda>(gs, rest).
           Inr (rng_restoreState ops (last saved) rng # gs, rest)))"

definition restoreState :: "('s, 'g) lp_ops \<Rightarrow> event \<Rightarrow> nat \<Rightarrow> ('s, 'g) lp \<Rightarrow> 's state_manager \<Rightarrow>
    (event \<times> ('s, 'g) lp \<times> 's state_manager) res" where
  "restoreState ops rollback_event lp_id lp sm =
     bindR (assertR (state_queue sm ! lp_id \<noteq> [])) (\<lambda>_.
     let q = restore_loop rollback_event (state_queue sm ! lp_id)
     in bindR (assertR (q \<noteq> [])) (\<lambda>_.
        let saved = last q; (s, left) = LPState_restoreState ops (saved_lp_state saved)
        in bindR (restore_rngs ops (rev (rng_list lp)) (rng_state saved)) (\<lambda>(rgs, rest).
           let gs = rev rgs;
               saved' = saved\<lparr>saved_lp_state := left, rng_state := rest @ map (rng_getState ops) gs\<rparr>
           in Inr (state_event saved, lp\<lparr>lp_state := s, rng_list := gs\<rparr>,
                   sm\<lparr>state_queue := (state_queue sm)[lp_id := butlast q @ [saved']]\<rparr>))))"

text \<open>The loop keeps the queue's first two elements in view, \<open>min\<close> and \<open>next\<close>.\<close>

fun sm_fossil_loop :: "u32 \<Rightarrow> 's SavedState list \<Rightarrow> 's SavedState list" where
  "sm_fossil_loop gvt (a # b # q) =
     (if timestamp (state_event b) < gvt then sm_fossil_loop gvt (b # q) else a # b # q)"
| "sm_fossil_loop gvt q = q"

definition sm_fossilCollect :: "u32 \<Rightarrow> nat \<Rightarrow> 's state_manager \<Rightarrow> u32 \<times> 's state_manager" where
  "sm_fossilCollect gvt lp_id sm =
     (if state_queue sm ! lp_id = [] then (0, sm)
      else let q = sm_fossil_loop gvt (state_queue sm ! lp_id)
           in if gvt = uint_max
              then (gvt, sm\<lparr>state_queue := (state_queue sm)[lp_id := tl q]\<rparr>)
              else (timestamp (state_event (hd q)),
                    sm\<lparr>state_queue := (state_queue sm)[lp_id := q]\<rparr>))"

definition sm_size :: "nat \<Rightarrow> 's state_manager \<Rightarrow> nat" where
  "sm_size lp_id sm = length (state_queue sm ! lp_id)"

end
