(* ===== verification/TW_State_Props.thy ===== *)
theory TW_State_Props
  imports TW_State
begin

text \<open>
  What saving, restoring and fossil collecting states promise. The library relies on one law of the
  random number generators (the round trip of the standard engines): the predicate \<open>rng_law\<close>.
\<close>

section \<open>Random number generators\<close>

definition rng_law :: "('s, 'g) lp_ops \<Rightarrow> bool" where
  "rng_law ops \<longleftrightarrow> (\<forall>g g'. rng_restoreState ops (rng_getState ops g) g' = g)"

lemma map2_round_trip:
  "length gs = length gs' \<Longrightarrow> rng_law ops \<Longrightarrow>
   map2 (rng_restoreState ops) (map (rng_getState ops) gs) gs' = gs"
  by (induction gs gs' rule: list_induct2) (simp_all add: rng_law_def)

lemma restore_rngs_eq:
  "length saved = length rngs \<Longrightarrow>
   restore_rngs ops rngs saved = Inr (map2 (rng_restoreState ops) (rev saved) rngs, [])"
proof (induction rngs arbitrary: saved)
  case (Cons rng rngs)
  then obtain xs x where "saved = xs @ [x]" by (cases saved rule: rev_cases) auto
  with Cons show ?case by simp
qed simp

lemma rev_map2: "length xs = length ys \<Longrightarrow> rev (map2 f (rev xs) (rev ys)) = map2 f xs ys"
  by (simp add: rev_map zip_rev)

lemma restore_rngs_round_trip:
  assumes "rng_law ops" and "length gs = length rngs"
  shows "restore_rngs ops (rev rngs) (map (rng_getState ops) gs) = Inr (rev gs, [])"
proof -
  have "map2 (rng_restoreState ops) (rev (map (rng_getState ops) gs)) (rev rngs) = rev gs"
    using map2_round_trip [of "rev gs" "rev rngs" ops] assms
    by (simp add: rev_map)
  then show ?thesis using restore_rngs_eq [of "map (rng_getState ops) gs" "rev rngs" ops] assms(2)
    by simp
qed

section \<open>Restoring\<close>

lemma restore_loop_simps [simp]:
  "restore_loop r [] = []"
  "restore_loop r (q @ [x]) = (if ev_ge (state_event x) r then restore_loop r q else q @ [x])"
  by (simp_all add: restore_loop.simps [of r "[]"] restore_loop.simps [of r "q @ [x]"])

lemma restore_loop_eq: "restore_loop r q = rev (dropWhile (\<lambda>x. ev_ge (state_event x) r) (rev q))"
  by (induction q rule: rev_induct) auto

definition saved_sorted :: "'s SavedState list \<Rightarrow> bool" where
  "saved_sorted q \<longleftrightarrow> sorted_wrt (\<lambda>a b. ev_less (state_event a) (state_event b)) q"

lemma restore_loop_sorted:
  assumes "saved_sorted q"
  shows "restore_loop r q = filter (\<lambda>x. ev_less (state_event x) r) q"
proof -
  have "\<forall>a b. ev_less (state_event a) (state_event b) \<longrightarrow>
      ev_ge (state_event a) r \<longrightarrow> ev_ge (state_event b) r"
    by (auto simp: ev_key_simps)
  from rev_dropWhile_rev_sorted(1) [OF assms [unfolded saved_sorted_def] this]
  show ?thesis by (simp add: restore_loop_eq ev_ge_def)
qed

lemma saved_sorted_filter: "saved_sorted q \<Longrightarrow> saved_sorted (filter P q)"
  by (simp add: saved_sorted_def sorted_wrt_filter)

text \<open>One saved state restored: the queue is cut behind it.\<close>

lemma restoreState_eq:
  assumes sorted: "saved_sorted (state_queue sm ! i)"
    and q: "filter (\<lambda>x. ev_less (state_event x) r) (state_queue sm ! i) = q' @ [saved]"
    and rng: "rng_law ops" "rng_state saved = map (rng_getState ops) gs" "length gs = length (rng_list lp)"
  shows "restoreState ops r i lp sm =
    Inr (state_event saved, lp\<lparr>lp_state := saved_lp_state saved, rng_list := gs\<rparr>,
      sm\<lparr>state_queue := (state_queue sm)[i := q' @
        [saved\<lparr>saved_lp_state := moved ops (saved_lp_state saved)\<rparr>]]\<rparr>)"
proof -
  obtain e s where sv: "saved = \<lparr>state_event = e, saved_lp_state = s, rng_state = map (rng_getState ops) gs\<rparr>"
    using rng(2) by (cases saved) simp
  from q have "state_queue sm ! i \<noteq> []" by auto
  then show ?thesis
    using restore_rngs_round_trip [OF rng(1,3)] q
    by (simp add: sv restoreState_def restore_loop_sorted [OF sorted] Let_def
        LPState_restoreState_def)
qed

section \<open>Fossil collection\<close>

lemma sm_fossil_loop_neq_Nil: "q \<noteq> [] \<Longrightarrow> sm_fossil_loop gvt q \<noteq> []"
  by (induction gvt q rule: sm_fossil_loop.induct) auto

lemma sm_fossil_loop_suffix: "\<exists>p. q = p @ sm_fossil_loop gvt q"
proof (induction gvt q rule: sm_fossil_loop.induct)
  case (1 gvt a b q)
  then show ?case by (auto intro: exI [of _ "a # _"]) (metis append_Cons)
qed auto

lemma sm_fossil_loop_tl:
  "sorted_wrt (\<lambda>a b. timestamp (state_event a) \<le> timestamp (state_event b)) q \<Longrightarrow>
   \<forall>x\<in>set (tl (sm_fossil_loop gvt q)). \<not> timestamp (state_event x) < gvt"
  by (induction gvt q rule: sm_fossil_loop.induct) auto

lemma sm_fossil_loop_dropped:
  "q = p @ sm_fossil_loop gvt q \<Longrightarrow> p \<noteq> [] \<Longrightarrow> timestamp (state_event (hd (sm_fossil_loop gvt q))) < gvt"
proof (induction gvt q arbitrary: p rule: sm_fossil_loop.induct)
  case (1 gvt a b q)
  show ?case
  proof (cases "timestamp (state_event b) < gvt")
    case True
    with "1.prems" obtain p' where p: "p = a # p'" "b # q = p' @ sm_fossil_loop gvt (b # q)"
      by (cases p) auto
    show ?thesis
    proof (cases p')
      case Nil
      with p True show ?thesis by (metis append_Nil list.sel(1) sm_fossil_loop.simps(1))
    next
      case (Cons x xs)
      with "1.IH" [OF True p(2)] True show ?thesis by simp
    qed
  qed (use "1.prems" in auto)
qed auto

section \<open>Periodic saving\<close>

lemma saveState_run:
  assumes "unat (period sm) > 0" and "i < length (count sm)" and "i < length (state_queue sm)"
    and "unat (count sm ! i) < unat (period sm)"
  shows "map state_event (state_queue (fold (\<lambda>(e, lp). saveState ops e i lp) es sm) ! i) =
    map state_event (state_queue sm ! i) @
    map fst (nths es {j. unat (count sm ! i) mod unat (period sm) = j mod unat (period sm)})"
  using assms
proof (induction es arbitrary: sm)
  case (Cons x es)
  obtain e lp where x: "x = (e, lp)" by (cases x)
  let ?p = "unat (period sm)" and ?c = "unat (count sm ! i)"
  let ?sm = "saveState ops e i lp sm"
  have period_pos: "period sm \<noteq> 0" using Cons.prems(1) by auto
  have inv: "period ?sm = period sm" "length (count ?sm) = length (count sm)"
    "length (state_queue ?sm) = length (state_queue sm)"
    by (simp_all add: saveState_def)
  show ?case
  proof (cases "count sm ! i = 0")
    case True
    then have c: "unat (count ?sm ! i) = ?p - 1"
      using Cons.prems period_pos by (simp add: saveState_def unat_minus_one)
    have "{j. Suc j \<in> {j. ?c mod ?p = j mod ?p}} = {j. (?p - 1) mod ?p = j mod ?p}"
      using True Cons.prems(1) mod_Suc [of _ ?p] by (auto simp: mod_Suc split: if_splits)
    with Cons.IH [of ?sm] c inv Cons.prems True x show ?thesis
      by (simp add: nths_Cons saveState_def)
  next
    case False
    then have c: "unat (count ?sm ! i) = ?c - 1" "?c > 0"
      using Cons.prems by (auto simp: saveState_def unat_minus_one unat_gt_0)
    have "{j. Suc j \<in> {j. ?c mod ?p = j mod ?p}} = {j. (?c - 1) mod ?p = j mod ?p}"
      using c Cons.prems(4) mod_Suc [of _ ?p] by (auto simp: mod_Suc split: if_splits)
    moreover have "?c mod ?p \<noteq> 0 mod ?p" using c Cons.prems(4) by simp
    ultimately show ?thesis using Cons.IH [of ?sm] c inv Cons.prems False x
      by (simp add: nths_Cons saveState_def)
  qed
qed simp

end
