(* ===== verification/TW_EventSet_Inv.thy ===== *)
theory TW_EventSet_Inv
  imports TW_EventSet
begin

text \<open>
  The contract of a schedule queue as two locales (\<open>sched_bag\<close>: insertion and removal of a least
  event; \<open>sched_queue\<close>: removal of a given event as well), the invariant of the event set
  \<open>es_inv\<close>, and the proof that every operation keeps it and does what it promises, over any
  schedule queue that meets the contract. The \<open>std::multiset\<close> of the default build is an
  interpretation.

  \<open>P\<close> is the set of LPs whose scheduled event has been taken by a worker thread and is being
  processed: their event is in the input queue but no longer in a schedule queue.
\<close>

section \<open>Schedule queue contract\<close>

locale sched_bag =
  fixes ops :: "'q sched_ops" and sq_inv :: "'q \<Rightarrow> bool" and content :: "'q \<Rightarrow> event multiset"
  assumes new_ok: "sq_inv (sq_new ops)" "content (sq_new ops) = {#}"
    and insert_ok: "sq_inv q \<Longrightarrow>
      \<exists>q'. sq_insert ops e q = Inr q' \<and> sq_inv q' \<and> content q' = add_mset e (content q)"
    and pop_ok: "sq_inv q \<Longrightarrow> \<exists>r q'. sq_pop ops q = Inr (r, q') \<and> sq_inv q' \<and>
      (case r of
         None \<Rightarrow> content q = {#} \<and> content q' = {#}
       | Some e \<Rightarrow> content q = add_mset e (content q') \<and>
           (\<forall>x\<in>#content q. \<not> ev_less x e))"

locale sched_queue = sched_bag +
  assumes erase_ok: "sq_inv q \<Longrightarrow> \<exists>q'. sq_erase ops e q =
      Inr (size (filter_mset (\<lambda>x. ev_key5 x = ev_key5 e) (content q)), q') \<and> sq_inv q' \<and>
      content q' = filter_mset (\<lambda>x. ev_key5 x \<noteq> ev_key5 e) (content q)"

section \<open>The invariant\<close>

definition all_events :: "'q event_set \<Rightarrow> event multiset" where
  "all_events es = mset (concat (input_queue es)) + mset (concat (processed_queue es))"

text \<open>No two events of a node are equivalent under \<open>compareEvents\<close>, or share an address.\<close>

definition distinct_events :: "event multiset \<Rightarrow> bool" where
  "distinct_events M \<longleftrightarrow>
     (\<forall>k. size (filter_mset (\<lambda>x. ev_key5 x = k) M) \<le> 1) \<and>
     (\<forall>p. size (filter_mset (\<lambda>x. ev_ptr x = p) M) \<le> 1)"

definition es_shape :: "'q event_set \<Rightarrow> bool" where
  "es_shape es \<longleftrightarrow>
     length (input_queue es) = num_of_lps es \<and> length (processed_queue es) = num_of_lps es \<and>
     length (input_queue_scheduler_map es) = num_of_lps es \<and>
     length (scheduled_event_pointer es) = num_of_lps es \<and>
     length (schedule_queue es) = num_of_schedulers es \<and>
     (\<forall>s\<in>set (input_queue_scheduler_map es). s < num_of_schedulers es) \<and>
     (\<forall>s\<in>set (worker_thread_scheduler_map es). s < num_of_schedulers es)"

text \<open>What holds of one LP: its input queue, scheduled event, and whether it is in process.\<close>

definition lp_ok :: "bool \<Rightarrow> event list \<Rightarrow> event option \<Rightarrow> bool" where
  "lp_ok busy iq p \<longleftrightarrow> ev_sorted iq \<and>
     (case p of None \<Rightarrow> iq = [] \<and> \<not> busy
      | Some e \<Rightarrow> e \<in> set iq \<and> (busy \<or> e = hd iq))"

definition waiting :: "nat set \<Rightarrow> 'q event_set \<Rightarrow> nat \<Rightarrow> nat set" where
  "waiting P es s =
     {lp. lp < num_of_lps es \<and> lp \<notin> P \<and> scheduled_event_pointer es ! lp \<noteq> None \<and>
          input_queue_scheduler_map es ! lp = s}"

definition waiting_events :: "nat set \<Rightarrow> 'q event_set \<Rightarrow> nat \<Rightarrow> event multiset" where
  "waiting_events P es s =
     image_mset (\<lambda>lp. the (scheduled_event_pointer es ! lp)) (mset_set (waiting P es s))"

definition es_inv :: "('q \<Rightarrow> bool) \<Rightarrow> ('q \<Rightarrow> event multiset) \<Rightarrow> nat set \<Rightarrow> 'q event_set \<Rightarrow> bool" where
  "es_inv sq_inv content P es \<longleftrightarrow>
     es_shape es \<and> distinct_events (all_events es) \<and>
     (\<forall>lp<num_of_lps es.
        lp_ok (lp \<in> P) (input_queue es ! lp) (scheduled_event_pointer es ! lp)) \<and>
     (\<forall>s<num_of_schedulers es.
        sq_inv (schedule_queue es ! s) \<and> content (schedule_queue es ! s) = waiting_events P es s)"

lemma finite_waiting [simp]: "finite (waiting P es s)"
  by (simp add: waiting_def)

section \<open>Distinct events\<close>

lemma distinct_events_add:
  "distinct_events (add_mset e M) \<longleftrightarrow>
     distinct_events M \<and> (\<forall>x\<in>#M. ev_key5 x \<noteq> ev_key5 e \<and> ev_ptr x \<noteq> ev_ptr e)"
proof -
  have *: "(\<forall>k. size (filter_mset (\<lambda>x. f x = k) (add_mset e M)) \<le> 1) \<longleftrightarrow>
      (\<forall>k. size (filter_mset (\<lambda>x. f x = k) M) \<le> 1) \<and> (\<forall>x\<in>#M. f x \<noteq> f e)" for f :: "event \<Rightarrow> 'k"
  proof (intro iffI conjI allI ballI)
    fix k assume a: "\<forall>k. size (filter_mset (\<lambda>x. f x = k) (add_mset e M)) \<le> 1"
    show "size (filter_mset (\<lambda>x. f x = k) M) \<le> 1"
      by (rule order_trans [OF _ a [rule_format, of k]]) simp
    fix x assume "x \<in># M"
    with a [rule_format, of "f e"] show "f x \<noteq> f e"
      by auto
  next
    fix k assume "(\<forall>k. size (filter_mset (\<lambda>x. f x = k) M) \<le> 1) \<and> (\<forall>x\<in>#M. f x \<noteq> f e)"
    moreover from this have "filter_mset (\<lambda>x. f x = f e) M = {#}" by simp
    ultimately show "size (filter_mset (\<lambda>x. f x = k) (add_mset e M)) \<le> 1"
      by (cases "k = f e") (auto simp del: filter_mset_eq_mempty_iff)
  qed
  show ?thesis unfolding distinct_events_def * by blast
qed

lemma distinct_events_subset: "distinct_events M \<Longrightarrow> N \<subseteq># M \<Longrightarrow> distinct_events N"
  unfolding distinct_events_def
  by (meson multiset_filter_mono order_trans size_mset_mono)

lemma distinct_events_key:
  assumes "distinct_events M" "a \<in># M" "b \<in># M" "ev_key5 a = ev_key5 b"
  shows "a = b"
proof -
  from assms(3) obtain N where M: "M = add_mset b N" by (meson multi_member_split)
  with assms show ?thesis by (auto simp: distinct_events_add)
qed

lemma distinct_events_ptr:
  assumes "distinct_events M" "a \<in># M" "b \<in># M" "ev_ptr a = ev_ptr b"
  shows "a = b"
proof -
  from assms(3) obtain N where M: "M = add_mset b N" by (meson multi_member_split)
  with assms show ?thesis by (auto simp: distinct_events_add)
qed

lemma filter_key_distinct:
  assumes "distinct_events M" and "e \<in># M"
  shows "filter_mset (\<lambda>x. ev_key5 x = ev_key5 e) M = {#e#}"
    and "filter_mset (\<lambda>x. ev_key5 x \<noteq> ev_key5 e) M = M - {#e#}"
proof -
  from assms obtain N where M: "M = add_mset e N" by (meson multi_member_split)
  with assms have N: "\<forall>x\<in>#N. ev_key5 x \<noteq> ev_key5 e" by (simp add: distinct_events_add)
  then have "filter_mset (\<lambda>x. ev_key5 x = ev_key5 e) N = {#}" by auto
  with M show "filter_mset (\<lambda>x. ev_key5 x = ev_key5 e) M = {#e#}" by simp
  from N have "filter_mset (\<lambda>x. ev_key5 x \<noteq> ev_key5 e) N = N" by (simp add: filter_mset_eq_conv)
  with M show "filter_mset (\<lambda>x. ev_key5 x \<noteq> ev_key5 e) M = M - {#e#}" by simp
qed

lemma mset_concat_member: "i < length xss \<Longrightarrow> mset (xss ! i) \<subseteq># mset (concat xss)"
proof (induction xss arbitrary: i)
  case (Cons xs xss)
  show ?case
  proof (cases i)
    case (Suc j)
    with Cons have "mset (xss ! j) \<subseteq># mset (concat xss)" by simp
    also have "\<dots> \<subseteq># mset (concat (xs # xss))" by simp
    finally show ?thesis using Suc by simp
  qed simp
qed simp

lemma all_events_input: "es_shape es \<Longrightarrow> lp < num_of_lps es \<Longrightarrow> mset (input_queue es ! lp) \<subseteq># all_events es"
  unfolding all_events_def es_shape_def
  by (metis mset_concat_member mset_subset_eq_add_left subset_mset.order_trans)

lemma all_events_input_mem:
  "es_shape es \<Longrightarrow> lp < num_of_lps es \<Longrightarrow> e \<in> set (input_queue es ! lp) \<Longrightarrow> e \<in># all_events es"
  by (metis all_events_input mset_subset_eqD set_mset_mset)

lemma mset_concat_member2:
  assumes "i \<noteq> j" "i < length xss" "j < length xss"
  shows "mset (xss ! i) + mset (xss ! j) \<subseteq># mset (concat xss)"
proof -
  have "mset (concat xss) = mset (concat (xss[i := []])) + mset (xss ! i)"
    using concat_update_mset [of i xss "[]"] assms(2) by simp
  moreover have "mset (xss ! j) \<subseteq># mset (concat (xss[i := []]))"
    using mset_concat_member [of j "xss[i := []]"] assms by simp
  ultimately show ?thesis by simp
qed

lemma input_queues_disjoint:
  assumes "es_shape es" "distinct_events (all_events es)" "i \<noteq> j" "i < num_of_lps es" "j < num_of_lps es"
    and "a \<in> set (input_queue es ! i)" "b \<in> set (input_queue es ! j)"
  shows "ev_key5 a \<noteq> ev_key5 b"
proof -
  have "mset (input_queue es ! i) + mset (input_queue es ! j) \<subseteq># all_events es"
    using mset_concat_member2 [of i j "input_queue es"] assms
    by (metis all_events_def es_shape_def mset_subset_eq_add_left subset_mset.order_trans)
  moreover have "{#a#} \<subseteq># mset (input_queue es ! i)" "{#b#} \<subseteq># mset (input_queue es ! j)"
    using assms(6,7) by simp_all
  then have "{#a#} + {#b#} \<subseteq># mset (input_queue es ! i) + mset (input_queue es ! j)"
    by (rule subset_mset.add_mono)
  ultimately have "{#a#} + {#b#} \<subseteq># all_events es" by (meson subset_mset.order_trans)
  with assms(2) have "distinct_events ({#a#} + {#b#})" by (rule distinct_events_subset)
  then show ?thesis by (auto simp: distinct_events_add)
qed

section \<open>What one LP contributes to its schedule queue\<close>

definition contrib :: "nat set \<Rightarrow> 'q event_set \<Rightarrow> nat \<Rightarrow> nat \<Rightarrow> event multiset" where
  "contrib P es lp s =
     (if lp \<in> waiting P es s then {#the (scheduled_event_pointer es ! lp)#} else {#})"

text \<open>Two states that agree on every LP but \<open>lp\<close>.\<close>

definition agree_off :: "nat \<Rightarrow> nat set \<Rightarrow> 'q event_set \<Rightarrow> nat set \<Rightarrow> 'q event_set \<Rightarrow> bool" where
  "agree_off lp P es P' es' \<longleftrightarrow> num_of_lps es' = num_of_lps es \<and>
     num_of_schedulers es' = num_of_schedulers es \<and>
     (\<forall>j<num_of_lps es. j \<noteq> lp \<longrightarrow> (j \<in> P' \<longleftrightarrow> j \<in> P) \<and>
        input_queue es' ! j = input_queue es ! j \<and>
        scheduled_event_pointer es' ! j = scheduled_event_pointer es ! j \<and>
        input_queue_scheduler_map es' ! j = input_queue_scheduler_map es ! j)"

lemma waiting_events_split:
  "waiting_events P es s = contrib P es lp s +
     image_mset (\<lambda>lp. the (scheduled_event_pointer es ! lp)) (mset_set (waiting P es s - {lp}))"
proof (cases "lp \<in> waiting P es s")
  case True
  then have "mset_set (waiting P es s) = add_mset lp (mset_set (waiting P es s - {lp}))"
    by (simp add: mset_set.remove)
  with True show ?thesis by (simp add: waiting_events_def contrib_def)
qed (simp add: waiting_events_def contrib_def)

lemma waiting_events_update:
  assumes "agree_off lp P es P' es'"
  shows "waiting_events P' es' s + contrib P es lp s = waiting_events P es s + contrib P' es' lp s"
proof -
  have "waiting P' es' s - {lp} = waiting P es s - {lp}"
    using assms by (auto simp: agree_off_def waiting_def)
  moreover have "the (scheduled_event_pointer es' ! j) = the (scheduled_event_pointer es ! j)"
    if "j \<in> waiting P es s - {lp}" for j
    using assms that by (auto simp: agree_off_def waiting_def)
  ultimately have "image_mset (\<lambda>lp. the (scheduled_event_pointer es' ! lp)) (mset_set (waiting P' es' s - {lp}))
      = image_mset (\<lambda>lp. the (scheduled_event_pointer es ! lp)) (mset_set (waiting P es s - {lp}))"
    by (auto intro!: image_mset_cong)
  then show ?thesis
    by (simp add: waiting_events_split [of P' es' s lp] waiting_events_split [of P es s lp])
qed

lemma es_inv_update:
  assumes "es_inv sq_inv content P es" "agree_off lp P es P' es'"
    and "es_shape es'" "distinct_events (all_events es')"
    and "lp < num_of_lps es \<Longrightarrow> lp_ok (lp \<in> P') (input_queue es' ! lp) (scheduled_event_pointer es' ! lp)"
    and "\<And>s. s < num_of_schedulers es \<Longrightarrow> sq_inv (schedule_queue es' ! s) \<and>
      content (schedule_queue es' ! s) + contrib P es lp s =
      content (schedule_queue es ! s) + contrib P' es' lp s"
  shows "es_inv sq_inv content P' es'"
proof -
  have "lp_ok (j \<in> P') (input_queue es' ! j) (scheduled_event_pointer es' ! j)"
    if "j < num_of_lps es'" for j
    using assms(1,2,5) that by (cases "j = lp") (auto simp: es_inv_def agree_off_def)
  moreover have "sq_inv (schedule_queue es' ! s) \<and>
      content (schedule_queue es' ! s) = waiting_events P' es' s"
    if "s < num_of_schedulers es'" for s
  proof -
    from that assms(2) have s: "s < num_of_schedulers es" by (simp add: agree_off_def)
    with assms(1) have "content (schedule_queue es ! s) = waiting_events P es s"
      by (simp add: es_inv_def)
    with assms(6) [OF s] waiting_events_update [OF assms(2), of s] show ?thesis
      by (metis add_right_cancel)
  qed
  ultimately show ?thesis using assms(3,4) by (simp add: es_inv_def)
qed

lemma waiting_events_subset_concat:
  "finite A \<Longrightarrow> \<forall>i\<in>A. i < length xss \<and> f i \<in> set (xss ! i) \<Longrightarrow>
   image_mset f (mset_set A) \<subseteq># mset (concat xss)"
proof (induction xss arbitrary: A rule: rev_induct)
  case Nil
  then have "A = {}" by auto
  then show ?case by simp
next
  case (snoc x xss)
  let ?n = "length xss"
  have "i < ?n \<and> f i \<in> set (xss ! i)" if "i \<in> A" "i \<noteq> ?n" for i
    using bspec [OF snoc.prems(2) that(1)] that(2) by (auto simp: nth_append less_Suc_eq)
  then have "\<forall>i\<in>A - {?n}. i < ?n \<and> f i \<in> set (xss ! i)" by simp
  with snoc have sub: "image_mset f (mset_set (A - {?n})) \<subseteq># mset (concat xss)" by simp
  show ?case
  proof (cases "?n \<in> A")
    case True
    with snoc.prems(1) have "mset_set A = add_mset ?n (mset_set (A - {?n}))"
      by (simp add: mset_set.remove)
    moreover have "{#f ?n#} \<subseteq># mset x" using snoc.prems(2) True by auto
    ultimately show ?thesis
      using subset_mset.add_mono [OF sub, of "{#f ?n#}" "mset x"] by simp
  next
    case False
    with sub have "image_mset f (mset_set A) \<subseteq># mset (concat xss)" by simp
    also have "\<dots> \<subseteq># mset (concat (xss @ [x]))" by simp
    finally show ?thesis .
  qed
qed

lemma es_inv_pointer:
  assumes "es_inv sq_inv content P es" "lp < num_of_lps es" "scheduled_event_pointer es ! lp = Some e"
  shows "e \<in> set (input_queue es ! lp)" "lp \<notin> P \<Longrightarrow> e = hd (input_queue es ! lp)"
    "ev_sorted (input_queue es ! lp)"
proof -
  from assms(1,2) have "lp_ok (lp \<in> P) (input_queue es ! lp) (scheduled_event_pointer es ! lp)"
    by (simp add: es_inv_def)
  with assms(3) show "e \<in> set (input_queue es ! lp)" "lp \<notin> P \<Longrightarrow> e = hd (input_queue es ! lp)"
    "ev_sorted (input_queue es ! lp)"
    by (auto simp: lp_ok_def)
qed

lemma waiting_events_subset:
  assumes "es_inv sq_inv content P es"
  shows "waiting_events P es s \<subseteq># all_events es"
proof -
  have "waiting_events P es s \<subseteq># mset (concat (input_queue es))"
    unfolding waiting_events_def
  proof (rule waiting_events_subset_concat)
    show "\<forall>i\<in>waiting P es s. i < length (input_queue es) \<and>
        the (scheduled_event_pointer es ! i) \<in> set (input_queue es ! i)"
      using assms es_inv_pointer(1) [OF assms]
      by (auto simp: waiting_def es_inv_def es_shape_def)
  qed simp
  then show ?thesis by (metis all_events_def mset_subset_eq_add_left subset_mset.order_trans)
qed

lemma waiting_events_memD:
  "x \<in># waiting_events P es s \<Longrightarrow>
   \<exists>lp. lp \<in> waiting P es s \<and> scheduled_event_pointer es ! lp = Some x"
  by (auto simp: waiting_events_def waiting_def)

end
