(* ===== verification/TW_EventSet_Ops.thy ===== *)
theory TW_EventSet_Ops
  imports TW_EventSet_Inv
begin

text \<open>
  The operations of the event set keep \<open>es_inv\<close> and do what they promise, for every schedule
  queue that meets the contract \<open>sched_queue\<close>; then the interpretation on the \<open>std::multiset\<close> of
  the default build and the properties of the event set.
\<close>

section \<open>Effect on the events held\<close>

lemma all_events_set_input:
  "lp < length (input_queue es) \<Longrightarrow>
   all_events (set_input lp q es) + mset (input_queue es ! lp) = all_events es + mset q"
  using concat_update_mset [of lp "input_queue es" q]
  by (simp add: all_events_def ac_simps)

lemma all_events_set_processed:
  "lp < length (processed_queue es) \<Longrightarrow>
   all_events (set_processed lp q es) + mset (processed_queue es ! lp) = all_events es + mset q"
  using concat_update_mset [of lp "processed_queue es" q]
  by (simp add: all_events_def ac_simps)

lemma all_events_set_both:
  assumes "lp < length (input_queue es)" and "lp < length (processed_queue es)"
  shows "all_events (set_input lp iq (set_processed lp pq es)) +
      (mset (input_queue es ! lp) + mset (processed_queue es ! lp)) =
      all_events es + (mset iq + mset pq)"
  using arg_cong2 [where f = "(+)", OF concat_update_mset [OF assms(1), of iq]
      concat_update_mset [OF assms(2), of pq]]
  by (simp add: all_events_def ac_simps)

lemma all_events_frame [simp]:
  "all_events (es\<lparr>schedule_queue := a\<rparr>) = all_events es"
  "all_events (es\<lparr>scheduled_event_pointer := b\<rparr>) = all_events es"
  "all_events (es\<lparr>input_queue_scheduler_map := c\<rparr>) = all_events es"
  by (simp_all add: all_events_def)

definition same_config :: "'q event_set \<Rightarrow> 'q event_set \<Rightarrow> bool" where
  "same_config es es' \<longleftrightarrow> num_of_lps es' = num_of_lps es \<and>
     num_of_schedulers es' = num_of_schedulers es \<and>
     is_lp_migration_on es' = is_lp_migration_on es \<and>
     worker_thread_scheduler_map es' = worker_thread_scheduler_map es"

lemma hd_ms_insert: "ys \<noteq> [] \<Longrightarrow> hd (ms_insert lt x ys) = x \<or> hd (ms_insert lt x ys) = hd ys"
  by (cases ys) auto

lemma hd_in_set: "ys \<noteq> [] \<Longrightarrow> hd ys \<in> set ys"
  by (cases ys) auto

lemma es_inv_shapeD:
  assumes "es_inv sq_inv content P es" "lp < num_of_lps es"
  shows "es_shape es" "lp < length (input_queue es)" "lp < length (processed_queue es)"
    "lp < length (scheduled_event_pointer es)" "lp < length (input_queue_scheduler_map es)"
    "input_queue_scheduler_map es ! lp < num_of_schedulers es"
    "length (schedule_queue es) = num_of_schedulers es"
  using assms by (auto simp: es_inv_def es_shape_def)

section \<open>The queues of one LP\<close>

lemma ms_erase_self:
  assumes "distinct_events (mset iq)" and "e \<in> set iq"
  shows "ms_erase compareEvents e iq = (1, filter (\<lambda>x. x \<noteq> e) iq)"
proof -
  have eq: "ev_key5 x = ev_key5 e \<longleftrightarrow> x = e" if "x \<in> set iq" for x
    using distinct_events_key [OF assms(1), of x e] assms(2) that by auto
  have "mset (filter (\<lambda>x. ev_key5 x = ev_key5 e) iq) = {#e#}"
    using filter_key_distinct(1) [OF assms(1), of e] assms(2) by simp
  then have "length (filter (\<lambda>x. ev_key5 x = ev_key5 e) iq) = 1"
    by (metis size_mset size_single)
  moreover have "ms_equiv compareEvents e = (\<lambda>x. ev_key5 x = ev_key5 e)"
    by (intro ext) (auto simp: ms_equiv_compareEvents)
  ultimately show ?thesis using eq by (auto simp: ms_erase_def intro: filter_cong)
qed

lemma move_event:
  "A + (I + Q) = B + (mset F + Q') \<Longrightarrow> Q' = Q + {#e#} \<Longrightarrow> add_mset e (mset F) = I \<Longrightarrow> A = B"
  by auto

lemma mset_filter_neq:
  assumes "distinct_events (mset iq)" and "e \<in> set iq"
  shows "add_mset e (mset (filter (\<lambda>x. x \<noteq> e) iq)) = mset iq"
proof -
  have "filter_mset (\<lambda>x. ev_key5 x \<noteq> ev_key5 e) (mset iq) = filter_mset (\<lambda>x. x \<noteq> e) (mset iq)"
    using distinct_events_key [OF assms(1), of _ e] assms(2) by (intro filter_mset_cong) auto
  with filter_key_distinct(2) [OF assms(1), of e] assms(2) show ?thesis by simp
qed

lemma rollback_loop_simps [simp]:
  "rollback_loop s [] iq = ([], iq)"
  "rollback_loop s (pq @ [e]) iq =
     (if ev_ge e s then rollback_loop s pq (ev_insert e iq) else (pq @ [e], iq))"
  by (simp_all add: rollback_loop.simps [of s "[]" iq] rollback_loop.simps [of s "pq @ [e]" iq])

lemma rollback_loop_eq:
  "rollback_loop s pq iq =
     (rev (dropWhile (\<lambda>x. ev_ge x s) (rev pq)),
      fold ev_insert (takeWhile (\<lambda>x. ev_ge x s) (rev pq)) iq)"
  by (induction pq arbitrary: iq rule: rev_induct) auto

lemma mset_takeWhile_dropWhile: "mset (takeWhile P xs) + mset (dropWhile P xs) = mset xs"
  by (metis mset_append takeWhile_dropWhile_id)

lemma fold_ev_insert:
  "mset (fold ev_insert es iq) = mset iq + mset es"
  "ev_sorted iq \<Longrightarrow> ev_sorted (fold ev_insert es iq)"
  by (induction es arbitrary: iq) (auto simp: ce.sorted_insert)

lemma rollback_loop_mset:
  "rollback_loop s pq iq = (pq', iq') \<Longrightarrow> mset pq' + mset iq' = mset pq + mset iq"
  using mset_takeWhile_dropWhile [of "\<lambda>x. ev_ge x s" "rev pq"]
  by (auto simp: rollback_loop_eq fold_ev_insert ac_simps)

lemma rollback_loop_sorted:
  "rollback_loop s pq iq = (pq', iq') \<Longrightarrow> ev_sorted iq \<Longrightarrow> ev_sorted iq'"
  by (auto simp: rollback_loop_eq fold_ev_insert)

lemma dropWhile_rev_sorted:
  assumes "sorted_wrt ev_less pq"
  shows "rev (dropWhile (\<lambda>x. ev_ge x s) (rev pq)) = filter (\<lambda>x. ev_less x s) pq"
    "takeWhile (\<lambda>x. ev_ge x s) (rev pq) = rev (filter (\<lambda>x. ev_ge x s) pq)"
proof -
  have "\<forall>x y. ev_less x y \<longrightarrow> ev_ge x s \<longrightarrow> ev_ge y s"
    by (auto simp: ev_key_simps)
  from rev_dropWhile_rev_sorted [OF assms this]
  show "rev (dropWhile (\<lambda>x. ev_ge x s) (rev pq)) = filter (\<lambda>x. ev_less x s) pq"
    "takeWhile (\<lambda>x. ev_ge x s) (rev pq) = rev (filter (\<lambda>x. ev_ge x s) pq)"
    by (simp_all add: ev_ge_def)
qed

text \<open>After a rollback the processed events are those before the straggler.\<close>

lemma rollback_queues:
  assumes "sorted_wrt ev_less (processed_queue es ! lp)" and "lp < length (processed_queue es)"
    and "lp < length (input_queue es)"
  shows "processed_queue (rollback lp s es) ! lp = filter (\<lambda>x. ev_less x s) (processed_queue es ! lp)"
    "mset (input_queue (rollback lp s es) ! lp) =
       mset (input_queue es ! lp) + mset (filter (\<lambda>x. ev_ge x s) (processed_queue es ! lp))"
  using assms by (simp_all add: rollback_def rollback_loop_eq dropWhile_rev_sorted fold_ev_insert)

lemma rollback_frame:
  "same_config es (rollback lp s es)"
  "scheduled_event_pointer (rollback lp s es) = scheduled_event_pointer es"
  "schedule_queue (rollback lp s es) = schedule_queue es"
  "input_queue_scheduler_map (rollback lp s es) = input_queue_scheduler_map es"
  "j \<noteq> lp \<Longrightarrow> input_queue (rollback lp s es) ! j = input_queue es ! j"
  "j \<noteq> lp \<Longrightarrow> processed_queue (rollback lp s es) ! j = processed_queue es ! j"
  by (simp_all add: rollback_def same_config_def split: prod.splits)

lemma rollback_ok:
  assumes inv: "es_inv sq_inv content P es" and lp: "lp < num_of_lps es" "lp \<in> P"
  shows "es_inv sq_inv content P (rollback lp s es)" "all_events (rollback lp s es) = all_events es"
proof -
  let ?es' = "rollback lp s es"
  note shape = es_inv_shapeD [OF inv lp(1)]
  obtain pq iq where loop: "rollback_loop s (processed_queue es ! lp) (input_queue es ! lp) = (pq, iq)"
    by (cases "rollback_loop s (processed_queue es ! lp) (input_queue es ! lp)")
  then have es': "?es' = set_input lp iq (set_processed lp pq es)" by (simp add: rollback_def)
  have "all_events ?es' + (mset (input_queue es ! lp) + mset (processed_queue es ! lp)) =
      all_events es + (mset pq + mset iq)"
    using all_events_set_both [of lp es iq pq] shape es' by (simp add: ac_simps)
  with rollback_loop_mset [OF loop] show all: "all_events ?es' = all_events es"
    by (simp add: ac_simps)
  from inv lp have ok: "lp_ok True (input_queue es ! lp) (scheduled_event_pointer es ! lp)"
    by (auto simp: es_inv_def)
  have "set (input_queue es ! lp) \<subseteq> set iq"
    using loop by (auto simp: rollback_loop_eq fold_ev_insert simp flip: set_mset_mset)
  with ok rollback_loop_sorted [OF loop]
  have ok': "lp_ok True iq (scheduled_event_pointer es ! lp)"
    by (auto simp: lp_ok_def split: option.splits)
  show "es_inv sq_inv content P ?es'"
  proof (rule es_inv_update [OF inv])
    show "agree_off lp P es P ?es'" "es_shape ?es'"
      using shape(1) by (simp_all add: es' agree_off_def es_shape_def)
    show "distinct_events (all_events ?es')" using inv all by (simp add: es_inv_def)
    show "lp_ok (lp \<in> P) (input_queue ?es' ! lp) (scheduled_event_pointer ?es' ! lp)"
      using ok' lp shape by (simp add: es')
  qed (use inv in \<open>simp add: es' contrib_def waiting_def es_inv_def\<close>)
qed

lemma es_shape_migrate:
  assumes "es_shape es" "lp < num_of_lps es"
  shows "es_shape (migrate lp es)"
proof -
  let ?v = "(input_queue_scheduler_map es ! lp + 1) mod num_of_schedulers es"
  from assms have "input_queue_scheduler_map es ! lp < num_of_schedulers es"
    by (auto simp: es_shape_def)
  then have v: "?v < num_of_schedulers es" by (intro mod_less_divisor) simp
  have "\<forall>s\<in>set ((input_queue_scheduler_map es)[lp := ?v]). s < num_of_schedulers es"
    using assms(1) v set_update_subset_insert [of "input_queue_scheduler_map es" lp ?v]
    unfolding es_shape_def by blast
  then show ?thesis using assms(1) by (simp add: migrate_def es_shape_def)
qed

section \<open>Cancellation\<close>

lemma ev_key5_between:
  assumes "ev_key5 a \<le> ev_key5 x" "ev_key5 x \<le> ev_key5 b" "ev_key a = ev_key b"
    and "event_type a = NEGATIVE" "event_type b = POSITIVE"
  shows "ev_key5 x = ev_key5 a \<or> ev_key5 x = ev_key5 b"
proof -
  have "ev_key x = ev_key a"
    using ev_key5_le_imp_key [OF assms(1)] ev_key5_le_imp_key [OF assms(2)] assms(3) by simp
  then show ?thesis using assms(3-5) by (cases "event_type x") (simp_all add: ev_key5_def)
qed

lemma distinct_events_map: "distinct_events (mset iq) \<Longrightarrow> distinct (map ev_key5 iq)"
  by (induction iq) (auto simp: distinct_events_add)

lemma nth_key_inj:
  "distinct_events (mset iq) \<Longrightarrow> i < length iq \<Longrightarrow> j < length iq \<Longrightarrow>
   ev_key5 (iq ! i) = ev_key5 (iq ! j) \<Longrightarrow> i = j"
  using distinct_events_map [of iq] nth_eq_iff_index_eq [of "map ev_key5 iq" i j] by simp

text \<open>The counterpart of a negative event stands right behind it in the input queue.\<close>

lemma counterpart_adjacent:
  assumes sorted: "ev_sorted iq" and dist: "distinct_events (mset iq)"
    and n: "n \<in> set iq" "event_type n = NEGATIVE"
    and p: "p \<in> set iq" "event_type p = POSITIVE" "ev_key p = ev_key n"
  shows "\<exists>i. ms_find compareEvents n iq = Some i \<and> iq ! i = n \<and> Suc i < length iq \<and> iq ! Suc i = p"
proof -
  from ce.find_member [OF sorted n(1)] obtain i where i: "ms_find compareEvents n iq = Some i" by blast
  from ce.find_SomeD [OF i] have il: "i < length iq" and "ev_key5 (iq ! i) = ev_key5 n"
    by (auto simp: compareEvents_key)
  then have ni: "iq ! i = n" using distinct_events_key [OF dist] n(1) by auto
  from p(1) obtain j where j: "j < length iq" "iq ! j = p" by (auto simp: in_set_conv_nth)
  have less: "ev_key5 n < ev_key5 p" using n(2) p by (simp add: ev_key5_less less_EventType_def)
  have ij: "i < j"
  proof (rule ccontr)
    assume "\<not> i < j"
    with ev_sorted_nth [OF sorted, of j i] il j ni less show False by auto
  qed
  have "j = Suc i"
  proof (rule ccontr)
    assume "j \<noteq> Suc i"
    with ij have k: "Suc i < j" by simp
    have "ev_key5 (iq ! Suc i) = ev_key5 n \<or> ev_key5 (iq ! Suc i) = ev_key5 p"
      using ev_key5_between [of n "iq ! Suc i" p] ev_sorted_nth [OF sorted, of i "Suc i"]
        ev_sorted_nth [OF sorted, of "Suc i" j] k j ni n(2) p by simp
    with nth_key_inj [OF dist, of "Suc i" i] nth_key_inj [OF dist, of "Suc i" j] k j ni il
    show False by auto
  qed
  with i ni j show ?thesis by auto
qed

context sched_queue
begin

lemma insertEvent_idle:
  assumes inv: "es_inv sq_inv content P es" and lp: "lp < num_of_lps es"
    and fresh: "\<forall>x\<in>#all_events es. ev_key5 x \<noteq> ev_key5 e \<and> ev_ptr x \<noteq> ev_ptr e"
    and none: "scheduled_event_pointer es ! lp = None"
  shows "\<exists>es'. insertEvent ops lp e es = Inr es' \<and> es_inv sq_inv content P es' \<and>
      same_config es es' \<and> processed_queue es' = processed_queue es \<and>
      input_queue es' = (input_queue es)[lp := ev_insert e (input_queue es ! lp)]"
proof -
  let ?s = "input_queue_scheduler_map es ! lp"
  note shape = es_inv_shapeD [OF inv lp]
  from inv lp none have iq: "input_queue es ! lp = []" "lp \<notin> P"
    by (auto simp: es_inv_def lp_ok_def)
  from inv shape(6) have "sq_inv (schedule_queue es ! ?s)" by (simp add: es_inv_def)
  from insert_ok [OF this] obtain q where q: "sq_insert ops e (schedule_queue es ! ?s) = Inr q"
    "sq_inv q" "content q = add_mset e (content (schedule_queue es ! ?s))" by blast
  let ?es' = "set_pointer lp (Some e) (set_schedule ?s q (set_input lp [e] es))"
  have run: "insertEvent ops lp e es = Inr ?es'"
    using none iq q(1) shape(2) by (simp add: insertEvent_def Let_def)
  have "all_events ?es' = add_mset e (all_events es)"
    using all_events_set_input [OF shape(2), of "[e]"] iq by (simp add: all_events_def)
  with inv fresh have dist: "distinct_events (all_events ?es')"
    by (simp add: es_inv_def distinct_events_add)
  have "es_inv sq_inv content P ?es'"
  proof (rule es_inv_update [OF inv _ _ dist])
    show "agree_off lp P es P ?es'" by (simp add: agree_off_def)
    show "es_shape ?es'" using shape(1) by (simp add: es_shape_def)
    show "lp_ok (lp \<in> P) (input_queue ?es' ! lp) (scheduled_event_pointer ?es' ! lp)"
      using shape iq by (simp add: lp_ok_def ms_sorted_Cons)
    fix s assume "s < num_of_schedulers es"
    then show "sq_inv (schedule_queue ?es' ! s) \<and>
        content (schedule_queue ?es' ! s) + contrib P es lp s =
        content (schedule_queue es ! s) + contrib P ?es' lp s"
      using shape none iq lp q inv
      by (auto simp: contrib_def waiting_def nth_list_update_if es_inv_def)
  qed
  with run iq show ?thesis by (intro exI [of _ ?es']) (simp add: same_config_def)
qed

lemma erase_scheduled:
  assumes inv: "es_inv sq_inv content P es" and lp: "lp < num_of_lps es"
    and some: "scheduled_event_pointer es ! lp = Some e"
  defines "s \<equiv> input_queue_scheduler_map es ! lp"
  shows "\<exists>q. sq_erase ops e (schedule_queue es ! s) = Inr (if lp \<in> P then 0 else 1, q) \<and> sq_inv q \<and>
      content (schedule_queue es ! s) = content q + (if lp \<in> P then {#} else {#e#})"
proof -
  let ?C = "content (schedule_queue es ! s)"
  note shape = es_inv_shapeD [OF inv lp]
  from inv shape(6) have q: "sq_inv (schedule_queue es ! s)" and C: "?C = waiting_events P es s"
    by (simp_all add: es_inv_def s_def)
  from erase_ok [OF q] obtain q' where q': "sq_erase ops e (schedule_queue es ! s) =
      Inr (size (filter_mset (\<lambda>x. ev_key5 x = ev_key5 e) ?C), q')" "sq_inv q'"
      "content q' = filter_mset (\<lambda>x. ev_key5 x \<noteq> ev_key5 e) ?C" by blast
  have dist: "distinct_events (all_events es)" using inv by (simp add: es_inv_def)
  show ?thesis
  proof (cases "lp \<in> P")
    case True
    have ne: "ev_key5 x \<noteq> ev_key5 e" if "x \<in># ?C" for x
    proof -
      from that C obtain j where j: "j \<in> waiting P es s" "scheduled_event_pointer es ! j = Some x"
        using waiting_events_memD by metis
      with True have "j \<noteq> lp" "j < num_of_lps es" by (auto simp: waiting_def)
      with j es_inv_pointer(1) [OF inv] some lp shape(1) dist input_queues_disjoint
      show ?thesis by metis
    qed
    then have "filter_mset (\<lambda>x. ev_key5 x = ev_key5 e) ?C = {#}"
      "filter_mset (\<lambda>x. ev_key5 x \<noteq> ev_key5 e) ?C = ?C"
      by (auto simp: filter_mset_eq_conv)
    with q' True show ?thesis by simp
  next
    case False
    with lp some have "lp \<in> waiting P es s" by (simp add: waiting_def s_def)
    with some have mem: "e \<in># ?C"
      by (simp add: C waiting_events_split [of P es s lp] contrib_def)
    have "distinct_events ?C"
      using distinct_events_subset [OF dist waiting_events_subset [OF inv]] C by simp
    from filter_key_distinct [OF this mem] q' mem False show ?thesis by simp
  qed
qed

text \<open>Inserting leaves the scheduled event of an LP in process alone.\<close>

lemma insertEvent_busy:
  assumes inv: "es_inv sq_inv content P es" and lp: "lp < num_of_lps es" and i: "i \<in> P"
    and ins: "insertEvent ops lp e es = Inr es'"
  shows "scheduled_event_pointer es' ! i = scheduled_event_pointer es ! i"
proof (cases "i = lp")
  case True
  have "lp_ok True (input_queue es ! lp) (scheduled_event_pointer es ! lp)"
    using inv lp i True by (auto simp: es_inv_def)
  then obtain e0 where e0: "scheduled_event_pointer es ! lp = Some e0"
    by (cases "scheduled_event_pointer es ! lp") (auto simp: lp_ok_def)
  with erase_scheduled [OF inv lp e0] ins i True show ?thesis
    by (auto simp: insertEvent_def Let_def split: if_splits)
next
  case False
  with ins show ?thesis
    by (auto simp: insertEvent_def Let_def split: option.splits if_splits prod.splits)
qed

lemma insertEvent_scheduled:
  assumes inv: "es_inv sq_inv content P es" and lp: "lp < num_of_lps es"
    and fresh: "\<forall>x\<in>#all_events es. ev_key5 x \<noteq> ev_key5 e \<and> ev_ptr x \<noteq> ev_ptr e"
    and some: "scheduled_event_pointer es ! lp = Some e0"
  shows "\<exists>es'. insertEvent ops lp e es = Inr es' \<and> es_inv sq_inv content P es' \<and>
      same_config es es' \<and> processed_queue es' = processed_queue es \<and>
      input_queue es' = (input_queue es)[lp := ev_insert e (input_queue es ! lp)]"
proof -
  let ?s = "input_queue_scheduler_map es ! lp"
  let ?iq = "ev_insert e (input_queue es ! lp)"
  let ?es1 = "set_input lp ?iq es"
  note shape = es_inv_shapeD [OF inv lp] and ptr = es_inv_pointer [OF inv lp some]
  have all: "all_events ?es1 = add_mset e (all_events es)"
    using all_events_set_input [OF shape(2), of ?iq] by (simp add: all_events_def)
  with inv fresh have dist: "distinct_events (all_events ?es1)"
    by (simp add: es_inv_def distinct_events_add)
  have sorted: "ev_sorted ?iq" using ptr(3) by (rule ce.sorted_insert)
  have hd_ne: "hd ?iq = e0 \<longleftrightarrow> ev_ptr (hd ?iq) = ev_ptr e0"
  proof -
    have "hd ?iq \<in> insert e (set (input_queue es ! lp))"
      using hd_in_set [of ?iq] by (simp del: insert_iff)
    then have "hd ?iq \<in># all_events ?es1" "e0 \<in># all_events ?es1"
      unfolding all using ptr(1) all_events_input_mem [OF shape(1) lp] by auto
    with distinct_events_ptr [OF dist] show ?thesis by blast
  qed
  have update: "es_inv sq_inv content P es'"
    if es': "es' = set_pointer lp (Some e1) (set_schedule ?s q ?es1)"
      and ok: "lp_ok (lp \<in> P) ?iq (Some e1)" and q: "sq_inv q"
      "content q + (if lp \<in> P then {#} else {#e0#}) =
       content (schedule_queue es ! ?s) + (if lp \<in> P then {#} else {#e1#})" for es' e1 q
  proof (rule es_inv_update [OF inv])
    show "agree_off lp P es P es'" "distinct_events (all_events es')"
      using dist by (simp_all add: es' agree_off_def)
    show "es_shape es'" using shape(1) by (simp add: es' es_shape_def)
    show "lp_ok (lp \<in> P) (input_queue es' ! lp) (scheduled_event_pointer es' ! lp)"
      using shape ok by (simp add: es')
    fix s assume "s < num_of_schedulers es"
    then show "sq_inv (schedule_queue es' ! s) \<and>
        content (schedule_queue es' ! s) + contrib P es lp s =
        content (schedule_queue es ! s) + contrib P es' lp s"
      using shape some lp q inv
      by (auto simp: es' contrib_def waiting_def nth_list_update_if es_inv_def)
  qed
  have keep: "(scheduled_event_pointer es)[lp := Some e0] = scheduled_event_pointer es"
    using some shape(4) by (simp_all add: list_update_same_conv)
  from erase_scheduled [OF inv lp some] obtain q where
    q: "sq_erase ops e0 (schedule_queue es ! ?s) = Inr (if lp \<in> P then 0 else 1, q)" "sq_inv q"
       "content (schedule_queue es ! ?s) = content q + (if lp \<in> P then {#} else {#e0#})" by blast
  consider (same) "hd ?iq = e0" | (busy) "hd ?iq \<noteq> e0" "lp \<in> P" | (smaller) "hd ?iq \<noteq> e0" "lp \<notin> P"
    by blast
  then show ?thesis
  proof cases
    case same
    have "es_inv sq_inv content P ?es1"
    proof (rule update)
      show "?es1 = set_pointer lp (Some e0) (set_schedule ?s (schedule_queue es ! ?s) ?es1)"
        using keep shape(6,7) by simp
      show "lp_ok (lp \<in> P) ?iq (Some e0)" using same sorted ptr(1) by (simp add: lp_ok_def)
      show "sq_inv (schedule_queue es ! ?s)" using inv shape(6) by (simp add: es_inv_def)
    qed simp
    moreover have "insertEvent ops lp e es = Inr ?es1"
      using some same shape(2) by (simp add: insertEvent_def Let_def)
    ultimately show ?thesis by (intro exI [of _ ?es1]) (simp add: same_config_def)
  next
    case busy
    let ?es' = "set_schedule ?s q ?es1"
    have "es_inv sq_inv content P ?es'"
    proof (rule update)
      show "?es' = set_pointer lp (Some e0) (set_schedule ?s q ?es1)" using keep by simp
      show "lp_ok (lp \<in> P) ?iq (Some e0)" using busy sorted ptr(1) by (simp add: lp_ok_def)
    qed (use q busy in simp_all)
    moreover have "insertEvent ops lp e es = Inr ?es'"
      using some busy hd_ne q(1) shape(2) by (simp add: insertEvent_def Let_def)
    ultimately show ?thesis by (intro exI [of _ ?es']) (simp add: same_config_def)
  next
    case smaller
    from insert_ok [OF q(2), of "hd ?iq"] obtain q' where q': "sq_insert ops (hd ?iq) q = Inr q'"
      "sq_inv q'" "content q' = add_mset (hd ?iq) (content q)" by blast
    let ?es' = "set_pointer lp (Some (hd ?iq)) (set_schedule ?s q' ?es1)"
    have "es_inv sq_inv content P ?es'"
    proof (rule update [OF refl _ q'(2)])
      show "lp_ok (lp \<in> P) ?iq (Some (hd ?iq))" using sorted hd_in_set [of ?iq] by (simp add: lp_ok_def)
    qed (use q q' smaller in simp)
    moreover have "insertEvent ops lp e es = Inr ?es'"
      using some smaller hd_ne q(1) q'(1) shape(2) by (simp add: insertEvent_def Let_def)
    ultimately show ?thesis by (intro exI [of _ ?es']) (simp add: same_config_def)
  qed
qed

lemma insertEvent_ok:
  assumes "es_inv sq_inv content P es" "lp < num_of_lps es"
    and "\<forall>x\<in>#all_events es. ev_key5 x \<noteq> ev_key5 e \<and> ev_ptr x \<noteq> ev_ptr e"
  shows "\<exists>es'. insertEvent ops lp e es = Inr es' \<and> es_inv sq_inv content P es' \<and>
      same_config es es' \<and> processed_queue es' = processed_queue es \<and>
      input_queue es' = (input_queue es)[lp := ev_insert e (input_queue es ! lp)]"
  using insertEvent_idle [OF assms] insertEvent_scheduled [OF assms]
  by (cases "scheduled_event_pointer es ! lp") blast+

lemma getEvent_ok:
  assumes inv: "es_inv sq_inv content P es" and t: "t < length (worker_thread_scheduler_map es)"
  defines "s \<equiv> worker_thread_scheduler_map es ! t"
  shows "\<exists>r q. getEvent ops t es = Inr (r, set_schedule s q es) \<and>
     (case r of
        None \<Rightarrow> waiting P es s = {} \<and> es_inv sq_inv content P (set_schedule s q es)
      | Some e \<Rightarrow> \<exists>lp\<in>waiting P es s. scheduled_event_pointer es ! lp = Some e \<and>
          es_inv sq_inv content (insert lp P) (set_schedule s q es) \<and>
          (\<forall>j\<in>waiting P es s. \<not> ev_less (the (scheduled_event_pointer es ! j)) e))"
proof -
  from inv t have s: "s < num_of_schedulers es"
    by (simp add: es_inv_def es_shape_def s_def)
  with inv have q: "sq_inv (schedule_queue es ! s)"
    and C: "content (schedule_queue es ! s) = waiting_events P es s"
    and len: "length (schedule_queue es) = num_of_schedulers es" and shape: "es_shape es"
    by (simp_all add: es_inv_def es_shape_def)
  from pop_ok [OF q] obtain r q' where pop: "sq_pop ops (schedule_queue es ! s) = Inr (r, q')"
    "sq_inv q'" "case r of
         None \<Rightarrow> content (schedule_queue es ! s) = {#} \<and> content q' = {#}
       | Some e \<Rightarrow> content (schedule_queue es ! s) = add_mset e (content q') \<and>
           (\<forall>x\<in>#content (schedule_queue es ! s). \<not> ev_less x e)" by blast
  have run: "getEvent ops t es = Inr (r, set_schedule s q' es)"
    by (simp add: getEvent_def Let_def pop(1) flip: s_def)
  have upd: "es_inv sq_inv content P' (set_schedule s q' es)"
    if "agree_off lp P es P' (set_schedule s q' es)" "lp \<in> P' \<or> P' = P"
      "lp < num_of_lps es \<longrightarrow> lp \<notin> P \<longrightarrow> lp \<in> P' \<longrightarrow> scheduled_event_pointer es ! lp \<noteq> None"
      "content q' + contrib P es lp s = content (schedule_queue es ! s) + contrib P' (set_schedule s q' es) lp s"
      "\<forall>s'. s' \<noteq> s \<longrightarrow> contrib P es lp s' = contrib P' (set_schedule s q' es) lp s'" for P' lp
  proof (rule es_inv_update [OF inv that(1)])
    show "es_shape (set_schedule s q' es)" using shape by (simp add: es_shape_def)
    show "distinct_events (all_events (set_schedule s q' es))" using inv by (simp add: es_inv_def)
    show "lp_ok (lp \<in> P') (input_queue (set_schedule s q' es) ! lp)
        (scheduled_event_pointer (set_schedule s q' es) ! lp)" if "lp < num_of_lps es"
      using inv that \<open>lp \<in> P' \<or> P' = P\<close>
        \<open>lp < num_of_lps es \<longrightarrow> lp \<notin> P \<longrightarrow> lp \<in> P' \<longrightarrow> scheduled_event_pointer es ! lp \<noteq> None\<close>
      by (auto simp: es_inv_def lp_ok_def split: option.splits)
    fix s' assume "s' < num_of_schedulers es"
    then show "sq_inv (schedule_queue (set_schedule s q' es) ! s') \<and>
        content (schedule_queue (set_schedule s q' es) ! s') + contrib P es lp s' =
        content (schedule_queue es ! s') + contrib P' (set_schedule s q' es) lp s'"
      using that(4,5) pop(2) inv len s
      by (cases "s' = s") (auto simp: es_inv_def)
  qed
  show ?thesis
  proof (cases r)
    case None
    with pop(3) C have "waiting_events P es s = {#}" "content q' = {#}" by simp_all
    then have w: "waiting P es s = {}" by (simp add: waiting_events_def mset_set_empty_iff)
    then have "contrib P es lp s = {#}" "contrib P (set_schedule s q' es) lp s = {#}" for lp
      by (auto simp: contrib_def waiting_def)
    with None pop(3) have "es_inv sq_inv content P (set_schedule s q' es)"
      by (intro upd) (auto simp: agree_off_def contrib_def waiting_def)
    with run None w show ?thesis by (intro exI [of _ None] exI [of _ q']) simp
  next
    case (Some e)
    with pop(3) C have split: "waiting_events P es s = add_mset e (content q')" by simp
    then have "e \<in># waiting_events P es s" by simp
    then obtain lp where lp: "lp \<in> waiting P es s" "scheduled_event_pointer es ! lp = Some e"
      using waiting_events_memD by metis
    have "es_inv sq_inv content (insert lp P) (set_schedule s q' es)"
    proof (rule upd)
      show "content q' + contrib P es lp s = content (schedule_queue es ! s) +
          contrib (insert lp P) (set_schedule s q' es) lp s"
        using lp split C by (simp add: contrib_def waiting_def)
    qed (use lp in \<open>auto simp: agree_off_def contrib_def waiting_def\<close>)
    moreover have "\<forall>j\<in>waiting P es s. \<not> ev_less (the (scheduled_event_pointer es ! j)) e"
      using pop(3) Some C by (auto simp: waiting_events_def)
    ultimately show ?thesis using run Some lp by (intro exI [of _ r] exI [of _ q']) auto
  qed
qed

lemma startScheduling_ok:
  assumes inv: "es_inv sq_inv content P es" and lp: "lp < num_of_lps es" "lp \<in> P"
    and agree: "agree_off lp P es P es1" "schedule_queue es1 = schedule_queue es"
    and es1: "es_shape es1" "distinct_events (all_events es1)" "ev_sorted (input_queue es1 ! lp)"
  shows "\<exists>es'. startScheduling ops lp es1 = Inr es' \<and> es_inv sq_inv content (P - {lp}) es' \<and>
     same_config es1 es' \<and> input_queue es' = input_queue es1 \<and> processed_queue es' = processed_queue es1"
proof -
  let ?s = "input_queue_scheduler_map es1 ! lp" and ?e = "hd (input_queue es1 ! lp)"
  from agree es1(1) lp have len: "lp < length (input_queue es1)" "?s < num_of_schedulers es"
    "lp < length (scheduled_event_pointer es1)" "length (schedule_queue es) = num_of_schedulers es"
    by (auto simp: agree_off_def es_shape_def)
  have zero: "contrib P es lp s = {#}" for s using lp by (simp add: contrib_def waiting_def)
  show ?thesis
  proof (cases "input_queue es1 ! lp = []")
    case True
    let ?es' = "set_pointer lp None es1"
    have "es_inv sq_inv content (P - {lp}) ?es'"
    proof (rule es_inv_update [OF inv])
      show "agree_off lp P es (P - {lp}) ?es'" using agree(1) by (auto simp: agree_off_def)
      show "es_shape ?es'" "distinct_events (all_events ?es')" using es1 by (simp_all add: es_shape_def)
      show "lp_ok (lp \<in> P - {lp}) (input_queue ?es' ! lp) (scheduled_event_pointer ?es' ! lp)"
        using True len by (simp add: lp_ok_def)
    qed (use zero agree inv len in \<open>simp add: contrib_def waiting_def es_inv_def\<close>)
    with True show ?thesis
      by (intro exI [of _ ?es']) (simp add: startScheduling_def same_config_def)
  next
    case False
    from inv len(2) have "sq_inv (schedule_queue es ! ?s)" by (simp add: es_inv_def)
    from insert_ok [OF this, of ?e] obtain q where q: "sq_insert ops ?e (schedule_queue es ! ?s) = Inr q"
      "sq_inv q" "content q = add_mset ?e (content (schedule_queue es ! ?s))" by blast
    let ?es' = "set_schedule ?s q (set_pointer lp (Some ?e) es1)"
    have "es_inv sq_inv content (P - {lp}) ?es'"
    proof (rule es_inv_update [OF inv])
      show "agree_off lp P es (P - {lp}) ?es'" using agree(1) by (auto simp: agree_off_def)
      show "es_shape ?es'" "distinct_events (all_events ?es')" using es1 by (simp_all add: es_shape_def)
      show "lp_ok (lp \<in> P - {lp}) (input_queue ?es' ! lp) (scheduled_event_pointer ?es' ! lp)"
        using False len es1(3) hd_in_set by (simp add: lp_ok_def)
      fix s assume "s < num_of_schedulers es"
      then show "sq_inv (schedule_queue ?es' ! s) \<and> content (schedule_queue ?es' ! s) +
          contrib P es lp s = content (schedule_queue es ! s) + contrib (P - {lp}) ?es' lp s"
        using zero agree inv len q lp
        by (auto simp: contrib_def waiting_def nth_list_update_if es_inv_def agree_off_def)
    qed
    moreover have "startScheduling ops lp es1 = Inr ?es'"
      using False agree(2) q(1) by (simp add: startScheduling_def Let_def)
    ultimately show ?thesis by (intro exI [of _ ?es']) (simp add: same_config_def)
  qed
qed

lemma replenishScheduler_ok:
  assumes inv: "es_inv sq_inv content P es" and lp: "lp < num_of_lps es" "lp \<in> P"
    and some: "scheduled_event_pointer es ! lp = Some e"
  shows "\<exists>es'. replenishScheduler ops lp es = Inr es' \<and> es_inv sq_inv content (P - {lp}) es' \<and>
     same_config es es' \<and> all_events es' = all_events es \<and>
     input_queue es' = (input_queue es)[lp := filter (\<lambda>x. x \<noteq> e) (input_queue es ! lp)] \<and>
     processed_queue es' = (processed_queue es)[lp := processed_queue es ! lp @ [e]]"
proof -
  note shape = es_inv_shapeD [OF inv lp(1)] and ptr = es_inv_pointer [OF inv lp(1) some]
  let ?iq = "filter (\<lambda>x. x \<noteq> e) (input_queue es ! lp)"
  let ?es0 = "set_processed lp (processed_queue es ! lp @ [e]) (set_input lp ?iq es)"
  have swap: "?es0 = set_input lp ?iq (set_processed lp (processed_queue es ! lp @ [e]) es)" by simp
  let ?es1 = "migrate lp ?es0"
  have dist: "distinct_events (mset (input_queue es ! lp))"
    using inv all_events_input [OF shape(1) lp(1)] distinct_events_subset by (auto simp: es_inv_def)
  have "all_events ?es0 + (mset (input_queue es ! lp) + mset (processed_queue es ! lp)) =
      all_events es + (mset ?iq + mset (processed_queue es ! lp @ [e]))"
    unfolding swap by (rule all_events_set_both) (use shape in simp_all)
  then have all0: "all_events ?es0 = all_events es"
    by (rule move_event) (simp, rule mset_filter_neq [OF dist ptr(1)])
  then have all: "all_events ?es1 = all_events es" by (simp add: migrate_def)
  have agree: "agree_off lp P es P ?es1" by (simp add: migrate_def agree_off_def)
  have shape1: "es_shape ?es1"
    by (rule es_shape_migrate) (use shape lp in \<open>simp_all add: es_shape_def\<close>)
  have "\<exists>es'. startScheduling ops lp ?es1 = Inr es' \<and> es_inv sq_inv content (P - {lp}) es' \<and>
     same_config ?es1 es' \<and> input_queue es' = input_queue ?es1 \<and> processed_queue es' = processed_queue ?es1"
    by (rule startScheduling_ok [OF inv lp agree _ shape1])
      (use inv all shape ms_sorted_filter [OF ptr(3)] in \<open>simp_all add: migrate_def es_inv_def\<close>)
  moreover have "replenishScheduler ops lp es = startScheduling ops lp ?es1"
    using some ms_erase_self [OF dist ptr(1)] by (simp add: replenishScheduler_def)
  ultimately show ?thesis using all by (auto simp: same_config_def migrate_def all_events_def)
qed

text \<open>
  A negative event whose counterpart is in the input queue: both are removed and the next event of
  the LP is scheduled (\<open>cancelEvent\<close> followed by \<open>startScheduling\<close>, under one lock).
\<close>

lemma cancelEvent_ok:
  assumes inv: "es_inv sq_inv content P es" and lp: "lp < num_of_lps es" "lp \<in> P"
    and n: "scheduled_event_pointer es ! lp = Some n" "event_type n = NEGATIVE"
    and p: "p \<in> set (input_queue es ! lp)" "event_type p = POSITIVE" "ev_key p = ev_key n"
  shows "\<exists>es1 es'. cancelEvent lp n es = Inr (True, es1) \<and> startScheduling ops lp es1 = Inr es' \<and>
     es_inv sq_inv content (P - {lp}) es' \<and> same_config es es' \<and>
     processed_queue es' = processed_queue es \<and>
     all_events es = add_mset n (add_mset p (all_events es'))"
proof -
  note shape = es_inv_shapeD [OF inv lp(1)] and ptr = es_inv_pointer [OF inv lp(1) n(1)]
  let ?iq = "input_queue es ! lp"
  have dist: "distinct_events (mset ?iq)"
    using inv all_events_input [OF shape(1) lp(1)] distinct_events_subset by (auto simp: es_inv_def)
  from counterpart_adjacent [OF ptr(3) dist ptr(1) n(2) p] obtain i where
    i: "ms_find compareEvents n ?iq = Some i" "?iq ! i = n" "Suc i < length ?iq" "?iq ! Suc i = p"
    by blast
  let ?iq' = "ms_erase_at i (ms_erase_at (Suc i) ?iq)"
  let ?es1 = "set_input lp ?iq' es"
  have run: "cancelEvent lp n es = Inr (True, ?es1)"
    using i p(3) by (simp add: cancelEvent_def Let_def ev_eq_key)
  have "add_mset p (mset (ms_erase_at (Suc i) ?iq)) = mset ?iq"
    using mset_ms_erase_at [OF i(3)] i(4) by simp
  moreover have "add_mset n (mset ?iq') = mset (ms_erase_at (Suc i) ?iq)"
    using mset_ms_erase_at [of i "ms_erase_at (Suc i) ?iq"] i
    by (simp add: ms_erase_at_def nth_append)
  ultimately have m: "mset ?iq = add_mset n (add_mset p (mset ?iq'))" by (metis add_mset_commute)
  have all: "all_events es = add_mset n (add_mset p (all_events ?es1))"
    using all_events_set_input [OF shape(2), of ?iq'] m by (simp add: add_mset_commute)
  have dist1: "distinct_events (all_events ?es1)"
    using inv all distinct_events_subset [of "all_events es"] by (simp add: es_inv_def)
  have "\<exists>es'. startScheduling ops lp ?es1 = Inr es' \<and> es_inv sq_inv content (P - {lp}) es' \<and>
     same_config ?es1 es' \<and> input_queue es' = input_queue ?es1 \<and> processed_queue es' = processed_queue ?es1"
    using shape dist1 ms_sorted_erase_at [OF ms_sorted_erase_at [OF ptr(3)]]
    by (intro startScheduling_ok [OF inv lp]) (simp_all add: agree_off_def es_shape_def)
  then obtain es' where es': "startScheduling ops lp ?es1 = Inr es'"
    "es_inv sq_inv content (P - {lp}) es'" "same_config ?es1 es'"
    "input_queue es' = input_queue ?es1" "processed_queue es' = processed_queue ?es1" by blast
  then have "all_events es' = all_events ?es1" by (simp add: all_events_def)
  with run es' all show ?thesis
    by (intro exI [of _ ?es1] exI [of _ es']) (simp add: same_config_def)
qed

end

section \<open>The default build's schedule queue\<close>

lemma multiset_pop_ok:
  assumes "ev_sorted q"
  shows "\<exists>r q'. multiset_pop q = Inr (r, q') \<and> ev_sorted q' \<and>
     (case r of None \<Rightarrow> mset q = {#} \<and> mset q' = {#}
      | Some e \<Rightarrow> mset q = add_mset e (mset q') \<and> (\<forall>x\<in>#mset q. \<not> ev_less x e))"
proof (cases q)
  case (Cons e q')
  have "\<not> ev_less x e" if "x \<in> set q" for x
    using ce.hd_least [OF assms that] Cons by (auto simp: ev_less_key compareEvents_key ev_key5_less)
  with assms Cons show ?thesis by (auto simp: multiset_pop_def ms_sorted_Cons)
qed (simp add: multiset_pop_def)

lemma multiset_erase_ok:
  "ms_erase compareEvents e q =
     (size (filter_mset (\<lambda>x. ev_key5 x = ev_key5 e) (mset q)), filter (\<lambda>x. ev_key5 x \<noteq> ev_key5 e) q)"
proof -
  have "ms_equiv compareEvents e = (\<lambda>x. ev_key5 x = ev_key5 e)"
    by (intro ext) (auto simp: ms_equiv_compareEvents)
  then show ?thesis by (simp add: ms_erase_def flip: mset_filter)
qed

interpretation msq: sched_queue multiset_ops ev_sorted mset
  by unfold_locales
    (simp_all add: multiset_ops_def multiset_pop_ok multiset_erase_ok ce.sorted_insert
      ms_sorted_filter)

abbreviation ms_inv :: "nat set \<Rightarrow> event list event_set \<Rightarrow> bool" where
  "ms_inv \<equiv> es_inv ev_sorted mset"

end
