(* ===== verification/TW_EventSet_Props.thy ===== *)
theory TW_EventSet_Props
  imports TW_EventSet_Ops
begin

text \<open>
  The properties of the event set of the default build, instances of the lemmas of
  \<open>TW_EventSet_Ops\<close> through the interpretation \<open>msq\<close>, and the states on which their witnesses
  are evaluated.
\<close>

section \<open>Initial state\<close>

lemma concat_scheduler_ids:
  "length ns = length lps \<Longrightarrow>
   length (concat (map (\<lambda>(s, part). map (\<lambda>_. s) part) (zip ns lps))) = length (concat lps)"
  by (induction ns lps rule: list_induct2) auto

lemma waiting_events_none:
  "(\<And>lp. lp < num_of_lps es \<Longrightarrow> scheduled_event_pointer es ! lp = None) \<Longrightarrow>
   waiting_events P es s = {#}"
proof -
  assume "\<And>lp. lp < num_of_lps es \<Longrightarrow> scheduled_event_pointer es ! lp = None"
  then have "waiting P es s = {}" by (auto simp: waiting_def)
  then show ?thesis by (simp add: waiting_events_def)
qed

lemma concat_map_Nil [simp]: "concat (map (\<lambda>_. []) xs) = []"
  by (induction xs) auto

lemma distinct_events_empty [simp]: "distinct_events {#}"
  by (simp add: distinct_events_def)

lemma initialize_inv:
  assumes "initialize multiset_ops lps (length (concat lps)) mig k event_set_new = Inr es"
  shows "ms_inv {} es"
proof -
  let ?smap = "concat (map (\<lambda>(s, part). map (\<lambda>_. s) part) (zip [0..<length lps] lps))"
  from assms have k: "k > 0 \<longrightarrow> lps \<noteq> []"
    and es: "es = \<lparr>num_of_lps = length (concat lps), input_queue_lock = replicate (length (concat lps)) False,
      input_queue = map (\<lambda>_. []) (concat lps), processed_queue = map (\<lambda>_. []) (concat lps),
      num_of_schedulers = length lps, schedule_queue = map (\<lambda>_. []) [0..<length lps],
      input_queue_scheduler_map = ?smap, is_lp_migration_on = mig,
      worker_thread_scheduler_map = map (\<lambda>t. t mod length lps) [0..<k],
      scheduled_event_pointer = map (\<lambda>_. None) (concat lps)\<rparr>"
    by (auto simp: initialize_def event_set_new_def multiset_ops_def Let_def simp del: length_concat
        split: if_splits)
  have "es_shape es"
    using k concat_scheduler_ids [of "[0..<length lps]" lps]
    by (auto simp: es es_shape_def set_zip simp del: length_concat)
  moreover have "waiting_events {} es s = {#}" for s
    by (rule waiting_events_none) (simp add: es del: length_concat)
  ultimately show ?thesis
    by (auto simp: es_inv_def lp_ok_def all_events_def es simp del: length_concat)
qed

section \<open>Sample states\<close>

definition sample_event :: "nat \<Rightarrow> EventType \<Rightarrow> u32 \<Rightarrow> nat \<Rightarrow> event" where
  "sample_event p ty t g =
     \<lparr>ev_ptr = p, receiverName = ''lp'', timestamp = t, sender_name = ''lp'', event_type = ty,
      send_time = 0, generation = of_nat g, payload = 0\<rparr>"

lemma sample_event_sel [simp]:
  "ev_ptr (sample_event p ty t g) = p" "event_type (sample_event p ty t g) = ty"
  "timestamp (sample_event p ty t g) = t" "receiverName (sample_event p ty t g) = ''lp''"
  "ev_key (sample_event p ty t g) = (t, 0, ''lp'', of_nat g)"
  "ev_key5 (sample_event p ty t g) = ((t, 0, ''lp'', of_nat g), ty)"
  by (simp_all add: sample_event_def ev_key_def ev_key5_def)

definition sample_es0 :: "event list event_set" where
  "sample_es0 =
     \<lparr>num_of_lps = 1, input_queue_lock = [False], input_queue = [[]], processed_queue = [[]],
      num_of_schedulers = 1, schedule_queue = [[]], input_queue_scheduler_map = [0],
      is_lp_migration_on = False, worker_thread_scheduler_map = [0],
      scheduled_event_pointer = [None]\<rparr>"

lemma sample_es0_init:
  "initialize multiset_ops [[()]] (length (concat [[()]])) False 1 event_set_new = Inr sample_es0"
  by (simp add: initialize_def event_set_new_def multiset_ops_def sample_es0_def Let_def)

lemma sample_es0_inv: "ms_inv {} sample_es0"
  by (rule initialize_inv [OF sample_es0_init])

text \<open>The LP has processed \<open>e1\<close>; \<open>e2\<close> is being processed.\<close>

definition sample_es2 :: "event list event_set" where
  "sample_es2 = sample_es0\<lparr>input_queue := [[sample_event 2 POSITIVE 20 2]],
     processed_queue := [[sample_event 1 POSITIVE 10 1]],
     scheduled_event_pointer := [Some (sample_event 2 POSITIVE 20 2)]\<rparr>"

lemma es_inv_single:
  assumes "num_of_lps es = 1" "num_of_schedulers es = 1" "es_shape es"
    "distinct_events (all_events es)"
    "lp_ok True (input_queue es ! 0) (scheduled_event_pointer es ! 0)" "schedule_queue es ! 0 = []"
  shows "ms_inv {0} es"
proof -
  have "waiting {0} es s = {}" for s using assms(1) by (auto simp: waiting_def)
  then show ?thesis using assms by (simp add: es_inv_def waiting_events_def)
qed

lemma sample_es2_inv: "ms_inv {0} sample_es2"
  by (rule es_inv_single)
    (simp_all add: sample_es2_def sample_es0_def es_shape_def all_events_def distinct_events_add
      lp_ok_def ms_sorted_Cons)

text \<open>As \<open>sample_es2\<close>, but the scheduled event is the negative counterpart of \<open>e2\<close>.\<close>

definition sample_es3 :: "event list event_set" where
  "sample_es3 = sample_es0\<lparr>
     input_queue := [[sample_event 3 NEGATIVE 20 2, sample_event 2 POSITIVE 20 2]],
     scheduled_event_pointer := [Some (sample_event 3 NEGATIVE 20 2)]\<rparr>"

lemma sample_es3_inv: "ms_inv {0} sample_es3"
  by (rule es_inv_single)
    (simp_all add: sample_es3_def sample_es0_def es_shape_def all_events_def distinct_events_add
      lp_ok_def ms_sorted_Cons compareEvents_key less_EventType_def)

section \<open>Helper facts\<close>

lemma coast_loop_eq:
  assumes "sorted_wrt (\<lambda>x y. ev_less y x) es" and "\<forall>e\<in>set es. ev_less e straggler"
  shows "coast_loop straggler restored es acc = Inr (acc @ filter (\<lambda>e. ev_gt e restored) es)"
  using assms
proof (induction es arbitrary: acc)
  case (Cons e es)
  show ?case
  proof (cases "ev_gt e restored")
    case False
    with Cons.prems(1) have "filter (\<lambda>e. ev_gt e restored) es = []"
      by (auto simp: filter_empty_conv ev_key_simps)
    with False show ?thesis by simp
  qed (use Cons in simp)
qed simp

lemma fossil_loop_eq:
  "fossil_loop t pq c =
     (c + min (length (takeWhile (\<lambda>e. timestamp e < t) pq)) (length pq - 1),
      drop (min (length (takeWhile (\<lambda>e. timestamp e < t) pq)) (length pq - 1)) pq)"
  by (induction t pq c rule: fossil_loop.induct) auto

lemma takeWhile_timestamp:
  "sorted (map timestamp pq) \<Longrightarrow> takeWhile (\<lambda>e. timestamp e < t) pq = filter (\<lambda>e. timestamp e < t) pq"
  by (rule takeWhile_eq_filter_sorted [of "\<lambda>x y. timestamp x \<le> timestamp y"])
    (auto simp: sorted_map)

section \<open>Properties\<close>

text \<open>C6: Inserting an event with a new key and address, under the lock of its LP, never fails,
  puts the event into the input queue of that LP, leaves all other queues of events alone, and
  keeps the event set consistent: every LP with pending events that is not being processed has
  exactly its least event in the schedule queue of its scheduler, and nothing else is scheduled.\<close>

theorem insertEvent_keeps_schedule:
  assumes "ms_inv P es" and "lp < num_of_lps es"
    and "\<forall>x\<in>#all_events es. ev_key5 x \<noteq> ev_key5 e \<and> ev_ptr x \<noteq> ev_ptr e"
  shows "\<exists>es'. insertEvent multiset_ops lp e es = Inr es' \<and> ms_inv P es' \<and>
    same_config es es' \<and> processed_queue es' = processed_queue es \<and>
    input_queue es' = (input_queue es)[lp := ev_insert e (input_queue es ! lp)]"
  using assms by (rule msq.insertEvent_ok)

theorem insertEvent_keeps_schedule_witness:
  "\<exists>es'. insertEvent multiset_ops 0 (sample_event 1 POSITIVE 10 1) sample_es0 = Inr es' \<and>
     ms_inv {} es' \<and> input_queue es' = [[sample_event 1 POSITIVE 10 1]]"
  using insertEvent_keeps_schedule [OF sample_es0_inv, of 0 "sample_event 1 POSITIVE 10 1"]
  by (auto simp: sample_es0_def all_events_def)

text \<open>A worker thread that asks for an event gets, of the events waiting in its schedule queue,
  one that no other precedes, together with the fact that it is the scheduled event of one LP,
  which is then the only LP added to those in process; it gets nothing only when no LP of the
  queue is waiting. The event stays in the input queue.\<close>

theorem getEvent_takes_least:
  assumes "ms_inv P es" and "t < length (worker_thread_scheduler_map es)"
  shows "\<exists>r q. getEvent multiset_ops t es =
      Inr (r, set_schedule (worker_thread_scheduler_map es ! t) q es) \<and>
    (case r of
       None \<Rightarrow> waiting P es (worker_thread_scheduler_map es ! t) = {} \<and>
         ms_inv P (set_schedule (worker_thread_scheduler_map es ! t) q es)
     | Some e \<Rightarrow> \<exists>lp\<in>waiting P es (worker_thread_scheduler_map es ! t).
         scheduled_event_pointer es ! lp = Some e \<and>
         ms_inv (insert lp P) (set_schedule (worker_thread_scheduler_map es ! t) q es) \<and>
         (\<forall>j\<in>waiting P es (worker_thread_scheduler_map es ! t).
            \<not> ev_less (the (scheduled_event_pointer es ! j)) e))"
  using assms by (rule msq.getEvent_ok)

theorem getEvent_takes_least_witness:
  "\<exists>q. getEvent multiset_ops 0 sample_es0 = Inr (None, set_schedule 0 q sample_es0) \<and>
     ms_inv {} (set_schedule 0 q sample_es0)"
  using getEvent_takes_least [OF sample_es0_inv, of 0]
  by (auto simp: sample_es0_def waiting_def split: option.splits)

text \<open>C13: After an event has been processed, \<open>replenishScheduler\<close> never fails: it moves exactly that
  event from the input queue to the back of the processed queue, maps the LP to the next schedule
  queue when migration is on, and schedules the LP's next event, so the LP leaves the set of LPs
  in process and the event set is consistent again.\<close>

theorem replenishScheduler_advances:
  assumes "ms_inv P es" and "lp < num_of_lps es" and "lp \<in> P"
    and "scheduled_event_pointer es ! lp = Some e"
  shows "\<exists>es'. replenishScheduler multiset_ops lp es = Inr es' \<and> ms_inv (P - {lp}) es' \<and>
    same_config es es' \<and> all_events es' = all_events es \<and>
    input_queue es' = (input_queue es)[lp := filter (\<lambda>x. x \<noteq> e) (input_queue es ! lp)] \<and>
    processed_queue es' = (processed_queue es)[lp := processed_queue es ! lp @ [e]]"
  using assms by (rule msq.replenishScheduler_ok)

theorem replenishScheduler_advances_witness:
  "\<exists>es'. replenishScheduler multiset_ops 0 sample_es2 = Inr es' \<and> ms_inv {} es' \<and>
     processed_queue es' = [[sample_event 1 POSITIVE 10 1, sample_event 2 POSITIVE 20 2]]"
  using replenishScheduler_advances [OF sample_es2_inv, of 0 "sample_event 2 POSITIVE 20 2"]
  by (auto simp: sample_es2_def sample_es0_def)

text \<open>C14: A negative event taken from the schedule queue whose positive counterpart is in the same
  input queue is always found next to it by \<open>cancelEvent\<close>; exactly the two are removed, and
  scheduling the LP again makes the event set consistent.\<close>

theorem cancelEvent_annihilates:
  assumes "ms_inv P es" and "lp < num_of_lps es" and "lp \<in> P"
    and "scheduled_event_pointer es ! lp = Some n" and "event_type n = NEGATIVE"
    and "p \<in> set (input_queue es ! lp)" and "event_type p = POSITIVE" and "ev_key p = ev_key n"
  shows "\<exists>es1 es'. cancelEvent lp n es = Inr (True, es1) \<and>
    startScheduling multiset_ops lp es1 = Inr es' \<and> ms_inv (P - {lp}) es' \<and> same_config es es' \<and>
    processed_queue es' = processed_queue es \<and>
    all_events es = add_mset n (add_mset p (all_events es'))"
  using assms by (rule msq.cancelEvent_ok)

theorem cancelEvent_annihilates_witness:
  "\<exists>es1 es'. cancelEvent 0 (sample_event 3 NEGATIVE 20 2) sample_es3 = Inr (True, es1) \<and>
     startScheduling multiset_ops 0 es1 = Inr es' \<and> ms_inv {} es' \<and> all_events es' = {#}"
  using cancelEvent_annihilates [OF sample_es3_inv, of 0 "sample_event 3 NEGATIVE 20 2"
      "sample_event 2 POSITIVE 20 2"]
  by (auto simp: sample_es3_def sample_es0_def all_events_def)

text \<open>C7: A rollback of an LP whose processed events are in order leaves in the processed queue
  exactly those before the straggler and puts the others, those equal to the straggler included,
  back into the input queue; no event is lost or duplicated and the event set stays consistent.\<close>

theorem rollback_moves_back:
  assumes "ms_inv P es" and "lp < num_of_lps es" and "lp \<in> P"
    and "sorted_wrt ev_less (processed_queue es ! lp)"
  shows "ms_inv P (rollback lp s es) \<and> all_events (rollback lp s es) = all_events es \<and>
    processed_queue (rollback lp s es) ! lp = filter (\<lambda>x. ev_less x s) (processed_queue es ! lp) \<and>
    mset (input_queue (rollback lp s es) ! lp) =
      mset (input_queue es ! lp) + mset (filter (\<lambda>x. ev_ge x s) (processed_queue es ! lp))"
  using rollback_ok [OF assms(1-3)] rollback_queues [OF assms(4)] es_inv_shapeD [OF assms(1,2)]
  by simp

theorem rollback_moves_back_witness:
  "processed_queue (rollback 0 (sample_event 4 NEGATIVE 10 1) sample_es2) ! 0 = []"
  using rollback_moves_back [OF sample_es2_inv, of 0 "sample_event 4 NEGATIVE 10 1"]
  by (simp add: sample_es2_def sample_es0_def ev_less_key)

text \<open>After the rollback, the events for coast forwarding are the processed events after the
  restored state's event, from the largest to the smallest, and no assertion fails.\<close>

theorem getEventsForCoastForward_exact:
  assumes "sorted_wrt ev_less (processed_queue es ! lp)"
    and "\<forall>e\<in>set (processed_queue es ! lp). ev_less e straggler"
  shows "getEventsForCoastForward lp straggler restored es =
    Inr (rev (filter (\<lambda>e. ev_gt e restored) (processed_queue es ! lp)))"
  using assms
  by (simp add: getEventsForCoastForward_def coast_loop_eq sorted_wrt_rev rev_filter)

theorem getEventsForCoastForward_exact_witness:
  "getEventsForCoastForward 0 (sample_event 2 POSITIVE 20 2) (InitialEvent 0) sample_es2 =
     Inr [sample_event 1 POSITIVE 10 1]"
  using getEventsForCoastForward_exact [of sample_es2 0 "sample_event 2 POSITIVE 20 2" "InitialEvent 0"]
  by (simp add: sample_es2_def sample_es0_def ev_less_key ev_gt_key InitialEvent_def ev_key_def
      sample_event_def)

text \<open>C15: Fossil collection before time \<open>t\<close> drops exactly the processed events earlier than \<open>t\<close>,
  except that the last processed event always stays, and returns how many it dropped.\<close>

theorem fossilCollect_exact:
  assumes "sorted (map timestamp (processed_queue es ! lp))" and "lp < length (processed_queue es)"
    and "t \<noteq> uint_max"
  defines "k \<equiv> min (length (filter (\<lambda>e. timestamp e < t) (processed_queue es ! lp)))
                   (length (processed_queue es ! lp) - 1)"
  shows "fst (fossilCollect t lp es) = k \<and>
    processed_queue (snd (fossilCollect t lp es)) =
      (processed_queue es)[lp := drop k (processed_queue es ! lp)]"
proof (cases "processed_queue es ! lp = []")
  case True
  then have "(processed_queue es)[lp := []] = processed_queue es" by (metis list_update_id)
  with True show ?thesis by (simp add: fossilCollect_def k_def)
qed (use assms in \<open>simp add: fossilCollect_def fossil_loop_eq takeWhile_timestamp Let_def\<close>)

theorem fossilCollect_exact_witness:
  "fst (fossilCollect 15 0 (sample_es2\<lparr>processed_queue :=
      [[sample_event 1 POSITIVE 10 1, sample_event 2 POSITIVE 20 2]]\<rparr>)) = 1"
  using fossilCollect_exact [of "sample_es2\<lparr>processed_queue :=
      [[sample_event 1 POSITIVE 10 1, sample_event 2 POSITIVE 20 2]]\<rparr>" 0 15]
  by (simp add: uint_max_def)

end
