(* ===== verification/TW_Recovery.thy ===== *)
theory TW_Recovery
  imports TW_State_Props TW_EventSet_Props
begin

text \<open>
  Recovery from a straggler: the part of \<open>TimeWarpEventDispatcher::rollback\<close> and \<open>coastForward\<close>
  that rebuilds the state of an LP. The abstract specification is sequential: the state of an LP is
  the one reached by processing its processed events in order, from the oldest state that is still
  saved (\<open>lp_consistent\<close>). Processing an event, saving the state, rolling back and fossil
  collecting all keep it.
\<close>

section \<open>Coast forwarding\<close>

fun coast_forward_loop :: "('s, 'g) lp_ops \<Rightarrow> event \<Rightarrow> event list \<Rightarrow> ('s, 'g) lp \<Rightarrow> ('s, 'g) lp res" where
  "coast_forward_loop ops straggler [] lp = Inr lp"
| "coast_forward_loop ops straggler (e # es) lp =
     bindR (assertR (ev_le e straggler)) (\<lambda>_.
     coast_forward_loop ops straggler es (fst (lp_receive ops e lp)))"

definition coastForward :: "('s, 'g) lp_ops \<Rightarrow> event \<Rightarrow> event \<Rightarrow> nat \<Rightarrow> 'q event_set \<Rightarrow>
    ('s, 'g) lp \<Rightarrow> ('s, 'g) lp res" where
  "coastForward ops straggler restored lp_id es lp =
     bindR (getEventsForCoastForward lp_id straggler restored es) (\<lambda>events.
     coast_forward_loop ops straggler (rev events) lp)"

section \<open>The sequential specification\<close>

definition exec :: "('s, 'g) lp_ops \<Rightarrow> 's \<times> 'g list \<Rightarrow> event list \<Rightarrow> 's \<times> 'g list" where
  "exec ops sg es = fold (\<lambda>e sg. fst (receiveEvent ops e sg)) es sg"

lemma exec_append: "exec ops sg (es @ es') = exec ops (exec ops sg es) es'"
  by (simp add: exec_def)

text \<open>A model neither registers nor drops generators while the simulation runs.\<close>

definition rng_count_law :: "('s, 'g) lp_ops \<Rightarrow> bool" where
  "rng_count_law ops \<longleftrightarrow> (\<forall>e s g. length (snd (fst (receiveEvent ops e (s, g)))) = length g)"

lemma exec_rng_count: "rng_count_law ops \<Longrightarrow> length (snd (exec ops sg es)) = length (snd sg)"
  by (induction es arbitrary: sg) (auto simp: exec_def rng_count_law_def)

definition after :: "event \<Rightarrow> event list \<Rightarrow> event list" where
  "after a pq = filter (\<lambda>e. ev_less a e) pq"

definition between :: "event \<Rightarrow> event \<Rightarrow> event list \<Rightarrow> event list" where
  "between a b pq = filter (\<lambda>e. ev_less a e \<and> ev_le e b) pq"

text \<open>Restoring moves the state out of the saved one (\<open>LPStateMixin::restoreState\<close>), which is then worth nothing
  unless the move leaves the state as it is. \<open>U\<close> are the events of the saved states that this has happened to.\<close>

definition saved_as :: "('s, 'g) lp_ops \<Rightarrow> event set \<Rightarrow> 's SavedState \<Rightarrow> 's \<times> 'g list \<Rightarrow> bool" where
  "saved_as ops U x sg \<longleftrightarrow> (state_event x \<notin> U \<longrightarrow> saved_lp_state x = fst sg) \<and>
     rng_state x = map (rng_getState ops) (snd sg)"

definition lp_consistent :: "('s, 'g) lp_ops \<Rightarrow> event set \<Rightarrow> 's \<times> 'g list \<Rightarrow> 's SavedState list \<Rightarrow> event list \<Rightarrow>
    's \<times> 'g list \<Rightarrow> bool" where
  "lp_consistent ops U sg0 q pq sg \<longleftrightarrow>
     q \<noteq> [] \<and> saved_sorted q \<and> sorted_wrt ev_less pq \<and>
     (\<forall>x\<in>set q. saved_as ops U x (exec ops sg0 (between (state_event (hd q)) (state_event x) pq))) \<and>
     sg = exec ops sg0 (after (state_event (hd q)) pq)"

text \<open>The saved state that a rollback to before \<open>r\<close> restores, and the spent ones afterwards.\<close>

definition restored_from :: "event \<Rightarrow> 's SavedState list \<Rightarrow> 's SavedState" where
  "restored_from r q = last (filter (\<lambda>x. ev_less (state_event x) r) q)"

definition spend :: "('s, 'g) lp_ops \<Rightarrow> 's SavedState \<Rightarrow> event set \<Rightarrow> event set" where
  "spend ops x U = (if moved ops (saved_lp_state x) = saved_lp_state x then U else insert (state_event x) U)"

section \<open>Splitting the processed events\<close>

lemma filter_split_sorted:
  assumes "sorted_wrt ev_less pq"
  shows "filter (\<lambda>e. P e \<and> ev_le e b) pq @ filter (\<lambda>e. P e \<and> ev_less b e) pq = filter P pq"
  using assms
proof (induction pq)
  case (Cons e pq)
  show ?case
  proof (cases "ev_le e b")
    case True
    then have "\<not> ev_less b e" by (auto simp: ev_key_simps)
    with True Cons show ?thesis by simp
  next
    case False
    then have be: "ev_less b e" by (auto simp: ev_key_simps)
    with Cons.prems have "\<forall>x\<in>set pq. ev_less b x" by (auto dest: evl.trans)
    then have "filter (\<lambda>e. P e \<and> ev_le e b) pq = []" "filter (\<lambda>e. P e \<and> ev_less b e) pq = filter P pq"
      by (auto simp: filter_empty_conv ev_key_simps intro: filter_cong)
    with False be show ?thesis by simp
  qed
qed simp

lemma between_split:
  assumes "sorted_wrt ev_less pq" and "ev_le a b" and "ev_le b c"
  shows "between a c pq = between a b pq @ between b c pq"
proof -
  have "between a c pq = filter (\<lambda>e. (ev_less a e \<and> ev_le e c) \<and> ev_le e b) pq @
      filter (\<lambda>e. (ev_less a e \<and> ev_le e c) \<and> ev_less b e) pq"
    unfolding between_def by (rule filter_split_sorted [OF assms(1), symmetric])
  also have "filter (\<lambda>e. (ev_less a e \<and> ev_le e c) \<and> ev_le e b) pq = between a b pq"
    unfolding between_def using assms(2,3) by (intro filter_cong) (auto simp: ev_key_simps)
  also have "filter (\<lambda>e. (ev_less a e \<and> ev_le e c) \<and> ev_less b e) pq = between b c pq"
    unfolding between_def using assms(2,3) by (intro filter_cong) (auto simp: ev_key_simps)
  finally show ?thesis .
qed

lemma after_split:
  assumes "sorted_wrt ev_less pq" and "ev_le a b"
  shows "after a pq = between a b pq @ after b pq"
proof -
  have "after a pq = filter (\<lambda>e. ev_less a e \<and> ev_le e b) pq @ filter (\<lambda>e. ev_less a e \<and> ev_less b e) pq"
    unfolding after_def by (rule filter_split_sorted [OF assms(1), symmetric])
  also have "filter (\<lambda>e. ev_less a e \<and> ev_less b e) pq = after b pq"
    unfolding after_def using assms(2) by (intro filter_cong) (auto simp: ev_key_simps)
  finally show ?thesis by (simp add: between_def)
qed

lemma between_cong:
  "(\<And>e. e \<in> set pq \<or> e \<in> set pq' \<Longrightarrow> ev_less a e \<and> ev_le e b \<Longrightarrow> P e) \<Longrightarrow>
   pq' = filter P pq \<Longrightarrow> between a b pq' = between a b pq"
  unfolding between_def by (auto intro: filter_cong)

lemma saved_sorted_hd_le: "saved_sorted q \<Longrightarrow> x \<in> set q \<Longrightarrow> ev_le (state_event (hd q)) (state_event x)"
  by (cases q) (auto simp: saved_sorted_def ev_key_simps)

section \<open>Running the loop\<close>

lemma lp_receive_state:
  "(lp_state (fst (lp_receive ops e lp)), rng_list (fst (lp_receive ops e lp))) =
   fst (receiveEvent ops e (lp_state lp, rng_list lp))"
  by (simp add: lp_receive_def split: prod.split)

lemma coast_forward_loop_ok:
  "\<forall>e\<in>set es. ev_le e straggler \<Longrightarrow>
   \<exists>lp'. coast_forward_loop ops straggler es lp = Inr lp' \<and>
     (lp_state lp', rng_list lp') = exec ops (lp_state lp, rng_list lp) es"
proof (induction es arbitrary: lp)
  case (Cons e es)
  from Cons.IH [of "fst (lp_receive ops e lp)"] Cons.prems lp_receive_state [of ops e lp]
  show ?case by (simp add: exec_def)
qed (simp add: exec_def)

section \<open>Recovery\<close>

lemma between_filter_less:
  "ev_less b r \<Longrightarrow> between a b (filter (\<lambda>e. ev_less e r) pq) = between a b pq"
  unfolding between_def by (auto intro!: filter_cong simp: ev_key_simps)

lemma saved_prefix_consistent:
  assumes "lp_consistent ops U sg0 q pq sg" and "filter (\<lambda>x. ev_less (state_event x) r) q \<noteq> []"
    and "filter (\<lambda>x. ev_less (state_event x) r) q = q' @ [y]"
    and "\<And>sg. saved_as ops U y sg \<Longrightarrow> saved_as ops U' y' sg" and "state_event y' = state_event y" and "U \<subseteq> U'"
  shows "lp_consistent ops U' sg0 (q' @ [y']) (filter (\<lambda>e. ev_less e r) pq)
    (exec ops sg0 (after (state_event (hd q)) (filter (\<lambda>e. ev_less e r) pq)))"
proof -
  let ?F = "filter (\<lambda>x. ev_less (state_event x) r) q"
  have hd: "hd ?F = hd q"
  proof (cases q)
    case (Cons x xs)
    with assms(1) have "\<forall>z\<in>set xs. ev_less (state_event x) (state_event z)"
      by (simp add: lp_consistent_def saved_sorted_def)
    with Cons assms(2) show ?thesis by (fastforce simp: filter_empty_conv ev_key_simps split: if_splits)
  qed (use assms(2) in simp)
  then have hd': "state_event (hd (q' @ [y'])) = state_event (hd q)"
    using assms(3,5) by (cases q') auto
  have sorted: "saved_sorted (q' @ [y'])"
  proof -
    have "saved_sorted ?F" using assms(1) by (simp add: lp_consistent_def saved_sorted_filter)
    then show ?thesis using assms(3,5) by (simp add: saved_sorted_def sorted_wrt_append)
  qed
  have all: "\<forall>x\<in>set (q' @ [y]). saved_as ops U x
      (exec ops sg0 (between (state_event (hd q)) (state_event x) (filter (\<lambda>e. ev_less e r) pq)))"
  proof
    fix x assume "x \<in> set (q' @ [y])"
    then have "x \<in> set q" "ev_less (state_event x) r" unfolding assms(3) [symmetric] by auto
    with assms(1) show "saved_as ops U x (exec ops sg0 (between (state_event (hd q)) (state_event x)
        (filter (\<lambda>e. ev_less e r) pq)))"
      by (simp add: lp_consistent_def between_filter_less)
  qed
  have "saved_as ops U' x (exec ops sg0 (between (state_event (hd q)) (state_event x) (filter (\<lambda>e. ev_less e r) pq)))"
    if "x \<in> set (q' @ [y'])" for x
    using that all assms(4) [of "exec ops sg0 (between (state_event (hd q)) (state_event y) (filter (\<lambda>e. ev_less e r) pq))"]
      assms(5,6) by (auto simp: saved_as_def)
  then show ?thesis
    using assms(1) sorted unfolding lp_consistent_def hd' by (simp add: sorted_wrt_filter)
qed

lemma recovery:
  assumes cons: "lp_consistent ops U sg0 (state_queue sm ! i) (processed_queue es ! i)
      (lp_state lp, rng_list lp)"
    and laws: "rng_law ops" "rng_count_law ops"
    and idx: "i < length (state_queue sm)" "i < length (processed_queue es)" "i < length (input_queue es)"
    and straggler: "ev_less (state_event (hd (state_queue sm ! i))) r"
  shows "\<exists>ev lp1 sm' lp2. restoreState ops r i lp sm = Inr (ev, lp1, sm') \<and> ev_less ev r \<and>
    coastForward ops r ev i (rollback i r es) lp1 = Inr lp2 \<and>
    length (state_queue sm') = length (state_queue sm) \<and>
    map state_event (state_queue sm' ! i) =
      filter (\<lambda>e. ev_less e r) (map state_event (state_queue sm ! i)) \<and>
    (state_event (restored_from r (state_queue sm ! i)) \<notin> U \<longrightarrow>
       lp_consistent ops (spend ops (restored_from r (state_queue sm ! i)) U) sg0 (state_queue sm' ! i)
         (filter (\<lambda>e. ev_less e r) (processed_queue es ! i)) (lp_state lp2, rng_list lp2))"
proof -
  let ?q = "state_queue sm ! i" and ?pq = "processed_queue es ! i"
  let ?pq' = "filter (\<lambda>e. ev_less e r) ?pq"
  let ?F = "filter (\<lambda>x. ev_less (state_event x) r) ?q"
  from cons have c: "?q \<noteq> []" "saved_sorted ?q" "sorted_wrt ev_less ?pq"
    "(lp_state lp, rng_list lp) = exec ops sg0 (after (state_event (hd ?q)) ?pq)"
    "\<forall>x\<in>set ?q. saved_as ops U x (exec ops sg0 (between (state_event (hd ?q)) (state_event x) ?pq))"
    by (simp_all add: lp_consistent_def)
  have F: "?F \<noteq> []" using c(1) straggler by (cases ?q) auto
  then obtain q' y where y: "?F = q' @ [y]" by (cases ?F rule: rev_cases) auto
  then have "y \<in> set ?F" by simp
  then have yq: "y \<in> set ?q" "ev_less (state_event y) r" by auto
  define sgy where "sgy = exec ops sg0 (between (state_event (hd ?q)) (state_event y) ?pq)"
  from c(5) yq have ysg: "state_event y \<notin> U \<Longrightarrow> saved_lp_state y = fst sgy" "rng_state y = map (rng_getState ops) (snd sgy)"
    by (simp_all add: saved_as_def sgy_def)
  have ry: "restored_from r ?q = y" by (simp add: restored_from_def y)
  have "length (rng_list lp) = length (snd sg0)"
    using arg_cong [OF c(4), of "\<lambda>sg. length (snd sg)"] by (simp add: exec_rng_count [OF laws(2)])
  then have len: "length (snd sgy) = length (rng_list lp)"
    by (simp add: sgy_def exec_rng_count [OF laws(2)])
  let ?lp1 = "lp\<lparr>lp_state := saved_lp_state y, rng_list := snd sgy\<rparr>"
  let ?y = "y\<lparr>saved_lp_state := moved ops (saved_lp_state y)\<rparr>"
  note rest = restoreState_eq [OF c(2) y laws(1) ysg(2) len]
  have pq': "processed_queue (rollback i r es) ! i = ?pq'"
    using rollback_queues(1) [OF c(3) idx(2,3)] .
  have ge: "getEventsForCoastForward i r (state_event y) (rollback i r es) =
      Inr (rev (filter (\<lambda>e. ev_gt e (state_event y)) ?pq'))"
  proof -
    have "sorted_wrt (\<lambda>x y. ev_less y x) (rev ?pq')" "\<forall>e\<in>set (rev ?pq'). ev_less e r"
      using sorted_wrt_filter [OF c(3)] by (simp_all add: sorted_wrt_rev)
    from coast_loop_eq [OF this, of "state_event y" "[]"] show ?thesis
      by (simp only: getEventsForCoastForward_def pq' rev_filter append_Nil)
  qed
  have after_eq: "filter (\<lambda>e. ev_gt e (state_event y)) ?pq' = after (state_event y) ?pq'"
    by (simp add: after_def ev_gt_key ev_less_key)
  obtain lp2 where lp2: "coast_forward_loop ops r (after (state_event y) ?pq') ?lp1 = Inr lp2"
    "(lp_state lp2, rng_list lp2) = exec ops (saved_lp_state y, snd sgy) (after (state_event y) ?pq')"
  proof -
    have le: "\<forall>e\<in>set (after (state_event y) ?pq'). ev_le e r"
      by (auto simp: after_def ev_less_key ev_le_key)
    from coast_forward_loop_ok [OF le, of ops ?lp1] show ?thesis using that by auto
  qed
  have "ev_le (state_event (hd ?q)) (state_event y)" using saved_sorted_hd_le [OF c(2) yq(1)] .
  from after_split [OF sorted_wrt_filter [OF c(3)] this, where P1 = "\<lambda>e. ev_less e r"]
  have "exec ops sgy (after (state_event y) ?pq') = exec ops sg0 (after (state_event (hd ?q)) ?pq')"
    by (simp add: exec_append sgy_def between_filter_less [OF yq(2)])
  moreover have "saved_as ops (spend ops y U) ?y sg" if "saved_as ops U y sg" for sg
    using that by (auto simp: saved_as_def spend_def)
  moreover have "U \<subseteq> spend ops y U" by (auto simp: spend_def)
  ultimately have "lp_consistent ops (spend ops y U) sg0 (q' @ [?y]) ?pq' (lp_state lp2, rng_list lp2)"
    if "state_event y \<notin> U"
    using saved_prefix_consistent [OF cons F y, of "spend ops y U" ?y] lp2(2) ysg(1) [OF that] by simp
  moreover have "map state_event (q' @ [?y]) = filter (\<lambda>e. ev_less e r) (map state_event ?q)"
    using arg_cong [OF y, of "map state_event"] by (simp add: filter_map o_def)
  ultimately show ?thesis using rest yq(2) ge after_eq lp2(1) idx(1)
    by (auto simp: coastForward_def ry)
qed

section \<open>Forward execution\<close>

lemma between_snoc_less: "ev_less b e \<Longrightarrow> between a b (pq @ [e]) = between a b pq"
  by (auto simp: between_def ev_key_simps)

lemma between_snoc_end:
  "\<forall>p\<in>set pq. ev_less p e \<Longrightarrow> ev_less a e \<Longrightarrow> between a e (pq @ [e]) = after a pq @ [e]"
  unfolding between_def after_def by (auto intro!: filter_cong simp: ev_key_simps)

lemma saveState_queue:
  "i < length (state_queue sm) \<Longrightarrow> state_queue (saveState ops e i lp sm) ! i =
     state_queue sm ! i @ (if count sm ! i = 0 then [\<lparr>state_event = e, saved_lp_state = lp_state lp,
        rng_state = map (rng_getState ops) (rng_list lp)\<rparr>] else [])"
  by (simp add: saveState_def)

lemma consistent_snoc:
  assumes "lp_consistent ops U sg0 q pq sg" and "\<forall>p\<in>set pq. ev_less p e"
    and "\<forall>x\<in>set q. ev_less (state_event x) e"
    and "sg' = fst (receiveEvent ops e sg)"
  shows "lp_consistent ops (U - {e}) sg0 q (pq @ [e]) sg'" (is ?keep)
    and "saved_as ops {} y sg' \<Longrightarrow> state_event y = e \<Longrightarrow> lp_consistent ops (U - {e}) sg0 (q @ [y]) (pq @ [e]) sg'"
proof -
  have q: "q \<noteq> []" using assms(1) by (simp add: lp_consistent_def)
  then have hd: "ev_less (state_event (hd q)) e" using assms(3) by simp
  have sg': "sg' = exec ops sg0 (after (state_event (hd q)) pq @ [e])"
    using assms(1,4) by (simp add: lp_consistent_def exec_append) (simp add: exec_def)
  have "after (state_event (hd q)) (pq @ [e]) = after (state_event (hd q)) pq @ [e]"
    using hd by (simp add: after_def)
  moreover have "sorted_wrt ev_less (pq @ [e])"
    using assms(1,2) by (simp add: lp_consistent_def sorted_wrt_append)
  moreover have "saved_as ops (U - {e}) x sg = saved_as ops U x sg" if "x \<in> set q" for x sg
    using that assms(3) by (auto simp: saved_as_def ev_less_key)
  ultimately show keep: ?keep
    using assms(1,3) sg' by (simp add: lp_consistent_def between_snoc_less)
  assume y: "saved_as ops {} y sg'" "state_event y = e"
  have "saved_sorted (q @ [y])"
    using keep assms(3) y(2) by (simp add: lp_consistent_def saved_sorted_def sorted_wrt_append)
  moreover have "saved_as ops (U - {e}) y sg'" using y by (simp add: saved_as_def)
  ultimately show "lp_consistent ops (U - {e}) sg0 (q @ [y]) (pq @ [e]) sg'"
    using keep y q between_snoc_end [OF assms(2) hd] sg' by (simp add: lp_consistent_def)
qed

lemma forward_step:
  assumes "lp_consistent ops U sg0 (state_queue sm ! i) pq (lp_state lp, rng_list lp)"
    and "\<forall>p\<in>set pq. ev_less p e" and "\<forall>x\<in>set (state_queue sm ! i). ev_less (state_event x) e"
    and "i < length (state_queue sm)"
  shows "lp_consistent ops (U - {e}) sg0 (state_queue (saveState ops e i (fst (lp_receive ops e lp)) sm) ! i)
    (pq @ [e]) (lp_state (fst (lp_receive ops e lp)), rng_list (fst (lp_receive ops e lp)))"
  using consistent_snoc [OF assms(1-3) lp_receive_state]
  by (simp add: saveState_queue assms(4) saved_as_def)

section \<open>Fossil collection\<close>

lemma consistent_fossil:
  assumes "lp_consistent ops U sg0 (p @ q) (dropped @ pq) sg" and "q \<noteq> []"
    and "\<forall>e\<in>set dropped. ev_less e (state_event (hd q))"
  shows "lp_consistent ops U (exec ops sg0 (between (state_event (hd (p @ q))) (state_event (hd q))
      (dropped @ pq))) q pq sg"
proof -
  let ?h = "state_event (hd (p @ q))" and ?h' = "state_event (hd q)"
  let ?all = "dropped @ pq"
  have c: "saved_sorted (p @ q)" "sorted_wrt ev_less ?all"
    using assms(1) by (simp_all add: lp_consistent_def)
  have hh': "ev_le ?h ?h'" by (rule saved_sorted_hd_le [OF c(1)]) (use assms(2) in simp)
  have q: "saved_sorted q" "sorted_wrt ev_less pq"
    using c by (simp_all add: saved_sorted_def sorted_wrt_append)
  have "\<forall>e\<in>set dropped. \<not> ev_less ?h' e"
    using assms(3) by (auto simp: ev_less_key)
  then have drop: "between ?h' b ?all = between ?h' b pq" "after ?h' ?all = after ?h' pq" for b
    by (simp_all add: between_def after_def)
  have saved: "saved_as ops U x (exec ops (exec ops sg0 (between ?h ?h' ?all)) (between ?h' (state_event x) pq))"
    if "x \<in> set q" for x
  proof -
    have "saved_as ops U x (exec ops sg0 (between ?h (state_event x) ?all))"
      using assms(1) that by (simp add: lp_consistent_def)
    also have "between ?h (state_event x) ?all = between ?h ?h' ?all @ between ?h' (state_event x) pq"
      using between_split [OF c(2) hh' saved_sorted_hd_le [OF q(1) that]] by (simp only: drop(1))
    finally show ?thesis by (simp only: exec_append)
  qed
  have "sg = exec ops (exec ops sg0 (between ?h ?h' ?all)) (after ?h' pq)"
    using assms(1) after_split [OF c(2) hh', unfolded drop(2)]
    unfolding lp_consistent_def exec_append [symmetric] by metis
  then show ?thesis using assms(2) q saved unfolding lp_consistent_def by blast
qed

lemma fossil_loop_dropped:
  "fossil_loop t pq c = (n, pq') \<Longrightarrow> \<exists>d. pq = d @ pq' \<and> (\<forall>e\<in>set d. timestamp e < t)"
proof (induction t pq c rule: fossil_loop.induct)
  case (1 t e e' es cnt)
  show ?case
  proof (cases "timestamp e < t")
    case True
    with "1.IH" "1.prems" obtain d where "e' # es = d @ pq'" "\<forall>e\<in>set d. timestamp e < t" by auto
    with True show ?thesis by (intro exI [of _ "e # d"]) simp
  qed (use "1.prems" in simp)
qed simp_all

lemma fossilCollect_dropped:
  assumes "t \<noteq> uint_max" and "lp < length (processed_queue es)"
  shows "\<exists>d. processed_queue es ! lp = d @ processed_queue (snd (fossilCollect t lp es)) ! lp \<and>
    (\<forall>e\<in>set d. timestamp e < t)"
proof -
  obtain n pq' where loop: "fossil_loop t (processed_queue es ! lp) 0 = (n, pq')"
    by (cases "fossil_loop t (processed_queue es ! lp) 0")
  with fossil_loop_dropped [OF loop] assms show ?thesis
    by (auto simp: fossilCollect_def Let_def)
qed

lemma fossil_recoverable_queue:
  assumes cons: "lp_consistent ops U sg0 (state_queue sm ! i) (d @ pq') sg"
    and idx: "i < length (state_queue sm)"
    and gvt: "gvt \<noteq> uint_max" "sm_fossilCollect gvt i sm = (t, sm')"
    and d: "\<forall>e\<in>set d. timestamp e < t"
  defines "h \<equiv> state_event (hd (state_queue sm ! i))"
  defines "h' \<equiv> state_event (hd (state_queue sm' ! i))"
  shows "\<exists>p. state_queue sm ! i = p @ state_queue sm' ! i \<and> (\<forall>e\<in>set d. ev_less e h') \<and>
    lp_consistent ops U (exec ops sg0 (between h h' (d @ pq'))) (state_queue sm' ! i) pq' sg \<and>
    (\<forall>r. gvt \<le> timestamp r \<and> ev_less h r \<longrightarrow> ev_less h' r)"
proof -
  let ?q = "state_queue sm ! i" and ?q' = "sm_fossil_loop gvt (state_queue sm ! i)"
  have q: "?q \<noteq> []" using cons by (simp add: lp_consistent_def)
  then have q': "?q' \<noteq> []" by (rule sm_fossil_loop_neq_Nil)
  have sm': "state_queue sm' ! i = ?q'" "t = timestamp (state_event (hd ?q'))"
    using gvt q idx by (auto simp: sm_fossilCollect_def Let_def)
  obtain p where p: "?q = p @ ?q'" using sm_fossil_loop_suffix by metis
  have dl: "\<forall>e\<in>set d. ev_less e (state_event (hd ?q'))"
    using d timestamp_less_ev_key sm'(2) by (simp add: ev_less_key)
  from consistent_fossil [OF _ q' this, of ops U sg0 p pq' sg] cons
  have "lp_consistent ops U (exec ops sg0 (between h h' (d @ pq'))) ?q' pq' sg"
    unfolding p [symmetric] h_def h'_def sm'(1) by blast
  moreover have "ev_less (state_event (hd ?q')) r"
    if "gvt \<le> timestamp r" "ev_less (state_event (hd ?q)) r" for r
  proof (cases "p = []")
    case True
    with p that(2) show ?thesis by simp
  next
    case False
    from sm_fossil_loop_dropped [OF p this] that(1) timestamp_less_ev_key show ?thesis
      by (simp add: ev_less_key)
  qed
  ultimately show ?thesis using sm'(1) p dl unfolding h_def h'_def by metis
qed

end
