(* ===== verification/TW_LPRun.thy ===== *)
theory TW_LPRun
  imports TW_Recovery
begin

text \<open>
  The life of one LP under optimistic execution, as a step relation over the operations of the
  event set and the state manager: events arrive, the scheduled event is processed, a straggler is
  recovered from, and the queues are fossil collected. The abstract specification is the sequential
  execution of the LP's events in timestamp order (\<open>exec\<close> over the ghost component \<open>history\<close>); the
  invariant \<open>run_ok\<close> is the refinement relation. The model's states are any, and so is what a move leaves of
  them: the ghost component \<open>spent\<close> has the events of the saved states that a rollback has restored, and
  with that changed, and that have not been saved again.
\<close>

record ('s, 'g, 'q) lp_run =
  history :: "event list"
  spent :: "event set"
  run_gvt :: u32
  run_es :: "'q event_set"
  run_sm :: "'s state_manager"
  run_lp :: "('s, 'g) lp"

abbreviation run_sg :: "('s, 'g, 'q) lp_run \<Rightarrow> 's \<times> 'g list" where
  "run_sg c \<equiv> (lp_state (run_lp c), rng_list (run_lp c))"

abbreviation run_pq :: "nat \<Rightarrow> ('s, 'g, 'q) lp_run \<Rightarrow> event list" where
  "run_pq i c \<equiv> processed_queue (run_es c) ! i"

abbreviation run_saved :: "nat \<Rightarrow> ('s, 'g, 'q) lp_run \<Rightarrow> 's SavedState list" where
  "run_saved i c \<equiv> state_queue (run_sm c) ! i"

text \<open>After \<open>TimeWarpEventDispatcher::initialize\<close>: the state of the LP is saved with the initial event.\<close>

definition run_init :: "('s, 'g) lp_ops \<Rightarrow> nat \<Rightarrow> ('s, 'g, 'q) lp_run \<Rightarrow> bool" where
  "run_init ops i c \<longleftrightarrow>
     history c = [] \<and> spent c = {} \<and> run_gvt c = 0 \<and> run_pq i c = [] \<and>
     (\<exists>n sm. i < n \<and> run_sm c = saveState ops (InitialEvent 0) i (run_lp c) (sm_initialize n sm)) \<and>
     i < length (processed_queue (run_es c)) \<and> i < length (input_queue (run_es c))"

definition past_gvt :: "('s, 'g, 'q) lp_run \<Rightarrow> event \<Rightarrow> bool" where
  "past_gvt c e \<longleftrightarrow> run_gvt c \<le> timestamp e \<and> ev_less (InitialEvent 0) e"

inductive lp_step :: "'q sched_ops \<Rightarrow> ('s, 'g) lp_ops \<Rightarrow> nat \<Rightarrow>
    ('s, 'g, 'q) lp_run \<Rightarrow> ('s, 'g, 'q) lp_run \<Rightarrow> bool" for so ops i where
  arrive: "insertEvent so j e (run_es c) = Inr es' \<Longrightarrow> lp_step so ops i c (c\<lparr>run_es := es'\<rparr>)"
| process: "past_gvt c e \<Longrightarrow> scheduled_event_pointer (run_es c) ! i = Some e \<Longrightarrow>
    (\<forall>p. lastProcessedEvent i (run_es c) = Some p \<longrightarrow> ev_less p e) \<Longrightarrow>
    lp' = fst (lp_receive ops e (run_lp c)) \<Longrightarrow>
    replenishScheduler so i (run_es c) = Inr es' \<Longrightarrow>
    lp_step so ops i c (c\<lparr>history := history c @ [e], spent := spent c - {e}, run_es := es',
      run_sm := saveState ops e i lp' (run_sm c), run_lp := lp'\<rparr>)"
| recover: "past_gvt c r \<Longrightarrow> restoreState ops r i (run_lp c) (run_sm c) = Inr (ev, lp1, sm') \<Longrightarrow>
    coastForward ops r ev i (rollback i r (run_es c)) lp1 = Inr lp2 \<Longrightarrow> ev \<notin> spent c \<Longrightarrow>
    lp_step so ops i c (c\<lparr>history := filter (\<lambda>e. ev_less e r) (history c),
      spent := spend ops (restored_from r (run_saved i c)) (spent c), run_es := rollback i r (run_es c), run_sm := sm', run_lp := lp2\<rparr>)"
| fossil: "run_gvt c \<le> gvt \<Longrightarrow> gvt \<noteq> uint_max \<Longrightarrow> sm_fossilCollect gvt i (run_sm c) = (t, sm') \<Longrightarrow>
    t \<noteq> uint_max \<Longrightarrow> fossilCollect t i (run_es c) = (num_committed, es') \<Longrightarrow>
    lp_step so ops i c (c\<lparr>run_gvt := gvt, run_es := es', run_sm := sm'\<rparr>)"

inductive lp_reach :: "'q sched_ops \<Rightarrow> ('s, 'g) lp_ops \<Rightarrow> nat \<Rightarrow>
    ('s, 'g, 'q) lp_run \<Rightarrow> ('s, 'g, 'q) lp_run \<Rightarrow> bool" for so ops i where
  refl: "lp_reach so ops i c c"
| step: "lp_reach so ops i c c' \<Longrightarrow> lp_step so ops i c' c'' \<Longrightarrow> lp_reach so ops i c c''"

section \<open>The refinement relation\<close>

definition run_ok :: "('s, 'g) lp_ops \<Rightarrow> nat \<Rightarrow> 's \<times> 'g list \<Rightarrow> ('s, 'g, 'q) lp_run \<Rightarrow> bool" where
  "run_ok ops i sg0 c \<longleftrightarrow>
     (let h = state_event (hd (run_saved i c)) in
        i < length (state_queue (run_sm c)) \<and>
        i < length (processed_queue (run_es c)) \<and> i < length (input_queue (run_es c)) \<and>
        lp_consistent ops (spent c) (exec ops sg0 (filter (\<lambda>e. ev_le e h) (history c)))
          (run_saved i c) (run_pq i c) (run_sg c) \<and>
        sorted_wrt ev_less (history c) \<and>
        (\<exists>d. history c = d @ run_pq i c \<and> (\<forall>e\<in>set d. ev_less e h)) \<and>
        (\<forall>x\<in>set (tl (run_saved i c)). state_event x \<in> set (run_pq i c)) \<and>
        (\<forall>e. past_gvt c e \<longrightarrow> ev_less h e))"

lemma filter_le_dropped:
  assumes "sorted_wrt ev_less (d @ pq)" and "\<forall>e\<in>set d. ev_less e h"
  shows "filter (\<lambda>e. ev_le e h) (d @ pq) @ after h pq = d @ pq"
proof -
  have d: "filter (\<lambda>e. ev_le e h) d = d" using assms(2) by (auto simp: filter_id_conv ev_key_simps)
  have "sorted_wrt ev_less pq" using assms(1) by (simp add: sorted_wrt_append)
  from filter_split_sorted [OF this, of "\<lambda>_. True" h] d show ?thesis by (simp add: after_def)
qed

lemma run_ok_sequential: "run_ok ops i sg0 c \<Longrightarrow> run_sg c = exec ops sg0 (history c)"
proof -
  assume ok: "run_ok ops i sg0 c"
  let ?h = "state_event (hd (run_saved i c))"
  obtain d where d: "history c = d @ run_pq i c" "\<forall>e\<in>set d. ev_less e ?h"
    and sorted: "sorted_wrt ev_less (d @ run_pq i c)"
    using ok by (auto simp: run_ok_def Let_def)
  have "run_sg c = exec ops sg0 (filter (\<lambda>e. ev_le e ?h) (history c) @ after ?h (run_pq i c))"
    using ok unfolding run_ok_def Let_def lp_consistent_def exec_append by blast
  with filter_le_dropped [OF sorted d(2)] d(1) show ?thesis by metis
qed

text \<open>A larger GVT only leaves fewer events that are past it.\<close>

lemma run_ok_later: "run_ok ops i sg0 c \<Longrightarrow> run_gvt c \<le> g \<Longrightarrow> run_ok ops i sg0 (c\<lparr>run_gvt := g\<rparr>)"
  by (auto simp: run_ok_def past_gvt_def Let_def)

section \<open>Frame facts\<close>

lemma insertEvent_processed:
  "insertEvent so j e es = Inr es' \<Longrightarrow> processed_queue es' = processed_queue es \<and>
     length (input_queue es') = length (input_queue es)"
  by (auto simp: insertEvent_def Let_def split: option.splits if_splits)

lemma startScheduling_processed:
  "startScheduling so j es = Inr es' \<Longrightarrow> processed_queue es' = processed_queue es \<and>
     input_queue es' = input_queue es"
  by (auto simp: startScheduling_def Let_def split: if_splits)

lemma migrate_queues [simp]:
  "processed_queue (migrate j es) = processed_queue es" "input_queue (migrate j es) = input_queue es"
  by (simp_all add: migrate_def)

lemma replenishScheduler_processed:
  assumes "replenishScheduler so i es = Inr es'" and "scheduled_event_pointer es ! i = Some e"
  shows "processed_queue es' = (processed_queue es)[i := processed_queue es ! i @ [e]]"
    "length (input_queue es') = length (input_queue es)"
  using assms by (auto simp: replenishScheduler_def Let_def split: prod.splits
      dest!: startScheduling_processed)

lemma lastProcessed_all:
  assumes "sorted_wrt ev_less (processed_queue es ! i)"
    and "\<forall>p. lastProcessedEvent i es = Some p \<longrightarrow> ev_less p e"
  shows "\<forall>p\<in>set (processed_queue es ! i). ev_less p e"
proof (cases "processed_queue es ! i" rule: rev_cases)
  case (snoc ys y)
  with assms show ?thesis by (auto simp: lastProcessedEvent_def sorted_wrt_append ev_key_simps)
qed simp

section \<open>Every step preserves it\<close>

lemma run_okD:
  assumes "run_ok ops i sg0 c"
  defines "h \<equiv> state_event (hd (run_saved i c))"
  shows "i < length (state_queue (run_sm c))" "i < length (processed_queue (run_es c))"
    "i < length (input_queue (run_es c))"
    "lp_consistent ops (spent c) (exec ops sg0 (filter (\<lambda>e. ev_le e h) (history c)))
       (run_saved i c) (run_pq i c) (run_sg c)"
    "sorted_wrt ev_less (history c)" "\<exists>d. history c = d @ run_pq i c \<and> (\<forall>e\<in>set d. ev_less e h)"
    "\<forall>x\<in>set (tl (run_saved i c)). state_event x \<in> set (run_pq i c)"
    "\<forall>e. past_gvt c e \<longrightarrow> ev_less h e" "run_saved i c \<noteq> []" "sorted_wrt ev_less (run_pq i c)"
    "saved_sorted (run_saved i c)"
  using assms unfolding run_ok_def Let_def lp_consistent_def by blast+

lemma run_ok_init:
  assumes "run_init ops i c"
  shows "run_ok ops i (run_sg c) c"
proof -
  obtain n sm where sm: "i < n"
    "run_sm c = saveState ops (InitialEvent 0) i (run_lp c) (sm_initialize n sm)"
    using assms by (auto simp: run_init_def)
  then have "run_saved i c = [\<lparr>state_event = InitialEvent 0, saved_lp_state = lp_state (run_lp c),
      rng_state = map (rng_getState ops) (rng_list (run_lp c))\<rparr>]" "i < length (state_queue (run_sm c))"
    by (simp_all add: saveState_def sm_initialize_def)
  then show ?thesis
    using assms by (simp add: run_init_def run_ok_def Let_def lp_consistent_def saved_sorted_def
        saved_as_def exec_def between_def after_def past_gvt_def)
qed

lemma run_ok_arrive:
  assumes "run_ok ops i sg0 c" and "insertEvent so j e (run_es c) = Inr es'"
  shows "run_ok ops i sg0 (c\<lparr>run_es := es'\<rparr>)"
  using assms(1) insertEvent_processed [OF assms(2)] by (simp add: run_ok_def past_gvt_def)

lemma saved_all_less:
  assumes "run_ok ops i sg0 c" and "past_gvt c e" and "\<forall>p\<in>set (run_pq i c). ev_less p e"
  shows "\<forall>x\<in>set (run_saved i c). ev_less (state_event x) e"
  using run_okD(7-9) [OF assms(1)] assms(2,3) by (cases "run_saved i c") auto

lemma history_all_less:
  assumes "run_ok ops i sg0 c" and "past_gvt c e" and "\<forall>p\<in>set (run_pq i c). ev_less p e"
  shows "\<forall>p\<in>set (history c). ev_less p e"
proof -
  obtain d where "history c = d @ run_pq i c"
    "\<forall>x\<in>set d. ev_less x (state_event (hd (run_saved i c)))" using run_okD(6) [OF assms(1)] by blast
  moreover have "ev_less (state_event (hd (run_saved i c))) e" using run_okD(8) [OF assms(1)] assms(2) by blast
  ultimately show ?thesis using assms(3) by (auto dest: evl.trans)
qed

lemma run_ok_process_gen:
  assumes ok: "run_ok ops i sg0 c" and e: "past_gvt c e" and pq: "\<forall>p\<in>set (run_pq i c). ev_less p e"
    and es': "processed_queue es' ! i = run_pq i c @ [e]" "i < length (processed_queue es')"
      "i < length (input_queue es')"
    and lp': "lp' = fst (lp_receive ops e (run_lp c))"
  shows "run_ok ops i sg0 (c\<lparr>history := history c @ [e], spent := spent c - {e}, run_es := es',
      run_sm := saveState ops e i lp' (run_sm c), run_lp := lp'\<rparr>)"
proof -
  note D = run_okD [OF ok]
  let ?h = "state_event (hd (run_saved i c))" and ?sm' = "saveState ops e i lp' (run_sm c)"
  note saved = saved_all_less [OF ok e pq] and hist = history_all_less [OF ok e pq]
  have q': "state_queue ?sm' ! i = run_saved i c @ (if count (run_sm c) ! i = 0 then
      [\<lparr>state_event = e, saved_lp_state = lp_state lp', rng_state = map (rng_getState ops) (rng_list lp')\<rparr>]
      else [])" "i < length (state_queue ?sm')"
    using saveState_queue [OF D(1), of ops e lp'] D(1) by (simp_all add: saveState_def)
  have hd: "hd (state_queue ?sm' ! i) = hd (run_saved i c)" using q'(1) D(9) by simp
  have he: "ev_less ?h e" using D(8) e by blast
  then have filt: "\<not> ev_le e ?h" by (auto simp: ev_key_simps)
  have cons: "lp_consistent ops (spent c - {e}) (exec ops sg0 (filter (\<lambda>x. ev_le x ?h) (history c)))
      (state_queue ?sm' ! i) (run_pq i c @ [e]) (lp_state lp', rng_list lp')"
    unfolding lp' by (rule forward_step [OF D(4) pq saved D(1)])
  have tl: "\<forall>x\<in>set (tl (state_queue ?sm' ! i)). state_event x \<in> set (run_pq i c @ [e])"
    using D(7,9) q'(1) by auto
  show ?thesis
    using D(5,6,8) es' q'(2) hist tl cons
    by (simp add: run_ok_def Let_def hd filt sorted_wrt_append past_gvt_def)
qed

lemma run_ok_process:
  assumes ok: "run_ok ops i sg0 c" and e: "past_gvt c e" "scheduled_event_pointer (run_es c) ! i = Some e"
    "\<forall>p. lastProcessedEvent i (run_es c) = Some p \<longrightarrow> ev_less p e"
    and repl: "replenishScheduler so i (run_es c) = Inr es'"
    and lp': "lp' = fst (lp_receive ops e (run_lp c))"
  shows "run_ok ops i sg0 (c\<lparr>history := history c @ [e], spent := spent c - {e}, run_es := es',
      run_sm := saveState ops e i lp' (run_sm c), run_lp := lp'\<rparr>)"
proof (rule run_ok_process_gen [OF ok e(1) _ _ _ _ lp'])
  show "\<forall>p\<in>set (run_pq i c). ev_less p e" using lastProcessed_all [OF run_okD(10) [OF ok] e(3)] .
qed (use replenishScheduler_processed [OF repl e(2)] run_okD(2,3) [OF ok] in simp_all)

lemma run_ok_recover:
  assumes ok: "run_ok ops i sg0 c" and r: "past_gvt c r"
    and laws: "rng_law ops" "rng_count_law ops"
    and intact: "state_event (restored_from r (run_saved i c)) \<notin> spent c"
  shows "\<exists>ev lp1 sm' lp2. restoreState ops r i (run_lp c) (run_sm c) = Inr (ev, lp1, sm') \<and>
    ev_less ev r \<and> coastForward ops r ev i (rollback i r (run_es c)) lp1 = Inr lp2 \<and>
    run_ok ops i sg0 (c\<lparr>history := filter (\<lambda>e. ev_less e r) (history c),
      spent := spend ops (restored_from r (run_saved i c)) (spent c),
      run_es := rollback i r (run_es c), run_sm := sm', run_lp := lp2\<rparr>)"
proof -
  note D = run_okD [OF ok]
  let ?h = "state_event (hd (run_saved i c))" and ?es' = "rollback i r (run_es c)"
  have hr: "ev_less ?h r" using D(8) r by blast
  obtain ev lp1 sm' lp2 where rec: "restoreState ops r i (run_lp c) (run_sm c) = Inr (ev, lp1, sm')"
    "ev_less ev r" "coastForward ops r ev i ?es' lp1 = Inr lp2"
    "length (state_queue sm') = length (state_queue (run_sm c))"
    "map state_event (state_queue sm' ! i) = filter (\<lambda>e. ev_less e r) (map state_event (run_saved i c))"
    "lp_consistent ops (spend ops (restored_from r (run_saved i c)) (spent c))
       (exec ops sg0 (filter (\<lambda>e. ev_le e ?h) (history c))) (state_queue sm' ! i)
       (filter (\<lambda>e. ev_less e r) (run_pq i c)) (lp_state lp2, rng_list lp2)"
    using recovery [OF D(4) laws D(1-3) hr] intact by blast
  have len: "i < length (processed_queue ?es')" "i < length (input_queue ?es')"
    using D(2,3) by (simp_all add: rollback_def split: prod.split)
  note pq = rollback_queues(1) [OF D(10,2,3), of r]
  obtain y ys where ys: "run_saved i c = y # ys" using D(9) by (cases "run_saved i c") auto
  then obtain z zs where zs: "state_queue sm' ! i = z # zs" "state_event z = ?h"
    "map state_event zs = filter (\<lambda>e. ev_less e r) (map state_event ys)"
    using rec(5) hr by (cases "state_queue sm' ! i") auto
  have tl: "\<forall>x\<in>set zs. state_event x \<in> set (filter (\<lambda>e. ev_less e r) (run_pq i c))"
  proof
    fix x assume "x \<in> set zs"
    then have "state_event x \<in> set (map state_event zs)" by simp
    then show "state_event x \<in> set (filter (\<lambda>e. ev_less e r) (run_pq i c))"
      unfolding zs(3) using D(7) ys by auto
  qed
  have filt: "filter (\<lambda>e. ev_le e ?h) (filter (\<lambda>e. ev_less e r) (history c)) =
      filter (\<lambda>e. ev_le e ?h) (history c)"
    using hr by (auto intro!: filter_cong simp: ev_key_simps)
  obtain d where d: "history c = d @ run_pq i c" "\<forall>e\<in>set d. ev_less e ?h" using D(6) by blast
  have "run_ok ops i sg0 (c\<lparr>history := filter (\<lambda>e. ev_less e r) (history c),
      spent := spend ops (restored_from r (run_saved i c)) (spent c), run_es := ?es', run_sm := sm', run_lp := lp2\<rparr>)"
    unfolding run_ok_def Let_def lp_run.simps lp_run.update_convs
    using D(1,8) rec(4,6) len pq zs tl filt d D(5) sorted_wrt_filter [OF D(5), of "\<lambda>e. ev_less e r"]
    by (auto simp: past_gvt_def intro!: exI [of _ "filter (\<lambda>e. ev_less e r) d"])
  with rec show ?thesis by blast
qed

lemma run_ok_fossil_gen:
  assumes ok: "run_ok ops i sg0 c" and g: "run_gvt c \<le> gvt" "gvt \<noteq> uint_max"
    "sm_fossilCollect gvt i (run_sm c) = (t, sm')"
    and d: "run_pq i c = d @ processed_queue es' ! i" "\<forall>e\<in>set d. timestamp e < t"
    and es': "i < length (processed_queue es')" "i < length (input_queue es')"
  shows "run_ok ops i sg0 (c\<lparr>run_gvt := gvt, run_es := es', run_sm := sm'\<rparr>)"
proof -
  note D = run_okD [OF ok]
  let ?h = "state_event (hd (run_saved i c))" and ?h' = "state_event (hd (state_queue sm' ! i))"
  obtain p where f: "run_saved i c = p @ state_queue sm' ! i"
    "run_pq i c = d @ processed_queue es' ! i" "\<forall>e\<in>set d. ev_less e ?h'"
    "lp_consistent ops (spent c) (exec ops (exec ops sg0 (filter (\<lambda>e. ev_le e ?h) (history c)))
       (between ?h ?h' (run_pq i c))) (state_queue sm' ! i) (processed_queue es' ! i) (run_sg c)"
    "\<forall>r. gvt \<le> timestamp r \<and> ev_less ?h r \<longrightarrow> ev_less ?h' r"
    using fossil_recoverable_queue [OF D(4) [unfolded d(1)] D(1) g(2,3) d(2)] unfolding d(1) [symmetric]
    by blast
  have q': "state_queue sm' ! i \<noteq> []" using f(4) by (simp add: lp_consistent_def)
  have hh': "ev_le ?h ?h'" by (rule saved_sorted_hd_le [OF D(11)]) (use f(1) q' in simp)
  obtain d0 where d0: "history c = d0 @ run_pq i c" "\<forall>e\<in>set d0. ev_less e ?h" using D(6) by blast
  have split: "filter (\<lambda>e. ev_le e ?h) (history c) @ between ?h ?h' (run_pq i c) =
      filter (\<lambda>e. ev_le e ?h') (history c)"
  proof -
    have "filter (\<lambda>e. ev_le e ?h') (history c) =
        filter (\<lambda>e. ev_le e ?h' \<and> ev_le e ?h) (history c) @ between ?h ?h' (history c)"
      unfolding between_def using filter_split_sorted [OF D(5), of "\<lambda>e. ev_le e ?h'" ?h]
      by (simp add: conj_commute)
    also have "filter (\<lambda>e. ev_le e ?h' \<and> ev_le e ?h) (history c) = filter (\<lambda>e. ev_le e ?h) (history c)"
      using hh' by (intro filter_cong) (auto simp: ev_key_simps)
    also have "between ?h ?h' (history c) = between ?h ?h' (run_pq i c)"
      using d0 by (auto simp: between_def filter_empty_conv ev_key_simps)
    finally show ?thesis by simp
  qed
  have tl: "state_event x \<in> set (processed_queue es' ! i)" if "x \<in> set (tl (state_queue sm' ! i))" for x
  proof -
    have "x \<in> set (tl (run_saved i c))" unfolding f(1) using that q' by (cases p) (auto dest: list.set_sel(2))
    then have "state_event x \<in> set (d @ processed_queue es' ! i)" using D(7) f(2) by simp
    moreover have "ev_less ?h' (state_event x)"
      using f(4) that by (cases "state_queue sm' ! i") (auto simp: lp_consistent_def saved_sorted_def)
    ultimately show ?thesis using f(3) by (auto simp: ev_key_simps)
  qed
  have dropped: "\<exists>d. history c = d @ processed_queue es' ! i \<and> (\<forall>e\<in>set d. ev_less e ?h')"
    using d0 f(2,3) hh' by (intro exI [of _ "d0 @ d"]) (auto simp: ev_key_simps)
  have past: "\<forall>e. past_gvt (c\<lparr>run_gvt := gvt, run_es := es', run_sm := sm'\<rparr>) e \<longrightarrow> ev_less ?h' e"
    using f(5) D(8) g(1) by (auto simp: past_gvt_def)
  have len: "i < length (state_queue sm')"
    using D(1) g(3) by (auto simp: sm_fossilCollect_def Let_def split: if_splits)
  show ?thesis
    unfolding run_ok_def Let_def
    using len es' f(4) split D(5) dropped tl past by (simp add: exec_append [symmetric])
qed

lemma run_ok_fossil:
  assumes ok: "run_ok ops i sg0 c" and g: "run_gvt c \<le> gvt" "gvt \<noteq> uint_max"
    "sm_fossilCollect gvt i (run_sm c) = (t, sm')" "t \<noteq> uint_max" "fossilCollect t i (run_es c) = (n, es')"
  shows "run_ok ops i sg0 (c\<lparr>run_gvt := gvt, run_es := es', run_sm := sm'\<rparr>)"
proof -
  note D = run_okD [OF ok]
  obtain d where "run_pq i c = d @ processed_queue es' ! i" "\<forall>e\<in>set d. timestamp e < t"
    using fossilCollect_dropped [OF g(4) D(2)] g(5) by (metis snd_conv)
  moreover have "i < length (processed_queue es')" "i < length (input_queue es')"
    using D(2,3) g(5) by (auto simp: fossilCollect_def Let_def split: if_splits prod.splits)
  ultimately show ?thesis by (rule run_ok_fossil_gen [OF ok g(1-3)])
qed

lemma restoreState_event:
  "restoreState ops r i lp sm = Inr (ev, lp1, sm') \<Longrightarrow> saved_sorted (state_queue sm ! i) \<Longrightarrow>
   ev = state_event (restored_from r (state_queue sm ! i))"
  by (auto simp: restoreState_def restored_from_def Let_def restore_loop_sorted split: prod.splits)

lemma run_ok_step:
  "lp_step so ops i c c' \<Longrightarrow> run_ok ops i sg0 c \<Longrightarrow> rng_law ops \<Longrightarrow> rng_count_law ops \<Longrightarrow> run_ok ops i sg0 c'"
proof (induction rule: lp_step.induct)
  case (recover c r ev lp1 sm' lp2)
  have "state_event (restored_from r (run_saved i c)) \<notin> spent c"
    using restoreState_event [OF recover.hyps(2) run_okD(11) [OF recover.prems(1)]] recover.hyps(4) by simp
  from run_ok_recover [OF recover.prems(1) recover.hyps(1) recover.prems(2,3) this] recover.hyps(2,3)
  show ?case by auto
qed (simp_all add: run_ok_arrive run_ok_process run_ok_fossil)

end
