(* ===== verification/TW_LPRun_Props.thy ===== *)
theory TW_LPRun_Props
  imports TW_LPRun
begin

text \<open>
  The correctness of optimistic execution for one LP, and of the state manager it rests on, with
  the sample model that the witnesses evaluate.
\<close>

section \<open>A sample model\<close>

text \<open>The LP adds up the timestamps of its events and uses one generator, a counter in unary.\<close>

definition sample_ops :: "(nat, string) lp_ops" where
  "sample_ops = \<lparr>receiveEvent = (\<lambda>e (s, g). ((s + unat (timestamp e), map (\<lambda>x. CHR ''1'' # x) g), [])),
     initializeLP = (\<lambda>sg. (sg, [])), rng_getState = (\<lambda>g. g), rng_restoreState = (\<lambda>s g. s),
     moved = (\<lambda>s. s)\<rparr>"

text \<open>The same model with a state whose move leaves it empty, as for a container.\<close>

definition sample_ops_moved :: "(nat, string) lp_ops" where
  "sample_ops_moved = sample_ops\<lparr>moved := (\<lambda>_. 0)\<rparr>"

lemma sample_laws: "rng_law sample_ops" "rng_count_law sample_ops" "rng_law sample_ops_moved" "rng_count_law sample_ops_moved"
  by (simp_all add: sample_ops_def sample_ops_moved_def rng_law_def rng_count_law_def)

definition sample_lp :: "(nat, string) lp" where
  "sample_lp = \<lparr>name = ''lp'', lp_state = 7, rng_list = [''''], last_fossil_collect_gvt = 0,
     lp_generation = 0\<rparr>"

definition sample_sm :: "nat state_manager" where
  "sample_sm = saveState sample_ops (InitialEvent 0) 0 sample_lp
     (sm_initialize 1 \<lparr>state_queue = [], sm_num_local_lps = 0, period = 2, count = []\<rparr>)"

definition sample_es1 :: "event list event_set" where
  "sample_es1 = sample_es0\<lparr>input_queue := [[sample_event 1 POSITIVE 10 1]],
     scheduled_event_pointer := [Some (sample_event 1 POSITIVE 10 1)]\<rparr>"

definition sample_run :: "(nat, string, event list) lp_run" where
  "sample_run = \<lparr>history = [], spent = {}, run_gvt = 0, run_es = sample_es1, run_sm = sample_sm, run_lp = sample_lp\<rparr>"

lemma sample_run_init: "run_init (sample_ops\<lparr>moved := f\<rparr>) 0 sample_run"
proof -
  have "saveState (sample_ops\<lparr>moved := f\<rparr>) = saveState sample_ops" by (simp add: saveState_def fun_eq_iff)
  then have "\<exists>n sm. 0 < n \<and> sample_sm = saveState (sample_ops\<lparr>moved := f\<rparr>) (InitialEvent 0) 0 sample_lp (sm_initialize n sm)"
    unfolding sample_sm_def using zero_less_one by auto
  then show ?thesis
    by (simp add: run_init_def sample_run_def sample_es1_def sample_es0_def)
qed

definition sample_run2 :: "(nat, string, event list) lp_run" where
  "sample_run2 = (let lp' = fst (lp_receive sample_ops (sample_event 1 POSITIVE 10 1) sample_lp)
     in sample_run\<lparr>history := [sample_event 1 POSITIVE 10 1],
       run_es := sample_es1\<lparr>input_queue := [[]], processed_queue := [[sample_event 1 POSITIVE 10 1]],
         scheduled_event_pointer := [None]\<rparr>,
       run_sm := saveState sample_ops (sample_event 1 POSITIVE 10 1) 0 lp' sample_sm, run_lp := lp'\<rparr>)"

lemma sample_step: "lp_step multiset_ops (sample_ops\<lparr>moved := f\<rparr>) 0 sample_run sample_run2"
proof -
  have "saveState (sample_ops\<lparr>moved := f\<rparr>) = saveState sample_ops" "lp_receive (sample_ops\<lparr>moved := f\<rparr>) = lp_receive sample_ops"
    by (simp_all add: saveState_def lp_receive_def fun_eq_iff)
  moreover let ?e = "sample_event 1 POSITIVE 10 1"
  have "replenishScheduler multiset_ops 0 sample_es1 = Inr (sample_es1\<lparr>input_queue := [[]],
      processed_queue := [[?e]], scheduled_event_pointer := [None]\<rparr>)"
    by (simp add: replenishScheduler_def sample_es1_def sample_es0_def ms_erase_def ms_equiv_compareEvents
        startScheduling_def migrate_def)
  moreover have "past_gvt sample_run ?e"
    by (simp add: past_gvt_def sample_run_def ev_less_key ev_key_def InitialEvent_def sample_event_def)
  ultimately show ?thesis
    using lp_step.process [of sample_run ?e 0 _ "sample_ops\<lparr>moved := f\<rparr>" multiset_ops]
    by (simp add: sample_run_def sample_run2_def sample_es1_def sample_es0_def lastProcessedEvent_def Let_def)
qed

lemma sample_reach: "lp_reach multiset_ops (sample_ops\<lparr>moved := f\<rparr>) 0 sample_run sample_run2"
  by (rule lp_reach.step [OF lp_reach.refl sample_step])

section \<open>Optimistic execution\<close>

lemma lp_reach_ok:
  "lp_reach so ops i c0 c \<Longrightarrow> run_ok ops i sg0 c0 \<Longrightarrow> rng_law ops \<Longrightarrow> rng_count_law ops \<Longrightarrow>
   run_ok ops i sg0 c"
  by (induction rule: lp_reach.induct) (auto intro: run_ok_step)

text \<open>C3: Optimistic execution of an LP implements its sequential execution: whatever interleaving
  of arriving events, processing, rollbacks with coast forwarding and fossil collection has
  happened, the state and the generators of the LP are those obtained by processing, from the
  initial state, the events of its history one after the other in strictly increasing order. States are
  any values, and a move may leave anything of them; what the run must not contain is a rollback that restores
  a saved state out of which an earlier one has moved a state that this changes, as nothing is left there to restore
  (\<open>second_restore_is_moved\<close> below). Events that are processed and stragglers are not before the GVT of the last
  fossil collection. The generators can be saved and restored as text, and a model keeps their number.\<close>

theorem optimistic_equals_sequential:
  assumes "run_init ops i c0" and "lp_reach so ops i c0 c"
    and "rng_law ops" and "rng_count_law ops"
  shows "(lp_state (run_lp c), rng_list (run_lp c)) =
      exec ops (lp_state (run_lp c0), rng_list (run_lp c0)) (history c) \<and>
    sorted_wrt ev_less (history c)"
  using lp_reach_ok [OF assms(2) run_ok_init [OF assms(1)] assms(3,4)]
  by (auto dest: run_ok_sequential simp: run_okD(5))

lemma sample_past: "past_gvt sample_run2 (sample_event 2 NEGATIVE 10 1)"
  by (simp add: past_gvt_def sample_run2_def sample_run_def Let_def ev_less_key ev_key_def
      InitialEvent_def sample_event_def)

lemma sample_spent: "spent sample_run2 = {}"
  by (simp add: sample_run2_def sample_run_def Let_def)

lemma sample_moved_reach:
  "run_init sample_ops_moved 0 sample_run" "lp_reach multiset_ops sample_ops_moved 0 sample_run sample_run2"
  unfolding sample_ops_moved_def by (rule sample_run_init, rule sample_reach)

lemma sample_run_ok: "run_ok sample_ops_moved 0 (run_sg sample_run) sample_run2"
  by (rule lp_reach_ok [OF sample_moved_reach(2) run_ok_init [OF sample_moved_reach(1)] sample_laws(3,4)])

lemma sample_history: "filter (\<lambda>e. ev_less e (sample_event 2 NEGATIVE 10 1)) (history sample_run2) = []"
  by (simp add: sample_run2_def sample_run_def Let_def ev_less_key)

lemma sample_recover:
  "\<exists>c. lp_reach multiset_ops sample_ops_moved 0 sample_run c \<and> history c = [] \<and> run_sm c \<noteq> run_sm sample_run"
proof -
  let ?r = "sample_event 2 NEGATIVE 10 1"
  note ok = sample_run_ok
  obtain ev lp1 sm' lp2 where rec: "restoreState sample_ops_moved ?r 0 (run_lp sample_run2) (run_sm sample_run2) = Inr (ev, lp1, sm')"
    "coastForward sample_ops_moved ?r ev 0 (rollback 0 ?r (run_es sample_run2)) lp1 = Inr lp2"
    using run_ok_recover [OF ok sample_past sample_laws(3,4)] by (auto simp: sample_spent)
  have "saved_lp_state (last (state_queue sm' ! 0)) = 0"
    using rec(1) run_okD(1) [OF ok]
    by (auto simp: restoreState_def LPState_restoreState_def sample_ops_moved_def Let_def split: prod.splits)
  moreover have "saved_lp_state (last (state_queue (run_sm sample_run) ! 0)) = 7"
    by (simp add: sample_run_def sample_sm_def saveState_def sm_initialize_def sample_lp_def)
  ultimately have "sm' \<noteq> run_sm sample_run" by auto
  moreover have "ev \<notin> spent sample_run2" by (simp add: sample_spent)
  from lp_reach.step [OF sample_moved_reach(2) lp_step.recover [OF sample_past rec this]]
  have "\<exists>c. lp_reach multiset_ops sample_ops_moved 0 sample_run c \<and> history c = [] \<and> run_sm c = sm'"
    by (intro exI conjI, assumption) (simp_all add: sample_history [simplified])
  ultimately show ?thesis by blast
qed

text \<open>A rollback has moved the state out of the saved one.\<close>

theorem optimistic_equals_sequential_witness:
  "\<exists>c. lp_reach multiset_ops sample_ops_moved 0 sample_run c \<and> run_sm c \<noteq> run_sm sample_run \<and> lp_state (run_lp c) = 7"
proof -
  obtain c where c: "lp_reach multiset_ops sample_ops_moved 0 sample_run c" "history c = []" "run_sm c \<noteq> run_sm sample_run"
    using sample_recover by blast
  have "lp_state (run_lp sample_run) = 7" by (simp add: sample_run_def sample_lp_def)
  with optimistic_equals_sequential [OF sample_moved_reach(1) c(1) sample_laws(3,4)] c show ?thesis
    by (auto simp: exec_def)
qed

text \<open>A straggler that is not before GVT can always be recovered from: in every reachable state
  there is a saved state before it, \<open>restoreState\<close> and \<open>coastForward\<close> raise no assertion, the event
  of the restored state is before the straggler, and the LP is then in the state that the events
  before the straggler alone produce.\<close>

theorem straggler_recovers:
  assumes "run_init ops i c0" and "lp_reach so ops i c0 c"
    and "rng_law ops" and "rng_count_law ops"
    and "past_gvt c r" and "state_event (restored_from r (run_saved i c)) \<notin> spent c"
  shows "\<exists>ev lp1 sm' lp2. restoreState ops r i (run_lp c) (run_sm c) = Inr (ev, lp1, sm') \<and>
    ev_less ev r \<and> coastForward ops r ev i (rollback i r (run_es c)) lp1 = Inr lp2 \<and>
    (lp_state lp2, rng_list lp2) =
      exec ops (lp_state (run_lp c0), rng_list (run_lp c0)) (filter (\<lambda>e. ev_less e r) (history c))"
proof -
  note ok = lp_reach_ok [OF assms(2) run_ok_init [OF assms(1)] assms(3,4)]
  from run_ok_recover [OF ok assms(5,3,4,6)] run_ok_sequential show ?thesis
    by (fastforce dest: run_ok_sequential)
qed

theorem straggler_recovers_witness:
  "\<exists>ev lp1 sm' lp2. restoreState sample_ops_moved (sample_event 2 NEGATIVE 10 1) 0 (run_lp sample_run2)
       (run_sm sample_run2) = Inr (ev, lp1, sm') \<and>
     coastForward sample_ops_moved (sample_event 2 NEGATIVE 10 1) ev 0
       (rollback 0 (sample_event 2 NEGATIVE 10 1) (run_es sample_run2)) lp1 = Inr lp2"
  using straggler_recovers [OF sample_moved_reach sample_laws(3,4) sample_past] sample_spent by blast

section \<open>The state manager\<close>

text \<open>After \<open>sm_initialize\<close>, the states saved for an LP are those of every \<open>period\<close>-th call of
  \<open>saveState\<close>, the first one included.\<close>

theorem saveState_every_period:
  assumes "period sm \<noteq> 0" and "i < n"
  shows "map state_event (state_queue (fold (\<lambda>(e, lp). saveState ops e i lp) es (sm_initialize n sm)) ! i) =
    map fst (nths es {j. j mod unat (period sm) = 0})"
proof -
  have "unat (period sm) > 0" using assms(1) by (simp add: unat_gt_0)
  then show ?thesis
    using saveState_run [of "sm_initialize n sm" i ops es] assms(2)
    by (simp add: sm_initialize_def)
qed

theorem saveState_every_period_witness:
  "map state_event (state_queue (fold (\<lambda>(e, lp). saveState sample_ops e 0 lp)
     [(InitialEvent 0, sample_lp), (InitialEvent 1, sample_lp), (InitialEvent 2, sample_lp)]
     (sm_initialize 1 sample_sm)) ! 0) = [InitialEvent 0, InitialEvent 2]"
proof -
  have "period sample_sm = 2" by (simp add: sample_sm_def saveState_def sm_initialize_def)
  with saveState_every_period [of sample_sm 0 1 sample_ops "[(InitialEvent 0, sample_lp),
      (InitialEvent 1, sample_lp), (InitialEvent 2, sample_lp)]"]
  show ?thesis by (simp add: nths_Cons)
qed

text \<open>The move assignment of \<open>LPStateMixin::restoreState\<close> empties the saved state: when two
  rollbacks in a row go back to the same saved state, the second one restores what the move left
  of it (\<open>moved\<close>), not the state that was saved.\<close>

theorem second_restore_is_moved:
  assumes "saved_sorted (state_queue sm ! i)" and "i < length (state_queue sm)" and "rng_law ops"
    and "filter (\<lambda>x. ev_less (state_event x) r) (state_queue sm ! i) = q' @ [saved]"
    and "rng_state saved = map (rng_getState ops) gs" and "length gs = length (rng_list lp)"
    and "ev_less (state_event saved) r'" and "length (rng_list lp') = length gs"
  shows "\<exists>lp1 sm1 lp2 sm2.
    restoreState ops r i lp sm = Inr (state_event saved, lp1, sm1) \<and>
    lp_state lp1 = saved_lp_state saved \<and>
    restoreState ops r' i lp' sm1 = Inr (state_event saved, lp2, sm2) \<and>
    lp_state lp2 = moved ops (saved_lp_state saved)"
proof -
  note first = restoreState_eq [OF assms(1,4,3,5,6)]
  let ?saved = "saved\<lparr>saved_lp_state := moved ops (saved_lp_state saved)\<rparr>"
  let ?sm1 = "sm\<lparr>state_queue := (state_queue sm)[i := q' @ [?saved]]\<rparr>"
  have "saved_sorted (q' @ [saved])"
    using saved_sorted_filter [OF assms(1), of "\<lambda>x. ev_less (state_event x) r"] assms(4) by simp
  then have sorted: "saved_sorted (state_queue ?sm1 ! i)" and before: "\<forall>x\<in>set q'. ev_less (state_event x) r'"
    using assms(2,7) by (auto simp: saved_sorted_def sorted_wrt_append dest: evl.trans)
  have q2: "filter (\<lambda>x. ev_less (state_event x) r') (state_queue ?sm1 ! i) = q' @ [?saved]"
    using assms(2,7) before by (simp add: filter_id_conv)
  have "rng_state ?saved = map (rng_getState ops) gs" using assms(5) by simp
  from first restoreState_eq [OF sorted q2 assms(3) this, of lp'] assms(8) show ?thesis by simp
qed

theorem second_restore_is_moved_witness:
  "\<exists>lp1 sm1 lp2 sm2.
    restoreState sample_ops_moved (sample_event 1 POSITIVE 10 1) 0 sample_lp sample_sm =
      Inr (InitialEvent 0, lp1, sm1) \<and> lp_state lp1 = 7 \<and>
    restoreState sample_ops_moved (sample_event 2 POSITIVE 20 1) 0 sample_lp sm1 =
      Inr (InitialEvent 0, lp2, sm2) \<and> lp_state lp2 = 0"
proof -
  let ?s = "\<lparr>state_event = InitialEvent 0, saved_lp_state = 7::nat, rng_state = ['''']\<rparr>"
  have q: "state_queue sample_sm = [[?s]]"
    by (simp add: sample_sm_def saveState_def sm_initialize_def sample_lp_def sample_ops_def)
  have l: "ev_less (InitialEvent 0) (sample_event 1 POSITIVE 10 1)"
    "ev_less (InitialEvent 0) (sample_event 2 POSITIVE 20 1)"
    by (simp_all add: ev_less_key ev_key_def InitialEvent_def sample_event_def)
  show ?thesis
    using second_restore_is_moved [of sample_sm 0 sample_ops_moved "sample_event 1 POSITIVE 10 1" "[]" ?s
        "['''']" sample_lp "sample_event 2 POSITIVE 20 1" sample_lp] q l sample_laws(3)
    by (simp add: saved_sorted_def sample_ops_moved_def sample_ops_def sample_lp_def)
qed

end
