(* ===== verification/TW_Comm.thy ===== *)
theory TW_Comm
  imports Warped_Event
begin

text \<open>
  Kernel messages (\<open>src/src/TimeWarpKernelMessage.hpp\<close> and the message classes beside their
  managers) and the communication manager (\<open>TimeWarpCommunicationManager.*\<close>,
  \<open>TimeWarpMPICommunicationManager.*\<close>).

  MPI is not part of the repository. What the manager uses of it is explicit: \<open>MPI_Pack\<close> writes
  bytes into a buffer at a position or fails, \<open>MPI_Isend\<close> hands a buffer to a receiver (the list
  of outgoing buffers is a result), \<open>MPI_Test\<close> tells which requests have completed (a list of
  flags) and \<open>MPI_Iprobe\<close>/\<open>MPI_Irecv\<close> deliver buffers (a list). The serialization library turns a
  message into bytes and back: the parameters \<open>ser\<close> and \<open>deser\<close>. Ints have 4 bytes, low byte first.
\<close>

section \<open>Messages\<close>

datatype MessageType = MT_EventMessage | MT_MatternGVTToken | MT_GVTUpdateMessage
  | MT_TerminationToken | MT_Terminator

datatype Color = WHITE | RED

datatype State = ACTIVE | PASSIVE

text \<open>The first two arguments are \<open>sender_id\<close> and \<open>receiver_id\<close>.\<close>

datatype kmsg =
    EventMessage (sender_id: u32) (receiver_id: u32) (em_event: event) (em_color: Color)
  | MatternGVTToken (sender_id: u32) (receiver_id: u32) (m_clock: u32) (m_send: u32) (mt_count: i32)
  | GVTUpdateMessage (sender_id: u32) (receiver_id: u32) (new_gvt: u32)
  | TerminationToken (sender_id: u32) (receiver_id: u32) (tt_state: State) (initiator: u32) (tt_count: i32)
  | Terminator (sender_id: u32) (receiver_id: u32)

fun get_type :: "kmsg \<Rightarrow> MessageType" where
  "get_type (EventMessage _ _ _ _) = MT_EventMessage"
| "get_type (MatternGVTToken _ _ _ _ _) = MT_MatternGVTToken"
| "get_type (GVTUpdateMessage _ _ _) = MT_GVTUpdateMessage"
| "get_type (TerminationToken _ _ _ _ _) = MT_TerminationToken"
| "get_type (Terminator _ _) = MT_Terminator"

section \<open>State\<close>

type_synonym byte = "8 word"

record PendingRequest =
  buffer :: "byte list"
  rq_count :: nat

record 'h comm =
  msg_handler_by_msg_type :: "MessageType \<rightharpoonup> 'h"
  node_id_by_lp_name :: "string \<rightharpoonup> u32"
  max_buffer_size :: nat
  max_aggregate :: u32
  num_processes :: nat
  my_rank :: nat
  aggregate_messages :: "kmsg list list"
  aggregate_message_count :: "u32 list"
  send_msg_list :: "kmsg list"
  send_pending :: "PendingRequest list"
  recv_pending :: "PendingRequest list"

text \<open>The constructor, then \<open>initialize\<close> with what MPI says of the number of processes and the rank.\<close>

definition comm_new :: "nat \<Rightarrow> u32 \<Rightarrow> 'h comm" where
  "comm_new buffer_size aggregate =
     \<lparr>msg_handler_by_msg_type = (\<lambda>_. None), node_id_by_lp_name = (\<lambda>_. None),
      max_buffer_size = buffer_size * unat aggregate, max_aggregate = aggregate,
      num_processes = 0, my_rank = 0, aggregate_messages = [], aggregate_message_count = [],
      send_msg_list = [], send_pending = [], recv_pending = []\<rparr>"

definition comm_initialize :: "nat \<Rightarrow> nat \<Rightarrow> 'h comm \<Rightarrow> nat \<times> 'h comm" where
  "comm_initialize n rank c =
     (n, c\<lparr>num_processes := n, my_rank := rank, aggregate_messages := replicate n [],
           aggregate_message_count := replicate n 0, send_msg_list := [], send_pending := [],
           recv_pending := []\<rparr>)"

text \<open>\<open>std::unordered_map::insert\<close> keeps an entry that is already there.\<close>

definition addRecvMessageHandler :: "MessageType \<Rightarrow> 'h \<Rightarrow> 'h comm \<Rightarrow> 'h comm" where
  "addRecvMessageHandler t h c =
     (case msg_handler_by_msg_type c t of
        None \<Rightarrow> c\<lparr>msg_handler_by_msg_type := (msg_handler_by_msg_type c)(t \<mapsto> h)\<rparr>
      | Some _ \<Rightarrow> c)"

fun lp_map_loop :: "u32 \<Rightarrow> string list list \<Rightarrow> (string \<rightharpoonup> u32) \<Rightarrow> (string \<rightharpoonup> u32)" where
  "lp_map_loop partition_id [] mp = mp"
| "lp_map_loop partition_id (part # ps) mp =
     lp_map_loop (partition_id + 1) ps (fold (\<lambda>nm mp. mp(nm \<mapsto> partition_id)) part mp)"

definition initializeLPMap :: "string list list \<Rightarrow> 'h comm \<Rightarrow> 'h comm" where
  "initializeLPMap lps c = c\<lparr>node_id_by_lp_name := lp_map_loop 0 lps (node_id_by_lp_name c)\<rparr>"

text \<open>\<open>operator[]\<close> adds the entry 0 for a name that is not there.\<close>

definition getNodeID :: "string \<Rightarrow> 'h comm \<Rightarrow> u32 \<times> 'h comm" where
  "getNodeID nm c =
     (case node_id_by_lp_name c nm of
        Some k \<Rightarrow> (k, c)
      | None \<Rightarrow> (0, c\<lparr>node_id_by_lp_name := (node_id_by_lp_name c)(nm \<mapsto> 0)\<rparr>))"

section \<open>Sending\<close>

definition insertMessage :: "kmsg \<Rightarrow> 'h comm \<Rightarrow> 'h comm" where
  "insertMessage msg c = c\<lparr>send_msg_list := send_msg_list c @ [msg]\<rparr>"

definition int_bytes :: "nat \<Rightarrow> byte list" where
  "int_bytes n = [of_nat n, of_nat (n div 256), of_nat (n div 256 div 256), of_nat (n div 256 div 256 div 256)]"

definition bytes_int :: "byte list \<Rightarrow> nat" where
  "bytes_int bs = unat (bs ! 0) + 256 * (unat (bs ! 1) + 256 * (unat (bs ! 2) + 256 * unat (bs ! 3)))"

definition MPI_Pack :: "byte list \<Rightarrow> byte list \<Rightarrow> nat \<Rightarrow> (byte list \<times> nat) res" where
  "MPI_Pack data buf pos =
     (if pos + length data \<le> length buf
      then Inr (take pos buf @ data @ drop (pos + length data) buf, pos + length data)
      else Inl (Runtime_Error ''MPI_Pack''))"

text \<open>The loop over the messages: lengths at \<open>position\<close>, contents at \<open>message_position\<close>.\<close>

fun pack_loop :: "(kmsg \<Rightarrow> byte list) \<Rightarrow> kmsg list \<Rightarrow> byte list \<Rightarrow> nat \<Rightarrow> nat \<Rightarrow>
    (byte list \<times> nat) res" where
  "pack_loop ser [] buf position message_position = Inr (buf, message_position)"
| "pack_loop ser (msg # ms) buf position message_position =
     bindR (MPI_Pack (int_bytes (length (ser msg))) buf position) (\<lambda>(buf1, position1).
     bindR (MPI_Pack (ser msg) buf1 message_position) (\<lambda>(buf2, message_position1).
     pack_loop ser ms buf2 position1 message_position1))"

definition pack :: "(kmsg \<Rightarrow> byte list) \<Rightarrow> kmsg list \<Rightarrow> byte list \<Rightarrow> (byte list \<times> nat) res" where
  "pack ser ms buf =
     bindR (MPI_Pack (int_bytes (length ms)) buf 0) (\<lambda>(buf1, position).
     pack_loop ser ms buf1 position (4 * (length ms + 1)))"

text \<open>\<open>fresh\<close> is the content of the newly allocated buffer; the second result is what is sent.\<close>

definition packAndSend :: "(kmsg \<Rightarrow> byte list) \<Rightarrow> byte list \<Rightarrow> nat \<Rightarrow> 'h comm \<Rightarrow>
    ('h comm \<times> (nat \<times> byte list)) res" where
  "packAndSend ser fresh receiver c =
     bindR (pack ser (aggregate_messages c ! receiver) (take (max_buffer_size c) fresh)) (\<lambda>(buf, position).
     Inr (c\<lparr>send_pending := send_pending c @ [\<lparr>buffer = buf, rq_count = position\<rparr>],
            aggregate_messages := (aggregate_messages c)[receiver := []],
            aggregate_message_count := (aggregate_message_count c)[receiver := 0]\<rparr>,
          (receiver, take position buf)))"

fun flush_loop :: "(kmsg \<Rightarrow> byte list) \<Rightarrow> byte list \<Rightarrow> nat list \<Rightarrow> 'h comm \<Rightarrow>
    ('h comm \<times> (nat \<times> byte list) list) res" where
  "flush_loop ser fresh [] c = Inr (c, [])"
| "flush_loop ser fresh (r # rs) c =
     bindR (packAndSend ser fresh r c) (\<lambda>(c1, b).
     bindR (flush_loop ser fresh rs c1) (\<lambda>(c2, bs). Inr (c2, b # bs)))"

definition flushMessages :: "(kmsg \<Rightarrow> byte list) \<Rightarrow> byte list \<Rightarrow> 'h comm \<Rightarrow>
    ('h comm \<times> (nat \<times> byte list) list) res" where
  "flushMessages ser fresh c = flush_loop ser fresh [0..<num_processes c] c"

fun start_send_loop :: "(kmsg \<Rightarrow> byte list) \<Rightarrow> byte list \<Rightarrow> kmsg list \<Rightarrow> 'h comm \<Rightarrow>
    ('h comm \<times> (nat \<times> byte list) list) res" where
  "start_send_loop ser fresh [] c = Inr (c\<lparr>send_msg_list := []\<rparr>, [])"
| "start_send_loop ser fresh (msg # ms) c =
     (let r = unat (receiver_id msg);
          n = aggregate_message_count c ! r + 1;
          c1 = c\<lparr>aggregate_messages := (aggregate_messages c)[r := aggregate_messages c ! r @ [msg]],
                 aggregate_message_count := (aggregate_message_count c)[r := n]\<rparr>
      in if n \<ge> max_aggregate c \<or> get_type msg \<noteq> MT_EventMessage
         then bindR (packAndSend ser fresh r c1) (\<lambda>(c2, b).
              bindR (start_send_loop ser fresh ms c2) (\<lambda>(c3, bs). Inr (c3, b # bs)))
         else start_send_loop ser fresh ms c1)"

definition startSendRequests :: "(kmsg \<Rightarrow> byte list) \<Rightarrow> byte list \<Rightarrow> 'h comm \<Rightarrow>
    ('h comm \<times> (nat \<times> byte list) list) res" where
  "startSendRequests ser fresh c = start_send_loop ser fresh (send_msg_list c) c"

text \<open>\<open>flags\<close> says, for each pending request, whether \<open>MPI_Test\<close> finds it complete.\<close>

definition testSendRequests :: "bool list \<Rightarrow> 'h comm \<Rightarrow> nat \<times> 'h comm" where
  "testSendRequests flags c =
     (length (filter snd (zip (send_pending c) flags)),
      c\<lparr>send_pending := map fst (filter (\<lambda>(_, f). \<not> f) (zip (send_pending c) flags))\<rparr>)"

section \<open>Receiving\<close>

text \<open>Each probe that finds a message posts a receive, whose buffer MPI fills.\<close>

definition startReceiveRequests :: "byte list list \<Rightarrow> 'h comm \<Rightarrow> nat \<times> 'h comm" where
  "startReceiveRequests arriving c =
     (length arriving,
      c\<lparr>recv_pending := recv_pending c @
          map (\<lambda>bs. \<lparr>buffer = bs @ replicate (max_buffer_size c - length bs) 0,
                     rq_count = max_buffer_size c\<rparr>) arriving\<rparr>)"

definition read_int :: "byte list \<Rightarrow> nat \<Rightarrow> nat" where
  "read_int buf i = bytes_int (take 4 (drop (4 * i) buf))"

fun unpack_loop :: "(byte list \<Rightarrow> kmsg) \<Rightarrow> byte list \<Rightarrow> nat list \<Rightarrow> nat \<Rightarrow> kmsg list" where
  "unpack_loop deser buf [] msg_position = []"
| "unpack_loop deser buf (i # js) msg_position =
     (let msg_length = read_int buf (i + 1)
      in deser (take msg_length (drop msg_position buf)) #
         unpack_loop deser buf js (msg_position + msg_length))"

definition unpack :: "(byte list \<Rightarrow> kmsg) \<Rightarrow> byte list \<Rightarrow> kmsg list" where
  "unpack deser buf =
     (let num_messages = read_int buf 0
      in unpack_loop deser buf [0..<num_messages] (4 * (num_messages + 1)))"

text \<open>The messages of the completed requests, in the order in which their handlers are called; a
  message whose type has no handler calls an empty \<open>std::function\<close>.\<close>

definition testReceiveRequests :: "(byte list \<Rightarrow> kmsg) \<Rightarrow> bool list \<Rightarrow> 'h comm \<Rightarrow>
    (nat \<times> (kmsg \<times> 'h) list \<times> 'h comm) res" where
  "testReceiveRequests deser flags c =
     (let fin = map fst (filter snd (zip (recv_pending c) flags));
          msgs = concat (map (\<lambda>rq. unpack deser (buffer rq)) fin)
      in if \<exists>msg\<in>set msgs. msg_handler_by_msg_type c (get_type msg) = None
         then Inl (Runtime_Error ''std::bad_function_call'')
         else Inr (length fin, map (\<lambda>msg. (msg, the (msg_handler_by_msg_type c (get_type msg)))) msgs,
                   c\<lparr>recv_pending := map fst (filter (\<lambda>(_, f). \<not> f) (zip (recv_pending c) flags))\<rparr>))"

section \<open>Packing and unpacking\<close>

lemma length_int_bytes [simp]: "length (int_bytes n) = 4"
  by (simp add: int_bytes_def)

lemma unat_byte: "unat (of_nat n :: byte) = n mod 256"
  by (simp add: unat_of_nat)

lemma bytes_int_round_trip:
  assumes "n < 2 ^ 32"
  shows "bytes_int (int_bytes n) = n"
proof -
  define b where "b = n div 256"
  define c where "c = b div 256"
  define d where "d = c div 256"
  have "n < 256 * (256 * 256 * 256)" using assms by simp
  then have "n div (256 * 256 * 256) < 256" by (rule less_mult_imp_div_less)
  then have d: "d mod 256 = d" by (simp only: b_def c_def d_def div_mult2_eq mod_less)
  have "bytes_int (int_bytes n) = n mod 256 + 256 * (b mod 256 + 256 * (c mod 256 + 256 * (d mod 256)))"
    by (simp only: bytes_int_def int_bytes_def unat_byte b_def c_def d_def nth_Cons_0 nth_Cons_Suc
        numeral_eq_Suc One_nat_def pred_numeral_simps arith_simps BitM.simps)
  also have "c mod 256 + 256 * (d mod 256) = c" unfolding d by (simp add: d_def)
  also have "b mod 256 + 256 * c = b" by (simp add: c_def)
  also have "n mod 256 + 256 * b = n" by (simp add: b_def)
  finally show ?thesis .
qed

end
