(* ===== verification/TW_Comm_Props.thy ===== *)
theory TW_Comm_Props
  imports TW_Comm
begin

text \<open>
  The communication manager delivers messages: a packed buffer unpacks to the messages it was made
  of, and starting the send requests keeps the order of the messages to each receiver.
\<close>

section \<open>Packing\<close>

lemma MPI_Pack_at:
  "length data = length H \<Longrightarrow> MPI_Pack data (A @ H @ R) (length A) = Inr (A @ data @ R, length A + length data)"
  by (simp add: MPI_Pack_def)

abbreviation lengths_of :: "(kmsg \<Rightarrow> byte list) \<Rightarrow> kmsg list \<Rightarrow> byte list" where
  "lengths_of ser ms \<equiv> concat (map (\<lambda>msg. int_bytes (length (ser msg))) ms)"

abbreviation contents_of :: "(kmsg \<Rightarrow> byte list) \<Rightarrow> kmsg list \<Rightarrow> byte list" where
  "contents_of ser ms \<equiv> concat (map ser ms)"

lemma length_lengths_of: "length (lengths_of ser ms) = 4 * length ms"
  by (induction ms) auto

lemma pack_loop_eq:
  "length H = 4 * length ms \<Longrightarrow> length B = length (contents_of ser ms) \<Longrightarrow>
   pack_loop ser ms (A @ H @ M @ B @ C) (length A) (length (A @ H @ M)) =
     Inr (A @ lengths_of ser ms @ M @ contents_of ser ms @ C, length (A @ H @ M) + length (contents_of ser ms))"
proof (induction ms arbitrary: A H M B)
  case (Cons msg ms)
  let ?i = "int_bytes (length (ser msg))"
  obtain H1 H2 where H: "H = H1 @ H2" "length H1 = 4" "length H2 = 4 * length ms"
    using Cons.prems(1) by (intro that [of "take 4 H" "drop 4 H"]) auto
  obtain B1 B2 where B: "B = B1 @ B2" "length B1 = length (ser msg)" "length B2 = length (contents_of ser ms)"
    using Cons.prems(2) by (intro that [of "take (length (ser msg)) B" "drop (length (ser msg)) B"]) auto
  have p1: "MPI_Pack ?i (A @ H @ M @ B @ C) (length A) =
      Inr (A @ ?i @ H2 @ M @ B @ C, length (A @ ?i))"
    using MPI_Pack_at [of ?i H1 A "H2 @ M @ B @ C"] H by simp
  have p2: "MPI_Pack (ser msg) (A @ ?i @ H2 @ M @ B @ C) (length (A @ H @ M)) =
      Inr (A @ ?i @ H2 @ M @ ser msg @ B2 @ C, length (A @ H @ M) + length (ser msg))"
    using MPI_Pack_at [of "ser msg" B1 "A @ ?i @ H2 @ M" "B2 @ C"] H B by simp
  show ?case
    unfolding pack_loop.simps p1 bindR.simps prod.case p2
    using Cons.IH [of H2 B2 "A @ ?i" "M @ ser msg"] H B by (simp add: add.assoc)
qed simp

definition packed :: "(kmsg \<Rightarrow> byte list) \<Rightarrow> kmsg list \<Rightarrow> byte list" where
  "packed ser ms = concat (map int_bytes (length ms # map (length \<circ> ser) ms)) @ contents_of ser ms"

lemma length_packed: "length (packed ser ms) = 4 * (length ms + 1) + length (contents_of ser ms)"
  using length_lengths_of [of ser ms] by (simp add: packed_def o_def)

lemma pack_eq:
  assumes "length (packed ser ms) \<le> length buf"
  shows "\<exists>C. pack ser ms buf = Inr (packed ser ms @ C, length (packed ser ms))"
proof -
  let ?n = "length (contents_of ser ms)"
  define N H B C where "N = take 4 buf" and "H = take (4 * length ms) (drop 4 buf)"
    and "B = take ?n (drop (4 * length ms + 4) buf)" and "C = drop (?n + (4 * length ms + 4)) buf"
  have buf: "buf = N @ H @ B @ C"
    by (metis N_def H_def B_def C_def append_take_drop_id drop_drop)
  have len: "length N = 4" "length H = 4 * length ms" "length B = ?n"
    using assms by (simp_all add: length_packed N_def H_def B_def)
  have p1: "MPI_Pack (int_bytes (length ms)) buf 0 =
      Inr (int_bytes (length ms) @ H @ B @ C, length (int_bytes (length ms)))"
    using MPI_Pack_at [of "int_bytes (length ms)" N "[]" "H @ B @ C"] len buf by simp
  show ?thesis
    using pack_loop_eq [OF len(2,3), of "int_bytes (length ms)" "[]" C] len p1 length_packed [of ser ms]
    by (auto simp: pack_def packed_def o_def)
qed

section \<open>Unpacking\<close>

lemma take_drop_concat:
  "\<forall>x\<in>set xs. length (f x) = k \<Longrightarrow> i < length xs \<Longrightarrow> take k (drop (k * i) (concat (map f xs) @ T)) = f (xs ! i)"
proof (induction xs arbitrary: i)
  case (Cons x xs)
  then show ?case by (cases i) auto
qed simp

lemma read_int_packed:
  assumes "length (packed ser ms) < 2 ^ 32"
  shows "read_int (packed ser ms @ T) 0 = length ms"
    "i < length ms \<Longrightarrow> read_int (packed ser ms @ T) (Suc i) = length (ser (ms ! i))"
proof -
  let ?ns = "length ms # map (length \<circ> ser) ms"
  have int: "read_int (packed ser ms @ T) j = bytes_int (int_bytes (?ns ! j))" if "j < length ?ns" for j
    using take_drop_concat [OF _ that, of int_bytes 4 "contents_of ser ms @ T"]
    by (simp add: read_int_def packed_def)
  have "length ms < 2 ^ 32" using assms by (simp add: length_packed)
  then show "read_int (packed ser ms @ T) 0 = length ms"
    using int [of 0] by (simp only: nth_Cons_0 bytes_int_round_trip length_Cons zero_less_Suc)
  assume i: "i < length ms"
  then have "length (ser (ms ! i)) \<le> length (contents_of ser ms)"
    by (simp add: length_concat comp_def member_le_sum_list)
  then have "length (ser (ms ! i)) < 2 ^ 32" using assms by (simp add: length_packed)
  then show "read_int (packed ser ms @ T) (Suc i) = length (ser (ms ! i))"
    using int [of "Suc i"] i by (simp add: bytes_int_round_trip)
qed

lemma unpack_loop_eq:
  assumes "\<And>i. i < length ms \<Longrightarrow> read_int buf (Suc i) = length (ser (ms ! i))"
    and "\<forall>msg\<in>set ms. deser (ser msg) = msg"
    and "buf = H @ contents_of ser ms @ T"
  shows "ms = ms1 @ ms2 \<Longrightarrow>
    unpack_loop deser buf [length ms1..<length ms] (length (H @ contents_of ser ms1)) = ms2"
proof (induction ms2 arbitrary: ms1)
  case (Cons msg ms2)
  have len: "read_int buf (Suc (length ms1)) = length (ser msg)"
    using assms(1) [of "length ms1"] Cons.prems by simp
  have rng: "[length ms1..<length ms] = length ms1 # [length (ms1 @ [msg])..<length ms]"
    using Cons.prems by (simp add: upt_rec)
  have "take (length (ser msg)) (drop (length (H @ contents_of ser ms1)) buf) = ser msg"
    using assms(3) Cons.prems by simp
  then show ?case
    using Cons.IH [of "ms1 @ [msg]"] Cons.prems assms(2) unfolding rng
    by (simp add: len Let_def add.assoc)
qed simp

lemma unpack_packed:
  assumes "length (packed ser ms) < 2 ^ 32" and "\<forall>msg\<in>set ms. deser (ser msg) = msg"
  shows "unpack deser (packed ser ms @ T) = ms"
proof -
  let ?H = "concat (map int_bytes (length ms # map (length \<circ> ser) ms))"
  have "unpack_loop deser (packed ser ms @ T) [length []..<length ms]
      (length (?H @ contents_of ser [])) = ms"
    using unpack_loop_eq [of ms "packed ser ms @ T" ser deser ?H T "[]" ms]
      read_int_packed(2) [OF assms(1), of _ T] assms(2) by (simp add: packed_def)
  moreover have "length (concat (map int_bytes (length ms # map (length \<circ> ser) ms))) = 4 * (length ms + 1)"
    using length_lengths_of [of ser ms] by (simp add: o_def)
  ultimately show ?thesis using read_int_packed(1) [OF assms(1)] by (simp add: unpack_def Let_def)
qed

lemma packAndSend_ok:
  assumes "\<forall>msg\<in>set (aggregate_messages c ! r). deser (ser msg) = msg"
    and "4 * (length (aggregate_messages c ! r) + 1) +
      length (concat (map ser (aggregate_messages c ! r))) \<le> max_buffer_size c"
    and "max_buffer_size c < 2 ^ 31" and "length fresh = max_buffer_size c"
  shows "\<exists>rq sent. packAndSend ser fresh r c = Inr (c\<lparr>send_pending := send_pending c @ [rq],
      aggregate_messages := (aggregate_messages c)[r := []],
      aggregate_message_count := (aggregate_message_count c)[r := 0]\<rparr>, (r, sent)) \<and>
    (\<forall>rest. unpack deser (sent @ rest) = aggregate_messages c ! r)"
proof -
  let ?ms = "aggregate_messages c ! r"
  have len: "length (packed ser ?ms) \<le> length (take (max_buffer_size c) fresh)"
    "length (packed ser ?ms) < 2 ^ 32"
    using assms(2-4) by (simp_all add: length_packed)
  obtain C where "pack ser ?ms (take (max_buffer_size c) fresh) =
      Inr (packed ser ?ms @ C, length (packed ser ?ms))"
    using pack_eq [OF len(1)] by blast
  with unpack_packed [OF len(2) assms(1)] show ?thesis
    by (simp add: packAndSend_def) blast
qed

section \<open>Sending in order\<close>

text \<open>Between calls, fewer than \<open>max_aggregate\<close> event messages wait for each receiver, and each
  message, with 8 bytes for its header, fits into its share of the buffer.\<close>

definition fits :: "(kmsg \<Rightarrow> byte list) \<Rightarrow> (byte list \<Rightarrow> kmsg) \<Rightarrow> nat \<Rightarrow> kmsg \<Rightarrow> bool" where
  "fits ser deser share msg \<longleftrightarrow> deser (ser msg) = msg \<and> length (ser msg) + 8 \<le> share"

definition aggregate_ok :: "(kmsg \<Rightarrow> byte list) \<Rightarrow> (byte list \<Rightarrow> kmsg) \<Rightarrow> nat \<Rightarrow> 'h comm \<Rightarrow> bool" where
  "aggregate_ok ser deser share c \<longleftrightarrow>
     0 < max_aggregate c \<and> max_buffer_size c = share * unat (max_aggregate c) \<and>
     max_buffer_size c < 2 ^ 31 \<and> length (aggregate_messages c) = num_processes c \<and>
     length (aggregate_message_count c) = num_processes c \<and>
     (\<forall>r<num_processes c. unat (aggregate_message_count c ! r) = length (aggregate_messages c ! r) \<and>
        length (aggregate_messages c ! r) < unat (max_aggregate c) \<and>
        (\<forall>msg\<in>set (aggregate_messages c ! r). get_type msg = MT_EventMessage \<and> fits ser deser share msg))"

lemma contents_fit:
  "\<forall>msg\<in>set ms. fits ser deser share msg \<Longrightarrow> length (concat (map ser ms)) + 8 * length ms \<le> share * length ms"
  by (induction ms) (auto simp: fits_def)

lemma share_of_buffer:
  assumes "\<forall>msg\<in>set ms. fits ser deser share msg" and "ms \<noteq> []" and "length ms \<le> n"
  shows "4 * (length ms + 1) + length (concat (map ser ms)) \<le> share * n"
proof -
  have "share * length ms \<le> share * n" using assms(3) by simp
  moreover have "4 * (length ms + 1) \<le> 8 * length ms" using assms(2) by (cases ms) auto
  ultimately show ?thesis using contents_fit [OF assms(1)] by linarith
qed

definition sent_to :: "(byte list \<Rightarrow> kmsg) \<Rightarrow> nat \<Rightarrow> (nat \<times> byte list) list \<Rightarrow> kmsg list" where
  "sent_to deser r bufs = concat (map (\<lambda>(r', b). if r' = r then unpack deser b else []) bufs)"

lemma start_send_loop_ok:
  assumes "aggregate_ok ser deser share c" and "length fresh = max_buffer_size c"
    and "\<forall>msg\<in>set ms. unat (receiver_id msg) < num_processes c \<and> fits ser deser share msg"
  shows "\<exists>c' bufs. start_send_loop ser fresh ms c = Inr (c', bufs) \<and>
    aggregate_ok ser deser share c' \<and> send_msg_list c' = [] \<and> num_processes c' = num_processes c \<and>
    (\<forall>r<num_processes c. sent_to deser r bufs @ aggregate_messages c' ! r =
       aggregate_messages c ! r @ filter (\<lambda>msg. unat (receiver_id msg) = r) ms)"
  using assms
proof (induction ms arbitrary: c)
  case Nil
  then show ?case by (simp add: sent_to_def aggregate_ok_def)
next
  case (Cons msg ms)
  define r where "r = unat (receiver_id msg)"
  define c1 where "c1 = c\<lparr>aggregate_messages := (aggregate_messages c)[r := aggregate_messages c ! r @ [msg]],
      aggregate_message_count := (aggregate_message_count c)[r := aggregate_message_count c ! r + 1]\<rparr>"
  have r: "r < num_processes c" and fits: "fits ser deser share msg"
    using Cons.prems(3) by (simp_all add: r_def)
  have ok: "0 < max_aggregate c" "max_buffer_size c = share * unat (max_aggregate c)"
    "max_buffer_size c < 2 ^ 31" "length (aggregate_messages c) = num_processes c"
    "length (aggregate_message_count c) = num_processes c"
    "unat (aggregate_message_count c ! r) = length (aggregate_messages c ! r)"
    "length (aggregate_messages c ! r) < unat (max_aggregate c)"
    "\<forall>m\<in>set (aggregate_messages c ! r). get_type m = MT_EventMessage \<and> fits ser deser share m"
    using Cons.prems(1) r by (auto simp: aggregate_ok_def)
  have cnt: "unat (aggregate_message_count c ! r + 1) = Suc (length (aggregate_messages c ! r))"
    using unat_plus_one_less [of "aggregate_message_count c ! r" "max_aggregate c"] ok(6,7)
    by (simp add: word_less_nat_alt)
  have c1: "aggregate_messages c1 ! r = aggregate_messages c ! r @ [msg]"
    "num_processes c1 = num_processes c" "max_buffer_size c1 = max_buffer_size c"
    "length (aggregate_messages c1) = num_processes c"
    "j \<noteq> r \<Longrightarrow> aggregate_messages c1 ! j = aggregate_messages c ! j" for j
    using ok(4) r by (simp_all add: c1_def)
  have fits1: "\<forall>m\<in>set (aggregate_messages c1 ! r). fits ser deser share m"
    using ok(8) fits c1(1) by simp
  show ?case
  proof (cases "aggregate_message_count c ! r + 1 \<ge> max_aggregate c \<or> get_type msg \<noteq> MT_EventMessage")
    case True
    have "4 * (length (aggregate_messages c1 ! r) + 1) +
        length (concat (map ser (aggregate_messages c1 ! r))) \<le> max_buffer_size c1"
      unfolding c1(3) ok(2) using ok(7) c1(1) by (intro share_of_buffer [OF fits1]) simp_all
    from packAndSend_ok [OF _ this, of deser fresh] fits1 ok(3) Cons.prems(2) c1(3)
    obtain rq b where b: "packAndSend ser fresh r c1 = Inr (c1\<lparr>send_pending := send_pending c1 @ [rq],
        aggregate_messages := (aggregate_messages c1)[r := []],
        aggregate_message_count := (aggregate_message_count c1)[r := 0]\<rparr>, (r, b))"
      "unpack deser b = aggregate_messages c1 ! r"
      by (auto simp: fits_def) (metis append_Nil2)
    let ?c2 = "c1\<lparr>send_pending := send_pending c1 @ [rq],
        aggregate_messages := (aggregate_messages c1)[r := []],
        aggregate_message_count := (aggregate_message_count c1)[r := 0]\<rparr>"
    have "aggregate_ok ser deser share ?c2"
      using Cons.prems(1) r ok(4,5) by (auto simp: aggregate_ok_def c1_def nth_list_update)
    from Cons.IH [OF this] Cons.prems(2,3) c1(2,3)
    obtain c' bufs where c': "start_send_loop ser fresh ms ?c2 = Inr (c', bufs)"
      "aggregate_ok ser deser share c'" "send_msg_list c' = []" "num_processes c' = num_processes c"
      "\<forall>j<num_processes c. sent_to deser j bufs @ aggregate_messages c' ! j =
         aggregate_messages ?c2 ! j @ filter (\<lambda>m. unat (receiver_id m) = j) ms"
      by auto
    have "sent_to deser j ((r, b) # bufs) @ aggregate_messages c' ! j =
        aggregate_messages c ! j @ filter (\<lambda>m. unat (receiver_id m) = j) (msg # ms)"
      if "j < num_processes c" for j
      using c'(5) that b(2) c1 ok(4) r by (cases "j = r") (auto simp: sent_to_def r_def [symmetric])
    moreover have "start_send_loop ser fresh (msg # ms) c = Inr (c', (r, b) # bufs)"
      using True b(1) c'(1) by (simp add: Let_def r_def [symmetric] c1_def [symmetric])
    ultimately show ?thesis using c'(2-4) by blast
  next
    case False
    then have "Suc (length (aggregate_messages c ! r)) < unat (max_aggregate c)"
      using cnt by (simp add: word_le_nat_alt)
    then have "aggregate_ok ser deser share c1"
      using Cons.prems(1) r cnt ok fits False by (auto simp: aggregate_ok_def c1_def nth_list_update)
    from Cons.IH [OF this] Cons.prems(2,3) c1(2,3)
    obtain c' bufs where c': "start_send_loop ser fresh ms c1 = Inr (c', bufs)"
      "aggregate_ok ser deser share c'" "send_msg_list c' = []" "num_processes c' = num_processes c"
      "\<forall>j<num_processes c. sent_to deser j bufs @ aggregate_messages c' ! j =
         aggregate_messages c1 ! j @ filter (\<lambda>m. unat (receiver_id m) = j) ms"
      by auto
    have "sent_to deser j bufs @ aggregate_messages c' ! j =
        aggregate_messages c ! j @ filter (\<lambda>m. unat (receiver_id m) = j) (msg # ms)"
      if "j < num_processes c" for j
      using c'(5) that c1 by (cases "j = r") (auto simp: r_def [symmetric])
    moreover have "start_send_loop ser fresh (msg # ms) c = Inr (c', bufs)"
      using False c'(1) by (simp add: Let_def r_def [symmetric] c1_def [symmetric])
    ultimately show ?thesis using c'(2-4) by blast
  qed
qed

section \<open>Properties\<close>

text \<open>C23: What \<open>packAndSend\<close> packs, \<open>testReceiveRequests\<close> unpacks: whenever the messages waiting for
  a receiver and their header fit into the buffer, packing succeeds and unpacking the part that is
  sent, followed by whatever the receive buffer holds after it, gives the same messages in order.\<close>

theorem pack_unpack_round_trip:
  assumes "\<forall>msg\<in>set (aggregate_messages c ! r). deser (ser msg) = msg"
    and "4 * (length (aggregate_messages c ! r) + 1) +
      length (concat (map ser (aggregate_messages c ! r))) \<le> max_buffer_size c"
    and "max_buffer_size c < 2 ^ 31" and "length fresh = max_buffer_size c"
  shows "\<exists>c' sent. packAndSend ser fresh r c = Inr (c', (r, sent)) \<and>
    unpack deser (sent @ rest) = aggregate_messages c ! r"
  using packAndSend_ok [OF assms] by blast

definition sample_comm :: "unit comm" where
  "sample_comm = (snd (comm_initialize 2 0 (comm_new 100 2)))\<lparr>send_msg_list := [Terminator 0 1]\<rparr>"

lemma sample_comm_ok: "aggregate_ok (\<lambda>_. [1]) (\<lambda>_. Terminator 0 1) 100 sample_comm"
  by (simp add: sample_comm_def comm_initialize_def comm_new_def aggregate_ok_def nth_Cons' fits_def)

theorem pack_unpack_round_trip_witness:
  "\<exists>c' sent. packAndSend (\<lambda>_. [1]) (replicate 200 0) 0
       (sample_comm\<lparr>aggregate_messages := [[Terminator 0 1], []]\<rparr>) = Inr (c', (0, sent)) \<and>
     unpack (\<lambda>_. Terminator 0 1) (sent @ [7]) = [Terminator 0 1]"
  using pack_unpack_round_trip [of "sample_comm\<lparr>aggregate_messages := [[Terminator 0 1], []]\<rparr>" 0
      "\<lambda>_. Terminator 0 1" "\<lambda>_. [1]" "replicate 200 0" "[7]"]
  by (simp add: sample_comm_def comm_initialize_def comm_new_def)

text \<open>Starting the send requests loses, duplicates and reorders no message: it succeeds, empties
  the list of messages, and for each receiver the messages unpacked from the buffers sent to it,
  followed by those still held back, are those that were held back before followed by the new ones
  for that receiver, in order. Only event messages are ever held back, and fewer than
  \<open>max_aggregate\<close> per receiver, so a GVT or termination message overtakes nothing and waits for
  nothing.\<close>

theorem startSendRequests_in_order:
  assumes "aggregate_ok ser deser share c" and "length fresh = max_buffer_size c"
    and "\<forall>msg\<in>set (send_msg_list c). unat (receiver_id msg) < num_processes c \<and> fits ser deser share msg"
  shows "\<exists>c' bufs. startSendRequests ser fresh c = Inr (c', bufs) \<and>
    aggregate_ok ser deser share c' \<and> send_msg_list c' = [] \<and>
    (\<forall>r<num_processes c. sent_to deser r bufs @ aggregate_messages c' ! r =
       aggregate_messages c ! r @ filter (\<lambda>msg. unat (receiver_id msg) = r) (send_msg_list c))"
  using start_send_loop_ok [OF assms] unfolding startSendRequests_def by blast

theorem startSendRequests_in_order_witness:
  "\<exists>c' bufs. startSendRequests (\<lambda>_. [1]) (replicate 200 0) sample_comm = Inr (c', bufs) \<and>
     sent_to (\<lambda>_. Terminator 0 1) 1 bufs @ aggregate_messages c' ! 1 = [Terminator 0 1]"
proof -
  have c: "length (replicate 200 0 :: byte list) = max_buffer_size sample_comm"
    "send_msg_list sample_comm = [Terminator 0 1]" "num_processes sample_comm = 2"
    "aggregate_messages sample_comm ! 1 = []"
    by (simp_all add: sample_comm_def comm_initialize_def comm_new_def)
  have "\<forall>msg\<in>set (send_msg_list sample_comm). unat (receiver_id msg) < num_processes sample_comm \<and>
      fits (\<lambda>_. [1]) (\<lambda>_. Terminator 0 1) 100 msg"
    by (simp add: c fits_def)
  from startSendRequests_in_order [OF sample_comm_ok c(1) this] show ?thesis
    using c by auto
qed

end
