(* ===== verification/TW_GVT.thy ===== *)
theory TW_GVT
  imports TW_Comm
begin

text \<open>
  Global virtual time: the part common to both managers (\<open>src/src/TimeWarpGVTManager.*\<close>) and the
  asynchronous manager (\<open>TimeWarpAsynchronousGVTManager.*\<close>), Mattern's token algorithm on a ring of
  nodes with a local computation by the worker threads of each node.

  Each operation takes what it asks the communication manager for (\<open>getID\<close>, \<open>getNumProcesses\<close>) as
  arguments and returns its calls of it. A time point is a number of milliseconds. The sections
  under the state lock and the atomic accesses are single steps.
\<close>

datatype GVTState = IDLE | LOCAL | GLOBAL

datatype comm_call = Insert_Message kmsg | Flush_Messages

section \<open>Common part\<close>

record gvt_base =
  gVT :: u32
  gvt_start :: int
  gvt_stop :: int
  gvt_period :: u32
  gvt_state :: GVTState
  num_worker_threads :: u32

definition gvt_initialize :: "int \<Rightarrow> 'a gvt_base_scheme \<Rightarrow> 'a gvt_base_scheme" where
  "gvt_initialize now gm = gm\<lparr>gvt_state := IDLE, gvt_start := now, gvt_stop := now\<rparr>"

text \<open>\<open>readyToStart\<close> and \<open>progressGVT\<close> are virtual.\<close>

definition checkProgressGVT :: "bool \<Rightarrow> int \<Rightarrow> ('a gvt_base_scheme \<Rightarrow> 'r) \<Rightarrow> 'a gvt_base_scheme \<Rightarrow> 'r" where
  "checkProgressGVT readyToStart now progressGVT gm =
     progressGVT (if gvt_state gm = IDLE \<and> readyToStart
                  then gm\<lparr>gvt_state := LOCAL, gvt_start := now\<rparr> else gm)"

definition getGVT :: "'a gvt_base_scheme \<Rightarrow> u32" where
  "getGVT gm = gVT gm"

section \<open>Asynchronous manager: state\<close>

record MatternNodeState =
  color :: Color
  initial_color :: Color
  white_msg_count :: i32
  red_msg_count :: i32
  min_send_timestamp :: u32
  min_recv_timestamp :: u32

record async_gvt = gvt_base +
  state :: MatternNodeState
  global_min_clock :: u32
  msg_count :: u32
  gvt_updated :: bool
  started_global_gvt :: bool
  local_gvt_flag :: u32
  local_min :: "u32 list"
  send_min :: "u32 list"
  calculated_min_flag :: "bool list"
  started_local_gvt :: bool

definition mattern_initial :: MatternNodeState where
  "mattern_initial = \<lparr>color = WHITE, initial_color = WHITE, white_msg_count = 0, red_msg_count = 0,
     min_send_timestamp = - 1, min_recv_timestamp = - 1\<rparr>"

text \<open>The constructor leaves \<open>gvt_state_\<close>, the time points and \<open>global_min_clock_\<close> uninitialised: the
  argument \<open>junk\<close>.\<close>

definition async_new :: "u32 \<Rightarrow> u32 \<Rightarrow> u32 \<Rightarrow> async_gvt" where
  "async_new period threads junk =
     \<lparr>gVT = 0, gvt_start = 0, gvt_stop = 0, gvt_period = period, gvt_state = IDLE,
      num_worker_threads = threads, state = mattern_initial, global_min_clock = junk, msg_count = 0,
      gvt_updated = False, started_global_gvt = False, local_gvt_flag = 0, local_min = [],
      send_min = [], calculated_min_flag = [], started_local_gvt = False\<rparr>"

section \<open>Asynchronous manager: operations\<close>

definition resetLocalState :: "async_gvt \<Rightarrow> async_gvt" where
  "resetLocalState gm =
     (let n = unat (num_worker_threads gm)
      in gm\<lparr>send_min := replicate (n + 1) uint_max, local_min := replicate (n + 1) uint_max,
            calculated_min_flag := (replicate (n + 1) False)[n := True]\<rparr>)"

definition async_initialize :: "int \<Rightarrow> async_gvt \<Rightarrow> async_gvt" where
  "async_initialize now gm = gvt_initialize now (resetLocalState gm)"

definition async_readyToStart :: "nat \<Rightarrow> int \<Rightarrow> async_gvt \<Rightarrow> bool" where
  "async_readyToStart my_id now gm \<longleftrightarrow> uint (gvt_period gm) \<le> now - gvt_start gm \<and> my_id = 0"

definition flip_color :: "Color \<Rightarrow> Color" where
  "flip_color c = (if c = WHITE then RED else WHITE)"

definition toggleColor :: "async_gvt \<Rightarrow> async_gvt" where
  "toggleColor gm = gm\<lparr>state := (state gm)\<lparr>color := flip_color (color (state gm))\<rparr>\<rparr>"

definition toggleInitialColor :: "async_gvt \<Rightarrow> async_gvt" where
  "toggleInitialColor gm =
     gm\<lparr>state := (state gm)\<lparr>initial_color := flip_color (initial_color (state gm))\<rparr>\<rparr>"

text \<open>\<open>initialColorCount\<close> returns a reference: reading it and assigning through it.\<close>

definition initialColorCount :: "async_gvt \<Rightarrow> i32" where
  "initialColorCount gm =
     (if initial_color (state gm) = RED then red_msg_count (state gm) else white_msg_count (state gm))"

definition set_initialColorCount :: "i32 \<Rightarrow> async_gvt \<Rightarrow> async_gvt" where
  "set_initialColorCount n gm =
     (if initial_color (state gm) = RED then gm\<lparr>state := (state gm)\<lparr>red_msg_count := n\<rparr>\<rparr>
      else gm\<lparr>state := (state gm)\<lparr>white_msg_count := n\<rparr>\<rparr>)"

definition getMessageCount :: "async_gvt \<Rightarrow> int" where
  "getMessageCount gm = sint (initialColorCount gm)"

definition sendMatternGVTToken :: "u32 \<Rightarrow> u32 \<Rightarrow> u32 \<Rightarrow> async_gvt \<Rightarrow> async_gvt \<times> comm_call list" where
  "sendMatternGVTToken my_id num_procs local_minimum gm0 =
     (let gm = (if my_id = 0 then gm0\<lparr>global_min_clock := - 1\<rparr> else gm0);
          local_minimum' = min (min_recv_timestamp (state gm)) local_minimum
      in (gm, [Insert_Message (MatternGVTToken my_id ((my_id + 1) mod num_procs)
                 (min local_minimum' (global_min_clock gm)) (min_send_timestamp (state gm)) (msg_count gm)),
               Flush_Messages]))"

definition sendGVTUpdate :: "u32 \<Rightarrow> u32 \<Rightarrow> comm_call list" where
  "sendGVTUpdate num_procs gvt =
     map (\<lambda>i. Insert_Message (GVTUpdateMessage 0 (of_nat i) gvt)) [0..<unat num_procs]"

definition async_progressGVT :: "u32 \<Rightarrow> u32 \<Rightarrow> int \<Rightarrow> async_gvt \<Rightarrow> (async_gvt \<times> comm_call list) res" where
  "async_progressGVT my_id num_procs now gm =
     (if gvt_state gm \<noteq> LOCAL then Inr (gm, [])
      else if local_gvt_flag gm = 0 \<and> \<not> started_local_gvt gm then
        bindR (if \<not> started_global_gvt gm \<and> my_id = 0 then
                 bindR (assertR (color (state gm) = initial_color (state gm))) (\<lambda>_.
                 let gm1 = toggleColor (gm\<lparr>state := (state gm)\<lparr>min_send_timestamp := - 1,
                             min_recv_timestamp := - 1\<rparr>\<rparr>);
                     gm2 = set_initialColorCount 0 (gm1\<lparr>msg_count := initialColorCount gm1\<rparr>)
                 in Inr (gm2\<lparr>started_global_gvt := True\<rparr>))
               else Inr gm) (\<lambda>gm3.
        Inr ((resetLocalState gm3)\<lparr>local_gvt_flag := num_worker_threads gm3, started_local_gvt := True\<rparr>, []))
      else if local_gvt_flag gm = 0 \<and> started_local_gvt gm then
        (let m = fold min (take (unat (num_worker_threads gm) + 1) (local_min gm)) uint_max;
             (gm1, out) = (if num_procs > 1
               then sendMatternGVTToken my_id num_procs m (gm\<lparr>gvt_state := GLOBAL\<rparr>)
               else (gm\<lparr>gvt_stop := now, gvt_state := IDLE, gVT := m, gvt_updated := True\<rparr>, []))
         in Inr (gm1\<lparr>started_local_gvt := False\<rparr>, out))
      else Inr (gm, []))"

definition async_sendEventUpdate :: "event \<Rightarrow> async_gvt \<Rightarrow> Color \<times> async_gvt" where
  "async_sendEventUpdate event gm =
     (let st = state gm;
          st1 = (if color st = WHITE then st\<lparr>white_msg_count := white_msg_count st + 1\<rparr>
                 else st\<lparr>red_msg_count := red_msg_count st + 1\<rparr>);
          st2 = (if color st \<noteq> initial_color st
                 then st1\<lparr>min_send_timestamp := min (min_send_timestamp st1) (timestamp event)\<rparr> else st1)
      in (color st, gm\<lparr>state := st2\<rparr>))"

definition async_receiveEventUpdate :: "event \<Rightarrow> Color \<Rightarrow> async_gvt \<Rightarrow> async_gvt" where
  "async_receiveEventUpdate event c gm =
     (let st = state gm;
          st1 = (if c = WHITE then st\<lparr>white_msg_count := white_msg_count st - 1\<rparr>
                 else st\<lparr>red_msg_count := red_msg_count st - 1\<rparr>);
          st2 = (if c = initial_color st
                 then st1\<lparr>min_recv_timestamp := min (min_recv_timestamp st1) (timestamp event)\<rparr> else st1)
      in gm\<lparr>state := st2\<rparr>)"

definition receiveMatternGVTToken :: "u32 \<Rightarrow> u32 \<Rightarrow> kmsg \<Rightarrow> async_gvt \<Rightarrow> async_gvt \<times> comm_call list" where
  "receiveMatternGVTToken my_id num_procs msg gm =
     (if my_id = 0 then
        (if sint (mt_count msg) \<le> 0 then
           (gm\<lparr>gvt_state := GLOBAL, started_global_gvt := False\<rparr>,
            sendGVTUpdate num_procs (min (m_clock msg) (m_send msg)))
         else
           (let gm1 = gm\<lparr>state := (state gm)\<lparr>min_send_timestamp :=
                          min (m_send msg) (min_send_timestamp (state gm))\<rparr>\<rparr>;
                gm2 = set_initialColorCount 0 (gm1\<lparr>msg_count := initialColorCount gm1 + mt_count msg\<rparr>)
            in (gm2\<lparr>gvt_state := LOCAL\<rparr>, [])))
      else
        (let gm1 = (if color (state gm) = initial_color (state gm)
               then toggleColor (gm\<lparr>state := (state gm)\<lparr>min_send_timestamp := - 1,
                      min_recv_timestamp := - 1\<rparr>\<rparr>) else gm);
             gm2 = gm1\<lparr>state := (state gm1)\<lparr>min_send_timestamp :=
                      min (m_send msg) (min_send_timestamp (state gm1))\<rparr>,
                      global_min_clock := min (global_min_clock gm1) (m_clock msg)\<rparr>;
             gm3 = set_initialColorCount 0 (gm2\<lparr>msg_count := initialColorCount gm2 + mt_count msg\<rparr>)
         in (gm3\<lparr>gvt_state := LOCAL\<rparr>, [])))"

definition receiveGVTUpdate :: "int \<Rightarrow> kmsg \<Rightarrow> async_gvt \<Rightarrow> async_gvt" where
  "receiveGVTUpdate now msg gm =
     (let gm1 = toggleInitialColor (gm\<lparr>gVT := new_gvt msg, global_min_clock := - 1\<rparr>);
          gm2 = (if gvt_state gm1 = GLOBAL then gm1\<lparr>gvt_stop := now, gvt_state := IDLE\<rparr> else gm1)
      in gm2\<lparr>gvt_updated := True\<rparr>)"

definition async_gvtUpdated :: "async_gvt \<Rightarrow> bool \<times> async_gvt" where
  "async_gvtUpdated gm = (if gvt_updated gm then (True, gm\<lparr>gvt_updated := False\<rparr>) else (False, gm))"

definition async_reportThreadMin :: "u32 \<Rightarrow> nat \<Rightarrow> u32 \<Rightarrow> async_gvt \<Rightarrow> async_gvt" where
  "async_reportThreadMin ts thread_id flag gm =
     (if flag > 0 \<and> \<not> calculated_min_flag gm ! thread_id
      then gm\<lparr>local_min := (local_min gm)[thread_id := min (send_min gm ! thread_id) ts],
              calculated_min_flag := (calculated_min_flag gm)[thread_id := True],
              local_gvt_flag := local_gvt_flag gm - 1\<rparr>
      else gm)"

definition async_reportThreadSendMin :: "u32 \<Rightarrow> nat \<Rightarrow> async_gvt \<Rightarrow> async_gvt" where
  "async_reportThreadSendMin ts thread_id gm =
     (if local_gvt_flag gm > 0 \<and> \<not> calculated_min_flag gm ! thread_id
      then gm\<lparr>send_min := (send_min gm)[thread_id := min (send_min gm ! thread_id) ts]\<rparr> else gm)"

definition async_getLocalGVTFlag :: "async_gvt \<Rightarrow> u32" where
  "async_getLocalGVTFlag gm = local_gvt_flag gm"

end
