(* ===== verification/TW_GVT_Props.thy ===== *)
theory TW_GVT_Props
  imports TW_GVT
begin

text \<open>
  What the asynchronous GVT manager computes: within a node, the minimum over the worker threads of
  what each reported and sent before it reported, whatever the interleaving of the threads; along
  the ring, the minima and the message count that the token accumulates.
\<close>

section \<open>The local computation as a run of thread operations\<close>

datatype thread_op = Report_Min nat u32 u32 | Report_Send nat u32

fun run_op :: "thread_op \<Rightarrow> async_gvt \<Rightarrow> async_gvt" where
  "run_op (Report_Min t ts flag) gm = async_reportThreadMin ts t flag gm"
| "run_op (Report_Send t ts) gm = async_reportThreadSendMin ts t gm"

fun op_thread :: "thread_op \<Rightarrow> nat" where
  "op_thread (Report_Min t _ _) = t"
| "op_thread (Report_Send t _) = t"

text \<open>The specification of one thread: the least time it sends at before its first report that
  counts (\<open>flag > 0\<close>), and that report.\<close>

fun thread_min :: "nat \<Rightarrow> u32 \<Rightarrow> thread_op list \<Rightarrow> u32 option" where
  "thread_min t acc [] = None"
| "thread_min t acc (Report_Min t' ts flag # ops) =
     (if t' = t \<and> flag > 0 then Some (min acc ts) else thread_min t acc ops)"
| "thread_min t acc (Report_Send t' ts # ops) =
     thread_min t (if t' = t then min acc ts else acc) ops"

fun thread_sent :: "nat \<Rightarrow> u32 \<Rightarrow> thread_op list \<Rightarrow> u32" where
  "thread_sent t acc [] = acc"
| "thread_sent t acc (Report_Min t' ts flag # ops) = thread_sent t acc ops"
| "thread_sent t acc (Report_Send t' ts # ops) =
     thread_sent t (if t' = t then min acc ts else acc) ops"

lemma thread_min_snoc:
  "thread_min t acc (ops @ [op]) =
     (case thread_min t acc ops of
        Some m \<Rightarrow> Some m
      | None \<Rightarrow> (case op of Report_Min t' ts flag \<Rightarrow>
            if t' = t \<and> flag > 0 then Some (min (thread_sent t acc ops) ts) else None
          | Report_Send _ _ \<Rightarrow> None))"
  by (induction t acc ops rule: thread_min.induct) (auto split: thread_op.splits cong: option.case_cong)

lemma thread_sent_snoc:
  "thread_sent t acc (ops @ [op]) =
     (case op of Report_Min _ _ _ \<Rightarrow> thread_sent t acc ops
      | Report_Send t' ts \<Rightarrow> if t' = t then min (thread_sent t acc ops) ts else thread_sent t acc ops)"
  by (induction t acc ops rule: thread_sent.induct) (auto split: thread_op.splits)

definition unreported :: "nat \<Rightarrow> thread_op list \<Rightarrow> nat set" where
  "unreported n ops = {t. t < n \<and> thread_min t uint_max ops = None}"

text \<open>The invariant of a round with \<open>n\<close> worker threads.\<close>

definition round_ok :: "nat \<Rightarrow> thread_op list \<Rightarrow> async_gvt \<Rightarrow> bool" where
  "round_ok n ops gm \<longleftrightarrow>
     length (local_min gm) = n + 1 \<and> length (send_min gm) = n + 1 \<and>
     length (calculated_min_flag gm) = n + 1 \<and> calculated_min_flag gm ! n \<and>
     local_min gm ! n = uint_max \<and> unat (local_gvt_flag gm) = card (unreported n ops) \<and>
     (\<forall>t<n. case thread_min t uint_max ops of
        None \<Rightarrow> \<not> calculated_min_flag gm ! t \<and> local_min gm ! t = uint_max \<and>
          send_min gm ! t = thread_sent t uint_max ops
      | Some m \<Rightarrow> calculated_min_flag gm ! t \<and> local_min gm ! t = m)"

lemma unreported_snoc:
  "unreported n (ops @ [op]) = (case op of
      Report_Min t ts flag \<Rightarrow> if flag > 0 then unreported n ops - {t} else unreported n ops
    | Report_Send _ _ \<Rightarrow> unreported n ops)"
  by (auto simp: unreported_def thread_min_snoc split: thread_op.splits option.splits)

lemma finite_unreported [simp]: "finite (unreported n ops)"
  by (simp add: unreported_def)

lemma round_ok_start:
  "round_ok (unat (num_worker_threads gm)) []
     ((resetLocalState gm)\<lparr>local_gvt_flag := num_worker_threads gm, started_local_gvt := True\<rparr>)"
  by (simp add: round_ok_def resetLocalState_def Let_def nth_append unreported_def nth_list_update
      del: replicate_Suc replicate.simps)

lemma round_ok_op:
  assumes "round_ok n ops gm" and "op_thread op \<le> n"
  shows "round_ok n (ops @ [op]) (run_op op gm)"
proof (cases op)
  case (Report_Min t ts flag)
  show ?thesis
  proof (cases "flag > 0 \<and> \<not> calculated_min_flag gm ! t")
    case True
    with assms Report_Min have t: "t < n" "thread_min t uint_max ops = None"
      by (auto simp: round_ok_def le_less split: option.splits)
    then have mem: "t \<in> unreported n ops" by (simp add: unreported_def)
    then have "card (unreported n ops) > 0" by (auto simp: card_gt_0_iff)
    then have "unat (local_gvt_flag gm - 1) = card (unreported n ops - {t})"
      using assms(1) mem by (subst unat_minus_one) (auto simp: round_ok_def)
    with assms(1) True t show ?thesis
      unfolding round_ok_def Report_Min
      by (auto simp: async_reportThreadMin_def unreported_snoc thread_min_snoc thread_sent_snoc
          nth_list_update split: option.splits)
  next
    case False
    have "t \<notin> unreported n ops" if "flag > 0"
      using assms(1) False that by (auto simp: round_ok_def unreported_def split: option.splits)
    then have "unreported n (ops @ [op]) = unreported n ops"
      using Report_Min by (simp add: unreported_snoc)
    moreover have "thread_min s uint_max (ops @ [op]) = thread_min s uint_max ops" if "s < n" for s
      using False Report_Min assms(1) that
      by (auto simp: thread_min_snoc round_ok_def split: option.splits)
    moreover have "run_op op gm = gm" using False Report_Min by (auto simp: async_reportThreadMin_def)
    ultimately show ?thesis using assms(1) Report_Min
      by (simp add: round_ok_def thread_sent_snoc cong: option.case_cong)
  qed
next
  case (Report_Send t ts)
  have min: "thread_min s uint_max (ops @ [op]) = thread_min s uint_max ops" for s
    using Report_Send by (simp add: thread_min_snoc split: option.splits)
  have un: "unreported n (ops @ [op]) = unreported n ops" using Report_Send by (simp add: unreported_snoc)
  show ?thesis
  proof (cases "local_gvt_flag gm > 0 \<and> \<not> calculated_min_flag gm ! t")
    case True
    then show ?thesis using assms Report_Send
      unfolding round_ok_def min un
      by (auto simp: async_reportThreadSendMin_def thread_sent_snoc nth_list_update le_less split: option.splits)
  next
    case False
    have "thread_min t uint_max ops \<noteq> None" if "t < n"
    proof
      assume none: "thread_min t uint_max ops = None"
      then have "t \<in> unreported n ops" using that by (simp add: unreported_def)
      then have "card (unreported n ops) > 0" by (auto simp: card_gt_0_iff)
      then have "local_gvt_flag gm > 0" using assms(1) by (simp add: round_ok_def word_less_nat_alt)
      with False assms(1) that none show False by (auto simp: round_ok_def)
    qed
    moreover have "run_op op gm = gm" using False Report_Send by (auto simp: async_reportThreadSendMin_def)
    ultimately show ?thesis using assms(1) Report_Send unfolding round_ok_def min un
      by (auto simp: thread_sent_snoc split: option.splits)
  qed
qed

lemma round_ok_run:
  "round_ok n ops0 gm \<Longrightarrow> \<forall>op\<in>set ops. op_thread op \<le> n \<Longrightarrow> round_ok n (ops0 @ ops) (fold run_op ops gm)"
proof (induction ops arbitrary: ops0 gm)
  case (Cons op ops)
  from Cons.IH [OF round_ok_op [OF Cons.prems(1)], of op] Cons.prems(2) show ?case by simp
qed simp

section \<open>The end of a round\<close>

lemma fold_min: "fold min xs (a::u32) = Min (insert a (set xs))"
proof (induction xs arbitrary: a)
  case (Cons x xs)
  then show ?case
    by (cases "xs = []") (simp_all add: Min_insert min.assoc min.left_commute min.commute)
qed simp

lemma fold_min_le: "x \<in> set xs \<Longrightarrow> fold min xs a \<le> (x::u32)"
  by (simp add: fold_min)

text \<open>The thread minima of a finished round.\<close>

definition round_minima :: "nat \<Rightarrow> thread_op list \<Rightarrow> u32 list" where
  "round_minima n ops = map (\<lambda>t. the (thread_min t uint_max ops)) [0..<n]"

lemma round_ok_finished:
  assumes "round_ok n ops gm"
  shows "local_gvt_flag gm = 0 \<longleftrightarrow> (\<forall>t<n. thread_min t uint_max ops \<noteq> None)"
    and "local_gvt_flag gm = 0 \<Longrightarrow> local_min gm = round_minima n ops @ [uint_max]"
proof -
  have "local_gvt_flag gm = 0 \<longleftrightarrow> unreported n ops = {}"
    using assms by (auto simp: round_ok_def unat_eq_0)
  then show eq: "local_gvt_flag gm = 0 \<longleftrightarrow> (\<forall>t<n. thread_min t uint_max ops \<noteq> None)"
    by (auto simp: unreported_def)
  assume "local_gvt_flag gm = 0"
  with eq have all: "\<forall>t<n. thread_min t uint_max ops \<noteq> None" by simp
  show "local_min gm = round_minima n ops @ [uint_max]"
  proof (rule nth_equalityI)
    show "length (local_min gm) = length (round_minima n ops @ [uint_max])"
      using assms by (simp add: round_ok_def round_minima_def)
    fix i assume "i < length (local_min gm)"
    then have "i \<le> n" using assms by (simp add: round_ok_def)
    then show "local_min gm ! i = (round_minima n ops @ [uint_max]) ! i"
      using assms all by (auto simp: round_ok_def round_minima_def nth_append le_less split: option.splits)
  qed
qed

lemma run_op_frame:
  "num_worker_threads (run_op op gm) = num_worker_threads gm"
  "gvt_state (run_op op gm) = gvt_state gm" "started_local_gvt (run_op op gm) = started_local_gvt gm"
  "state (run_op op gm) = state gm" "global_min_clock (run_op op gm) = global_min_clock gm"
  "msg_count (run_op op gm) = msg_count gm"
  by (cases op; simp add: async_reportThreadMin_def async_reportThreadSendMin_def)+

lemma fold_run_op_frame:
  "num_worker_threads (fold run_op ops gm) = num_worker_threads gm"
  "gvt_state (fold run_op ops gm) = gvt_state gm"
  "started_local_gvt (fold run_op ops gm) = started_local_gvt gm"
  "state (fold run_op ops gm) = state gm" "global_min_clock (fold run_op ops gm) = global_min_clock gm"
  "msg_count (fold run_op ops gm) = msg_count gm"
  by (induction ops arbitrary: gm) (simp_all add: run_op_frame)

lemma progress_start:
  assumes "gvt_state gm = LOCAL" and "local_gvt_flag gm = 0" and "\<not> started_local_gvt gm"
    and "async_progressGVT my_id np now gm = Inr (gm1, out)"
  shows "round_ok (unat (num_worker_threads gm)) [] gm1 \<and> out = [] \<and> started_local_gvt gm1 \<and>
    gvt_state gm1 = LOCAL \<and> num_worker_threads gm1 = num_worker_threads gm"
proof -
  obtain gm3 where "gm1 = (resetLocalState gm3)\<lparr>local_gvt_flag := num_worker_threads gm3,
      started_local_gvt := True\<rparr>" "num_worker_threads gm3 = num_worker_threads gm"
    "gvt_state gm3 = LOCAL" "out = []"
    using assms by (auto simp: async_progressGVT_def toggleColor_def set_initialColorCount_def Let_def
        split: if_splits)
  then show ?thesis
    using round_ok_start [of gm3] by (simp add: resetLocalState_def Let_def)
qed

text \<open>The local computation of GVT is correct for every interleaving of the worker threads. After
  \<open>progressGVT\<close> has opened a round, and any run of reports and send reports of the \<open>n\<close> worker
  threads and the manager thread, the flag is zero exactly when every worker has reported; then, on
  a single node, \<open>progressGVT\<close> makes GVT the minimum, over the workers, of the time a worker
  reported and of all sends it made in the round before reporting, and marks GVT as updated.\<close>

theorem async_local_round:
  assumes "gvt_state gm = LOCAL" and "local_gvt_flag gm = 0" and "\<not> started_local_gvt gm"
    and "async_progressGVT 0 1 now gm = Inr (gm1, out)"
    and "\<forall>op\<in>set ops. op_thread op \<le> unat (num_worker_threads gm)"
  defines "gm2 \<equiv> fold run_op ops gm1"
  shows "(local_gvt_flag gm2 = 0 \<longleftrightarrow>
      (\<forall>t<unat (num_worker_threads gm). thread_min t uint_max ops \<noteq> None)) \<and>
    (local_gvt_flag gm2 = 0 \<longrightarrow>
      async_progressGVT 0 1 now' gm2 = Inr (gm2\<lparr>gvt_stop := now', gvt_state := IDLE,
        gVT := Min (insert uint_max (set (round_minima (unat (num_worker_threads gm)) ops))),
        gvt_updated := True, started_local_gvt := False\<rparr>, []))"
proof -
  note start = progress_start [OF assms(1-4)]
  have ok: "round_ok (unat (num_worker_threads gm)) ops gm2"
    using round_ok_run [of _ "[]" gm1 ops] start assms(5) by (simp add: gm2_def)
  have st: "gvt_state gm2 = LOCAL" "started_local_gvt gm2" "num_worker_threads gm2 = num_worker_threads gm"
    using start by (simp_all add: gm2_def fold_run_op_frame)
  note fin = round_ok_finished [OF ok]
  have "async_progressGVT 0 1 now' gm2 = Inr (gm2\<lparr>gvt_stop := now', gvt_state := IDLE,
        gVT := Min (insert uint_max (set (round_minima (unat (num_worker_threads gm)) ops))),
        gvt_updated := True, started_local_gvt := False\<rparr>, [])" if "local_gvt_flag gm2 = 0"
    using st that fin(2) [OF that]
    by (simp add: async_progressGVT_def fold_min round_minima_def insert_commute)
  with fin(1) show ?thesis by blast
qed

definition sample_gm :: async_gvt where
  "sample_gm = (async_initialize 0 (async_new 100 1 5))\<lparr>gvt_state := LOCAL\<rparr>"

theorem async_local_round_witness:
  "\<exists>gm1 gm2. async_progressGVT 0 1 7 sample_gm = Inr (gm1, []) \<and>
     async_progressGVT 0 1 9 (fold run_op [Report_Send 0 4, Report_Min 0 6 1] gm1) = Inr (gm2, []) \<and>
     gVT gm2 = 4"
proof -
  have gm: "gvt_state sample_gm = LOCAL" "local_gvt_flag sample_gm = 0" "\<not> started_local_gvt sample_gm"
    "num_worker_threads sample_gm = 1"
    by (simp_all add: sample_gm_def async_initialize_def async_new_def gvt_initialize_def resetLocalState_def Let_def)
  obtain gm1 where gm1: "async_progressGVT 0 1 7 sample_gm = Inr (gm1, [])"
    using gm by (simp add: async_progressGVT_def sample_gm_def async_initialize_def async_new_def
        gvt_initialize_def resetLocalState_def Let_def mattern_initial_def)
  have ops: "\<forall>op\<in>set [Report_Send 0 4, Report_Min 0 6 1]. op_thread op \<le> unat (num_worker_threads sample_gm)"
    by simp
  have "round_minima 1 [Report_Send 0 4, Report_Min 0 6 1] = [4]"
    by (simp add: round_minima_def)
  with async_local_round [OF gm(1-3) gm1 ops, of 9] gm(4) gm1 show ?thesis
    by (auto simp: Min_insert2)
qed

end
