(* ===== verification/TW_GVT_Ring.thy ===== *)
theory TW_GVT_Ring
  imports TW_GVT_Props
begin

text \<open>
  The token of the asynchronous GVT manager on its way around the ring of nodes, each of which goes
  on sending and receiving events while it holds the token.
\<close>

datatype msg_op = Sent event | Received event Color

fun msg_update :: "msg_op \<Rightarrow> async_gvt \<Rightarrow> async_gvt" where
  "msg_update (Sent e) gm = snd (async_sendEventUpdate e gm)"
| "msg_update (Received e c) gm = async_receiveEventUpdate e c gm"

text \<open>A node's part: its state when the token arrives, the event messages it handles until its local
  computation is finished, and the local minimum.\<close>

record ring_visit =
  v_state :: async_gvt
  v_ops :: "msg_op list"
  v_min :: u32

definition visit_node :: "u32 \<Rightarrow> u32 \<Rightarrow> ring_visit \<Rightarrow> kmsg \<Rightarrow> comm_call list" where
  "visit_node my_id np v msg =
     snd (sendMatternGVTToken my_id np (v_min v)
       (fold msg_update (v_ops v) (fst (receiveMatternGVTToken my_id np msg (v_state v)))))"

section \<open>The specification\<close>

definition sent_times :: "msg_op list \<Rightarrow> u32 list" where
  "sent_times ops = concat (map (\<lambda>op. case op of Sent e \<Rightarrow> [timestamp e] | Received _ _ \<Rightarrow> []) ops)"

definition received_times :: "Color \<Rightarrow> msg_op list \<Rightarrow> u32 list" where
  "received_times c0 ops =
     concat (map (\<lambda>op. case op of Sent _ \<Rightarrow> [] | Received e c \<Rightarrow> if c = c0 then [timestamp e] else []) ops)"

definition visit_clock :: "ring_visit \<Rightarrow> u32" where
  "visit_clock v = fold min (received_times (initial_color (state (v_state v))) (v_ops v))
     (min (v_min v) (global_min_clock (v_state v)))"

definition visit_send :: "ring_visit \<Rightarrow> u32" where
  "visit_send v = fold min (sent_times (v_ops v)) uint_max"

text \<open>The first visit of the token: the node still has its initial color.\<close>

definition first_visit :: "ring_visit \<Rightarrow> bool" where
  "first_visit v \<longleftrightarrow> color (state (v_state v)) = initial_color (state (v_state v))"

section \<open>One visit\<close>

lemma fold_min_out: "fold min xs (min a b) = min (fold min xs a) (b::u32)"
proof (induction xs arbitrary: a)
  case (Cons x xs)
  have "fold min (x # xs) (min a b) = fold min xs (min (min x a) b)" by (simp add: min.assoc)
  also have "\<dots> = min (fold min xs (min x a)) b" by (rule Cons.IH)
  finally show ?case by simp
qed simp

lemma msg_updates:
  assumes "color (state gm) \<noteq> initial_color (state gm)"
  shows "color (state (fold msg_update ops gm)) = color (state gm) \<and>
    initial_color (state (fold msg_update ops gm)) = initial_color (state gm) \<and>
    msg_count (fold msg_update ops gm) = msg_count gm \<and>
    global_min_clock (fold msg_update ops gm) = global_min_clock gm \<and>
    min_send_timestamp (state (fold msg_update ops gm)) =
      fold min (sent_times ops) (min_send_timestamp (state gm)) \<and>
    min_recv_timestamp (state (fold msg_update ops gm)) =
      fold min (received_times (initial_color (state gm)) ops) (min_recv_timestamp (state gm))"
  using assms
proof (induction ops arbitrary: gm)
  case (Cons op ops)
  have "color (state (msg_update op gm)) = color (state gm)"
    "initial_color (state (msg_update op gm)) = initial_color (state gm)"
    by (cases op; simp add: async_sendEventUpdate_def async_receiveEventUpdate_def Let_def)+
  with Cons.IH [of "msg_update op gm"] Cons.prems show ?case
    by (cases op) (auto simp: async_sendEventUpdate_def async_receiveEventUpdate_def Let_def
        sent_times_def received_times_def min.commute)
qed (simp add: sent_times_def received_times_def)

lemma received_token:
  fixes msg np
  assumes "first_visit v" and "my_id \<noteq> 0"
  defines "gm \<equiv> fst (receiveMatternGVTToken my_id np msg (v_state v))"
  shows "color (state gm) \<noteq> initial_color (state gm)"
    "initial_color (state gm) = initial_color (state (v_state v))"
    "msg_count gm = initialColorCount (v_state v) + mt_count msg"
    "global_min_clock gm = min (global_min_clock (v_state v)) (m_clock msg)"
    "min_send_timestamp (state gm) = m_send msg" "min_recv_timestamp (state gm) = uint_max"
  using assms(1,2) by (auto simp: gm_def first_visit_def receiveMatternGVTToken_def toggleColor_def Let_def
      set_initialColorCount_def initialColorCount_def flip_color_def min_def uint_max_def)

lemma visit_node_eq:
  assumes "first_visit v" and "my_id \<noteq> 0"
  shows "visit_node my_id np v msg =
    [Insert_Message (MatternGVTToken my_id ((my_id + 1) mod np) (min (visit_clock v) (m_clock msg))
       (min (visit_send v) (m_send msg)) (initialColorCount (v_state v) + mt_count msg)), Flush_Messages]"
proof -
  let ?gm = "fst (receiveMatternGVTToken my_id np msg (v_state v))"
  note r = received_token [OF assms, of np msg]
  note u = msg_updates [OF r(1), of "v_ops v"]
  have send: "fold min (sent_times (v_ops v)) (m_send msg) = min (visit_send v) (m_send msg)"
    using fold_min_out [of "sent_times (v_ops v)" uint_max "m_send msg"] by (simp add: visit_send_def)
  have clock: "min (min (fold min (received_times c (v_ops v)) uint_max) (v_min v))
      (min (global_min_clock (v_state v)) (m_clock msg)) =
      min (fold min (received_times c (v_ops v)) (min (v_min v) (global_min_clock (v_state v)))) (m_clock msg)" for c
    using fold_min_out [of "received_times c (v_ops v)" uint_max "min (v_min v) (global_min_clock (v_state v))"]
    by (simp add: min.assoc)
  show ?thesis
    using u assms(2) send clock
    by (simp add: visit_node_def sendMatternGVTToken_def Let_def r visit_clock_def)
qed

section \<open>The ring\<close>

text \<open>Nodes \<open>k\<close>, \<open>k + 1\<close>, ... in turn; the token is what each inserts for the next.\<close>

fun ring :: "u32 \<Rightarrow> u32 \<Rightarrow> ring_visit list \<Rightarrow> kmsg \<Rightarrow> kmsg option" where
  "ring np k [] msg = Some msg"
| "ring np k (v # vs) msg =
     (case visit_node k np v msg of
        [Insert_Message msg', Flush_Messages] \<Rightarrow> ring np (k + 1) vs msg'
      | _ \<Rightarrow> None)"

lemma ring_eq:
  assumes "\<forall>v\<in>set vs. first_visit v" and "0 < k" and "unat k + length vs \<le> unat np"
  shows "\<exists>s. ring np k vs (MatternGVTToken s0 r0 mc ms c) =
    (if vs = [] then Some (MatternGVTToken s0 r0 mc ms c) else
     Some (MatternGVTToken s ((s + 1) mod np) (fold min (map visit_clock vs) mc)
       (fold min (map visit_send vs) ms) (c + sum_list (map (\<lambda>v. initialColorCount (v_state v)) vs)))) \<and>
    (vs \<noteq> [] \<longrightarrow> unat s = unat k + length vs - 1)"
  using assms
proof (induction vs arbitrary: k s0 r0 mc ms c)
  case (Cons v vs)
  have k: "k \<noteq> 0" using Cons.prems(2) by auto
  note v = visit_node_eq [OF _ k, of v np "MatternGVTToken s0 r0 mc ms c"]
  show ?case
  proof (cases "vs = []")
    case True
    with v Cons.prems show ?thesis by (simp add: add.commute)
  next
    case False
    then have "k < np" using Cons.prems(3) by (cases vs) (auto simp: word_less_nat_alt)
    then have k1: "unat (k + 1) = Suc (unat k)" by (rule unat_plus_one_less)
    then have "0 < k + 1" by (metis word_gt_0 unat_0 nat.distinct(1))
    with Cons.IH [of "k + 1" k "(k + 1) mod np" "min (visit_clock v) mc" "min (visit_send v) ms"
        "initialColorCount (v_state v) + c"] Cons.prems k1 False v show ?thesis
      by (auto simp: ac_simps)
  qed
qed simp

text \<open>C9: One circulation of the token. When the initiator's token, with its clock minimum, the
  minimum of its sends and its message count, has visited all other nodes for the first time in the
  GVT computation, it carries the minimum over the nodes of the local minima, of the times of
  the messages of the old color received meanwhile, and of what is left in \<open>global_min_clock_\<close> of the node from
  before (the token is folded into it, and only the initiator sets it back during a computation), the minimum of the times of the messages of the
  new color sent meanwhile, and the sum of the nodes' counts of messages of the old color; it is
  addressed to the initiator, who announces as GVT the least of the two minima to every node if the
  sum is not positive, and holds it for another circulation otherwise.\<close>

theorem mattern_circulation:
  fixes mc ms :: u32 and c :: i32 and gm :: async_gvt
  assumes "\<forall>v\<in>set vs. first_visit v" and "vs \<noteq> []" and "unat np = length vs + 1"
  defines "clock \<equiv> fold min (map visit_clock vs) mc" and "send \<equiv> fold min (map visit_send vs) ms"
    and "count_sum \<equiv> c + sum_list (map (\<lambda>v. initialColorCount (v_state v)) vs)"
  shows "\<exists>s. ring np 1 vs (MatternGVTToken 0 1 mc ms c) = Some (MatternGVTToken s 0 clock send count_sum) \<and>
    (sint count_sum \<le> 0 \<longrightarrow> snd (receiveMatternGVTToken 0 np (MatternGVTToken s 0 clock send count_sum) gm) =
       map (\<lambda>i. Insert_Message (GVTUpdateMessage 0 (of_nat i) (min clock send))) [0..<length vs + 1]) \<and>
    (0 < sint count_sum \<longrightarrow> snd (receiveMatternGVTToken 0 np (MatternGVTToken s 0 clock send count_sum) gm) = [] \<and>
       msg_count (fst (receiveMatternGVTToken 0 np (MatternGVTToken s 0 clock send count_sum) gm)) =
         initialColorCount gm + count_sum)"
proof -
  have "unat (1::u32) + length vs \<le> unat np" using assms(3) by simp
  then obtain s where s: "ring np 1 vs (MatternGVTToken 0 1 mc ms c) =
      Some (MatternGVTToken s ((s + 1) mod np) clock send count_sum)" "unat s = length vs"
    using ring_eq [OF assms(1), of 1 np 0 1 mc ms c] assms(2) unfolding clock_def send_def count_sum_def by auto
  have "s < np" using s(2) assms(3) by (simp add: word_less_nat_alt)
  then have "unat (s + 1) = unat np" using unat_plus_one_less [of s np] s(2) assms(3) by simp
  then have "s + 1 = np" by (simp add: word_unat_eq_iff)
  then have "(s + 1) mod np = 0" by simp
  with s(1) assms(3) show ?thesis
    by (auto simp: receiveMatternGVTToken_def sendGVTUpdate_def Let_def set_initialColorCount_def initialColorCount_def)
qed

theorem mattern_circulation_witness:
  "\<exists>s. ring 2 1 [\<lparr>v_state = sample_gm, v_ops = [Received (InitialEvent 3) WHITE], v_min = 9\<rparr>]
      (MatternGVTToken 0 1 8 7 0) = Some (MatternGVTToken s 0 0 7 0)"
proof -
  let ?v = "\<lparr>v_state = sample_gm, v_ops = [Received (InitialEvent 3) WHITE], v_min = 9\<rparr>"
  have st: "state sample_gm = mattern_initial" "global_min_clock sample_gm = 5"
    by (simp_all add: sample_gm_def async_initialize_def async_new_def gvt_initialize_def
        resetLocalState_def Let_def)
  have "first_visit ?v" by (simp add: first_visit_def st mattern_initial_def)
  moreover have "visit_clock ?v = 0" "visit_send ?v = uint_max" "initialColorCount sample_gm = 0"
    by (simp_all add: visit_clock_def visit_send_def st mattern_initial_def received_times_def
        sent_times_def InitialEvent_def initialColorCount_def)
  ultimately show ?thesis
    using mattern_circulation [of "[?v]" 2 8 7 0 sample_gm] by auto
qed

end
