(* ===== verification/TW_GVT_Sync.thy ===== *)
theory TW_GVT_Sync
  imports TW_GVT_Props
begin

text \<open>
  The synchronous GVT manager (\<open>src/src/TimeWarpSynchronousGVTManager.*\<close>): the worker threads stop
  at a barrier, the nodes drain the white messages with a global sum, and the minimum over all
  threads, sends and received red messages becomes GVT. \<open>progressGVT\<close> is modelled as its phases: the
  two stores before the first barrier, the loop that drains, the computation after it.
\<close>

section \<open>State and operations\<close>

record sync_gvt = gvt_base +
  sync_updated :: bool
  sync_white_count :: i64
  sync_color :: Color
  sync_flag :: u32
  sync_local_min :: "u32 list"
  sync_send_min :: "u32 list"
  recv_min :: u32

definition sync_new :: "u32 \<Rightarrow> u32 \<Rightarrow> sync_gvt" where
  "sync_new period threads =
     \<lparr>gVT = 0, gvt_start = 0, gvt_stop = 0, gvt_period = period, gvt_state = IDLE,
      num_worker_threads = threads, sync_updated = False, sync_white_count = 0, sync_color = WHITE,
      sync_flag = 0, sync_local_min = [], sync_send_min = [], recv_min = 0\<rparr>"

definition sync_initialize :: "int \<Rightarrow> sync_gvt \<Rightarrow> sync_gvt" where
  "sync_initialize now gm =
     (let n = unat (num_worker_threads gm) + 1
      in gvt_initialize now (gm\<lparr>sync_local_min := replicate n uint_max,
           sync_send_min := replicate n uint_max, recv_min := uint_max\<rparr>))"

definition sync_readyToStart :: "int \<Rightarrow> sync_gvt \<Rightarrow> bool" where
  "sync_readyToStart now gm \<longleftrightarrow> uint (gvt_period gm) \<le> now - gvt_stop gm"

definition sync_store_color :: "sync_gvt \<Rightarrow> sync_gvt" where
  "sync_store_color gm = gm\<lparr>sync_color := RED\<rparr>"

definition sync_store_flag :: "sync_gvt \<Rightarrow> sync_gvt" where
  "sync_store_flag gm = gm\<lparr>sync_flag := 1\<rparr>"

text \<open>One node's part of the computation: its minimum, and the reset arrays.\<close>

definition sync_local :: "sync_gvt \<Rightarrow> u32 \<times> sync_gvt" where
  "sync_local gm =
     (let n = unat (num_worker_threads gm) + 1
      in (fold (\<lambda>i m. min m (min (sync_local_min gm ! i) (sync_send_min gm ! i))) [0..<n] (recv_min gm),
          gm\<lparr>recv_min := uint_max, sync_local_min := replicate n uint_max,
             sync_send_min := replicate n uint_max\<rparr>))"

definition sync_finish :: "int \<Rightarrow> u32 \<Rightarrow> sync_gvt \<Rightarrow> sync_gvt" where
  "sync_finish now gvt gm =
     gm\<lparr>gVT := gvt, sync_updated := True, sync_color := WHITE, sync_flag := 0, gvt_stop := now,
        gvt_state := IDLE\<rparr>"

text \<open>\<open>sumAllReduceInt64\<close> and \<open>minAllReduceUint\<close> over the nodes. \<open>exchange\<close> is the effect of
  \<open>flushMessages\<close> and \<open>handleMessages\<close> on all nodes; the loop need not end.\<close>

definition total_white :: "sync_gvt list \<Rightarrow> i64" where
  "total_white nodes = sum_list (map sync_white_count nodes)"

partial_function (option) sync_drain ::
    "('n \<Rightarrow> 'n) \<Rightarrow> ('n \<Rightarrow> sync_gvt list) \<Rightarrow> 'n \<Rightarrow> 'n option" where
  "sync_drain exchange nodes_of net =
     (let net' = exchange net
      in if total_white (nodes_of net') = 0 then Some net' else sync_drain exchange nodes_of net')"

definition sync_compute :: "int \<Rightarrow> sync_gvt list \<Rightarrow> sync_gvt list" where
  "sync_compute now nodes =
     (let gvt = fold min (map (fst \<circ> sync_local) nodes) uint_max
      in map (\<lambda>gm. sync_finish now gvt (snd (sync_local gm))) nodes)"

definition sync_sendEventUpdate :: "event \<Rightarrow> sync_gvt \<Rightarrow> Color \<times> sync_gvt" where
  "sync_sendEventUpdate event gm =
     (sync_color gm,
      if sync_color gm = WHITE then gm\<lparr>sync_white_count := sync_white_count gm + 1\<rparr> else gm)"

definition sync_receiveEventUpdate :: "event \<Rightarrow> Color \<Rightarrow> sync_gvt \<Rightarrow> sync_gvt" where
  "sync_receiveEventUpdate event c gm =
     (if c = WHITE then gm\<lparr>sync_white_count := sync_white_count gm - 1\<rparr>
      else gm\<lparr>recv_min := min (recv_min gm) (timestamp event)\<rparr>)"

definition sync_gvtUpdated :: "sync_gvt \<Rightarrow> bool \<times> sync_gvt" where
  "sync_gvtUpdated gm = (if sync_updated gm then (True, gm\<lparr>sync_updated := False\<rparr>) else (False, gm))"

text \<open>Before the two barrier waits.\<close>

definition sync_reportThreadMin :: "u32 \<Rightarrow> nat \<Rightarrow> u32 \<Rightarrow> sync_gvt \<Rightarrow> sync_gvt" where
  "sync_reportThreadMin ts thread_id flag gm =
     (if flag > 0 then gm\<lparr>sync_local_min := (sync_local_min gm)[thread_id := ts]\<rparr> else gm)"

definition sync_reportThreadSendMin :: "u32 \<Rightarrow> nat \<Rightarrow> sync_gvt \<Rightarrow> sync_gvt" where
  "sync_reportThreadSendMin ts thread_id gm =
     (if sync_flag gm > 0
      then gm\<lparr>sync_send_min := (sync_send_min gm)[thread_id := min ts (sync_send_min gm ! thread_id)]\<rparr>
      else gm)"

definition sync_getLocalGVTFlag :: "sync_gvt \<Rightarrow> u32" where
  "sync_getLocalGVTFlag gm = sync_flag gm"

definition sync_getMessageCount :: "sync_gvt \<Rightarrow> int" where
  "sync_getMessageCount gm = sint (sync_white_count gm)"

section \<open>The network\<close>

text \<open>All nodes and the event messages in transit, each with its color. A send is
  \<open>enqueueRemoteEvent\<close>: it colors the message and then reports its time.\<close>

record sync_net =
  snodes :: "sync_gvt list"
  transit :: "(Color \<times> event) multiset"

definition send_remote :: "nat \<Rightarrow> event \<Rightarrow> sync_gvt \<Rightarrow> Color \<times> sync_gvt" where
  "send_remote t e gm =
     (let (c, gm1) = sync_sendEventUpdate e gm in (c, sync_reportThreadSendMin (timestamp e) t gm1))"

inductive sync_step :: "sync_net \<Rightarrow> sync_net \<Rightarrow> bool" where
  send: "i < length (snodes net) \<Longrightarrow> t \<le> unat (num_worker_threads (snodes net ! i)) \<Longrightarrow>
    send_remote t e (snodes net ! i) = (c, gm) \<Longrightarrow>
    sync_step net (net\<lparr>snodes := (snodes net)[i := gm], transit := add_mset (c, e) (transit net)\<rparr>)"
| receive: "i < length (snodes net) \<Longrightarrow> (c, e) \<in># transit net \<Longrightarrow>
    sync_step net (net\<lparr>snodes := (snodes net)[i := sync_receiveEventUpdate e c (snodes net ! i)],
      transit := transit net - {#(c, e)#}\<rparr>)"
| store_color: "i < length (snodes net) \<Longrightarrow>
    sync_step net (net\<lparr>snodes := (snodes net)[i := sync_store_color (snodes net ! i)]\<rparr>)"
| store_flag: "i < length (snodes net) \<Longrightarrow> sync_color (snodes net ! i) = RED \<Longrightarrow>
    sync_step net (net\<lparr>snodes := (snodes net)[i := sync_store_flag (snodes net ! i)]\<rparr>)"
| report: "i < length (snodes net) \<Longrightarrow> t < unat (num_worker_threads (snodes net ! i)) \<Longrightarrow>
    sync_step net (net\<lparr>snodes := (snodes net)[i :=
      sync_reportThreadMin ts t (sync_getLocalGVTFlag (snodes net ! i)) (snodes net ! i)]\<rparr>)"

inductive sync_run :: "sync_net \<Rightarrow> sync_net \<Rightarrow> bool" where
  refl: "sync_run net net"
| step: "sync_run net net' \<Longrightarrow> sync_step net' net'' \<Longrightarrow> sync_run net net''"

text \<open>A run with the messages that were sent between the two stores of \<open>progressGVT\<close> of their node.\<close>

definition window_sends :: "sync_net \<Rightarrow> sync_net \<Rightarrow> (Color \<times> event) set" where
  "window_sends net net' = {(c, e). \<exists>i<length (snodes net). \<exists>t\<le>unat (num_worker_threads (snodes net ! i)). \<exists>gm.
     sync_color (snodes net ! i) = RED \<and> sync_flag (snodes net ! i) = 0 \<and>
     send_remote t e (snodes net ! i) = (c, gm) \<and>
     net' = net\<lparr>snodes := (snodes net)[i := gm], transit := add_mset (c, e) (transit net)\<rparr>}"

inductive sync_run_with :: "sync_net \<Rightarrow> (Color \<times> event) set \<Rightarrow> sync_net \<Rightarrow> bool" for net where
  refl: "sync_run_with net {} net"
| step: "sync_run_with net W net' \<Longrightarrow> sync_step net' net'' \<Longrightarrow>
    sync_run_with net (W \<union> window_sends net' net'') net''"

definition sync_start :: "sync_net \<Rightarrow> bool" where
  "sync_start net \<longleftrightarrow> transit net = {#} \<and>
     (\<forall>gm\<in>set (snodes net). sync_white_count gm = 0 \<and>
        length (sync_send_min gm) = unat (num_worker_threads gm) + 1 \<and>
        length (sync_local_min gm) = unat (num_worker_threads gm) + 1)"

end
