(* ===== verification/TW_Termination.thy ===== *)
theory TW_Termination
  imports TW_GVT
begin

text \<open>
  The termination manager (\<open>src/src/TimeWarpTerminationManager.*\<close>): the active and passive threads of
  a node, and the token that circulates among the nodes, with the count of event messages in
  transit. Each method body under the state lock is one step.
\<close>

section \<open>State\<close>

datatype TerminationStatus = TS_NOT_TERMINATED | TS_NORMAL | TS_PAUSED | TS_ERROR

record termination_manager =
  tm_state :: State
  sticky_state :: State
  state_by_thread :: "State list"
  tm_num_threads :: u32
  active_thread_count :: u32
  tm_msg_count :: i32
  is_master :: bool
  terminate :: TerminationStatus

definition tm_new :: termination_manager where
  "tm_new = \<lparr>tm_state = ACTIVE, sticky_state = ACTIVE, state_by_thread = [], tm_num_threads = 0,
     active_thread_count = 0, tm_msg_count = 0, is_master = False, terminate = TS_NOT_TERMINATED\<rparr>"

definition tm_initialize :: "u32 \<Rightarrow> u32 \<Rightarrow> termination_manager \<Rightarrow> termination_manager" where
  "tm_initialize my_id threads tm =
     (let tm1 = tm\<lparr>state_by_thread := replicate (unat threads) ACTIVE, tm_num_threads := threads,
                   active_thread_count := threads\<rparr>
      in if my_id = 0 then tm1\<lparr>is_master := True\<rparr> else tm1)"

section \<open>Operations\<close>

definition updateMsgCount :: "i32 \<Rightarrow> termination_manager \<Rightarrow> termination_manager" where
  "updateMsgCount delta tm = tm\<lparr>tm_msg_count := tm_msg_count tm + delta\<rparr>"

definition sendTerminationToken :: "u32 \<Rightarrow> u32 \<Rightarrow> State \<Rightarrow> u32 \<Rightarrow> i32 \<Rightarrow> termination_manager \<Rightarrow>
    bool \<times> termination_manager \<times> kmsg list" where
  "sendTerminationToken my_id num_procs st init cnt tm =
     (if \<not> is_master tm then (False, tm, [])
      else (True, tm\<lparr>is_master := False, tm_msg_count := 0\<rparr>,
            [TerminationToken my_id ((my_id + 1) mod num_procs) st init (tm_msg_count tm + cnt)]))"

definition sendTerminator :: "u32 \<Rightarrow> kmsg list" where
  "sendTerminator num_procs = map (\<lambda>i. Terminator 0 (of_nat i)) [0..<unat num_procs]"

definition receiveTerminationToken :: "u32 \<Rightarrow> u32 \<Rightarrow> kmsg \<Rightarrow> termination_manager \<Rightarrow>
    termination_manager \<times> kmsg list" where
  "receiveTerminationToken my_id num_procs msg tm0 =
     (let tm = tm0\<lparr>is_master := True\<rparr>;
          (tm1, out) =
            (if sticky_state tm = PASSIVE \<and> receiver_id msg = initiator msg then
               (if tt_state msg = PASSIVE \<and> tt_count msg = 0 then (tm, sendTerminator num_procs)
                else (tm, []))
             else if sticky_state tm = PASSIVE then
               snd (sendTerminationToken my_id num_procs (tt_state msg) (initiator msg) (tt_count msg) tm)
             else (tm, []))
      in (tm1\<lparr>sticky_state := tm_state tm1\<rparr>, out))"

definition receiveTerminator :: "kmsg \<Rightarrow> termination_manager \<Rightarrow> termination_manager" where
  "receiveTerminator msg tm = tm\<lparr>terminate := TS_NORMAL\<rparr>"

definition setThreadPassive :: "nat \<Rightarrow> termination_manager \<Rightarrow> termination_manager" where
  "setThreadPassive thread_id tm =
     (if state_by_thread tm ! thread_id \<noteq> PASSIVE then
        (let tm1 = tm\<lparr>state_by_thread := (state_by_thread tm)[thread_id := PASSIVE],
                      active_thread_count := active_thread_count tm - 1\<rparr>
         in if active_thread_count tm1 = 0 then tm1\<lparr>tm_state := PASSIVE\<rparr> else tm1)
      else tm)"

definition setThreadActive :: "nat \<Rightarrow> termination_manager \<Rightarrow> termination_manager" where
  "setThreadActive thread_id tm =
     (if state_by_thread tm ! thread_id \<noteq> ACTIVE then
        tm\<lparr>state_by_thread := (state_by_thread tm)[thread_id := ACTIVE],
           active_thread_count := active_thread_count tm + 1, tm_state := ACTIVE, sticky_state := ACTIVE\<rparr>
      else tm)"

definition terminationStatus :: "termination_manager \<Rightarrow> TerminationStatus" where
  "terminationStatus tm = terminate tm"

definition threadPassive :: "nat \<Rightarrow> termination_manager \<Rightarrow> bool" where
  "threadPassive thread_id tm \<longleftrightarrow> state_by_thread tm ! thread_id = PASSIVE"

definition nodePassive :: "termination_manager \<Rightarrow> bool" where
  "nodePassive tm \<longleftrightarrow> tm_state tm = PASSIVE"

definition pause :: "termination_manager \<Rightarrow> termination_manager" where
  "pause tm = tm\<lparr>terminate := TS_PAUSED\<rparr>"

section \<open>Threads\<close>

definition active_threads :: "termination_manager \<Rightarrow> nat set" where
  "active_threads tm = {t. t < length (state_by_thread tm) \<and> state_by_thread tm ! t = ACTIVE}"

definition threads_ok :: "termination_manager \<Rightarrow> bool" where
  "threads_ok tm \<longleftrightarrow> length (state_by_thread tm) < 2 ^ 32 \<and>
     unat (active_thread_count tm) = card (active_threads tm) \<and>
     (tm_state tm = PASSIVE \<longleftrightarrow> active_threads tm = {})"

lemma finite_active_threads [simp]: "finite (active_threads tm)"
  by (simp add: active_threads_def)

lemma State_neq: "s \<noteq> PASSIVE \<longleftrightarrow> s = ACTIVE" "s \<noteq> ACTIVE \<longleftrightarrow> s = PASSIVE"
  by (cases s; simp)+

lemma threads_ok_initialize:
  assumes "0 < threads" and "tm_state tm = ACTIVE"
  shows "threads_ok (tm_initialize my_id threads tm)"
proof -
  have "active_threads (tm_initialize my_id threads tm) = {t. t < unat threads}"
    by (auto simp: active_threads_def tm_initialize_def Let_def)
  then show ?thesis
    using assms unat_less_power_32 [of threads]
    by (auto simp: threads_ok_def tm_initialize_def Let_def word_less_nat_alt)
qed

lemma threads_ok_passive:
  assumes ok: "threads_ok tm" and t: "t < length (state_by_thread tm)"
  shows "threads_ok (setThreadPassive t tm)"
proof (cases "state_by_thread tm ! t = PASSIVE")
  case False
  then have mem: "t \<in> active_threads tm" using t by (simp add: active_threads_def State_neq)
  have set: "active_threads (setThreadPassive t tm) = active_threads tm - {t}"
    using t by (auto simp: active_threads_def setThreadPassive_def Let_def nth_list_update)
  have pos: "card (active_threads tm) > 0" using mem by (auto simp: card_gt_0_iff)
  then have cnt: "unat (active_thread_count tm - 1) = card (active_threads tm - {t})"
    using ok mem by (subst unat_minus_one) (auto simp: threads_ok_def)
  have zero: "active_thread_count tm - 1 = 0 \<longleftrightarrow> active_threads tm - {t} = {}"
    using cnt by (metis card_eq_0_iff finite_Diff finite_active_threads unat_eq_zero)
  have cnt': "active_thread_count (setThreadPassive t tm) = active_thread_count tm - 1"
    using False by (simp add: setThreadPassive_def Let_def)
  have st: "tm_state (setThreadPassive t tm) = PASSIVE \<longleftrightarrow> active_thread_count tm - 1 = 0 \<or> tm_state tm = PASSIVE"
    using False by (auto simp: setThreadPassive_def Let_def)
  have len: "length (state_by_thread (setThreadPassive t tm)) = length (state_by_thread tm)"
    by (simp add: setThreadPassive_def Let_def)
  show ?thesis
    using ok mem unfolding threads_ok_def set cnt' st len cnt zero by auto
qed (use assms in \<open>simp add: setThreadPassive_def\<close>)

lemma threads_ok_active:
  assumes ok: "threads_ok tm" and t: "t < length (state_by_thread tm)"
  shows "threads_ok (setThreadActive t tm)"
proof (cases "state_by_thread tm ! t = ACTIVE")
  case False
  then have mem: "t \<notin> active_threads tm" by (simp add: active_threads_def)
  have set: "active_threads (setThreadActive t tm) = insert t (active_threads tm)"
    using t False by (auto simp: active_threads_def setThreadActive_def nth_list_update)
  have "active_threads tm \<subseteq> {t. t < length (state_by_thread tm)} - {t}"
    using mem by (auto simp: active_threads_def)
  then have "card (active_threads tm) \<le> card ({s. s < length (state_by_thread tm)} - {t})"
    by (intro card_mono) auto
  then have "card (active_threads tm) \<le> length (state_by_thread tm) - 1" using t by simp
  then have "Suc (unat (active_thread_count tm)) < 2 ^ 32"
    using ok t by (simp add: threads_ok_def) linarith
  then have "unat (active_thread_count tm + 1) = Suc (card (active_threads tm))"
    using ok by (simp add: threads_ok_def unat_word_ariths)
  then show ?thesis
    using ok mem False set by (simp add: threads_ok_def setThreadActive_def)
qed (use assms in \<open>simp add: setThreadActive_def\<close>)

datatype thread_event = Passive nat | Active nat

fun thread_event_id :: "thread_event \<Rightarrow> nat" where
  "thread_event_id (Passive t) = t"
| "thread_event_id (Active t) = t"

fun run_thread_event :: "thread_event \<Rightarrow> termination_manager \<Rightarrow> termination_manager" where
  "run_thread_event (Passive t) tm = setThreadPassive t tm"
| "run_thread_event (Active t) tm = setThreadActive t tm"

lemma threads_ok_run:
  "threads_ok tm \<Longrightarrow> \<forall>e\<in>set es. thread_event_id e < length (state_by_thread tm) \<Longrightarrow>
   threads_ok (fold run_thread_event es tm)"
proof (induction es arbitrary: tm)
  case (Cons e es)
  have "threads_ok (run_thread_event e tm)"
    using Cons.prems by (cases e) (simp_all add: threads_ok_passive threads_ok_active)
  moreover have "length (state_by_thread (run_thread_event e tm)) = length (state_by_thread tm)"
    by (cases e) (simp_all add: setThreadPassive_def setThreadActive_def Let_def)
  ultimately show ?case using Cons by simp
qed simp

text \<open>C24: After any sequence of threads turning passive and active, the count of active threads is
  exact (it neither overflows nor wraps) and the node is passive exactly when no thread is active.\<close>

theorem node_passive_iff:
  fixes my_id :: u32
  assumes "0 < threads"
    and "\<forall>e\<in>set es. thread_event_id e < unat threads"
  defines "tm \<equiv> fold run_thread_event es (tm_initialize my_id threads tm_new)"
  shows "(nodePassive tm \<longleftrightarrow> (\<forall>t<length (state_by_thread tm). threadPassive t tm)) \<and>
    unat (active_thread_count tm) = card {t. t < length (state_by_thread tm) \<and> \<not> threadPassive t tm}"
proof -
  have "length (state_by_thread (tm_initialize my_id threads tm_new)) = unat threads"
    by (simp add: tm_initialize_def Let_def)
  then have "threads_ok tm"
    using threads_ok_run [OF threads_ok_initialize [OF assms(1), of tm_new my_id]] assms(2)
    by (simp add: tm_def tm_new_def)
  then show ?thesis
    by (auto simp: threads_ok_def nodePassive_def threadPassive_def active_threads_def State_neq)
qed

lemma tm_initialize_two:
  "tm_initialize 0 2 tm_new = tm_new\<lparr>state_by_thread := [ACTIVE, ACTIVE], tm_num_threads := 2,
     active_thread_count := 2, is_master := True\<rparr>"
proof -
  have "unat (2::u32) = Suc (Suc 0)" by simp
  then show ?thesis by (simp only: tm_initialize_def Let_def replicate.simps) simp
qed

theorem node_passive_iff_witness:
  "nodePassive (fold run_thread_event [Passive 0, Passive 1, Active 0, Passive 0] (tm_initialize 0 2 tm_new))"
proof -
  have "state_by_thread (fold run_thread_event [Passive 0, Passive 1, Active 0, Passive 0]
      (tm_initialize 0 2 tm_new)) = [PASSIVE, PASSIVE]"
    unfolding tm_initialize_two by (simp add: tm_new_def setThreadPassive_def setThreadActive_def Let_def)
  with node_passive_iff [of 2 "[Passive 0, Passive 1, Active 0, Passive 0]" 0] show ?thesis
    by (simp add: threadPassive_def nth_Cons')
qed

end
