(* ===== verification/TW_Term_Net.thy ===== *)
theory TW_Term_Net
  imports TW_Termination
begin

text \<open>
  Termination detection over a network of nodes. Messages between two nodes do not overtake one
  another (MPI), those of different pairs of nodes do. The balance, the sum of the message counts
  of the nodes and of the tokens less the event messages in transit, is what the token is meant to
  carry; the steps that keep it, and a run in which the code loses a count and terminates with an
  event message in transit.
\<close>

record term_net =
  tnodes :: "termination_manager list"
  flight :: "kmsg list"

definition is_event :: "kmsg \<Rightarrow> bool" where
  "is_event msg \<longleftrightarrow> get_type msg = MT_EventMessage"

text \<open>The message at position \<open>k\<close> is the oldest between its nodes.\<close>

definition deliverable :: "nat \<Rightarrow> kmsg list \<Rightarrow> bool" where
  "deliverable k fl \<longleftrightarrow> k < length fl \<and>
     (\<forall>j<k. sender_id (fl ! j) \<noteq> sender_id (fl ! k) \<or> receiver_id (fl ! j) \<noteq> receiver_id (fl ! k))"

text \<open>The handlers of the node: an event message only changes the count here.\<close>

definition handle :: "u32 \<Rightarrow> kmsg \<Rightarrow> termination_manager \<Rightarrow> termination_manager \<times> kmsg list" where
  "handle np msg tm =
     (case get_type msg of
        MT_EventMessage \<Rightarrow> (updateMsgCount (- 1) tm, [])
      | MT_TerminationToken \<Rightarrow> receiveTerminationToken (receiver_id msg) np msg tm
      | MT_Terminator \<Rightarrow> (receiveTerminator msg tm, [])
      | _ \<Rightarrow> (tm, []))"

definition set_node :: "nat \<Rightarrow> termination_manager \<Rightarrow> kmsg list \<Rightarrow> term_net \<Rightarrow> term_net" where
  "set_node i tm out net = net\<lparr>tnodes := (tnodes net)[i := tm], flight := flight net @ out\<rparr>"

inductive term_step :: "term_net \<Rightarrow> term_net \<Rightarrow> bool" where
  send_event: "i < length (tnodes net) \<Longrightarrow> j < length (tnodes net) \<Longrightarrow>
    term_step net (set_node i (updateMsgCount 1 (tnodes net ! i)) [EventMessage (of_nat i) (of_nat j) e c] net)"
| deliver: "deliverable k (flight net) \<Longrightarrow> i = unat (receiver_id (flight net ! k)) \<Longrightarrow> i < length (tnodes net) \<Longrightarrow>
    handle (of_nat (length (tnodes net))) (flight net ! k) (tnodes net ! i) = (tm, out) \<Longrightarrow>
    term_step net (set_node i tm out (net\<lparr>flight := take k (flight net) @ drop (Suc k) (flight net)\<rparr>))"
| thread_passive: "i < length (tnodes net) \<Longrightarrow> t < length (state_by_thread (tnodes net ! i)) \<Longrightarrow>
    term_step net (set_node i (setThreadPassive t (tnodes net ! i)) [] net)"
| thread_active: "i < length (tnodes net) \<Longrightarrow> t < length (state_by_thread (tnodes net ! i)) \<Longrightarrow>
    term_step net (set_node i (setThreadActive t (tnodes net ! i)) [] net)"
| main_loop: "i < length (tnodes net) \<Longrightarrow> nodePassive (tnodes net ! i) \<Longrightarrow>
    sendTerminationToken (of_nat i) (of_nat (length (tnodes net))) PASSIVE (of_nat i) 0 (tnodes net ! i) = (b, tm, out) \<Longrightarrow>
    term_step net (set_node i tm out net)"

inductive term_run :: "term_net \<Rightarrow> term_net \<Rightarrow> bool" where
  refl: "term_run net net"
| step: "term_run net net' \<Longrightarrow> term_step net' net'' \<Longrightarrow> term_run net net''"

section \<open>The balance\<close>

fun token_count :: "kmsg \<Rightarrow> i32" where
  "token_count (TerminationToken _ _ _ _ n) = n"
| "token_count (EventMessage _ _ _ _) = - 1"
| "token_count _ = 0"

definition balance :: "term_net \<Rightarrow> i32" where
  "balance net = sum_list (map tm_msg_count (tnodes net)) + sum_list (map token_count (flight net))"

lemma sum_list_update_word:
  "i < length xs \<Longrightarrow> sum_list (map f (xs[i := y])) = sum_list (map f xs) - f (xs ! i) + (f y :: i32)"
proof (induction xs arbitrary: i)
  case (Cons x xs)
  then show ?case by (cases i) (simp_all add: algebra_simps)
qed simp

lemma balance_set_node:
  "i < length (tnodes net) \<Longrightarrow> balance (set_node i tm out net) =
     balance net - tm_msg_count (tnodes net ! i) + tm_msg_count tm + sum_list (map token_count out)"
  by (simp add: balance_def set_node_def sum_list_update_word)

lemma balance_remove:
  assumes "k < length (flight net)"
  shows "balance (net\<lparr>flight := take k (flight net) @ drop (Suc k) (flight net)\<rparr>) =
    balance net - token_count (flight net ! k)"
proof -
  have "flight net = take k (flight net) @ flight net ! k # drop (Suc k) (flight net)"
    using assms by (simp add: id_take_nth_drop)
  then have "sum_list (map token_count (flight net)) = sum_list (map token_count (take k (flight net))) +
      (token_count (flight net ! k) + sum_list (map token_count (drop (Suc k) (flight net))))"
    by (metis list.simps(9) map_append sum_list.Cons sum_list_append)
  then show ?thesis by (simp add: balance_def)
qed

text \<open>The step takes a token that its receiver keeps instead of forwarding it.\<close>

definition keeps_token :: "term_net \<Rightarrow> nat \<Rightarrow> bool" where
  "keeps_token net k \<longleftrightarrow> (let msg = flight net ! k; tm = tnodes net ! unat (receiver_id msg)
     in get_type msg = MT_TerminationToken \<and>
        (sticky_state tm = ACTIVE \<or> receiver_id msg = initiator msg))"

lemma sum_terminators: "sum_list (map token_count (sendTerminator np)) = 0"
  by (simp add: sendTerminator_def o_def)

lemma handle_balance:
  assumes "handle np msg tm = (tm', out)"
    and "\<not> (get_type msg = MT_TerminationToken \<and> (sticky_state tm = ACTIVE \<or> receiver_id msg = initiator msg))"
  shows "tm_msg_count tm' + sum_list (map token_count out) = tm_msg_count tm + token_count msg"
  using assms
  by (cases msg) (auto simp: handle_def updateMsgCount_def receiveTerminator_def receiveTerminationToken_def
      sendTerminationToken_def State_neq Let_def)

lemma handle_kept:
  assumes "handle np msg tm = (tm', out)"
    and "get_type msg = MT_TerminationToken \<and> (sticky_state tm = ACTIVE \<or> receiver_id msg = initiator msg)"
  shows "tm_msg_count tm' + sum_list (map token_count out) = tm_msg_count tm"
  using assms
  by (cases msg) (auto simp: handle_def receiveTerminationToken_def sum_terminators State_neq Let_def
      split: if_splits)

lemma deliver_balance:
  assumes "deliverable k (flight net)" and "i = unat (receiver_id (flight net ! k))" and "i < length (tnodes net)"
    and "handle (of_nat (length (tnodes net))) (flight net ! k) (tnodes net ! i) = (tm, out)"
  shows "balance (set_node i tm out (net\<lparr>flight := take k (flight net) @ drop (Suc k) (flight net)\<rparr>)) =
    balance net - (if keeps_token net k then token_count (flight net ! k) else 0)"
proof -
  have "tm_msg_count tm + sum_list (map token_count out) =
      tm_msg_count (tnodes net ! i) + (if keeps_token net k then 0 else token_count (flight net ! k))"
    using handle_balance [OF assms(4)] handle_kept [OF assms(4)] assms(2)
    by (auto simp: keeps_token_def Let_def)
  note kept = this
  let ?rest = "net\<lparr>flight := take k (flight net) @ drop (Suc k) (flight net)\<rparr>"
  have "balance (set_node i tm out ?rest) =
      balance ?rest - tm_msg_count (tnodes net ! i) + (tm_msg_count tm + sum_list (map token_count out))"
    using balance_set_node [of i ?rest tm out] assms(3) by (simp add: add.assoc)
  also have "\<dots> = balance net - (if keeps_token net k then token_count (flight net ! k) else 0)"
    unfolding kept using balance_remove [of k net] assms(1) by (simp add: deliverable_def)
  finally show ?thesis .
qed

text \<open>C25: Every step of the network keeps the balance of counted and actual messages in transit
  (sending and receiving events, threads turning active or passive, starting and forwarding a
  token, announcing termination), except one: when a node that was active since the last token, or
  the initiator, receives the token, it keeps the token but not its count, which is lost.\<close>

theorem balance_step:
  assumes "term_step net net'"
  shows "balance net' = balance net \<or>
    (\<exists>k. deliverable k (flight net) \<and> keeps_token net k \<and>
       balance net' = balance net - token_count (flight net ! k))"
  using assms
proof (cases rule: term_step.cases)
  case (deliver k i tm out)
  then show ?thesis using deliver_balance [of k net i tm out] by auto
next
  case (main_loop i b tm out)
  then show ?thesis
    by (auto simp: balance_set_node sendTerminationToken_def split: if_splits)
qed (auto simp: balance_set_node updateMsgCount_def setThreadPassive_def setThreadActive_def Let_def)

section \<open>A run that terminates too early\<close>

definition init_node :: "nat \<Rightarrow> termination_manager" where
  "init_node i = tm_initialize (of_nat i) 1 tm_new"

definition sample_tnet :: term_net where
  "sample_tnet = \<lparr>tnodes = map init_node [0, 1, 2], flight = []\<rparr>"

text \<open>A node's manager by what matters: count, mastership, sticky state; it is passive.\<close>

definition pnode :: "i32 \<Rightarrow> bool \<Rightarrow> State \<Rightarrow> termination_manager" where
  "pnode n m st = \<lparr>tm_state = PASSIVE, sticky_state = st, state_by_thread = [PASSIVE], tm_num_threads = 1,
     active_thread_count = 0, tm_msg_count = n, is_master = m, terminate = TS_NOT_TERMINATED\<rparr>"

abbreviation the_event :: kmsg where
  "the_event \<equiv> EventMessage 0 2 (InitialEvent 0) WHITE"

lemma init_node_eq: "init_node i = (pnode 0 (of_nat i = (0::u32)) ACTIVE)\<lparr>tm_state := ACTIVE,
    state_by_thread := [ACTIVE], active_thread_count := 1\<rparr>"
  by (simp add: init_node_def tm_initialize_def tm_new_def pnode_def Let_def)

lemma passive_init: "setThreadPassive 0 (pnode n m st\<lparr>tm_state := ACTIVE, state_by_thread := [ACTIVE],
    active_thread_count := 1\<rparr>) = pnode n m st"
  by (simp add: setThreadPassive_def pnode_def Let_def)

lemma term_run_snoc: "term_run net n1 \<Longrightarrow> term_step n1 n2 \<Longrightarrow> n2 = n3 \<Longrightarrow> term_run net n3"
  by (blast intro: term_run.step)

text \<open>The main loop of a passive master, and the three ways of receiving a token.\<close>

lemma main_loop_pnode:
  assumes "term_run net0 \<lparr>tnodes = ns, flight = fl\<rparr>" and "i < length ns" and "ns ! i = pnode n True st"
    and "fl' = fl @ [TerminationToken (of_nat i) ((of_nat i + 1) mod of_nat (length ns)) PASSIVE (of_nat i) n]"
    and "ns' = ns[i := pnode 0 False st]"
  shows "term_run net0 \<lparr>tnodes = ns', flight = fl'\<rparr>"
proof (rule term_run_snoc [OF assms(1) term_step.main_loop [of i]])
  show "sendTerminationToken (of_nat i) (of_nat (length (tnodes \<lparr>tnodes = ns, flight = fl\<rparr>))) PASSIVE (of_nat i) 0
      (tnodes \<lparr>tnodes = ns, flight = fl\<rparr> ! i) = (True, pnode 0 False st,
      [TerminationToken (of_nat i) ((of_nat i + 1) mod of_nat (length ns)) PASSIVE (of_nat i) n])"
    using assms(3) by (simp add: sendTerminationToken_def pnode_def)
qed (use assms in \<open>simp_all add: nodePassive_def pnode_def set_node_def\<close>)

lemma token_pnode:
  assumes "term_run net0 \<lparr>tnodes = ns, flight = fl @ [TerminationToken s r PASSIVE i0 n]\<rparr>"
    and "unat r < length ns" and "ns ! unat r = pnode n' False st"
    and "\<forall>msg\<in>set fl. sender_id msg \<noteq> s \<or> receiver_id msg \<noteq> r"
    and "(tm, out) = receiveTerminationToken r (of_nat (length ns)) (TerminationToken s r PASSIVE i0 n) (pnode n' False st)"
    and "ns' = ns[unat r := tm]" and "fl' = fl @ out"
  shows "term_run net0 \<lparr>tnodes = ns', flight = fl'\<rparr>"
proof (rule term_run_snoc [OF assms(1) term_step.deliver [of "length fl" _ "unat r"]])
  show "deliverable (length fl) (flight \<lparr>tnodes = ns, flight = fl @ [TerminationToken s r PASSIVE i0 n]\<rparr>)"
    using assms(4) by (auto simp: deliverable_def nth_append)
  show "handle (of_nat (length (tnodes \<lparr>tnodes = ns, flight = fl @ [TerminationToken s r PASSIVE i0 n]\<rparr>)))
      (flight \<lparr>tnodes = ns, flight = fl @ [TerminationToken s r PASSIVE i0 n]\<rparr> ! length fl)
      (tnodes \<lparr>tnodes = ns, flight = fl @ [TerminationToken s r PASSIVE i0 n]\<rparr> ! unat r) = (tm, out)"
    using assms(3,5) by (simp add: handle_def)
qed (use assms(2,6,7) in \<open>simp_all add: set_node_def\<close>)

lemmas token_simps = receiveTerminationToken_def sendTerminationToken_def pnode_def Let_def

lemma early_run:
  "term_run sample_tnet \<lparr>tnodes = [pnode 0 True PASSIVE, pnode 0 False PASSIVE, pnode 0 False PASSIVE],
     flight = [the_event, Terminator 0 0, Terminator 0 1, Terminator 0 2]\<rparr>"
proof -
  let ?a = "\<lambda>n m. pnode n m ACTIVE\<lparr>tm_state := ACTIVE, state_by_thread := [ACTIVE], active_thread_count := 1\<rparr>"
  have 1: "term_run sample_tnet \<lparr>tnodes = [?a 1 True, ?a 0 False, ?a 0 False], flight = [the_event]\<rparr>"
    by (rule term_run_snoc [OF term_run.refl term_step.send_event [of 0 _ 2 "InitialEvent 0" WHITE]])
      (simp_all add: sample_tnet_def init_node_eq set_node_def updateMsgCount_def pnode_def)
  have 2: "term_run sample_tnet \<lparr>tnodes = [pnode 1 True ACTIVE, ?a 0 False, ?a 0 False], flight = [the_event]\<rparr>"
    by (rule term_run_snoc [OF 1 term_step.thread_passive [of 0 _ 0]])
      (simp_all add: set_node_def setThreadPassive_def pnode_def Let_def)
  have 3: "term_run sample_tnet \<lparr>tnodes = [pnode 1 True ACTIVE, pnode 0 False ACTIVE, ?a 0 False], flight = [the_event]\<rparr>"
    by (rule term_run_snoc [OF 2 term_step.thread_passive [of 1 _ 0]])
      (simp_all add: set_node_def setThreadPassive_def pnode_def Let_def)
  have 4: "term_run sample_tnet \<lparr>tnodes = [pnode 1 True ACTIVE, pnode 0 False ACTIVE, pnode 0 False ACTIVE], flight = [the_event]\<rparr>"
    by (rule term_run_snoc [OF 3 term_step.thread_passive [of 2 _ 0]])
      (simp_all add: set_node_def setThreadPassive_def pnode_def Let_def)
  have 5: "term_run sample_tnet \<lparr>tnodes = [pnode 0 False ACTIVE, pnode 0 False ACTIVE, pnode 0 False ACTIVE],
      flight = [the_event] @ [TerminationToken 0 1 PASSIVE 0 1]\<rparr>"
    by (rule main_loop_pnode [OF 4, of 0]) simp_all
  have 6: "term_run sample_tnet \<lparr>tnodes = [pnode 0 False ACTIVE, pnode 0 True PASSIVE, pnode 0 False ACTIVE], flight = [the_event]\<rparr>"
    by (rule token_pnode [OF 5, where st = ACTIVE and n' = 0]) (simp_all add: token_simps)
  have 7: "term_run sample_tnet \<lparr>tnodes = [pnode 0 False ACTIVE, pnode 0 False PASSIVE, pnode 0 False ACTIVE],
      flight = [the_event] @ [TerminationToken 1 2 PASSIVE 1 0]\<rparr>"
    by (rule main_loop_pnode [OF 6, of 1]) simp_all
  have 8: "term_run sample_tnet \<lparr>tnodes = [pnode 0 False ACTIVE, pnode 0 False PASSIVE, pnode 0 True PASSIVE], flight = [the_event]\<rparr>"
    by (rule token_pnode [OF 7, where st = ACTIVE and n' = 0]) (simp_all add: token_simps)
  have 9: "term_run sample_tnet \<lparr>tnodes = [pnode 0 False ACTIVE, pnode 0 False PASSIVE, pnode 0 False PASSIVE],
      flight = [the_event] @ [TerminationToken 2 0 PASSIVE 2 0]\<rparr>"
    by (rule main_loop_pnode [OF 8, of 2]) simp_all
  have 10: "term_run sample_tnet \<lparr>tnodes = [pnode 0 True PASSIVE, pnode 0 False PASSIVE, pnode 0 False PASSIVE], flight = [the_event]\<rparr>"
    by (rule token_pnode [OF 9, where st = ACTIVE and n' = 0]) (simp_all add: token_simps)
  have 11: "term_run sample_tnet \<lparr>tnodes = [pnode 0 False PASSIVE, pnode 0 False PASSIVE, pnode 0 False PASSIVE],
      flight = [the_event] @ [TerminationToken 0 1 PASSIVE 0 0]\<rparr>"
    by (rule main_loop_pnode [OF 10, of 0]) simp_all
  have 12: "term_run sample_tnet \<lparr>tnodes = [pnode 0 False PASSIVE, pnode 0 False PASSIVE, pnode 0 False PASSIVE],
      flight = [the_event] @ [TerminationToken 1 2 PASSIVE 0 0]\<rparr>"
    by (rule token_pnode [OF 11, where st = PASSIVE and n' = 0]) (simp_all add: token_simps)
  have 13: "term_run sample_tnet \<lparr>tnodes = [pnode 0 False PASSIVE, pnode 0 False PASSIVE, pnode 0 False PASSIVE],
      flight = [the_event] @ [TerminationToken 2 0 PASSIVE 0 0]\<rparr>"
    by (rule token_pnode [OF 12, where st = PASSIVE and n' = 0]) (simp_all add: token_simps)
  show ?thesis
    by (rule token_pnode [OF 13, where st = PASSIVE and n' = 0]) (simp_all add: token_simps sendTerminator_def upt_rec)
qed

text \<open>C29: Three nodes suffice for the lost count to end the simulation too early: there is a run, with
  messages between two nodes always in order, in which node 0 announces termination to all nodes
  while an event message from node 0 to node 2 is still in transit.\<close>

theorem premature_termination:
  "\<exists>net. term_run sample_tnet net \<and> the_event \<in> set (flight net) \<and>
     Terminator 0 0 \<in> set (flight net) \<and> Terminator 0 1 \<in> set (flight net) \<and>
     Terminator 0 2 \<in> set (flight net)"
  using early_run by (intro exI conjI) auto

theorem balance_step_witness:
  "balance \<lparr>tnodes = [init_node 0\<lparr>tm_msg_count := 1\<rparr>], flight = [EventMessage 0 0 (InitialEvent 0) WHITE]\<rparr> = 0"
proof -
  have "term_step \<lparr>tnodes = [init_node 0], flight = []\<rparr>
      \<lparr>tnodes = [init_node 0\<lparr>tm_msg_count := 1\<rparr>], flight = [EventMessage 0 0 (InitialEvent 0) WHITE]\<rparr>"
    using term_step.send_event [of 0 "\<lparr>tnodes = [init_node 0], flight = []\<rparr>" 0 "InitialEvent 0" WHITE]
    by (simp add: set_node_def updateMsgCount_def init_node_eq pnode_def)
  from balance_step [OF this] show ?thesis
    by (simp add: deliverable_def balance_def init_node_eq pnode_def)
qed

end
