(* ===== verification/TW_Statistics.thy ===== *)
theory TW_Statistics
  imports Warped_Prelude
begin

text \<open>
  Statistics of a node (\<open>src/src/TimeWarpStatistics.*\<close>): per thread counters, summed over the threads
  and gathered from the nodes at the end. Counters are 64-bit words and wrap. The entries of type
  \<open>double\<close> have the type \<open>'d\<close> with the floating point operations of the record \<open>double_ops\<close> as a
  parameter.
\<close>

section \<open>Data\<close>

datatype stat =
    LOCAL_POSITIVE_EVENTS_SENT | REMOTE_POSITIVE_EVENTS_SENT | LOCAL_NEGATIVE_EVENTS_SENT
  | REMOTE_NEGATIVE_EVENTS_SENT | TOTAL_EVENTS_SENT | PRIMARY_ROLLBACKS | SECONDARY_ROLLBACKS
  | TOTAL_ROLLBACKS | COAST_FORWARDED_EVENTS | EVENTS_PROCESSED | EVENTS_COMMITTED
  | TOTAL_NEGATIVE_EVENTS | CANCELLED_EVENTS | TOTAL_EVENTS_RECEIVED | AVERAGE_MAX_MEMORY
  | GVT_CYCLES | NUM_OBJECTS | EVENTS_ROLLEDBACK | TOTAL_CHECKPOINTS | TOTAL_REJUVENATION

datatype double_stat =
    PERCENT_REMOTE | AVERAGE_RBLENGTH | EFFICIENCY | POSITIVE_TIME | ROLLBACK_TIME | RECOVERY_TIME
  | CHECKPOINT_SIZE | CHECKPOINT_SAVE_TIME | CHECKPOINT_LOAD_TIME | REJUVENATION_TIME

text \<open>\<open>struct Stats\<close>: the tuple, by the type of its entries.\<close>

record 'd Stats =
  counts :: "stat \<Rightarrow> u64"
  doubles :: "double_stat \<Rightarrow> 'd"

record 'd double_ops =
  d_zero :: 'd
  d_add :: "'d \<Rightarrow> 'd \<Rightarrow> 'd"
  d_mult :: "'d \<Rightarrow> 'd \<Rightarrow> 'd"
  d_div :: "'d \<Rightarrow> 'd \<Rightarrow> 'd"
  d_of_u64 :: "u64 \<Rightarrow> 'd"

record 'd tw_statistics =
  local_stats :: "'d Stats list"
  global_stats :: "'d Stats"
  st_num_threads :: u32

definition no_stats :: "'d double_ops \<Rightarrow> 'd Stats" where
  "no_stats d = \<lparr>counts = (\<lambda>_. 0), doubles = (\<lambda>_. d_zero d)\<rparr>"

section \<open>Operations\<close>

definition st_initialize :: "'d double_ops \<Rightarrow> u32 \<Rightarrow> u32 \<Rightarrow> 'd tw_statistics \<Rightarrow> 'd tw_statistics" where
  "st_initialize d threads num_objects st =
     (let n = unat threads; s = no_stats d
      in st\<lparr>st_num_threads := threads,
            local_stats := replicate n s @ [s\<lparr>counts := (counts s)(NUM_OBJECTS := ucast num_objects)\<rparr>]\<rparr>)"

definition getLocal :: "stat \<Rightarrow> nat \<Rightarrow> 'd tw_statistics \<Rightarrow> u64" where
  "getLocal i thread_id st = counts (local_stats st ! thread_id) i"

definition upCount :: "stat \<Rightarrow> nat \<Rightarrow> u32 \<Rightarrow> 'd tw_statistics \<Rightarrow> u64 \<times> 'd tw_statistics" where
  "upCount i thread_id num st =
     (let s = local_stats st ! thread_id; n = counts s i + ucast num
      in (n, st\<lparr>local_stats := (local_stats st)[thread_id := s\<lparr>counts := (counts s)(i := n)\<rparr>]\<rparr>))"

definition upGlobalCount :: "stat \<Rightarrow> u32 \<Rightarrow> 'd tw_statistics \<Rightarrow> u64 \<times> 'd tw_statistics" where
  "upGlobalCount i num st =
     (let s = global_stats st; n = counts s i + ucast num
      in (n, st\<lparr>global_stats := s\<lparr>counts := (counts s)(i := n)\<rparr>\<rparr>))"

text \<open>\<open>updateAverage\<close> and \<open>updateLocalAverage\<close> for an integer entry (division by zero is a fault) and for
  a \<open>double\<close> entry; \<open>count - 1\<close> is computed as an \<open>unsigned int\<close>.\<close>

definition updateAverage :: "stat \<Rightarrow> u64 \<Rightarrow> u32 \<Rightarrow> 'd tw_statistics \<Rightarrow> 'd tw_statistics res" where
  "updateAverage i new_val cnt st =
     (if cnt = 0 then Inl Div_By_Zero
      else let s = global_stats st
           in Inr (st\<lparr>global_stats := s\<lparr>counts := (counts s)(i :=
                (new_val + ucast (cnt - 1) * counts s i) div ucast cnt)\<rparr>\<rparr>))"

definition d_average :: "'d double_ops \<Rightarrow> 'd \<Rightarrow> u32 \<Rightarrow> 'd \<Rightarrow> 'd" where
  "d_average d new_val cnt old =
     d_div d (d_add d new_val (d_mult d (d_of_u64 d (ucast (cnt - 1))) old)) (d_of_u64 d (ucast cnt))"

definition updateAverage_double :: "'d double_ops \<Rightarrow> double_stat \<Rightarrow> 'd \<Rightarrow> u32 \<Rightarrow>
    'd tw_statistics \<Rightarrow> 'd tw_statistics" where
  "updateAverage_double d i new_val cnt st =
     (let s = global_stats st
      in st\<lparr>global_stats := s\<lparr>doubles := (doubles s)(i := d_average d new_val cnt (doubles s i))\<rparr>\<rparr>)"

definition updateLocalAverage :: "'d double_ops \<Rightarrow> double_stat \<Rightarrow> nat \<Rightarrow> 'd \<Rightarrow> u32 \<Rightarrow>
    'd tw_statistics \<Rightarrow> 'd tw_statistics" where
  "updateLocalAverage d i thread_id new_val cnt st =
     (let s = local_stats st ! thread_id
      in st\<lparr>local_stats := (local_stats st)[thread_id :=
            s\<lparr>doubles := (doubles s)(i := d_average d new_val cnt (doubles s i))\<rparr>]\<rparr>)"

text \<open>What a node contributes to a gather, and the gathering at node 0. \<open>others\<close> gives, for an entry,
  what the other nodes contribute. The per-node arrays are kept for the output file only.\<close>

definition local_sum :: "stat \<Rightarrow> 'd tw_statistics \<Rightarrow> u64" where
  "local_sum j st = sum_list (map (\<lambda>s. counts s j) (take (unat (st_num_threads st) + 1) (local_stats st)))"

definition local_sum_double :: "'d double_ops \<Rightarrow> double_stat \<Rightarrow> 'd tw_statistics \<Rightarrow> 'd" where
  "local_sum_double d j st =
     fold (\<lambda>s a. d_add d a (doubles s j)) (take (unat (st_num_threads st) + 1) (local_stats st)) (d_zero d)"

definition sumReduceLocal :: "(stat \<Rightarrow> u64 list) \<Rightarrow> stat \<Rightarrow> 'd tw_statistics \<Rightarrow> 'd tw_statistics" where
  "sumReduceLocal others j st =
     (let s = global_stats st; recv = local_sum j st # others j
      in st\<lparr>global_stats := s\<lparr>counts := (counts s)(j := fold (\<lambda>x a. a + x) recv (counts s j))\<rparr>\<rparr>)"

definition sumReduceLocal_double :: "'d double_ops \<Rightarrow> (double_stat \<Rightarrow> 'd list) \<Rightarrow> double_stat \<Rightarrow>
    'd tw_statistics \<Rightarrow> 'd tw_statistics" where
  "sumReduceLocal_double d others j st =
     (let s = global_stats st; recv = local_sum_double d j st # others j
      in st\<lparr>global_stats := s\<lparr>doubles := (doubles s)(j := fold (\<lambda>x a. d_add d a x) recv (doubles s j))\<rparr>\<rparr>)"

definition set_global :: "stat \<Rightarrow> ((stat \<Rightarrow> u64) \<Rightarrow> u64) \<Rightarrow> 'd tw_statistics \<Rightarrow> 'd tw_statistics" where
  "set_global j f st =
     (let s = global_stats st in st\<lparr>global_stats := s\<lparr>counts := (counts s)(j := f (counts s))\<rparr>\<rparr>)"

definition set_global_double :: "double_stat \<Rightarrow> ((stat \<Rightarrow> u64) \<Rightarrow> 'd) \<Rightarrow> 'd tw_statistics \<Rightarrow> 'd tw_statistics" where
  "set_global_double j f st =
     (let s = global_stats st in st\<lparr>global_stats := s\<lparr>doubles := (doubles s)(j := f (counts s))\<rparr>\<rparr>)"

definition rolledback :: "(stat \<Rightarrow> u64) \<Rightarrow> u64" where
  "rolledback g = g EVENTS_PROCESSED - g EVENTS_COMMITTED"

text \<open>The loop over the indices 0 to 29 unrolled, in their order; the case \<open>NUM_OBJECTS\<close> falls through
  to the next one. Entries without a case are left alone.\<close>

definition calculateStats :: "'d double_ops \<Rightarrow> (stat \<Rightarrow> u64 list) \<Rightarrow> (double_stat \<Rightarrow> 'd list) \<Rightarrow>
    'd tw_statistics \<Rightarrow> 'd tw_statistics" where
  "calculateStats d others dothers st0 =
     (let st = fold (sumReduceLocal others) [LOCAL_POSITIVE_EVENTS_SENT, REMOTE_POSITIVE_EVENTS_SENT,
                 LOCAL_NEGATIVE_EVENTS_SENT, REMOTE_NEGATIVE_EVENTS_SENT] st0;
          st = set_global TOTAL_EVENTS_SENT (\<lambda>g. g LOCAL_POSITIVE_EVENTS_SENT +
                 g REMOTE_POSITIVE_EVENTS_SENT + g LOCAL_NEGATIVE_EVENTS_SENT +
                 g REMOTE_NEGATIVE_EVENTS_SENT) st;
          st = set_global_double PERCENT_REMOTE (\<lambda>g. d_div d
                 (d_of_u64 d (g REMOTE_POSITIVE_EVENTS_SENT + g REMOTE_NEGATIVE_EVENTS_SENT))
                 (d_of_u64 d (g TOTAL_EVENTS_SENT))) st;
          st = sumReduceLocal others SECONDARY_ROLLBACKS (sumReduceLocal others PRIMARY_ROLLBACKS st);
          st = set_global TOTAL_ROLLBACKS (\<lambda>g. g PRIMARY_ROLLBACKS + g SECONDARY_ROLLBACKS) st;
          st = fold (sumReduceLocal others) [COAST_FORWARDED_EVENTS, EVENTS_PROCESSED, EVENTS_COMMITTED] st;
          st = set_global TOTAL_NEGATIVE_EVENTS (\<lambda>g. g LOCAL_NEGATIVE_EVENTS_SENT +
                 g REMOTE_NEGATIVE_EVENTS_SENT) st;
          st = fold (sumReduceLocal others) [CANCELLED_EVENTS, TOTAL_EVENTS_RECEIVED] st;
          st = set_global AVERAGE_MAX_MEMORY (\<lambda>g. g AVERAGE_MAX_MEMORY div (1024 * 1024)) st;
          st = set_global GVT_CYCLES (\<lambda>_. counts (local_stats st ! unat (st_num_threads st)) GVT_CYCLES) st;
          st = sumReduceLocal others NUM_OBJECTS st;
          st = set_global EVENTS_ROLLEDBACK rolledback st;
          st = set_global EVENTS_ROLLEDBACK rolledback st;
          st = set_global_double AVERAGE_RBLENGTH (\<lambda>g. if g TOTAL_ROLLBACKS = 0 then d_zero d else
                 d_div d (d_of_u64 d (g EVENTS_ROLLEDBACK)) (d_of_u64 d (g TOTAL_ROLLBACKS))) st;
          st = set_global_double EFFICIENCY (\<lambda>g. d_div d (d_of_u64 d (g EVENTS_COMMITTED))
                 (d_of_u64 d (g EVENTS_PROCESSED))) st;
          st = sumReduceLocal_double d dothers RECOVERY_TIME (sumReduceLocal_double d dothers ROLLBACK_TIME st)
      in sumReduceLocal others TOTAL_REJUVENATION st)"

section \<open>The totals\<close>

lemma fold_plus: "fold (\<lambda>x a. a + x) xs (a :: u64) = a + sum_list xs"
  by (induction xs arbitrary: a) (simp_all add: add.assoc)

definition total_of :: "(stat \<Rightarrow> u64 list) \<Rightarrow> 'd tw_statistics \<Rightarrow> stat \<Rightarrow> u64" where
  "total_of others st j = counts (global_stats st) j + local_sum j st + sum_list (others j)"

lemma sumReduceLocal_sel [simp]:
  "counts (global_stats (sumReduceLocal others j st)) k =
     (if k = j then total_of others st j else counts (global_stats st) k)"
  "local_stats (sumReduceLocal others j st) = local_stats st"
  "st_num_threads (sumReduceLocal others j st) = st_num_threads st"
  "local_sum k (sumReduceLocal others j st) = local_sum k st"
  by (simp_all add: sumReduceLocal_def Let_def fold_plus total_of_def local_sum_def add.assoc)

lemma set_global_sel [simp]:
  "counts (global_stats (set_global j f st)) k =
     (if k = j then f (counts (global_stats st)) else counts (global_stats st) k)"
  "counts (global_stats (set_global_double i h st)) = counts (global_stats st)"
  "counts (global_stats (sumReduceLocal_double d dothers i st)) = counts (global_stats st)"
  "local_stats (set_global j f st) = local_stats st" "local_stats (set_global_double i h st) = local_stats st"
  "st_num_threads (set_global j f st) = st_num_threads st"
  "st_num_threads (set_global_double i h st) = st_num_threads st"
  "local_sum l (set_global j f st) = local_sum l st"
  "local_sum l (set_global_double i h st) = local_sum l st"
  "local_sum l (sumReduceLocal_double d dothers i st) = local_sum l st"
  by (simp_all add: set_global_def set_global_double_def sumReduceLocal_double_def Let_def local_sum_def)

text \<open>\<open>calculateStats\<close> makes every counter that is summed the total over all threads of all nodes,
  and the derived ones agree with them: events sent are the four kinds together, rollbacks the two
  kinds, and the events rolled back those processed but not committed. (The case \<open>NUM_OBJECTS\<close>
  falls through, which changes nothing; all sums are modulo the width of the counters.)\<close>

theorem calculateStats_totals:
  "(let g = counts (global_stats (calculateStats d others dothers st)); t = total_of others st in
     map g [LOCAL_POSITIVE_EVENTS_SENT, REMOTE_POSITIVE_EVENTS_SENT, LOCAL_NEGATIVE_EVENTS_SENT,
         REMOTE_NEGATIVE_EVENTS_SENT, PRIMARY_ROLLBACKS, SECONDARY_ROLLBACKS, COAST_FORWARDED_EVENTS,
         EVENTS_PROCESSED, EVENTS_COMMITTED, CANCELLED_EVENTS, TOTAL_EVENTS_RECEIVED, NUM_OBJECTS,
         TOTAL_REJUVENATION] =
       map t [LOCAL_POSITIVE_EVENTS_SENT, REMOTE_POSITIVE_EVENTS_SENT, LOCAL_NEGATIVE_EVENTS_SENT,
         REMOTE_NEGATIVE_EVENTS_SENT, PRIMARY_ROLLBACKS, SECONDARY_ROLLBACKS, COAST_FORWARDED_EVENTS,
         EVENTS_PROCESSED, EVENTS_COMMITTED, CANCELLED_EVENTS, TOTAL_EVENTS_RECEIVED, NUM_OBJECTS,
         TOTAL_REJUVENATION] \<and>
     g TOTAL_EVENTS_SENT = t LOCAL_POSITIVE_EVENTS_SENT + t REMOTE_POSITIVE_EVENTS_SENT +
       t LOCAL_NEGATIVE_EVENTS_SENT + t REMOTE_NEGATIVE_EVENTS_SENT \<and>
     g TOTAL_ROLLBACKS = t PRIMARY_ROLLBACKS + t SECONDARY_ROLLBACKS \<and>
     g TOTAL_NEGATIVE_EVENTS = t LOCAL_NEGATIVE_EVENTS_SENT + t REMOTE_NEGATIVE_EVENTS_SENT \<and>
     g EVENTS_ROLLEDBACK + t EVENTS_COMMITTED = t EVENTS_PROCESSED)"
  unfolding Let_def
proof (intro conjI)
  note simps = calculateStats_def Let_def total_of_def rolledback_def
  let ?c = "counts (global_stats (calculateStats d others dothers st))"
  show "?c TOTAL_EVENTS_SENT = total_of others st LOCAL_POSITIVE_EVENTS_SENT +
      total_of others st REMOTE_POSITIVE_EVENTS_SENT + total_of others st LOCAL_NEGATIVE_EVENTS_SENT +
      total_of others st REMOTE_NEGATIVE_EVENTS_SENT"
    by (simp add: simps)
  show "?c TOTAL_ROLLBACKS = total_of others st PRIMARY_ROLLBACKS + total_of others st SECONDARY_ROLLBACKS"
    by (simp add: simps)
  show "?c TOTAL_NEGATIVE_EVENTS =
      total_of others st LOCAL_NEGATIVE_EVENTS_SENT + total_of others st REMOTE_NEGATIVE_EVENTS_SENT"
    by (simp add: simps)
  show "?c EVENTS_ROLLEDBACK + total_of others st EVENTS_COMMITTED = total_of others st EVENTS_PROCESSED"
    by (simp add: simps)
qed (simp add: calculateStats_def Let_def total_of_def)

end
