(* ===== verification/Text_IO.thy ===== *)
theory Text_IO
  imports Warped_Prelude
begin

text \<open>
  The text streams of the C++ standard library as far as the code uses them: writing an integer with
  \<open>operator<<\<close> or \<open>std::to_string\<close>, reading an \<open>int\<close> with \<open>operator>>\<close> (white space is skipped, the
  value has to fit), and \<open>std::getline\<close>.
\<close>

section \<open>Writing\<close>

function show_nat :: "nat \<Rightarrow> string" where
  "show_nat n = (if n < 10 then [char_of (48 + n)] else show_nat (n div 10) @ [char_of (48 + n mod 10)])"
  by pat_completeness auto
termination
  by (relation "measure id") auto

declare show_nat.simps [simp del]

definition show_int :: "int \<Rightarrow> string" where
  "show_int i = (if i < 0 then CHR ''-'' # show_nat (nat (- i)) else show_nat (nat i))"

abbreviation newline :: char where
  "newline \<equiv> CHR 0x0A"

section \<open>Reading\<close>

definition is_digit :: "char \<Rightarrow> bool" where
  "is_digit c \<longleftrightarrow> 48 \<le> (of_char c :: nat) \<and> (of_char c :: nat) \<le> 57"

definition is_space :: "char \<Rightarrow> bool" where
  "is_space c \<longleftrightarrow> (of_char c :: nat) = 32 \<or> 9 \<le> (of_char c :: nat) \<and> (of_char c :: nat) \<le> 13"

definition digits_value :: "string \<Rightarrow> nat" where
  "digits_value = foldl (\<lambda>n c. 10 * n + (of_char c - 48)) 0"

text \<open>\<open>None\<close> is the state in which the stream has failed.\<close>

definition read_int :: "string \<Rightarrow> (int \<times> string) option" where
  "read_int s =
     (let s1 = dropWhile is_space s;
          (neg, s2) = (case s1 of c # r \<Rightarrow> if c = CHR ''-'' then (True, r)
                        else if c = CHR ''+'' then (False, r) else (False, s1) | [] \<Rightarrow> (False, []));
          ds = takeWhile is_digit s2;
          v = (if neg then - int (digits_value ds) else int (digits_value ds))
      in if ds = [] \<or> v < - (2 ^ 31) \<or> 2 ^ 31 \<le> v then None else Some (v, dropWhile is_digit s2))"

text \<open>The lines that successive calls of \<open>std::getline\<close> read.\<close>

function lines_of :: "string \<Rightarrow> string list" where
  "lines_of s = (if s = [] then [] else
     takeWhile (\<lambda>c. c \<noteq> newline) s # lines_of (drop (Suc (length (takeWhile (\<lambda>c. c \<noteq> newline) s))) s))"
  by pat_completeness auto
termination
  by (relation "measure length") auto

declare lines_of.simps [simp del]

section \<open>Round trips\<close>

lemma lines_of_Nil [simp]: "lines_of [] = []"
  by (simp add: lines_of.simps)

lemma lines_of_line: "newline \<notin> set l \<Longrightarrow> lines_of (l @ newline # s) = l # lines_of s"
proof -
  assume "newline \<notin> set l"
  then have "takeWhile (\<lambda>c. c \<noteq> newline) (l @ newline # s) = l" by (subst takeWhile_append2) auto
  then show ?thesis by (subst lines_of.simps) simp
qed

lemma of_char_of_digit: "d < 10 \<Longrightarrow> (of_char (char_of (48 + d :: nat)) :: nat) = 48 + d"
  by (simp add: of_char_of)

lemma show_nat_digits: "list_all is_digit (show_nat n)"
proof (induction n rule: show_nat.induct)
  case (1 n)
  have "is_digit (char_of (48 + d))" if "d < 10" for d :: nat
    using that by (simp add: is_digit_def of_char_of_digit)
  with 1 show ?case by (subst show_nat.simps) simp
qed

lemma show_nat_not_Nil [simp]: "show_nat n \<noteq> []"
  by (subst show_nat.simps) auto

lemma digits_value_snoc: "digits_value (ds @ [c]) = 10 * digits_value ds + (of_char c - 48)"
  by (simp add: digits_value_def)

lemma digits_value_show [simp]: "digits_value (show_nat n) = n"
proof (induction n rule: show_nat.induct)
  case (1 n)
  show ?case
  proof (cases "n < 10")
    case True
    then show ?thesis by (subst show_nat.simps) (simp add: digits_value_def of_char_of_digit)
  next
    case False
    then show ?thesis
      using 1 by (subst show_nat.simps) (simp add: digits_value_snoc of_char_of_digit)
  qed
qed

lemma digit_not_space: "is_digit c \<Longrightarrow> \<not> is_space c \<and> c \<noteq> CHR ''-'' \<and> c \<noteq> CHR ''+'' \<and> c \<noteq> newline"
  by (auto simp: is_digit_def is_space_def)

lemma show_nat_Cons: obtains c ds where "show_nat n = c # ds" "is_digit c"
  using show_nat_digits [of n] by (cases "show_nat n") auto

lemma newline_show_nat [simp]: "newline \<notin> set (show_nat n)"
  using show_nat_digits [of n] digit_not_space by (auto simp: list_all_iff)

lemma read_int_space [simp]: "is_space c \<Longrightarrow> read_int (c # s) = read_int s"
  by (simp add: read_int_def)

lemma read_int_Nil [simp]: "read_int [] = None"
  by (simp add: read_int_def)

lemma read_int_digits:
  assumes "list_all is_digit ds" "ds \<noteq> []" "digits_value ds < 2 ^ 31" "\<not> is_digit c"
  shows "read_int (ds @ c # s) = Some (int (digits_value ds), c # s)"
proof -
  obtain d ds' where ds: "ds = d # ds'" "is_digit d" using assms by (cases ds) auto
  have "takeWhile is_digit (ds @ c # s) = ds" "dropWhile is_digit (ds @ c # s) = c # s"
    using assms(1,4) by (auto simp: takeWhile_append dropWhile_append list_all_iff)
  moreover have "dropWhile is_space (ds @ c # s) = ds @ c # s"
    using digit_not_space [OF ds(2)] by (simp add: ds)
  ultimately show ?thesis
    using assms(2,3) digit_not_space [OF ds(2)] by (simp add: read_int_def ds Let_def)
qed

lemma read_int_show: "n < 2 ^ 31 \<Longrightarrow> \<not> is_digit c \<Longrightarrow> read_int (show_nat n @ c # s) = Some (int n, c # s)"
  using read_int_digits [OF show_nat_digits show_nat_not_Nil] by simp

end
