(* ===== verification/TW_FileStream.thy ===== *)
theory TW_FileStream
  imports Warped_Event Text_IO
begin

text \<open>
  Output files under optimistic execution (\<open>src/src/TimeWarpFileStream.*\<close>,
  \<open>TimeWarpFileStreamManager.*\<close>): output is queued with the event that made it, and written to the
  file when GVT passes the event.

  The text of the file is the component \<open>fstream\<close>. The formatting of the standard streams is
  written out for the types whose default format is fixed (integers, truth values, characters,
  strings); the text of floating point values and pointers is a parameter of the value.
\<close>

section \<open>Formatting\<close>

text \<open>The argument types of \<open>operator<<\<close>, \<open>put\<close> and \<open>write\<close>: the integer types, \<open>bool\<close>, text
  (\<open>const char*\<close>, a stream buffer, \<open>write(s, n)\<close>), a character, values with a library format, the
  manipulators of \<open>std::ios\<close> and \<open>std::ios_base\<close>, which write nothing, and those of \<open>FileStream\<close>.\<close>

datatype out_value =
    Out_Int int
  | Out_Bool bool
  | Out_Str string
  | Out_Write string nat
  | Out_Char char
  | Out_Formatted string
  | Out_Ios_Manipulator
  | Out_FileStream_Manipulator

fun format_value :: "out_value \<Rightarrow> string" where
  "format_value (Out_Int i) = show_int i"
| "format_value (Out_Bool b) = (if b then ''1'' else ''0'')"
| "format_value (Out_Str s) = s"
| "format_value (Out_Write s n) = take n s"
| "format_value (Out_Char c) = [c]"
| "format_value (Out_Formatted s) = s"
| "format_value Out_Ios_Manipulator = ''''"
| "format_value Out_FileStream_Manipulator = ''''"

section \<open>Streams\<close>

record tw_file_stream =
  fstream :: string
  output_requests :: "(event option \<times> string) list"
  current_event :: "event option"

definition tws_new :: tw_file_stream where
  "tws_new = \<lparr>fstream = '''', output_requests = [], current_event = None\<rparr>"

definition setCurrentEvent :: "event \<Rightarrow> tw_file_stream \<Rightarrow> tw_file_stream" where
  "setCurrentEvent e fs = fs\<lparr>current_event := Some e\<rparr>"

text \<open>Dereferencing the event of a request that was queued before any event was set is undefined: the
  predicate \<open>after_event\<close> is only used where there is one. The loop erases from the back, and takes
  the first element in a step of its own.\<close>

definition after_event :: "event \<Rightarrow> event option \<times> string \<Rightarrow> bool" where
  "after_event r req = ev_less r (the (fst req))"

function remove_requests :: "event \<Rightarrow> (event option \<times> string) list \<Rightarrow> (event option \<times> string) list" where
  "remove_requests r q =
     (if after_event r (last q) \<and> length q > 1 then remove_requests r (butlast q)
      else if after_event r (last q) \<and> length q = 1 then [] else q)"
  by pat_completeness auto
termination
  by (relation "measure (\<lambda>(_, q). length q)") auto

declare remove_requests.simps [simp del]

definition removeOutputRequestsAfter :: "event \<Rightarrow> tw_file_stream \<Rightarrow> tw_file_stream" where
  "removeOutputRequestsAfter r fs =
     (if output_requests fs = [] then fs
      else fs\<lparr>output_requests := remove_requests r (output_requests fs)\<rparr>)"

fun commit_loop :: "u32 \<Rightarrow> (event option \<times> string) list \<Rightarrow> string \<Rightarrow> string \<times> (event option \<times> string) list" where
  "commit_loop gvt [] out = (out, [])"
| "commit_loop gvt ((e, s) # q) out =
     (if timestamp (the e) < gvt then commit_loop gvt q (out @ s) else (out, (e, s) # q))"

definition commitOutputRequestsBefore :: "u32 \<Rightarrow> tw_file_stream \<Rightarrow> tw_file_stream" where
  "commitOutputRequestsBefore gvt fs =
     (let (out, q) = commit_loop gvt (output_requests fs) (fstream fs)
      in fs\<lparr>fstream := out, output_requests := q\<rparr>)"

definition tws_size :: "tw_file_stream \<Rightarrow> nat" where
  "tws_size fs = length (output_requests fs)"

text \<open>All output operations. The overload for \<open>FileStream\<close> manipulators calls itself: \<open>None\<close>.\<close>

definition tws_output :: "out_value \<Rightarrow> tw_file_stream \<Rightarrow> tw_file_stream option" where
  "tws_output v fs =
     (if v = Out_FileStream_Manipulator then None
      else Some (fs\<lparr>output_requests := output_requests fs @ [(current_event fs, format_value v)]\<rparr>))"

section \<open>Manager\<close>

text \<open>Streams are shared by pointer between the per-LP vectors and the map by file name: a pointer is
  an index into \<open>streams\<close>.\<close>

record file_stream_manager =
  streams :: "tw_file_stream list"
  file_streams :: "nat list list"
  file_streams_lock :: "bool list"
  file_stream_by_filename :: "string \<rightharpoonup> nat"
  fsm_num_local_lps :: nat

definition fsm_new :: file_stream_manager where
  "fsm_new = \<lparr>streams = [], file_streams = [], file_streams_lock = [],
     file_stream_by_filename = (\<lambda>_. None), fsm_num_local_lps = 0\<rparr>"

definition fsm_initialize :: "nat \<Rightarrow> file_stream_manager \<Rightarrow> file_stream_manager" where
  "fsm_initialize n m =
     m\<lparr>file_streams := replicate n [], file_streams_lock := replicate n False, fsm_num_local_lps := n\<rparr>"

definition update_stream :: "(tw_file_stream \<Rightarrow> tw_file_stream) \<Rightarrow> nat \<Rightarrow> file_stream_manager \<Rightarrow> file_stream_manager" where
  "update_stream f p m = m\<lparr>streams := (streams m)[p := f (streams m ! p)]\<rparr>"

definition fsm_rollback :: "event \<Rightarrow> nat \<Rightarrow> file_stream_manager \<Rightarrow> file_stream_manager" where
  "fsm_rollback r lp m =
     fold (update_stream (setCurrentEvent r \<circ> removeOutputRequestsAfter r)) (file_streams m ! lp) m"

definition fsm_fossilCollect :: "u32 \<Rightarrow> nat \<Rightarrow> file_stream_manager \<Rightarrow> file_stream_manager" where
  "fsm_fossilCollect gvt lp m =
     fold (update_stream (commitOutputRequestsBefore gvt)) (file_streams m ! lp) m"

text \<open>The lock is not a guard object: the exception leaves it taken, as the state of the fault shows.\<close>

definition getFileStream :: "string \<Rightarrow> nat \<Rightarrow> event \<Rightarrow> file_stream_manager \<Rightarrow>
    (fault \<times> file_stream_manager) + (nat \<times> file_stream_manager)" where
  "getFileStream filename lp this_event m0 =
     (let m = m0\<lparr>file_streams_lock := (file_streams_lock m0)[lp := True]\<rparr>;
          unlock = (\<lambda>m. m\<lparr>file_streams_lock := (file_streams_lock m)[lp := False]\<rparr>)
      in case file_stream_by_filename m filename of
           None \<Rightarrow>
             (let p = length (streams m)
              in Inr (p, unlock (update_stream (setCurrentEvent this_event) p
                   (m\<lparr>streams := streams m @ [tws_new],
                      file_stream_by_filename := (file_stream_by_filename m)(filename \<mapsto> p),
                      file_streams := (file_streams m)[lp := file_streams m ! lp @ [p]]\<rparr>))))
         | Some p \<Rightarrow>
             (if p \<in> set (file_streams m ! lp)
              then Inr (p, unlock (update_stream (setCurrentEvent this_event) p m))
              else Inl (Runtime_Error ''A filestream can only be used by a single lp'', m)))"

definition fsm_size :: "nat \<Rightarrow> file_stream_manager \<Rightarrow> nat" where
  "fsm_size lp m = length (file_streams m ! lp)"

section \<open>Lemmas\<close>

lemma remove_requests_single: "remove_requests r [x] = (if after_event r x then [] else [x])"
  by (simp add: remove_requests.simps [of r "[x]"])

lemma remove_requests_snoc:
  "remove_requests r (q @ [x]) = (if after_event r x then (if q = [] then [] else remove_requests r q) else q @ [x])"
proof (cases "q = []")
  case True
  show ?thesis unfolding True append_Nil remove_requests_single by simp
qed (auto simp: remove_requests.simps [of r "q @ [x]"])

lemma remove_requests_eq:
  "q \<noteq> [] \<Longrightarrow> remove_requests r q = rev (dropWhile (after_event r) (rev q))"
proof (induction q rule: rev_induct)
  case (snoc x q)
  then show ?case by (cases "q = []") (auto simp: remove_requests_snoc remove_requests_single)
qed simp

text \<open>The requests of a stream are in the order of their events.\<close>

definition requests_sorted :: "(event option \<times> string) list \<Rightarrow> bool" where
  "requests_sorted q \<longleftrightarrow> sorted (map (ev_key \<circ> the \<circ> fst) q)"

lemma removeOutputRequestsAfter_eq:
  assumes "requests_sorted (output_requests fs)"
  shows "removeOutputRequestsAfter r fs =
    fs\<lparr>output_requests := filter (\<lambda>x. \<not> after_event r x) (output_requests fs)\<rparr>"
proof (cases "output_requests fs = []")
  case True
  then show ?thesis by (cases fs) (simp add: removeOutputRequestsAfter_def)
next
  case False
  have s: "sorted_wrt (\<lambda>x y. ev_key (the (fst x)) \<le> ev_key (the (fst y))) (output_requests fs)"
    using assms by (simp add: requests_sorted_def sorted_map)
  have "\<forall>x y. ev_key (the (fst x)) \<le> ev_key (the (fst y)) \<longrightarrow> after_event r x \<longrightarrow> after_event r y"
    by (auto simp: after_event_def ev_less_key)
  from rev_dropWhile_rev_sorted(1) [OF s this] False show ?thesis
    by (simp add: removeOutputRequestsAfter_def remove_requests_eq)
qed

lemma commit_loop_eq:
  "commit_loop gvt q out = (out @ concat (map snd (takeWhile (\<lambda>x. timestamp (the (fst x)) < gvt) q)),
     dropWhile (\<lambda>x. timestamp (the (fst x)) < gvt) q)"
  by (induction gvt q out rule: commit_loop.induct) auto

lemma requests_sorted_timestamp:
  assumes "requests_sorted q"
  shows "takeWhile (\<lambda>x. timestamp (the (fst x)) < gvt) q = filter (\<lambda>x. timestamp (the (fst x)) < gvt) q"
proof -
  have "sorted_wrt (\<lambda>x y. timestamp (the (fst x)) \<le> timestamp (the (fst y))) q"
    using assms unfolding requests_sorted_def sorted_map
    by (rule sorted_wrt_mono_rel [rotated]) (auto dest: ev_key_timestamp_le)
  then show ?thesis by (rule takeWhile_eq_filter_sorted) auto
qed

section \<open>Properties\<close>

text \<open>C30: What has been written to a file is final: committing the output before GVT writes exactly
  the queued texts of the events before GVT, in order, and a rollback that is not before GVT
  changes nothing of what is written, whether it happens before or after the commit.\<close>

theorem commit_is_final:
  assumes "requests_sorted (output_requests fs)" and "gvt \<le> timestamp r"
  shows "fstream (commitOutputRequestsBefore gvt fs) = fstream fs @
      concat (map snd (filter (\<lambda>x. timestamp (the (fst x)) < gvt) (output_requests fs))) \<and>
    fstream (commitOutputRequestsBefore gvt (removeOutputRequestsAfter r fs)) =
      fstream (commitOutputRequestsBefore gvt fs) \<and>
    fstream (removeOutputRequestsAfter r (commitOutputRequestsBefore gvt fs)) =
      fstream (commitOutputRequestsBefore gvt fs)"
proof -
  let ?P = "\<lambda>x. timestamp (the (fst x)) < gvt"
  have written: "fstream (commitOutputRequestsBefore gvt fs') =
      fstream fs' @ concat (map snd (filter ?P (output_requests fs')))"
    if "requests_sorted (output_requests fs')" for fs'
    using requests_sorted_timestamp [OF that]
    by (simp add: commitOutputRequestsBefore_def commit_loop_eq)
  have "\<not> ev_less r e" if "timestamp e < gvt" for e
    using that assms(2) ev_key_timestamp_le [of r e] less_imp_le [of "ev_key r" "ev_key e"]
    by (auto simp: ev_less_key)
  then have "filter ?P (filter (\<lambda>x. \<not> after_event r x) (output_requests fs)) = filter ?P (output_requests fs)"
    by (auto simp: after_event_def intro: filter_cong)
  moreover have "requests_sorted (filter (\<lambda>x. \<not> after_event r x) (output_requests fs))"
    using assms(1) by (simp add: requests_sorted_def sorted_map sorted_wrt_filter)
  moreover have "fstream (removeOutputRequestsAfter r fs') = fstream fs'" for fs'
    by (simp add: removeOutputRequestsAfter_def)
  ultimately show ?thesis
    using written [OF assms(1)] written [of "removeOutputRequestsAfter r fs"]
      removeOutputRequestsAfter_eq [OF assms(1), of r] by simp
qed

theorem commit_is_final_witness:
  "fstream (commitOutputRequestsBefore 5 (removeOutputRequestsAfter ((InitialEvent 0)\<lparr>timestamp := 5\<rparr>)
     (tws_new\<lparr>output_requests := [(Some (InitialEvent 0), ''ab'')]\<rparr>))) = ''ab''"
  using commit_is_final [of "tws_new\<lparr>output_requests := [(Some (InitialEvent 0), ''ab'')]\<rparr>" 5
      "(InitialEvent 0)\<lparr>timestamp := 5\<rparr>"]
  by (simp add: requests_sorted_def tws_new_def InitialEvent_def)

text \<open>Output that carries the key of the rollback event survives the rollback. When an event has
  written output and is then cancelled by its anti-message, which has the same key, the output stays
  queued and will be committed.\<close>

theorem cancelled_output_survives:
  assumes "requests_sorted (output_requests fs)" and "(Some e, s) \<in> set (output_requests fs)"
  shows "(Some e, s) \<in> set (output_requests (removeOutputRequestsAfter (NegativeEvent p e) fs))"
  using assms by (simp add: removeOutputRequestsAfter_eq after_event_def ev_less_key)

theorem cancelled_output_survives_witness:
  "(Some (InitialEvent 0), ''ab'') \<in> set (output_requests (removeOutputRequestsAfter
     (NegativeEvent 9 (InitialEvent 0)) (tws_new\<lparr>output_requests := [(Some (InitialEvent 0), ''ab'')]\<rparr>)))"
  using cancelled_output_survives [of "tws_new\<lparr>output_requests := [(Some (InitialEvent 0), ''ab'')]\<rparr>"
      "InitialEvent 0" "''ab''" 9]
  by (simp add: requests_sorted_def tws_new_def)

text \<open>A file belongs to the LP that asked for it first: asking again gives the same stream, with
  the new current event, and another LP gets the error. The error leaves the lock of that LP's
  streams taken, so the LP's next rollback or fossil collection blocks.\<close>

theorem file_belongs_to_one_lp:
  assumes "lp < length (file_streams m)" and "lp' < length (file_streams m)" and "lp \<noteq> lp'"
    and "file_stream_by_filename m filename = None"
    and "\<forall>q\<in>set (file_streams m). \<forall>p\<in>set q. p < length (streams m)"
    and "length (file_streams_lock m) = length (file_streams m)"
  shows "\<exists>p m1 m2 m3. getFileStream filename lp e m = Inr (p, m1) \<and>
    getFileStream filename lp e' m1 = Inr (p, m2) \<and> current_event (streams m2 ! p) = Some e' \<and>
    getFileStream filename lp' e' m1 =
      Inl (Runtime_Error ''A filestream can only be used by a single lp'', m3) \<and>
    file_streams_lock m3 ! lp'"
  using assms by (auto simp: getFileStream_def update_stream_def setCurrentEvent_def Let_def nth_append
      list_update_append)

theorem file_belongs_to_one_lp_witness:
  "\<exists>p m1 m3. getFileStream ''f'' 0 (InitialEvent 0) (fsm_initialize 2 fsm_new) = Inr (p, m1) \<and>
    getFileStream ''f'' 1 (InitialEvent 0) m1 =
      Inl (Runtime_Error ''A filestream can only be used by a single lp'', m3) \<and> file_streams_lock m3 ! 1"
proof -
  let ?m = "fsm_initialize 2 fsm_new"
  have m: "length (file_streams ?m) = 2" "file_stream_by_filename ?m ''f'' = None"
    "length (file_streams_lock ?m) = length (file_streams ?m)"
    "\<forall>q\<in>set (file_streams ?m). \<forall>p\<in>set q. p < length (streams ?m)"
    by (simp_all add: fsm_initialize_def fsm_new_def)
  obtain p m1 m3 where "getFileStream ''f'' 0 (InitialEvent 0) ?m = Inr (p, m1)"
    "getFileStream ''f'' 1 (InitialEvent 0) m1 =
      Inl (Runtime_Error ''A filestream can only be used by a single lp'', m3)" "file_streams_lock m3 ! 1"
    using file_belongs_to_one_lp [OF _ _ _ m(2,4,3), of 0 1 "InitialEvent 0" "InitialEvent 0"] m(1) by auto
  then show ?thesis by blast
qed

end
