(* ===== verification/TW_Checkpoint.thy ===== *)
theory TW_Checkpoint
  imports TW_Statistics TW_Termination
begin

text \<open>
  The checkpoint managers (\<open>src/src/TimeWarpCheckpointManager.*\<close> and
  \<open>src/src/GVTSynchronizedCheckpointManager.*\<close>): when a checkpoint is due, what is counted when it has
  been written, when the simulation pauses, and the protocol in which the worker threads wait for
  the master to write it. The content of the checkpoint file is in \<open>TW_Archive\<close> and \<open>TW_Restart\<close>; its
  size and the time it took are arguments here. \<open>load\<close>, \<open>onEvent\<close> and \<open>onPassive\<close> have
  empty bodies in both classes.
\<close>

section \<open>State and operations\<close>

record gvt_checkpoint =
  interval :: u32
  remaining :: u32
  time_to_live :: i32
  cp_required :: bool

text \<open>The two classes that the simulation can be configured with.\<close>

datatype checkpoint_manager = NullCheckpointManager | GVTSynchronized gvt_checkpoint

text \<open>\<open>doInitialize\<close>; \<open>n\<close> and \<open>ttl\<close> are the settings \<open>interval\<close> and \<open>count-till-termination\<close>.\<close>

definition cp_doInitialize :: "u32 \<Rightarrow> i32 \<Rightarrow> gvt_checkpoint" where
  "cp_doInitialize n ttl = \<lparr>interval = n, remaining = n, time_to_live = ttl, cp_required = False\<rparr>"

fun cp_onGVT :: "checkpoint_manager \<Rightarrow> checkpoint_manager" where
  "cp_onGVT NullCheckpointManager = NullCheckpointManager"
| "cp_onGVT (GVTSynchronized c) =
     (let r = remaining c - 1
      in GVTSynchronized (c\<lparr>remaining := r, cp_required := (if r = 0 then True else cp_required c)\<rparr>))"

fun checkpointRequired :: "checkpoint_manager \<Rightarrow> bool" where
  "checkpointRequired NullCheckpointManager = False"
| "checkpointRequired (GVTSynchronized c) = cp_required c"

text \<open>Up to the wait at the barrier.\<close>

fun doGenerateCheckpoint :: "checkpoint_manager \<Rightarrow> checkpoint_manager" where
  "doGenerateCheckpoint NullCheckpointManager = NullCheckpointManager"
| "doGenerateCheckpoint (GVTSynchronized c) =
     GVTSynchronized (c\<lparr>remaining := interval c, cp_required := False,
       time_to_live := (if sint (time_to_live c) > 0 then time_to_live c - 1 else time_to_live c)\<rparr>)"

fun terminateAfterCheckpoint :: "checkpoint_manager \<Rightarrow> bool" where
  "terminateAfterCheckpoint NullCheckpointManager = False"
| "terminateAfterCheckpoint (GVTSynchronized c) \<longleftrightarrow> time_to_live c = 0"

text \<open>\<open>secs\<close> is the time that writing the file took, \<open>sz\<close> its size in millions of bytes.\<close>

definition generateCheckpoint :: "'d double_ops \<Rightarrow> 'd \<Rightarrow> 'd \<Rightarrow>
    checkpoint_manager \<times> termination_manager \<times> 'd tw_statistics \<Rightarrow>
    checkpoint_manager \<times> termination_manager \<times> 'd tw_statistics" where
  "generateCheckpoint d secs sz = (\<lambda>(cp, tm, st).
     let cp1 = doGenerateCheckpoint cp;
         (c, st1) = upGlobalCount TOTAL_CHECKPOINTS 1 st;
         st2 = updateAverage_double d CHECKPOINT_SAVE_TIME secs (ucast c) st1;
         st3 = updateAverage_double d CHECKPOINT_SIZE sz (ucast c) st2
     in (cp1, if terminateAfterCheckpoint cp1 then pause tm else tm, st3))"

definition checkpointIfNecessary :: "'d double_ops \<Rightarrow> 'd \<Rightarrow> 'd \<Rightarrow>
    checkpoint_manager \<times> termination_manager \<times> 'd tw_statistics \<Rightarrow>
    checkpoint_manager \<times> termination_manager \<times> 'd tw_statistics" where
  "checkpointIfNecessary d secs sz s =
     (if checkpointRequired (fst s) then generateCheckpoint d secs sz s else s)"

text \<open>What the master loop does with the manager when GVT has been updated.\<close>

definition checkpoint_round :: "'d double_ops \<Rightarrow> 'd \<times> 'd \<Rightarrow>
    checkpoint_manager \<times> termination_manager \<times> 'd tw_statistics \<Rightarrow>
    checkpoint_manager \<times> termination_manager \<times> 'd tw_statistics" where
  "checkpoint_round d x s = checkpointIfNecessary d (fst x) (snd x) (cp_onGVT (fst s), snd s)"

section \<open>The interval\<close>

definition total_checkpoints :: "'d tw_statistics \<Rightarrow> u64" where
  "total_checkpoints st = counts (global_stats st) TOTAL_CHECKPOINTS"

text \<open>State after \<open>k\<close> rounds from a start with interval \<open>n\<close> and \<open>m\<close> checkpoints to live.\<close>

definition after_rounds :: "nat \<Rightarrow> nat \<Rightarrow> nat \<Rightarrow> u64 \<Rightarrow>
    checkpoint_manager \<times> termination_manager \<times> 'd tw_statistics \<Rightarrow> bool" where
  "after_rounds n m k c0 = (\<lambda>(cp, tm, st).
     cp = GVTSynchronized \<lparr>interval = of_nat n, remaining = of_nat (n - k mod n),
            time_to_live = of_nat (m - k div n), cp_required = False\<rparr> \<and>
     total_checkpoints st = c0 + of_nat (k div n) \<and>
     (terminate tm = TS_PAUSED \<longleftrightarrow> n \<le> k \<and> m \<le> k div n))"

lemma generateCheckpoint_sel:
  assumes "generateCheckpoint d secs sz (cp, tm, st) = (cp', tm', st')"
  shows "cp' = doGenerateCheckpoint cp" "total_checkpoints st' = total_checkpoints st + 1"
    "tm' = (if terminateAfterCheckpoint (doGenerateCheckpoint cp) then pause tm else tm)"
  using assms by (auto simp: generateCheckpoint_def upGlobalCount_def updateAverage_double_def Let_def
      total_checkpoints_def)

lemma of_nat_eq_0_u32: "x < 2 ^ 32 \<Longrightarrow> (of_nat x :: u32) = 0 \<longleftrightarrow> x = 0"
  by (auto simp: word_of_nat_eq_0_iff dest: dvd_imp_le)

lemma sint_of_nat_pos: "x < 2 ^ 31 \<Longrightarrow> sint (of_nat x :: i32) = int x"
  by (simp add: signed_of_nat signed_take_bit_int_eq_self)

lemma next_mod:
  assumes "0 < (n :: nat)"
  shows "Suc k mod n = 0 \<and> n - k mod n = 1 \<and> Suc k div n = Suc (k div n) \<and> n \<le> Suc k \<or>
    Suc k mod n = Suc (k mod n) \<and> 1 < n - k mod n \<and> Suc k div n = k div n \<and> (n \<le> Suc k \<longleftrightarrow> n \<le> k)"
proof (cases "Suc (k mod n) = n")
  case True
  moreover have "n \<le> Suc k" using True mod_less_eq_dividend [of k n] by linarith
  ultimately show ?thesis using assms by (auto simp: mod_Suc div_Suc)
next
  case False
  moreover have "1 < n - k mod n" using False mod_less_divisor [OF assms, of k] by linarith
  moreover have "n \<noteq> Suc k"
  proof
    assume "n = Suc k"
    then have "k mod n = k" by simp
    with False \<open>n = Suc k\<close> show False by simp
  qed
  ultimately show ?thesis using assms by (auto simp: mod_Suc div_Suc)
qed

lemma after_rounds_Suc:
  assumes "after_rounds n m k c0 s" and "0 < n" "n < 2 ^ 32" "m < 2 ^ 31"
  shows "after_rounds n m (Suc k) c0 (checkpoint_round d x s)"
proof -
  obtain cp tm st where s: "s = (cp, tm, st)" by (cases s)
  let ?left = "n - k mod n" and ?ttl = "m - k div n"
  have old: "cp = GVTSynchronized \<lparr>interval = of_nat n, remaining = of_nat ?left,
      time_to_live = of_nat ?ttl, cp_required = False\<rparr>"
    "total_checkpoints st = c0 + of_nat (k div n)" "terminate tm = TS_PAUSED \<longleftrightarrow> n \<le> k \<and> m \<le> k div n"
    using assms(1) by (auto simp: after_rounds_def s)
  have "0 < ?left" using assms(2) by simp
  then have left: "0 < ?left" "of_nat ?left - 1 = (of_nat (?left - 1) :: u32)"
    by (simp, metis One_nat_def Suc_leI of_nat_1 of_nat_diff)
  have next0: "cp_onGVT cp = GVTSynchronized \<lparr>interval = of_nat n, remaining = of_nat (?left - 1),
      time_to_live = of_nat ?ttl, cp_required = (?left - 1 = 0)\<rparr>"
    using left assms(3) of_nat_eq_0_u32 [of "?left - 1"] 
    by (simp add: old Let_def left(2) del: of_nat_diff)
  from next_mod [OF assms(2), of k] show ?thesis
  proof (elim disjE conjE)
    assume eq: "Suc k mod n = 0" "?left = 1" "Suc k div n = Suc (k div n)" "n \<le> Suc k"
    obtain cp' tm' st' where g: "generateCheckpoint d (fst x) (snd x) (cp_onGVT cp, tm, st) = (cp', tm', st')"
      by (metis prod_cases3)
    have "doGenerateCheckpoint (cp_onGVT cp) = GVTSynchronized \<lparr>interval = of_nat n, remaining = of_nat n,
        time_to_live = of_nat (m - Suc (k div n)), cp_required = False\<rparr>"
      using assms(4) sint_of_nat_pos [of ?ttl] by (auto simp: next0 of_nat_diff)
    then have "cp' = GVTSynchronized \<lparr>interval = of_nat n, remaining = of_nat n,
        time_to_live = of_nat (m - Suc (k div n)), cp_required = False\<rparr>"
      "tm' = (if m \<le> Suc (k div n) then pause tm else tm)"
      using generateCheckpoint_sel(1,3) [OF g] assms(4) of_nat_eq_0_u32 [of "m - Suc (k div n)"] by auto
    moreover have "checkpoint_round d x s = (cp', tm', st')"
      using g by (simp add: checkpoint_round_def checkpointIfNecessary_def s next0 eq)
    moreover have "total_checkpoints st' = c0 + of_nat (Suc (k div n))"
      using generateCheckpoint_sel(2) [OF g] old(2) by simp
    moreover have "terminate tm' = TS_PAUSED \<longleftrightarrow> m \<le> Suc (k div n)"
      using old(3) calculation(2) by (auto simp: pause_def)
    ultimately show ?thesis using eq by (simp add: after_rounds_def)
  next
    assume eq: "Suc k mod n = Suc (k mod n)" "1 < ?left" "Suc k div n = k div n" "n \<le> Suc k \<longleftrightarrow> n \<le> k"
    have "\<not> checkpointRequired (cp_onGVT cp)" using eq(2) by (simp add: next0)
    then have "checkpoint_round d x s = (cp_onGVT cp, tm, st)"
      by (simp add: checkpoint_round_def checkpointIfNecessary_def s)
    moreover have "cp_onGVT cp = GVTSynchronized \<lparr>interval = of_nat n, remaining = of_nat (n - Suc (k mod n)),
        time_to_live = of_nat ?ttl, cp_required = False\<rparr>"
      unfolding next0 using eq(2) by (simp del: of_nat_diff)
    ultimately show ?thesis using eq(1,3,4) old(2,3) by (simp add: after_rounds_def del: of_nat_diff)
  qed
qed

lemma after_rounds_fold:
  assumes "after_rounds n m k c0 s" and "0 < n" "n < 2 ^ 32" "m < 2 ^ 31"
  shows "after_rounds n m (k + length xs) c0 (fold (checkpoint_round d) xs s)"
  using assms(1)
proof (induction xs arbitrary: k s)
  case (Cons x xs)
  from Cons.IH [OF after_rounds_Suc [OF Cons.prems assms(2-4), of d x]] show ?case by simp
qed simp

text \<open>With an interval of \<open>n\<close> a checkpoint is written at every \<open>n\<close>-th update of GVT, and the
  simulation pauses when the number of checkpoints has reached the setting
  \<open>count-till-termination\<close> (at the first one if that is 0). \<open>xs\<close> are the sizes and durations of
  the rounds.\<close>

theorem checkpoint_every_interval:
  assumes "0 < n" "n < 2 ^ 32" "m < 2 ^ 31" and "terminate tm \<noteq> TS_PAUSED"
    and "fold (checkpoint_round d) xs (GVTSynchronized (cp_doInitialize (of_nat n) (of_nat m)), tm, st) =
      (cp', tm', st')"
  shows "total_checkpoints st' = total_checkpoints st + of_nat (length xs div n) \<and>
    (terminate tm' = TS_PAUSED \<longleftrightarrow> n \<le> length xs \<and> m \<le> length xs div n)"
proof -
  have "after_rounds n m 0 (total_checkpoints st)
      (GVTSynchronized (cp_doInitialize (of_nat n) (of_nat m)), tm, st)"
    using assms(1,4) by (simp add: after_rounds_def cp_doInitialize_def)
  from after_rounds_fold [OF this assms(1-3), of xs d] show ?thesis
    by (simp add: assms(5) after_rounds_def)
qed

definition unit_ops :: "unit double_ops" where
  "unit_ops = \<lparr>d_zero = (), d_add = (\<lambda>_ _. ()), d_mult = (\<lambda>_ _. ()), d_div = (\<lambda>_ _. ()), d_of_u64 = (\<lambda>_. ())\<rparr>"

theorem checkpoint_every_interval_witness:
  "\<exists>cp' tm' st'. fold (checkpoint_round unit_ops) (replicate 7 ((), ()))
      (GVTSynchronized (cp_doInitialize (of_nat 3) (of_nat 2)), tm_new,
       \<lparr>local_stats = [], global_stats = no_stats unit_ops, st_num_threads = 0\<rparr>) = (cp', tm', st') \<and>
     total_checkpoints st' = 2 \<and> terminate tm' = TS_PAUSED"
proof -
  let ?st = "\<lparr>local_stats = [], global_stats = no_stats unit_ops, st_num_threads = 0\<rparr>"
  obtain cp' tm' st' where r: "fold (checkpoint_round unit_ops) (replicate 7 ((), ()))
      (GVTSynchronized (cp_doInitialize (of_nat 3) (of_nat 2)), tm_new, ?st) = (cp', tm', st')"
    by (metis prod_cases3)
  moreover have "total_checkpoints ?st = 0" by (simp add: total_checkpoints_def no_stats_def)
  ultimately show ?thesis
    using checkpoint_every_interval [OF _ _ _ _ r] by (simp add: tm_new_def)
qed

section \<open>Waiting for the checkpoint\<close>

text \<open>
  The master (\<open>startSimulation\<close>) and the workers (\<open>processEvents\<close>) at the points where the checkpoint
  manager is called: \<open>checkpointIfNecessary\<close> writes the file, clears the flag and then waits at the
  barrier; \<open>blockIfNecessary\<close>, at the end of a worker's iteration, waits at the barrier if the flag is
  set. The barrier is initialized for all workers and the master.
\<close>

datatype master_pc = M_Loop | M_Writing | M_Barrier
datatype worker_pc = W_Run | W_Barrier

record cp_sys =
  sys_cp :: checkpoint_manager
  sys_master :: master_pc
  sys_workers :: "worker_pc list"

inductive cp_step :: "cp_sys \<Rightarrow> cp_sys \<Rightarrow> bool" where
  cp_gvt: "sys_master s = M_Loop \<Longrightarrow> cp_step s (s\<lparr>sys_cp := cp_onGVT (sys_cp s)\<rparr>)"
| cp_write: "sys_master s = M_Loop \<Longrightarrow> checkpointRequired (sys_cp s) \<Longrightarrow> cp_step s (s\<lparr>sys_master := M_Writing\<rparr>)"
| cp_clear: "sys_master s = M_Writing \<Longrightarrow>
    cp_step s (s\<lparr>sys_cp := doGenerateCheckpoint (sys_cp s), sys_master := M_Barrier\<rparr>)"
| cp_block: "i < length (sys_workers s) \<Longrightarrow> sys_workers s ! i = W_Run \<Longrightarrow> checkpointRequired (sys_cp s) \<Longrightarrow>
    cp_step s (s\<lparr>sys_workers := (sys_workers s)[i := W_Barrier]\<rparr>)"
| cp_open: "sys_master s = M_Barrier \<Longrightarrow> list_all (\<lambda>w. w = W_Barrier) (sys_workers s) \<Longrightarrow>
    cp_step s (s\<lparr>sys_master := M_Loop, sys_workers := replicate (length (sys_workers s)) W_Run\<rparr>)"

inductive_cases cp_stepE: "cp_step s s'"

inductive cp_run :: "cp_sys \<Rightarrow> cp_sys \<Rightarrow> bool" where
  cp_refl: "cp_run s s"
| cp_next: "cp_run s s' \<Longrightarrow> cp_step s' s'' \<Longrightarrow> cp_run s s''"

definition cp_start :: "nat \<Rightarrow> nat \<Rightarrow> i32 \<Rightarrow> cp_sys" where
  "cp_start num_workers n ttl =
     \<lparr>sys_cp = GVTSynchronized (cp_doInitialize (of_nat n) ttl), sys_master = M_Loop,
      sys_workers = replicate num_workers W_Run\<rparr>"

lemma cp_run_gvt:
  "cp_run s0 s \<Longrightarrow> sys_master s = M_Loop \<Longrightarrow> cp_run s0 (s\<lparr>sys_cp := (cp_onGVT ^^ k) (sys_cp s)\<rparr>)"
proof (induction k)
  case (Suc k)
  let ?s = "s\<lparr>sys_cp := (cp_onGVT ^^ k) (sys_cp s)\<rparr>"
  have "cp_step ?s (?s\<lparr>sys_cp := cp_onGVT (sys_cp ?s)\<rparr>)" using Suc.prems by (intro cp_gvt) simp
  with Suc show ?case using cp_next by fastforce
qed simp

lemma cp_onGVT_pow:
  assumes "k < n" "n < 2 ^ 32"
  shows "(cp_onGVT ^^ k) (GVTSynchronized (cp_doInitialize (of_nat n) ttl)) =
    GVTSynchronized \<lparr>interval = of_nat n, remaining = of_nat (n - k), time_to_live = ttl, cp_required = False\<rparr>"
  using assms(1)
proof (induction k)
  case (Suc k)
  then have "of_nat (n - k) - 1 = (of_nat (n - Suc k) :: u32)"
    by (metis Suc_diff_Suc Suc_lessD diff_Suc_1 of_nat_Suc add_diff_cancel_left')
  moreover have "(of_nat (n - Suc k) :: u32) \<noteq> 0" using of_nat_eq_0_u32 [of "n - Suc k"] Suc.prems assms(2) by simp
  ultimately show ?case using Suc by (simp add: Let_def del: of_nat_diff)
qed (simp add: cp_doInitialize_def)

text \<open>A worker that has not seen the flag when the master clears it keeps running, and the barrier, for
  which every thread is needed, never opens.\<close>

definition missed_flag :: "cp_sys \<Rightarrow> bool" where
  "missed_flag s \<longleftrightarrow> sys_master s = M_Barrier \<and> \<not> checkpointRequired (sys_cp s) \<and> W_Run \<in> set (sys_workers s)"

lemma missed_flag_stuck: "missed_flag s \<Longrightarrow> \<not> cp_step s s'"
  by (auto simp: missed_flag_def list_all_iff elim!: cp_stepE)

lemma doGenerate_clears [simp]: "\<not> checkpointRequired (doGenerateCheckpoint cp)"
  by (cases cp) simp_all

text \<open>C34: The wait for a checkpoint can be missed: with any number of workers and any interval, the
  simulation can reach a state in which the master waits at the barrier and the flag is cleared
  while a worker is still running; from then on the barrier cannot open, so the master waits for
  ever.\<close>

theorem checkpoint_deadlock:
  assumes "0 < w" "0 < n" "n < 2 ^ 32"
  shows "\<exists>s. cp_run (cp_start w n ttl) s \<and> sys_master s = M_Barrier \<and> (\<forall>s'. cp_run s s' \<longrightarrow> sys_master s' = M_Barrier)"
proof -
  let ?s0 = "cp_start w n ttl"
  let ?s1 = "?s0\<lparr>sys_cp := (cp_onGVT ^^ n) (sys_cp ?s0)\<rparr>"
  let ?s2 = "?s1\<lparr>sys_master := M_Writing\<rparr>"
  let ?s3 = "?s2\<lparr>sys_cp := doGenerateCheckpoint (sys_cp ?s2), sys_master := M_Barrier\<rparr>"
  have "cp_run ?s0 ?s1" by (rule cp_run_gvt [OF cp_refl]) (simp add: cp_start_def)
  moreover have "checkpointRequired (sys_cp ?s1)"
    using assms cp_onGVT_pow [of "n - 1" n ttl]
    by (cases n) (simp_all add: cp_start_def Let_def)
  then have "cp_step ?s1 ?s2" by (intro cp_write) (simp_all add: cp_start_def)
  moreover have "cp_step ?s2 ?s3" by (intro cp_clear) simp
  ultimately have run: "cp_run ?s0 ?s3" by (blast intro: cp_next)
  have missed: "missed_flag ?s3" using assms(1) by (simp add: missed_flag_def cp_start_def)
  have "sys_master s' = M_Barrier" if "cp_run ?s3 s'" for s'
  proof -
    from that have "s' = ?s3"
      by (induction "?s3" s' rule: cp_run.induct) (use missed_flag_stuck [OF missed] in auto)
    then show ?thesis by simp
  qed
  with run show ?thesis by (intro exI [of _ ?s3]) simp
qed

theorem checkpoint_deadlock_witness:
  "\<exists>s. cp_run (cp_start 2 1 (- 1)) s \<and> sys_master s = M_Barrier"
  using checkpoint_deadlock [of 2 1 "- 1"] by auto

end
