(* ===== verification/TW_Dispatcher.thy ===== *)
theory TW_Dispatcher
  imports Complex_Main TW_LPRun_Props TW_Output TW_GVT_Sync TW_Termination TW_Statistics TW_FileStream TW_Checkpoint
begin

text \<open>
  The event dispatcher of a node (\<open>src/src/TimeWarpEventDispatcher.*\<close>): what a worker thread does in
  one iteration of \<open>processEvents\<close>, sending and cancelling events, rollback, received messages,
  initialization, and one iteration of the master loop. The managers are the models of the other
  theories; the GVT manager is called through the record \<open>gvt_ops\<close>, as the code calls it through a
  virtual base class.

  An operation runs from start to end on the node's state: the input queue locks are taken and
  released within it. Measured durations are parameters, points in time are in nanoseconds, the
  settings of type \<open>float\<close> are real numbers (\<open>rejuvenation_ms\<close> is the setting in milliseconds, an
  integer). Left out is console output; the waits for a checkpoint are in \<open>TW_Checkpoint\<close>, and the
  manager's \<open>onEvent\<close> and \<open>onPassive\<close> do nothing. \<open>operator[]\<close> on the two maps by LP name
  yields 0 and a null pointer for a name that is not there.
\<close>

section \<open>State\<close>

record 'v gvt_ops =
  gvt_sendEventUpdate :: "event \<Rightarrow> 'v \<Rightarrow> Color \<times> 'v"
  gvt_receiveEventUpdate :: "event \<Rightarrow> Color \<Rightarrow> 'v \<Rightarrow> 'v"
  gvt_reportThreadMin :: "u32 \<Rightarrow> nat \<Rightarrow> u32 \<Rightarrow> 'v \<Rightarrow> 'v"
  gvt_reportThreadSendMin :: "u32 \<Rightarrow> nat \<Rightarrow> 'v \<Rightarrow> 'v"
  gvt_getLocalGVTFlag :: "'v \<Rightarrow> u32"
  gvt_getGVT :: "'v \<Rightarrow> u32"
  gvt_checkProgress :: "int \<Rightarrow> 'v \<Rightarrow> ('v \<times> comm_call list) res"
  gvt_gvtUpdated :: "'v \<Rightarrow> bool \<times> 'v"

definition async_ops :: "u32 \<Rightarrow> u32 \<Rightarrow> async_gvt gvt_ops" where
  "async_ops my_id num_procs =
     \<lparr>gvt_sendEventUpdate = async_sendEventUpdate, gvt_receiveEventUpdate = async_receiveEventUpdate,
      gvt_reportThreadMin = async_reportThreadMin, gvt_reportThreadSendMin = async_reportThreadSendMin,
      gvt_getLocalGVTFlag = async_getLocalGVTFlag, gvt_getGVT = getGVT,
      gvt_checkProgress = (\<lambda>now gm. checkProgressGVT (async_readyToStart (unat my_id) now gm) now
        (async_progressGVT my_id num_procs now) gm),
      gvt_gvtUpdated = async_gvtUpdated\<rparr>"

record ('s, 'g, 'q, 'v, 'd) dispatcher =
  max_sim_time :: u32
  d_num_workers :: u32
  d_migration :: bool
  lps_by_name :: "string \<rightharpoonup> nat"
  local_lp_id_by_name :: "string \<rightharpoonup> nat"
  d_lps :: "('s, 'g) lp list"
  d_comm :: "unit comm"
  d_es :: "'q event_set"
  d_gvt :: 'v
  d_sm :: "'s state_manager"
  d_om :: output_manager
  d_fsm :: file_stream_manager
  d_tm :: termination_manager
  d_stats :: "'d tw_statistics"
  d_cp :: checkpoint_manager
  first_rejuvenation :: real
  rejuvenation_interval :: real
  rejuvenation_ms :: int
  oneshot_rejuvenation :: bool
  thread_started :: "int list"
  last_rejuvenation :: "int list"
  next_ptr :: nat

text \<open>What the dispatcher is built with: schedule queue, GVT manager and model; and what it measures:
  the durations of a rollback and of the recovery after it, by straggler.\<close>

record ('s, 'g, 'q, 'v, 'd) config =
  c_sched :: "'q sched_ops"
  c_gvt :: "'v gvt_ops"
  c_lp :: "('s, 'g) lp_ops"
  c_dbl :: "'d double_ops"
  c_rollback_secs :: "event \<Rightarrow> 'd"
  c_recovery_secs :: "event \<Rightarrow> 'd"

definition lp_id_of :: "string \<Rightarrow> ('s, 'g, 'q, 'v, 'd) dispatcher \<Rightarrow> nat" where
  "lp_id_of nm nd = (case local_lp_id_by_name nd nm of Some i \<Rightarrow> i | None \<Rightarrow> 0)"

definition lp_of :: "string \<Rightarrow> ('s, 'g, 'q, 'v, 'd) dispatcher \<Rightarrow> nat res" where
  "lp_of nm nd = (case lps_by_name nd nm of Some k \<Rightarrow> Inr k | None \<Rightarrow> Inl Null_Deref)"

definition node_of :: "string \<Rightarrow> ('s, 'g, 'q, 'v, 'd) dispatcher \<Rightarrow> u32 \<times> ('s, 'g, 'q, 'v, 'd) dispatcher" where
  "node_of nm nd = (let (n, c) = getNodeID nm (d_comm nd) in (n, nd\<lparr>d_comm := c\<rparr>))"

definition my_id :: "('s, 'g, 'q, 'v, 'd) dispatcher \<Rightarrow> u32" where
  "my_id nd = of_nat (my_rank (d_comm nd))"

definition up :: "stat \<Rightarrow> nat \<Rightarrow> ('s, 'g, 'q, 'v, 'd) dispatcher \<Rightarrow> ('s, 'g, 'q, 'v, 'd) dispatcher" where
  "up i thread_id nd = nd\<lparr>d_stats := snd (upCount i thread_id 1 (d_stats nd))\<rparr>"

definition local_average :: "('s, 'g, 'q, 'v, 'd) config \<Rightarrow> nat \<Rightarrow> double_stat \<Rightarrow> 'd \<Rightarrow> u32 \<Rightarrow>
    ('s, 'g, 'q, 'v, 'd) dispatcher \<Rightarrow> ('s, 'g, 'q, 'v, 'd) dispatcher" where
  "local_average cfg thread_id i x c nd =
     nd\<lparr>d_stats := updateLocalAverage (c_dbl cfg) i thread_id x c (d_stats nd)\<rparr>"

section \<open>Sending\<close>

definition sendLocalEvent :: "('s, 'g, 'q, 'v, 'd) config \<Rightarrow> nat \<Rightarrow> event \<Rightarrow> ('s, 'g, 'q, 'v, 'd) dispatcher \<Rightarrow>
    ('s, 'g, 'q, 'v, 'd) dispatcher res" where
  "sendLocalEvent cfg thread_id e nd =
     bindR (insertEvent (c_sched cfg) (lp_id_of (receiverName e) nd) e (d_es nd)) (\<lambda>es.
     Inr (nd\<lparr>d_es := es,
        d_gvt := gvt_reportThreadSendMin (c_gvt cfg) (timestamp e) thread_id (d_gvt nd)\<rparr>))"

definition enqueueRemoteEvent :: "('s, 'g, 'q, 'v, 'd) config \<Rightarrow> nat \<Rightarrow> event \<Rightarrow> u32 \<Rightarrow>
    ('s, 'g, 'q, 'v, 'd) dispatcher \<Rightarrow> ('s, 'g, 'q, 'v, 'd) dispatcher" where
  "enqueueRemoteEvent cfg thread_id e receiver nd =
     (if timestamp e \<le> max_sim_time nd then
        (let (c, v) = gvt_sendEventUpdate (c_gvt cfg) e (d_gvt nd)
         in nd\<lparr>d_tm := updateMsgCount 1 (d_tm nd),
               d_comm := insertMessage (EventMessage (my_id nd) receiver e c) (d_comm nd),
               d_gvt := gvt_reportThreadSendMin (c_gvt cfg) (timestamp e) thread_id v\<rparr>)
      else nd)"

text \<open>An event to its receiver, here or on another node, with the two counters to use.\<close>

definition route :: "('s, 'g, 'q, 'v, 'd) config \<Rightarrow> nat \<Rightarrow> stat \<Rightarrow> stat \<Rightarrow> event \<Rightarrow>
    ('s, 'g, 'q, 'v, 'd) dispatcher \<Rightarrow> ('s, 'g, 'q, 'v, 'd) dispatcher res" where
  "route cfg thread_id local_stat remote_stat e nd =
     (let (node_id, nd1) = node_of (receiverName e) nd
      in if node_id = my_id nd1
         then bindR (sendLocalEvent cfg thread_id e nd1) (\<lambda>nd2. Inr (up local_stat thread_id nd2))
         else Inr (up remote_stat thread_id (enqueueRemoteEvent cfg thread_id e node_id nd1)))"

text \<open>\<open>lp_id\<close> and \<open>k\<close> are the sender's local id and object. The model has made the events, each of them a new object:
  the address that it gets, from \<open>next_ptr\<close>, is one that no other event has.\<close>

definition stamp :: "nat \<Rightarrow> event \<Rightarrow> ('s, 'g) lp \<Rightarrow> event \<Rightarrow> event" where
  "stamp p source lp e =
     e\<lparr>ev_ptr := p, sender_name := name lp, send_time := timestamp source, generation := lp_generation lp\<rparr>"

fun sendEvents :: "('s, 'g, 'q, 'v, 'd) config \<Rightarrow> nat \<Rightarrow> event \<Rightarrow> event list \<Rightarrow> nat \<Rightarrow> nat \<Rightarrow>
    ('s, 'g, 'q, 'v, 'd) dispatcher \<Rightarrow> ('s, 'g, 'q, 'v, 'd) dispatcher res" where
  "sendEvents cfg thread_id source [] lp_id k nd = Inr nd"
| "sendEvents cfg thread_id source (e # es) lp_id k nd =
     (if timestamp e \<le> max_sim_time nd then
        (let lp = d_lps nd ! k; e' = stamp (next_ptr nd) source lp e;
             nd1 = nd\<lparr>d_lps := (d_lps nd)[k := lp\<lparr>lp_generation := lp_generation lp + 1\<rparr>],
                      d_om := om_insertEvent source e' lp_id (d_om nd),
                      next_ptr := next_ptr nd + 1\<rparr>
         in bindR (route cfg thread_id LOCAL_POSITIVE_EVENTS_SENT REMOTE_POSITIVE_EVENTS_SENT e' nd1)
              (sendEvents cfg thread_id source es lp_id k))
      else sendEvents cfg thread_id source es lp_id k nd)"

text \<open>The loop of \<open>cancelEvents\<close> takes the events from the back of the vector.\<close>

fun cancel_loop :: "('s, 'g, 'q, 'v, 'd) config \<Rightarrow> nat \<Rightarrow> event list \<Rightarrow> ('s, 'g, 'q, 'v, 'd) dispatcher \<Rightarrow>
    ('s, 'g, 'q, 'v, 'd) dispatcher res" where
  "cancel_loop cfg thread_id [] nd = Inr nd"
| "cancel_loop cfg thread_id (e # es) nd =
     (let neg = NegativeEvent (next_ptr nd) e; nd1 = nd\<lparr>next_ptr := next_ptr nd + 1\<rparr>
      in if timestamp e \<le> max_sim_time nd
         then bindR (route cfg thread_id LOCAL_NEGATIVE_EVENTS_SENT REMOTE_NEGATIVE_EVENTS_SENT neg nd1)
                (cancel_loop cfg thread_id es)
         else cancel_loop cfg thread_id es nd1)"

definition cancelEvents :: "('s, 'g, 'q, 'v, 'd) config \<Rightarrow> nat \<Rightarrow> event list \<Rightarrow>
    ('s, 'g, 'q, 'v, 'd) dispatcher \<Rightarrow> ('s, 'g, 'q, 'v, 'd) dispatcher res" where
  "cancelEvents cfg thread_id events_to_cancel nd =
     (if events_to_cancel = [] then Inr nd else cancel_loop cfg thread_id (rev events_to_cancel) nd)"

section \<open>Rollback\<close>

definition d_coastForward :: "('s, 'g, 'q, 'v, 'd) config \<Rightarrow> nat \<Rightarrow> event \<Rightarrow> event \<Rightarrow>
    ('s, 'g, 'q, 'v, 'd) dispatcher \<Rightarrow> ('s, 'g, 'q, 'v, 'd) dispatcher res" where
  "d_coastForward cfg thread_id straggler restored nd =
     (let i = lp_id_of (receiverName straggler) nd
      in bindR (lp_of (receiverName straggler) nd) (\<lambda>k.
         bindR (getEventsForCoastForward i straggler restored (d_es nd)) (\<lambda>events.
         bindR (coast_forward_loop (c_lp cfg) straggler (rev events) (d_lps nd ! k)) (\<lambda>lp.
         Inr ((up COAST_FORWARDED_EVENTS thread_id ^^ length events) (nd\<lparr>d_lps := (d_lps nd)[k := lp]\<rparr>))))))"

definition d_rollback :: "('s, 'g, 'q, 'v, 'd) config \<Rightarrow> nat \<Rightarrow> event \<Rightarrow>
    ('s, 'g, 'q, 'v, 'd) dispatcher \<Rightarrow> ('s, 'g, 'q, 'v, 'd) dispatcher res" where
  "d_rollback cfg thread_id straggler nd0 =
     (let i = lp_id_of (receiverName straggler) nd0;
          nd1 = up (if event_type straggler = POSITIVE then PRIMARY_ROLLBACKS else SECONDARY_ROLLBACKS)
                  thread_id nd0;
          nd2 = nd1\<lparr>d_fsm := fsm_rollback straggler i (d_fsm nd1)\<rparr>
      in bindR (lp_of (receiverName straggler) nd0) (\<lambda>k.
         bindR (assertR (gvt_getGVT (c_gvt cfg) (d_gvt nd2) \<le> timestamp straggler)) (\<lambda>_.
         let nd3 = nd2\<lparr>d_es := rollback i straggler (d_es nd2)\<rparr>
         in bindR (restoreState (c_lp cfg) straggler i (d_lps nd3 ! k) (d_sm nd3)) (\<lambda>(restored, lp, sm).
            let nd4 = nd3\<lparr>d_lps := (d_lps nd3)[k := lp], d_sm := sm\<rparr>
            in bindR (assertR (ev_less restored straggler)) (\<lambda>_.
               let (events_to_cancel, om) = om_rollback straggler i (d_om nd4)
               in bindR (cancelEvents cfg thread_id events_to_cancel (nd4\<lparr>d_om := om\<rparr>))
                    (\<lambda>nd5. let c = getLocal PRIMARY_ROLLBACKS thread_id (d_stats nd5) +
                               getLocal SECONDARY_ROLLBACKS thread_id (d_stats nd5)
                           in bindR (d_coastForward cfg thread_id straggler restored
                                 (local_average cfg thread_id ROLLBACK_TIME
                                    (c_rollback_secs cfg straggler) (ucast c) nd5)) (\<lambda>nd6.
                              Inr (local_average cfg thread_id RECOVERY_TIME
                                    (c_recovery_secs cfg straggler) (ucast c) nd6))))))))"

section \<open>Worker threads\<close>

definition must_rollback :: "event \<Rightarrow> event option \<Rightarrow> bool" where
  "must_rollback event last_processed =
     (case last_processed of
        None \<Rightarrow> False
      | Some l \<Rightarrow> ev_less event l \<or> (ev_eq event l \<and> event_type event = NEGATIVE))"

definition collect_fossils :: "nat \<Rightarrow> nat \<Rightarrow> nat \<Rightarrow> u32 \<Rightarrow> ('s, 'g, 'q, 'v, 'd) dispatcher \<Rightarrow>
    ('s, 'g, 'q, 'v, 'd) dispatcher" where
  "collect_fossils thread_id i k gvt nd =
     (if gvt > last_fossil_collect_gvt (d_lps nd ! k) then
        (let (_, om) = om_fossilCollect gvt i (d_om nd);
             (event_fossil_collect_time, sm) = sm_fossilCollect gvt i (d_sm nd);
             (num_committed, es) = fossilCollect event_fossil_collect_time i (d_es nd)
         in nd\<lparr>d_lps := (d_lps nd)[k := (d_lps nd ! k)\<lparr>last_fossil_collect_gvt := gvt\<rparr>],
               d_fsm := fsm_fossilCollect gvt i (d_fsm nd), d_om := om, d_sm := sm, d_es := es,
               d_stats := snd (upCount EVENTS_COMMITTED thread_id (of_nat num_committed) (d_stats nd))\<rparr>)
      else nd)"

text \<open>The simulated rejuvenation of a worker at time \<open>t\<close>: it sleeps, so that the next one is counted from
  \<open>t\<close> and the duration.\<close>

definition rejuvenate :: "int \<Rightarrow> nat \<Rightarrow> ('s, 'g, 'q, 'v, 'd) dispatcher \<Rightarrow> ('s, 'g, 'q, 'v, 'd) dispatcher" where
  "rejuvenate t thread_id nd =
     (let started = thread_started nd ! thread_id; latest = last_rejuvenation nd ! thread_id;
          elapsed = (t - started) div 10 ^ 9
      in if 0 < rejuvenation_interval nd \<and> first_rejuvenation nd \<le> of_int elapsed \<and>
            (latest = started \<or> rejuvenation_interval nd \<le> of_int ((t - latest) div 10 ^ 9))
         then up TOTAL_REJUVENATION thread_id (nd\<lparr>
            last_rejuvenation := (last_rejuvenation nd)[thread_id := t + rejuvenation_ms nd * 10 ^ 6],
            rejuvenation_interval := (if oneshot_rejuvenation nd then 0 else rejuvenation_interval nd)\<rparr>)
         else nd)"

text \<open>A positive event: process it, save the state, send, collect fossils, schedule the next one.\<close>

definition process_positive :: "('s, 'g, 'q, 'v, 'd) config \<Rightarrow> int \<Rightarrow> nat \<Rightarrow> nat \<Rightarrow> nat \<Rightarrow> event \<Rightarrow>
    ('s, 'g, 'q, 'v, 'd) dispatcher \<Rightarrow> ('s, 'g, 'q, 'v, 'd) dispatcher res" where
  "process_positive cfg t thread_id i k event nd =
     (let nd0 = rejuvenate t thread_id nd;
          (lp, new_events) = lp_receive (c_lp cfg) event (d_lps nd0 ! k);
          nd1 = up EVENTS_PROCESSED thread_id (nd0\<lparr>d_lps := (d_lps nd0)[k := lp]\<rparr>);
          nd2 = nd1\<lparr>d_sm := saveState (c_lp cfg) event i lp (d_sm nd1)\<rparr>
      in bindR (sendEvents cfg thread_id event new_events i k nd2) (\<lambda>nd3.
         let nd4 = collect_fossils thread_id i k (gvt_getGVT (c_gvt cfg) (d_gvt nd3)) nd3
         in bindR (replenishScheduler (c_sched cfg) i (d_es nd4)) (\<lambda>es. Inr (nd4\<lparr>d_es := es\<rparr>))))"

definition process_negative :: "('s, 'g, 'q, 'v, 'd) config \<Rightarrow> nat \<Rightarrow> nat \<Rightarrow> event \<Rightarrow>
    ('s, 'g, 'q, 'v, 'd) dispatcher \<Rightarrow> ('s, 'g, 'q, 'v, 'd) dispatcher res" where
  "process_negative cfg thread_id i event nd =
     bindR (cancelEvent i event (d_es nd)) (\<lambda>(found, es1).
     bindR (startScheduling (c_sched cfg) i es1) (\<lambda>es2.
     let nd1 = nd\<lparr>d_es := es2\<rparr> in Inr (if found then up CANCELLED_EVENTS thread_id nd1 else nd1)))"

text \<open>One iteration of the loop of \<open>processEvents\<close>; \<open>t\<close> is the time at which the event is processed.\<close>

definition process_iteration :: "('s, 'g, 'q, 'v, 'd) config \<Rightarrow> int \<Rightarrow> nat \<Rightarrow> ('s, 'g, 'q, 'v, 'd) dispatcher \<Rightarrow>
    ('s, 'g, 'q, 'v, 'd) dispatcher res" where
  "process_iteration cfg t thread_id nd =
     (let flag = gvt_getLocalGVTFlag (c_gvt cfg) (d_gvt nd)
      in bindR (getEvent (c_sched cfg) thread_id (d_es nd)) (\<lambda>(ev, es).
         let nd = nd\<lparr>d_es := es\<rparr>
         in case ev of
              None \<Rightarrow>
                Inr (nd\<lparr>d_tm := (if threadPassive thread_id (d_tm nd) then d_tm nd
                                 else setThreadPassive thread_id (d_tm nd)),
                        d_gvt := gvt_reportThreadMin (c_gvt cfg) uint_max thread_id flag (d_gvt nd)\<rparr>)
            | Some event \<Rightarrow>
                (let nd = nd\<lparr>d_gvt := gvt_reportThreadMin (c_gvt cfg) (timestamp event) thread_id flag (d_gvt nd),
                             d_tm := (if threadPassive thread_id (d_tm nd)
                                      then setThreadActive thread_id (d_tm nd) else d_tm nd)\<rparr>;
                     (node_id, nd) = node_of (receiverName event) nd;
                     i = lp_id_of (receiverName event) nd
                 in bindR (assertR (node_id = my_id nd)) (\<lambda>_.
                    bindR (lp_of (receiverName event) nd) (\<lambda>k.
                    bindR (if must_rollback event (lastProcessedEvent i (d_es nd))
                           then d_rollback cfg thread_id event nd else Inr nd) (\<lambda>nd.
                    if event_type event = NEGATIVE then process_negative cfg thread_id i event nd
                    else process_positive cfg t thread_id i k event nd))))))"

section \<open>Messages, initialization, master loop\<close>

definition receiveEventMessage :: "('s, 'g, 'q, 'v, 'd) config \<Rightarrow> nat \<Rightarrow> kmsg \<Rightarrow>
    ('s, 'g, 'q, 'v, 'd) dispatcher \<Rightarrow> ('s, 'g, 'q, 'v, 'd) dispatcher res" where
  "receiveEventMessage cfg thread_id msg nd =
     (let nd1 = up TOTAL_EVENTS_RECEIVED thread_id nd;
          nd2 = nd1\<lparr>d_tm := updateMsgCount (- 1) (d_tm nd1),
                    d_gvt := gvt_receiveEventUpdate (c_gvt cfg) (em_event msg) (em_color msg) (d_gvt nd1)\<rparr>
      in sendLocalEvent cfg thread_id (em_event msg) nd2)"

text \<open>The part of \<open>initialize\<close> between the two synchronizations: each LP sends its initial events and
  its state is saved with the initial event.\<close>

fun initialize_lps :: "('s, 'g, 'q, 'v, 'd) config \<Rightarrow> nat \<Rightarrow> event \<Rightarrow> nat list \<Rightarrow>
    ('s, 'g, 'q, 'v, 'd) dispatcher \<Rightarrow> ('s, 'g, 'q, 'v, 'd) dispatcher res" where
  "initialize_lps cfg thread_id initial_event [] nd = Inr nd"
| "initialize_lps cfg thread_id initial_event (k # ks) nd =
     (let lp = d_lps nd ! k; i = lp_id_of (name lp) nd;
          ((s, g), new_events) = initializeLP (c_lp cfg) (lp_state lp, rng_list lp);
          nd1 = nd\<lparr>d_lps := (d_lps nd)[k := lp\<lparr>lp_state := s, rng_list := g\<rparr>]\<rparr>
      in bindR (sendEvents cfg thread_id initial_event new_events i k nd1) (\<lambda>nd2.
         initialize_lps cfg thread_id initial_event ks
           (nd2\<lparr>d_sm := saveState (c_lp cfg) initial_event i (d_lps nd2 ! k) (d_sm nd2)\<rparr>)))"

text \<open>\<open>parts\<close> is the partition of the LPs, \<open>v\<close> the initialized GVT manager.\<close>

definition d_initialize :: "('s, 'g, 'q, 'v, 'd) config \<Rightarrow> ('s, 'g) lp list list \<Rightarrow> 'v \<Rightarrow>
    ('s, 'g, 'q, 'v, 'd) dispatcher \<Rightarrow> ('s, 'g, 'q, 'v, 'd) dispatcher res" where
  "d_initialize cfg parts v nd =
     (let lps = concat parts; n = length lps; thread_id = unat (d_num_workers nd)
      in bindR (initialize (c_sched cfg) parts n (d_migration nd) thread_id (d_es nd)) (\<lambda>es.
         initialize_lps cfg thread_id (InitialEvent (next_ptr nd)) [0..<n]
           (nd\<lparr>d_lps := lps, d_es := es,
               lps_by_name := fold (\<lambda>(k, lp) mp. mp(name lp \<mapsto> k)) (zip [0..<n] lps) (lps_by_name nd),
               local_lp_id_by_name :=
                 fold (\<lambda>(k, lp) mp. mp(name lp \<mapsto> k)) (zip [0..<n] lps) (local_lp_id_by_name nd),
               d_sm := sm_initialize n (d_sm nd), d_om := om_initialize n,
               d_fsm := fsm_initialize n (d_fsm nd), d_gvt := v,
               d_tm := tm_initialize (my_id nd) (d_num_workers nd) (d_tm nd),
               d_stats := st_initialize (c_dbl cfg) (d_num_workers nd) (of_nat n) (d_stats nd),
               next_ptr := next_ptr nd + 1\<rparr>)))"

fun do_comm_calls :: "comm_call list \<Rightarrow> unit comm \<Rightarrow> unit comm" where
  "do_comm_calls [] c = c"
| "do_comm_calls (Insert_Message msg # cs) c = do_comm_calls cs (insertMessage msg c)"
| "do_comm_calls (Flush_Messages # cs) c = do_comm_calls cs c"

text \<open>\<open>m\<close> is \<open>mallinfo().uordblks\<close>, an \<open>int\<close>; the last step is the checkpoint manager's \<open>onGVT\<close>.\<close>

definition mem_in_use :: "i32 \<Rightarrow> u64" where
  "mem_in_use m = (if sint m < 0 then 2 * 1024 * 1024 * 1024 + scast m else scast m)"

definition d_onGVT :: "i32 \<Rightarrow> ('s, 'g, 'q, 'v, 'd) dispatcher \<Rightarrow> ('s, 'g, 'q, 'v, 'd) dispatcher res" where
  "d_onGVT m nd =
     (let (c, st) = upCount GVT_CYCLES (unat (d_num_workers nd)) 1 (d_stats nd)
      in bindR (updateAverage AVERAGE_MAX_MEMORY (mem_in_use m) (ucast c) st) (\<lambda>st'.
         Inr (nd\<lparr>d_stats := st', d_cp := cp_onGVT (d_cp nd)\<rparr>)))"

text \<open>One iteration of the master loop after \<open>handleMessages\<close>, at time \<open>now\<close>; \<open>secs\<close> and \<open>sz\<close> are for a
  checkpoint. The second result says
  whether the GVT manager has called \<open>flushMessages\<close>, which sends what the communication manager
  holds back (\<open>TW_Comm.flushMessages\<close>).\<close>

definition master_iteration :: "('s, 'g, 'q, 'v, 'd) config \<Rightarrow> int \<Rightarrow> i32 \<Rightarrow> 'd \<Rightarrow> 'd \<Rightarrow>
    ('s, 'g, 'q, 'v, 'd) dispatcher \<Rightarrow> (('s, 'g, 'q, 'v, 'd) dispatcher \<times> bool) res" where
  "master_iteration cfg now m secs sz nd =
     (let nd1 = (if nodePassive (d_tm nd)
            then let (_, tm, out) = sendTerminationToken (my_id nd) (of_nat (num_processes (d_comm nd)))
                       PASSIVE (my_id nd) 0 (d_tm nd)
                 in nd\<lparr>d_tm := tm, d_comm := do_comm_calls (map Insert_Message out) (d_comm nd)\<rparr>
            else nd)
      in bindR (gvt_checkProgress (c_gvt cfg) now (d_gvt nd1)) (\<lambda>(v, calls).
         let nd2 = nd1\<lparr>d_comm := do_comm_calls calls (d_comm nd1)\<rparr>;
             (updated, v') = gvt_gvtUpdated (c_gvt cfg) v;
             nd3 = nd2\<lparr>d_gvt := v'\<rparr>
         in bindR (if updated then d_onGVT m nd3 else Inr nd3) (\<lambda>nd4.
            let (cp, tm, st) = checkpointIfNecessary (c_dbl cfg) secs sz (d_cp nd4, d_tm nd4, d_stats nd4)
            in Inr (nd4\<lparr>d_cp := cp, d_tm := tm, d_stats := st\<rparr>, Flush_Messages \<in> set calls))))"

text \<open>After the loop: the events of all LPs up to the end are committed, by their local ids.\<close>

fun final_commit :: "nat \<Rightarrow> nat list \<Rightarrow> ('s, 'g, 'q, 'v, 'd) dispatcher \<Rightarrow> ('s, 'g, 'q, 'v, 'd) dispatcher" where
  "final_commit thread_id [] nd = nd"
| "final_commit thread_id (i # ids) nd =
     (let (num_committed, es) = fossilCollect uint_max i (d_es nd)
      in final_commit thread_id ids (nd\<lparr>d_es := es,
           d_stats := snd (upCount EVENTS_COMMITTED thread_id (of_nat num_committed) (d_stats nd))\<rparr>))"

definition finishSimulation :: "('s, 'g, 'q, 'v, 'd) config \<Rightarrow> (stat \<Rightarrow> u64 list) \<Rightarrow> (double_stat \<Rightarrow> 'd list) \<Rightarrow>
    ('s, 'g, 'q, 'v, 'd) dispatcher \<Rightarrow> ('s, 'g, 'q, 'v, 'd) dispatcher" where
  "finishSimulation cfg others dothers nd =
     (let nd1 = final_commit (unat (d_num_workers nd)) [0..<length (d_lps nd)] nd
      in nd1\<lparr>d_stats := calculateStats (c_dbl cfg) others dothers (d_stats nd1)\<rparr>)"

end
