(* ===== verification/TW_Dispatcher_Props.thy ===== *)
theory TW_Dispatcher_Props
  imports TW_Dispatcher
begin

text \<open>
  Sending and cancelling events: every event goes to exactly one place, the input queue of its
  receiver when that is on this node (the event set stays consistent) and otherwise, in order, the
  messages for the receiver's node; and rollback of an LP as a whole.
\<close>

section \<open>Where events go\<close>

definition is_local :: "('s, 'g, 'q, 'v, 'd) dispatcher \<Rightarrow> event \<Rightarrow> bool" where
  "is_local nd e \<longleftrightarrow> node_id_by_lp_name (d_comm nd) (receiverName e) = Some (my_id nd)"

text \<open>The receiver is known: its node, and its local id when the node is this one.\<close>

definition known_receiver :: "('s, 'g, 'q, 'v, 'd) dispatcher \<Rightarrow> event \<Rightarrow> bool" where
  "known_receiver nd e \<longleftrightarrow> node_id_by_lp_name (d_comm nd) (receiverName e) \<noteq> None \<and>
     (is_local nd e \<longrightarrow> lp_id_of (receiverName e) nd < num_of_lps (d_es nd))"

definition fresh_event :: "event list event_set \<Rightarrow> event \<Rightarrow> bool" where
  "fresh_event es e \<longleftrightarrow> (\<forall>x\<in>#all_events es. ev_key5 x \<noteq> ev_key5 e \<and> ev_ptr x \<noteq> ev_ptr e)"

definition remote_msg :: "('s, 'g, 'q, 'v, 'd) dispatcher \<Rightarrow> event \<Rightarrow> kmsg \<Rightarrow> bool" where
  "remote_msg nd e msg \<longleftrightarrow> (\<exists>node c. node_id_by_lp_name (d_comm nd) (receiverName e) = Some node \<and>
     msg = EventMessage (my_id nd) node e c)"

text \<open>What the parts of the node that are not concerned keep.\<close>

definition same_frame :: "('s, 'g, 'q, 'v, 'd) dispatcher \<Rightarrow> ('s, 'g, 'q, 'v, 'd) dispatcher \<Rightarrow> bool" where
  "same_frame nd nd' \<longleftrightarrow>
     max_sim_time nd' = max_sim_time nd \<and> lps_by_name nd' = lps_by_name nd \<and>
     local_lp_id_by_name nd' = local_lp_id_by_name nd \<and>
     node_id_by_lp_name (d_comm nd') = node_id_by_lp_name (d_comm nd) \<and>
     my_rank (d_comm nd') = my_rank (d_comm nd) \<and>
     num_of_lps (d_es nd') = num_of_lps (d_es nd) \<and>
     processed_queue (d_es nd') = processed_queue (d_es nd) \<and>
     d_sm nd' = d_sm nd \<and> d_fsm nd' = d_fsm nd"

definition routed :: "nat set \<Rightarrow> ('s, 'g, event list, 'v, 'd) dispatcher \<Rightarrow> event list \<Rightarrow>
    ('s, 'g, event list, 'v, 'd) dispatcher \<Rightarrow> bool" where
  "routed P nd S nd' \<longleftrightarrow>
     same_frame nd nd' \<and> ms_inv P (d_es nd') \<and>
     all_events (d_es nd') = all_events (d_es nd) + mset (filter (is_local nd) S) \<and>
     (\<forall>j<num_of_lps (d_es nd). mset (input_queue (d_es nd') ! j) = mset (input_queue (d_es nd) ! j) +
        mset (filter (\<lambda>e. is_local nd e \<and> lp_id_of (receiverName e) nd = j) S)) \<and>
     (\<forall>j\<in>P. scheduled_event_pointer (d_es nd') ! j = scheduled_event_pointer (d_es nd) ! j) \<and>
     (\<exists>ms. send_msg_list (d_comm nd') = send_msg_list (d_comm nd) @ ms \<and>
        list_all2 (remote_msg nd) (filter (\<lambda>e. \<not> is_local nd e) S) ms \<and>
        tm_msg_count (d_tm nd') = tm_msg_count (d_tm nd) + of_nat (length ms))"

lemma same_frame_simps:
  assumes "same_frame nd nd'"
  shows "is_local nd' = is_local nd" "known_receiver nd' = known_receiver nd" "remote_msg nd' = remote_msg nd"
    "max_sim_time nd' = max_sim_time nd" "lp_id_of nm nd' = lp_id_of nm nd"
    "num_of_lps (d_es nd') = num_of_lps (d_es nd)"
  using assms
  by (auto simp: same_frame_def is_local_def known_receiver_def remote_msg_def my_id_def lp_id_of_def fun_eq_iff)

lemma same_frame_trans: "same_frame a b \<Longrightarrow> same_frame b c \<Longrightarrow> same_frame a c"
  by (simp add: same_frame_def)

lemma same_frame_refl [simp]: "same_frame a a"
  by (simp add: same_frame_def)

lemma routed_Nil: "ms_inv P (d_es nd) \<Longrightarrow> routed P nd [] nd"
  by (simp add: routed_def)

lemma routed_append:
  assumes "routed P nd S nd1" and "routed P nd1 S' nd2"
  shows "routed P nd (S @ S') nd2"
proof -
  from assms(1) have f: "same_frame nd nd1" by (simp add: routed_def)
  note fs = same_frame_simps [OF f]
  obtain ms where ms: "send_msg_list (d_comm nd1) = send_msg_list (d_comm nd) @ ms"
    "list_all2 (remote_msg nd) (filter (\<lambda>e. \<not> is_local nd e) S) ms"
    "tm_msg_count (d_tm nd1) = tm_msg_count (d_tm nd) + of_nat (length ms)"
    using assms(1) by (auto simp: routed_def)
  obtain ms' where ms': "send_msg_list (d_comm nd2) = send_msg_list (d_comm nd1) @ ms'"
    "list_all2 (remote_msg nd) (filter (\<lambda>e. \<not> is_local nd e) S') ms'"
    "tm_msg_count (d_tm nd2) = tm_msg_count (d_tm nd1) + of_nat (length ms')"
    using assms(2) by (auto simp: routed_def fs)
  have "send_msg_list (d_comm nd2) = send_msg_list (d_comm nd) @ (ms @ ms')"
    "list_all2 (remote_msg nd) (filter (\<lambda>e. \<not> is_local nd e) (S @ S')) (ms @ ms')"
    "tm_msg_count (d_tm nd2) = tm_msg_count (d_tm nd) + of_nat (length (ms @ ms'))"
    using ms ms' by (simp_all add: list_all2_appendI)
  moreover have "same_frame nd nd2" "ms_inv P (d_es nd2)"
    "all_events (d_es nd2) = all_events (d_es nd) + mset (filter (is_local nd) (S @ S'))"
    "\<forall>j\<in>P. scheduled_event_pointer (d_es nd2) ! j = scheduled_event_pointer (d_es nd) ! j"
    "\<forall>j<num_of_lps (d_es nd). mset (input_queue (d_es nd2) ! j) = mset (input_queue (d_es nd) ! j) +
      mset (filter (\<lambda>e. is_local nd e \<and> lp_id_of (receiverName e) nd = j) (S @ S'))"
    using assms same_frame_trans by (auto simp: routed_def fs)
  ultimately show ?thesis unfolding routed_def by blast
qed

lemma all_events_insert:
  assumes "es_shape es" and "i < num_of_lps es"
    and "input_queue es' = (input_queue es)[i := ev_insert e (input_queue es ! i)]"
    and "processed_queue es' = processed_queue es"
  shows "all_events es' = add_mset e (all_events es)"
proof -
  have "i < length (input_queue es)" using assms(1,2) by (simp add: es_shape_def)
  from concat_update_mset [OF this, of "ev_insert e (input_queue es ! i)"] assms(3,4)
  have "all_events es' + mset (input_queue es ! i) = add_mset e (all_events es) + mset (input_queue es ! i)"
    by (simp add: all_events_def ac_simps)
  then show ?thesis by simp
qed

lemma up_frame [simp]:
  "d_es (up s t nd) = d_es nd" "d_comm (up s t nd) = d_comm nd" "d_tm (up s t nd) = d_tm nd"
  "d_lps (up s t nd) = d_lps nd" "d_om (up s t nd) = d_om nd" "d_sm (up s t nd) = d_sm nd"
  "d_fsm (up s t nd) = d_fsm nd" "d_gvt (up s t nd) = d_gvt nd" "max_sim_time (up s t nd) = max_sim_time nd"
  "lps_by_name (up s t nd) = lps_by_name nd" "next_ptr (up s t nd) = next_ptr nd"
  "local_lp_id_by_name (up s t nd) = local_lp_id_by_name nd"
  by (simp_all add: up_def)

lemma sendLocalEvent_ok:
  fixes nd :: "('s, 'g, event list, 'v, 'd) dispatcher"
  assumes inv: "ms_inv P (d_es nd)" and local: "is_local nd e" and i: "lp_id_of (receiverName e) nd < num_of_lps (d_es nd)"
    and fresh: "fresh_event (d_es nd) e" and cfg: "c_sched cfg = multiset_ops"
  shows "\<exists>nd'. sendLocalEvent cfg t e nd = Inr nd' \<and> routed P nd [e] nd' \<and>
    d_lps nd' = d_lps nd \<and> d_om nd' = d_om nd \<and> next_ptr nd' = next_ptr nd"
proof -
  let ?i = "lp_id_of (receiverName e) nd"
  obtain es' where es': "insertEvent multiset_ops ?i e (d_es nd) = Inr es'" "ms_inv P es'"
    "same_config (d_es nd) es'" "processed_queue es' = processed_queue (d_es nd)"
    "input_queue es' = (input_queue (d_es nd))[?i := ev_insert e (input_queue (d_es nd) ! ?i)]"
    using msq.insertEvent_ok [OF inv i] fresh by (auto simp: fresh_event_def)
  have all: "all_events es' = add_mset e (all_events (d_es nd))"
    using all_events_insert [OF _ i es'(5,4)] inv by (simp add: es_inv_def)
  have len: "?i < length (input_queue (d_es nd))" using inv i by (auto simp: es_inv_def es_shape_def)
  have iq: "mset (input_queue es' ! j) = mset (input_queue (d_es nd) ! j) + (if ?i = j then {#e#} else {#})" for j
    unfolding es'(5) using len by (simp add: nth_list_update_if)
  have ptr: "scheduled_event_pointer es' ! j = scheduled_event_pointer (d_es nd) ! j" if "j \<in> P" for j
    by (rule msq.insertEvent_busy [OF inv i that es'(1)])
  show ?thesis
    using es'(1-4) local cfg all iq ptr
    by (simp add: sendLocalEvent_def routed_def same_frame_def same_config_def)
qed

lemma route_ok:
  fixes nd :: "('s, 'g, event list, 'v, 'd) dispatcher"
  assumes inv: "ms_inv P (d_es nd)" and known: "known_receiver nd e"
    and fresh: "is_local nd e \<Longrightarrow> fresh_event (d_es nd) e"
    and time: "timestamp e \<le> max_sim_time nd" and cfg: "c_sched cfg = multiset_ops"
  shows "\<exists>nd'. route cfg t s1 s2 e nd = Inr nd' \<and> routed P nd [e] nd' \<and>
    d_lps nd' = d_lps nd \<and> d_om nd' = d_om nd \<and> next_ptr nd' = next_ptr nd"
proof -
  obtain node where node: "node_id_by_lp_name (d_comm nd) (receiverName e) = Some node"
    using known by (auto simp: known_receiver_def)
  then have n: "node_of (receiverName e) nd = (node, nd)" by (simp add: node_of_def getNodeID_def)
  show ?thesis
  proof (cases "node = my_id nd")
    case True
    then have local: "is_local nd e" using node by (simp add: is_local_def)
    have i: "lp_id_of (receiverName e) nd < num_of_lps (d_es nd)" using known local by (simp add: known_receiver_def)
    obtain nd' where "sendLocalEvent cfg t e nd = Inr nd'" "routed P nd [e] nd'"
      "d_lps nd' = d_lps nd" "d_om nd' = d_om nd" "next_ptr nd' = next_ptr nd"
      using sendLocalEvent_ok [OF inv local i fresh [OF local] cfg] by blast
    then show ?thesis
      using True n by (intro exI [of _ "up s1 t nd'"]) (simp add: route_def routed_def same_frame_def)
  next
    case False
    then have remote: "\<not> is_local nd e" using node by (simp add: is_local_def)
    obtain c v where cv: "gvt_sendEventUpdate (c_gvt cfg) e (d_gvt nd) = (c, v)" by fastforce
    show ?thesis
      using False n time remote inv node
      by (auto simp: route_def enqueueRemoteEvent_def cv routed_def same_frame_def insertMessage_def
          updateMsgCount_def remote_msg_def)
  qed
qed

section \<open>Sending\<close>

fun stamped :: "u32 \<Rightarrow> nat \<Rightarrow> event \<Rightarrow> ('s, 'g) lp \<Rightarrow> event list \<Rightarrow> event list" where
  "stamped mx p source lp [] = []"
| "stamped mx p source lp (e # es) =
     (if timestamp e \<le> mx
      then stamp p source lp e # stamped mx (p + 1) source (lp\<lparr>lp_generation := lp_generation lp + 1\<rparr>) es
      else stamped mx p source lp es)"

definition record_outputs :: "event \<Rightarrow> nat \<Rightarrow> event list \<Rightarrow> output_manager \<Rightarrow> output_manager" where
  "record_outputs source lp_id S om = fold (\<lambda>e. om_insertEvent source e lp_id) S om"

text \<open>The sender has not used the generations from its current one on, nor anybody the addresses from \<open>p\<close> on.\<close>

definition sender_fresh :: "nat \<Rightarrow> ('s, 'g) lp \<Rightarrow> event list \<Rightarrow> event list event_set \<Rightarrow> bool" where
  "sender_fresh p lp es eset \<longleftrightarrow> unat (lp_generation lp) + length es < 2 ^ 64 \<and>
     (\<forall>x\<in>#all_events eset. ev_ptr x < p \<and>
        (sender_name x = name lp \<longrightarrow> unat (generation x) < unat (lp_generation lp)))"

lemma stamp_sel [simp]:
  "receiverName (stamp p s lp e) = receiverName e" "timestamp (stamp p s lp e) = timestamp e"
  "ev_ptr (stamp p s lp e) = p" "sender_name (stamp p s lp e) = name lp"
  "generation (stamp p s lp e) = lp_generation lp" "event_type (stamp p s lp e) = event_type e"
  by (simp_all add: stamp_def)

lemma is_local_stamp [simp]: "is_local nd (stamp p s lp e) = is_local nd e"
  "known_receiver nd (stamp p s lp e) = known_receiver nd e"
  by (simp_all add: is_local_def known_receiver_def)

lemma sender_fresh_stamp: "sender_fresh p lp (e # es) eset \<Longrightarrow> fresh_event eset (stamp p s lp e)"
  by (fastforce simp: sender_fresh_def fresh_event_def ev_key5_def ev_key_def)

lemma unat_generation_Suc: "unat (g::u64) + Suc n < 2 ^ 64 \<Longrightarrow> unat (g + 1) = Suc (unat g)"
  by (simp add: unat_word_ariths)

lemma sender_fresh_next:
  assumes "sender_fresh p lp (e # es) eset"
    and "\<forall>x\<in>#all_events eset'. x \<in># all_events eset \<or> x = stamp p s lp e"
  shows "sender_fresh (Suc p) (lp\<lparr>lp_generation := lp_generation lp + 1\<rparr>) es eset'"
proof -
  have g: "unat (lp_generation lp + 1) = Suc (unat (lp_generation lp))"
    using assms(1) unat_generation_Suc [of "lp_generation lp" "length es"] by (simp add: sender_fresh_def)
  show ?thesis
    using assms by (fastforce simp: sender_fresh_def g less_Suc_eq)
qed

lemma sender_fresh_skip: "sender_fresh p lp (e # es) eset \<Longrightarrow> sender_fresh p lp es eset"
  by (auto simp: sender_fresh_def)

lemma record_outputs_om: "routed P (nd\<lparr>d_lps := l, d_om := o1, next_ptr := p\<rparr>) S nd' = routed P nd S nd'"
  by (simp add: routed_def same_frame_def is_local_def [abs_def] remote_msg_def [abs_def] my_id_def lp_id_of_def)

lemma sendEvents_ok:
  fixes nd :: "('s, 'g, event list, 'v, 'd) dispatcher"
  assumes "ms_inv P (d_es nd)" and "c_sched cfg = multiset_ops" and "k < length (d_lps nd)"
    and "\<forall>e\<in>set es. known_receiver nd e" and "sender_fresh (next_ptr nd) (d_lps nd ! k) es (d_es nd)"
  shows "\<exists>nd'. sendEvents cfg t source es i k nd = Inr nd' \<and>
    routed P nd (stamped (max_sim_time nd) (next_ptr nd) source (d_lps nd ! k) es) nd' \<and>
    d_om nd' = record_outputs source i (stamped (max_sim_time nd) (next_ptr nd) source (d_lps nd ! k) es) (d_om nd) \<and>
    d_lps nd' = (d_lps nd)[k := (d_lps nd ! k)\<lparr>lp_generation := lp_generation (d_lps nd ! k) +
      of_nat (length (stamped (max_sim_time nd) (next_ptr nd) source (d_lps nd ! k) es))\<rparr>] \<and>
    next_ptr nd' = next_ptr nd + length (stamped (max_sim_time nd) (next_ptr nd) source (d_lps nd ! k) es)"
  using assms
proof (induction es arbitrary: nd)
  case Nil
  then show ?case by (simp add: routed_Nil record_outputs_def)
next
  case (Cons e es)
  let ?lp = "d_lps nd ! k"
  show ?case
  proof (cases "timestamp e \<le> max_sim_time nd")
    case False
    with Cons.IH [OF Cons.prems(1-3) _ sender_fresh_skip [OF Cons.prems(5)]] Cons.prems(4)
    show ?thesis by simp
  next
    case True
    let ?p = "next_ptr nd"
    let ?e = "stamp ?p source ?lp e" and ?lp1 = "?lp\<lparr>lp_generation := lp_generation ?lp + 1\<rparr>"
    let ?nd1 = "nd\<lparr>d_lps := (d_lps nd)[k := ?lp1], d_om := om_insertEvent source ?e i (d_om nd),
      next_ptr := ?p + 1\<rparr>"
    have "known_receiver ?nd1 ?e" "fresh_event (d_es ?nd1) ?e"
      using Cons.prems(4) sender_fresh_stamp [OF Cons.prems(5)]
      by (simp_all add: known_receiver_def is_local_def my_id_def lp_id_of_def)
    then obtain nd2 where nd2: "route cfg t LOCAL_POSITIVE_EVENTS_SENT REMOTE_POSITIVE_EVENTS_SENT ?e ?nd1 = Inr nd2"
      "routed P ?nd1 [?e] nd2" "d_lps nd2 = d_lps ?nd1" "d_om nd2 = d_om ?nd1" "next_ptr nd2 = ?p + 1"
      using route_ok [of P ?nd1 ?e cfg t LOCAL_POSITIVE_EVENTS_SENT REMOTE_POSITIVE_EVENTS_SENT]
        Cons.prems(1,2) True by auto
    have r1: "routed P nd [?e] nd2" using nd2(2) by (simp only: record_outputs_om)
    then have frame: "same_frame nd nd2" by (simp add: routed_def)
    note fs = same_frame_simps [OF frame]
    have "ms_inv P (d_es nd2)" using r1 by (simp add: routed_def)
    moreover have "\<forall>e\<in>set es. known_receiver nd2 e" using Cons.prems(4) by (simp add: fs)
    moreover have "sender_fresh (next_ptr nd2) (d_lps nd2 ! k) es (d_es nd2)"
    proof -
      have "\<forall>x\<in>#all_events (d_es nd2). x \<in># all_events (d_es nd) \<or> x = ?e"
        using r1 by (auto simp: routed_def split: if_splits)
      from sender_fresh_next [OF Cons.prems(5) this] nd2(3,5) Cons.prems(3) show ?thesis by simp
    qed
    ultimately obtain nd' where nd': "sendEvents cfg t source es i k nd2 = Inr nd'"
      "routed P nd2 (stamped (max_sim_time nd) (?p + 1) source ?lp1 es) nd'"
      "d_om nd' = record_outputs source i (stamped (max_sim_time nd) (?p + 1) source ?lp1 es) (d_om nd2)"
      "d_lps nd' = (d_lps nd2)[k := ?lp1\<lparr>lp_generation := lp_generation ?lp1 +
         of_nat (length (stamped (max_sim_time nd) (?p + 1) source ?lp1 es))\<rparr>]"
      "next_ptr nd' = ?p + 1 + length (stamped (max_sim_time nd) (?p + 1) source ?lp1 es)"
      using Cons.IH [of nd2] Cons.prems(2,3) nd2(3,5) fs(4) by auto
    have "routed P nd (stamped (max_sim_time nd) ?p source ?lp (e # es)) nd'"
      using routed_append [OF r1 nd'(2)] True by simp
    moreover have "sendEvents cfg t source (e # es) i k nd = Inr nd'"
      using True nd2(1) nd'(1) by (simp add: Let_def)
    ultimately show ?thesis
      using nd'(3-5) nd2(3-5) True Cons.prems(3)
      by (simp add: record_outputs_def ac_simps)
  qed
qed

section \<open>Cancelling\<close>

fun negatives :: "u32 \<Rightarrow> nat \<Rightarrow> event list \<Rightarrow> event list" where
  "negatives mx p [] = []"
| "negatives mx p (e # es) =
     (if timestamp e \<le> mx then NegativeEvent p e # negatives mx (p + 1) es else negatives mx (p + 1) es)"

text \<open>No anti-message for one of the events is on the node, and \<open>next_ptr\<close> is a new address.\<close>

definition cancel_fresh :: "nat \<Rightarrow> event list \<Rightarrow> event list event_set \<Rightarrow> bool" where
  "cancel_fresh p es eset \<longleftrightarrow> distinct (map ev_key es) \<and>
     (\<forall>x\<in>#all_events eset. ev_ptr x < p \<and> (event_type x = NEGATIVE \<longrightarrow> ev_key x \<notin> ev_key ` set es))"

lemma is_local_negative [simp]: "is_local nd (NegativeEvent p e) = is_local nd e"
  "known_receiver nd (NegativeEvent p e) = known_receiver nd e"
  by (simp_all add: is_local_def known_receiver_def)

lemma cancel_fresh_event: "cancel_fresh p (e # es) eset \<Longrightarrow> fresh_event eset (NegativeEvent p e)"
  by (fastforce simp: cancel_fresh_def fresh_event_def ev_key5_def)

lemma cancel_fresh_next:
  assumes "cancel_fresh p (e # es) eset"
    and "\<forall>x\<in>#all_events eset'. x \<in># all_events eset \<or> x = NegativeEvent p e"
  shows "cancel_fresh (p + 1) es eset'"
  using assms by (fastforce simp: cancel_fresh_def)

lemma routed_next_ptr: "routed P (nd\<lparr>next_ptr := p\<rparr>) S nd' = routed P nd S nd'"
  by (simp add: routed_def same_frame_def is_local_def [abs_def] remote_msg_def [abs_def] my_id_def lp_id_of_def)

lemma cancel_loop_ok:
  fixes nd :: "('s, 'g, event list, 'v, 'd) dispatcher"
  assumes "ms_inv P (d_es nd)" and "c_sched cfg = multiset_ops"
    and "\<forall>e\<in>set es. known_receiver nd e" and "cancel_fresh (next_ptr nd) es (d_es nd)"
  shows "\<exists>nd'. cancel_loop cfg t es nd = Inr nd' \<and>
    routed P nd (negatives (max_sim_time nd) (next_ptr nd) es) nd' \<and>
    d_om nd' = d_om nd \<and> d_lps nd' = d_lps nd \<and> next_ptr nd' = next_ptr nd + length es"
  using assms
proof (induction es arbitrary: nd)
  case Nil
  then show ?case by (simp add: routed_Nil)
next
  case (Cons e es)
  let ?p = "next_ptr nd"
  let ?neg = "NegativeEvent ?p e" and ?nd1 = "nd\<lparr>next_ptr := ?p + 1\<rparr>"
  have known: "\<forall>e\<in>set (e # es). known_receiver ?nd1 e"
    using Cons.prems(3) by (simp add: known_receiver_def is_local_def my_id_def lp_id_of_def)
  show ?case
  proof (cases "timestamp e \<le> max_sim_time nd")
    case False
    have "cancel_fresh (next_ptr ?nd1) es (d_es ?nd1)"
      using cancel_fresh_next [OF Cons.prems(4), of "d_es ?nd1"] by simp
    with Cons.IH [of ?nd1] Cons.prems(1,2) known False show ?thesis
      by (auto simp: Let_def routed_next_ptr)
  next
    case True
    have "known_receiver ?nd1 ?neg" "fresh_event (d_es ?nd1) ?neg"
      using known cancel_fresh_event [OF Cons.prems(4)] by simp_all
    then obtain nd2 where nd2: "route cfg t LOCAL_NEGATIVE_EVENTS_SENT REMOTE_NEGATIVE_EVENTS_SENT ?neg ?nd1 = Inr nd2"
      "routed P ?nd1 [?neg] nd2" "d_lps nd2 = d_lps ?nd1" "d_om nd2 = d_om ?nd1" "next_ptr nd2 = ?p + 1"
      using route_ok [of P ?nd1 ?neg cfg t LOCAL_NEGATIVE_EVENTS_SENT REMOTE_NEGATIVE_EVENTS_SENT]
        Cons.prems(1,2) True by auto
    have r1: "routed P nd [?neg] nd2" using nd2(2) by (simp only: routed_next_ptr)
    then have frame: "same_frame nd nd2" by (simp add: routed_def)
    note fs = same_frame_simps [OF frame]
    have "\<forall>x\<in>#all_events (d_es nd2). x \<in># all_events (d_es nd) \<or> x = ?neg"
      using r1 by (auto simp: routed_def split: if_splits)
    from cancel_fresh_next [OF Cons.prems(4) this]
    have "cancel_fresh (next_ptr nd2) es (d_es nd2)" by (simp add: nd2(5))
    moreover have "ms_inv P (d_es nd2)" using r1 by (simp add: routed_def)
    ultimately obtain nd' where nd': "cancel_loop cfg t es nd2 = Inr nd'"
      "routed P nd2 (negatives (max_sim_time nd) (?p + 1) es) nd'" "d_om nd' = d_om nd" "d_lps nd' = d_lps nd"
      "next_ptr nd' = next_ptr nd2 + length es"
      using Cons.IH [of nd2] Cons.prems(2,3) nd2(3-5) fs by auto
    have "routed P nd (negatives (max_sim_time nd) ?p (e # es)) nd'"
      using routed_append [OF r1 nd'(2)] True by simp
    then show ?thesis using True nd2(1,5) nd' by (simp add: Let_def)
  qed
qed

text \<open>Sending the events that processing an event has produced never fails and puts each event that
  is not past the maximum time, stamped with the sender, the time of the source and the sender's
  next generation, in exactly one place: the input queue of its receiver when that is on this node,
  where the event set stays consistent, or, in order, the messages for the receiver's node, each of
  which is counted for termination. The output queue of the sender records all of them with the
  source; events past the maximum time are dropped.\<close>

theorem sendEvents_delivers:
  fixes nd :: "('s, 'g, event list, 'v, 'd) dispatcher"
  assumes "ms_inv P (d_es nd)" and "c_sched cfg = multiset_ops" and "k < length (d_lps nd)"
    and "\<forall>e\<in>set es. known_receiver nd e" and "sender_fresh (next_ptr nd) (d_lps nd ! k) es (d_es nd)"
  shows "\<exists>nd'. sendEvents cfg t source es i k nd = Inr nd' \<and>
    routed P nd (stamped (max_sim_time nd) (next_ptr nd) source (d_lps nd ! k) es) nd' \<and>
    d_om nd' = record_outputs source i (stamped (max_sim_time nd) (next_ptr nd) source (d_lps nd ! k) es) (d_om nd)"
  using sendEvents_ok [OF assms] by blast

text \<open>Cancelling events never fails and sends, for each event to cancel from the last to the first
  of the list, that is from the earliest to the latest, one anti-message with its key, unless it is
  past the maximum time; the anti-messages are delivered like other events.\<close>

theorem cancelEvents_delivers:
  fixes nd :: "('s, 'g, event list, 'v, 'd) dispatcher"
  assumes "ms_inv P (d_es nd)" and "c_sched cfg = multiset_ops"
    and "\<forall>e\<in>set es. known_receiver nd e" and "cancel_fresh (next_ptr nd) (rev es) (d_es nd)"
  shows "\<exists>nd'. cancelEvents cfg t es nd = Inr nd' \<and>
    routed P nd (negatives (max_sim_time nd) (next_ptr nd) (rev es)) nd' \<and>
    d_om nd' = d_om nd \<and> d_lps nd' = d_lps nd"
  using cancel_loop_ok [of P nd cfg "rev es" t] assms
  by (cases "es = []") (auto simp: cancelEvents_def routed_Nil)

section \<open>Rollback\<close>

lemma getEvents_cong:
  "processed_queue es = processed_queue es' \<Longrightarrow>
   getEventsForCoastForward i s r es = getEventsForCoastForward i s r es'"
  by (simp add: getEventsForCoastForward_def)

text \<open>What a GVT manager does for events that are sent, received and processed leaves GVT alone.\<close>

definition keeps_gvt :: "'v gvt_ops \<Rightarrow> bool" where
  "keeps_gvt ops \<longleftrightarrow>
     (\<forall>e v. gvt_getGVT ops (snd (gvt_sendEventUpdate ops e v)) = gvt_getGVT ops v) \<and>
     (\<forall>e c v. gvt_getGVT ops (gvt_receiveEventUpdate ops e c v) = gvt_getGVT ops v) \<and>
     (\<forall>ts t v. gvt_getGVT ops (gvt_reportThreadSendMin ops ts t v) = gvt_getGVT ops v) \<and>
     (\<forall>ts t f v. gvt_getGVT ops (gvt_reportThreadMin ops ts t f v) = gvt_getGVT ops v)"

abbreviation node_gvt :: "('s, 'g, 'q, 'v, 'd) config \<Rightarrow> ('s, 'g, 'q, 'v, 'd) dispatcher \<Rightarrow> u32" where
  "node_gvt cfg nd \<equiv> gvt_getGVT (c_gvt cfg) (d_gvt nd)"

lemma keeps_gvt_async: "keeps_gvt (async_ops i n)"
  by (auto simp: keeps_gvt_def async_ops_def async_sendEventUpdate_def async_receiveEventUpdate_def
      async_reportThreadSendMin_def async_reportThreadMin_def getGVT_def Let_def split: prod.splits)

lemma node_of_gvt [simp]: "d_gvt (snd (node_of nm nd)) = d_gvt nd"
  by (simp add: node_of_def split: prod.split)

lemma sendLocalEvent_gvt:
  assumes "sendLocalEvent cfg t e nd = Inr nd'" and "keeps_gvt (c_gvt cfg)"
  shows "node_gvt cfg nd' = node_gvt cfg nd"
  using assms by (auto simp: sendLocalEvent_def keeps_gvt_def)

lemma route_gvt:
  assumes "route cfg t a b e nd = Inr nd'" and k: "keeps_gvt (c_gvt cfg)"
  shows "node_gvt cfg nd' = node_gvt cfg nd"
proof -
  obtain n nd1 where n: "node_of (receiverName e) nd = (n, nd1)" by fastforce
  have 1: "d_gvt nd1 = d_gvt nd" using node_of_gvt [of "receiverName e" nd] n by simp
  have 2: "node_gvt cfg (enqueueRemoteEvent cfg t e n nd1) = node_gvt cfg nd1"
    using k by (auto simp: enqueueRemoteEvent_def keeps_gvt_def split: prod.splits) (metis snd_conv)
  show ?thesis
    using assms(1) sendLocalEvent_gvt [OF _ k, of t e nd1] 1 2
    by (auto simp: route_def n split: if_splits)
qed

lemma sendEvents_gvt:
  "sendEvents cfg t source es i k nd = Inr nd' \<Longrightarrow> keeps_gvt (c_gvt cfg) \<Longrightarrow> node_gvt cfg nd' = node_gvt cfg nd"
proof (induction es arbitrary: nd)
  case (Cons e es)
  then show ?case by (fastforce simp: Let_def dest: route_gvt split: if_splits)
qed simp

lemma cancel_loop_gvt:
  "cancel_loop cfg t es nd = Inr nd' \<Longrightarrow> keeps_gvt (c_gvt cfg) \<Longrightarrow> node_gvt cfg nd' = node_gvt cfg nd"
proof (induction es arbitrary: nd)
  case (Cons e es)
  then show ?case by (fastforce simp: Let_def dest: route_gvt split: if_splits)
qed simp

lemma up_pow_frame [simp]:
  "d_es ((up s t ^^ n) nd) = d_es nd" "d_comm ((up s t ^^ n) nd) = d_comm nd"
  "d_lps ((up s t ^^ n) nd) = d_lps nd" "d_om ((up s t ^^ n) nd) = d_om nd" "d_sm ((up s t ^^ n) nd) = d_sm nd"
  "next_ptr ((up s t ^^ n) nd) = next_ptr nd" "d_gvt ((up s t ^^ n) nd) = d_gvt nd"
  "d_tm ((up s t ^^ n) nd) = d_tm nd" "d_fsm ((up s t ^^ n) nd) = d_fsm nd"
  "max_sim_time ((up s t ^^ n) nd) = max_sim_time nd" "lps_by_name ((up s t ^^ n) nd) = lps_by_name nd"
  "local_lp_id_by_name ((up s t ^^ n) nd) = local_lp_id_by_name nd"
  by (induction n) simp_all

lemma local_average_sel [simp]:
  "d_es (local_average cfg t i x c nd) = d_es nd" "d_comm (local_average cfg t i x c nd) = d_comm nd"
  "d_lps (local_average cfg t i x c nd) = d_lps nd" "d_om (local_average cfg t i x c nd) = d_om nd"
  "d_sm (local_average cfg t i x c nd) = d_sm nd" "lps_by_name (local_average cfg t i x c nd) = lps_by_name nd"
  "local_lp_id_by_name (local_average cfg t i x c nd) = local_lp_id_by_name nd"
  "lp_id_of nm (local_average cfg t i x c nd) = lp_id_of nm nd"
  "next_ptr (local_average cfg t i x c nd) = next_ptr nd" "d_gvt (local_average cfg t i x c nd) = d_gvt nd"
  "d_tm (local_average cfg t i x c nd) = d_tm nd" "d_fsm (local_average cfg t i x c nd) = d_fsm nd"
  "max_sim_time (local_average cfg t i x c nd) = max_sim_time nd"
  by (simp_all add: local_average_def lp_id_of_def)

lemma d_coastForward_ok:
  assumes "coastForward (c_lp cfg) r ev (lp_id_of (receiverName r) nd) es lp1 = Inr lp2"
    and "processed_queue (d_es nd) = processed_queue es" and "lps_by_name nd (receiverName r) = Some k"
    and "k < length (d_lps nd)" and "d_lps nd ! k = lp1"
  shows "\<exists>nd'. d_coastForward cfg t r ev nd = Inr nd' \<and> d_lps nd' = (d_lps nd)[k := lp2] \<and>
    d_es nd' = d_es nd \<and> d_om nd' = d_om nd \<and> d_sm nd' = d_sm nd \<and> d_comm nd' = d_comm nd \<and>
    d_gvt nd' = d_gvt nd \<and> d_tm nd' = d_tm nd \<and> d_fsm nd' = d_fsm nd \<and> next_ptr nd' = next_ptr nd \<and>
    max_sim_time nd' = max_sim_time nd \<and> lps_by_name nd' = lps_by_name nd \<and>
    local_lp_id_by_name nd' = local_lp_id_by_name nd"
  using assms getEvents_cong [OF assms(2), of "lp_id_of (receiverName r) nd" r ev]
  by (auto simp: d_coastForward_def lp_of_def coastForward_def Let_def)

text \<open>The LP of the straggler is in process, its parts fit together, and the anti-messages that the
  rollback needs can be sent.\<close>

definition rollback_ready :: "nat set \<Rightarrow> ('s, 'g, event list, 'v, 'd) config \<Rightarrow> event \<Rightarrow> nat \<Rightarrow> nat \<Rightarrow> event set \<Rightarrow>
    's \<times> 'g list \<Rightarrow> ('s, 'g, event list, 'v, 'd) dispatcher \<Rightarrow> bool" where
  "rollback_ready P cfg r i k U sg0 nd \<longleftrightarrow>
     c_sched cfg = multiset_ops \<and> ms_inv P (d_es nd) \<and> i \<in> P \<and> i < num_of_lps (d_es nd) \<and>
     i = lp_id_of (receiverName r) nd \<and> lps_by_name nd (receiverName r) = Some k \<and> k < length (d_lps nd) \<and>
     i < length (state_queue (d_sm nd)) \<and>
     lp_consistent (c_lp cfg) U sg0 (state_queue (d_sm nd) ! i) (processed_queue (d_es nd) ! i)
       (lp_state (d_lps nd ! k), rng_list (d_lps nd ! k)) \<and>
     ev_less (state_event (hd (state_queue (d_sm nd) ! i))) r \<and>
     gvt_getGVT (c_gvt cfg) (d_gvt nd) \<le> timestamp r \<and> om_sorted (output_queue (d_om nd) ! i) \<and>
     (let cancelled = map output_event (filter (\<lambda>x. ev_ge (input_event x) r) (output_queue (d_om nd) ! i))
      in (\<forall>e\<in>set cancelled. known_receiver nd e) \<and> cancel_fresh (next_ptr nd) cancelled (d_es nd))"

lemma routed_cong:
  assumes "routed P nd S nd'" and "d_es nd2 = d_es nd'" "d_comm nd2 = d_comm nd'" "d_tm nd2 = d_tm nd'"
    "d_sm nd2 = d_sm nd'" "d_fsm nd2 = d_fsm nd'" "max_sim_time nd2 = max_sim_time nd'"
    "lps_by_name nd2 = lps_by_name nd'" "local_lp_id_by_name nd2 = local_lp_id_by_name nd'"
  shows "routed P nd S nd2"
  using assms by (simp add: routed_def same_frame_def)

lemma routed_cong_source:
  assumes "routed P nd S nd'" and "d_es nd2 = d_es nd" "d_comm nd2 = d_comm nd" "d_tm nd2 = d_tm nd"
    "d_sm nd2 = d_sm nd" "d_fsm nd2 = d_fsm nd" "max_sim_time nd2 = max_sim_time nd"
    "lps_by_name nd2 = lps_by_name nd" "local_lp_id_by_name nd2 = local_lp_id_by_name nd"
  shows "routed P nd2 S nd'"
  using assms
  by (simp add: routed_def same_frame_def is_local_def [abs_def] remote_msg_def [abs_def] my_id_def lp_id_of_def)

lemma d_rollback_ok:
  fixes nd :: "('s, 'g, event list, 'v, 'd) dispatcher"
  assumes ready: "rollback_ready P cfg r i k U sg0 nd"
    and laws: "rng_law (c_lp cfg)" "rng_count_law (c_lp cfg)"
  shows "\<exists>nd' ev lp1 sm' lp2. d_rollback cfg t r nd = Inr nd' \<and>
    restoreState (c_lp cfg) r i (d_lps nd ! k) (d_sm nd) = Inr (ev, lp1, sm') \<and>
    coastForward (c_lp cfg) r ev i (rollback i r (d_es nd)) lp1 = Inr lp2 \<and>
    d_lps nd' = (d_lps nd)[k := lp2] \<and> d_om nd' = snd (om_rollback r i (d_om nd)) \<and>
    (keeps_gvt (c_gvt cfg) \<longrightarrow> node_gvt cfg nd' = node_gvt cfg nd) \<and>
    next_ptr nd' = next_ptr nd +
      length (filter (\<lambda>x. ev_ge (input_event x) r) (output_queue (d_om nd) ! i)) \<and>
    routed P (nd\<lparr>d_es := rollback i r (d_es nd), d_sm := sm', d_fsm := fsm_rollback r i (d_fsm nd)\<rparr>)
      (negatives (max_sim_time nd) (next_ptr nd)
        (map output_event (filter (\<lambda>x. ev_ge (input_event x) r) (output_queue (d_om nd) ! i)))) nd'"
proof -
  let ?cancel = "map output_event (filter (\<lambda>x. ev_ge (input_event x) r) (output_queue (d_om nd) ! i))"
  let ?es = "rollback i r (d_es nd)"
  let ?s = "if event_type r = POSITIVE then PRIMARY_ROLLBACKS else SECONDARY_ROLLBACKS"
  have rdy: "c_sched cfg = multiset_ops" "ms_inv P (d_es nd)" "i \<in> P" "i < num_of_lps (d_es nd)"
    "i = lp_id_of (receiverName r) nd" "lps_by_name nd (receiverName r) = Some k" "k < length (d_lps nd)"
    "i < length (state_queue (d_sm nd))"
    "lp_consistent (c_lp cfg) U sg0 (state_queue (d_sm nd) ! i) (processed_queue (d_es nd) ! i)
       (lp_state (d_lps nd ! k), rng_list (d_lps nd ! k))"
    "ev_less (state_event (hd (state_queue (d_sm nd) ! i))) r"
    "gvt_getGVT (c_gvt cfg) (d_gvt nd) \<le> timestamp r" "om_sorted (output_queue (d_om nd) ! i)"
    "\<forall>e\<in>set ?cancel. known_receiver nd e" "cancel_fresh (next_ptr nd) ?cancel (d_es nd)"
    using ready unfolding rollback_ready_def Let_def by blast+
  have len: "i < length (processed_queue (d_es nd))" "i < length (input_queue (d_es nd))"
    using rdy(2,4) by (auto simp: es_inv_def es_shape_def)
  obtain ev lp1 sm' lp2 where rec: "restoreState (c_lp cfg) r i (d_lps nd ! k) (d_sm nd) = Inr (ev, lp1, sm')"
    "ev_less ev r" "coastForward (c_lp cfg) r ev i ?es lp1 = Inr lp2"
    using recovery [OF rdy(9) laws rdy(8) len rdy(10)] by blast
  have es: "ms_inv P ?es" "all_events ?es = all_events (d_es nd)"
    using rollback_ok [OF rdy(2,4,3)] by simp_all
  obtain ec om' where om: "om_rollback r i (d_om nd) = (ec, om')" by fastforce
  then have ec: "ec = rev ?cancel"
    using remove_loop_sorted [OF rdy(12)] by (simp add: om_rollback_def removeEventsSentAfter_def)
  let ?nd2 = "(up ?s t nd)\<lparr>d_fsm := fsm_rollback r i (d_fsm nd)\<rparr>"
  define nd4 where "nd4 = ?nd2\<lparr>d_es := ?es, d_lps := (d_lps nd)[k := lp1], d_sm := sm', d_om := om'\<rparr>"
  have sel: "d_es nd4 = ?es" "d_lps nd4 = (d_lps nd)[k := lp1]" "d_sm nd4 = sm'" "d_om nd4 = om'"
    "next_ptr nd4 = next_ptr nd" "max_sim_time nd4 = max_sim_time nd" "lps_by_name nd4 = lps_by_name nd"
    "local_lp_id_by_name nd4 = local_lp_id_by_name nd" "d_comm nd4 = d_comm nd"
    "d_gvt nd4 = d_gvt nd" "d_tm nd4 = d_tm nd" "d_fsm nd4 = fsm_rollback r i (d_fsm nd)"
    by (simp_all add: nd4_def)
  have same: "is_local nd4 = is_local nd" "known_receiver nd4 = known_receiver nd"
    using rollback_frame(1) [of "d_es nd" i r]
    by (auto simp: fun_eq_iff is_local_def known_receiver_def my_id_def lp_id_of_def same_config_def sel)
  have "cancel_fresh (next_ptr nd4) (rev ec) (d_es nd4)" "\<forall>e\<in>set (rev ec). known_receiver nd4 e"
    using rdy(13,14) es(2) unfolding cancel_fresh_def ec same sel rev_rev_ident by simp_all
  then obtain nd5 where nd5: "cancel_loop cfg t (rev ec) nd4 = Inr nd5"
    "routed P nd4 (negatives (max_sim_time nd) (next_ptr nd) (rev ec)) nd5"
    "d_om nd5 = om'" "d_lps nd5 = (d_lps nd)[k := lp1]" "next_ptr nd5 = next_ptr nd + length (rev ec)"
    using cancel_loop_ok [of P nd4 cfg "rev ec" t] rdy(1) es(1) unfolding sel by blast
  have cancel: "cancelEvents cfg t ec nd4 = Inr nd5"
    using nd5(1) by (auto simp: cancelEvents_def)
  have "same_frame nd4 nd5" using nd5(2) by (simp add: routed_def)
  then have f5: "processed_queue (d_es nd5) = processed_queue ?es" "d_sm nd5 = sm'"
    "lps_by_name nd5 (receiverName r) = Some k" "lp_id_of (receiverName r) nd5 = i"
    using rdy(5,6) unfolding same_frame_def sel lp_id_of_def by metis+
  let ?c = "ucast (getLocal PRIMARY_ROLLBACKS t (d_stats nd5) + getLocal SECONDARY_ROLLBACKS t (d_stats nd5))"
  let ?nd6 = "local_average cfg t ROLLBACK_TIME (c_rollback_secs cfg r) ?c nd5"
  obtain nd7 where nd7: "d_coastForward cfg t r ev ?nd6 = Inr nd7" "d_lps nd7 = (d_lps nd5)[k := lp2]"
    "d_es nd7 = d_es nd5" "d_om nd7 = d_om nd5" "d_sm nd7 = d_sm nd5" "d_comm nd7 = d_comm nd5"
    "d_gvt nd7 = d_gvt nd5" "d_tm nd7 = d_tm nd5" "d_fsm nd7 = d_fsm nd5" "next_ptr nd7 = next_ptr nd5"
    "max_sim_time nd7 = max_sim_time nd5" "lps_by_name nd7 = lps_by_name nd5"
    "local_lp_id_by_name nd7 = local_lp_id_by_name nd5"
    using d_coastForward_ok [of cfg r ev ?nd6 ?es lp1 lp2 k t] rec(3) f5 nd5(4) rdy(7) by auto
  define nd' where "nd' = local_average cfg t RECOVERY_TIME (c_recovery_secs cfg r) ?c nd7"
  have nd': "d_lps nd' = (d_lps nd)[k := lp2]" "d_om nd' = om'" "d_gvt nd' = d_gvt nd5"
    "next_ptr nd' = next_ptr nd + length ?cancel"
    using nd7 nd5(3-5) ec by (simp_all add: nd'_def)
  have run: "d_rollback cfg t r nd = Inr nd'"
    using rec(1,2) om cancel nd7(1) nd'_def rdy(11)
    unfolding d_rollback_def lp_of_def Let_def rdy(5) [symmetric] rdy(6) nd4_def by simp
  have "routed P nd4 (negatives (max_sim_time nd) (next_ptr nd) ?cancel) nd5"
    using nd5(2) ec by simp
  then have "routed P nd4 (negatives (max_sim_time nd) (next_ptr nd) ?cancel) nd'"
    by (rule routed_cong) (simp_all add: nd'_def nd7)
  then have "routed P (nd\<lparr>d_es := ?es, d_sm := sm', d_fsm := fsm_rollback r i (d_fsm nd)\<rparr>)
      (negatives (max_sim_time nd) (next_ptr nd) ?cancel) nd'"
    by (rule routed_cong_source) (simp_all add: sel)
  moreover have "keeps_gvt (c_gvt cfg) \<longrightarrow> node_gvt cfg nd' = node_gvt cfg nd"
    using cancel_loop_gvt [OF nd5(1)] by (simp add: nd'(3) sel)
  ultimately show ?thesis
    using run rec(1,3) nd' om by (intro exI [of _ nd'] exI [of _ ev] exI [of _ lp1] exI [of _ sm'] exI [of _ lp2]) simp
qed

text \<open>C12: A rollback of the dispatcher does all its parts together, and no assertion fails: the processed
  queue keeps the events before the straggler and no event of the node is lost, the output queue keeps the
  entries before the straggler, and for every other entry that is not past the maximum time there is one
  anti-message, in the order of the entries: those for LPs of this node are put into the event set, which
  stays consistent, and those for other nodes are queued, in order, as messages to the node of their
  receiver. If no earlier rollback has moved the state out of the saved state that is restored
  (\<open>U\<close> has the saved states that this has happened to), the state of the LP becomes the one that the remaining
  processed events produce; otherwise there is no state left to restore.\<close>

theorem d_rollback_recovers:
  fixes nd :: "('s, 'g, event list, 'v, 'd) dispatcher"
  assumes ready: "rollback_ready P cfg r i k U sg0 nd"
    and laws: "rng_law (c_lp cfg)" "rng_count_law (c_lp cfg)"
  defines "S \<equiv> negatives (max_sim_time nd) (next_ptr nd)
      (map output_event (filter (\<lambda>x. ev_ge (input_event x) r) (output_queue (d_om nd) ! i)))"
    and "x \<equiv> restored_from r (state_queue (d_sm nd) ! i)"
  shows "\<exists>nd'. d_rollback cfg t r nd = Inr nd' \<and> ms_inv P (d_es nd') \<and>
    processed_queue (d_es nd') ! i = filter (\<lambda>e. ev_less e r) (processed_queue (d_es nd) ! i) \<and>
    (state_event x \<notin> U \<longrightarrow>
      lp_consistent (c_lp cfg) (spend (c_lp cfg) x U) sg0 (state_queue (d_sm nd') ! i) (processed_queue (d_es nd') ! i)
        (lp_state (d_lps nd' ! k), rng_list (d_lps nd' ! k))) \<and>
    output_queue (d_om nd') = (output_queue (d_om nd))[i :=
      filter (\<lambda>x. ev_less (input_event x) r) (output_queue (d_om nd) ! i)] \<and>
    all_events (d_es nd') = all_events (d_es nd) + mset (filter (is_local nd) S) \<and>
    (\<exists>ms. send_msg_list (d_comm nd') = send_msg_list (d_comm nd) @ ms \<and>
      list_all2 (remote_msg nd) (filter (\<lambda>e. \<not> is_local nd e) S) ms)"
proof -
  let ?es = "rollback i r (d_es nd)"
  have rdy: "ms_inv P (d_es nd)" "i \<in> P" "i < num_of_lps (d_es nd)" "i < length (state_queue (d_sm nd))"
    "lp_consistent (c_lp cfg) U sg0 (state_queue (d_sm nd) ! i) (processed_queue (d_es nd) ! i)
       (lp_state (d_lps nd ! k), rng_list (d_lps nd ! k))"
    "ev_less (state_event (hd (state_queue (d_sm nd) ! i))) r" "k < length (d_lps nd)" "om_sorted (output_queue (d_om nd) ! i)"
    using ready unfolding rollback_ready_def Let_def by blast+
  note shape = es_inv_shapeD [OF rdy(1,3)]
  have pq: "processed_queue ?es ! i = filter (\<lambda>e. ev_less e r) (processed_queue (d_es nd) ! i)"
    using rdy(5) by (intro rollback_queues(1)) (simp_all add: lp_consistent_def shape)
  obtain nd' ev lp1 sm' lp2 where nd': "d_rollback cfg t r nd = Inr nd'"
    "restoreState (c_lp cfg) r i (d_lps nd ! k) (d_sm nd) = Inr (ev, lp1, sm')"
    "coastForward (c_lp cfg) r ev i ?es lp1 = Inr lp2"
    "d_lps nd' = (d_lps nd)[k := lp2]" "d_om nd' = snd (om_rollback r i (d_om nd))"
    "routed P (nd\<lparr>d_es := ?es, d_sm := sm', d_fsm := fsm_rollback r i (d_fsm nd)\<rparr>) S nd'"
    using d_rollback_ok [OF ready laws, of t] unfolding S_def by blast
  moreover have "output_queue (snd (om_rollback r i (d_om nd))) = (output_queue (d_om nd))[i :=
      filter (\<lambda>x. ev_less (input_event x) r) (output_queue (d_om nd) ! i)]"
    using rdy(8) by (simp add: om_rollback_def removeEventsSentAfter_def remove_loop_sorted)
  moreover have "lp_consistent (c_lp cfg) (spend (c_lp cfg) x U) sg0 (state_queue sm' ! i) (processed_queue ?es ! i)
      (lp_state lp2, rng_list lp2)" if "state_event x \<notin> U"
    using recovery [OF rdy(5) laws rdy(4) shape(3,2) rdy(6)] nd'(2,3) pq that unfolding x_def by auto
  moreover have "all_events ?es = all_events (d_es nd)" using rollback_ok [OF rdy(1,3,2)] by simp
  moreover have "is_local (nd\<lparr>d_es := ?es, d_sm := sm', d_fsm := fsm_rollback r i (d_fsm nd)\<rparr>) = is_local nd"
    "remote_msg (nd\<lparr>d_es := ?es, d_sm := sm', d_fsm := fsm_rollback r i (d_fsm nd)\<rparr>) = remote_msg nd"
    by (simp_all add: fun_eq_iff is_local_def remote_msg_def my_id_def)
  ultimately show ?thesis
    using pq rdy(7) by (intro exI [of _ nd']) (auto simp: routed_def same_frame_def)
qed

section \<open>Sample node\<close>

definition sample_cfg :: "(nat, string, event list, async_gvt, unit) config" where
  "sample_cfg = \<lparr>c_sched = multiset_ops, c_gvt = async_ops 0 1, c_lp = sample_ops_moved, c_dbl = unit_ops,
     c_rollback_secs = (\<lambda>_. ()), c_recovery_secs = (\<lambda>_. ())\<rparr>"

definition sample_out :: event where
  "sample_out = sample_event 9 POSITIVE 30 7"

text \<open>The one LP has processed the event at 10, which sent \<open>sample_out\<close>, and is processing another.\<close>

definition sample_disp :: "(nat, string, event list, async_gvt, unit) dispatcher" where
  "sample_disp = \<lparr>max_sim_time = 100, d_num_workers = 1, d_migration = False,
     lps_by_name = [''lp'' \<mapsto> 0], local_lp_id_by_name = [''lp'' \<mapsto> 0], d_lps = [run_lp sample_run2],
     d_comm = initializeLPMap [[''lp'']] (snd (comm_initialize 1 0 (comm_new 100 1))),
     d_es = sample_es2, d_gvt = async_initialize 0 (async_new 100 1 0), d_sm = run_sm sample_run2,
     d_om = om_insertEvent (sample_event 1 POSITIVE 10 1) sample_out 0 (om_initialize 1),
     d_fsm = fsm_initialize 1 fsm_new, d_tm = tm_initialize 0 1 tm_new,
     d_stats = \<lparr>local_stats = replicate 2 \<lparr>counts = (\<lambda>_. 0), doubles = (\<lambda>_. ())\<rparr>,
       global_stats = \<lparr>counts = (\<lambda>_. 0), doubles = (\<lambda>_. ())\<rparr>, st_num_threads = 1\<rparr>,
     d_cp = NullCheckpointManager, first_rejuvenation = 0, rejuvenation_interval = 0, rejuvenation_ms = 0,
     oneshot_rejuvenation = False, thread_started = [0, 0], last_rejuvenation = [0, 0], next_ptr = 10\<rparr>"

lemma sample_known: "receiverName e = ''lp'' \<Longrightarrow> known_receiver sample_disp e \<and> is_local sample_disp e"
  by (simp add: known_receiver_def is_local_def my_id_def lp_id_of_def sample_disp_def comm_initialize_def
      comm_new_def initializeLPMap_def sample_es2_def sample_es0_def)

lemma sample_all: "all_events sample_es2 = {#sample_event 1 POSITIVE 10 1, sample_event 2 POSITIVE 20 2#}"
  by (simp add: all_events_def sample_es2_def sample_es0_def)

lemma sample_out_sel [simp]: "receiverName sample_out = ''lp''" "timestamp sample_out = 30"
  by (simp_all add: sample_out_def)

lemma sample_disp_sel:
  "d_es sample_disp = sample_es2" "next_ptr sample_disp = 10" "max_sim_time sample_disp = 100"
  "d_lps sample_disp = [run_lp sample_run2]" "d_sm sample_disp = run_sm sample_run2"
  "lps_by_name sample_disp = [''lp'' \<mapsto> 0]" "local_lp_id_by_name sample_disp = [''lp'' \<mapsto> 0]"
  "gVT (d_gvt sample_disp) = 0"
  "output_queue (d_om sample_disp) ! 0 = [\<lparr>input_event = sample_event 1 POSITIVE 10 1, output_event = sample_out\<rparr>]"
  by (simp_all add: sample_disp_def om_insertEvent_def om_initialize_def async_initialize_def async_new_def
      gvt_initialize_def resetLocalState_def Let_def)

lemma sample_cancel_fresh: "cancel_fresh 10 [sample_out] sample_es2"
  by (simp add: cancel_fresh_def sample_all)

text \<open>The LP sends two events, one of them past the maximum time.\<close>

theorem sendEvents_delivers_witness:
  "\<exists>nd'. sendEvents sample_cfg 0 (sample_event 2 POSITIVE 20 2)
       [sample_event 10 POSITIVE 50 0, sample_event 11 POSITIVE 200 0] 0 0
       (sample_disp\<lparr>d_lps := [sample_lp\<lparr>lp_generation := 3\<rparr>]\<rparr>) = Inr nd' \<and>
     size (all_events (d_es nd')) = 3"
proof -
  let ?es = "[sample_event 10 POSITIVE 50 0, sample_event 11 POSITIVE 200 0]"
  let ?nd = "sample_disp\<lparr>d_lps := [sample_lp\<lparr>lp_generation := 3\<rparr>]\<rparr>"
  have es: "d_es ?nd = sample_es2" "max_sim_time ?nd = 100" "d_lps ?nd = [sample_lp\<lparr>lp_generation := 3\<rparr>]" "next_ptr ?nd = 10"
    by (simp_all add: sample_disp_def)
  have known: "\<forall>e\<in>set ?es. known_receiver ?nd e"
    using sample_known [of "sample_event 10 POSITIVE 50 0"] sample_known [of "sample_event 11 POSITIVE 200 0"]
    by (simp add: known_receiver_def is_local_def my_id_def lp_id_of_def)
  have "sender_fresh (next_ptr ?nd) (d_lps ?nd ! 0) ?es (d_es ?nd)"
    by (simp add: es sender_fresh_def sample_all sample_event_def)
  with sendEvents_delivers [of "{0}" ?nd sample_cfg 0 ?es 0 "sample_event 2 POSITIVE 20 2" 0] known sample_es2_inv
  obtain nd' where nd': "sendEvents sample_cfg 0 (sample_event 2 POSITIVE 20 2) ?es 0 0 ?nd = Inr nd'"
    "routed {0} ?nd (stamped 100 10 (sample_event 2 POSITIVE 20 2) (sample_lp\<lparr>lp_generation := 3\<rparr>) ?es) nd'"
    by (auto simp: es sample_cfg_def)
  have "is_local ?nd (stamp 10 (sample_event 2 POSITIVE 20 2) (sample_lp\<lparr>lp_generation := 3\<rparr>) (sample_event 10 POSITIVE 50 0))"
    using sample_known [of "sample_event 10 POSITIVE 50 0"] by (simp add: is_local_def my_id_def)
  with nd'(2) have "size (all_events (d_es nd')) = 3"
    by (simp add: routed_def es sample_all)
  with nd'(1) show ?thesis by blast
qed

theorem cancelEvents_delivers_witness:
  "\<exists>nd'. cancelEvents sample_cfg 0 [sample_out] sample_disp = Inr nd' \<and>
     NegativeEvent 10 sample_out \<in># all_events (d_es nd')"
proof -
  have "cancel_fresh (next_ptr sample_disp) (rev [sample_out]) (d_es sample_disp)"
    by (simp add: cancel_fresh_def sample_disp_def sample_all)
  with cancelEvents_delivers [of "{0}" sample_disp sample_cfg "[sample_out]" 0] sample_known [of sample_out]
    sample_es2_inv
  obtain nd' where nd': "cancelEvents sample_cfg 0 [sample_out] sample_disp = Inr nd'"
    "routed {0} sample_disp (negatives (max_sim_time sample_disp) (next_ptr sample_disp) [sample_out]) nd'"
    by (auto simp: sample_disp_def sample_cfg_def)
  have "next_ptr sample_disp = 10" "max_sim_time sample_disp = 100" by (simp_all add: sample_disp_def)
  with nd' sample_known [of sample_out] show ?thesis by (auto simp: routed_def)
qed

theorem d_rollback_recovers_witness:
  "\<exists>nd'. d_rollback sample_cfg 0 (sample_event 3 NEGATIVE 10 1) sample_disp = Inr nd' \<and>
     processed_queue (d_es nd') ! 0 = [] \<and> NegativeEvent 10 sample_out \<in># all_events (d_es nd')"
proof -
  let ?r = "sample_event 3 NEGATIVE 10 1"
  note D = run_okD [OF sample_run_ok]
  obtain sg0 where cons: "lp_consistent sample_ops_moved {} sg0 (state_queue (d_sm sample_disp) ! 0)
      (processed_queue (d_es sample_disp) ! 0) (lp_state (d_lps sample_disp ! 0), rng_list (d_lps sample_disp ! 0))"
    using D(4) by (auto simp: sample_disp_def sample_run_def sample_run2_def sample_es2_def Let_def)
  have past: "past_gvt sample_run2 ?r"
    by (simp add: past_gvt_def sample_run2_def sample_run_def Let_def ev_less_key ev_key_def InitialEvent_def
        sample_event_def)
  have ge: "ev_ge (sample_event 1 POSITIVE 10 1) ?r" by (simp add: ev_ge_key)
  have es: "num_of_lps sample_es2 = 1" by (simp add: sample_es2_def sample_es0_def)
  have "rollback_ready {0} sample_cfg ?r 0 0 {} sg0 sample_disp"
    unfolding rollback_ready_def sample_disp_sel Let_def
    using cons sample_es2_inv D(1,8) past sample_known [of sample_out] ge es sample_cancel_fresh
    by (simp add: sample_disp_sel sample_cfg_def lp_id_of_def om_sorted_def async_ops_def getGVT_def)
  from d_rollback_recovers [OF this, of 0] sample_laws
  obtain nd' where "d_rollback sample_cfg 0 ?r sample_disp = Inr nd'"
    "processed_queue (d_es nd') ! 0 = filter (\<lambda>e. ev_less e ?r) (processed_queue (d_es sample_disp) ! 0)"
    "all_events (d_es nd') = all_events (d_es sample_disp) + mset (filter (is_local sample_disp)
       (negatives (max_sim_time sample_disp) (next_ptr sample_disp)
         (map output_event (filter (\<lambda>x. ev_ge (input_event x) ?r) (output_queue (d_om sample_disp) ! 0)))))"
    by (auto simp: sample_cfg_def)
  moreover have "filter (\<lambda>e. ev_less e ?r) (processed_queue (d_es sample_disp) ! 0) = []"
    by (simp add: sample_disp_def sample_es2_def sample_es0_def ev_less_key)
  ultimately show ?thesis using ge sample_known [of sample_out] by (auto simp: sample_disp_sel)
qed

end
