(* ===== verification/LTSF_Queue.thy ===== *)
theory LTSF_Queue
  imports Stl_Ordered
begin

text \<open>
  The queue of the sequential simulation (\<open>src/src/LTSFQueue.hpp\<close>, \<open>STLLTSFQueue.*\<close>): a
  \<open>std::priority_queue\<close> of events with the comparator \<open>!(*lhs <= *rhs)\<close>, as a list with the top first.
  The contract of the interface, \<open>LTSFQueue\<close>, is the locale \<open>ltsf\<close>: what is pushed stays in the queue
  until it is popped, and the popped event is a least one.
\<close>

section \<open>STLLTSFQueue\<close>

definition stl_new :: "event list" where
  "stl_new = []"

definition stl_empty :: "event list \<Rightarrow> bool" where
  "stl_empty q \<longleftrightarrow> q = []"

definition stl_size :: "event list \<Rightarrow> nat" where
  "stl_size q = length q"

fun stl_peek :: "event list \<Rightarrow> event option" where
  "stl_peek [] = None"
| "stl_peek (e # q) = Some e"

fun stl_pop :: "event list \<Rightarrow> event option \<times> event list" where
  "stl_pop [] = (None, [])"
| "stl_pop (e # q) = (Some e, q)"

definition stl_push :: "event \<Rightarrow> event list \<Rightarrow> event list" where
  "stl_push e q = ms_insert (\<lambda>x y. queue_comp y x) e q"

definition stl_push_all :: "event list \<Rightarrow> event list \<Rightarrow> event list" where
  "stl_push_all es q = fold stl_push es q"

section \<open>The contract\<close>

locale ltsf =
  fixes new :: 'q and push :: "event \<Rightarrow> 'q \<Rightarrow> 'q" and pop :: "'q \<Rightarrow> event option \<times> 'q"
    and content :: "'q \<Rightarrow> event multiset" and inv :: "'q \<Rightarrow> bool"
  assumes inv_new: "inv new" and content_new: "content new = {#}"
    and inv_push: "inv q \<Longrightarrow> inv (push e q)"
    and content_push: "inv q \<Longrightarrow> content (push e q) = add_mset e (content q)"
    and pop_empty: "inv q \<Longrightarrow> content q = {#} \<Longrightarrow> pop q = (None, q)"
    and pop_least: "inv q \<Longrightarrow> content q \<noteq> {#} \<Longrightarrow> \<exists>e q'. pop q = (Some e, q') \<and> inv q' \<and>
      content q = add_mset e (content q') \<and> (\<forall>x\<in>#content q. \<not> ev_less x e)"
begin

lemma inv_push_all: "inv q \<Longrightarrow> inv (fold push es q)"
  by (induction es arbitrary: q) (simp_all add: inv_push)

lemma content_push_all: "inv q \<Longrightarrow> content (fold push es q) = mset es + content q"
  by (induction es arbitrary: q) (simp_all add: inv_push content_push)

lemma pop_None_iff: "inv q \<Longrightarrow> fst (pop q) = None \<longleftrightarrow> content q = {#}"
  using pop_empty [of q] pop_least [of q] by (cases "content q = {#}") auto

lemma pop_SomeD:
  assumes "inv q" and "pop q = (Some e, q')"
  shows "inv q'" "content q = add_mset e (content q')" "x \<in># content q \<Longrightarrow> \<not> ev_less x e"
proof -
  have "content q \<noteq> {#}" using assms pop_None_iff [of q] by auto
  from pop_least [OF assms(1) this] assms(2)
  show "inv q'" "content q = add_mset e (content q')" "x \<in># content q \<Longrightarrow> \<not> ev_less x e" by auto
qed

text \<open>Events pushed later than the pop of \<open>e\<close> and not before it in time do not come out before it.\<close>

lemma pop_push_least:
  assumes "inv q" "pop q = (Some e, q')" "\<forall>x\<in>set es. timestamp e \<le> timestamp x"
    and "pop (fold push es q') = (Some e2, q2)"
  shows "timestamp e \<le> timestamp e2"
proof -
  have "e2 \<in># content (fold push es q')"
    using pop_SomeD(2) [OF inv_push_all [OF pop_SomeD(1) [OF assms(1,2)]] assms(4)] by simp
  then have "e2 \<in> set es \<or> e2 \<in># content q'"
    by (simp add: content_push_all [OF pop_SomeD(1) [OF assms(1,2)]])
  moreover have "timestamp e \<le> timestamp e2" if "e2 \<in># content q'"
  proof (rule ccontr)
    assume "\<not> timestamp e \<le> timestamp e2"
    then have "timestamp e2 < timestamp e" by simp
    then have "ev_less e2 e" unfolding ev_less_def by (simp only: if_True)
    with pop_SomeD(2,3) [OF assms(1,2)] that show False by simp
  qed
  ultimately show ?thesis using assms(3) by auto
qed

end

abbreviation stl_inv :: "event list \<Rightarrow> bool" where
  "stl_inv \<equiv> ms_sorted (\<lambda>x y. queue_comp y x)"

interpretation lq: ltsf stl_new stl_push stl_pop mset stl_inv
proof unfold_locales
  fix q :: "event list"
  assume q: "stl_inv q" "mset q \<noteq> {#}"
  then obtain e q' where "q = e # q'" by (cases q) auto
  with q(1) show "\<exists>e q'. stl_pop q = (Some e, q') \<and> stl_inv q' \<and> mset q = add_mset e (mset q') \<and>
      (\<forall>x\<in>#mset q. \<not> ev_less x e)"
    by (auto simp: ms_sorted_Cons queue_comp_key ev_less_key)
qed (auto simp: stl_new_def stl_push_def pq.sorted_insert)

lemma stl_size_content: "stl_size q = size (mset q)" and stl_empty_content: "stl_empty q \<longleftrightarrow> mset q = {#}"
  by (simp_all add: stl_size_def stl_empty_def)

lemma stl_push_all_fold: "stl_push_all es = fold stl_push es"
  by (simp add: stl_push_all_def fun_eq_iff)

end
