(* ===== verification/Event_Statistics.thy ===== *)
theory Event_Statistics
  imports Warped_Event Text_IO
begin

text \<open>
  Statistics of the events that a sequential simulation sends (\<open>src/src/EventStatistics.*\<close>,
  \<open>AggregateEventStatistics.*\<close>, \<open>IndividualEventStatistics.*\<close>, \<open>NullEventStatistics.hpp\<close>): the counts
  of events along the edges of the graph of LPs, written for Graphviz or for METIS, or the list of
  all events, written as CSV. A \<open>std::map\<close> is an association list sorted by key, which is the order
  in which the code iterates over it. JSON output (a library) is left out.
\<close>

section \<open>std::map\<close>

text \<open>\<open>m[k] = f(m[k])\<close>, where \<open>m[k]\<close> starts as \<open>d\<close>.\<close>

fun sm_update :: "'k::linorder \<Rightarrow> ('v \<Rightarrow> 'v) \<Rightarrow> 'v \<Rightarrow> ('k \<times> 'v) list \<Rightarrow> ('k \<times> 'v) list" where
  "sm_update k f d [] = [(k, f d)]"
| "sm_update k f d ((k', v) # xs) =
     (if k < k' then (k, f d) # (k', v) # xs
      else if k = k' then (k', f v) # xs else (k', v) # sm_update k f d xs)"

definition sm_put :: "'k::linorder \<Rightarrow> 'v \<Rightarrow> ('k \<times> 'v) list \<Rightarrow> ('k \<times> 'v) list" where
  "sm_put k v = sm_update k (\<lambda>_. v) v"

definition sm_ok :: "('k::linorder \<times> 'v) list \<Rightarrow> bool" where
  "sm_ok xs \<longleftrightarrow> sorted_wrt (<) (map fst xs)"

lemma sm_ok_Nil [simp]: "sm_ok []"
  by (simp add: sm_ok_def)

lemma sm_update_keys [simp]: "fst ` set (sm_update k f d xs) = insert k (fst ` set xs)"
proof (induction xs)
  case (Cons x xs)
  then show ?case by (cases x) (simp add: insert_commute)
qed simp

lemma sm_update_ok: "sm_ok xs \<Longrightarrow> sm_ok (sm_update k f d xs)"
proof (induction xs)
  case (Cons x xs)
  obtain k' v where x: "x = (k', v)" by (cases x)
  have keys: "set (map fst (sm_update k f d xs)) = insert k (set (map fst xs))"
    using sm_update_keys [of k f d xs] by simp
  show ?case
    using Cons keys unfolding x sm_ok_def by (auto simp del: set_map)
qed (simp add: sm_ok_def)

lemma map_of_sm_update:
  "sm_ok xs \<Longrightarrow> map_of (sm_update k f d xs) =
     (map_of xs)(k \<mapsto> f (case map_of xs k of None \<Rightarrow> d | Some v \<Rightarrow> v))"
proof (induction xs)
  case (Cons x xs)
  obtain k' v where x: "x = (k', v)" by (cases x)
  have "map_of xs k = None" if "k < k'"
    using Cons.prems that by (auto simp: sm_ok_def x map_of_eq_None_iff)
  then show ?case using Cons by (auto simp: x sm_ok_def fun_eq_iff)
qed simp

lemma sm_put_ok [simp]: "sm_ok xs \<Longrightarrow> sm_ok (sm_put k v xs)"
  by (simp add: sm_put_def sm_update_ok)

lemma map_of_sm_put [simp]: "sm_ok xs \<Longrightarrow> map_of (sm_put k v xs) = (map_of xs)(k \<mapsto> v)"
  by (simp add: sm_put_def map_of_sm_update)

lemma sm_ok_distinct: "sm_ok xs \<Longrightarrow> distinct (map fst xs)"
  by (simp add: sm_ok_def strict_sorted_iff)

lemma sm_ok_mem: "sm_ok xs \<Longrightarrow> (k, v) \<in> set xs \<longleftrightarrow> map_of xs k = Some v"
  using sm_ok_distinct by (metis map_of_eq_Some_iff)

section \<open>Aggregate statistics\<close>

datatype agg_output_type = Graphviz | Metis

record agg_stats =
  agg_output :: agg_output_type
  edge_stats :: "((string \<times> string) \<times> u32) list"

definition agg_new :: "agg_output_type \<Rightarrow> agg_stats" where
  "agg_new t = \<lparr>agg_output = t, edge_stats = []\<rparr>"

definition makeEdge :: "string \<Rightarrow> string \<Rightarrow> string \<times> string" where
  "makeEdge a b = (if a \<le> b then (a, b) else (b, a))"

definition agg_record :: "string \<Rightarrow> u32 \<Rightarrow> event \<Rightarrow> agg_stats \<Rightarrow> agg_stats" where
  "agg_record source sent e st =
     st\<lparr>edge_stats := sm_update (makeEdge source (receiverName e)) (\<lambda>n. n + 1) 0 (edge_stats st)\<rparr>"

definition getStat :: "string \<times> string \<Rightarrow> agg_stats \<Rightarrow> u32 res" where
  "getStat edge st =
     (case map_of (edge_stats st) edge of None \<Rightarrow> Inl Out_Of_Range | Some n \<Rightarrow> Inr n)"

definition quote :: char where
  "quote = CHR 0x22"

definition printGraphviz :: "agg_stats \<Rightarrow> string" where
  "printGraphviz st = ''graph {'' @ [newline] @
     concat (map (\<lambda>((a, b), n). [quote] @ a @ [quote] @ '' -- '' @ [quote] @ b @ [quote] @ '' [label='' @
       [quote] @ show_nat (unat n) @ [quote] @ ''];'' @ [newline]) (edge_stats st)) @
     ''}'' @ [newline]"

text \<open>The graph for METIS: no loops, every edge in both directions; and its vertices, a \<open>std::set\<close>.\<close>

definition full_graph :: "((string \<times> string) \<times> u32) list \<Rightarrow> ((string \<times> string) \<times> u32) list" where
  "full_graph es = fold (\<lambda>((a, b), n) g. if a = b then g else sm_put (b, a) n (sm_put (a, b) n g)) es []"

definition graph_vertices :: "((string \<times> string) \<times> u32) list \<Rightarrow> string list" where
  "graph_vertices es = sorted_list_of_set (\<Union>((a, b), n)\<in>set es. if a = b then {} else {a, b})"

definition numbering :: "string list \<Rightarrow> string \<Rightarrow> nat" where
  "numbering vs v = (case map_of (zip vs [1..<Suc (length vs)]) v of Some i \<Rightarrow> i | None \<Rightarrow> 0)"

fun metis_lines :: "(string \<Rightarrow> nat) \<Rightarrow> string \<Rightarrow> ((string \<times> string) \<times> u32) list \<Rightarrow> string" where
  "metis_lines num last_vertex [] = ''''"
| "metis_lines num last_vertex (((a, b), n) # es) =
     (if a \<noteq> last_vertex then [newline] @ ''%: '' @ a @ [newline] else '''') @
     show_nat (num b) @ '' '' @ show_nat (unat (max 1 n)) @ '' '' @ metis_lines num a es"

definition metis_comment1 :: "string list" where
  "metis_comment1 = [''%% The first line contains the following information:'',
     ''%% <# of vertices> <# of edges> <file format>'']"

definition metis_comment2 :: "string list" where
  "metis_comment2 = [''%% Lines that start with %: are comments that are ignored by Metis,'',
     ''%% but list the WARPED object name for the Metis node described by '',
     ''%% the following line.'',
     ''%% The remaining lines each describe a vertex and have the following format:'']"

definition metis_comment3 :: string where
  "metis_comment3 = ''%% <<neighbor> <event count>> ...''"

abbreviation ends :: "string list \<Rightarrow> string" where
  "ends ls \<equiv> concat (map (\<lambda>l. l @ [newline]) ls)"

text \<open>Nothing is written when there is no vertex.\<close>

definition printMetis :: "agg_stats \<Rightarrow> string" where
  "printMetis st =
     (let g = full_graph (edge_stats st); vs = graph_vertices (edge_stats st)
      in if vs = [] then '''' else
         ends metis_comment1 @
         show_nat (length vs) @ '' '' @ show_nat (length g div 2) @ '' '' @ ''001 '' @ [newline] @
         ends metis_comment2 @ metis_comment3 @
         metis_lines (numbering vs) '''' g @ [newline])"

section \<open>Individual statistics\<close>

record stat_entry =
  en_source :: string
  en_dest :: string
  en_send_time :: u32
  en_receive_time :: u32

definition ind_record :: "string \<Rightarrow> u32 \<Rightarrow> event \<Rightarrow> stat_entry list \<Rightarrow> stat_entry list" where
  "ind_record source sent e entries =
     entries @ [\<lparr>en_source = source, en_dest = receiverName e, en_send_time = sent,
                 en_receive_time = timestamp e\<rparr>]"

definition comma :: char where
  "comma = CHR '',''"

definition csvEscape :: "string \<Rightarrow> string" where
  "csvEscape s =
     (if comma \<notin> set s \<and> quote \<notin> set s then s
      else [quote] @ concat (map (\<lambda>c. if c = quote then [quote, quote] else [c]) s) @ [quote])"

definition csv_line :: "stat_entry \<Rightarrow> string" where
  "csv_line en = csvEscape (en_source en) @ [comma] @ csvEscape (en_dest en) @ [comma] @
     show_nat (unat (en_send_time en)) @ [comma] @ show_nat (unat (en_receive_time en)) @ [newline]"

definition printCsv :: "stat_entry list \<Rightarrow> string" where
  "printCsv entries =
     ''Source,Destination,Send Time,Receive Time'' @ [newline] @ concat (map csv_line entries)"

section \<open>The interface\<close>

datatype event_stats =
    NullEventStatistics
  | AggregateEventStatistics agg_stats
  | IndividualEventStatistics "stat_entry list"

fun stats_record1 :: "string \<Rightarrow> u32 \<Rightarrow> event \<Rightarrow> event_stats \<Rightarrow> event_stats" where
  "stats_record1 source sent e NullEventStatistics = NullEventStatistics"
| "stats_record1 source sent e (AggregateEventStatistics st) =
     AggregateEventStatistics (agg_record source sent e st)"
| "stats_record1 source sent e (IndividualEventStatistics entries) =
     IndividualEventStatistics (ind_record source sent e entries)"

definition stats_record :: "string \<Rightarrow> u32 \<Rightarrow> event list \<Rightarrow> event_stats \<Rightarrow> event_stats" where
  "stats_record source sent events st = fold (stats_record1 source sent) events st"

end
