(* ===== verification/Sequential.thy ===== *)
theory Sequential
  imports LTSF_Queue Event_Statistics TW_State
begin

text \<open>
  The sequential dispatcher (\<open>src/src/SequentialEventDispatcher.*\<close>, \<open>EventDispatcher.hpp\<close>): one queue for
  all LPs, the earliest event first. The model's LPs are the parameter \<open>lp_ops\<close>. \<open>lps_by_name\<close> maps a
  name to the LP's position; \<open>operator[]\<close> gives a null pointer for an unknown name. The final output
  of the count and of the statistics is left out.
\<close>

section \<open>State\<close>

record ('s, 'g) seq_state =
  sq_max_sim_time :: u32
  sq_current_time :: u32
  sq_lps :: "('s, 'g) lp list"
  sq_lps_by_name :: "string \<rightharpoonup> nat"
  sq_events :: "event list"
  sq_stats :: event_stats
  sq_count :: i32
  sq_lp_by_filename :: "string \<rightharpoonup> nat"

text \<open>The constructor of \<open>EventDispatcher\<close>: 0 stands for no limit.\<close>

definition limit_sim_time :: "u32 \<Rightarrow> u32" where
  "limit_sim_time t = (if 0 < t then t else uint_max)"

definition seq_new :: "u32 \<Rightarrow> event_stats \<Rightarrow> ('s, 'g) seq_state" where
  "seq_new t stats =
     \<lparr>sq_max_sim_time = limit_sim_time t, sq_current_time = 0, sq_lps = [], sq_lps_by_name = Map.empty,
      sq_events = stl_new, sq_stats = stats, sq_count = 0, sq_lp_by_filename = Map.empty\<rparr>"

section \<open>Sending\<close>

text \<open>The loop over the new events of an LP: those past the maximum time are dropped, the others get the
  sender's name, the send time and the sender's next generation.\<close>

fun valid_events :: "u32 \<Rightarrow> u32 \<Rightarrow> event list \<Rightarrow> ('s, 'g) lp \<Rightarrow> event list \<times> ('s, 'g) lp" where
  "valid_events limit sent [] lp = ([], lp)"
| "valid_events limit sent (e # es) lp =
     (if limit < timestamp e then valid_events limit sent es lp
      else let (vs, lp') = valid_events limit sent es (lp\<lparr>lp_generation := lp_generation lp + 1\<rparr>)
           in (e\<lparr>sender_name := name lp, send_time := sent, generation := lp_generation lp\<rparr> # vs, lp'))"

text \<open>Pushing the valid events of LP \<open>k\<close> and recording them under the name \<open>source\<close>.\<close>

definition seq_send :: "u32 \<Rightarrow> string \<Rightarrow> nat \<Rightarrow> event list \<Rightarrow> ('s, 'g) seq_state \<Rightarrow> ('s, 'g) seq_state" where
  "seq_send sent source k new_events st =
     (let (vs, lp) = valid_events (sq_max_sim_time st) sent new_events (sq_lps st ! k)
      in st\<lparr>sq_lps := (sq_lps st)[k := lp], sq_events := stl_push_all vs (sq_events st),
            sq_stats := stats_record source (sq_current_time st) vs (sq_stats st)\<rparr>)"

section \<open>startSimulation\<close>

fun seq_init_loop :: "('s, 'g) lp_ops \<Rightarrow> nat list \<Rightarrow> ('s, 'g) seq_state \<Rightarrow> ('s, 'g) seq_state" where
  "seq_init_loop ops [] st = st"
| "seq_init_loop ops (k # ks) st =
     (let lp = sq_lps st ! k; ((s, g), new_events) = initializeLP ops (lp_state lp, rng_list lp);
          st1 = st\<lparr>sq_lps := (sq_lps st)[k := lp\<lparr>lp_state := s, rng_list := g\<rparr>]\<rparr>;
          st2 = seq_send 0 (name lp) k new_events st1
      in seq_init_loop ops ks (st2\<lparr>sq_lps_by_name := (sq_lps_by_name st2)(name lp \<mapsto> k)\<rparr>))"

definition seq_start :: "('s, 'g) lp_ops \<Rightarrow> ('s, 'g) lp list list \<Rightarrow> ('s, 'g) seq_state \<Rightarrow>
    ('s, 'g) seq_state res" where
  "seq_start ops parts st =
     (case parts of
        [lps] \<Rightarrow> Inr (seq_init_loop ops [0..<length lps]
           (st\<lparr>sq_lps := lps, sq_lps_by_name := Map.empty, sq_events := stl_new, sq_current_time := 0, sq_count := 0\<rparr>))
      | _ \<Rightarrow> Inl (Runtime_Error ''Sequential simulation only supports 1 partition.''))"

text \<open>The body of the main loop for a popped event.\<close>

definition seq_process :: "('s, 'g) lp_ops \<Rightarrow> event \<Rightarrow> ('s, 'g) seq_state \<Rightarrow> ('s, 'g) seq_state res" where
  "seq_process ops event st =
     (case sq_lps_by_name st (receiverName event) of
        None \<Rightarrow> Inl Null_Deref
      | Some k \<Rightarrow>
          (let (lp, new_events) = lp_receive ops event (sq_lps st ! k);
               st1 = st\<lparr>sq_current_time := timestamp event, sq_lps := (sq_lps st)[k := lp]\<rparr>;
               st2 = seq_send (timestamp event) (receiverName event) k new_events st1
           in Inr (st2\<lparr>sq_count := sq_count st2 + 1\<rparr>)))"

definition seq_step :: "('s, 'g) lp_ops \<Rightarrow> ('s, 'g) seq_state \<Rightarrow> (event \<times> ('s, 'g) seq_state) option res" where
  "seq_step ops st =
     (if stl_empty (sq_events st) then Inr None
      else case stl_pop (sq_events st) of
          (None, _) \<Rightarrow> Inl Null_Deref
        | (Some event, q) \<Rightarrow> bindR (seq_process ops event (st\<lparr>sq_events := q\<rparr>)) (\<lambda>st'. Inr (Some (event, st'))))"

text \<open>The main loop with fuel, and the events it has processed; \<open>None\<close> if the fuel does not suffice.\<close>

fun seq_loop :: "nat \<Rightarrow> ('s, 'g) lp_ops \<Rightarrow> ('s, 'g) seq_state \<Rightarrow> (event list \<times> ('s, 'g) seq_state) option res" where
  "seq_loop 0 ops st = Inr None"
| "seq_loop (Suc n) ops st =
     bindR (seq_step ops st) (\<lambda>r. case r of
        None \<Rightarrow> Inr (Some ([], st))
      | Some (e, st') \<Rightarrow> bindR (seq_loop n ops st') (\<lambda>r'. case r' of
            None \<Rightarrow> Inr None
          | Some (es, st'') \<Rightarrow> Inr (Some (e # es, st''))))"

section \<open>Files\<close>

text \<open>\<open>getFileStream\<close>: a file belongs to the first LP that asks for it.\<close>

definition seq_getFileStream :: "nat \<Rightarrow> string \<Rightarrow> ('s, 'g) seq_state \<Rightarrow> ('s, 'g) seq_state res" where
  "seq_getFileStream k filename st =
     (case sq_lp_by_filename st filename of
        None \<Rightarrow> Inr (st\<lparr>sq_lp_by_filename := (sq_lp_by_filename st)(filename \<mapsto> k)\<rparr>)
      | Some k' \<Rightarrow> if k \<noteq> k' then Inl (Runtime_Error ''A filestream can only be used by a single lp'') else Inr st)"

end
