(* ===== verification/Sequential_Props.thy ===== *)
theory Sequential_Props
  imports Sequential
begin

text \<open>
  The sequential dispatcher processes the events in time order, each event that was sent exactly once,
  and it ends. The queue is used through the contract \<open>ltsf\<close>.
\<close>

section \<open>One step\<close>

lemma valid_events_mem:
  "v \<in> set (fst (valid_events limit sent es lp)) \<Longrightarrow>
   timestamp v \<le> limit \<and> (\<exists>x\<in>set es. timestamp v = timestamp x \<and> receiverName v = receiverName x)"
proof (induction es arbitrary: lp)
  case (Cons e es)
  show ?case
  proof (cases "limit < timestamp e")
    case True
    then show ?thesis using Cons by auto
  next
    case False
    then show ?thesis
      using Cons.prems Cons.IH [of "lp\<lparr>lp_generation := lp_generation lp + 1\<rparr>"]
      by (auto simp: case_prod_unfold Let_def)
  qed
qed simp

lemma seq_send_sel [simp]:
  "sq_max_sim_time (seq_send sent s k es st) = sq_max_sim_time st"
  "sq_current_time (seq_send sent s k es st) = sq_current_time st"
  "sq_lps_by_name (seq_send sent s k es st) = sq_lps_by_name st"
  "sq_count (seq_send sent s k es st) = sq_count st"
  "length (sq_lps (seq_send sent s k es st)) = length (sq_lps st)"
  by (simp_all add: seq_send_def case_prod_unfold Let_def)

text \<open>What a send adds: the valid events are in the queue and in the statistics.\<close>

definition sent_of :: "u32 \<Rightarrow> nat \<Rightarrow> event list \<Rightarrow> ('s, 'g) seq_state \<Rightarrow> event list" where
  "sent_of sent k es st = fst (valid_events (sq_max_sim_time st) sent es (sq_lps st ! k))"

lemma seq_send_queue:
  assumes "stl_inv (sq_events st)"
  shows "stl_inv (sq_events (seq_send sent s k es st))"
    "mset (sq_events (seq_send sent s k es st)) = mset (sent_of sent k es st) + mset (sq_events st)"
    "sq_stats (seq_send sent s k es st) = stats_record s (sq_current_time st) (sent_of sent k es st) (sq_stats st)"
  using lq.inv_push_all [OF assms] lq.content_push_all [OF assms]
  by (simp_all add: seq_send_def sent_of_def case_prod_unfold Let_def stl_push_all_fold)

text \<open>A step pops a least event and replaces it by what its receiver sends.\<close>

definition step_result :: "('s, 'g) lp_ops \<Rightarrow> ('s, 'g) seq_state \<Rightarrow> event \<Rightarrow> event list \<Rightarrow> ('s, 'g) seq_state \<Rightarrow> bool" where
  "step_result ops st e vs st' \<longleftrightarrow>
     stl_inv (sq_events st') \<and> e \<in># mset (sq_events st) \<and>
     mset (sq_events st') = mset vs + (mset (sq_events st) - {#e#}) \<and>
     (\<forall>x\<in># mset (sq_events st). timestamp e \<le> timestamp x) \<and>
     (\<exists>sg. \<forall>v\<in>set vs. timestamp v \<le> sq_max_sim_time st \<and>
        (\<exists>x\<in>set (snd (receiveEvent ops e sg)). timestamp v = timestamp x \<and> receiverName v = receiverName x)) \<and>
     sq_current_time st' = timestamp e \<and> sq_max_sim_time st' = sq_max_sim_time st \<and>
     sq_lps_by_name st' = sq_lps_by_name st \<and> sq_count st' = sq_count st + 1 \<and>
     sq_stats st' = stats_record (receiverName e) (timestamp e) vs (sq_stats st)"

lemma earlier_less: "timestamp x < timestamp e \<Longrightarrow> ev_less x e"
  unfolding ev_less_def by (simp only: if_True)

lemma not_less_timestamp: "\<not> ev_less x e \<Longrightarrow> timestamp e \<le> timestamp x"
  using earlier_less [of x e] not_le by blast

lemma seq_step_popped:
  "stl_pop (sq_events st) = (Some e, q) \<Longrightarrow>
   seq_step ops st = bindR (seq_process ops e (st\<lparr>sq_events := q\<rparr>)) (\<lambda>st'. Inr (Some (e, st')))"
  by (cases "sq_events st") (simp_all add: seq_step_def stl_empty_def)

lemma seq_step_pop:
  assumes "stl_inv (sq_events st)" and pop: "stl_pop (sq_events st) = (Some e, q)"
    and k: "sq_lps_by_name st (receiverName e) = Some k"
  shows "\<exists>vs st'. seq_step ops st = Inr (Some (e, st')) \<and> step_result ops st e vs st'"
proof -
  note D = lq.pop_SomeD [OF assms(1) pop]
  have e: "e \<in># mset (sq_events st)" "mset q = mset (sq_events st) - {#e#}" by (simp_all add: D(2))
  let ?st = "st\<lparr>sq_events := q\<rparr>"
  let ?sg = "(lp_state (sq_lps st ! k), rng_list (sq_lps st ! k))"
  let ?lp = "fst (lp_receive ops e (sq_lps st ! k))" and ?new = "snd (lp_receive ops e (sq_lps st ! k))"
  let ?st1 = "?st\<lparr>sq_current_time := timestamp e, sq_lps := (sq_lps st)[k := ?lp]\<rparr>"
  let ?st2 = "seq_send (timestamp e) (receiverName e) k ?new ?st1"
  let ?vs = "sent_of (timestamp e) k ?new ?st1"
  have new: "?new = snd (receiveEvent ops e ?sg)"
    by (simp add: lp_receive_def case_prod_unfold Let_def)
  have "seq_step ops st = Inr (Some (e, ?st2\<lparr>sq_count := sq_count ?st2 + 1\<rparr>))"
    using e(1) pop k by (auto simp add: seq_step_def stl_empty_def seq_process_def case_prod_unfold Let_def)
  moreover have "step_result ops st e ?vs (?st2\<lparr>sq_count := sq_count ?st2 + 1\<rparr>)"
    unfolding step_result_def
  proof (intro conjI)
    show "\<forall>x\<in># mset (sq_events st). timestamp e \<le> timestamp x"
      using D(3) not_less_timestamp by blast
    show "\<exists>sg. \<forall>v\<in>set ?vs. timestamp v \<le> sq_max_sim_time st \<and>
        (\<exists>x\<in>set (snd (receiveEvent ops e sg)). timestamp v = timestamp x \<and> receiverName v = receiverName x)"
      using valid_events_mem unfolding sent_of_def new [symmetric] by (intro exI [of _ ?sg]) (fastforce simp: new)
  qed (use D(1) e seq_send_queue [of ?st1 "timestamp e" "receiverName e" k ?new] in simp_all)
  ultimately show ?thesis by blast
qed

lemma seq_step_ok:
  assumes "stl_inv (sq_events st)" and "sq_events st \<noteq> []"
    and "\<forall>e\<in>set (sq_events st). receiverName e \<in> dom (sq_lps_by_name st)"
  shows "\<exists>e vs st'. seq_step ops st = Inr (Some (e, st')) \<and> step_result ops st e vs st'"
proof -
  have "fst (stl_pop (sq_events st)) \<noteq> None" using lq.pop_None_iff [OF assms(1)] assms(2) by simp
  then obtain e q where pop: "stl_pop (sq_events st) = (Some e, q)" by (metis option.exhaust prod.collapse)
  moreover have "e \<in># mset (sq_events st)" by (simp add: lq.pop_SomeD(2) [OF assms(1) pop])
  ultimately show ?thesis using assms(1,3) seq_step_pop by (metis domD set_mset_mset)
qed

lemma seq_step_SomeD:
  assumes "stl_inv (sq_events st)" and "seq_step ops st = Inr (Some (e, st'))"
  shows "\<exists>vs. step_result ops st e vs st'"
proof -
  have "sq_events st \<noteq> []" using assms(2) by (auto simp: seq_step_def stl_empty_def)
  then obtain e1 q where pop: "stl_pop (sq_events st) = (Some e1, q)" by (cases "sq_events st") auto
  have step: "bindR (seq_process ops e1 (st\<lparr>sq_events := q\<rparr>)) (\<lambda>st'. Inr (Some (e1, st'))) = Inr (Some (e, st'))"
    using seq_step_popped [OF pop, of ops] assms(2) by (rule trans [OF sym])
  then have e1: "e1 = e" unfolding bindR_eq_Inr by blast
  have "sq_lps_by_name st (receiverName e) \<noteq> None"
  proof
    assume "sq_lps_by_name st (receiverName e) = None"
    then have "seq_process ops e (st\<lparr>sq_events := q\<rparr>) = Inl Null_Deref" by (simp add: seq_process_def)
    with step show False unfolding e1 by simp
  qed
  then obtain k where "sq_lps_by_name st (receiverName e) = Some k" by blast
  from seq_step_pop [OF assms(1) pop [unfolded e1] this] assms(2) show ?thesis
    by (metis Inr_inject option.inject prod.inject)
qed

lemma seq_step_NoneD: "seq_step ops st = Inr None \<Longrightarrow> sq_events st = []"
  by (auto simp: seq_step_def stl_empty_def split: if_splits prod.splits option.splits)

lemma seq_step_done: "sq_events st = [] \<Longrightarrow> seq_step ops st = Inr None"
  by (simp add: seq_step_def stl_empty_def)

lemma seq_loop_SomeD:
  assumes "seq_loop (Suc n) ops st = Inr (Some (es, st'))"
  obtains "es = []" "st' = st" "sq_events st = []"
  | e es1 st1 where "es = e # es1" "seq_step ops st = Inr (Some (e, st1))" "seq_loop n ops st1 = Inr (Some (es1, st'))"
proof -
  from assms obtain r where r: "seq_step ops st = Inr r"
    "(case r of None \<Rightarrow> Inr (Some ([], st)) | Some (e, st1) \<Rightarrow> bindR (seq_loop n ops st1) (\<lambda>r'. case r' of
       None \<Rightarrow> Inr None | Some (es, st'') \<Rightarrow> Inr (Some (e # es, st'')))) = Inr (Some (es, st'))" by auto
  show thesis
  proof (cases r)
    case None
    then show thesis using r that(1) seq_step_NoneD by auto
  next
    case (Some x)
    then show thesis using r that(2) by (cases x) (auto split: option.splits)
  qed
qed

section \<open>Start\<close>

text \<open>The invariant of the loop, with the receivers \<open>D\<close> that the model uses and the time \<open>t\<close> reached.\<close>

definition seq_inv :: "u32 \<Rightarrow> string set \<Rightarrow> ('s, 'g) seq_state \<Rightarrow> bool" where
  "seq_inv t D st \<longleftrightarrow>
     stl_inv (sq_events st) \<and>
     (\<forall>x\<in># mset (sq_events st). t \<le> timestamp x \<and> timestamp x \<le> sq_max_sim_time st \<and> receiverName x \<in> D)"

text \<open>What the code relies on in a model: no event in the past of its cause (\<open>LogicalProcess.hpp\<close>), and only
  LPs that exist as receivers.\<close>

definition no_past :: "('s, 'g) lp_ops \<Rightarrow> bool" where
  "no_past ops \<longleftrightarrow> (\<forall>e sg. \<forall>x\<in>set (snd (receiveEvent ops e sg)). timestamp e \<le> timestamp x)"

definition progress :: "('s, 'g) lp_ops \<Rightarrow> bool" where
  "progress ops \<longleftrightarrow> (\<forall>e sg. \<forall>x\<in>set (snd (receiveEvent ops e sg)). timestamp e < timestamp x)"

definition known_receivers :: "('s, 'g) lp_ops \<Rightarrow> string set \<Rightarrow> bool" where
  "known_receivers ops D \<longleftrightarrow>
     (\<forall>e sg. \<forall>x\<in>set (snd (receiveEvent ops e sg)). receiverName x \<in> D) \<and>
     (\<forall>sg. \<forall>x\<in>set (snd (initializeLP ops sg)). receiverName x \<in> D)"

lemma known_receivers_UNIV [simp]: "known_receivers ops UNIV"
  by (simp add: known_receivers_def)

lemma seq_inv_step:
  assumes "seq_inv t D st" "step_result ops st e vs st'" "no_past ops" "known_receivers ops D"
  shows "seq_inv (timestamp e) D st'" "t \<le> timestamp e" "timestamp e \<le> sq_max_sim_time st"
proof -
  obtain sg where r: "stl_inv (sq_events st')" "e \<in># mset (sq_events st)"
    "mset (sq_events st') = mset vs + (mset (sq_events st) - {#e#})"
    "\<forall>x\<in># mset (sq_events st). timestamp e \<le> timestamp x"
    "\<forall>v\<in>set vs. timestamp v \<le> sq_max_sim_time st \<and>
        (\<exists>x\<in>set (snd (receiveEvent ops e sg)). timestamp v = timestamp x \<and> receiverName v = receiverName x)"
    "sq_max_sim_time st' = sq_max_sim_time st"
    using assms(2) unfolding step_result_def by blast
  show "t \<le> timestamp e" "timestamp e \<le> sq_max_sim_time st"
    using r(2) assms(1) by (auto simp: seq_inv_def)
  show "seq_inv (timestamp e) D st'"
    unfolding seq_inv_def r(3,6)
  proof (intro conjI ballI)
    fix x assume "x \<in># mset vs + (mset (sq_events st) - {#e#})"
    then consider "x \<in> set vs" | "x \<in># mset (sq_events st)" by (auto dest: in_diffD)
    then show "timestamp e \<le> timestamp x" "timestamp x \<le> sq_max_sim_time st" "receiverName x \<in> D"
      using r(4,5) assms(1,3,4) unfolding seq_inv_def no_past_def known_receivers_def by (cases; metis)+
  qed (rule r(1))
qed

lemma seq_init_loop_ok:
  assumes "seq_inv 0 D st" "known_receivers ops D"
  shows "seq_inv 0 D (seq_init_loop ops ks st) \<and>
    sq_max_sim_time (seq_init_loop ops ks st) = sq_max_sim_time st \<and>
    sq_count (seq_init_loop ops ks st) = sq_count st"
  using assms(1)
proof (induction ks arbitrary: st)
  case (Cons k ks)
  let ?lp = "sq_lps st ! k"
  obtain s g new where i: "initializeLP ops (lp_state ?lp, rng_list ?lp) = ((s, g), new)" by (metis prod.exhaust)
  let ?st1 = "st\<lparr>sq_lps := (sq_lps st)[k := ?lp\<lparr>lp_state := s, rng_list := g\<rparr>]\<rparr>"
  let ?st2 = "seq_send 0 (name ?lp) k new ?st1"
  let ?st3 = "?st2\<lparr>sq_lps_by_name := (sq_lps_by_name ?st2)(name ?lp \<mapsto> k)\<rparr>"
  have new: "receiverName x \<in> D" if "x \<in> set new" for x
    using assms(2) i that unfolding known_receivers_def by (metis snd_conv)
  have "stl_inv (sq_events ?st1)" using Cons.prems by (simp add: seq_inv_def)
  note q = seq_send_queue [OF this, of 0 "name ?lp" k new]
  have "seq_inv 0 D ?st3"
    using Cons.prems q valid_events_mem new unfolding seq_inv_def sent_of_def by fastforce
  from Cons.IH [OF this] show ?case by (simp add: i Let_def)
qed simp

lemma seq_start_ok:
  assumes "seq_start ops [lps] (seq_new t stats) = Inr st" "known_receivers ops D"
  shows "seq_inv 0 D st" "sq_max_sim_time st = limit_sim_time t" "sq_count st = 0"
proof -
  let ?st = "(seq_new t stats)\<lparr>sq_lps := lps, sq_lps_by_name := Map.empty, sq_events := stl_new,
    sq_current_time := 0, sq_count := 0\<rparr>"
  have "seq_inv 0 D ?st" by (simp add: seq_inv_def stl_new_def)
  from seq_init_loop_ok [OF this assms(2), of "[0..<length lps]"] assms(1)
  show "seq_inv 0 D st" "sq_max_sim_time st = limit_sim_time t" "sq_count st = 0"
    by (auto simp: seq_start_def seq_new_def)
qed

section \<open>Order\<close>

lemma seq_loop_sorted:
  assumes "no_past ops" and "seq_inv t UNIV st" and "seq_loop n ops st = Inr (Some (es, st'))"
  shows "sorted (map timestamp es) \<and> (\<forall>e\<in>set es. t \<le> timestamp e \<and> timestamp e \<le> sq_max_sim_time st) \<and>
    sq_events st' = [] \<and> sq_count st' = sq_count st + of_nat (length es)"
  using assms(2,3)
proof (induction n arbitrary: t st es)
  case (Suc n)
  from Suc.prems(2) show ?case
  proof (cases rule: seq_loop_SomeD)
    case (2 e es1 st1)
    have "stl_inv (sq_events st)" using Suc.prems(1) by (simp add: seq_inv_def)
    then obtain vs where vs: "step_result ops st e vs st1" using seq_step_SomeD [OF _ 2(2)] by blast
    note inv = seq_inv_step [OF Suc.prems(1) vs assms(1) known_receivers_UNIV]
    from Suc.IH [OF inv(1) 2(3)] inv(2,3) vs show ?thesis
      by (auto simp: 2(1) step_result_def intro: order_trans)
  qed simp
qed simp

text \<open>C19: A sequential simulation processes the events in the order of their times, up to the maximum
  time (0 stands for no maximum), until none is left, and counts them, if no LP creates an event
  in the past.\<close>

theorem sequential_order:
  assumes "no_past ops" and "seq_start ops [lps] (seq_new t stats) = Inr st"
    and "seq_loop n ops st = Inr (Some (es, st'))"
  shows "sorted (map timestamp es) \<and> (\<forall>e\<in>set es. timestamp e \<le> limit_sim_time t) \<and>
    sq_events st' = [] \<and> sq_count st' = of_nat (length es)"
  using seq_loop_sorted [OF assms(1) seq_start_ok(1) [OF assms(2) known_receivers_UNIV] assms(3)]
    seq_start_ok(2,3) [OF assms(2) known_receivers_UNIV] by simp

section \<open>Termination\<close>

definition remaining_time :: "('s, 'g) seq_state \<Rightarrow> nat multiset" where
  "remaining_time st = image_mset (\<lambda>x. unat (sq_max_sim_time st) - unat (timestamp x)) (mset (sq_events st))"

lemma step_remaining_time:
  assumes "seq_inv t D st" "step_result ops st e vs st'" "progress ops"
  shows "(remaining_time st', remaining_time st) \<in> mult less_than"
proof -
  let ?f = "\<lambda>x. unat (sq_max_sim_time st) - unat (timestamp x)"
  let ?rest = "mset (sq_events st) - {#e#}"
  obtain sg where r: "e \<in># mset (sq_events st)" "mset (sq_events st') = mset vs + ?rest"
    "\<forall>v\<in>set vs. timestamp v \<le> sq_max_sim_time st \<and>
        (\<exists>x\<in>set (snd (receiveEvent ops e sg)). timestamp v = timestamp x \<and> receiverName v = receiverName x)"
    "sq_max_sim_time st' = sq_max_sim_time st"
    using assms(2) unfolding step_result_def by blast
  have "?f v < ?f e" if "v \<in> set vs" for v
  proof -
    from r(3) that assms(3) have "timestamp e < timestamp v" "timestamp v \<le> sq_max_sim_time st"
      unfolding progress_def by metis+
    then have "unat (timestamp e) < unat (timestamp v)" "unat (timestamp v) \<le> unat (sq_max_sim_time st)"
      by (simp_all add: word_less_nat_alt word_le_nat_alt)
    then show ?thesis by linarith
  qed
  then have "(image_mset ?f ?rest + image_mset ?f (mset vs), image_mset ?f ?rest + {#?f e#}) \<in> mult less_than"
    by (intro one_step_implies_mult) auto
  moreover have "remaining_time st = image_mset ?f ?rest + {#?f e#}"
    unfolding remaining_time_def
    by (subst insert_DiffM [OF r(1), symmetric]) simp
  ultimately show ?thesis by (simp add: remaining_time_def r(2,4) add.commute)
qed

lemma seq_loop_terminates:
  assumes "progress ops" "known_receivers ops D" "D \<subseteq> dom (sq_lps_by_name st)" "seq_inv t D st"
  shows "\<exists>n es st'. seq_loop n ops st = Inr (Some (es, st'))"
  using assms(3,4)
proof (induction "remaining_time st" arbitrary: t st rule: wf_induct_rule [OF wf_mult [OF wf_less_than]])
  case (1 st)
  show ?case
  proof (cases "sq_events st = []")
    case True
    then have "seq_loop 1 ops st = Inr (Some ([], st))" by (simp add: seq_step_done)
    then show ?thesis by blast
  next
    case False
    have known: "\<forall>e\<in>set (sq_events st). receiverName e \<in> dom (sq_lps_by_name st)"
      using "1.prems" by (auto simp: seq_inv_def)
    have "stl_inv (sq_events st)" using "1.prems"(2) by (simp add: seq_inv_def)
    from seq_step_ok [OF this False known] obtain e vs st1 where
      step: "seq_step ops st = Inr (Some (e, st1))" "step_result ops st e vs st1" by blast
    have "no_past ops" using assms(1) by (auto simp: progress_def no_past_def intro: less_imp_le)
    note inv = seq_inv_step(1) [OF "1.prems"(2) step(2) this assms(2)]
    have "D \<subseteq> dom (sq_lps_by_name st1)" using step(2) "1.prems"(1) by (simp add: step_result_def)
    from "1.hyps" [OF step_remaining_time [OF "1.prems"(2) step(2) assms(1)] this inv]
    obtain n es st' where "seq_loop n ops st1 = Inr (Some (es, st'))" by blast
    then have "seq_loop (Suc n) ops st = Inr (Some (e # es, st'))" using step(1) by simp
    then show ?thesis by blast
  qed
qed

lemma seq_send_name [simp]: "name (sq_lps (seq_send sent s k es st) ! j) = name (sq_lps st ! j)"
proof -
  have "name (snd (valid_events l u xs lp)) = name lp" for l u xs and lp :: "('a, 'b) lp"
  proof (induction xs arbitrary: lp)
    case (Cons x xs)
    then show ?case using Cons [of "lp\<lparr>lp_generation := lp_generation lp + 1\<rparr>"]
      by (simp add: case_prod_unfold Let_def)
  qed simp
  then show ?thesis
    by (cases "k < length (sq_lps st)") (simp_all add: seq_send_def case_prod_unfold Let_def nth_list_update_if list_update_beyond not_less)
qed

lemma seq_init_loop_names:
  "dom (sq_lps_by_name (seq_init_loop ops ks st)) = dom (sq_lps_by_name st) \<union> (\<lambda>k. name (sq_lps st ! k)) ` set ks"
proof (induction ks arbitrary: st)
  case (Cons k ks)
  obtain s g new where i: "initializeLP ops (lp_state (sq_lps st ! k), rng_list (sq_lps st ! k)) = ((s, g), new)"
    by (metis prod.exhaust)
  have "name ((sq_lps st)[k := (sq_lps st ! k)\<lparr>lp_state := s, rng_list := g\<rparr>] ! j) = name (sq_lps st ! j)" for j
    by (cases "k < length (sq_lps st)") (simp_all add: nth_list_update_if list_update_beyond not_less)
  then show ?case by (auto simp: i Let_def Cons)
qed simp

text \<open>C20: A sequential simulation comes to its end, whatever the maximum time, if every LP sends its
  events some time ahead and to LPs that exist.\<close>

theorem sequential_terminates:
  assumes "progress ops" and "known_receivers ops (set (map name lps))"
    and "seq_start ops [lps] (seq_new t stats) = Inr st"
  shows "\<exists>n es st'. seq_loop n ops st = Inr (Some (es, st'))"
proof (rule seq_loop_terminates [OF assms(1,2)])
  show "set (map name lps) \<subseteq> dom (sq_lps_by_name st)"
  proof -
    have st: "st = seq_init_loop ops [0..<length lps] ((seq_new t stats)\<lparr>sq_lps := lps, sq_lps_by_name := Map.empty,
        sq_events := stl_new, sq_current_time := 0, sq_count := 0\<rparr>)"
      using assms(3) by (simp add: seq_start_def)
    show ?thesis unfolding st seq_init_loop_names by (auto simp: set_conv_nth [of lps])
  qed
  show "seq_inv 0 (set (map name lps)) st" by (rule seq_start_ok(1) [OF assms(3,2)])
qed

section \<open>No event is lost\<close>

fun recorded :: "event_stats \<Rightarrow> (string \<times> u32) multiset" where
  "recorded (IndividualEventStatistics entries) = mset (map (\<lambda>en. (en_dest en, en_receive_time en)) entries)"
| "recorded _ = {#}"

fun is_individual :: "event_stats \<Rightarrow> bool" where
  "is_individual (IndividualEventStatistics entries) = True"
| "is_individual _ = False"

abbreviation sent_keys :: "event list \<Rightarrow> (string \<times> u32) multiset" where
  "sent_keys es \<equiv> mset (map (\<lambda>e. (receiverName e, timestamp e)) es)"

lemma stats_record_recorded:
  "is_individual s \<Longrightarrow> is_individual (stats_record src t es s) \<and>
     recorded (stats_record src t es s) = recorded s + sent_keys es"
proof (induction es arbitrary: s)
  case (Cons e es)
  then obtain entries where s: "s = IndividualEventStatistics entries" by (cases s) auto
  have "is_individual (stats_record1 src t e s)" by (simp add: s)
  from Cons.IH [OF this] show ?case by (simp add: stats_record_def s ind_record_def)
qed (simp add: stats_record_def)

definition all_recorded :: "event list \<Rightarrow> ('s, 'g) seq_state \<Rightarrow> bool" where
  "all_recorded es st \<longleftrightarrow> is_individual (sq_stats st) \<and> stl_inv (sq_events st) \<and>
     recorded (sq_stats st) = sent_keys es + sent_keys (sq_events st)"

lemma all_recorded_step:
  assumes "all_recorded es st" "step_result ops st e vs st'"
  shows "all_recorded (es @ [e]) st'"
proof -
  have r: "stl_inv (sq_events st')" "e \<in># mset (sq_events st)"
    "mset (sq_events st') = mset vs + (mset (sq_events st) - {#e#})"
    "sq_stats st' = stats_record (receiverName e) (timestamp e) vs (sq_stats st)"
    using assms(2) by (auto simp: step_result_def)
  then have "add_mset e (mset (sq_events st')) = mset vs + mset (sq_events st)" by simp
  then have "sent_keys (e # sq_events st') = sent_keys (vs @ sq_events st)"
    by (simp only: mset_map mset.simps mset_append)
  then show ?thesis
    using assms(1) r(1) stats_record_recorded [of "sq_stats st" "receiverName e" "timestamp e" vs]
    by (auto simp: all_recorded_def r(4))
qed

lemma all_recorded_loop:
  "all_recorded es0 st \<Longrightarrow> seq_loop n ops st = Inr (Some (es, st')) \<Longrightarrow>
   all_recorded (es0 @ es) st' \<and> sq_events st' = []"
proof (induction n arbitrary: es0 st es)
  case (Suc n)
  from Suc.prems(2) show ?case
  proof (cases rule: seq_loop_SomeD)
    case (2 e es1 st1)
    obtain vs where "step_result ops st e vs st1"
      using seq_step_SomeD [OF _ 2(2)] Suc.prems(1) by (auto simp: all_recorded_def)
    from Suc.IH [OF all_recorded_step [OF Suc.prems(1) this] 2(3)] show ?thesis by (simp add: 2(1))
  qed (use Suc.prems in simp)
qed simp

lemma all_recorded_init: "all_recorded [] st \<Longrightarrow> all_recorded [] (seq_init_loop ops ks st)"
proof (induction ks arbitrary: st)
  case (Cons k ks)
  let ?lp = "sq_lps st ! k"
  obtain s g new where i: "initializeLP ops (lp_state ?lp, rng_list ?lp) = ((s, g), new)" by (metis prod.exhaust)
  let ?st1 = "st\<lparr>sq_lps := (sq_lps st)[k := ?lp\<lparr>lp_state := s, rng_list := g\<rparr>]\<rparr>"
  let ?st2 = "seq_send 0 (name ?lp) k new ?st1"
  have st1: "stl_inv (sq_events ?st1)" "is_individual (sq_stats ?st1)"
    "recorded (sq_stats ?st1) = sent_keys (sq_events ?st1)" using Cons.prems by (auto simp: all_recorded_def)
  have "sent_keys (sq_events ?st2) = sent_keys (sent_of 0 k new ?st1) + sent_keys (sq_events ?st1)"
    using seq_send_queue(2) [OF st1(1), of 0 "name ?lp" k new] by (simp only: mset_map image_mset_union)
  then have "all_recorded [] (?st2\<lparr>sq_lps_by_name := (sq_lps_by_name ?st2)(name ?lp \<mapsto> k)\<rparr>)"
    using seq_send_queue(1,3) [OF st1(1), of 0 "name ?lp" k new] st1(2,3)
      stats_record_recorded [OF st1(2), of "name ?lp" "sq_current_time ?st1" "sent_of 0 k new ?st1"]
    by (simp add: all_recorded_def)
  from Cons.IH [OF this] show ?case by (simp add: i Let_def)
qed simp

text \<open>C21: Every event that was sent is processed exactly once: at the end of a sequential simulation
  with individual statistics, the recorded events and the processed events agree in receiver and
  time, each as often in the one as in the other.\<close>

theorem sent_events_are_processed:
  fixes lps :: "('a, 'b) lp list"
  assumes "seq_start ops [lps] (seq_new t (IndividualEventStatistics [])) = Inr st"
    and "seq_loop n ops st = Inr (Some (es, st'))"
  shows "recorded (sq_stats st') = sent_keys es"
proof -
  have "all_recorded [] ((seq_new t (IndividualEventStatistics []))\<lparr>sq_lps := lps, sq_lps_by_name := Map.empty,
      sq_events := stl_new, sq_current_time := 0, sq_count := 0\<rparr> :: ('a, 'b) seq_state)"
    by (simp add: all_recorded_def seq_new_def stl_new_def)
  then have "all_recorded [] st" using assms(1) all_recorded_init by (auto simp: seq_start_def)
  from all_recorded_loop [OF this assms(2)] show ?thesis by (simp add: all_recorded_def)
qed

section \<open>Sample\<close>

definition ping :: "nat \<Rightarrow> string \<Rightarrow> u32 \<Rightarrow> event" where
  "ping p receiver t = \<lparr>ev_ptr = p, receiverName = receiver, timestamp = t, sender_name = '''',
     event_type = POSITIVE, send_time = 0, generation = 0, payload = 0\<rparr>"

text \<open>Two LPs that send a message to and fro until time 3.\<close>

definition ping_ops :: "(nat, nat) lp_ops" where
  "ping_ops = \<lparr>receiveEvent = (\<lambda>e (s, g). ((s + 1, g),
        if timestamp e < 3 then [ping 0 (if receiverName e = ''a'' then ''b'' else ''a'') (timestamp e + 1)] else [])),
     initializeLP = (\<lambda>(s, g). ((s, g), [ping 0 ''a'' 1])),
     rng_getState = (\<lambda>_. ''''), rng_restoreState = (\<lambda>_ g. g), moved = id\<rparr>"

definition ping_lps :: "(nat, nat) lp list" where
  "ping_lps = map (\<lambda>nm. \<lparr>name = nm, lp_state = 0, rng_list = [], last_fossil_collect_gvt = 0, lp_generation = 0\<rparr>)
     [''a'', ''b'']"

lemma ping_progress: "progress ping_ops"
proof -
  have "x < x + 1" if "x < 3" for x :: u32
    using unat_plus_one_less [OF that] by (simp add: word_less_nat_alt)
  then show ?thesis by (auto simp: progress_def ping_ops_def ping_def)
qed

lemma ping_no_past: "no_past ping_ops"
  using ping_progress by (auto simp: progress_def no_past_def intro: less_imp_le)

lemma ping_known: "known_receivers ping_ops (set (map name ping_lps))"
  by (auto simp: known_receivers_def ping_ops_def ping_lps_def ping_def)

theorem sequential_terminates_witness:
  "\<exists>st n es st'. seq_start ping_ops [ping_lps] (seq_new 0 NullEventStatistics) = Inr st \<and>
     seq_loop n ping_ops st = Inr (Some (es, st'))"
proof -
  obtain st where st: "seq_start ping_ops [ping_lps] (seq_new 0 NullEventStatistics) = Inr st"
    by (simp add: seq_start_def)
  with sequential_terminates [OF ping_progress ping_known st] show ?thesis by blast
qed

lemma ping_run:
  "\<exists>st st' es. seq_start ping_ops [ping_lps] (seq_new 2 (IndividualEventStatistics [])) = Inr st \<and>
     seq_loop (Suc (Suc (Suc (Suc (Suc 0))))) ping_ops st = Inr (Some (es, st')) \<and> map timestamp es = [1, 1, 2, 2]"
  by (simp add: seq_start_def ping_ops_def ping_lps_def seq_new_def seq_send_def stl_push_all_def stl_new_def
      stl_push_def queue_comp_def ping_def limit_sim_time_def seq_step_def seq_process_def stl_empty_def
      lp_receive_def stats_record_def ind_record_def Let_def ev_le_key ev_key_def)

theorem sequential_order_witness:
  "\<exists>st st' es. seq_start ping_ops [ping_lps] (seq_new 2 (IndividualEventStatistics [])) = Inr st \<and>
     seq_loop (Suc (Suc (Suc (Suc (Suc 0))))) ping_ops st = Inr (Some (es, st')) \<and> sorted (map timestamp es) \<and> sq_count st' = of_nat (length es)"
proof -
  obtain st st' es where run: "seq_start ping_ops [ping_lps] (seq_new 2 (IndividualEventStatistics [])) = Inr st"
    "seq_loop (Suc (Suc (Suc (Suc (Suc 0))))) ping_ops st = Inr (Some (es, st'))" using ping_run by blast
  from sequential_order [OF ping_no_past this] run show ?thesis by blast
qed

theorem sent_events_are_processed_witness:
  "\<exists>st st' es. seq_start ping_ops [ping_lps] (seq_new 2 (IndividualEventStatistics [])) = Inr st \<and>
     seq_loop (Suc (Suc (Suc (Suc (Suc 0))))) ping_ops st = Inr (Some (es, st')) \<and> recorded (sq_stats st') = sent_keys es"
proof -
  obtain st st' es where run: "seq_start ping_ops [ping_lps] (seq_new 2 (IndividualEventStatistics [])) = Inr st"
    "seq_loop (Suc (Suc (Suc (Suc (Suc 0))))) ping_ops st = Inr (Some (es, st'))" using ping_run by blast
  from sent_events_are_processed [OF this] run show ?thesis by blast
qed

end
