(* ===== verification/Partitioners.thy ===== *)
theory Partitioners
  imports Text_IO
begin

text \<open>
  The partitioners (\<open>src/src/Partitioner.hpp\<close>, \<open>RoundRobinPartitioner.*\<close>,
  \<open>ProfileGuidedPartitioner.*\<close>), which divide the LPs among the nodes. METIS is a library: the
  function \<open>metis\<close>, from its input to the partition of every vertex, is a parameter, and so is
  \<open>order\<close>, the order in which a \<open>std::unordered_map\<close> is iterated. An LP is the pointer type \<open>'l\<close>, or
  for the profile guided partitioner its position in the list of all LPs, whose names are given.
\<close>

definition push_to :: "nat \<Rightarrow> 'a \<Rightarrow> 'a list list \<Rightarrow> 'a list list" where
  "push_to p x parts = parts[p := parts ! p @ [x]]"

section \<open>Round robin\<close>

text \<open>The result and the new value of the mutable \<open>block_size_\<close>. After the loop over the blocks \<open>i\<close> is
  \<open>num_blocks - 1\<close> and \<open>j\<close> is \<open>block_size_\<close>, from where the second loop goes on.\<close>

definition rr_partition :: "nat \<Rightarrow> 'l list \<Rightarrow> nat \<Rightarrow> ('l list list \<times> nat) res" where
  "rr_partition block lps num_partitions =
     (if num_partitions = 0 then Inl Div_By_Zero
      else let bs = (if block = 0 \<or> length lps div num_partitions < block then length lps div num_partitions else block)
      in if bs = 0 then Inl Div_By_Zero
      else let num_blocks = length lps div bs; i = num_blocks - 1;
           parts1 = fold (\<lambda>i. fold (\<lambda>j. push_to (i mod num_partitions) (lps ! (bs * i + j))) [0..<bs])
                      [0..<num_blocks] (replicate num_partitions []);
           parts2 = fold (\<lambda>j. push_to (j mod num_partitions) (lps ! (bs * i + j)))
                      [bs..<length lps - bs * i] parts1
      in Inr (parts2, bs))"

section \<open>Reading the statistics file\<close>

record parse_state =
  ps_i :: nat
  ps_nvtxs :: int
  ps_names :: "string list"
  ps_xadj :: "int list"
  ps_adjncy :: "int list"
  ps_adjwgt :: "int list"

definition parse_new :: "nat \<Rightarrow> parse_state" where
  "parse_new num_lps = \<lparr>ps_i = 0, ps_nvtxs = 0, ps_names = replicate num_lps '''', ps_xadj = [0],
     ps_adjncy = [], ps_adjwgt = []\<rparr>"

lemma read_int_shorter: "read_int s = Some (v, r) \<Longrightarrow> length r < length s"
proof -
  assume r: "read_int s = Some (v, r)"
  define s1 where "s1 = dropWhile is_space s"
  obtain neg s2 where s2: "(case s1 of c # r \<Rightarrow> if c = CHR ''-'' then (True, r)
      else if c = CHR ''+'' then (False, r) else (False, s1) | [] \<Rightarrow> (False, [])) = (neg, s2)" by fastforce
  have "length s2 \<le> length s1" using s2 by (cases s1) (auto split: if_splits)
  moreover have "length s1 \<le> length s" by (simp add: s1_def length_dropWhile_le)
  moreover have "takeWhile is_digit s2 \<noteq> []" "r = dropWhile is_digit s2"
    using r s2 by (auto simp: read_int_def s1_def [symmetric] Let_def split: if_splits)
  then have "length r < length s2" by (cases s2) (auto simp: le_imp_less_Suc length_dropWhile_le split: if_splits)
  ultimately show ?thesis by linarith
qed

text \<open>\<open>while (iss >> vertex >> weight)\<close>.\<close>

function read_pairs :: "string \<Rightarrow> (int \<times> int) list" where
  "read_pairs s =
     (case read_int s of
        None \<Rightarrow> []
      | Some (vertex, r) \<Rightarrow> (case read_int r of
            None \<Rightarrow> []
          | Some (weight, r') \<Rightarrow> (vertex, weight) # read_pairs r'))"
  by pat_completeness auto
termination
  by (relation "measure length") (auto dest!: read_int_shorter)

declare read_pairs.simps [simp del]

text \<open>When the first line does not hold three integers, the variable \<open>format\<close> is indeterminate; the model
  takes it to be different from 1.\<close>

definition parse_header :: "nat \<Rightarrow> string \<Rightarrow> int res" where
  "parse_header num_lps line =
     (case read_int line of
        None \<Rightarrow> Inl (Runtime_Error ''Graph format must be 001.'')
      | Some (nvtxs, r) \<Rightarrow> (case read_int r of
          None \<Rightarrow> Inl (Runtime_Error ''Graph format must be 001.'')
        | Some (nedges, r') \<Rightarrow> (case read_int r' of
            None \<Rightarrow> Inl (Runtime_Error ''Graph format must be 001.'')
          | Some (fmt, _) \<Rightarrow>
              if fmt \<noteq> 1 then Inl (Runtime_Error ''Graph format must be 001.'')
              else if nvtxs < 0 \<or> int num_lps < nvtxs
                   then Inl (Runtime_Error ''Invalid statistics file for this simulation.'')
              else Inr nvtxs)))"

definition parse_line :: "nat \<Rightarrow> string \<Rightarrow> parse_state \<Rightarrow> parse_state res" where
  "parse_line num_lps line ps =
     (if line \<noteq> [] \<and> hd line = CHR ''%'' then
        (if length line < 2 \<or> line ! 1 \<noteq> CHR '':'' then Inr ps
         else if ps_i ps = 0 \<or> length (ps_names ps) < ps_i ps then Inl Out_Of_Range
         else if length line < 3 then Inl (Runtime_Error ''basic_string::substr'')
         else Inr (ps\<lparr>ps_names := (ps_names ps)[ps_i ps - 1 := drop 3 line]\<rparr>))
      else bindR (if ps_i ps = 0
          then bindR (parse_header num_lps line) (\<lambda>nvtxs. Inr (ps\<lparr>ps_nvtxs := nvtxs\<rparr>))
          else let pairs = read_pairs line; adjncy = ps_adjncy ps @ map (\<lambda>(vertex, w). vertex - 1) pairs
               in Inr (ps\<lparr>ps_adjncy := adjncy, ps_adjwgt := ps_adjwgt ps @ map snd pairs,
                          ps_xadj := ps_xadj ps @ [int (length adjncy)]\<rparr>))
        (\<lambda>ps'. Inr (ps'\<lparr>ps_i := ps_i ps' + 1\<rparr>)))"

definition parse_stats :: "nat \<Rightarrow> string \<Rightarrow> parse_state res" where
  "parse_stats num_lps text = foldR (parse_line num_lps) (lines_of text) (parse_new num_lps)"

section \<open>Assigning the LPs\<close>

record pg_state =
  pg_lps :: "nat list list"
  pg_xadj :: "int list list"
  pg_adjncy :: "int list list"
  pg_adjwgt :: "int list list"
  pg_numbering :: "nat list list"
  pg_left :: "string \<rightharpoonup> nat"

text \<open>Element \<open>i\<close> of a \<open>std::vector\<close>; outside its bounds the behaviour is undefined.\<close>

definition at :: "'a list \<Rightarrow> int \<Rightarrow> 'a res" where
  "at xs i = (if 0 \<le> i \<and> i < int (length xs) then Inr (xs ! nat i) else Inl Out_Of_Range)"

text \<open>The edge \<open>j\<close> of vertex in partition \<open>p\<close> is kept when its other end is in the same partition.\<close>

definition assign_edge :: "int list \<Rightarrow> parse_state \<Rightarrow> nat \<Rightarrow> int \<Rightarrow> pg_state \<Rightarrow> pg_state res" where
  "assign_edge part ps p j pg =
     bindR (at (ps_adjncy ps) j) (\<lambda>v. bindR (at part v) (\<lambda>q. bindR (at (ps_adjwgt ps) j) (\<lambda>w.
     Inr (if int p = q then pg\<lparr>pg_adjncy := push_to p v (pg_adjncy pg), pg_adjwgt := push_to p w (pg_adjwgt pg)\<rparr>
          else pg))))"

definition assign_vertex :: "int list \<Rightarrow> parse_state \<Rightarrow> nat \<Rightarrow> pg_state \<Rightarrow> pg_state res" where
  "assign_vertex part ps i pg =
     bindR (at (ps_names ps) (int i)) (\<lambda>nm.
     bindR (at part (int i)) (\<lambda>q.
     if q < 0 \<or> int (length (pg_lps pg)) \<le> q then Inl Out_Of_Range
     else let p = nat q in
     case pg_left pg nm of
       None \<Rightarrow> Inl (Runtime_Error ''unordered_map::at'')
     | Some lp \<Rightarrow>
         bindR (at (ps_xadj ps) (int i)) (\<lambda>a.
         bindR (at (ps_xadj ps) (int i + 1)) (\<lambda>b.
         bindR (foldR (assign_edge part ps p) [a..b - 1] (pg\<lparr>pg_lps := push_to p lp (pg_lps pg)\<rparr>)) (\<lambda>pg1.
         Inr (pg1\<lparr>pg_xadj := push_to p (int (length (pg_adjncy pg1 ! p))) (pg_xadj pg1),
                  pg_numbering := push_to p i (pg_numbering pg1),
                  pg_left := (pg_left pg1)(nm := None)\<rparr>))))))"

definition pg_start :: "nat \<Rightarrow> string list \<Rightarrow> pg_state" where
  "pg_start num_partitions names =
     \<lparr>pg_lps = replicate num_partitions [], pg_xadj = replicate num_partitions [0],
      pg_adjncy = replicate num_partitions [], pg_adjwgt = replicate num_partitions [],
      pg_numbering = replicate num_partitions [], pg_left = map_of (rev (zip names [0..<length names]))\<rparr>"

text \<open>The LPs that METIS did not partition are dealt out in turn, in the order of the map.\<close>

fun deal_out :: "nat \<Rightarrow> nat \<Rightarrow> nat list \<Rightarrow> nat list list \<Rightarrow> nat list list" where
  "deal_out num_partitions j [] parts = parts"
| "deal_out num_partitions j (lp # lps) parts =
     deal_out num_partitions (j + 1) lps (push_to (j mod num_partitions) lp parts)"

text \<open>\<open>text\<close> is the statistics file, if it could be opened. \<open>savePartition\<close> only writes a file and is
  modelled below.\<close>

definition pg_partition :: "(int \<Rightarrow> int list \<Rightarrow> int list \<Rightarrow> int list \<Rightarrow> nat \<Rightarrow> int list) \<Rightarrow>
    (nat list \<Rightarrow> nat list) \<Rightarrow> string list \<Rightarrow> nat \<Rightarrow> string option \<Rightarrow> nat list list res" where
  "pg_partition metis order names num_partitions file =
     (if num_partitions = 1 then Inr [[0..<length names]]
      else case file of
        None \<Rightarrow> Inl (Runtime_Error ''Could not open statistics file '')
      | Some text \<Rightarrow>
          bindR (parse_stats (length names) text) (\<lambda>ps.
          let assigned = metis (ps_nvtxs ps) (ps_xadj ps) (ps_adjncy ps) (ps_adjwgt ps) num_partitions;
              part = assigned @ replicate (length names - length assigned) 0;
              start = pg_start num_partitions names
          in bindR (foldR (assign_vertex part ps) [0..<nat (ps_nvtxs ps)] start) (\<lambda>pg.
             let left = order (filter (\<lambda>k. \<exists>nm\<in>set names. pg_left pg nm = Some k) [0..<length names])
             in Inr (deal_out num_partitions 0 left (pg_lps pg)))))"

section \<open>Writing a partition\<close>

text \<open>The content of the file that \<open>savePartition\<close> writes. It returns at the first LP without edges, without
  the final line break.\<close>

fun save_lps :: "(int \<Rightarrow> nat) \<Rightarrow> int list \<Rightarrow> int list \<Rightarrow> int list \<Rightarrow> nat \<Rightarrow> string list \<Rightarrow> string" where
  "save_lps new_number xadj adjncy adjwgt i [] = [newline]"
| "save_lps new_number xadj adjncy adjwgt i (nm # nms) =
     (if xadj ! (i + 1) - xadj ! i = 0 then ''''
      else [newline] @ ''%: '' @ nm @ [newline] @
        concat (map (\<lambda>j. show_nat (new_number (adjncy ! nat j)) @ '' '' @ show_int (adjwgt ! nat j) @ '' '')
          [xadj ! i..xadj ! (i + 1) - 1]) @
        save_lps new_number xadj adjncy adjwgt (i + 1) nms)"

definition savePartition :: "string list \<Rightarrow> int list \<Rightarrow> int list \<Rightarrow> int list \<Rightarrow> nat list \<Rightarrow> string" where
  "savePartition names xadj adjncy adjwgt numbers =
     (let num_vertices = length (filter (\<lambda>k. xadj ! (k + 1) - xadj ! k > 0) [0..<length names]);
          num_edges = length adjncy div 2;
          m = fold (\<lambda>(i, n) m. m(int n \<mapsto> i)) (zip [1..<Suc (length numbers)] numbers) Map.empty;
          new_number = (\<lambda>v. case m v of Some i \<Rightarrow> i | None \<Rightarrow> 0)
      in concat (map (\<lambda>l. l @ [newline])
           [''%% The first line contains the following information:'',
            ''%% <# of vertices> <# of edges> <file format>'']) @
         show_nat num_vertices @ '' '' @ show_nat num_edges @ '' '' @ ''001 '' @ [newline] @
         concat (map (\<lambda>l. l @ [newline])
           [''%% Lines that start with %: are comments that are ignored by Metis,'',
            ''%% but list the WARPED lp name for the Metis node described by '',
            ''%% the following line.'',
            ''%% The remaining lines each describe a vertex and have the following format:'']) @
         ''%% <<neighbor> <event count>> ...'' @
         save_lps new_number xadj adjncy adjwgt 0 names)"

end
