(* ===== verification/Event_Statistics_Props.thy ===== *)
theory Event_Statistics_Props
  imports Event_Statistics
begin

text \<open>
  What the event statistics report: the counts along the edges, the graph that is written for METIS,
  and the escaping of CSV fields.
\<close>

section \<open>Counts\<close>

lemma makeEdge_eq: "makeEdge a b = makeEdge c d \<longleftrightarrow> {a, b} = {c, d}"
  by (auto simp: makeEdge_def doubleton_eq_iff)

definition agg_run :: "(string \<times> u32 \<times> event) list \<Rightarrow> agg_stats \<Rightarrow> agg_stats" where
  "agg_run rs st = fold (\<lambda>(source, sent, e). agg_record source sent e) rs st"

definition between_count :: "string \<Rightarrow> string \<Rightarrow> (string \<times> u32 \<times> event) list \<Rightarrow> nat" where
  "between_count a b rs = length (filter (\<lambda>(source, sent, e). {source, receiverName e} = {a, b}) rs)"

lemma agg_run_snoc: "agg_run (rs @ [(s, t, e)]) st = agg_record s t e (agg_run rs st)"
  by (simp add: agg_run_def)

lemma agg_run_ok: "sm_ok (edge_stats (agg_run rs (agg_new ty)))"
proof (induction rs rule: rev_induct)
  case (snoc r rs)
  then show ?case by (cases r) (simp add: agg_run_snoc agg_record_def sm_update_ok)
qed (simp add: agg_run_def agg_new_def)

lemma agg_run_count:
  "map_of (edge_stats (agg_run rs (agg_new ty))) (makeEdge a b) =
     (if between_count a b rs = 0 then None else Some (of_nat (between_count a b rs)))"
proof (induction rs rule: rev_induct)
  case Nil
  then show ?case by (simp add: agg_run_def agg_new_def between_count_def)
next
  case (snoc r rs)
  obtain s t e where r: "r = (s, t, e)" by (cases r)
  have n: "between_count a b (rs @ [r]) =
      (if {s, receiverName e} = {a, b} then Suc (between_count a b rs) else between_count a b rs)"
    by (simp add: between_count_def r)
  show ?case
  proof (cases "{s, receiverName e} = {a, b}")
    case True
    then have "makeEdge s (receiverName e) = makeEdge a b" by (simp add: makeEdge_eq)
    then show ?thesis
      using snoc True unfolding n by (simp add: r agg_run_snoc agg_record_def map_of_sm_update agg_run_ok)
  next
    case False
    then have "makeEdge a b \<noteq> makeEdge s (receiverName e)" by (metis makeEdge_eq)
    then show ?thesis
      using snoc False unfolding n by (simp add: r agg_run_snoc agg_record_def map_of_sm_update agg_run_ok)
  qed
qed

text \<open>The aggregate statistics count, for any two LPs, the events sent in either direction between
  them, and reading an edge along which nothing was sent is an error.\<close>

theorem edges_are_counted:
  "getStat (makeEdge a b) (agg_run rs (agg_new ty)) =
     (if between_count a b rs = 0 then Inl Out_Of_Range else Inr (of_nat (between_count a b rs)))"
  by (simp add: getStat_def agg_run_count)

section \<open>The graph for METIS\<close>

definition edges_ok :: "((string \<times> string) \<times> u32) list \<Rightarrow> bool" where
  "edges_ok es \<longleftrightarrow> sm_ok es \<and> list_all (\<lambda>((a, b), n). a \<le> b) es"

lemma edges_ok_Cons: "edges_ok (((a, b), n) # es) \<Longrightarrow>
    edges_ok es \<and> a \<le> b \<and> map_of es (a, b) = None"
  by (auto simp: edges_ok_def sm_ok_def map_of_eq_None_iff)

abbreviation add_edge :: "(string \<times> string) \<times> u32 \<Rightarrow> ((string \<times> string) \<times> u32) list \<Rightarrow> ((string \<times> string) \<times> u32) list" where
  "add_edge \<equiv> \<lambda>((a, b), n) g. if a = b then g else sm_put (b, a) n (sm_put (a, b) n g)"

lemma full_graph_fold:
  assumes "edges_ok es" and "sm_ok g"
  shows "sm_ok (fold add_edge es g) \<and> map_of (fold add_edge es g) (a, b) =
    (if a \<noteq> b \<and> map_of es (makeEdge a b) \<noteq> None then map_of es (makeEdge a b) else map_of g (a, b))"
  using assms
proof (induction es arbitrary: g)
  case (Cons x es)
  obtain c d n where x: "x = ((c, d), n)" by (metis prod.exhaust)
  note ok = edges_ok_Cons [OF Cons.prems(1) [unfolded x]]
  have g: "sm_ok (add_edge x g)" using Cons.prems(2) by (simp add: x)
  note IH = Cons.IH [OF conjunct1 [OF ok] g]
  show ?case
  proof (cases "{a, b} = {c, d}")
    case True
    then have "makeEdge a b = (c, d)" using makeEdge_eq [of a b c d] ok by (simp add: makeEdge_def)
    moreover have "a \<noteq> b \<longleftrightarrow> c \<noteq> d" using True by (auto simp: doubleton_eq_iff)
    moreover have "map_of (add_edge x g) (a, b) = (if c \<noteq> d then Some n else map_of g (a, b))"
      using True Cons.prems(2) by (auto simp: x doubleton_eq_iff)
    moreover have "map_of (x # es) (c, d) = Some n" "map_of es (c, d) = None" using ok by (simp_all add: x)
    ultimately show ?thesis
      unfolding fold_Cons comp_apply by (cases "c = d") (use IH in \<open>simp_all only: simp_thms if_True if_False option.distinct\<close>)
  next
    case False
    have "makeEdge c d = (c, d)" using ok by (simp add: makeEdge_def)
    with False have "makeEdge a b \<noteq> (c, d)" using makeEdge_eq [of a b c d] by metis
    moreover from False have "(a, b) \<noteq> (c, d)" "(a, b) \<noteq> (d, c)"
      unfolding doubleton_eq_iff prod.inject by blast+
    then have "map_of (add_edge x g) (a, b) = map_of g (a, b)"
      using Cons.prems(2) by (simp add: x del: prod.inject)
    moreover have "map_of (x # es) (makeEdge a b) = map_of es (makeEdge a b)"
      unfolding x map_of.simps fst_conv by (rule fun_upd_other [OF \<open>makeEdge a b \<noteq> (c, d)\<close>])
    ultimately show ?thesis using IH unfolding fold_Cons comp_apply by (simp only:)
  qed
qed simp

lemma full_graph_ok: "edges_ok es \<Longrightarrow> sm_ok (full_graph es)"
  using full_graph_fold [of es "[]"] by (simp add: full_graph_def)

lemma map_of_full_graph:
  "edges_ok es \<Longrightarrow> map_of (full_graph es) (a, b) = (if a = b then None else map_of es (makeEdge a b))"
  using full_graph_fold [of es "[]"] by (simp add: full_graph_def)

lemma agg_run_edges_ok: "edges_ok (edge_stats (agg_run rs (agg_new ty)))"
proof -
  have "\<forall>k\<in>fst ` set (edge_stats (agg_run rs (agg_new ty))). fst k \<le> snd k"
  proof (induction rs rule: rev_induct)
    case (snoc r rs)
    then show ?case by (cases r) (auto simp: agg_run_snoc agg_record_def makeEdge_def)
  qed (simp add: agg_run_def agg_new_def)
  then show ?thesis by (auto simp: edges_ok_def agg_run_ok list_all_iff)
qed

lemma sm_ok_length: "sm_ok xs \<Longrightarrow> length xs = card (dom (map_of xs))"
  using sm_ok_distinct [of xs] by (metis distinct_card dom_map_of_conv_image_fst length_map set_map)

lemma full_graph_length:
  assumes "edges_ok es"
  shows "length (full_graph es) = 2 * length (filter (\<lambda>((a, b), n). a \<noteq> b) es)"
proof -
  let ?E = "{k \<in> dom (map_of es). fst k \<noteq> snd k}"
  have es: "sm_ok es" "\<And>a b. map_of es (a, b) \<noteq> None \<Longrightarrow> a \<le> b"
    using assms by (auto simp: edges_ok_def list_all_iff dest!: map_of_SomeD)
  have "dom (map_of (full_graph es)) = ?E \<union> prod.swap ` ?E"
  proof (intro set_eqI)
    fix k :: "string \<times> string"
    obtain a b where k: "k = (a, b)" by (cases k)
    have swap: "k \<in> prod.swap ` ?E \<longleftrightarrow> a \<noteq> b \<and> map_of es (b, a) \<noteq> None"
      unfolding k image_iff by (auto intro: bexI [of _ "(b, a)"])
    have E: "k \<in> ?E \<longleftrightarrow> a \<noteq> b \<and> map_of es (a, b) \<noteq> None" by (auto simp: k)
    have "k \<in> dom (map_of (full_graph es)) \<longleftrightarrow> a \<noteq> b \<and> map_of es (makeEdge a b) \<noteq> None"
      unfolding k domIff map_of_full_graph [OF assms] by simp
    also have "\<dots> \<longleftrightarrow> a \<noteq> b \<and> (map_of es (a, b) \<noteq> None \<or> map_of es (b, a) \<noteq> None)"
      using es(2) [of a b] es(2) [of b a] by (cases "a \<le> b") (force simp: makeEdge_def)+
    finally show "k \<in> dom (map_of (full_graph es)) \<longleftrightarrow> k \<in> ?E \<union> prod.swap ` ?E"
      unfolding Un_iff swap E by blast
  qed
  moreover have "?E \<inter> prod.swap ` ?E = {}"
  proof -
    have False if "k \<in> ?E" "k' \<in> ?E" "k = prod.swap k'" for k k'
    proof -
      obtain a b where "k = (a, b)" by (cases k)
      with that have "map_of es (a, b) \<noteq> None" "map_of es (b, a) \<noteq> None" "a \<noteq> b" by (cases k'; force)+
      with es(2) [of a b] es(2) [of b a] show False by force
    qed
    then show ?thesis by blast
  qed
  moreover have "finite ?E" by (simp add: finite_dom_map_of)
  moreover have "card (prod.swap ` ?E) = card ?E" by (simp add: card_image inj_on_def)
  moreover have "length (filter (\<lambda>((a, b), n). a \<noteq> b) es) = card ?E"
  proof -
    have P: "(\<lambda>((a, b), n :: u32). a \<noteq> (b :: string)) = (\<lambda>x. fst (fst x) \<noteq> snd (fst x))" by (simp add: fun_eq_iff)
    have "sm_ok (filter (\<lambda>((a, b), n). a \<noteq> b) es)"
      using es(1) by (simp add: sm_ok_def sorted_wrt_map sorted_wrt_filter)
    moreover have "fst ` set (filter (\<lambda>((a, b), n). a \<noteq> b) es) = ?E"
      unfolding P dom_map_of_conv_image_fst set_filter by blast
    ultimately show ?thesis using sm_ok_length [of "filter (\<lambda>((a, b), n). a \<noteq> b) es"] unfolding dom_map_of_conv_image_fst
      by (simp only:)
  qed
  ultimately show ?thesis
    using sm_ok_length [OF full_graph_ok [OF assms]] by (simp add: card_Un_disjoint)
qed

text \<open>The graph that is written for METIS has every edge between two different LPs in both
  directions, each with the count of the edge, no loops, and twice as many entries as there are
  edges, so that the number of edges in the first line is right.\<close>

theorem metis_graph_exact:
  fixes rs ty
  defines "g \<equiv> full_graph (edge_stats (agg_run rs (agg_new ty)))"
  shows "map_of g (a, b) = (if a = b \<or> between_count a b rs = 0 then None else Some (of_nat (between_count a b rs))) \<and>
    map_of g (a, b) = map_of g (b, a) \<and>
    length g div 2 = length (filter (\<lambda>((a, b), n). a \<noteq> b) (edge_stats (agg_run rs (agg_new ty))))"
proof -
  have comm: "between_count a b rs = between_count b a rs" by (simp add: between_count_def insert_commute)
  show ?thesis
    unfolding g_def map_of_full_graph [OF agg_run_edges_ok] agg_run_count
      full_graph_length [OF agg_run_edges_ok] using comm by auto
qed

section \<open>CSV\<close>

text \<open>A reader of CSV: the first field of a line and what follows it.\<close>

fun csv_quoted :: "string \<Rightarrow> string \<times> string" where
  "csv_quoted (c # d # s) =
     (if c = quote then (if d = quote then (let (f, r) = csv_quoted s in (quote # f, r)) else ('''', d # s))
      else (let (f, r) = csv_quoted (d # s) in (c # f, r)))"
| "csv_quoted [c] = (if c = quote then ('''', []) else ([c], []))"
| "csv_quoted [] = ('''', [])"

definition csv_field :: "string \<Rightarrow> string \<times> string" where
  "csv_field s = (case s of
     c # r \<Rightarrow> if c = quote then csv_quoted r
       else (takeWhile (\<lambda>c. c \<noteq> comma \<and> c \<noteq> newline) s, dropWhile (\<lambda>c. c \<noteq> comma \<and> c \<noteq> newline) s)
   | [] \<Rightarrow> ('''', []))"

lemma csv_quoted_escape:
  assumes "d \<noteq> quote"
  shows "csv_quoted (concat (map (\<lambda>c. if c = quote then [quote, quote] else [c]) s) @ quote # d # r) = (s, d # r)"
proof (induction s)
  case Nil
  then show ?case using assms by simp
next
  case (Cons c s)
  let ?t = "concat (map (\<lambda>c. if c = quote then [quote, quote] else [c]) s) @ quote # d # r"
  obtain x t where t: "?t = x # t" by (cases ?t) auto
  show ?case
  proof (cases "c = quote")
    case True
    then show ?thesis using Cons by (simp add: Let_def)
  next
    case False
    then show ?thesis using Cons t by simp
  qed
qed

text \<open>A CSV field without line breaks is read back as it was written, also when it holds commas or
  quotes.\<close>

theorem csv_field_round_trip:
  assumes "newline \<notin> set s" and "d = comma \<or> d = newline"
  shows "csv_field (csvEscape s @ d # r) = (s, d # r)"
proof (cases "comma \<notin> set s \<and> quote \<notin> set s")
  case True
  let ?P = "\<lambda>c. c \<noteq> comma \<and> c \<noteq> newline"
  have "takeWhile ?P (s @ d # r) = s" "dropWhile ?P (s @ d # r) = d # r"
    using True assms by (subst takeWhile_append2 dropWhile_append2; auto)+
  moreover have "d \<noteq> quote" using assms(2) by (auto simp: comma_def quote_def)
  ultimately show ?thesis
    using True by (cases s) (auto simp: csv_field_def csvEscape_def)
next
  case False
  have "d \<noteq> quote" using assms(2) by (auto simp: comma_def quote_def)
  then show ?thesis
    using False csv_quoted_escape [of d s r] by (auto simp: csv_field_def csvEscape_def)
qed

theorem csv_field_round_trip_witness:
  "csv_field (csvEscape [CHR ''a'', quote, comma] @ comma # ''b'') = ([CHR ''a'', quote, comma], comma # ''b'')"
  by (rule csv_field_round_trip) (simp_all add: comma_def quote_def)

end
