(* ===== verification/Partitioners_Props.thy ===== *)
theory Partitioners_Props
  imports Partitioners Event_Statistics_Props
begin

text \<open>
  Both partitioners give every LP to exactly one node, and the profile guided partitioner reads from the
  statistics file the graph that the aggregate statistics wrote.
\<close>

section \<open>Dealing out\<close>

lemma length_push_to [simp]: "length (push_to p x parts) = length parts"
  by (simp add: push_to_def)

lemma mset_push_to [simp]:
  "p < length parts \<Longrightarrow> mset (concat (push_to p x parts)) = add_mset x (mset (concat parts))"
  using concat_update_mset [of p parts "parts ! p @ [x]"] by (simp add: push_to_def)

lemma fold_push_to:
  "list_all (\<lambda>k. f k < length parts) ks \<Longrightarrow>
   length (fold (\<lambda>k. push_to (f k) (g k)) ks parts) = length parts \<and>
   mset (concat (fold (\<lambda>k. push_to (f k) (g k)) ks parts)) = mset (map g ks) + mset (concat parts)"
  by (induction ks arbitrary: parts) auto

lemma map_nth_block: "n + k \<le> length xs \<Longrightarrow> map (\<lambda>j. xs ! (n + j)) [0..<k] = take k (drop n xs)"
  by (auto intro: nth_equalityI)

lemma rr_blocks:
  assumes "0 < np" "bs * m \<le> length lps"
  shows "length (fold (\<lambda>i. fold (\<lambda>j. push_to (i mod np) (lps ! (bs * i + j))) [0..<bs]) [0..<m] (replicate np [])) = np \<and>
    mset (concat (fold (\<lambda>i. fold (\<lambda>j. push_to (i mod np) (lps ! (bs * i + j))) [0..<bs]) [0..<m] (replicate np []))) =
      mset (take (bs * m) lps)"
  using assms(2)
proof (induction m)
  case (Suc m)
  let ?parts = "fold (\<lambda>i. fold (\<lambda>j. push_to (i mod np) (lps ! (bs * i + j))) [0..<bs]) [0..<m] (replicate np [])"
  have IH: "length ?parts = np" "mset (concat ?parts) = mset (take (bs * m) lps)"
    using Suc by (simp_all add: algebra_simps)
  have blk: "map (\<lambda>j. lps ! (bs * m + j)) [0..<bs] = take bs (drop (bs * m) lps)"
    using Suc.prems by (intro map_nth_block) (simp add: add.commute)
  have "list_all (\<lambda>k. m mod np < length ?parts) [0..<bs]" using IH(1) assms(1) by (simp add: list_all_iff)
  from fold_push_to [OF this, of "\<lambda>j. lps ! (bs * m + j)"]
  have step: "length (fold (\<lambda>j. push_to (m mod np) (lps ! (bs * m + j))) [0..<bs] ?parts) = np"
    "mset (concat (fold (\<lambda>j. push_to (m mod np) (lps ! (bs * m + j))) [0..<bs] ?parts)) =
      mset (take bs (drop (bs * m) lps)) + mset (take (bs * m) lps)"
    unfolding IH(1) IH(2) blk by blast+
  have "mset (take (bs * Suc m) lps) = mset (take bs (drop (bs * m) lps)) + mset (take (bs * m) lps)"
    by (simp add: take_add [symmetric] add.commute flip: mset_append)
  with step show ?case by simp
qed simp

text \<open>The round robin partitioner gives every LP to exactly one of the partitions when there are at
  least as many LPs as partitions, whatever block size is configured; with fewer LPs than
  partitions it divides by zero.\<close>

lemma round_robin_partition:
  "(if length lps < np \<or> np = 0 then rr_partition block lps np = Inl Div_By_Zero
    else \<exists>parts bs. rr_partition block lps np = Inr (parts, bs) \<and> 0 < bs \<and> bs \<le> length lps div np \<and>
           length parts = np \<and> mset (concat parts) = mset lps)"
proof (cases "length lps < np \<or> np = 0")
  case True
  then show ?thesis by (auto simp: rr_partition_def Let_def)
next
  case False
  let ?n = "length lps"
  define bs where "bs = (if block = 0 \<or> ?n div np < block then ?n div np else block)"
  have "0 < ?n div np" using False by (simp add: div_greater_zero_iff)
  then have bs: "0 < bs" "bs \<le> ?n div np" by (auto simp: bs_def)
  then have le: "bs \<le> ?n" using div_le_dividend le_trans by blast
  define m where "m = ?n div bs"
  have m: "0 < m" "bs * m \<le> ?n" using bs le by (simp_all add: m_def div_greater_zero_iff)
  define i where "i = m - 1"
  have "m = Suc i" using m(1) by (simp add: i_def)
  then have i: "bs * i + bs = bs * m" by simp
  let ?parts1 = "fold (\<lambda>i. fold (\<lambda>j. push_to (i mod np) (lps ! (bs * i + j))) [0..<bs]) [0..<m] (replicate np [])"
  let ?parts2 = "fold (\<lambda>j. push_to (j mod np) (lps ! (bs * i + j))) [bs..<?n - bs * i] ?parts1"
  have p1: "length ?parts1 = np" "mset (concat ?parts1) = mset (take (bs * m) lps)"
    using rr_blocks [OF _ m(2), of np] False by auto
  have "list_all (\<lambda>j. j mod np < length ?parts1) [bs..<?n - bs * i]" using p1(1) False by (simp add: list_all_iff)
  from fold_push_to [OF this, of "\<lambda>j. lps ! (bs * i + j)"] p1
  have p2: "length ?parts2 = np"
    "mset (concat ?parts2) = mset (map (\<lambda>j. lps ! (bs * i + j)) [bs..<?n - bs * i]) + mset (take (bs * m) lps)"
    by simp_all
  have "map (\<lambda>j. lps ! (bs * i + j)) [bs..<?n - bs * i] = drop (bs * m) lps"
    by (intro nth_equalityI) (simp_all add: i [symmetric] add.assoc)
  then have "mset (concat ?parts2) = mset lps"
    by (simp add: p2(2)) (metis add.commute append_take_drop_id mset_append)
  moreover have "rr_partition block lps np = Inr (?parts2, bs)"
    using False bs(1) by (simp add: rr_partition_def bs_def [symmetric] m_def i_def Let_def)
  ultimately show ?thesis using False bs p2(1) by auto
qed

section \<open>Profile guided partitions\<close>

lemma assign_edges_frame:
  assumes "foldR (assign_edge part ps p) js pg = Inr pg'"
  shows "pg_lps pg' = pg_lps pg \<and> pg_left pg' = pg_left pg"
  by (rule foldR_invariant [OF _ assms]) (auto simp: assign_edge_def)

text \<open>Every LP is either assigned or left.\<close>

definition left_positions :: "string list \<Rightarrow> pg_state \<Rightarrow> nat list" where
  "left_positions names pg = filter (\<lambda>k. \<exists>nm\<in>set names. pg_left pg nm = Some k) [0..<length names]"

definition pg_inv :: "nat \<Rightarrow> string list \<Rightarrow> pg_state \<Rightarrow> bool" where
  "pg_inv np names pg \<longleftrightarrow>
     length (pg_lps pg) = np \<and>
     (\<forall>nm k. pg_left pg nm = Some k \<longrightarrow> k < length names \<and> names ! k = nm) \<and>
     mset (concat (pg_lps pg)) + mset (left_positions names pg) = mset [0..<length names]"

lemma left_positions_eq:
  assumes "\<forall>nm k. pg_left pg nm = Some k \<longrightarrow> k < length names \<and> names ! k = nm"
  shows "left_positions names pg = filter (\<lambda>k. pg_left pg (names ! k) = Some k) [0..<length names]"
  unfolding left_positions_def using assms by (intro filter_cong) (auto simp: set_conv_nth)

lemma mset_filter_remove1:
  "distinct xs \<Longrightarrow> x \<in> set xs \<Longrightarrow> P x \<Longrightarrow>
   mset (filter P xs) = add_mset x (mset (filter (\<lambda>y. P y \<and> y \<noteq> x) xs))"
proof (induction xs)
  case (Cons y xs)
  show ?case
  proof (cases "y = x")
    case True
    then have "filter (\<lambda>y. P y \<and> y \<noteq> x) xs = filter P xs" using Cons.prems by (auto intro!: filter_cong)
    then show ?thesis using True Cons.prems by simp
  qed (use Cons in auto)
qed simp

lemma assign_vertex_inv:
  assumes "assign_vertex part ps i pg = Inr pg'" and "pg_inv np names pg" and "distinct names"
  shows "pg_inv np names pg'"
proof -
  obtain nm q lp a b pg1 where v: "\<not> q < 0" "\<not> int (length (pg_lps pg)) \<le> q" "pg_left pg nm = Some lp"
    "foldR (assign_edge part ps (nat q)) [a..b - 1] (pg\<lparr>pg_lps := push_to (nat q) lp (pg_lps pg)\<rparr>) = Inr pg1"
    "pg' = pg1\<lparr>pg_xadj := push_to (nat q) (int (length (pg_adjncy pg1 ! nat q))) (pg_xadj pg1),
        pg_numbering := push_to (nat q) i (pg_numbering pg1), pg_left := (pg_left pg1)(nm := None)\<rparr>"
    using assms(1) by (auto simp: assign_vertex_def Let_def split: if_splits option.splits)
  have frame: "pg_lps pg' = push_to (nat q) lp (pg_lps pg)" "pg_left pg' = (pg_left pg)(nm := None)"
    using assign_edges_frame [OF v(4)] v(5) by simp_all
  have old: "length (pg_lps pg) = np" "\<forall>nm k. pg_left pg nm = Some k \<longrightarrow> k < length names \<and> names ! k = nm"
    "mset (concat (pg_lps pg)) + mset (left_positions names pg) = mset [0..<length names]"
    using assms(2) by (auto simp: pg_inv_def)
  have lp: "lp < length names" "names ! lp = nm" using old(2) v(3) by auto
  have new: "\<forall>nm k. pg_left pg' nm = Some k \<longrightarrow> k < length names \<and> names ! k = nm"
    using old(2) by (simp add: frame(2))
  have "left_positions names pg' = filter (\<lambda>k. pg_left pg (names ! k) = Some k \<and> k \<noteq> lp) [0..<length names]"
    unfolding left_positions_eq [OF new]
    using lp assms(3) by (intro filter_cong) (auto simp: frame(2) nth_eq_iff_index_eq)
  moreover have "mset (left_positions names pg) =
      add_mset lp (mset (filter (\<lambda>k. pg_left pg (names ! k) = Some k \<and> k \<noteq> lp) [0..<length names]))"
    unfolding left_positions_eq [OF old(2)] using lp v(3) by (intro mset_filter_remove1) auto
  ultimately have "mset (left_positions names pg) = add_mset lp (mset (left_positions names pg'))" by simp
  moreover have "mset (concat (pg_lps pg')) = add_mset lp (mset (concat (pg_lps pg)))"
    using v(1,2) by (simp add: frame(1))
  ultimately show ?thesis using old(1,3) new by (simp add: pg_inv_def frame(1))
qed

lemma pg_start_inv:
  assumes "distinct names"
  shows "pg_inv np names (pg_start np names)"
proof -
  have m: "map_of (rev (zip names [0..<length names])) nm = Some k \<longleftrightarrow> k < length names \<and> names ! k = nm" for nm k
    using assms by (simp add: map_of_eq_Some_iff rev_map [symmetric] flip: rev_map) (auto simp: in_set_zip)
  have "filter (\<lambda>k. pg_left (pg_start np names) (names ! k) = Some k) [0..<length names] = [0..<length names]"
    by (intro filter_True) (simp add: pg_start_def m)
  moreover have "\<forall>nm k. pg_left (pg_start np names) nm = Some k \<longrightarrow> k < length names \<and> names ! k = nm"
    by (simp add: pg_start_def m)
  ultimately show ?thesis
    by (simp add: pg_inv_def left_positions_eq) (simp add: pg_start_def)
qed

lemma deal_out_ok:
  "0 < np \<Longrightarrow> length parts = np \<Longrightarrow>
   length (deal_out np j lps parts) = np \<and> mset (concat (deal_out np j lps parts)) = mset lps + mset (concat parts)"
  by (induction lps arbitrary: j parts) simp_all

text \<open>When the profile guided partitioner succeeds, it gives every LP to exactly one of the
  partitions, whatever METIS answers and in whatever order the map of the remaining LPs is
  iterated, if the names of the LPs are distinct.\<close>

lemma profile_guided_partition:
  assumes "distinct names" and "0 < np" and "\<forall>xs. mset (order xs) = mset xs"
    and "pg_partition metis order names np file = Inr parts"
  shows "length parts = np \<and> mset (concat parts) = mset [0..<length names]"
proof (cases "np = 1")
  case True
  then show ?thesis using assms(4) by (auto simp: pg_partition_def)
next
  case False
  then obtain ps part pg where
    pg: "foldR (assign_vertex part ps) [0..<nat (ps_nvtxs ps)] (pg_start np names) = Inr pg"
    "parts = deal_out np 0 (order (left_positions names pg)) (pg_lps pg)"
    using assms(4) by (auto simp: pg_partition_def left_positions_def Let_def split: option.splits)
  have "pg_inv np names pg"
    using foldR_invariant [where P = "pg_inv np names", OF _ pg(1) pg_start_inv [OF assms(1)]]
      assign_vertex_inv [OF _ _ assms(1)] by blast
  then show ?thesis
    using deal_out_ok [OF assms(2), of "pg_lps pg" 0] assms(3) by (simp add: pg(2) pg_inv_def add.commute)
qed

lemma profile_guided_partition_witness:
  "\<exists>parts. pg_partition (\<lambda>_ _ _ _ _. []) id [''a'', ''b''] 2 (Some '''') = Inr parts \<and>
     length parts = 2 \<and> mset (concat parts) = {#0, 1#}"
proof -
  obtain parts where p: "pg_partition (\<lambda>_ _ _ _ _. []) id [''a'', ''b''] 2 (Some '''') = Inr parts"
    by (simp add: pg_partition_def parse_stats_def parse_new_def Let_def)
  with profile_guided_partition [OF _ _ _ p] show ?thesis by simp
qed

end
