(* ===== verification/Metis_Roundtrip.thy ===== *)
theory Metis_Roundtrip
  imports Partitioners_Props
begin

text \<open>
  The file that the aggregate statistics write for METIS is what the profile guided partitioner reads:
  the reader recovers the vertices with their names, and of every vertex its edges and their weights.
\<close>

section \<open>The file as lines\<close>

abbreviation edge_source :: "(string \<times> string) \<times> u32 \<Rightarrow> string" where
  "edge_source x \<equiv> fst (fst x)"

definition weight :: "(string \<times> string) \<times> u32 \<Rightarrow> nat" where
  "weight x = unat (max 1 (snd x))"

definition row :: "(string \<Rightarrow> nat) \<Rightarrow> ((string \<times> string) \<times> u32) list \<Rightarrow> string" where
  "row num es = concat (map (\<lambda>x. show_nat (num (snd (fst x))) @ '' '' @ show_nat (weight x) @ '' '') es)"

lemma row_simps [simp]:
  "row num [] = ''''"
  "row num (x # es) = show_nat (num (snd (fst x))) @ '' '' @ show_nat (weight x) @ '' '' @ row num es"
  by (simp_all add: row_def)

lemma metis_lines_same:
  "\<forall>x\<in>set es. edge_source x = v \<Longrightarrow> metis_lines num v (es @ rest) = row num es @ metis_lines num v rest"
  by (induction es) (auto simp: weight_def)

lemma metis_lines_group:
  assumes "es \<noteq> []" "\<forall>x\<in>set es. edge_source x = v" "v \<noteq> u"
  shows "metis_lines num u (es @ rest) = newline # ''%: '' @ v @ newline # row num es @ metis_lines num v rest"
proof -
  obtain x es' where es: "es = x # es'" using assms(1) by (cases es) auto
  obtain b n where x: "x = ((v, b), n)" using assms(2) es by (cases x) auto
  show ?thesis
    using metis_lines_same [of es' v num rest] assms by (simp add: es x weight_def)
qed

lemma metis_lines_groups:
  assumes "distinct vs" "u \<notin> set vs" "\<forall>v\<in>set vs. G v \<noteq> [] \<and> (\<forall>x\<in>set (G v). edge_source x = v)"
  shows "metis_lines num u (concat (map G vs)) =
    concat (map (\<lambda>v. newline # ''%: '' @ v @ newline # row num (G v)) vs)"
  using assms
proof (induction vs arbitrary: u)
  case (Cons v vs)
  have "metis_lines num u (G v @ concat (map G vs)) =
      newline # ''%: '' @ v @ newline # row num (G v) @ metis_lines num v (concat (map G vs))"
    using Cons.prems by (intro metis_lines_group) auto
  then show ?case using Cons by simp
qed simp

lemma ends_shift: "concat (map (\<lambda>v. newline # A v) vs) @ [newline] = newline # concat (map (\<lambda>v. A v @ [newline]) vs)"
  by (induction vs) simp_all

definition groups :: "((string \<times> string) \<times> u32) list \<Rightarrow> string \<Rightarrow> ((string \<times> string) \<times> u32) list" where
  "groups g v = filter (\<lambda>x. edge_source x = v) g"

text \<open>A sorted list falls into the groups of its sources, in their order.\<close>

lemma sorted_groups:
  fixes f :: "'a \<Rightarrow> 'b::linorder"
  assumes "sorted (map f xs)" "sorted vs" "distinct vs" "f ` set xs \<subseteq> set vs"
  shows "xs = concat (map (\<lambda>v. filter (\<lambda>x. f x = v) xs) vs)"
  using assms
proof (induction vs arbitrary: xs)
  case (Cons v vs)
  let ?ys = "dropWhile (\<lambda>x. f x = v) xs"
  have ge: "\<forall>x\<in>set xs. v \<le> f x" using Cons.prems(2,4) by auto
  have "\<forall>y\<in>set ?ys. f y \<noteq> v"
  proof (cases ?ys)
    case (Cons y ys)
    have "f y \<noteq> v" using hd_dropWhile [of "\<lambda>x. f x = v" xs] Cons by simp
    moreover have "y \<in> set xs" using set_dropWhileD [of y "\<lambda>x. f x = v" xs] Cons by simp
    ultimately have "v < f y" using ge by force
    moreover have "sorted (map f ?ys)"
      using Cons.prems(1) by (metis dropWhile_eq_drop drop_map sorted_wrt_drop)
    ultimately show ?thesis using Cons by auto
  next
    case Nil
    then show ?thesis unfolding Nil by simp
  qed
  then have "filter (\<lambda>x. f x = v) ?ys = []" by (rule filter_False)
  then have split: "filter (\<lambda>x. f x = v) xs = takeWhile (\<lambda>x. f x = v) xs"
    by (metis append_Nil2 filter_append filter_True set_takeWhileD takeWhile_dropWhile_id)
  have rest: "filter (\<lambda>x. f x = w) xs = filter (\<lambda>x. f x = w) ?ys" if "w \<in> set vs" for w
  proof -
    have "filter (\<lambda>x. f x = w) (takeWhile (\<lambda>x. f x = v) xs) = []"
      using that Cons.prems(3) by (auto simp: filter_empty_conv dest: set_takeWhileD)
    moreover have "filter (\<lambda>x. f x = w) xs = filter (\<lambda>x. f x = w) (takeWhile (\<lambda>x. f x = v) xs) @ filter (\<lambda>x. f x = w) ?ys"
      by (simp only: filter_append [symmetric] takeWhile_dropWhile_id)
    ultimately show ?thesis by simp
  qed
  have "f ` set ?ys \<subseteq> set vs"
  proof (intro image_subsetI)
    fix y assume y: "y \<in> set ?ys"
    then have "f y \<in> set (v # vs)" using set_dropWhileD [OF y] Cons.prems(4) by blast
    moreover have "f y \<noteq> v" using \<open>\<forall>y\<in>set ?ys. f y \<noteq> v\<close> y by (rule bspec)
    ultimately show "f y \<in> set vs" by simp
  qed
  moreover have "sorted (map f ?ys)"
    using Cons.prems(1) by (metis dropWhile_eq_drop drop_map sorted_wrt_drop)
  ultimately have "?ys = concat (map (\<lambda>w. filter (\<lambda>x. f x = w) ?ys) vs)"
    using Cons.prems by (intro Cons.IH) auto
  also have "\<dots> = concat (map (\<lambda>w. filter (\<lambda>x. f x = w) xs) vs)"
    using rest by (simp cong: map_cong)
  finally have "takeWhile (\<lambda>x. f x = v) xs @ ?ys = takeWhile (\<lambda>x. f x = v) xs @ concat (map (\<lambda>w. filter (\<lambda>x. f x = w) xs) vs)"
    by simp
  then show ?case by (simp add: split)
qed simp

section \<open>The vertices\<close>

lemma graph_vertices_ok:
  "sorted (graph_vertices es)" "distinct (graph_vertices es)"
  "set (graph_vertices es) = (\<Union>((a, b), n)\<in>set es. if a = b then {} else {a, b})"
proof -
  have "finite (\<Union>((a, b), n)\<in>set es. if a = b then {} else {a, b})" by (intro finite_UN_I) auto
  then show "sorted (graph_vertices es)" "distinct (graph_vertices es)"
    "set (graph_vertices es) = (\<Union>((a, b), n)\<in>set es. if a = b then {} else {a, b})"
    by (simp_all add: graph_vertices_def)
qed

lemma mem_vertices:
  "v \<in> set (graph_vertices es) \<longleftrightarrow> (\<exists>a b n. ((a, b), n) \<in> set es \<and> a \<noteq> b \<and> (v = a \<or> v = b))"
proof
  assume "v \<in> set (graph_vertices es)"
  then show "\<exists>a b n. ((a, b), n) \<in> set es \<and> a \<noteq> b \<and> (v = a \<or> v = b)"
    by (auto simp: graph_vertices_ok(3) split: if_splits, blast+)
next
  assume "\<exists>a b n. ((a, b), n) \<in> set es \<and> a \<noteq> b \<and> (v = a \<or> v = b)"
  then obtain a b n where e: "((a, b), n) \<in> set es" "a \<noteq> b" "v = a \<or> v = b" by blast
  show "v \<in> set (graph_vertices es)"
    unfolding graph_vertices_ok(3) by (rule UN_I [OF e(1)]) (use e(2,3) in auto)
qed

lemma full_graph_edge:
  assumes "edges_ok es"
  shows "(\<exists>n. ((a, b), n) \<in> set (full_graph es)) \<longleftrightarrow> a \<noteq> b \<and> map_of es (makeEdge a b) \<noteq> None"
proof -
  have "(\<exists>n. ((a, b), n) \<in> set (full_graph es)) \<longleftrightarrow> map_of (full_graph es) (a, b) \<noteq> None"
    using sm_ok_mem [OF full_graph_ok [OF assms]] by auto
  then show ?thesis using map_of_full_graph [OF assms] by simp
qed

lemma vertices_sources:
  assumes "edges_ok es"
  shows "set (graph_vertices es) = edge_source ` set (full_graph es)"
    and "x \<in> set (full_graph es) \<Longrightarrow> snd (fst x) \<in> set (graph_vertices es)"
proof -
  have edge: "(\<exists>n. ((a, b), n) \<in> set (full_graph es)) \<longleftrightarrow>
      a \<noteq> b \<and> (\<exists>n. ((a, b), n) \<in> set es \<or> ((b, a), n) \<in> set es)" for a b
  proof -
    have "map_of es k \<noteq> None \<longleftrightarrow> (\<exists>n. (k, n) \<in> set es)" for k
      using assms sm_ok_mem by (fastforce simp: edges_ok_def)
    moreover have le: "((c, d), n) \<in> set es \<Longrightarrow> c \<le> d" for c d n
      using assms by (auto simp: edges_ok_def list_all_iff)
    ultimately show ?thesis
      unfolding full_graph_edge [OF assms] using le [of a b] le [of b a]
      by (cases "a \<le> b") (simp_all add: makeEdge_def, (blast dest: antisym)+)
  qed
  show "set (graph_vertices es) = edge_source ` set (full_graph es)"
  proof (intro set_eqI iffI)
    fix v assume "v \<in> set (graph_vertices es)"
    then obtain a b n where "((a, b), n) \<in> set es" "a \<noteq> b" "v = a \<or> v = b"
      unfolding mem_vertices by blast
    then have "\<exists>w m. ((v, w), m) \<in> set (full_graph es)" using edge by metis
    then show "v \<in> edge_source ` set (full_graph es)" by force
  next
    fix v assume "v \<in> edge_source ` set (full_graph es)"
    then obtain w m where "((v, w), m) \<in> set (full_graph es)" by force
    then have "v \<noteq> w" "\<exists>n. ((v, w), n) \<in> set es \<or> ((w, v), n) \<in> set es" using edge by metis+
    then show "v \<in> set (graph_vertices es)" unfolding mem_vertices by metis
  qed
  show "snd (fst x) \<in> set (graph_vertices es)" if "x \<in> set (full_graph es)"
  proof -
    obtain a b n where x: "x = ((a, b), n)" by (metis prod.exhaust)
    then have "a \<noteq> b" "\<exists>n. ((a, b), n) \<in> set es \<or> ((b, a), n) \<in> set es" using edge that by metis+
    then show ?thesis unfolding mem_vertices x fst_conv snd_conv by metis
  qed
qed

section \<open>The lines\<close>

lemma lines_of_ends: "\<forall>l\<in>set ls. newline \<notin> set l \<Longrightarrow> lines_of (ends ls) = ls"
  by (induction ls) (simp_all add: lines_of_line)

definition metis_header :: "nat \<Rightarrow> nat \<Rightarrow> string" where
  "metis_header nv ne = show_nat nv @ '' '' @ show_nat ne @ '' '' @ ''001 ''"

definition vertex_lines :: "((string \<times> string) \<times> u32) list \<Rightarrow> string list \<Rightarrow> string list" where
  "vertex_lines g vs = concat (map (\<lambda>v. [''%: '' @ v, row (numbering vs) (groups g v)]) vs)"

definition metis_file :: "((string \<times> string) \<times> u32) list \<Rightarrow> string list \<Rightarrow> string list" where
  "metis_file g vs = metis_comment1 @ [metis_header (length vs) (length g div 2)] @ metis_comment2 @
     [metis_comment3] @ vertex_lines g vs"

lemma ends_append [simp]: "ends (xs @ ys) = ends xs @ ends ys"
  by simp

lemma ends_vertex_lines:
  "ends (concat (map (\<lambda>v. [''%: '' @ v, r v]) vs)) = concat (map (\<lambda>v. (''%: '' @ v @ newline # r v) @ [newline]) vs)"
  by (induction vs) simp_all

lemma printMetis_lines:
  fixes st
  defines "es \<equiv> edge_stats st"
  assumes "edges_ok es" and "graph_vertices es \<noteq> []" and "'''' \<notin> set (graph_vertices es)"
  shows "printMetis st = ends (metis_file (full_graph es) (graph_vertices es))"
proof -
  let ?g = "full_graph es" and ?vs = "graph_vertices es"
  let ?r = "\<lambda>v. row (numbering ?vs) (groups ?g v)"
  have "sorted_wrt (\<le>) (map fst ?g)"
    using full_graph_ok [OF assms(2)] by (simp add: sm_ok_def strict_sorted_imp_sorted)
  then have "sorted (map edge_source ?g)"
    unfolding sorted_wrt_map by (rule sorted_wrt_mono_rel [rotated]) (auto simp: less_eq_prod_def)
  then have g: "?g = concat (map (groups ?g) ?vs)"
    unfolding groups_def using graph_vertices_ok vertices_sources(1) [OF assms(2)] by (intro sorted_groups) auto
  have "\<forall>v\<in>set ?vs. groups ?g v \<noteq> [] \<and> (\<forall>x\<in>set (groups ?g v). edge_source x = v)"
    using vertices_sources(1) [OF assms(2)] by (auto simp: groups_def filter_empty_conv)
  from metis_lines_groups [OF graph_vertices_ok(2) assms(4) this, of "numbering ?vs"]
  have body: "metis_lines (numbering ?vs) '''' ?g = concat (map (\<lambda>v. newline # ''%: '' @ v @ newline # ?r v) ?vs)"
    unfolding g [symmetric] .
  have "metis_lines (numbering ?vs) '''' ?g @ [newline] = newline # ends (vertex_lines ?g ?vs)"
    unfolding body vertex_lines_def ends_vertex_lines by (rule ends_shift)
  then show ?thesis
    using assms(3) by (simp add: printMetis_def es_def metis_file_def metis_header_def Let_def)
qed

lemma row_newline: "newline \<notin> set (row num es)"
  by (induction es) simp_all

lemma metis_file_newline:
  assumes "\<forall>v\<in>set vs. newline \<notin> set v"
  shows "\<forall>l\<in>set (metis_file g vs). newline \<notin> set l"
  using assms row_newline
  by (auto simp: metis_file_def metis_comment1_def metis_comment2_def metis_comment3_def metis_header_def vertex_lines_def)

section \<open>Reading\<close>

lemma space_char [simp]: "is_space CHR '' ''" "\<not> is_digit CHR '' ''"
  by (simp_all add: is_space_def is_digit_def)

lemma read_pairs_space [simp]: "read_pairs (CHR '' '' # s) = read_pairs s"
  by (simp add: read_pairs.simps [of "CHR '' '' # s"] read_pairs.simps [of s])

lemma read_pairs_row:
  assumes "\<forall>x\<in>set es. num (snd (fst x)) < 2 ^ 31 \<and> weight x < 2 ^ 31"
  shows "read_pairs (row num es) = map (\<lambda>x. (int (num (snd (fst x))), int (weight x))) es"
  using assms
proof (induction es)
  case Nil
  then show ?case by (simp add: read_pairs.simps)
next
  case (Cons x es)
  let ?s = "show_nat (weight x) @ CHR '' '' # row num es"
  have "read_int (show_nat (num (snd (fst x))) @ CHR '' '' # ?s) = Some (int (num (snd (fst x))), CHR '' '' # ?s)"
    using Cons.prems by (intro read_int_show) simp_all
  moreover have "read_int (CHR '' '' # ?s) = Some (int (weight x), CHR '' '' # row num es)"
    using Cons.prems by (simp add: read_int_show)
  ultimately show ?case
    using Cons by (subst row_simps, subst read_pairs.simps) simp
qed

lemma parse_header_ok:
  assumes "nv < 2 ^ 31" "ne < 2 ^ 31" "nv \<le> num_lps"
  shows "parse_header num_lps (metis_header nv ne) = Inr (int nv)"
proof -
  let ?s2 = "CHR '' '' # ''001 ''" and ?s1 = "CHR '' '' # show_nat ne @ CHR '' '' # ''001 ''"
  have "read_int (metis_header nv ne) = Some (int nv, ?s1)"
    using read_int_show [OF assms(1), of "CHR '' ''"] by (simp add: metis_header_def)
  moreover have "read_int ?s1 = Some (int ne, ?s2)"
    using read_int_show [OF assms(2), of "CHR '' ''" "''001 ''"] by simp
  moreover have "read_int ?s2 = Some (1, '' '')"
    using read_int_digits [of "''001''" "CHR '' ''" "''''"] by (simp add: is_digit_def digits_value_def)
  ultimately show ?thesis using assms(3) by (simp add: parse_header_def)
qed

lemma parse_comment:
  "length line \<ge> 2 \<Longrightarrow> hd line = CHR ''%'' \<Longrightarrow> line ! 1 \<noteq> CHR '':'' \<Longrightarrow> parse_line n line ps = Inr ps"
  by (auto simp: parse_line_def)

lemma parse_comments:
  "list_all (\<lambda>line. 2 \<le> length line \<and> hd line = CHR ''%'' \<and> line ! 1 \<noteq> CHR '':'') ls \<Longrightarrow> foldR (parse_line n) ls ps = Inr ps"
  by (induction ls) (simp_all add: parse_comment)

text \<open>The two lines of a vertex.\<close>

lemma parse_vertex:
  assumes "0 < ps_i ps" "ps_i ps \<le> length (ps_names ps)" "es \<noteq> []"
    "\<forall>x\<in>set es. num (snd (fst x)) < 2 ^ 31 \<and> weight x < 2 ^ 31"
  shows "foldR (parse_line n) [''%: '' @ v, row num es] ps =
    Inr (ps\<lparr>ps_i := ps_i ps + 1, ps_names := (ps_names ps)[ps_i ps - 1 := v],
      ps_adjncy := ps_adjncy ps @ map (\<lambda>x. int (num (snd (fst x))) - 1) es,
      ps_adjwgt := ps_adjwgt ps @ map (\<lambda>x. int (weight x)) es,
      ps_xadj := ps_xadj ps @ [int (length (ps_adjncy ps) + length es)]\<rparr>)"
proof -
  obtain x es' where es: "es = x # es'" using assms(3) by (cases es) auto
  obtain c r where "show_nat (num (snd (fst x))) = c # r" "is_digit c" using show_nat_Cons .
  then have hd: "row num es \<noteq> []" "hd (row num es) \<noteq> CHR ''%''"
    by (auto simp: es is_digit_def)
  have "parse_line n (''%: '' @ v) ps = Inr (ps\<lparr>ps_names := (ps_names ps)[ps_i ps - 1 := v]\<rparr>)"
    using assms(1,2) by (simp add: parse_line_def)
  moreover have "parse_line n (row num es) ps' = Inr (ps'\<lparr>ps_i := ps_i ps' + 1,
      ps_adjncy := ps_adjncy ps' @ map (\<lambda>x. int (num (snd (fst x))) - 1) es,
      ps_adjwgt := ps_adjwgt ps' @ map (\<lambda>x. int (weight x)) es,
      ps_xadj := ps_xadj ps' @ [int (length (ps_adjncy ps') + length es)]\<rparr>)" if "0 < ps_i ps'" for ps'
    using that hd read_pairs_row [OF assms(4)] by (simp add: parse_line_def Let_def comp_def)
  ultimately show ?thesis using assms(1) by simp
qed

lemma numbering_le: "numbering vs v \<le> length vs"
proof (cases "map_of (zip vs [1..<Suc (length vs)]) v")
  case (Some i)
  then have "i \<in> set [1..<Suc (length vs)]" by (meson map_of_SomeD set_zip_rightD)
  then have "i \<le> length vs" by auto
  with Some show ?thesis by (simp only: numbering_def option.case)
qed (simp add: numbering_def)

lemma numbering_nth:
  assumes "distinct vs" "i < length vs"
  shows "numbering vs (vs ! i) = Suc i"
proof -
  have "(vs ! i, Suc i) \<in> set (zip vs [1..<Suc (length vs)])"
    using assms(2) by (auto simp: in_set_zip simp del: upt_Suc intro!: exI [of _ i])
  then show ?thesis using assms(1) by (simp add: numbering_def map_of_eq_Some_iff del: upt_Suc)
qed

text \<open>The state after the lines of the first \<open>k\<close> vertices.\<close>

definition parsed :: "nat \<Rightarrow> ((string \<times> string) \<times> u32) list \<Rightarrow> string list \<Rightarrow> nat \<Rightarrow> parse_state" where
  "parsed n g vs k = (let done = concat (map (groups g) (take k vs)) in
     \<lparr>ps_i = k + 1, ps_nvtxs = int (length vs), ps_names = take k vs @ replicate (n - k) '''',
      ps_xadj = map (\<lambda>i. int (length (concat (map (groups g) (take i vs))))) [0..<Suc k],
      ps_adjncy = map (\<lambda>x. int (numbering vs (snd (fst x))) - 1) done,
      ps_adjwgt = map (\<lambda>x. int (weight x)) done\<rparr>)"

lemma parse_vertices:
  assumes "length vs \<le> n" "length vs < 2 ^ 31" "\<forall>v\<in>set vs. groups g v \<noteq> []" "\<forall>x\<in>set g. weight x < 2 ^ 31"
    and "k \<le> length vs"
  shows "foldR (parse_line n) (concat (map (\<lambda>v. [''%: '' @ v, row (numbering vs) (groups g v)]) (take k vs)))
    (parsed n g vs 0) = Inr (parsed n g vs k)"
  using assms(5)
proof (induction k)
  case (Suc k)
  let ?v = "vs ! k" and ?ps = "parsed n g vs k"
  have take: "take (Suc k) vs = take k vs @ [?v]" using Suc.prems by (simp add: take_Suc_conv_app_nth)
  have small: "\<forall>x\<in>set (groups g ?v). numbering vs (snd (fst x)) < 2 ^ 31 \<and> weight x < 2 ^ 31"
    using assms(2,4) numbering_le [of vs] by (auto simp: groups_def intro: le_less_trans)
  have i: "ps_i ?ps = k + 1" "length (ps_names ?ps) = n" using Suc.prems assms(1) by (simp_all add: parsed_def Let_def)
  have "foldR (parse_line n) [''%: '' @ ?v, row (numbering vs) (groups g ?v)] ?ps = Inr (parsed n g vs (Suc k))"
    using Suc.prems assms(1,3) i
    by (subst parse_vertex [OF _ _ _ small])
      (simp_all add: parsed_def Let_def take list_update_append Suc_diff_Suc [symmetric])
  with Suc show ?case unfolding take by (simp add: foldR_append)
qed simp

lemma parse_metis_file:
  assumes "length vs \<le> n" "length vs < 2 ^ 31" "length g div 2 < 2 ^ 31" "\<forall>v\<in>set vs. groups g v \<noteq> []"
    "\<forall>x\<in>set g. weight x < 2 ^ 31"
  shows "foldR (parse_line n) (metis_file g vs) (parse_new n) = Inr (parsed n g vs (length vs))"
proof -
  obtain c r where "show_nat (length vs) = c # r" "is_digit c" using show_nat_Cons .
  then have "metis_header (length vs) (length g div 2) \<noteq> []" "hd (metis_header (length vs) (length g div 2)) \<noteq> CHR ''%''"
    by (auto simp: metis_header_def is_digit_def)
  then have head: "parse_line n (metis_header (length vs) (length g div 2)) (parse_new n) = Inr (parsed n g vs 0)"
    using parse_header_ok [OF assms(2,3,1)] by (simp add: parse_line_def parse_new_def parsed_def Let_def)
  have "foldR (parse_line n) metis_comment1 (parse_new n) = Inr (parse_new n)"
    by (rule parse_comments) (simp add: metis_comment1_def)
  moreover have "foldR (parse_line n) metis_comment2 ps = Inr ps" "parse_line n metis_comment3 ps = Inr ps" for ps
    by (rule parse_comments, simp add: metis_comment2_def) (rule parse_comment, simp_all add: metis_comment3_def)
  ultimately show ?thesis
    using head parse_vertices [OF assms(1,2,4,5) order_refl]
    by (simp add: metis_file_def foldR_append vertex_lines_def)
qed

text \<open>C35: The profile guided partitioner reads back what the aggregate statistics wrote: from the file it
  recovers the vertices with their names, in order, and for each of them its neighbours (counted
  from 0) and the weights of its edges, which are the counts of events but at least 1. The names
  must not be empty or hold line breaks, and counts and sizes must fit an \<open>int\<close>.\<close>

theorem metis_file_read_back:
  fixes rs :: "(string \<times> u32 \<times> event) list" and n :: nat
  defines "st \<equiv> agg_run rs (agg_new Metis)"
  defines "vs \<equiv> graph_vertices (edge_stats st)" and "g \<equiv> full_graph (edge_stats st)"
  assumes "vs \<noteq> []" "'''' \<notin> set vs" "\<forall>v\<in>set vs. newline \<notin> set v" "\<forall>x\<in>set g. weight x < 2 ^ 31"
    "length vs \<le> n" "length vs < 2 ^ 31" "length g div 2 < 2 ^ 31"
  shows "parse_stats n (printMetis st) = Inr
    \<lparr>ps_i = length vs + 1, ps_nvtxs = int (length vs), ps_names = vs @ replicate (n - length vs) '''',
     ps_xadj = map (\<lambda>i. int (length (concat (map (groups g) (take i vs))))) [0..<Suc (length vs)],
     ps_adjncy = map (\<lambda>x. int (numbering vs (snd (fst x))) - 1) (concat (map (groups g) vs)),
     ps_adjwgt = map (\<lambda>x. int (weight x)) (concat (map (groups g) vs))\<rparr>"
proof -
  have ok: "edges_ok (edge_stats st)" by (simp add: st_def agg_run_edges_ok)
  have groups: "\<forall>v\<in>set vs. groups g v \<noteq> []"
    using vertices_sources(1) [OF ok] by (auto simp: groups_def filter_empty_conv vs_def g_def)
  have "lines_of (printMetis st) = metis_file g vs"
    using printMetis_lines [OF ok] assms(4,5) lines_of_ends [OF metis_file_newline [OF assms(6)]]
    by (simp add: vs_def g_def)
  then show ?thesis
    using parse_metis_file [OF assms(8,9,10) groups assms(7)] by (simp add: parse_stats_def parsed_def Let_def)
qed

theorem metis_file_read_back_witness:
  "\<exists>ps. parse_stats 2 (printMetis (agg_run [(''a'', 0, (InitialEvent 0)\<lparr>receiverName := ''b''\<rparr>)] (agg_new Metis))) = Inr ps \<and>
     ps_names ps = [''a'', ''b''] \<and> ps_adjncy ps = [1, 0] \<and> ps_adjwgt ps = [1, 1] \<and> ps_xadj ps = [0, 1, 2]"
proof -
  let ?rs = "[(''a'', 0, (InitialEvent 0)\<lparr>receiverName := ''b''\<rparr>)] :: (string \<times> u32 \<times> event) list"
  have es: "edge_stats (agg_run ?rs (agg_new Metis)) = [((''a'', ''b''), 1)]"
    by (simp add: agg_run_def agg_new_def agg_record_def makeEdge_def InitialEvent_def)
  have ab: "''a'' < (''b'' :: string)" "''a'' \<noteq> (''b'' :: string)" by simp_all
  have vs: "graph_vertices [((''a'', ''b''), 1 :: u32)] = [''a'', ''b'']"
    using ab by (simp add: graph_vertices_def sorted_list_of_set_insert_remove)
  have g: "full_graph [((''a'', ''b''), 1)] = [((''a'', ''b''), 1), ((''b'', ''a''), 1)]"
    by (simp add: full_graph_def sm_put_def)
  have w: "\<forall>x\<in>set [((''a'', ''b''), 1), ((''b'', ''a''), 1)]. weight x < 2 ^ 31" by (simp add: weight_def)
  from metis_file_read_back [of ?rs 2, unfolded es vs g, OF _ _ _ w] show ?thesis
    by (simp add: groups_def weight_def numbering_def)
qed

end
