(* ===== verification/Ladder_Queue.thy ===== *)
theory Ladder_Queue
  imports Stl_Ordered
begin

text \<open>
  The ladder queue (\<open>src/src/LadderQueue.*\<close>), a schedule queue of the Time Warp event set: an unsorted
  list \<open>top\<close> for the events of the far future, up to eight rungs of buckets, each rung a refinement of
  one bucket of the rung before it, and a sorted \<open>bottom\<close>. This is the build without
  \<open>PARTIALLY_UNSORTED_EVENT_SET\<close>, in which \<open>bottom\<close> is a multiset ordered by \<open>compareEvents\<close>.

  Times, widths and bucket indices are 32-bit words. The code's arrays of length \<open>MAX_RUNG_CNT\<close> are lists
  of that length, the rungs too; an access to a bucket that a rung does not have is \<open>Out_Of_Range\<close>.
\<close>

section \<open>State\<close>

definition MAX_RUNG_CNT :: nat where
  "MAX_RUNG_CNT = 8"

definition THRESHOLD :: nat where
  "THRESHOLD = 50"

record ladder =
  lq_top :: "event list"
  max_ts :: u32
  min_ts :: u32
  top_start :: u32
  rungs :: "event list list list"
  rung_0_length :: u32
  n_rung :: nat
  bucket_width :: "u32 list"
  last_nonempty_bucket :: "u32 list"
  r_start :: "u32 list"
  r_current :: "u32 list"
  bottom :: "event list"

definition ladder_new :: ladder where
  "ladder_new = \<lparr>lq_top = [], max_ts = 0, min_ts = 0, top_start = 0,
     rungs = [] # replicate (MAX_RUNG_CNT - 1) (replicate THRESHOLD []), rung_0_length = 0, n_rung = 0,
     bucket_width = replicate MAX_RUNG_CNT 0, last_nonempty_bucket = replicate MAX_RUNG_CNT 0,
     r_start = replicate MAX_RUNG_CNT 0, r_current = replicate MAX_RUNG_CNT 0, bottom = []\<rparr>"

definition RUNG_BUCKET_CNT :: "nat \<Rightarrow> ladder \<Rightarrow> u32" where
  "RUNG_BUCKET_CNT r q = (if r = 0 then rung_0_length q else of_nat THRESHOLD)"

section \<open>Buckets and rungs\<close>

definition bucket :: "nat \<Rightarrow> nat \<Rightarrow> ladder \<Rightarrow> event list" where
  "bucket r b q = rungs q ! r ! b"

definition set_bucket :: "nat \<Rightarrow> nat \<Rightarrow> event list \<Rightarrow> ladder \<Rightarrow> ladder" where
  "set_bucket r b es q = q\<lparr>rungs := (rungs q)[r := (rungs q ! r)[b := es]]\<rparr>"

text \<open>The bucket of rung \<open>r\<close> for a time: the last one takes all that is later.\<close>

definition bucket_of :: "nat \<Rightarrow> u32 \<Rightarrow> ladder \<Rightarrow> u32 res" where
  "bucket_of r t q =
     (if bucket_width q ! r = 0 then Inl Div_By_Zero
      else Inr (min ((t - r_start q ! r) div bucket_width q ! r) (RUNG_BUCKET_CNT r q - 1)))"

definition push_front :: "nat \<Rightarrow> u32 \<Rightarrow> event \<Rightarrow> ladder \<Rightarrow> ladder res" where
  "push_front r b e q =
     (if r < length (rungs q) \<and> unat b < length (rungs q ! r)
      then Inr (set_bucket r (unat b) (e # bucket r (unat b) q) q) else Inl Out_Of_Range)"

definition note_nonempty :: "nat \<Rightarrow> u32 \<Rightarrow> ladder \<Rightarrow> ladder" where
  "note_nonempty r b q =
     (if last_nonempty_bucket q ! r < b + 1
      then q\<lparr>last_nonempty_bucket := (last_nonempty_bucket q)[r := b + 1]\<rparr> else q)"

definition set_r_current :: "nat \<Rightarrow> u32 \<Rightarrow> ladder \<Rightarrow> ladder" where
  "set_r_current r t q = q\<lparr>r_current := (r_current q)[r := t]\<rparr>"

text \<open>The last rung is given up.\<close>

definition drop_rung :: "ladder \<Rightarrow> ladder" where
  "drop_rung q =
     (let r = n_rung q - 1
      in q\<lparr>last_nonempty_bucket := (last_nonempty_bucket q)[r := 0], r_start := (r_start q)[r := 0],
           r_current := (r_current q)[r := 0], bucket_width := (bucket_width q)[r := 0], n_rung := r\<rparr>)"

text \<open>Moving an event into rung \<open>r\<close>, as the loops that transfer a bucket, the top or the bottom do.\<close>

definition transfer :: "nat \<Rightarrow> event \<Rightarrow> ladder \<Rightarrow> ladder res" where
  "transfer r e q =
     bindR (assertR (r_start q ! r \<le> timestamp e)) (\<lambda>_.
     bindR (bucket_of r (timestamp e) q) (\<lambda>b.
     bindR (push_front r b e q) (\<lambda>q'. Inr (note_nonempty r b q'))))"

section \<open>Creating rungs\<close>

text \<open>Rung 0 gets more buckets when it has fewer than \<open>n\<close>.\<close>

definition grow_rung_0 :: "u32 \<Rightarrow> ladder \<Rightarrow> ladder" where
  "grow_rung_0 n q =
     q\<lparr>rungs := (rungs q)[0 := rungs q ! 0 @ replicate (unat n - unat (rung_0_length q)) []],
       rung_0_length := max (rung_0_length q) n\<rparr>"

text \<open>The result: whether a rung was created, and \<open>is_bucket_width_static\<close>.\<close>

definition createNewRung :: "u32 \<Rightarrow> u32 \<Rightarrow> ladder \<Rightarrow> ((bool \<times> bool) \<times> ladder) res" where
  "createNewRung num_events init q =
     bindR (assertR (num_events \<noteq> 0)) (\<lambda>_.
     if n_rung q = 0 then
       bindR (assertR (min_ts q \<le> max_ts q)) (\<lambda>_.
       Inr ((True, False), grow_rung_0 (2 * num_events)
         (q\<lparr>bucket_width := (bucket_width q)[0 := (if min_ts q = max_ts q then 1
               else (max_ts q - min_ts q + num_events - 1) div num_events)],
            top_start := max_ts q, r_start := (r_start q)[0 := min_ts q],
            r_current := (r_current q)[0 := min_ts q],
            last_nonempty_bucket := (last_nonempty_bucket q)[0 := 0], n_rung := 1\<rparr>)))
     else if bucket_width q ! (n_rung q - 1) \<le> 1 then Inr ((False, True), q)
     else bindR (assertR (n_rung q < MAX_RUNG_CNT)) (\<lambda>_.
       let r = n_rung q
       in Inr ((True, False),
         q\<lparr>n_rung := r + 1,
           bucket_width := (bucket_width q)[r := (bucket_width q ! (r - 1) + num_events - 1) div num_events],
           r_start := (r_start q)[r := init], r_current := (r_current q)[r := init],
           last_nonempty_bucket := (last_nonempty_bucket q)[r := 0]\<rparr>)))"

definition createRungForBottomTransfer :: "u32 \<Rightarrow> ladder \<Rightarrow> ladder res" where
  "createRungForBottomTransfer start_val q0 =
     (let r = n_rung q0;
          q = q0\<lparr>n_rung := r + 1, r_start := (r_start q0)[r := start_val],
                 r_current := (r_current q0)[r := start_val],
                 last_nonempty_bucket := (last_nonempty_bucket q0)[r := 0]\<rparr>
      in if r = 0 then
           bindR (assertR (start_val \<le> top_start q)) (\<lambda>_.
           if length (bottom q) = 0 then Inl Div_By_Zero
           else Inr (grow_rung_0 (2 * of_nat (length (bottom q)))
             (q\<lparr>bucket_width := (bucket_width q)[0 :=
                  max ((top_start q - start_val) div of_nat (length (bottom q))) 1]\<rparr>)))
         else
           bindR (assertR (start_val \<le> r_current q ! (r - 1))) (\<lambda>_.
           Inr (q\<lparr>bucket_width := (bucket_width q)[r :=
                  max ((r_current q ! (r - 1) - start_val) div of_nat THRESHOLD) 1]\<rparr>)))"

section \<open>Finding the next bucket\<close>

definition first_nonempty :: "nat \<Rightarrow> ladder \<Rightarrow> nat" where
  "first_nonempty r q = length (takeWhile (\<lambda>es. es = []) (take (unat (RUNG_BUCKET_CNT r q)) (rungs q ! r)))"

text \<open>The non-empty buckets of rung \<open>r\<close> from \<open>a\<close> up to before \<open>b\<close>.\<close>

definition nonempty_between :: "nat \<Rightarrow> nat \<Rightarrow> nat \<Rightarrow> ladder \<Rightarrow> nat list" where
  "nonempty_between r a b q = filter (\<lambda>i. bucket r i q \<noteq> []) [a..<b]"

text \<open>After bucket \<open>b\<close> of rung \<open>r\<close> has moved to a new rung: \<open>r_current\<close> and the last non-empty bucket of
  \<open>r\<close> are computed again from the buckets after \<open>b\<close>.\<close>

definition recalculate :: "nat \<Rightarrow> nat \<Rightarrow> ladder \<Rightarrow> ladder" where
  "recalculate r b q =
     (case nonempty_between r (b + 1) (unat (RUNG_BUCKET_CNT r q)) q of
        [] \<Rightarrow> set_r_current r (r_start q ! r) (q\<lparr>last_nonempty_bucket := (last_nonempty_bucket q)[r := 0]\<rparr>)
      | i # js \<Rightarrow> set_r_current r (r_start q ! r + of_nat i * bucket_width q ! r)
          (q\<lparr>last_nonempty_bucket := (last_nonempty_bucket q)[r := of_nat (last (i # js)) + 1]\<rparr>))"

text \<open>One iteration of \<open>recurseRung\<close>: it ends with an index and a status, or goes on.\<close>

datatype rung_step = Found nat bool | Again

definition split_bucket :: "nat \<Rightarrow> nat \<Rightarrow> ladder \<Rightarrow> (rung_step \<times> ladder) res" where
  "split_bucket r b q =
     bindR (createNewRung (of_nat (length (bucket r b q))) (r_current q ! r) q) (\<lambda>((created, static), q1).
       if \<not> created then Inr (Found (if static then b else 0) static, q1)
       else bindR (foldR (transfer (r + 1)) (bucket r b q) q1) (\<lambda>q2.
         Inr (Again, recalculate r b (set_bucket r b [] q2))))"

definition at_bucket :: "nat \<Rightarrow> nat \<Rightarrow> ladder \<Rightarrow> ladder" where
  "at_bucket r b q = set_r_current r (r_start q ! r + of_nat b * bucket_width q ! r) q"

definition recurse_step :: "ladder \<Rightarrow> (rung_step \<times> ladder) res" where
  "recurse_step q =
     (if n_rung q = 0 then Inr (Found 0 False, q)
      else if MAX_RUNG_CNT < n_rung q then Inl Assert_Failed
      else let r = n_rung q - 1; b = first_nonempty r q
        in if b = unat (RUNG_BUCKET_CNT r q) then Inr (Again, drop_rung q)
           else if length (rungs q ! r) \<le> b then Inl Out_Of_Range
           else if length (bucket r b q) \<le> THRESHOLD then Inr (Found b True, at_bucket r b q)
           else split_bucket r b (at_bucket r b q))"

section \<open>recurseRung\<close>

text \<open>The loop ends: empty rungs are given up one by one, and once a rung is found that is not empty,
  every further iteration creates a rung that is not empty, of which there are at most eight.\<close>

definition last_rung_empty :: "ladder \<Rightarrow> bool" where
  "last_rung_empty q \<longleftrightarrow> first_nonempty (n_rung q - 1) q = unat (RUNG_BUCKET_CNT (n_rung q - 1) q)"

definition recurse_measure :: "ladder \<Rightarrow> nat" where
  "recurse_measure q = (if last_rung_empty q then n_rung q + 20 else MAX_RUNG_CNT - n_rung q)"

lemma set_r_current_sel [simp]:
  "rungs (set_r_current r t q) = rungs q" "n_rung (set_r_current r t q) = n_rung q"
  "RUNG_BUCKET_CNT i (set_r_current r t q) = RUNG_BUCKET_CNT i q" "bucket i j (set_r_current r t q) = bucket i j q"
  "first_nonempty i (set_r_current r t q) = first_nonempty i q" "lq_top (set_r_current r t q) = lq_top q"
  "bottom (set_r_current r t q) = bottom q" "last_nonempty_bucket (set_r_current r t q) = last_nonempty_bucket q"
  "r_start (set_r_current r t q) = r_start q" "bucket_width (set_r_current r t q) = bucket_width q"
  "rung_0_length (set_r_current r t q) = rung_0_length q"
  by (simp_all add: set_r_current_def RUNG_BUCKET_CNT_def bucket_def first_nonempty_def)

lemma drop_rung_sel [simp]:
  "rungs (drop_rung q) = rungs q" "n_rung (drop_rung q) = n_rung q - 1"
  "RUNG_BUCKET_CNT i (drop_rung q) = RUNG_BUCKET_CNT i q" "lq_top (drop_rung q) = lq_top q"
  "bottom (drop_rung q) = bottom q" "rung_0_length (drop_rung q) = rung_0_length q"
  "last_nonempty_bucket (drop_rung q) = (last_nonempty_bucket q)[n_rung q - 1 := 0]"
  "bucket i j (drop_rung q) = bucket i j q"
  by (simp_all add: drop_rung_def RUNG_BUCKET_CNT_def Let_def bucket_def)

lemma note_nonempty_sel [simp]:
  "rungs (note_nonempty r b q) = rungs q" "n_rung (note_nonempty r b q) = n_rung q"
  "lq_top (note_nonempty r b q) = lq_top q" "bottom (note_nonempty r b q) = bottom q"
  "rung_0_length (note_nonempty r b q) = rung_0_length q" "bucket i j (note_nonempty r b q) = bucket i j q"
  by (simp_all add: note_nonempty_def bucket_def)

lemma recalculate_sel [simp]:
  "rungs (recalculate r b q) = rungs q" "n_rung (recalculate r b q) = n_rung q"
  "lq_top (recalculate r b q) = lq_top q" "bottom (recalculate r b q) = bottom q"
  "rung_0_length (recalculate r b q) = rung_0_length q"
  by (simp_all add: recalculate_def split: list.split)

lemma set_bucket_sel [simp]:
  "n_rung (set_bucket r b es q) = n_rung q" "lq_top (set_bucket r b es q) = lq_top q"
  "bottom (set_bucket r b es q) = bottom q" "rung_0_length (set_bucket r b es q) = rung_0_length q"
  "length (rungs (set_bucket r b es q)) = length (rungs q)"
  "length (rungs (set_bucket r b es q) ! i) = length (rungs q ! i)"
  "last_nonempty_bucket (set_bucket r b es q) = last_nonempty_bucket q"
  by (auto simp: set_bucket_def nth_list_update_if list_update_beyond not_less)
    (metis length_list_update list_update_beyond not_less nth_list_update_if)

lemma bucket_set_bucket:
  "r < length (rungs q) \<Longrightarrow> b < length (rungs q ! r) \<Longrightarrow>
   bucket i j (set_bucket r b es q) = (if i = r \<and> j = b then es else bucket i j q)"
  by (auto simp: bucket_def set_bucket_def nth_list_update_if)

lemma transferD:
  assumes "transfer r e q = Inr q'"
  obtains b where "bucket_of r (timestamp e) q = Inr b" "r < length (rungs q)" "unat b < length (rungs q ! r)"
    "r_start q ! r \<le> timestamp e"
    "q' = note_nonempty r b (set_bucket r (unat b) (e # bucket r (unat b) q) q)"
  using assms by (auto simp: transfer_def push_front_def split: if_splits)

lemma bucket_of_le: "bucket_of r t q = Inr b \<Longrightarrow> b \<le> RUNG_BUCKET_CNT r q - 1"
  by (auto simp: bucket_of_def split: if_splits)

definition some_event_in :: "nat \<Rightarrow> nat \<Rightarrow> ladder \<Rightarrow> bool" where
  "some_event_in r n q \<longleftrightarrow> r < length (rungs q) \<and> (\<exists>b<n. b < length (rungs q ! r) \<and> bucket r b q \<noteq> [])"

lemma some_event_scan:
  "some_event_in r (unat (RUNG_BUCKET_CNT r q)) q \<Longrightarrow> first_nonempty r q < unat (RUNG_BUCKET_CNT r q)"
proof -
  assume "some_event_in r (unat (RUNG_BUCKET_CNT r q)) q"
  then obtain b where b: "b < unat (RUNG_BUCKET_CNT r q)" "b < length (rungs q ! r)" "bucket r b q \<noteq> []"
    by (auto simp: some_event_in_def)
  let ?xs = "take (unat (RUNG_BUCKET_CNT r q)) (rungs q ! r)"
  have "first_nonempty r q \<le> b"
  proof (rule ccontr)
    assume "\<not> first_nonempty r q \<le> b"
    then have lt: "b < length (takeWhile (\<lambda>es. es = []) ?xs)" by (simp add: first_nonempty_def)
    from nth_mem [OF this] have "takeWhile (\<lambda>es. es = []) ?xs ! b = []" by (blast dest: set_takeWhileD)
    then have "?xs ! b = []" using takeWhile_nth [OF lt] by simp
    with b show False by (simp add: bucket_def)
  qed
  with b(1) show ?thesis by simp
qed

lemma transfers_frame:
  assumes "foldR (transfer r) es q = Inr q'"
  shows "n_rung q' = n_rung q \<and> rung_0_length q' = rung_0_length q \<and> length (rungs q') = length (rungs q) \<and>
    (\<forall>i. length (rungs q' ! i) = length (rungs q ! i)) \<and> lq_top q' = lq_top q \<and> bottom q' = bottom q"
  using assms
proof (induction es arbitrary: q)
  case (Cons e es)
  then obtain q1 where q1: "transfer r e q = Inr q1" "foldR (transfer r) es q1 = Inr q'" by auto
  from q1(1) show ?case by (rule transferD) (use Cons.IH [OF q1(2)] in simp)
qed simp

lemma transfers_nonempty:
  assumes "foldR (transfer r) es q = Inr q'" and "es \<noteq> []" and "0 < r"
  shows "some_event_in r THRESHOLD q'"
  using assms
proof (induction es arbitrary: q rule: rev_induct)
  case (snoc e es)
  then obtain q1 where q1: "transfer r e q1 = Inr q'" by (auto simp: foldR_append)
  from q1 show ?case
  proof (rule transferD)
    fix b
    assume b: "bucket_of r (timestamp e) q1 = Inr b" "r < length (rungs q1)" "unat b < length (rungs q1 ! r)"
      "q' = note_nonempty r b (set_bucket r (unat b) (e # bucket r (unat b) q1) q1)"
    have "b \<le> 49" using bucket_of_le [OF b(1)] snoc.prems(3) by (simp add: RUNG_BUCKET_CNT_def THRESHOLD_def)
    then have "unat b < THRESHOLD" by (simp add: word_le_nat_alt THRESHOLD_def)
    then show "some_event_in r THRESHOLD q'"
      using b(2,3) by (auto simp: some_event_in_def b(4) bucket_set_bucket intro!: exI [of _ "unat b"])
  qed
qed simp

lemma createNewRung_sel:
  assumes "createNewRung num init q = Inr ((created, static), q')" and "n_rung q \<noteq> 0"
  shows "rungs q' = rungs q" "rung_0_length q' = rung_0_length q" "lq_top q' = lq_top q" "bottom q' = bottom q"
    "created \<Longrightarrow> n_rung q' = n_rung q + 1" "created \<Longrightarrow> n_rung q < MAX_RUNG_CNT" "\<not> created \<Longrightarrow> q' = q"
  using assms by (auto simp: createNewRung_def Let_def split: if_splits)

lemma at_bucket_sel [simp]:
  "rungs (at_bucket r b q) = rungs q" "n_rung (at_bucket r b q) = n_rung q"
  "RUNG_BUCKET_CNT i (at_bucket r b q) = RUNG_BUCKET_CNT i q" "bucket i j (at_bucket r b q) = bucket i j q"
  "lq_top (at_bucket r b q) = lq_top q" "bottom (at_bucket r b q) = bottom q"
  "last_nonempty_bucket (at_bucket r b q) = last_nonempty_bucket q" "rung_0_length (at_bucket r b q) = rung_0_length q"
  by (simp_all add: at_bucket_def)

lemma recurse_step_cases:
  assumes "recurse_step q = Inr (s, q')"
  obtains (none) "n_rung q = 0" "s = Found 0 False" "q' = q"
  | (empty) "0 < n_rung q" "n_rung q \<le> MAX_RUNG_CNT" "last_rung_empty q" "s = Again" "q' = drop_rung q"
  | (found) r b where "r = n_rung q - 1" "b = first_nonempty r q" "0 < n_rung q" "n_rung q \<le> MAX_RUNG_CNT"
      "\<not> last_rung_empty q" "b < length (rungs q ! r)" "s = Found b True" "q' = at_bucket r b q"
  | (split) r b where "r = n_rung q - 1" "b = first_nonempty r q" "0 < n_rung q" "n_rung q \<le> MAX_RUNG_CNT"
      "\<not> last_rung_empty q" "b < length (rungs q ! r)" "THRESHOLD < length (bucket r b q)"
      "split_bucket r b (at_bucket r b q) = Inr (s, q')"
  using assms unfolding recurse_step_def Let_def last_rung_empty_def
  by (simp only: not_less not_le split: if_splits) (fastforce simp: not_less not_le)+

lemma split_bucketD:
  assumes "split_bucket r b q = Inr (s, q')"
  obtains (static) "s = Found b True \<or> s = Found 0 False" "createNewRung (of_nat (length (bucket r b q))) (r_current q ! r) q = Inr ((False, s \<noteq> Found 0 False), q')"
  | (created) static q1 q2 where "s = Again"
      "createNewRung (of_nat (length (bucket r b q))) (r_current q ! r) q = Inr ((True, static), q1)"
      "foldR (transfer (r + 1)) (bucket r b q) q1 = Inr q2" "q' = recalculate r b (set_bucket r b [] q2)"
  using assms by (auto simp: split_bucket_def split: if_splits)

lemma recurse_step_decreases:
  assumes "recurse_step q = Inr (Again, q')"
  shows "recurse_measure q' < recurse_measure q"
  using assms
proof (cases rule: recurse_step_cases)
  case empty
  then show ?thesis by (auto simp: recurse_measure_def MAX_RUNG_CNT_def)
next
  case (split r b)
  from split(8) show ?thesis
  proof (cases rule: split_bucketD)
    case (created static q1 q2)
    let ?es = "bucket r b (at_bucket r b q)"
    note c = createNewRung_sel [OF created(2)]
    have n1: "n_rung q1 = n_rung q + 1" "n_rung q < MAX_RUNG_CNT" using c split(3) by simp_all
    have r1: "r + 1 = n_rung q" using split(1,3) by simp
    have "?es \<noteq> []" using split(7) by auto
    from transfers_nonempty [OF created(3) this] have some: "some_event_in (r + 1) THRESHOLD q2" by simp
    have same: "rungs q' ! (r + 1) = rungs q2 ! (r + 1)" "length (rungs q') = length (rungs q2)"
      by (simp_all add: created(4) set_bucket_def)
    then have "some_event_in (r + 1) (unat (RUNG_BUCKET_CNT (r + 1) q')) q'"
      using some by (auto simp: some_event_in_def bucket_def RUNG_BUCKET_CNT_def THRESHOLD_def)
    from some_event_scan [OF this] have "\<not> last_rung_empty q'"
      using transfers_frame [OF created(3)] n1 r1 by (simp add: last_rung_empty_def created(4))
    moreover have "n_rung q' = n_rung q + 1" using transfers_frame [OF created(3)] n1 by (simp add: created(4))
    ultimately show ?thesis using n1 split(5) by (simp add: recurse_measure_def)
  qed simp
qed simp_all

function recurseRung :: "ladder \<Rightarrow> ((nat \<times> bool) \<times> ladder) res" where
  "recurseRung q =
     (case recurse_step q of
        Inl f \<Rightarrow> Inl f
      | Inr (Found index status, q') \<Rightarrow> Inr ((index, status), q')
      | Inr (Again, q') \<Rightarrow> recurseRung q')"
  by pat_completeness auto
termination
  by (relation "measure recurse_measure") (auto dest: recurse_step_decreases)

declare recurseRung.simps [simp del]

section \<open>begin\<close>

fun bottom_front :: "ladder \<Rightarrow> event option" where
  "bottom_front q = (case bottom q of [] \<Rightarrow> None | e # es \<Rightarrow> Some e)"

text \<open>Bucket \<open>b\<close> of rung \<open>r\<close> moves to the bottom.\<close>

definition fill_bottom :: "nat \<Rightarrow> nat \<Rightarrow> ladder \<Rightarrow> ladder" where
  "fill_bottom r b q = set_bucket r b [] (q\<lparr>bottom := fold ev_insert (bucket r b q) (bottom q)\<rparr>)"

function drop_rungs :: "ladder \<Rightarrow> ladder" where
  "drop_rungs q =
     (let q' = drop_rung q
      in if n_rung q' \<noteq> 0 \<and> last_nonempty_bucket q' ! (n_rung q' - 1) = 0 then drop_rungs q' else q')"
  by pat_completeness auto
termination
  by (relation "measure n_rung") auto

declare drop_rungs.simps [simp del]

text \<open>The next non-empty bucket of rung \<open>r\<close> after \<open>b\<close>, from which \<open>r_current\<close> is computed.\<close>

definition move_on :: "nat \<Rightarrow> nat \<Rightarrow> ladder \<Rightarrow> ladder option" where
  "move_on r b q =
     (case nonempty_between r (b + 1) (unat (last_nonempty_bucket q ! r)) q of
        [] \<Rightarrow> None
      | i # js \<Rightarrow> Some (set_r_current r (r_start q ! r + of_nat i * bucket_width q ! r) q))"

definition take_from_rungs :: "nat \<Rightarrow> ladder \<Rightarrow> ladder res" where
  "take_from_rungs b q =
     (let r = n_rung q - 1; q1 = fill_bottom r b q
      in if last_nonempty_bucket q1 ! r = of_nat b + 1 then Inr (drop_rungs q1)
         else case move_on r b q1 of None \<Rightarrow> Inl Assert_Failed | Some q2 \<Rightarrow> Inr q2)"

definition take_after_top :: "nat \<Rightarrow> ladder \<Rightarrow> ladder" where
  "take_after_top b q =
     (let r = n_rung q - 1; q1 = fill_bottom r b q
      in if last_nonempty_bucket q1 ! r = of_nat b + 1 then drop_rung q1
         else case move_on r b q1 of None \<Rightarrow> drop_rung q1 | Some q2 \<Rightarrow> q2)"

text \<open>The events of the top go to the new rung 0.\<close>

definition move_top :: "ladder \<Rightarrow> ladder res" where
  "move_top q =
     bindR (createNewRung (of_nat (length (lq_top q))) (min_ts q) q) (\<lambda>((created, static), q1).
     bindR (assertR created) (\<lambda>_.
     bindR (foldR (transfer 0) (lq_top q1) q1) (\<lambda>q2. Inr (q2\<lparr>lq_top := []\<rparr>))))"

definition lq_begin :: "ladder \<Rightarrow> (event option \<times> ladder) res" where
  "lq_begin q =
     (if bottom q \<noteq> [] then Inr (bottom_front q, q)
      else bindR (recurseRung q) (\<lambda>((b, status), q1).
        if \<not> status \<and> n_rung q1 \<noteq> 0 then Inl Assert_Failed
        else if n_rung q1 \<noteq> 0 then bindR (take_from_rungs b q1) (\<lambda>q2. Inr (bottom_front q2, q2))
        else if lq_top q1 = [] then Inr (None, q1)
        else bindR (move_top q1) (\<lambda>q2. bindR (recurseRung q2) (\<lambda>((b, status), q3).
          if \<not> status then Inl Assert_Failed
          else let q4 = take_after_top b q3 in Inr (bottom_front q4, q4)))))"

section \<open>erase\<close>

text \<open>\<open>(*iter == event) && ((*iter)->receiverName() == event->receiverName())\<close>, which compares addresses.\<close>

definition same_event :: "event \<Rightarrow> event \<Rightarrow> bool" where
  "same_event e x \<longleftrightarrow> ev_ptr x = ev_ptr e \<and> receiverName x = receiverName e"

fun remove_first :: "('a \<Rightarrow> bool) \<Rightarrow> 'a list \<Rightarrow> 'a list" where
  "remove_first P [] = []"
| "remove_first P (x # xs) = (if P x then xs else x # remove_first P xs)"

text \<open>The first rung whose \<open>r_current\<close> is not after \<open>t\<close>.\<close>

definition rung_for :: "u32 \<Rightarrow> ladder \<Rightarrow> nat option" where
  "rung_for t q = find (\<lambda>r. r_current q ! r \<le> t) [0..<n_rung q]"

text \<open>After bucket \<open>b\<close> of rung \<open>r\<close> has lost an event: when it was the last one of the rung and is now
  empty, the loop goes down to a bucket that is not empty.\<close>

definition shrink_rung :: "nat \<Rightarrow> nat \<Rightarrow> ladder \<Rightarrow> ladder" where
  "shrink_rung r b q =
     (if bucket r b q = [] \<and> last_nonempty_bucket q ! r = of_nat b + 1
      then case nonempty_between r 0 b q of
          [] \<Rightarrow> set_r_current r (r_start q ! r) (q\<lparr>last_nonempty_bucket := (last_nonempty_bucket q)[r := 0]\<rparr>)
        | i # js \<Rightarrow> q\<lparr>last_nonempty_bucket := (last_nonempty_bucket q)[r := of_nat (last (i # js)) + 1]\<rparr>
      else q)"

definition erase_in_rung :: "nat \<Rightarrow> event \<Rightarrow> ladder \<Rightarrow> ladder res" where
  "erase_in_rung r e q =
     bindR (bucket_of r (timestamp e) q) (\<lambda>b.
     if length (rungs q ! r) \<le> unat b then Inl Out_Of_Range
     else if \<not> list_ex (same_event e) (bucket r (unat b) q) then Inl Assert_Failed
     else Inr (shrink_rung r (unat b)
       (set_bucket r (unat b) (remove_first (same_event e) (bucket r (unat b) q)) q)))"

definition lq_erase :: "event \<Rightarrow> ladder \<Rightarrow> (bool \<times> ladder) res" where
  "lq_erase e q =
     (if top_start q < timestamp e then
        (if lq_top q = [] then Inl Assert_Failed
         else if list_ex (same_event e) (lq_top q)
              then Inr (True, q\<lparr>lq_top := remove_first (same_event e) (lq_top q)\<rparr>) else Inr (False, q))
      else case rung_for (timestamp e) q of
          Some r \<Rightarrow> bindR (erase_in_rung r e q) (\<lambda>q'. Inr (True, q'))
        | None \<Rightarrow>
            if bottom q = [] then Inl Assert_Failed
            else Inr (True, q\<lparr>bottom := snd (ms_erase compareEvents e (bottom q))\<rparr>))"

section \<open>insert\<close>

definition insert_in_rung :: "nat \<Rightarrow> event \<Rightarrow> ladder \<Rightarrow> ladder res" where
  "insert_in_rung r e q =
     bindR (assertR (r_start q ! r \<le> timestamp e)) (\<lambda>_.
     bindR (bucket_of r (timestamp e) q) (\<lambda>b.
     let q1 = note_nonempty r b q; temp_ts = r_start q ! r + b * bucket_width q ! r
     in push_front r b e (if temp_ts < r_current q1 ! r then set_r_current r temp_ts q1 else q1)))"

definition lq_insert :: "event \<Rightarrow> ladder \<Rightarrow> ladder res" where
  "lq_insert e q =
     (let t = timestamp e; to_bottom = q\<lparr>bottom := ev_insert e (bottom q)\<rparr>
      in if top_start q < t then
           Inr (q\<lparr>min_ts := (if lq_top q = [] then t else min (min_ts q) t),
                  max_ts := (if lq_top q = [] then t else max (max_ts q) t), lq_top := e # lq_top q\<rparr>)
         else case rung_for t q of
           Some r \<Rightarrow> insert_in_rung r e q
         | None \<Rightarrow>
             if length (bottom q) < THRESHOLD \<or> MAX_RUNG_CNT \<le> n_rung q then Inr to_bottom
             else bindR (createRungForBottomTransfer (min (timestamp (hd (bottom q))) t) q) (\<lambda>q1.
               let r = n_rung q1 - 1
               in bindR (foldR (transfer r) (bottom q1) q1) (\<lambda>q2. insert_in_rung r e (q2\<lparr>bottom := []\<rparr>))))"

end
