(* ===== verification/Ladder_Queue_Inv.thy ===== *)
theory Ladder_Queue_Inv
  imports Ladder_Queue
begin

text \<open>
  The content of a ladder queue as a multiset of events, the invariant that ties
  \<open>last_nonempty_bucket_\<close> and \<open>n_rung_\<close> to the buckets, and their preservation by every operation
  of \<open>src/src/LadderQueue.cpp\<close>.
\<close>

section \<open>Content\<close>

definition rung_content :: "ladder \<Rightarrow> event multiset" where
  "rung_content q = mset (concat (concat (rungs q)))"

definition lq_content :: "ladder \<Rightarrow> event multiset" where
  "lq_content q = mset (lq_top q) + rung_content q + mset (bottom q)"

lemma concat_map_concat: "concat (map concat xsss) = concat (concat xsss)"
  by (induction xsss) simp_all

lemma multiset_exchange:
  fixes a b c d x y :: "'a multiset"
  assumes "a + b = c + d" and "x + c = y + a"
  shows "x + b = y + d"
proof -
  have "x + b + a = x + (a + b)" by (simp add: ac_simps)
  also have "\<dots> = (x + c) + d" unfolding assms(1) by (simp add: ac_simps)
  also have "\<dots> = y + d + a" unfolding assms(2) by (simp add: ac_simps)
  finally show ?thesis by (rule add_right_imp_eq)
qed

lemma rung_content_update:
  assumes "r < length (rungs q)" and "b < length (rungs q ! r)"
  shows "rung_content (set_bucket r b es q) + mset (bucket r b q) = rung_content q + mset es"
proof -
  have maps: "map concat ((rungs q)[r := (rungs q ! r)[b := es]])
      = (map concat (rungs q))[r := concat ((rungs q ! r)[b := es])]" by (simp add: map_update)
  have inner: "mset (concat ((rungs q ! r)[b := es])) + mset (bucket r b q) = mset (concat (rungs q ! r)) + mset es"
    unfolding bucket_def by (rule concat_update_mset [OF assms(2)])
  have outer: "mset (concat ((map concat (rungs q))[r := concat ((rungs q ! r)[b := es])])) + mset (concat (rungs q ! r))
      = mset (concat (map concat (rungs q))) + mset (concat ((rungs q ! r)[b := es]))"
    using concat_update_mset [of r "map concat (rungs q)"] assms(1) by simp
  from multiset_exchange [OF inner outer] show ?thesis
    unfolding rung_content_def set_bucket_def by (simp add: concat_map_concat [symmetric] maps)
qed

lemma rung_content_push:
  assumes "r < length (rungs q)" and "b < length (rungs q ! r)"
  shows "rung_content (set_bucket r b (e # bucket r b q) q) = rung_content q + {#e#}"
  using rung_content_update [OF assms, of "e # bucket r b q"] by simp

lemma rung_content_cong: "rungs q' = rungs q \<Longrightarrow> rung_content q' = rung_content q"
  by (simp add: rung_content_def)

lemma rung_content_grow [simp]: "rung_content (grow_rung_0 n q) = rung_content q"
proof (cases "rungs q")
  case Nil
  then show ?thesis by (simp add: rung_content_def grow_rung_0_def)
next
  case (Cons xs xss)
  have "concat (replicate m []) = []" for m by (induction m) simp_all
  with Cons show ?thesis by (simp add: rung_content_def grow_rung_0_def)
qed

lemma grow_rung_0_sel [simp]:
  "lq_top (grow_rung_0 n q) = lq_top q" "bottom (grow_rung_0 n q) = bottom q" "n_rung (grow_rung_0 n q) = n_rung q"
  "length (rungs (grow_rung_0 n q)) = length (rungs q)" "r_start (grow_rung_0 n q) = r_start q"
  "r_current (grow_rung_0 n q) = r_current q" "bucket_width (grow_rung_0 n q) = bucket_width q"
  "last_nonempty_bucket (grow_rung_0 n q) = last_nonempty_bucket q" "top_start (grow_rung_0 n q) = top_start q"
  by (simp_all add: grow_rung_0_def)

lemma rung_content_update_simp [simp]:
  "rung_content (q\<lparr>lq_top := x1\<rparr>) = rung_content q" "rung_content (q\<lparr>bottom := x2\<rparr>) = rung_content q"
  "rung_content (q\<lparr>n_rung := x3\<rparr>) = rung_content q" "rung_content (q\<lparr>bucket_width := x4\<rparr>) = rung_content q"
  "rung_content (q\<lparr>last_nonempty_bucket := x5\<rparr>) = rung_content q" "rung_content (q\<lparr>r_start := x6\<rparr>) = rung_content q"
  "rung_content (q\<lparr>r_current := x7\<rparr>) = rung_content q" "rung_content (q\<lparr>top_start := x8\<rparr>) = rung_content q"
  "rung_content (q\<lparr>max_ts := x9\<rparr>) = rung_content q" "rung_content (q\<lparr>min_ts := x10\<rparr>) = rung_content q"
  "rung_content (drop_rung q) = rung_content q" "rung_content (set_r_current r t q) = rung_content q"
  "rung_content (note_nonempty r b q) = rung_content q" "rung_content (recalculate r n q) = rung_content q"
  "rung_content (at_bucket r n q) = rung_content q"
  by (simp_all add: rung_content_def)

lemma content_transfer: "transfer r e q = Inr q' \<Longrightarrow> rung_content q' = rung_content q + {#e#}"
  by (erule transferD) (simp add: rung_content_push)

lemma content_transfers: "foldR (transfer r) es q = Inr q' \<Longrightarrow> rung_content q' = rung_content q + mset es"
  by (induction es arbitrary: q) (auto dest: content_transfer)

lemma content_createNewRung:
  assumes "createNewRung num init q = Inr ((created, static), q')"
  shows "rung_content q' = rung_content q" "lq_top q' = lq_top q" "bottom q' = bottom q"
  using assms by (auto simp: createNewRung_def Let_def split: if_splits)

lemma content_createRungForBottomTransfer:
  assumes "createRungForBottomTransfer t q = Inr q'"
  shows "rung_content q' = rung_content q" "lq_top q' = lq_top q" "bottom q' = bottom q"
  using assms by (auto simp: createRungForBottomTransfer_def Let_def split: if_splits)

lemma content_insert_in_rung:
  assumes "insert_in_rung r e q = Inr q'"
  shows "rung_content q' = rung_content q + {#e#}" "lq_top q' = lq_top q" "bottom q' = bottom q"
proof -
  from assms obtain b q2 where q2: "push_front r b e q2 = Inr q'"
    and eq: "q2 = note_nonempty r b q \<or> (\<exists>t. q2 = set_r_current r t (note_nonempty r b q))"
    by (auto simp: insert_in_rung_def Let_def split: if_splits)
  from eq have same: "rung_content q2 = rung_content q" "lq_top q2 = lq_top q" "bottom q2 = bottom q" by auto
  from q2 have "r < length (rungs q2)" "unat b < length (rungs q2 ! r)" and q': "q' = set_bucket r (unat b) (e # bucket r (unat b) q2) q2"
    by (simp_all add: push_front_def split: if_splits)
  then show "rung_content q' = rung_content q + {#e#}" by (simp add: rung_content_push same(1))
  show "lq_top q' = lq_top q" "bottom q' = bottom q" by (simp_all add: q' same)
qed

section \<open>Where the events are\<close>

definition in_bucket :: "nat \<Rightarrow> nat \<Rightarrow> event \<Rightarrow> ladder \<Rightarrow> bool" where
  "in_bucket r b e q \<longleftrightarrow> r < length (rungs q) \<and> b < length (rungs q ! r) \<and> e \<in> set (bucket r b q)"

lemma in_bucket_update_simp [simp]:
  "in_bucket r b e (q\<lparr>lq_top := x1\<rparr>) = in_bucket r b e q" "in_bucket r b e (q\<lparr>bottom := x2\<rparr>) = in_bucket r b e q"
  "in_bucket r b e (q\<lparr>n_rung := x3\<rparr>) = in_bucket r b e q" "in_bucket r b e (q\<lparr>bucket_width := x4\<rparr>) = in_bucket r b e q"
  "in_bucket r b e (q\<lparr>last_nonempty_bucket := x5\<rparr>) = in_bucket r b e q" "in_bucket r b e (q\<lparr>r_start := x6\<rparr>) = in_bucket r b e q"
  "in_bucket r b e (q\<lparr>r_current := x7\<rparr>) = in_bucket r b e q" "in_bucket r b e (q\<lparr>top_start := x8\<rparr>) = in_bucket r b e q"
  "in_bucket r b e (q\<lparr>max_ts := x9\<rparr>) = in_bucket r b e q" "in_bucket r b e (q\<lparr>min_ts := x10\<rparr>) = in_bucket r b e q"
  "in_bucket r b e (drop_rung q) = in_bucket r b e q" "in_bucket r b e (set_r_current i t q) = in_bucket r b e q"
  "in_bucket r b e (note_nonempty i j q) = in_bucket r b e q" "in_bucket r b e (recalculate i n q) = in_bucket r b e q"
  "in_bucket r b e (at_bucket i n q) = in_bucket r b e q"
  by (simp_all add: in_bucket_def bucket_def)

lemma in_bucket_set_bucket:
  "in_bucket i j x (set_bucket r b es q) \<longleftrightarrow>
     (if i = r \<and> j = b then r < length (rungs q) \<and> b < length (rungs q ! r) \<and> x \<in> set es else in_bucket i j x q)"
proof (cases "r < length (rungs q) \<and> b < length (rungs q ! r)")
  case True
  then show ?thesis by (auto simp: in_bucket_def bucket_set_bucket)
next
  case False
  then have "rungs (set_bucket r b es q) = rungs q"
    by (cases "r < length (rungs q)") (simp_all add: set_bucket_def list_update_beyond not_less)
  with False show ?thesis by (auto simp: in_bucket_def bucket_def)
qed

lemma in_bucket_smaller:
  assumes "set es \<subseteq> set (bucket r b q)" and "in_bucket i j x (set_bucket r b es q)"
  shows "in_bucket i j x q"
proof (cases "i = r \<and> j = b")
  case True
  with assms(2) have "r < length (rungs q)" "b < length (rungs q ! r)" "x \<in> set es"
    unfolding in_bucket_set_bucket by simp_all
  with True assms(1) show ?thesis by (simp add: in_bucket_def subset_iff)
next
  case False
  with assms(2) show ?thesis by (simp only: in_bucket_set_bucket if_False)
qed

lemma in_bucket_grow: "in_bucket r b e (grow_rung_0 n q) \<longleftrightarrow> in_bucket r b e q"
  by (cases "r = 0"; cases "rungs q") (auto simp: in_bucket_def bucket_def grow_rung_0_def nth_append)

lemma in_bucket_transfer:
  assumes "transfer r e q = Inr q'"
  obtains n where "bucket_of r (timestamp e) q = Inr n" "r_start q ! r \<le> timestamp e"
    "\<And>i j x. in_bucket i j x q' \<longleftrightarrow> in_bucket i j x q \<or> i = r \<and> j = unat n \<and> x = e"
proof -
  from assms obtain n where n: "bucket_of r (timestamp e) q = Inr n" "r < length (rungs q)" "unat n < length (rungs q ! r)"
      "r_start q ! r \<le> timestamp e"
    and q': "q' = note_nonempty r n (set_bucket r (unat n) (e # bucket r (unat n) q) q)" by (rule transferD)
  have "in_bucket i j x q' \<longleftrightarrow> in_bucket i j x q \<or> i = r \<and> j = unat n \<and> x = e" for i j x
    using n(2,3) by (auto simp: q' in_bucket_set_bucket) (simp_all add: in_bucket_def)
  with n(1,4) that show thesis by blast
qed

lemma set_rung_content: "e \<in># rung_content q \<longleftrightarrow> (\<exists>r b. in_bucket r b e q)"
proof -
  have "e \<in># rung_content q \<longleftrightarrow> (\<exists>bs\<in>set (rungs q). \<exists>es\<in>set bs. e \<in> set es)"
    by (simp add: rung_content_def)
  also have "\<dots> \<longleftrightarrow> (\<exists>r<length (rungs q). \<exists>b<length (rungs q ! r). e \<in> set (rungs q ! r ! b))"
    by (simp only: set_conv_nth bex_simps) (auto simp: set_conv_nth)
  finally show ?thesis by (simp only: in_bucket_def bucket_def) blast
qed

lemma rung_content_empty_iff: "rung_content q = {#} \<longleftrightarrow> (\<forall>r b e. \<not> in_bucket r b e q)"
  using set_rung_content [of _ q] by (metis multi_nonempty_split set_mset_empty empty_iff union_single_eq_member)

section \<open>The invariant\<close>

definition ladder_wf :: "ladder \<Rightarrow> bool" where
  "ladder_wf q \<longleftrightarrow>
     length (rungs q) = MAX_RUNG_CNT \<and> n_rung q \<le> MAX_RUNG_CNT \<and>
     length (last_nonempty_bucket q) = MAX_RUNG_CNT \<and> length (r_start q) = MAX_RUNG_CNT \<and>
     length (r_current q) = MAX_RUNG_CNT \<and> length (bucket_width q) = MAX_RUNG_CNT \<and>
     (\<forall>r<MAX_RUNG_CNT. length (rungs q ! r) = unat (RUNG_BUCKET_CNT r q))"

definition buckets_known :: "ladder \<Rightarrow> bool" where
  "buckets_known q \<longleftrightarrow>
     (\<forall>r b e. in_bucket r b e q \<longrightarrow> r < n_rung q \<and> b < unat (last_nonempty_bucket q ! r))"

definition ladder_inv :: "ladder \<Rightarrow> bool" where
  "ladder_inv q \<longleftrightarrow> ladder_wf q \<and> buckets_known q"

lemma ladder_wfD:
  assumes "ladder_wf q"
  shows "length (rungs q) = MAX_RUNG_CNT" "n_rung q \<le> MAX_RUNG_CNT" "length (last_nonempty_bucket q) = MAX_RUNG_CNT"
    "length (r_start q) = MAX_RUNG_CNT" "length (r_current q) = MAX_RUNG_CNT" "length (bucket_width q) = MAX_RUNG_CNT"
    "\<And>r. r < MAX_RUNG_CNT \<Longrightarrow> length (rungs q ! r) = unat (RUNG_BUCKET_CNT r q)"
  using assms by (auto simp: ladder_wf_def)

lemma RUNG_BUCKET_CNT_simp [simp]:
  "RUNG_BUCKET_CNT r (q\<lparr>lq_top := x1\<rparr>) = RUNG_BUCKET_CNT r q" "RUNG_BUCKET_CNT r (q\<lparr>bottom := x2\<rparr>) = RUNG_BUCKET_CNT r q"
  "RUNG_BUCKET_CNT r (q\<lparr>n_rung := x3\<rparr>) = RUNG_BUCKET_CNT r q" "RUNG_BUCKET_CNT r (q\<lparr>bucket_width := x4\<rparr>) = RUNG_BUCKET_CNT r q"
  "RUNG_BUCKET_CNT r (q\<lparr>last_nonempty_bucket := x5\<rparr>) = RUNG_BUCKET_CNT r q" "RUNG_BUCKET_CNT r (q\<lparr>r_start := x6\<rparr>) = RUNG_BUCKET_CNT r q"
  "RUNG_BUCKET_CNT r (q\<lparr>r_current := x7\<rparr>) = RUNG_BUCKET_CNT r q" "RUNG_BUCKET_CNT r (q\<lparr>top_start := x8\<rparr>) = RUNG_BUCKET_CNT r q"
  "RUNG_BUCKET_CNT r (q\<lparr>max_ts := x9\<rparr>) = RUNG_BUCKET_CNT r q" "RUNG_BUCKET_CNT r (q\<lparr>min_ts := x10\<rparr>) = RUNG_BUCKET_CNT r q"
  "RUNG_BUCKET_CNT r (set_bucket i j es q) = RUNG_BUCKET_CNT r q" "RUNG_BUCKET_CNT r (note_nonempty i n q) = RUNG_BUCKET_CNT r q"
  "RUNG_BUCKET_CNT r (recalculate i j q) = RUNG_BUCKET_CNT r q"
  by (simp_all add: RUNG_BUCKET_CNT_def)

lemma note_nonempty_len [simp]:
  "length (last_nonempty_bucket (note_nonempty r b q)) = length (last_nonempty_bucket q)"
  "r_start (note_nonempty r b q) = r_start q" "r_current (note_nonempty r b q) = r_current q"
  "bucket_width (note_nonempty r b q) = bucket_width q" "top_start (note_nonempty r b q) = top_start q"
  "min_ts (note_nonempty r b q) = min_ts q" "max_ts (note_nonempty r b q) = max_ts q"
  by (simp_all add: note_nonempty_def)

lemma set_bucket_len [simp]:
  "r_start (set_bucket r b es q) = r_start q" "r_current (set_bucket r b es q) = r_current q"
  "bucket_width (set_bucket r b es q) = bucket_width q" "top_start (set_bucket r b es q) = top_start q"
  "min_ts (set_bucket r b es q) = min_ts q" "max_ts (set_bucket r b es q) = max_ts q"
  by (simp_all add: set_bucket_def)

lemma set_r_current_len [simp]:
  "length (r_current (set_r_current r t q)) = length (r_current q)" "top_start (set_r_current r t q) = top_start q"
  "min_ts (set_r_current r t q) = min_ts q" "max_ts (set_r_current r t q) = max_ts q"
  by (simp_all add: set_r_current_def)

lemma at_bucket_len [simp]:
  "length (r_current (at_bucket r b q)) = length (r_current q)" "top_start (at_bucket r b q) = top_start q"
  "r_start (at_bucket r b q) = r_start q" "bucket_width (at_bucket r b q) = bucket_width q"
  "min_ts (at_bucket r b q) = min_ts q" "max_ts (at_bucket r b q) = max_ts q"
  by (simp_all add: at_bucket_def)

lemma recalculate_len [simp]:
  "length (r_current (recalculate r b q)) = length (r_current q)" "top_start (recalculate r b q) = top_start q"
  "length (last_nonempty_bucket (recalculate r b q)) = length (last_nonempty_bucket q)"
  "r_start (recalculate r b q) = r_start q" "bucket_width (recalculate r b q) = bucket_width q"
  "min_ts (recalculate r b q) = min_ts q" "max_ts (recalculate r b q) = max_ts q"
  by (simp_all add: recalculate_def split: list.split)

lemma drop_rung_len [simp]:
  "length (r_current (drop_rung q)) = length (r_current q)" "length (r_start (drop_rung q)) = length (r_start q)"
  "length (bucket_width (drop_rung q)) = length (bucket_width q)" "top_start (drop_rung q) = top_start q"
  "min_ts (drop_rung q) = min_ts q" "max_ts (drop_rung q) = max_ts q"
  by (simp_all add: drop_rung_def Let_def)

lemma transfer_wf:
  assumes "transfer r e q = Inr q'"
  shows "ladder_wf q' = ladder_wf q"
  using assms by (elim transferD) (simp add: ladder_wf_def)

lemma grow_wf [simp]: "ladder_wf (grow_rung_0 n q) = ladder_wf q"
proof -
  have "length (rungs (grow_rung_0 n q) ! r) = unat (RUNG_BUCKET_CNT r (grow_rung_0 n q)) \<longleftrightarrow>
      length (rungs q ! r) = unat (RUNG_BUCKET_CNT r q)" if "length (rungs q) = MAX_RUNG_CNT" for r
    using that by (auto simp: grow_rung_0_def RUNG_BUCKET_CNT_def max_def word_le_nat_alt nth_list_update_if MAX_RUNG_CNT_def)
  then show ?thesis by (auto simp: ladder_wf_def)
qed

lemma createNewRung_wf:
  assumes "createNewRung num init q = Inr ((created, static), q')" and "ladder_wf q"
  shows "ladder_wf q'"
proof (cases "n_rung q = 0")
  case True
  have "0 < MAX_RUNG_CNT" by (simp add: MAX_RUNG_CNT_def)
  with True assms show ?thesis by (auto simp: createNewRung_def) (simp_all add: ladder_wf_def)
next
  case False
  with assms show ?thesis by (auto simp: createNewRung_def Let_def split: if_splits) (simp add: ladder_wf_def)
qed

lemma createRungForBottomTransfer_wf:
  assumes "createRungForBottomTransfer t q = Inr q'" and "ladder_wf q" and "n_rung q < MAX_RUNG_CNT"
  shows "ladder_wf q'"
  using assms by (auto simp: createRungForBottomTransfer_def Let_def split: if_splits) (simp_all add: ladder_wf_def)

lemma drop_rung_wf: "ladder_wf q \<Longrightarrow> ladder_wf (drop_rung q)"
  by (auto simp: ladder_wf_def)

lemma simple_wf [simp]:
  "ladder_wf (set_bucket r b es q) = ladder_wf q" "ladder_wf (q\<lparr>bottom := x1\<rparr>) = ladder_wf q"
  "ladder_wf (q\<lparr>lq_top := x2\<rparr>) = ladder_wf q" "ladder_wf (at_bucket r b q) = ladder_wf q"
  "ladder_wf (set_r_current r t q) = ladder_wf q" "ladder_wf (recalculate r b q) = ladder_wf q"
  "ladder_wf (note_nonempty r n q) = ladder_wf q" "ladder_wf (q\<lparr>min_ts := x3\<rparr>) = ladder_wf q"
  "ladder_wf (q\<lparr>max_ts := x4\<rparr>) = ladder_wf q"
  "ladder_wf (q\<lparr>last_nonempty_bucket := (last_nonempty_bucket q)[r := t]\<rparr>) = ladder_wf q"
  by (simp_all add: ladder_wf_def)

section \<open>Preservation\<close>

lemma buckets_knownD:
  "buckets_known q \<Longrightarrow> in_bucket r b e q \<Longrightarrow> r < n_rung q \<and> b < unat (last_nonempty_bucket q ! r)"
  by (auto simp: buckets_known_def)

lemma in_bucketD:
  "ladder_wf q \<Longrightarrow> in_bucket r b e q \<Longrightarrow> r < MAX_RUNG_CNT \<and> b < unat (RUNG_BUCKET_CNT r q) \<and> e \<in> set (bucket r b q)"
  by (auto simp: in_bucket_def ladder_wf_def)

lemma in_bucketI:
  "ladder_wf q \<Longrightarrow> r < MAX_RUNG_CNT \<Longrightarrow> b < unat (RUNG_BUCKET_CNT r q) \<Longrightarrow> e \<in> set (bucket r b q) \<Longrightarrow> in_bucket r b e q"
  by (auto simp: in_bucket_def ladder_wf_def)

lemma note_nonempty_last:
  fixes b c :: u32
  assumes "r < length (last_nonempty_bucket q)" and "b < c"
  shows "last_nonempty_bucket q ! i \<le> last_nonempty_bucket (note_nonempty r b q) ! i"
    and "unat b < unat (last_nonempty_bucket (note_nonempty r b q) ! r)"
proof -
  have b: "unat (b + 1) = Suc (unat b)" using assms(2) by (rule unat_plus_one_less)
  show "last_nonempty_bucket q ! i \<le> last_nonempty_bucket (note_nonempty r b q) ! i"
    using assms(1) by (cases "i = r") (auto simp: note_nonempty_def nth_list_update_if)
  show "unat b < unat (last_nonempty_bucket (note_nonempty r b q) ! r)"
    using assms(1) b by (auto simp: note_nonempty_def not_less word_le_nat_alt)
qed

lemma transfer_known:
  assumes "transfer r e q = Inr q'" and "ladder_inv q" and "r < n_rung q"
  shows "ladder_inv q'"
  using assms(1)
proof (rule transferD)
  fix b :: u32
  let ?q1 = "set_bucket r (unat b) (e # bucket r (unat b) q) q"
  assume b: "r < length (rungs q)" "unat b < length (rungs q ! r)" and q': "q' = note_nonempty r b ?q1"
  have wf: "ladder_wf q" and known: "buckets_known q" using assms(2) by (simp_all add: ladder_inv_def)
  have bc: "b < RUNG_BUCKET_CNT r q" using b wf by (simp add: ladder_wf_def word_less_nat_alt)
  have rl: "r < length (last_nonempty_bucket q)" using b wf by (simp add: ladder_wf_def)
  have "i < n_rung q' \<and> j < unat (last_nonempty_bucket q' ! i)" if "in_bucket i j x q'" for i j x
  proof (cases "i = r \<and> j = unat b")
    case True
    then show ?thesis using note_nonempty_last(2) [of r ?q1, OF _ bc] rl assms(3) by (simp add: q')
  next
    case False
    then have "in_bucket i j x q" using that by (auto simp: q' in_bucket_set_bucket split: if_splits)
    with known have old: "i < n_rung q" "j < unat (last_nonempty_bucket q ! i)" by (auto dest: buckets_knownD)
    have "last_nonempty_bucket q ! i \<le> last_nonempty_bucket q' ! i"
      using note_nonempty_last(1) [of r ?q1, OF _ bc] rl by (simp add: q')
    with old show ?thesis by (simp add: q' word_le_nat_alt)
  qed
  then show "ladder_inv q'" using wf by (simp add: ladder_inv_def buckets_known_def q')
qed

lemma transfers_inv:
  assumes "foldR (transfer r) es q = Inr q'" and "ladder_inv q" and "r < n_rung q"
  shows "ladder_inv q'"
  using assms
proof (induction es arbitrary: q)
  case (Cons e es)
  then obtain q1 where q1: "transfer r e q = Inr q1" "foldR (transfer r) es q1 = Inr q'" by auto
  have "n_rung q1 = n_rung q" using q1(1) by (elim transferD) simp
  with Cons.IH [OF q1(2)] transfer_known [OF q1(1) Cons.prems(2,3)] Cons.prems(3) show ?case by simp
qed simp

lemma in_bucket_createNewRung:
  assumes "createNewRung num init q = Inr ((created, static), q')"
  shows "in_bucket r b e q' = in_bucket r b e q"
  using assms by (auto simp: createNewRung_def Let_def in_bucket_grow split: if_splits)

lemma in_bucket_createRungForBottomTransfer:
  assumes "createRungForBottomTransfer t q = Inr q'"
  shows "in_bucket r b e q' = in_bucket r b e q"
  using assms by (auto simp: createRungForBottomTransfer_def Let_def in_bucket_grow split: if_splits)

lemma new_rung_known:
  assumes "buckets_known q" and "\<And>r b e. in_bucket r b e q' = in_bucket r b e q" and "n_rung q' = n_rung q + 1"
    and "\<And>r. r < n_rung q \<Longrightarrow> last_nonempty_bucket q' ! r = last_nonempty_bucket q ! r"
  shows "buckets_known q'"
  using assms by (force simp: buckets_known_def)

lemma createNewRung_inv:
  assumes "createNewRung num init q = Inr ((created, static), q')" and "ladder_inv q"
  shows "ladder_inv q'"
proof (cases created)
  case True
  then have "n_rung q' = n_rung q + 1" "\<And>r. r < n_rung q \<Longrightarrow> last_nonempty_bucket q' ! r = last_nonempty_bucket q ! r"
    using assms(1) by (auto simp: createNewRung_def Let_def split: if_splits)
  from new_rung_known [OF _ in_bucket_createNewRung [OF assms(1)] this] createNewRung_wf [OF assms(1)] assms(2)
  show ?thesis by (simp add: ladder_inv_def)
next
  case False
  then have "q' = q" using assms(1) by (auto simp: createNewRung_def Let_def split: if_splits)
  with assms(2) show ?thesis by simp
qed

lemma createRungForBottomTransfer_inv:
  assumes "createRungForBottomTransfer t q = Inr q'" and "ladder_inv q" and "n_rung q < MAX_RUNG_CNT"
  shows "ladder_inv q'" "n_rung q' = n_rung q + 1"
proof -
  show n: "n_rung q' = n_rung q + 1"
    using assms(1) by (auto simp: createRungForBottomTransfer_def Let_def split: if_splits)
  have "\<And>r. r < n_rung q \<Longrightarrow> last_nonempty_bucket q' ! r = last_nonempty_bucket q ! r"
    using assms(1) by (auto simp: createRungForBottomTransfer_def Let_def split: if_splits)
  from new_rung_known [OF _ in_bucket_createRungForBottomTransfer [OF assms(1)] n this]
    createRungForBottomTransfer_wf [OF assms(1) _ assms(3)] assms(2)
  show "ladder_inv q'" by (simp add: ladder_inv_def)
qed

lemma set_nonempty_between: "i \<in> set (nonempty_between r a c q) \<longleftrightarrow> a \<le> i \<and> i < c \<and> bucket r i q \<noteq> []"
  by (auto simp: nonempty_between_def)

lemma sorted_last_max: "sorted xs \<Longrightarrow> x \<in> set xs \<Longrightarrow> x \<le> last xs"
  by (induction xs rule: rev_induct) (auto simp: sorted_append)

lemma unat_of_nat_below:
  assumes "n < unat (c :: u32)"
  shows "unat (of_nat n :: u32) = n" "unat (of_nat n + 1 :: u32) = Suc n"
proof -
  have "n < 2 ^ 32" using assms unat_less_power_32 [of c] by simp
  then show eq: "unat (of_nat n :: u32) = n" by (simp add: unsigned_of_nat take_bit_nat_eq_self)
  have "of_nat n < c" using assms eq by (simp add: word_less_nat_alt)
  from unat_plus_one_less [OF this] eq show "unat (of_nat n + 1 :: u32) = Suc n" by simp
qed

lemma nonempty_between_last:
  assumes "i \<in> set (nonempty_between r a c q)"
  shows "i \<le> last (nonempty_between r a c q)" "last (nonempty_between r a c q) < c"
proof -
  let ?is = "nonempty_between r a c q"
  have ne: "?is \<noteq> []" using assms by auto
  have "sorted ?is" by (simp add: nonempty_between_def sorted_wrt_filter)
  then show "i \<le> last ?is" using assms by (rule sorted_last_max)
  show "last ?is < c" using last_in_set [OF ne] by (simp only: set_nonempty_between)
qed

lemma nonempty_between_first:
  assumes "nonempty_between r a c q = i # js" and "j \<in> set (i # js)"
  shows "i \<le> j"
proof -
  have "sorted (nonempty_between r a c q)" by (simp add: nonempty_between_def sorted_wrt_filter)
  with assms show ?thesis by auto
qed

lemma first_nonempty_before: "j < first_nonempty r q \<Longrightarrow> bucket r j q = []"
proof -
  let ?xs = "take (unat (RUNG_BUCKET_CNT r q)) (rungs q ! r)"
  assume "j < first_nonempty r q"
  then have lt: "j < length (takeWhile (\<lambda>es. es = []) ?xs)" by (simp add: first_nonempty_def)
  from nth_mem [OF this] have "takeWhile (\<lambda>es. es = []) ?xs ! j = []" by (blast dest: set_takeWhileD)
  then have "?xs ! j = []" using takeWhile_nth [OF lt] by simp
  moreover have "j < length ?xs" using lt length_takeWhile_le [of "\<lambda>es. es = []" ?xs] by linarith
  ultimately show ?thesis by (simp add: bucket_def)
qed

lemma first_nonempty_le: "first_nonempty r q \<le> unat (RUNG_BUCKET_CNT r q)"
  by (simp add: first_nonempty_def) (metis length_take length_takeWhile_le min.boundedE)

lemma first_nonempty_hit:
  assumes "first_nonempty r q \<noteq> unat (RUNG_BUCKET_CNT r q)" and "first_nonempty r q < length (rungs q ! r)"
  shows "bucket r (first_nonempty r q) q \<noteq> []"
proof -
  let ?xs = "take (unat (RUNG_BUCKET_CNT r q)) (rungs q ! r)"
  have "first_nonempty r q < length ?xs" using assms first_nonempty_le [of r q] by simp
  then have "?xs ! first_nonempty r q \<noteq> []"
    using nth_length_takeWhile [of "\<lambda>es. es = []" ?xs] by (simp add: first_nonempty_def)
  then show ?thesis using assms first_nonempty_le [of r q] by (simp add: bucket_def)
qed

lemma in_bucket_first: "in_bucket r j e q \<Longrightarrow> first_nonempty r q \<le> j"
  using first_nonempty_before [of j r q] by (force simp: in_bucket_def not_less)

lemma last_rung_emptyD:
  assumes "last_rung_empty q" and "ladder_wf q"
  shows "\<not> in_bucket (n_rung q - 1) b e q"
  using assms in_bucket_first [of "n_rung q - 1" b e q] in_bucketD [OF assms(2), of "n_rung q - 1" b e]
  by (auto simp: last_rung_empty_def)

lemma drop_rung_known:
  assumes "buckets_known q" and "\<And>b e. \<not> in_bucket (n_rung q - 1) b e q"
  shows "buckets_known (drop_rung q)"
  unfolding buckets_known_def
proof (intro allI impI)
  fix r b e
  assume "in_bucket r b e (drop_rung q)"
  then have old: "in_bucket r b e q" by simp
  then have "r \<noteq> n_rung q - 1" using assms(2) by blast
  with buckets_knownD [OF assms(1) old]
  show "r < n_rung (drop_rung q) \<and> b < unat (last_nonempty_bucket (drop_rung q) ! r)" by auto
qed

lemma recalculate_known:
  assumes wf: "ladder_wf q" and "r < MAX_RUNG_CNT"
    and others: "\<And>i j e. in_bucket i j e q \<Longrightarrow> i < n_rung q \<and> (if i = r then b < j else j < unat (last_nonempty_bucket q ! i))"
  shows "buckets_known (recalculate r b q)"
  unfolding buckets_known_def
proof (intro allI impI)
  fix i j e
  assume "in_bucket i j e (recalculate r b q)"
  then have e: "in_bucket i j e q" by simp
  note in_bucketD [OF wf e] and others [OF e]
  let ?is = "nonempty_between r (b + 1) (unat (RUNG_BUCKET_CNT r q)) q"
  show "i < n_rung (recalculate r b q) \<and> j < unat (last_nonempty_bucket (recalculate r b q) ! i)"
  proof (cases "i = r")
    case True
    have mem: "j \<in> set ?is" using in_bucketD [OF wf e] others [OF e] True by (auto simp: set_nonempty_between)
    then obtain k ks where ks: "?is = k # ks" by (cases ?is) auto
    have l: "last ?is < unat (RUNG_BUCKET_CNT r q)" "j \<le> last ?is" by (rule nonempty_between_last [OF mem])+
    have "unat (of_nat (last ?is) + 1 :: u32) = Suc (last ?is)" by (rule unat_of_nat_below(2) [OF l(1)])
    with l ks True assms(2) wf others [OF e] show ?thesis
      by (simp add: recalculate_def ladder_wfD set_r_current_def)
  next
    case False
    have "last_nonempty_bucket (recalculate r b q) ! i = last_nonempty_bucket q ! i"
      using False by (simp add: recalculate_def split: list.split)
    with False others [OF e] show ?thesis by simp
  qed
qed

lemma bucket_transfers:
  assumes "foldR (transfer r) es q = Inr q'" and "i \<noteq> r"
  shows "bucket i j q' = bucket i j q" "in_bucket i j x q' = in_bucket i j x q"
proof -
  have "bucket i j q' = bucket i j q"
    by (rule foldR_invariant [where P = "\<lambda>s. bucket i j s = bucket i j q", OF _ assms(1)])
      (use assms(2) in \<open>auto elim!: transferD simp: bucket_set_bucket\<close>)
  then show "bucket i j q' = bucket i j q" .
  with transfers_frame [OF assms(1)] show "in_bucket i j x q' = in_bucket i j x q" by (simp add: in_bucket_def)
qed

lemma at_bucket_known [simp]: "buckets_known (at_bucket r b q) = buckets_known q"
  by (simp add: buckets_known_def)

lemma first_nonempty_at_bucket [simp]: "first_nonempty i (at_bucket r b q) = first_nonempty i q"
  by (simp add: at_bucket_def)

lemma at_bucket_inv [simp]: "ladder_inv (at_bucket r b q) = ladder_inv q"
  by (simp add: ladder_inv_def)

lemma split_bucket_inv:
  assumes "split_bucket r b q = Inr (s, q')" and inv: "ladder_inv q" and r: "r = n_rung q - 1" "0 < n_rung q"
    and b: "b < length (rungs q ! r)" "\<And>j. j < b \<Longrightarrow> bucket r j q = []"
  shows "ladder_inv q' \<and> rung_content q' = rung_content q \<and> lq_top q' = lq_top q \<and> bottom q' = bottom q \<and>
     (s = Again \<or> s = Found b True \<and> q' = q)"
  using assms(1)
proof (cases rule: split_bucketD)
  case static
  then have "q' = q" "s \<noteq> Found 0 False"
    using r(2) by (auto simp: createNewRung_def Let_def split: if_splits)
  with static(1) inv show ?thesis by simp
next
  case (created static q1 q2)
  let ?q3 = "set_bucket r b [] q2"
  have n: "n_rung q1 = n_rung q + 1" "r + 1 = n_rung q" using createNewRung_sel(5) [OF created(2)] r by simp_all
  note inv1 = createNewRung_inv [OF created(2) inv]
  from transfers_inv [OF created(3) inv1] n have inv2: "ladder_inv q2" by simp
  note frame = transfers_frame [OF created(3)]
  note c1 = content_createNewRung [OF created(2)]
  have rr: "rungs q1 = rungs q" using createNewRung_sel(1) [OF created(2)] r by simp
  have rb: "r < length (rungs q2)" "b < length (rungs q2 ! r)" "r < MAX_RUNG_CNT"
    using inv b frame rr r by (auto simp: ladder_inv_def ladder_wf_def)
  have same: "bucket r j q2 = bucket r j q" for j
    using bucket_transfers(1) [OF created(3)] rr by (simp add: bucket_def)
  have "rung_content ?q3 + mset (bucket r b q) = rung_content q + mset (bucket r b q)"
    using rung_content_update [OF rb(1,2), of "[]"] content_transfers [OF created(3)] c1(1) same by simp
  then have content: "rung_content ?q3 = rung_content q" by simp
  have "i < n_rung ?q3 \<and> (if i = r then b < j else j < unat (last_nonempty_bucket ?q3 ! i))"
    if "in_bucket i j e ?q3" for i j e
  proof (cases "i = r")
    case True
    then have "j \<noteq> b" "bucket r j q \<noteq> []"
      using that same rb by (auto simp: in_bucket_set_bucket in_bucket_def bucket_set_bucket split: if_splits)
    with b(2) [of j] have "b < j" by (cases "j < b") auto
    with True n frame show ?thesis by simp
  next
    case False
    with that have "in_bucket i j e q2" by (simp add: in_bucket_set_bucket)
    with inv2 False show ?thesis by (auto simp: ladder_inv_def dest: buckets_knownD)
  qed
  from recalculate_known [OF _ rb(3) this] inv2 have "ladder_inv q'"
    by (simp add: ladder_inv_def created(4))
  with content c1 frame created(1) show ?thesis by (simp add: created(4))
qed

text \<open>Bucket \<open>b\<close> is the first of the last rung that is not empty.\<close>

definition next_bucket_is :: "nat \<Rightarrow> ladder \<Rightarrow> bool" where
  "next_bucket_is b q \<longleftrightarrow> 0 < n_rung q \<and> b = first_nonempty (n_rung q - 1) q \<and> \<not> last_rung_empty q \<and>
     b < length (rungs q ! (n_rung q - 1))"

lemma recurse_step_inv:
  assumes "recurse_step q = Inr (s, q')" and inv: "ladder_inv q"
  shows "ladder_inv q' \<and> rung_content q' = rung_content q \<and> lq_top q' = lq_top q \<and> bottom q' = bottom q \<and>
     (case s of Again \<Rightarrow> True | Found b status \<Rightarrow>
        if status then next_bucket_is b q' else n_rung q' = 0)"
  using assms(1)
proof (cases rule: recurse_step_cases)
  case empty
  have wf: "ladder_wf q" and known: "buckets_known q" using inv by (simp_all add: ladder_inv_def)
  have "buckets_known (drop_rung q)" by (rule drop_rung_known [OF known last_rung_emptyD [OF empty(3) wf]])
  with wf empty show ?thesis by (simp add: ladder_inv_def drop_rung_wf)
next
  case (found r b)
  with inv show ?thesis by (simp add: last_rung_empty_def next_bucket_is_def)
next
  case (split r b)
  have "\<And>j. j < b \<Longrightarrow> bucket r j q = []" unfolding split(2) by (rule first_nonempty_before)
  with split_bucket_inv [OF split(8), unfolded at_bucket_inv at_bucket_sel] split(1-7) inv
  show ?thesis by (auto simp: last_rung_empty_def next_bucket_is_def)
qed (use inv in simp)

lemma recurseRung_inv:
  assumes "recurseRung q = Inr ((b, status), q')" and "ladder_inv q"
  shows "ladder_inv q' \<and> rung_content q' = rung_content q \<and> lq_top q' = lq_top q \<and> bottom q' = bottom q \<and>
     (if status then next_bucket_is b q' else n_rung q' = 0)"
  using assms
proof (induction q rule: recurseRung.induct)
  case (1 q)
  then obtain s q1 where s: "recurse_step q = Inr (s, q1)"
    by (cases "recurse_step q") (auto simp: recurseRung.simps [of q])
  note step = recurse_step_inv [OF s 1(3)]
  show ?case
  proof (cases s)
    case (Found i st)
    with 1(2) s have eq: "s = Found b status" "q1 = q'" by (simp_all add: recurseRung.simps [of q])
    from step [unfolded eq rung_step.case] show ?thesis .
  next
    case Again
    with 1(2) s have rec: "recurseRung q1 = Inr ((b, status), q')" by (simp add: recurseRung.simps [of q])
    from 1(1) [OF s [unfolded Again] refl refl rec] step show ?thesis by simp
  qed
qed

section \<open>begin\<close>

lemma mset_fold_insert: "mset (fold ev_insert es xs) = mset xs + mset es"
  by (induction es arbitrary: xs) simp_all

lemma fill_bottom_sel [simp]:
  "bottom (fill_bottom r b q) = fold ev_insert (bucket r b q) (bottom q)" "lq_top (fill_bottom r b q) = lq_top q"
  "n_rung (fill_bottom r b q) = n_rung q" "last_nonempty_bucket (fill_bottom r b q) = last_nonempty_bucket q"
  "ladder_wf (fill_bottom r b q) = ladder_wf q" "top_start (fill_bottom r b q) = top_start q"
  "r_start (fill_bottom r b q) = r_start q" "bucket_width (fill_bottom r b q) = bucket_width q"
  "r_current (fill_bottom r b q) = r_current q"
  "RUNG_BUCKET_CNT i (fill_bottom r b q) = RUNG_BUCKET_CNT i q"
  by (simp_all add: fill_bottom_def)

lemma in_bucket_fill_bottom:
  "in_bucket i j x (fill_bottom r b q) \<longleftrightarrow> in_bucket i j x q \<and> \<not> (i = r \<and> j = b)"
  by (simp add: fill_bottom_def in_bucket_set_bucket)

lemma next_bucketD:
  assumes "next_bucket_is b q" and "ladder_inv q" and "r = n_rung q - 1"
  shows "r < length (rungs q)" "b < length (rungs q ! r)" "bucket r b q \<noteq> []" "b < unat (RUNG_BUCKET_CNT r q)"
    "0 < n_rung q" "\<And>j x. in_bucket r j x q \<Longrightarrow> b \<le> j"
proof -
  note n = assms(1) [unfolded next_bucket_is_def last_rung_empty_def, folded assms(3)]
  then show b: "b < length (rungs q ! r)" "0 < n_rung q" by simp_all
  show "bucket r b q \<noteq> []" using first_nonempty_hit [of r q] n by simp
  show r: "r < length (rungs q)" using b(2) assms(2,3) by (auto simp: ladder_inv_def ladder_wf_def)
  then show "b < unat (RUNG_BUCKET_CNT r q)" using b(1) assms(2) by (simp add: ladder_inv_def ladder_wf_def)
  show "b \<le> j" if "in_bucket r j x q" for j x using in_bucket_first [OF that] n by simp
qed

lemma fill_bottom_known:
  assumes "buckets_known q"
  shows "buckets_known (fill_bottom r b q)"
  using assms by (auto simp: buckets_known_def in_bucket_fill_bottom)

lemma fill_bottom_content:
  assumes "r < length (rungs q)" and "b < length (rungs q ! r)"
  shows "lq_content (fill_bottom r b q) = lq_content q"
proof -
  let ?q = "q\<lparr>bottom := fold ev_insert (bucket r b q) (bottom q)\<rparr>"
  have "rung_content (set_bucket r b [] ?q) + mset (bucket r b ?q) = rung_content ?q + mset []"
    by (rule rung_content_update) (use assms in simp_all)
  then have "rung_content (fill_bottom r b q) + mset (bucket r b q) = rung_content q"
    by (simp add: fill_bottom_def bucket_def)
  then show ?thesis by (simp add: lq_content_def mset_fold_insert)
qed

lemma drop_rungs_inv:
  assumes "ladder_inv q" and "\<And>b e. \<not> in_bucket (n_rung q - 1) b e q"
  shows "ladder_inv (drop_rungs q)"
  using assms
proof (induction q rule: drop_rungs.induct)
  case (1 q)
  let ?q = "drop_rung q"
  have inv: "ladder_inv ?q" using 1(2,3) by (simp add: ladder_inv_def drop_rung_wf drop_rung_known)
  show ?case
  proof (cases "n_rung ?q \<noteq> 0 \<and> last_nonempty_bucket ?q ! (n_rung ?q - 1) = 0")
    case True
    have "\<not> in_bucket (n_rung ?q - 1) b e ?q" for b e
    proof
      assume "in_bucket (n_rung ?q - 1) b e ?q"
      with inv have "b < unat (last_nonempty_bucket ?q ! (n_rung ?q - 1))" by (blast dest: buckets_knownD ladder_inv_def [THEN iffD1])
      with True show False by simp
    qed
    from 1(1) [OF refl True inv this] True show ?thesis by (simp add: drop_rungs.simps [of q] Let_def)
  next
    case False
    with inv show ?thesis by (simp only: drop_rungs.simps [of q] Let_def if_False)
  qed
qed

lemma drop_rungs_sel [simp]:
  "rungs (drop_rungs q) = rungs q" "lq_top (drop_rungs q) = lq_top q" "bottom (drop_rungs q) = bottom q"
  "top_start (drop_rungs q) = top_start q" "min_ts (drop_rungs q) = min_ts q" "max_ts (drop_rungs q) = max_ts q"
proof (induction q rule: drop_rungs.induct)
  case (1 q)
  { case 1 then show ?case using "1.IH"(1) by (subst drop_rungs.simps) (auto simp: Let_def) }
  { case 2 then show ?case using "1.IH"(2) by (subst drop_rungs.simps) (auto simp: Let_def) }
  { case 3 then show ?case using "1.IH"(3) by (subst drop_rungs.simps) (auto simp: Let_def) }
  { case 4 then show ?case using "1.IH"(4) by (subst drop_rungs.simps) (auto simp: Let_def) }
  { case 5 then show ?case using "1.IH"(5) by (subst drop_rungs.simps) (auto simp: Let_def) }
  { case 6 then show ?case using "1.IH"(6) by (subst drop_rungs.simps) (auto simp: Let_def) }
qed

lemma in_bucket_rungs: "rungs q' = rungs q \<Longrightarrow> in_bucket r b e q' = in_bucket r b e q"
  by (simp add: in_bucket_def bucket_def)

lemma lq_content_cong:
  "rungs q' = rungs q \<Longrightarrow> lq_top q' = lq_top q \<Longrightarrow> bottom q' = bottom q \<Longrightarrow> lq_content q' = lq_content q"
  by (simp add: lq_content_def rung_content_def)

lemma set_r_current_inv [simp]: "ladder_inv (set_r_current r t q) = ladder_inv q"
  by (simp add: ladder_inv_def buckets_known_def)

text \<open>What remains in the rung when its last non-empty bucket has moved to the bottom.\<close>

lemma rung_exhausted:
  assumes nb: "next_bucket_is b q" and inv: "ladder_inv q" and r: "r = n_rung q - 1"
    and last: "nonempty_between r (b + 1) (unat (last_nonempty_bucket q ! r)) (fill_bottom r b q) = []"
  shows "\<not> in_bucket r j x (fill_bottom r b q)"
proof
  assume *: "in_bucket r j x (fill_bottom r b q)"
  then have j: "in_bucket r j x q" "j \<noteq> b" by (auto simp: in_bucket_fill_bottom)
  from * have ne: "bucket r j (fill_bottom r b q) \<noteq> []" by (auto simp: in_bucket_def)
  from inv j(1) have "j < unat (last_nonempty_bucket q ! r)" by (auto simp: ladder_inv_def dest: buckets_knownD)
  moreover have "b + 1 \<le> j" using next_bucketD(6) [OF nb inv r j(1)] j(2) by simp
  ultimately have "j \<in> set (nonempty_between r (b + 1) (unat (last_nonempty_bucket q ! r)) (fill_bottom r b q))"
    using ne unfolding set_nonempty_between by blast
  with last show False by simp
qed

lemma last_is_next:
  assumes "last_nonempty_bucket q ! r = of_nat b + 1" and "b < unat (RUNG_BUCKET_CNT r q)"
  shows "nonempty_between r (b + 1) (unat (last_nonempty_bucket q ! r)) q' = []"
  using unat_of_nat_below(2) [OF assms(2)] by (simp add: assms(1) nonempty_between_def)

text \<open>Both ways in which \<open>begin\<close> takes a bucket do the following.\<close>

definition bucket_taken :: "ladder \<Rightarrow> ladder \<Rightarrow> bool" where
  "bucket_taken q q' \<longleftrightarrow> ladder_inv q' \<and> lq_content q' = lq_content q \<and>
     (\<exists>b. next_bucket_is b q \<and> bottom q' = fold ev_insert (bucket (n_rung q - 1) b q) (bottom q) \<and>
        rungs q' = rungs (fill_bottom (n_rung q - 1) b q))"

lemma fill_bottom_inv: "ladder_inv q \<Longrightarrow> ladder_inv (fill_bottom r b q)"
  by (simp add: ladder_inv_def fill_bottom_known)

lemma take_from_rungs_taken:
  assumes "take_from_rungs b q = Inr q'" and nb: "next_bucket_is b q" and inv: "ladder_inv q"
  shows "bucket_taken q q'"
proof -
  let ?r = "n_rung q - 1" and ?q = "fill_bottom (n_rung q - 1) b q"
  note n = next_bucketD [OF nb inv refl]
  have "ladder_inv q' \<and> rungs q' = rungs ?q \<and> lq_top q' = lq_top ?q \<and> bottom q' = bottom ?q"
  proof (cases "last_nonempty_bucket q ! ?r = of_nat b + 1")
    case True
    with rung_exhausted [OF nb inv refl last_is_next [OF True n(4)]] fill_bottom_inv [OF inv]
    have "ladder_inv (drop_rungs ?q)" by (intro drop_rungs_inv) simp_all
    with True assms(1) show ?thesis by (auto simp: take_from_rungs_def Let_def)
  next
    case False
    with assms(1) obtain q2 where "move_on ?r b ?q = Some q2" "q' = q2"
      by (auto simp: take_from_rungs_def Let_def split: option.splits)
    with fill_bottom_inv [OF inv] show ?thesis by (auto simp: move_on_def split: list.splits)
  qed
  with fill_bottom_content [OF n(1,2)] nb show ?thesis
    unfolding bucket_taken_def by (metis fill_bottom_sel(1) lq_content_cong)
qed

lemma take_after_top_taken:
  assumes nb: "next_bucket_is b q" and inv: "ladder_inv q"
  shows "bucket_taken q (take_after_top b q)"
proof -
  let ?r = "n_rung q - 1" and ?q = "fill_bottom (n_rung q - 1) b q" and ?q' = "take_after_top b q"
  note n = next_bucketD [OF nb inv refl]
  have drop: "ladder_inv (drop_rung ?q)" if "nonempty_between ?r (b + 1) (unat (last_nonempty_bucket q ! ?r)) ?q = []"
    using rung_exhausted [OF nb inv refl that] fill_bottom_inv [OF inv]
    by (simp add: ladder_inv_def drop_rung_wf drop_rung_known)
  have "ladder_inv ?q' \<and> rungs ?q' = rungs ?q \<and> lq_top ?q' = lq_top ?q \<and> bottom ?q' = bottom ?q"
  proof (cases "last_nonempty_bucket q ! ?r = of_nat b + 1")
    case True
    with drop [OF last_is_next [OF True n(4)]] show ?thesis by (auto simp: take_after_top_def Let_def)
  next
    case False
    with drop fill_bottom_inv [OF inv] show ?thesis
      by (auto simp: take_after_top_def Let_def move_on_def split: list.splits)
  qed
  with fill_bottom_content [OF n(1,2)] nb show ?thesis
    unfolding bucket_taken_def by (metis fill_bottom_sel(1) lq_content_cong)
qed

lemma move_top_inv:
  assumes "move_top q = Inr q'" and "ladder_inv q" and "n_rung q = 0"
  shows "ladder_inv q'" "lq_content q' = lq_content q" "lq_top q' = []" "bottom q' = bottom q"
proof -
  from assms(1) obtain static q1 q2 where
    q1: "createNewRung (of_nat (length (lq_top q))) (min_ts q) q = Inr ((True, static), q1)"
    and q2: "foldR (transfer 0) (lq_top q1) q1 = Inr q2" and q': "q' = q2\<lparr>lq_top := []\<rparr>"
    by (auto simp: move_top_def)
  have "n_rung q1 = 1" using q1 assms(3) by (auto simp: createNewRung_def)
  then have "ladder_inv q2" by (intro transfers_inv [OF q2 createNewRung_inv [OF q1 assms(2)]]) simp
  then show "ladder_inv q'" by (simp add: q' ladder_inv_def buckets_known_def)
  note c = content_createNewRung [OF q1] content_transfers [OF q2] transfers_frame [OF q2]
  then show "lq_content q' = lq_content q" "lq_top q' = []" "bottom q' = bottom q"
    by (simp_all add: q' lq_content_def)
qed

lemma bucket_taken_nonempty:
  assumes "bucket_taken q q'" and "ladder_inv q"
  shows "bottom q' \<noteq> []"
proof -
  from assms(1) obtain b where b: "next_bucket_is b q" "bottom q' = fold ev_insert (bucket (n_rung q - 1) b q) (bottom q)"
    by (auto simp: bucket_taken_def)
  from b(2) have "mset (bottom q') = mset (bottom q) + mset (bucket (n_rung q - 1) b q)" by (simp add: mset_fold_insert)
  with next_bucketD(3) [OF b(1) assms(2) refl] show ?thesis by auto
qed

lemma no_rung_no_event: "ladder_inv q \<Longrightarrow> n_rung q = 0 \<Longrightarrow> rung_content q = {#}"
  by (auto simp: rung_content_empty_iff ladder_inv_def buckets_known_def)

text \<open>The three ways in which \<open>begin\<close> returns.\<close>

lemma lq_begin_cases:
  assumes "lq_begin q = Inr (r, q')"
  obtains (front) "bottom q \<noteq> []" "q' = q" "r = bottom_front q'"
  | (rung) b q1 where "bottom q = []" "recurseRung q = Inr ((b, True), q1)" "n_rung q1 \<noteq> 0"
      "take_from_rungs b q1 = Inr q'" "r = bottom_front q'"
  | (none) b st where "bottom q = []" "recurseRung q = Inr ((b, st), q')" "n_rung q' = 0" "lq_top q' = []" "r = None"
  | (move) b st q1 q2 b2 q3 where "bottom q = []" "recurseRung q = Inr ((b, st), q1)" "n_rung q1 = 0"
      "move_top q1 = Inr q2" "recurseRung q2 = Inr ((b2, True), q3)" "q' = take_after_top b2 q3" "r = bottom_front q'"
  using assms by (auto simp: lq_begin_def Let_def split: if_splits simp del: bottom_front.simps)

lemma lq_begin_inv:
  assumes "lq_begin q = Inr (r, q')" and inv: "ladder_inv q"
  shows "ladder_inv q' \<and> lq_content q' = lq_content q \<and> r = bottom_front q' \<and> (bottom q' = [] \<longrightarrow> lq_content q' = {#})"
  using assms(1)
proof (cases rule: lq_begin_cases)
  case (rung b q1)
  note r1 = recurseRung_inv [OF rung(2) inv]
  then have nb: "next_bucket_is b q1" by simp
  note t = take_from_rungs_taken [OF rung(4) nb]
  with r1 bucket_taken_nonempty [of q1 q'] rung(5) show ?thesis by (auto simp: bucket_taken_def lq_content_def)
next
  case (none b st)
  with recurseRung_inv [OF none(2) inv] no_rung_no_event [of q'] show ?thesis by (auto simp: lq_content_def)
next
  case (move b st q1 q2 b2 q3)
  have inv1: "ladder_inv q1" "lq_content q1 = lq_content q"
    using recurseRung_inv [OF move(2) inv] by (simp_all add: lq_content_def)
  note m = move_top_inv [OF move(4) inv1(1) move(3)]
  have inv3: "ladder_inv q3" "lq_content q3 = lq_content q2" "next_bucket_is b2 q3"
    using recurseRung_inv [OF move(5) m(1)] by (simp_all add: lq_content_def)
  note t = take_after_top_taken [OF inv3(3,1)]
  with bucket_taken_nonempty [OF t inv3(1)] m(2) inv1(2) inv3(2) move(6,7) show ?thesis
    by (simp add: bucket_taken_def)
qed (use inv in simp)

section \<open>insert and erase\<close>

lemma insert_in_rung_inv:
  assumes "insert_in_rung r e q = Inr q'" and inv: "ladder_inv q" and "r < n_rung q"
  shows "ladder_inv q'"
proof -
  from assms(1) obtain b t where b: "bucket_of r (timestamp e) q = Inr b"
    and q': "push_front r b e (note_nonempty r b q) = Inr q' \<or> push_front r b e (set_r_current r t (note_nonempty r b q)) = Inr q'"
    by (auto simp: insert_in_rung_def Let_def split: if_splits)
  let ?q1 = "set_bucket r (unat b) (e # bucket r (unat b) q) (note_nonempty r b q)"
  have len: "r < length (rungs q)" "unat b < length (rungs q ! r)"
    using q' by (auto simp: push_front_def split: if_splits)
  have same: "rungs q' = rungs ?q1" "n_rung q' = n_rung ?q1" "last_nonempty_bucket q' = last_nonempty_bucket ?q1"
    using q' by (auto simp: push_front_def set_bucket_def split: if_splits)
  have wf: "ladder_wf q'" using q' inv by (auto simp: push_front_def ladder_inv_def split: if_splits)
  have bc: "b < RUNG_BUCKET_CNT r q" using len inv by (simp add: ladder_inv_def ladder_wf_def word_less_nat_alt)
  have rl: "r < length (last_nonempty_bucket q)" using len inv by (simp add: ladder_inv_def ladder_wf_def)
  have "i < n_rung q' \<and> j < unat (last_nonempty_bucket q' ! i)" if "in_bucket i j x q'" for i j x
  proof (cases "i = r \<and> j = unat b")
    case True
    with note_nonempty_last(2) [OF rl bc] assms(3) show ?thesis by (simp add: same)
  next
    case False
    with that have "in_bucket i j x q" by (auto simp: in_bucket_rungs [OF same(1)] in_bucket_set_bucket split: if_splits)
    with inv have old: "i < n_rung q" "j < unat (last_nonempty_bucket q ! i)" by (auto simp: ladder_inv_def dest: buckets_knownD)
    with note_nonempty_last(1) [OF rl bc, of i] show ?thesis by (simp add: same word_le_nat_alt)
  qed
  then show ?thesis using inv by (simp add: ladder_inv_def buckets_known_def wf)
qed

lemma rung_for_less: "rung_for t q = Some r \<Longrightarrow> r < n_rung q \<and> r_current q ! r \<le> t"
  by (auto simp: rung_for_def find_Some_iff)

lemma lq_insert_cases:
  assumes "lq_insert e q = Inr q'"
  obtains (top) "top_start q < timestamp e" "q' = q\<lparr>min_ts := (if lq_top q = [] then timestamp e else min (min_ts q) (timestamp e)),
      max_ts := (if lq_top q = [] then timestamp e else max (max_ts q) (timestamp e)), lq_top := e # lq_top q\<rparr>"
  | (rung) r where "timestamp e \<le> top_start q" "rung_for (timestamp e) q = Some r" "insert_in_rung r e q = Inr q'"
  | (to_bottom) "timestamp e \<le> top_start q" "rung_for (timestamp e) q = None" "q' = q\<lparr>bottom := ev_insert e (bottom q)\<rparr>"
  | (spill) q1 q2 where "timestamp e \<le> top_start q" "rung_for (timestamp e) q = None" "n_rung q < MAX_RUNG_CNT"
      "THRESHOLD \<le> length (bottom q)"
      "createRungForBottomTransfer (min (timestamp (hd (bottom q))) (timestamp e)) q = Inr q1"
      "foldR (transfer (n_rung q1 - 1)) (bottom q1) q1 = Inr q2"
      "insert_in_rung (n_rung q1 - 1) e (q2\<lparr>bottom := []\<rparr>) = Inr q'"
  using assms by (auto simp: lq_insert_def Let_def not_less not_le split: if_splits option.splits)

lemma lq_insert_inv:
  assumes "lq_insert e q = Inr q'" and inv: "ladder_inv q"
  shows "ladder_inv q' \<and> lq_content q' = lq_content q + {#e#}"
  using assms(1)
proof (cases rule: lq_insert_cases)
  case top
  then show ?thesis using inv by (simp add: ladder_inv_def buckets_known_def lq_content_def)
next
  case (rung r)
  with insert_in_rung_inv [OF rung(3) inv] content_insert_in_rung [OF rung(3)] rung_for_less [OF rung(2)]
  show ?thesis by (simp add: lq_content_def)
next
  case to_bottom
  then show ?thesis using inv by (simp add: ladder_inv_def buckets_known_def lq_content_def)
next
  case (spill q1 q2)
  note c = createRungForBottomTransfer_inv [OF spill(5) inv spill(3)]
  have "ladder_inv q2" by (rule transfers_inv [OF spill(6) c(1)]) (simp add: c(2))
  then have "ladder_inv (q2\<lparr>bottom := []\<rparr>)" by (simp add: ladder_inv_def buckets_known_def)
  moreover have "n_rung q1 - 1 < n_rung q2" using transfers_frame [OF spill(6)] c(2) by simp
  ultimately have "ladder_inv q'" by (intro insert_in_rung_inv [OF spill(7)]) simp_all
  with content_insert_in_rung [OF spill(7)] content_transfers [OF spill(6)] transfers_frame [OF spill(6)]
    content_createRungForBottomTransfer [OF spill(5)]
  show ?thesis by (simp add: lq_content_def)
qed

lemma remove_first_subset: "set (remove_first P xs) \<subseteq> set xs"
  by (induction xs) auto

lemma remove_first_mset:
  "list_ex P xs \<Longrightarrow> \<exists>x. P x \<and> mset xs = add_mset x (mset (remove_first P xs))"
  by (induction xs) auto

lemma remove_first_not: "\<not> list_ex P xs \<Longrightarrow> remove_first P xs = xs"
  by (induction xs) auto

lemma shrink_rung_known:
  assumes "buckets_known q" and wf: "ladder_wf q" and b: "b < unat (RUNG_BUCKET_CNT r q)" and r: "r < MAX_RUNG_CNT"
  shows "ladder_inv (shrink_rung r b q)"
proof -
  have wf': "ladder_wf (shrink_rung r b q)" using wf by (simp add: shrink_rung_def split: list.split)
  have "buckets_known (shrink_rung r b q)" if cut: "bucket r b q = []" "last_nonempty_bucket q ! r = of_nat b + 1"
    unfolding buckets_known_def
  proof (intro allI impI)
    fix i j e
    assume "in_bucket i j e (shrink_rung r b q)"
    then have e: "in_bucket i j e q" by (simp add: shrink_rung_def split: if_splits list.splits)
    note old = buckets_knownD [OF assms(1) e]
    let ?is = "nonempty_between r 0 b q"
    show "i < n_rung (shrink_rung r b q) \<and> j < unat (last_nonempty_bucket (shrink_rung r b q) ! i)"
    proof (cases "i = r")
      case True
      have "j < Suc b" using old True cut(2) unat_of_nat_below(2) [OF b] by simp
      moreover have "bucket r j q \<noteq> []" using e True by (auto simp: in_bucket_def)
      ultimately have mem: "j \<in> set ?is" using cut(1) by (cases "j = b") (auto simp: set_nonempty_between)
      then obtain k ks where ks: "?is = k # ks" by (cases ?is) auto
      have l: "last ?is < b" "j \<le> last ?is" by (rule nonempty_between_last [OF mem])+
      then have "unat (of_nat (last ?is) + 1 :: u32) = Suc (last ?is)"
        by (intro unat_of_nat_below(2) [of _ "RUNG_BUCKET_CNT r q"]) (use b in simp)
      with l ks True old wf r cut show ?thesis by (simp add: shrink_rung_def ladder_wfD)
    next
      case False
      have "last_nonempty_bucket (shrink_rung r b q) ! i = last_nonempty_bucket q ! i" "n_rung (shrink_rung r b q) = n_rung q"
        using False by (simp_all add: shrink_rung_def split: list.split)
      with old show ?thesis by simp
    qed
  qed
  moreover have "shrink_rung r b q = q" if "\<not> (bucket r b q = [] \<and> last_nonempty_bucket q ! r = of_nat b + 1)"
    using that by (auto simp: shrink_rung_def)
  ultimately show ?thesis using wf' assms(1) by (cases "bucket r b q = [] \<and> last_nonempty_bucket q ! r = of_nat b + 1") (auto simp: ladder_inv_def)
qed

lemma known_subset:
  assumes "buckets_known q" and "\<And>r b e. in_bucket r b e q' \<Longrightarrow> in_bucket r b e q"
    and "n_rung q' = n_rung q" and "last_nonempty_bucket q' = last_nonempty_bucket q"
  shows "buckets_known q'"
  unfolding buckets_known_def assms(3,4) using buckets_knownD [OF assms(1)] assms(2) by blast

lemma shrink_rung_content [simp]:
  "rung_content (shrink_rung r b q) = rung_content q" "lq_top (shrink_rung r b q) = lq_top q"
  "bottom (shrink_rung r b q) = bottom q" "rungs (shrink_rung r b q) = rungs q"
  "top_start (shrink_rung r b q) = top_start q" "r_start (shrink_rung r b q) = r_start q"
  "bucket_width (shrink_rung r b q) = bucket_width q" "rung_0_length (shrink_rung r b q) = rung_0_length q"
  "max_ts (shrink_rung r b q) = max_ts q" "min_ts (shrink_rung r b q) = min_ts q"
  by (simp_all add: shrink_rung_def split: list.split)

lemma erase_in_rung_inv:
  assumes "erase_in_rung r e q = Inr q'" and inv: "ladder_inv q" and r: "r < n_rung q"
  shows "ladder_inv q'" "lq_top q' = lq_top q" "bottom q' = bottom q"
    "\<exists>x. same_event e x \<and> rung_content q = add_mset x (rung_content q')"
    "\<And>i j x. in_bucket i j x q' \<Longrightarrow> in_bucket i j x q"
proof -
  from assms(1) obtain n :: u32 where n: "unat n < length (rungs q ! r)" "list_ex (same_event e) (bucket r (unat n) q)"
    and q': "q' = shrink_rung r (unat n) (set_bucket r (unat n) (remove_first (same_event e) (bucket r (unat n) q)) q)"
    by (auto simp: erase_in_rung_def not_le split: if_splits)
  let ?q1 = "set_bucket r (unat n) (remove_first (same_event e) (bucket r (unat n) q)) q"
  have rl: "r < MAX_RUNG_CNT" "r < length (rungs q)" and cnt: "unat n < unat (RUNG_BUCKET_CNT r q)"
    using inv r n(1) by (auto simp: ladder_inv_def ladder_wf_def)
  have sub: "in_bucket i j x ?q1 \<Longrightarrow> in_bucket i j x q" for i j x
    by (rule in_bucket_smaller [OF remove_first_subset])
  then show "in_bucket i j x q' \<Longrightarrow> in_bucket i j x q" for i j x
    unfolding q' in_bucket_rungs [OF shrink_rung_content(4)] .
  have "buckets_known ?q1" by (rule known_subset [OF _ sub]) (use inv in \<open>simp_all add: ladder_inv_def\<close>)
  then show "ladder_inv q'" unfolding q' by (rule shrink_rung_known) (use inv rl cnt in \<open>simp_all add: ladder_inv_def\<close>)
  show "lq_top q' = lq_top q" "bottom q' = bottom q" by (simp_all add: q')
  from remove_first_mset [OF n(2)] obtain x where x: "same_event e x"
    "mset (bucket r (unat n) q) = add_mset x (mset (remove_first (same_event e) (bucket r (unat n) q)))" by auto
  have "rung_content q = add_mset x (rung_content q')"
    using rung_content_update [OF rl(2) n(1), of "remove_first (same_event e) (bucket r (unat n) q)"] x(2) by (simp add: q')
  with x(1) show "\<exists>x. same_event e x \<and> rung_content q = add_mset x (rung_content q')" by blast
qed

lemma lq_erase_cases:
  assumes "lq_erase e q = Inr (found, q')"
  obtains (top) "top_start q < timestamp e" "found" "list_ex (same_event e) (lq_top q)"
      "q' = q\<lparr>lq_top := remove_first (same_event e) (lq_top q)\<rparr>"
  | (not_there) "top_start q < timestamp e" "\<not> found" "q' = q"
  | (rung) r where "timestamp e \<le> top_start q" "found" "rung_for (timestamp e) q = Some r" "erase_in_rung r e q = Inr q'"
  | (below) "timestamp e \<le> top_start q" "found" "rung_for (timestamp e) q = None" "bottom q \<noteq> []"
      "q' = q\<lparr>bottom := snd (ms_erase compareEvents e (bottom q))\<rparr>"
  using assms by (auto simp: lq_erase_def not_less split: if_splits option.splits)

lemma lq_erase_inv:
  assumes "lq_erase e q = Inr (found, q')" and inv: "ladder_inv q"
  shows "ladder_inv q'"
  using assms(1)
proof (cases rule: lq_erase_cases)
  case (rung r)
  from erase_in_rung_inv(1) [OF rung(4) inv] rung_for_less [OF rung(3)] show ?thesis by simp
qed (use inv in \<open>simp_all add: ladder_inv_def buckets_known_def\<close>)

section \<open>Reachable ladder queues\<close>

inductive ladder_reach :: "ladder \<Rightarrow> bool" where
  new: "ladder_reach ladder_new"
| inserted: "ladder_reach q \<Longrightarrow> lq_insert e q = Inr q' \<Longrightarrow> ladder_reach q'"
| begun: "ladder_reach q \<Longrightarrow> lq_begin q = Inr (r, q') \<Longrightarrow> ladder_reach q'"
| erased: "ladder_reach q \<Longrightarrow> lq_erase e q = Inr (found, q') \<Longrightarrow> ladder_reach q'"

lemma ladder_new_inv: "ladder_inv ladder_new"
proof -
  have "length (rungs ladder_new ! r) = unat (RUNG_BUCKET_CNT r ladder_new)" if "r < MAX_RUNG_CNT" for r
    using that by (cases r) (simp_all add: ladder_new_def RUNG_BUCKET_CNT_def THRESHOLD_def MAX_RUNG_CNT_def)
  moreover have "bucket r b ladder_new = []" if "r < MAX_RUNG_CNT" "b < length (rungs ladder_new ! r)" for r b
    using that by (cases r) (simp_all add: ladder_new_def bucket_def)
  ultimately show ?thesis
    by (auto simp: ladder_inv_def ladder_wf_def buckets_known_def in_bucket_def) (simp_all add: ladder_new_def MAX_RUNG_CNT_def)
qed

lemma ladder_reach_inv: "ladder_reach q \<Longrightarrow> ladder_inv q"
  by (induction rule: ladder_reach.induct) (auto simp: ladder_new_inv dest: lq_insert_inv lq_begin_inv lq_erase_inv)

end
