(* ===== verification/Ladder_Queue_Order.thy ===== *)
theory Ladder_Queue_Order
  imports Ladder_Queue_Inv
begin

text \<open>
  The order that the ladder queue of \<open>src/src/LadderQueue.cpp\<close> keeps between its parts: the bottom comes
  before the rungs, a rung before the rungs outside it, a bucket before the later buckets of its rung, and
  the rungs before the top. Moving events towards the bottom, as \<open>begin\<close> does, keeps that order.
\<close>

section \<open>Buckets\<close>

definition placed :: "nat \<Rightarrow> nat \<Rightarrow> event \<Rightarrow> ladder \<Rightarrow> bool" where
  "placed r b e q \<longleftrightarrow> r_start q ! r \<le> timestamp e \<and> (\<exists>n. bucket_of r (timestamp e) q = Inr n \<and> unat n = b)"

lemma bucket_of_mono:
  assumes "bucket_of r t q = Inr m" and "bucket_of r u q = Inr n" and "r_start q ! r \<le> t" and "t \<le> u"
  shows "m \<le> n"
proof -
  have "t - r_start q ! r \<le> u - r_start q ! r"
    using assms(3,4) by (simp add: word_le_nat_alt unat_sub)
  then have "(t - r_start q ! r) div bucket_width q ! r \<le> (u - r_start q ! r) div bucket_width q ! r"
    by (simp add: word_le_nat_alt unat_div div_le_mono)
  with assms(1,2) show ?thesis by (auto simp: bucket_of_def min_def split: if_splits)
qed

lemma placed_order:
  assumes "placed r b e q" and "placed r c x q" and "b < c"
  shows "timestamp e < timestamp x"
proof (rule ccontr)
  assume "\<not> timestamp e < timestamp x"
  then have "timestamp x \<le> timestamp e" by simp
  with assms(1,2) have "c \<le> b" unfolding placed_def by (metis bucket_of_mono word_le_nat_alt)
  with assms(3) show False by simp
qed

lemma placed_cong:
  "r_start q' ! r = r_start q ! r \<Longrightarrow> bucket_width q' ! r = bucket_width q ! r \<Longrightarrow>
   RUNG_BUCKET_CNT r q' = RUNG_BUCKET_CNT r q \<Longrightarrow> placed r b e q' = placed r b e q"
  by (simp add: placed_def bucket_of_def)

section \<open>Rungs\<close>

definition rungs_ordered :: "ladder \<Rightarrow> bool" where
  "rungs_ordered q \<longleftrightarrow>
     (\<forall>r b e. in_bucket r b e q \<longrightarrow> placed r b e q) \<and>
     (\<forall>r b e s c x. in_bucket r b e q \<longrightarrow> in_bucket s c x q \<longrightarrow> r < s \<longrightarrow> timestamp x < timestamp e)"

lemma rungs_orderedI:
  assumes "\<And>r b e. in_bucket r b e q \<Longrightarrow> placed r b e q"
    and "\<And>r b e s c x. in_bucket r b e q \<Longrightarrow> in_bucket s c x q \<Longrightarrow> r < s \<Longrightarrow> timestamp x < timestamp e"
  shows "rungs_ordered q"
  unfolding rungs_ordered_def using assms by blast

lemma rungs_orderedD:
  assumes "rungs_ordered q"
  shows "in_bucket r b e q \<Longrightarrow> placed r b e q"
    and "in_bucket r b e q \<Longrightarrow> in_bucket s c x q \<Longrightarrow> r < s \<Longrightarrow> timestamp x < timestamp e"
  using assms unfolding rungs_ordered_def by blast+

text \<open>An operation that only takes events away keeps the order, if it leaves the rungs with events alone.\<close>

lemma rungs_ordered_subset:
  assumes "rungs_ordered q" and "\<And>r b e. in_bucket r b e q' \<Longrightarrow> in_bucket r b e q"
    and "\<And>r b e. in_bucket r b e q' \<Longrightarrow> r_start q' ! r = r_start q ! r \<and> bucket_width q' ! r = bucket_width q ! r \<and>
           RUNG_BUCKET_CNT r q' = RUNG_BUCKET_CNT r q"
  shows "rungs_ordered q'"
proof (rule rungs_orderedI)
  fix r b e
  assume e: "in_bucket r b e q'"
  from rungs_orderedD(1) [OF assms(1) assms(2) [OF e]] assms(3) [OF e] show "placed r b e q'"
    by (simp add: placed_cong [of q' r q])
next
  fix r b e s c x
  assume e: "in_bucket r b e q'" and x: "in_bucket s c x q'" and lt: "r < s"
  from rungs_orderedD(2) [OF assms(1) assms(2) [OF e] assms(2) [OF x] lt] show "timestamp x < timestamp e" .
qed

lemma transfer_placed:
  assumes "transfer r e q = Inr q'"
  shows "r_start q' = r_start q" "bucket_width q' = bucket_width q" "rung_0_length q' = rung_0_length q"
    "top_start q' = top_start q" "min_ts q' = min_ts q" "max_ts q' = max_ts q"
    "in_bucket i j x q' \<Longrightarrow> in_bucket i j x q \<or> i = r \<and> x = e \<and> placed r j x q"
proof -
  show "r_start q' = r_start q" "bucket_width q' = bucket_width q" "rung_0_length q' = rung_0_length q"
    "top_start q' = top_start q" "min_ts q' = min_ts q" "max_ts q' = max_ts q"
    using assms by (auto elim!: transferD)
  show "in_bucket i j x q' \<Longrightarrow> in_bucket i j x q \<or> i = r \<and> x = e \<and> placed r j x q"
    by (rule in_bucket_transfer [OF assms]) (auto simp: placed_def)
qed

lemma transfers_placed:
  assumes "foldR (transfer r) es q = Inr q'"
  shows "r_start q' = r_start q \<and> bucket_width q' = bucket_width q \<and> rung_0_length q' = rung_0_length q \<and>
      top_start q' = top_start q \<and> min_ts q' = min_ts q \<and> max_ts q' = max_ts q"
    and "in_bucket i j x q' \<Longrightarrow> in_bucket i j x q \<or> i = r \<and> x \<in> set es \<and> placed r j x q"
proof -
  have "(r_start q' = r_start q \<and> bucket_width q' = bucket_width q \<and> rung_0_length q' = rung_0_length q \<and>
      top_start q' = top_start q \<and> min_ts q' = min_ts q \<and> max_ts q' = max_ts q) \<and>
      (in_bucket i j x q' \<longrightarrow> in_bucket i j x q \<or> i = r \<and> x \<in> set es \<and> placed r j x q)"
    using assms
  proof (induction es arbitrary: q)
    case (Cons e es)
    then obtain q1 where q1: "transfer r e q = Inr q1" "foldR (transfer r) es q1 = Inr q'" by auto
    note t = transfer_placed [OF q1(1)]
    have "placed r j x q1 = placed r j x q" by (rule placed_cong) (simp_all add: t RUNG_BUCKET_CNT_def)
    with Cons.IH [OF q1(2)] t show ?case by auto
  qed simp
  then show "r_start q' = r_start q \<and> bucket_width q' = bucket_width q \<and> rung_0_length q' = rung_0_length q \<and>
      top_start q' = top_start q \<and> min_ts q' = min_ts q \<and> max_ts q' = max_ts q"
    and "in_bucket i j x q' \<Longrightarrow> in_bucket i j x q \<or> i = r \<and> x \<in> set es \<and> placed r j x q" by blast+
qed

lemma createNewRung_frame:
  assumes "createNewRung num init q = Inr ((created, static), q')" and "n_rung q \<noteq> 0" and "r < n_rung q"
  shows "r_start q' ! r = r_start q ! r" "bucket_width q' ! r = bucket_width q ! r"
    "RUNG_BUCKET_CNT r q' = RUNG_BUCKET_CNT r q" "top_start q' = top_start q"
    "min_ts q' = min_ts q" "max_ts q' = max_ts q"
  using assms by (auto simp: createNewRung_def Let_def RUNG_BUCKET_CNT_def split: if_splits)

lemma split_bucket_ordered:
  assumes "split_bucket r b q = Inr (s, q')" and inv: "ladder_inv q" and ord: "rungs_ordered q"
    and r: "r = n_rung q - 1" "0 < n_rung q"
    and b: "b < length (rungs q ! r)" "\<And>j. j < b \<Longrightarrow> bucket r j q = []"
  shows "rungs_ordered q' \<and> top_start q' = top_start q \<and> min_ts q' = min_ts q \<and> max_ts q' = max_ts q"
  using assms(1)
proof (cases rule: split_bucketD)
  case static
  then have "q' = q" using createNewRung_sel(7) [OF static(2)] r(2) by simp
  with ord show ?thesis by simp
next
  case (created static q1 q2)
  have n: "r + 1 = n_rung q" using r by simp
  have c: "r_start q1 ! i = r_start q ! i" "bucket_width q1 ! i = bucket_width q ! i"
      "RUNG_BUCKET_CNT i q1 = RUNG_BUCKET_CNT i q" if "i \<le> r" for i
    using createNewRung_frame [OF created(2) _, of i] that r by simp_all
  note t = transfers_placed [OF created(3)]
  have f: "placed i j x q' = placed i j x q1" for i j x
    by (rule placed_cong) (use t(1) in \<open>simp_all add: created(4) RUNG_BUCKET_CNT_def\<close>)
  have f1: "placed i j x q1 = placed i j x q" if "i \<le> r" for i j x
    using that by (intro placed_cong c)
  have two: "(in_bucket i j x q \<and> i \<le> r \<and> (i = r \<longrightarrow> b < j)) \<or> (i = r + 1 \<and> x \<in> set (bucket r b q) \<and> placed i j x q')"
    if x: "in_bucket i j x q'" for i j x
  proof -
    from x have x2: "in_bucket i j x q2" "\<not> (i = r \<and> j = b)"
      by (auto simp: created(4) in_bucket_set_bucket split: if_splits)
    from t(2) [OF x2(1)] consider "in_bucket i j x q1" | "i = r + 1" "x \<in> set (bucket r b q)" "placed (r + 1) j x q1" by auto
    then show ?thesis
    proof cases
      case 1
      then have old: "in_bucket i j x q" by (simp add: in_bucket_createNewRung [OF created(2)])
      then have "i < n_rung q" using inv by (auto simp: ladder_inv_def dest: buckets_knownD)
      moreover have "b < j" if "i = r"
      proof -
        from old that have "bucket r j q \<noteq> []" by (auto simp: in_bucket_def)
        with b(2) [of j] x2(2) that show ?thesis by (cases "j < b") auto
      qed
      ultimately show ?thesis using old n by auto
    qed (auto simp: f)
  qed
  have rl: "r < length (rungs q)" using inv r by (auto simp: ladder_inv_def ladder_wf_def)
  have inside: "in_bucket r b x q" if "x \<in> set (bucket r b q)" for x
    using that rl b(1) by (simp add: in_bucket_def)
  have "rungs_ordered q'"
  proof (rule rungs_orderedI)
    fix i j x
    assume "in_bucket i j x q'"
    from two [OF this] rungs_orderedD(1) [OF ord] show "placed i j x q'" by (auto simp: f f1)
  next
    fix i j x k l y
    assume x: "in_bucket i j x q'" and y: "in_bucket k l y q'" and lt: "i < k"
    from two [OF x] two [OF y] lt have old: "in_bucket i j x q" "i \<le> r" "i = r \<longrightarrow> b < j"
      and k: "in_bucket k l y q \<or> k = r + 1 \<and> in_bucket r b y q" by (auto intro: inside)
    from k show "timestamp y < timestamp x"
    proof (elim disjE conjE)
      assume "in_bucket k l y q"
      from rungs_orderedD(2) [OF ord old(1) this lt] show ?thesis .
    next
      assume y: "in_bucket r b y q"
      show ?thesis
      proof (cases "i = r")
        case True
        with placed_order rungs_orderedD(1) [OF ord] old y show ?thesis by blast
      next
        case False
        with rungs_orderedD(2) [OF ord old(1) y] old(2) show ?thesis by simp
      qed
    qed
  qed
  with t(1) createNewRung_frame(4-6) [OF created(2)] r show ?thesis by (auto simp: created(4))
qed

lemma ladder_inv_in_bucket: "ladder_inv q \<Longrightarrow> in_bucket r b e q \<Longrightarrow> r < n_rung q"
  by (auto simp: ladder_inv_def dest: buckets_knownD)

lemma drop_rung_frame:
  assumes "r < n_rung (drop_rung q)"
  shows "r_start (drop_rung q) ! r = r_start q ! r" "bucket_width (drop_rung q) ! r = bucket_width q ! r"
    "RUNG_BUCKET_CNT r (drop_rung q) = RUNG_BUCKET_CNT r q"
  using assms by (auto simp: drop_rung_def Let_def RUNG_BUCKET_CNT_def)

lemma drop_rungs_frame:
  assumes "r < n_rung (drop_rungs q)"
  shows "r_start (drop_rungs q) ! r = r_start q ! r \<and> bucket_width (drop_rungs q) ! r = bucket_width q ! r \<and>
    RUNG_BUCKET_CNT r (drop_rungs q) = RUNG_BUCKET_CNT r q \<and> r < n_rung (drop_rung q)"
  using assms
proof (induction q rule: drop_rungs.induct)
  case (1 q)
  let ?more = "n_rung (drop_rung q) \<noteq> 0 \<and> last_nonempty_bucket (drop_rung q) ! (n_rung (drop_rung q) - 1) = 0"
  show ?case
  proof (cases ?more)
    case True
    then have eq: "drop_rungs q = drop_rungs (drop_rung q)" by (subst drop_rungs.simps) (simp add: Let_def)
    from 1(1) [OF refl True] 1(2) have "r < n_rung (drop_rung (drop_rung q))" by (simp only: eq)
    then have "r < n_rung (drop_rung q)" by simp
    with drop_rung_frame [OF this] 1(1) [OF refl True] 1(2) show ?thesis by (simp only: eq simp_thms)
  next
    case False
    then have eq: "drop_rungs q = drop_rung q" by (subst drop_rungs.simps) (auto simp: Let_def)
    from 1(2) [unfolded eq] drop_rung_frame [OF 1(2) [unfolded eq]] show ?thesis unfolding eq by simp
  qed
qed

lemma recurse_step_ordered:
  assumes "recurse_step q = Inr (s, q')" and inv: "ladder_inv q" and ord: "rungs_ordered q"
  shows "rungs_ordered q' \<and> top_start q' = top_start q \<and> min_ts q' = min_ts q \<and> max_ts q' = max_ts q"
  using assms(1)
proof (cases rule: recurse_step_cases)
  case empty
  have inv': "ladder_inv q'" using recurse_step_inv [OF assms(1) inv] by blast
  have "rungs_ordered (drop_rung q)"
    by (rule rungs_ordered_subset [OF ord])
      (use ladder_inv_in_bucket [OF inv'] in \<open>auto simp: empty(5) drop_rung_frame\<close>)
  with empty show ?thesis by simp
next
  case (found r b)
  have "rungs_ordered (at_bucket r b q)" by (rule rungs_ordered_subset [OF ord]) simp_all
  with found show ?thesis by simp
next
  case (split r b)
  have "rungs_ordered (at_bucket r b q)" by (rule rungs_ordered_subset [OF ord]) simp_all
  moreover have "\<And>j. j < b \<Longrightarrow> bucket r j q = []" unfolding split(2) by (rule first_nonempty_before)
  ultimately show ?thesis
    using split_bucket_ordered [OF split(8)] inv split(1,3,6) by simp
qed (use ord in simp)

lemma recurseRung_ordered:
  assumes "recurseRung q = Inr (f, q')" and "ladder_inv q" and "rungs_ordered q"
  shows "rungs_ordered q' \<and> top_start q' = top_start q \<and> min_ts q' = min_ts q \<and> max_ts q' = max_ts q"
  using assms
proof (induction q rule: recurseRung.induct)
  case (1 q)
  then obtain s q1 where s: "recurse_step q = Inr (s, q1)"
    by (cases "recurse_step q") (auto simp: recurseRung.simps [of q])
  note step = recurse_step_ordered [OF s 1(3,4)]
  show ?case
  proof (cases s)
    case (Found i st)
    with 1(2) s have "q1 = q'" by (simp add: recurseRung.simps [of q])
    with step show ?thesis by simp
  next
    case Again
    with 1(2) s have rec: "recurseRung q1 = Inr (f, q')" by (simp add: recurseRung.simps [of q])
    from 1(1) [OF s [unfolded Again] refl refl rec] recurse_step_inv [OF s 1(3)] step show ?thesis by simp
  qed
qed

section \<open>The whole queue\<close>

definition lq_ordered :: "ladder \<Rightarrow> bool" where
  "lq_ordered q \<longleftrightarrow>
     ev_sorted (bottom q) \<and> rungs_ordered q \<and>
     (\<forall>x\<in>set (bottom q). timestamp x \<le> top_start q \<and> (\<forall>r b e. in_bucket r b e q \<longrightarrow> timestamp x < timestamp e)) \<and>
     (\<forall>r b e. in_bucket r b e q \<longrightarrow> timestamp e \<le> top_start q) \<and>
     (\<forall>x\<in>set (lq_top q). top_start q < timestamp x \<and> min_ts q \<le> timestamp x \<and> timestamp x \<le> max_ts q)"

lemma sorted_fold_insert: "ev_sorted xs \<Longrightarrow> ev_sorted (fold ev_insert es xs)"
  by (induction es arbitrary: xs) (simp_all add: ce.sorted_insert)

lemma set_fold_insert: "set (fold ev_insert es xs) = set xs \<union> set es"
  by (induction es arbitrary: xs) auto

text \<open>Taking the next bucket from an ordered ladder.\<close>

lemma bucket_taken_ordered:
  assumes "bucket_taken q q'" and inv: "ladder_inv q" and ord: "rungs_ordered q" and "bottom q = []"
    and frame: "\<forall>r<n_rung q'. r_start q' ! r = r_start q ! r \<and> bucket_width q' ! r = bucket_width q ! r \<and>
           RUNG_BUCKET_CNT r q' = RUNG_BUCKET_CNT r q"
  shows "rungs_ordered q'" "ev_sorted (bottom q')"
    "x \<in> set (bottom q') \<Longrightarrow> in_bucket r b e q' \<Longrightarrow> timestamp x < timestamp e"
    "x \<in> set (bottom q') \<Longrightarrow> \<exists>i j. in_bucket i j x q" "in_bucket r b e q' \<Longrightarrow> in_bucket r b e q"
proof -
  let ?r = "n_rung q - 1"
  from assms(1) obtain c where nb: "next_bucket_is c q" and inv': "ladder_inv q'"
    and bt: "bottom q' = fold ev_insert (bucket ?r c q) (bottom q)" and rg: "rungs q' = rungs (fill_bottom ?r c q)"
    by (auto simp: bucket_taken_def)
  note n = next_bucketD [OF nb inv refl]
  have sub: "in_bucket r b e q \<and> \<not> (r = ?r \<and> b = c)" if "in_bucket r b e q'" for r b e
    using that by (simp add: in_bucket_rungs [OF rg] in_bucket_fill_bottom)
  then show "in_bucket r b e q' \<Longrightarrow> in_bucket r b e q" by blast
  show "rungs_ordered q'"
    by (rule rungs_ordered_subset [OF ord]) (use sub frame ladder_inv_in_bucket [OF inv'] in blast)+
  show "ev_sorted (bottom q')" by (simp add: bt assms(4) sorted_fold_insert)
  have mem: "in_bucket ?r c x q" if "x \<in> set (bottom q')"
    using that n(1,2) by (simp add: bt assms(4) set_fold_insert in_bucket_def)
  then show "x \<in> set (bottom q') \<Longrightarrow> \<exists>i j. in_bucket i j x q" by blast
  assume x: "x \<in> set (bottom q')" and e: "in_bucket r b e q'"
  note e' = sub [OF e] and x' = mem [OF x]
  have "r \<le> ?r" using ladder_inv_in_bucket [OF inv] e' by fastforce
  show "timestamp x < timestamp e"
  proof (cases "r = ?r")
    case True
    with e' n(6) [of b e] have "c < b" by (cases "c = b") auto
    with True e' x' show ?thesis by (blast intro: placed_order rungs_orderedD(1) [OF ord])
  next
    case False
    with \<open>r \<le> ?r\<close> have "r < ?r" by simp
    with e' x' show ?thesis by (blast intro: rungs_orderedD(2) [OF ord])
  qed
qed

lemma take_from_rungs_frame:
  assumes "take_from_rungs b q = Inr q'" and "r < n_rung q'"
  shows "r_start q' ! r = r_start q ! r \<and> bucket_width q' ! r = bucket_width q ! r \<and>
    RUNG_BUCKET_CNT r q' = RUNG_BUCKET_CNT r q"
proof (cases "last_nonempty_bucket q ! (n_rung q - 1) = of_nat b + 1")
  case True
  with assms(1) have "q' = drop_rungs (fill_bottom (n_rung q - 1) b q)" by (simp add: take_from_rungs_def Let_def)
  with drop_rungs_frame [of r "fill_bottom (n_rung q - 1) b q"] assms(2) show ?thesis by simp
next
  case False
  with assms(1) show ?thesis by (auto simp: take_from_rungs_def Let_def move_on_def split: list.splits)
qed

lemma take_from_rungs_times:
  assumes "take_from_rungs b q = Inr q'"
  shows "top_start q' = top_start q" "min_ts q' = min_ts q" "max_ts q' = max_ts q" "lq_top q' = lq_top q"
  using assms by (auto simp: take_from_rungs_def Let_def move_on_def fill_bottom_def split: list.splits if_splits)

lemma take_after_top_frame:
  assumes "r < n_rung (take_after_top b q)"
  shows "r_start (take_after_top b q) ! r = r_start q ! r \<and> bucket_width (take_after_top b q) ! r = bucket_width q ! r \<and>
    RUNG_BUCKET_CNT r (take_after_top b q) = RUNG_BUCKET_CNT r q"
  using assms drop_rung_frame [of r "fill_bottom (n_rung q - 1) b q"]
  by (auto simp: take_after_top_def Let_def move_on_def split: list.splits if_splits)

lemma take_after_top_times:
  "top_start (take_after_top b q) = top_start q" "lq_top (take_after_top b q) = lq_top q"
  by (auto simp: take_after_top_def Let_def move_on_def split: list.splits)

lemma move_top_ordered:
  assumes "move_top q = Inr q'" and inv: "ladder_inv q" and n: "n_rung q = 0"
    and top: "\<forall>x\<in>set (lq_top q). timestamp x \<le> max_ts q"
  shows "rungs_ordered q'" "in_bucket r b e q' \<Longrightarrow> timestamp e \<le> top_start q'"
proof -
  from assms(1) obtain static q1 q2 where
    q1: "createNewRung (of_nat (length (lq_top q))) (min_ts q) q = Inr ((True, static), q1)"
    and q2: "foldR (transfer 0) (lq_top q1) q1 = Inr q2" and q': "q' = q2\<lparr>lq_top := []\<rparr>"
    by (auto simp: move_top_def)
  have none: "\<not> in_bucket i j x q1" for i j x
    using inv n by (auto simp: in_bucket_createNewRung [OF q1] dest: ladder_inv_in_bucket)
  note t = transfers_placed [OF q2]
  have c: "top_start q1 = max_ts q" "lq_top q1 = lq_top q" using q1 n by (auto simp: createNewRung_def)
  have f: "placed i j x q' = placed i j x q1" for i j x
    by (rule placed_cong) (use t(1) in \<open>simp_all add: q' RUNG_BUCKET_CNT_def\<close>)
  have all: "i = 0 \<and> x \<in> set (lq_top q) \<and> placed 0 j x q'" if "in_bucket i j x q'" for i j x
    using that t(2) [of i j x] none by (auto simp: q' c f [unfolded q'])
  show "rungs_ordered q'" by (rule rungs_orderedI) (auto dest!: all)
  show "in_bucket r b e q' \<Longrightarrow> timestamp e \<le> top_start q'"
    using all [of r b e] top t(1) c by (auto simp: q')
qed

lemma lq_begin_ordered:
  assumes "lq_begin q = Inr (r, q')" and inv: "ladder_inv q" and ord: "lq_ordered q"
  shows "lq_ordered q'"
  using assms(1)
proof (cases rule: lq_begin_cases)
  case (rung b q1)
  note r1 = recurseRung_inv [OF rung(2) inv]
  note o1 = recurseRung_ordered [OF rung(2) inv] and o = ord [unfolded lq_ordered_def]
  have same: "rungs_ordered q1" "top_start q1 = top_start q" "min_ts q1 = min_ts q" "max_ts q1 = max_ts q"
    using o1 o by simp_all
  have early: "timestamp e \<le> top_start q" if "in_bucket i j e q1" for i j e
    using that o r1 set_rung_content [of e q] set_rung_content [of e q1] by auto
  have bq1: "bottom q1 = []" using r1 rung(1) by simp
  have nb: "next_bucket_is b q1" using r1 by simp
  have inv1: "ladder_inv q1" using r1 by simp
  note t = take_from_rungs_times [OF rung(4)]
  have fr: "\<forall>r<n_rung q'. r_start q' ! r = r_start q1 ! r \<and> bucket_width q' ! r = bucket_width q1 ! r \<and>
      RUNG_BUCKET_CNT r q' = RUNG_BUCKET_CNT r q1" using take_from_rungs_frame [OF rung(4)] by blast
  note taken = bucket_taken_ordered [OF take_from_rungs_taken [OF rung(4) nb inv1] inv1 same(1) bq1 fr]
  show ?thesis
    unfolding lq_ordered_def t same(2-4)
  proof (intro conjI ballI allI impI)
    show "timestamp x \<le> top_start q" if "x \<in> set (bottom q')" for x using taken(4) [OF that] early by blast
    show "timestamp e \<le> top_start q" if "in_bucket i j e q'" for i j e using taken(5) [OF that] early by blast
  qed (use taken o r1 in auto)
next
  case (none b st)
  then have "bottom q' = []" "rung_content q' = {#}"
    using recurseRung_inv [OF none(2) inv] no_rung_no_event [of q'] by simp_all
  then show ?thesis using none(4) by (simp add: lq_ordered_def rungs_ordered_def rung_content_empty_iff)
next
  case (move b st q1 q2 b2 q3)
  note o = ord [unfolded lq_ordered_def]
  note r1 = recurseRung_inv [OF move(2) inv] and o1 = recurseRung_ordered [OF move(2) inv]
  have inv1: "ladder_inv q1" using r1 by simp
  have top: "\<forall>x\<in>set (lq_top q1). timestamp x \<le> max_ts q1" using o o1 r1 by simp
  note m = move_top_inv [OF move(4) inv1 move(3)] and mo = move_top_ordered [OF move(4) inv1 move(3) top]
  note r3 = recurseRung_inv [OF move(5) m(1)] and o3 = recurseRung_ordered [OF move(5) m(1) mo(1)]
  have early: "timestamp e \<le> top_start q3" if "in_bucket i j e q3" for i j e
    using that mo(2) r3 o3 set_rung_content [of e q2] set_rung_content [of e q3] by auto
  have bq3: "bottom q3 = []" "lq_top q3 = []" using r1 r3 m move(1) by simp_all
  have nb: "next_bucket_is b2 q3" "ladder_inv q3" using r3 by simp_all
  have fr: "\<forall>r<n_rung (take_after_top b2 q3). r_start (take_after_top b2 q3) ! r = r_start q3 ! r \<and>
      bucket_width (take_after_top b2 q3) ! r = bucket_width q3 ! r \<and>
      RUNG_BUCKET_CNT r (take_after_top b2 q3) = RUNG_BUCKET_CNT r q3" using take_after_top_frame by blast
  note taken = bucket_taken_ordered [OF take_after_top_taken [OF nb] nb(2) o3 [THEN conjunct1] bq3(1) fr]
  show ?thesis
    unfolding lq_ordered_def move(6) take_after_top_times bq3(2)
  proof (intro conjI ballI allI impI)
    show "timestamp x \<le> top_start q3" if "x \<in> set (bottom (take_after_top b2 q3))" for x
      using taken(4) [OF that] early by blast
    show "timestamp e \<le> top_start q3" if "in_bucket i j e (take_after_top b2 q3)" for i j e
      using taken(5) [OF that] early by blast
  qed (use taken in auto)
qed (use ord in simp)

lemma lq_begin_least:
  assumes "lq_begin q = Inr (Some e, q')" and inv: "ladder_inv q" and ord: "lq_ordered q"
  shows "e \<in># lq_content q" "x \<in># lq_content q \<Longrightarrow> \<not> compareEvents x e"
proof -
  note b = lq_begin_inv [OF assms(1) inv]
  note o = lq_begin_ordered [OF assms(1) inv ord, unfolded lq_ordered_def]
  from b obtain es where es: "bottom q' = e # es" by (cases "bottom q'") auto
  then have "e \<in># lq_content q'" by (simp add: lq_content_def)
  with b show "e \<in># lq_content q" by simp
  assume "x \<in># lq_content q"
  with b have "x \<in># lq_content q'" by simp
  then have "x \<in> set (lq_top q') \<or> (\<exists>i j. in_bucket i j x q') \<or> x \<in> set (bottom q')"
    unfolding lq_content_def by (simp add: set_rung_content)
  moreover have e: "e \<in> set (bottom q')" by (simp add: es)
  have "\<not> timestamp e < timestamp x \<Longrightarrow> x \<in> set (bottom q')"
    if "x \<in> set (lq_top q') \<or> (\<exists>i j. in_bucket i j x q') \<or> x \<in> set (bottom q')"
    using that o e by (meson le_less_trans)
  moreover have "\<not> compareEvents x e" if "x \<in> set (bottom q')"
    using ce.hd_least [of "bottom q'" x] that o es by simp
  moreover have "\<not> compareEvents x e" if "timestamp e < timestamp x"
    using that by (auto simp: compareEvents_def)
  ultimately show "\<not> compareEvents x e" by blast
qed

section \<open>Inserting and erasing\<close>

text \<open>\<open>r_current\<close> separates a rung from what is inside it: from the rungs after it and from the bottom.\<close>

definition lq_fresh :: "ladder \<Rightarrow> bool" where
  "lq_fresh q \<longleftrightarrow>
     (\<forall>r<n_rung q. (\<forall>x\<in>set (bottom q). timestamp x < r_current q ! r) \<and>
        (\<forall>i b e. in_bucket i b e q \<longrightarrow>
           (r < i \<longrightarrow> timestamp e < r_current q ! r) \<and> (i = r \<longrightarrow> r_current q ! r \<le> timestamp e)))"

lemma lq_freshD:
  assumes "lq_fresh q" and "r < n_rung q"
  shows "x \<in> set (bottom q) \<Longrightarrow> timestamp x < r_current q ! r"
    and "in_bucket i b e q \<Longrightarrow> r < i \<Longrightarrow> timestamp e < r_current q ! r"
    and "in_bucket r b e q \<Longrightarrow> r_current q ! r \<le> timestamp e"
  using assms unfolding lq_fresh_def by blast+

lemma rung_forD:
  assumes "rung_for t q = Some r"
  shows "r < n_rung q" "r_current q ! r \<le> t" "\<And>i. i < r \<Longrightarrow> t < r_current q ! i"
  using assms by (auto simp: rung_for_def find_Some_iff not_le)

lemma rung_for_NoneD: "rung_for t q = None \<Longrightarrow> r < n_rung q \<Longrightarrow> t < r_current q ! r"
  by (auto simp: rung_for_def find_None_iff not_le)

lemma insert_in_rung_placed:
  assumes "insert_in_rung r e q = Inr q'"
  shows "r_start q' = r_start q" "bucket_width q' = bucket_width q" "rung_0_length q' = rung_0_length q"
    "top_start q' = top_start q" "min_ts q' = min_ts q" "max_ts q' = max_ts q" "n_rung q' = n_rung q"
    "in_bucket i j x q' \<Longrightarrow> in_bucket i j x q \<or> i = r \<and> x = e \<and> placed r j x q"
proof -
  from assms obtain b t where b: "r_start q ! r \<le> timestamp e" "bucket_of r (timestamp e) q = Inr b"
    and push: "push_front r b e (note_nonempty r b q) = Inr q' \<or> push_front r b e (set_r_current r t (note_nonempty r b q)) = Inr q'"
    by (auto simp: insert_in_rung_def Let_def split: if_splits)
  then show "r_start q' = r_start q" "bucket_width q' = bucket_width q" "rung_0_length q' = rung_0_length q"
    "top_start q' = top_start q" "min_ts q' = min_ts q" "max_ts q' = max_ts q" "n_rung q' = n_rung q"
    by (auto simp: push_front_def split: if_splits)
  have "rungs q' = rungs (set_bucket r (unat b) (e # bucket r (unat b) q) q)"
    using push by (auto simp: push_front_def set_bucket_def split: if_splits)
  note rg = in_bucket_rungs [OF this, of i j x]
  show "in_bucket i j x q \<or> i = r \<and> x = e \<and> placed r j x q" if "in_bucket i j x q'"
  proof (cases "i = r \<and> j = unat b")
    case True
    with that have "x = e \<or> in_bucket i j x q" unfolding rg in_bucket_set_bucket by (auto simp: in_bucket_def)
    with True b show ?thesis by (auto simp: placed_def)
  next
    case False
    with that show ?thesis unfolding rg by (simp only: in_bucket_set_bucket if_False) blast
  qed
qed

text \<open>An event that comes between a rung's inside and its outside can be put into it.\<close>

lemma insert_in_rung_ordered:
  assumes "insert_in_rung r e q = Inr q'" and ord: "lq_ordered q" and "timestamp e \<le> top_start q"
    and inside: "\<forall>x\<in>set (bottom q). timestamp x < timestamp e"
      "\<And>i b x. in_bucket i b x q \<Longrightarrow> r < i \<Longrightarrow> timestamp x < timestamp e"
    and outside: "\<And>i b x. in_bucket i b x q \<Longrightarrow> i < r \<Longrightarrow> timestamp e < timestamp x"
  shows "lq_ordered q'"
proof -
  note f = insert_in_rung_placed [OF assms(1)]
  note c = content_insert_in_rung [OF assms(1)]
  note o = ord [unfolded lq_ordered_def]
  have pl: "placed i j x q' = placed i j x q" for i j x
    by (rule placed_cong) (simp_all add: f RUNG_BUCKET_CNT_def)
  have "rungs_ordered q'"
  proof (rule rungs_orderedI)
    fix i j x
    assume "in_bucket i j x q'"
    from f(8) [OF this] rungs_orderedD(1) [of q i j x] o show "placed i j x q'" by (auto simp: pl)
  next
    fix i j x k l y
    assume x: "in_bucket i j x q'" and y: "in_bucket k l y q'" and lt: "i < k"
    from f(8) [OF x] f(8) [OF y] lt inside(2) [of k l y] outside [of i j x] rungs_orderedD(2) [of q i j x k l y] o
    show "timestamp y < timestamp x" by auto
  qed
  moreover have "timestamp x < timestamp y" if "x \<in> set (bottom q)" "in_bucket i j y q'" for x i j y
    using f(8) [OF that(2)] that(1) o inside(1) by auto
  moreover have "timestamp y \<le> top_start q" if "in_bucket i j y q'" for i j y
    using f(8) [OF that] o assms(3) by auto
  ultimately show ?thesis using o unfolding lq_ordered_def f(4-6) c(2,3) by blast
qed

lemma createRungForBottomTransfer_frame:
  assumes "createRungForBottomTransfer t q = Inr q'" and "r < n_rung q"
  shows "r_start q' ! r = r_start q ! r" "bucket_width q' ! r = bucket_width q ! r"
    "RUNG_BUCKET_CNT r q' = RUNG_BUCKET_CNT r q"
  using assms by (auto simp: createRungForBottomTransfer_def Let_def RUNG_BUCKET_CNT_def split: if_splits)

lemma createRungForBottomTransfer_times:
  assumes "createRungForBottomTransfer t q = Inr q'"
  shows "top_start q' = top_start q" "min_ts q' = min_ts q" "max_ts q' = max_ts q"
  using assms by (auto simp: createRungForBottomTransfer_def Let_def grow_rung_0_def split: if_splits)

text \<open>The bottom becomes a new innermost rung.\<close>

lemma spill_ordered:
  assumes c: "createRungForBottomTransfer t q = Inr q1" and tr: "foldR (transfer (n_rung q1 - 1)) (bottom q1) q1 = Inr q2"
    and inv: "ladder_inv q" and ord: "lq_ordered q" and n: "n_rung q < MAX_RUNG_CNT"
  shows "lq_ordered (q2\<lparr>bottom := []\<rparr>)"
    and "in_bucket i j x q2 \<Longrightarrow> in_bucket i j x q \<and> i < n_rung q \<or> i = n_rung q \<and> x \<in> set (bottom q)"
proof -
  note n1 = createRungForBottomTransfer_inv(2) [OF c inv n]
  note f = transfers_placed [OF tr] and f1 = createRungForBottomTransfer_frame [OF c]
  note times = createRungForBottomTransfer_times [OF c]
  note o = ord [unfolded lq_ordered_def]
  have b1: "bottom q1 = bottom q" "lq_top q2 = lq_top q"
    using content_createRungForBottomTransfer [OF c] transfers_frame [OF tr] by simp_all
  have pl: "placed i j x (q2\<lparr>bottom := []\<rparr>) = placed i j x q1" for i j x
    by (rule placed_cong) (simp_all add: f RUNG_BUCKET_CNT_def)
  have two: "in_bucket i j x q \<and> i < n_rung q \<or> i = n_rung q \<and> x \<in> set (bottom q) \<and> placed i j x q1"
    if "in_bucket i j x q2" for i j x
    using f(2) [OF that] ladder_inv_in_bucket [OF inv, of i j x]
    by (auto simp: in_bucket_createRungForBottomTransfer [OF c] n1 b1)
  then show "in_bucket i j x q2 \<Longrightarrow> in_bucket i j x q \<and> i < n_rung q \<or> i = n_rung q \<and> x \<in> set (bottom q)" by blast
  have "rungs_ordered (q2\<lparr>bottom := []\<rparr>)"
  proof (rule rungs_orderedI, simp_all)
    fix i j x
    assume "in_bucket i j x q2"
    from two [OF this] show "placed i j x (q2\<lparr>bottom := []\<rparr>)"
    proof (elim disjE conjE)
      assume "in_bucket i j x q" "i < n_rung q"
      with rungs_orderedD(1) [of q i j x] o show ?thesis by (simp add: pl placed_cong [of q1 i q, OF f1])
    qed (simp add: pl)
  next
    fix i j x k l y
    assume x: "in_bucket i j x q2" and y: "in_bucket k l y q2" and lt: "i < k"
    from two [OF x] two [OF y] lt rungs_orderedD(2) [of q i j x k l y] o show "timestamp y < timestamp x" by auto
  qed
  moreover have "timestamp x \<le> top_start q" if "in_bucket i j x q2" for i j x using two [OF that] o by auto
  ultimately show "lq_ordered (q2\<lparr>bottom := []\<rparr>)"
    using o by (simp add: lq_ordered_def f(1) times b1)
qed

lemma lq_insert_ordered:
  assumes "lq_insert e q = Inr q'" and inv: "ladder_inv q" and ord: "lq_ordered q" and fresh: "lq_fresh q"
  shows "lq_ordered q'"
  using assms(1)
proof (cases rule: lq_insert_cases)
  note o = ord [unfolded lq_ordered_def] and fr = lq_freshD [OF fresh]
  { case top
    have "rungs_ordered q'" by (rule rungs_ordered_subset [of q]) (use o in \<open>simp_all add: top(2) RUNG_BUCKET_CNT_def\<close>)
    with o top show ?thesis by (auto simp: lq_ordered_def min_def max_def split: if_splits) }
  { case (rung r)
    note rf = rung_forD [OF rung(2)]
    show ?thesis
    proof (rule insert_in_rung_ordered [OF rung(3) ord rung(1)])
      show "\<forall>x\<in>set (bottom q). timestamp x < timestamp e" using less_le_trans [OF fr(1) [OF rf(1)] rf(2)] by blast
      show "timestamp x < timestamp e" if "in_bucket i b x q" "r < i" for i b x
        by (rule less_le_trans [OF fr(2) [OF rf(1) that] rf(2)])
      show "timestamp e < timestamp x" if "in_bucket i b x q" "i < r" for i b x
        by (rule less_le_trans [OF rf(3) [OF that(2)] fr(3) [OF _ that(1)]]) (use that(2) rf(1) in simp)
    qed }
  have outside: "timestamp e < timestamp x" if "rung_for (timestamp e) q = None" "in_bucket i b x q" for i b x
    by (rule less_le_trans [OF rung_for_NoneD [OF that(1) ladder_inv_in_bucket [OF inv that(2)]]
          fr(3) [OF ladder_inv_in_bucket [OF inv that(2)] that(2)]])
  { case to_bottom
    have "rungs_ordered q'" by (rule rungs_ordered_subset [of q]) (use o in \<open>simp_all add: to_bottom(3)\<close>)
    with o to_bottom outside [OF to_bottom(2)] show ?thesis by (auto simp: lq_ordered_def ce.sorted_insert) }
  { case (spill q1 q2)
    note n1 = createRungForBottomTransfer_inv(2) [OF spill(5) inv spill(3)]
    note sp = spill_ordered [OF spill(5,6) inv ord spill(3)]
    show ?thesis
    proof (rule insert_in_rung_ordered [OF spill(7) sp(1)])
      show "timestamp e \<le> top_start (q2\<lparr>bottom := []\<rparr>)"
        using spill(1) transfers_placed(1) [OF spill(6)] createRungForBottomTransfer_times [OF spill(5)] by simp
      show "timestamp e < timestamp x" if "in_bucket i b x (q2\<lparr>bottom := []\<rparr>)" "i < n_rung q1 - 1" for i b x
        using sp(2) [of i b x] that n1 outside [OF spill(2)] by auto
      show "timestamp x < timestamp e" if "in_bucket i b x (q2\<lparr>bottom := []\<rparr>)" "n_rung q1 - 1 < i" for i b x
        using sp(2) [of i b x] that n1 by auto
    qed simp }
qed

lemma lq_erase_ordered:
  assumes "lq_erase e q = Inr (found, q')" and inv: "ladder_inv q" and ord: "lq_ordered q"
  shows "lq_ordered q'"
  using assms(1)
proof (cases rule: lq_erase_cases)
  case top
  have "rungs_ordered q'" by (rule rungs_ordered_subset [of q]) (use ord in \<open>simp_all add: top(4) lq_ordered_def RUNG_BUCKET_CNT_def\<close>)
  moreover have "\<forall>x\<in>set (remove_first (same_event e) (lq_top q)). x \<in> set (lq_top q)"
    using remove_first_subset [of "same_event e" "lq_top q"] by blast
  ultimately show ?thesis using ord by (simp add: top(4) lq_ordered_def)
next
  case (rung r)
  note er = erase_in_rung_inv [OF rung(4) inv rung_forD(1) [OF rung(3)]]
  have same: "r_start q' = r_start q" "bucket_width q' = bucket_width q" "rung_0_length q' = rung_0_length q"
    "top_start q' = top_start q" "min_ts q' = min_ts q" "max_ts q' = max_ts q"
    using rung(4) by (auto simp: erase_in_rung_def split: if_splits)
  have "rungs_ordered q'"
    by (rule rungs_ordered_subset [of q]) (use ord er(5) in \<open>simp_all add: same lq_ordered_def RUNG_BUCKET_CNT_def\<close>)
  with ord er show ?thesis unfolding lq_ordered_def same er(2,3) by blast
next
  case below
  have "rungs_ordered q'" by (rule rungs_ordered_subset [of q]) (use ord in \<open>simp_all add: below(5) lq_ordered_def RUNG_BUCKET_CNT_def\<close>)
  with ord show ?thesis by (simp add: below(5) lq_ordered_def ce.sorted_erase) (simp add: ms_erase_def)
qed (use ord in simp)

lemma ladder_new_ordered: "lq_ordered ladder_new"
proof -
  have "\<not> in_bucket r b e ladder_new" for r b e
    using ladder_inv_in_bucket [OF ladder_new_inv, of r b e] by (auto simp: ladder_new_def)
  then show ?thesis by (simp add: lq_ordered_def rungs_ordered_def) (simp add: ladder_new_def)
qed

end
