(* ===== verification/Ladder_Queue_Props.thy ===== *)
theory Ladder_Queue_Props
  imports Ladder_Queue_Order
begin

text \<open>
  The properties of the ladder queue (\<open>src/src/LadderQueue.cpp\<close>): no operation loses or invents an event,
  every array access is in range, \<open>begin\<close> returns an earliest event, and what the event just returned
  needs in order to be erased; with the two defects that the model shows, a division by zero and an event
  that cannot be erased.
\<close>

section \<open>Errors\<close>

lemma bindR_eq_Inl: "bindR m k = Inl f \<longleftrightarrow> m = Inl f \<or> (\<exists>x. m = Inr x \<and> k x = Inl f)"
  by (cases m) auto

definition in_range :: "'a res \<Rightarrow> bool" where
  "in_range m \<longleftrightarrow> m \<noteq> Inl Out_Of_Range"

lemma in_range_bindR: "in_range m \<Longrightarrow> (\<And>x. m = Inr x \<Longrightarrow> in_range (k x)) \<Longrightarrow> in_range (bindR m k)"
  by (auto simp: in_range_def bindR_eq_Inl)

lemma in_range_simps [simp]: "in_range (Inr x)" "in_range (assertR b)" "in_range (Inl Assert_Failed)" "in_range (Inl Div_By_Zero)"
  by (auto simp: in_range_def assertR_def)

lemma in_range_foldR:
  assumes "\<And>x s. P s \<Longrightarrow> in_range (f x s)" and "\<And>x s s'. P s \<Longrightarrow> f x s = Inr s' \<Longrightarrow> P s'" and "P s"
  shows "in_range (foldR f xs s)"
  using assms(3) by (induction xs arbitrary: s) (auto intro!: in_range_bindR assms(1,2))

text \<open>A rung that is in use has buckets.\<close>

definition has_buckets :: "ladder \<Rightarrow> bool" where
  "has_buckets q \<longleftrightarrow> ladder_wf q \<and> (0 < n_rung q \<longrightarrow> 0 < rung_0_length q)"

lemma bucket_in_range:
  assumes "has_buckets q" and "r < n_rung q" and "bucket_of r t q = Inr b"
  shows "r < length (rungs q)" "unat b < length (rungs q ! r)"
proof -
  have wf: "ladder_wf q" and r: "r < MAX_RUNG_CNT" using assms(1,2) by (auto simp: has_buckets_def ladder_wf_def)
  then show "r < length (rungs q)" by (simp add: ladder_wf_def)
  have "0 < RUNG_BUCKET_CNT r q"
    using assms(1,2) by (auto simp: has_buckets_def RUNG_BUCKET_CNT_def THRESHOLD_def)
  then have "1 \<le> RUNG_BUCKET_CNT r q" by (simp add: word_le_nat_alt word_less_nat_alt)
  then have "unat (RUNG_BUCKET_CNT r q - 1) = unat (RUNG_BUCKET_CNT r q) - 1" "0 < unat (RUNG_BUCKET_CNT r q)"
    by (simp_all add: unat_sub word_le_nat_alt)
  then have "unat b < unat (RUNG_BUCKET_CNT r q)" using bucket_of_le [OF assms(3)] by (simp add: word_le_nat_alt)
  then show "unat b < length (rungs q ! r)" using wf r by (simp add: ladder_wfD)
qed

lemma in_range_bucket_of: "in_range (bucket_of r t q)"
  by (simp add: bucket_of_def)

lemma in_range_transfer: "has_buckets q \<Longrightarrow> r < n_rung q \<Longrightarrow> in_range (transfer r e q)"
  unfolding transfer_def
  by (intro in_range_bindR) (simp_all add: in_range_bucket_of push_front_def bucket_in_range)

lemma transfer_has_buckets:
  assumes "transfer r e q = Inr q'"
  shows "has_buckets q' = has_buckets q" "n_rung q' = n_rung q"
  using transfer_wf [OF assms] assms by (auto simp: has_buckets_def elim!: transferD)

lemma in_range_transfers:
  assumes "has_buckets q" and "r < n_rung q"
  shows "in_range (foldR (transfer r) es q)"
  by (rule in_range_foldR [where P = "\<lambda>s. has_buckets s \<and> r < n_rung s"])
    (use assms in \<open>auto simp: in_range_transfer transfer_has_buckets\<close>)

lemma in_range_insert_in_rung:
  assumes "has_buckets q" and "r < n_rung q"
  shows "in_range (insert_in_rung r e q)"
  unfolding insert_in_rung_def Let_def
proof (intro in_range_bindR)
  fix b
  assume "bucket_of r (timestamp e) q = Inr b"
  from bucket_in_range [OF assms this] show "in_range (push_front r b e
      (if r_start q ! r + b * bucket_width q ! r < r_current (note_nonempty r b q) ! r
       then set_r_current r (r_start q ! r + b * bucket_width q ! r) (note_nonempty r b q) else note_nonempty r b q))"
    by (simp add: push_front_def)
qed (simp_all add: in_range_bucket_of)

text \<open>Rung 0 has buckets whenever it is in use: this is kept by every operation that succeeds.\<close>

lemma createNewRung_buckets:
  assumes "createNewRung num init q = Inr ((created, static), q')" and "n_rung q \<noteq> 0" and "has_buckets q"
  shows "has_buckets q'"
  using createNewRung_wf [OF assms(1)] createNewRung_sel(2) [OF assms(1,2)] assms(2,3) by (auto simp: has_buckets_def)

lemma has_buckets_simps [simp]:
  "has_buckets (set_bucket r b es q) = has_buckets q" "has_buckets (recalculate r b q) = has_buckets q"
  "has_buckets (at_bucket r b q) = has_buckets q" "has_buckets (q\<lparr>bottom := x1\<rparr>) = has_buckets q"
  "has_buckets (q\<lparr>lq_top := x2\<rparr>) = has_buckets q" "has_buckets (set_r_current r t q) = has_buckets q"
  by (simp_all add: has_buckets_def)

lemma drop_rung_buckets: "has_buckets q \<Longrightarrow> has_buckets (drop_rung q)"
  by (auto simp: has_buckets_def drop_rung_wf)

lemma transfers_buckets: "foldR (transfer r) es q = Inr q' \<Longrightarrow> has_buckets q' = has_buckets q"
  by (induction es arbitrary: q) (auto dest: transfer_has_buckets(1))

lemma recurse_step_buckets:
  assumes "recurse_step q = Inr (s, q')" and hb: "has_buckets q"
  shows "has_buckets q'"
  using assms(1)
proof (cases rule: recurse_step_cases)
  case (split r b)
  from split(8) show ?thesis
  proof (cases rule: split_bucketD)
    case static
    with createNewRung_buckets [OF static(2)] split(3) hb show ?thesis by simp
  next
    case (created static q1 q2)
    with createNewRung_buckets [OF created(2)] split(3) hb transfers_buckets [OF created(3)] show ?thesis by simp
  qed
qed (use hb in \<open>simp_all add: drop_rung_buckets\<close>)

lemma in_range_recurse_step:
  assumes hb: "has_buckets q"
  shows "in_range (recurse_step q)"
proof -
  let ?r = "n_rung q - 1" and ?b = "first_nonempty (n_rung q - 1) q"
  have "in_range (split_bucket ?r ?b (at_bucket ?r ?b q))" if n: "n_rung q \<noteq> 0"
    unfolding split_bucket_def
  proof (intro in_range_bindR)
    let ?q = "at_bucket ?r ?b q"
    show "in_range (createNewRung (of_nat (length (bucket ?r ?b ?q))) (r_current ?q ! ?r) ?q)"
      by (auto simp: createNewRung_def Let_def intro!: in_range_bindR)
    fix f
    assume f: "createNewRung (of_nat (length (bucket ?r ?b ?q))) (r_current ?q ! ?r) ?q = Inr f"
    obtain c st q1 where q1: "f = ((c, st), q1)" by (cases f) auto
    note c = createNewRung_buckets [OF f [unfolded q1]] createNewRung_sel(5) [OF f [unfolded q1]]
    have "in_range (foldR (transfer (?r + 1)) (bucket ?r ?b ?q) q1)" if c
      by (rule in_range_transfers) (use c n hb that in simp_all)
    then show "in_range (case f of (x, q1) \<Rightarrow> (case x of (created, static) \<Rightarrow> \<lambda>q1. if \<not> created then Inr (Found (if static then ?b else 0) static, q1)
        else bindR (foldR (transfer (?r + 1)) (bucket ?r ?b ?q) q1)
          (\<lambda>q2. Inr (Again, recalculate ?r ?b (set_bucket ?r ?b [] q2)))) q1)"
      by (auto simp: q1 intro!: in_range_bindR)
  qed
  moreover have "?b < length (rungs q ! ?r)" if "?b \<noteq> unat (RUNG_BUCKET_CNT ?r q)" "n_rung q \<noteq> 0"
    using that first_nonempty_le [of ?r q] hb by (auto simp: has_buckets_def ladder_wf_def)
  ultimately show ?thesis by (auto simp: recurse_step_def Let_def not_le)
qed

lemma in_range_recurseRung:
  assumes "has_buckets q"
  shows "in_range (recurseRung q) \<and> (\<forall>f q'. recurseRung q = Inr (f, q') \<longrightarrow> has_buckets q')"
  using assms
proof (induction q rule: recurseRung.induct)
  case (1 q)
  note step = in_range_recurse_step [OF 1(2)]
  show ?case
  proof (cases "recurse_step q")
    case (Inl f)
    with step show ?thesis by (simp add: recurseRung.simps [of q] in_range_def)
  next
    case (Inr y)
    obtain s q1 where y: "y = (s, q1)" by (cases y) auto
    note hb1 = recurse_step_buckets [OF Inr [unfolded y] 1(2)]
    show ?thesis
    proof (cases s)
      case (Found i st)
      with hb1 Inr y show ?thesis by (simp add: recurseRung.simps [of q])
    next
      case Again
      with 1(1) [OF Inr [unfolded y Again] refl refl hb1] Inr y show ?thesis by (simp add: recurseRung.simps [of q])
    qed
  qed
qed

lemma doubled_not_zero:
  assumes "0 < n" and "n < 2 ^ 31"
  shows "(2 * of_nat n :: u32) \<noteq> 0" "(of_nat n :: u32) \<noteq> 0"
proof -
  have "(2 * of_nat n :: u32) = of_nat (2 * n)" by simp
  moreover have "unat (of_nat (2 * n) :: u32) = 2 * n"
    using assms by (simp add: unsigned_of_nat take_bit_nat_eq_self del: of_nat_mult)
  ultimately show "(2 * of_nat n :: u32) \<noteq> 0" using assms by (metis gr_implies_not0 mult_is_0 unsigned_0 zero_neq_numeral)
  then show "(of_nat n :: u32) \<noteq> 0" by auto
qed

lemma grow_rung_0_length: "n \<noteq> 0 \<Longrightarrow> 0 < rung_0_length (grow_rung_0 n q)"
  by (auto simp: grow_rung_0_def max_def word_gt_0)

lemma first_rung_buckets:
  assumes "createNewRung num init q = Inr ((created, static), q')" and "n_rung q = 0" and "2 * num \<noteq> 0" and "ladder_wf q"
  shows "has_buckets q'" "n_rung q' = 1"
  using assms createNewRung_wf [OF assms(1,4)]
  by (auto simp: has_buckets_def createNewRung_def grow_rung_0_length)

lemma bottom_rung_buckets:
  assumes "createRungForBottomTransfer t q = Inr q'" and "has_buckets q" and "n_rung q < MAX_RUNG_CNT"
    and "n_rung q = 0 \<Longrightarrow> (2 * of_nat (length (bottom q)) :: u32) \<noteq> 0"
  shows "has_buckets q'" "n_rung q' = n_rung q + 1"
  using assms createRungForBottomTransfer_wf [OF assms(1) _ assms(3)]
  by (auto simp: has_buckets_def createRungForBottomTransfer_def Let_def grow_rung_0_length split: if_splits)

lemma in_range_move_top:
  assumes hb: "has_buckets q" and n: "n_rung q = 0" and top: "0 < length (lq_top q)" "length (lq_top q) < 2 ^ 31"
  shows "in_range (move_top q)" "move_top q = Inr q' \<Longrightarrow> has_buckets q'"
proof -
  let ?num = "of_nat (length (lq_top q)) :: u32"
  note nz = doubled_not_zero [OF top]
  have wf: "ladder_wf q" using hb by (simp add: has_buckets_def)
  have step: "has_buckets q1 \<and> n_rung q1 = 1" if "createNewRung ?num (min_ts q) q = Inr ((c, st), q1)" for c st q1
    using first_rung_buckets [OF that n nz(1) wf] by simp
  have cr: "in_range (createNewRung ?num (min_ts q) q)" using n by (auto simp: createNewRung_def intro!: in_range_bindR)
  show "in_range (move_top q)"
    unfolding move_top_def
    by (intro in_range_bindR cr) (use step in \<open>auto intro!: in_range_bindR in_range_transfers\<close>)
  show "move_top q = Inr q' \<Longrightarrow> has_buckets q'"
    using step by (auto simp: move_top_def) (auto dest: transfers_buckets)
qed

lemma take_from_rungs_buckets:
  "in_range (take_from_rungs b q)"
  by (auto simp: take_from_rungs_def Let_def split: option.split)

lemma in_range_lq_begin:
  assumes hb: "has_buckets q" and "ladder_inv q" and "size (lq_content q) < 2 ^ 31"
  shows "in_range (lq_begin q)"
proof -
  have "in_range (bindR (move_top q1) (\<lambda>q2. bindR (recurseRung q2) (\<lambda>((b, status), q3).
          if \<not> status then Inl Assert_Failed
          else let q4 = take_after_top b q3 in Inr (bottom_front q4, q4))))"
    if r: "recurseRung q = Inr ((b, st), q1)" and n: "n_rung q1 = 0" and top: "lq_top q1 \<noteq> []" for b st q1
  proof -
    have hb1: "has_buckets q1" using in_range_recurseRung [OF hb] r by blast
    have "lq_content q1 = lq_content q" using recurseRung_inv [OF r assms(2)] by (simp add: lq_content_def)
    with assms(3) have "length (lq_top q1) < 2 ^ 31"
      by (metis (no_types, lifting) lq_content_def le_add1 le_less_trans size_mset size_union add.assoc)
    with top have m: "in_range (move_top q1)" "move_top q1 = Inr q2 \<Longrightarrow> has_buckets q2" for q2
      using in_range_move_top [OF hb1 n] by simp_all
    show ?thesis
      by (intro in_range_bindR m(1)) (use m(2) in_range_recurseRung in \<open>auto simp: Let_def in_range_def split: prod.splits\<close>)
  qed
  then show ?thesis
    unfolding lq_begin_def using in_range_recurseRung [OF hb]
    by (auto intro!: in_range_bindR simp: take_from_rungs_buckets)
qed

lemma in_range_lq_insert:
  assumes hb: "has_buckets q" and "size (lq_content q) < 2 ^ 31"
  shows "in_range (lq_insert e q)"
proof (cases "timestamp e \<le> top_start q \<and> rung_for (timestamp e) q = None \<and> THRESHOLD \<le> length (bottom q) \<and> n_rung q < MAX_RUNG_CNT")
  case False
  then show ?thesis
    using in_range_insert_in_rung [OF hb] rung_forD(1)
    by (auto simp: lq_insert_def Let_def not_less not_le split: option.split)
next
  case True
  let ?t = "min (timestamp (hd (bottom q))) (timestamp e)"
  have "0 < length (bottom q)" "length (bottom q) < 2 ^ 31"
    using True assms(2) by (auto simp: lq_content_def THRESHOLD_def)
  note nz = doubled_not_zero(1) [OF this]
  have cr: "in_range (createRungForBottomTransfer ?t q)"
    by (auto simp: createRungForBottomTransfer_def Let_def intro!: in_range_bindR)
  have "in_range (bindR (foldR (transfer (n_rung q1 - 1)) (bottom q1) q1)
      (\<lambda>q2. insert_in_rung (n_rung q1 - 1) e (q2\<lparr>bottom := []\<rparr>)))"
    if q1: "createRungForBottomTransfer ?t q = Inr q1" for q1
  proof -
    have hb1: "has_buckets q1" "n_rung q1 - 1 < n_rung q1"
      using bottom_rung_buckets [OF q1 hb] True nz by simp_all
    show ?thesis
    proof (intro in_range_bindR in_range_transfers hb1)
      fix q2
      assume "foldR (transfer (n_rung q1 - 1)) (bottom q1) q1 = Inr q2"
      with hb1 transfers_buckets [OF this] transfers_frame [OF this]
      show "in_range (insert_in_rung (n_rung q1 - 1) e (q2\<lparr>bottom := []\<rparr>))"
        by (intro in_range_insert_in_rung) simp_all
    qed
  qed
  from in_range_bindR [OF cr this] show ?thesis using True by (simp add: lq_insert_def Let_def not_less not_le)
qed

lemma in_range_lq_erase: "has_buckets q \<Longrightarrow> in_range (lq_erase e q)"
proof -
  assume hb: "has_buckets q"
  have "in_range (erase_in_rung r e q)" if "rung_for (timestamp e) q = Some r" for r
    unfolding erase_in_rung_def
  proof (rule in_range_bindR [OF in_range_bucket_of])
    fix b
    assume "bucket_of r (timestamp e) q = Inr b"
    from bucket_in_range(2) [OF hb rung_forD(1) [OF that] this]
    show "in_range (if length (rungs q ! r) \<le> unat b then Inl Out_Of_Range
        else if \<not> list_ex (same_event e) (bucket r (unat b) q) then Inl Assert_Failed
        else Inr (shrink_rung r (unat b) (set_bucket r (unat b) (remove_first (same_event e) (bucket r (unat b) q)) q)))" by simp
  qed
  then show ?thesis by (auto simp: lq_erase_def intro!: in_range_bindR split: option.split)
qed

lemma event_has_buckets:
  assumes inv: "ladder_inv q" and "n_rung q \<le> 1" and "rung_content q \<noteq> {#}"
  shows "has_buckets q"
proof -
  from assms(3) obtain r b e where e: "in_bucket r b e q" by (auto simp: rung_content_empty_iff)
  then have "r = 0" using ladder_inv_in_bucket [OF inv e] assms(2) by simp
  with e inv in_bucketD [of q r b e] have "0 < rung_0_length q"
    by (auto simp: ladder_inv_def RUNG_BUCKET_CNT_def word_less_nat_alt)
  with inv show ?thesis by (simp add: has_buckets_def ladder_inv_def)
qed

lemma drop_rungs_buckets: "has_buckets q \<Longrightarrow> n_rung (drop_rungs q) \<le> n_rung q - 1 \<and> has_buckets (drop_rungs q)"
proof (induction q rule: drop_rungs.induct)
  case (1 q)
  let ?more = "n_rung (drop_rung q) \<noteq> 0 \<and> last_nonempty_bucket (drop_rung q) ! (n_rung (drop_rung q) - 1) = 0"
  have hb: "has_buckets (drop_rung q)" using 1(2) by (rule drop_rung_buckets)
  show ?case
  proof (cases ?more)
    case True
    then have eq: "drop_rungs q = drop_rungs (drop_rung q)" by (subst drop_rungs.simps) (simp add: Let_def)
    from 1(1) [OF refl True hb] show ?thesis unfolding eq by auto
  next
    case False
    then have eq: "drop_rungs q = drop_rung q" by (subst drop_rungs.simps) (auto simp: Let_def)
    from hb show ?thesis unfolding eq by simp
  qed
qed

lemma fill_bottom_buckets [simp]: "has_buckets (fill_bottom r b q) = has_buckets q"
  by (simp add: fill_bottom_def)

lemma lq_begin_buckets:
  assumes "lq_begin q = Inr (r, q')" and hb: "has_buckets q" and inv: "ladder_inv q"
  shows "has_buckets q'"
  using assms(1)
proof (cases rule: lq_begin_cases)
  case (rung b q1)
  then have "has_buckets q1" using in_range_recurseRung [OF hb] by blast
  with rung(4) drop_rungs_buckets [of "fill_bottom (n_rung q1 - 1) b q1"] show ?thesis
    by (auto simp: take_from_rungs_def Let_def move_on_def split: if_splits list.splits)
next
  case (none b st)
  then show ?thesis using in_range_recurseRung [OF hb] by blast
next
  case (move b st q1 q2 b2 q3)
  have inv1: "ladder_inv q1" using recurseRung_inv [OF move(2) inv] by simp
  note m = move_top_inv [OF move(4) inv1 move(3)]
  have n2: "n_rung q2 = 1" using move(3,4) by (auto simp: move_top_def createNewRung_def dest!: transfers_frame)
  have "lq_top q1 \<noteq> []"
    using move(4) by (auto simp: move_top_def createNewRung_def)
  then have "rung_content q2 \<noteq> {#}" using m no_rung_no_event [OF inv1 move(3)] by (auto simp: lq_content_def)
  from event_has_buckets [OF m(1) _ this] n2 have "has_buckets q2" by simp
  then have "has_buckets q3" using in_range_recurseRung move(5) by blast
  then show ?thesis unfolding move(6)
    by (auto simp: take_after_top_def Let_def move_on_def drop_rung_buckets split: list.split)
qed (use hb in simp)

lemma insert_in_rung_buckets: "insert_in_rung r e q = Inr q' \<Longrightarrow> ladder_inv q' \<Longrightarrow> has_buckets q \<Longrightarrow> has_buckets q'"
  using insert_in_rung_placed(3,7) [of r e q q'] by (simp add: has_buckets_def ladder_inv_def)

lemma lq_insert_buckets:
  assumes "lq_insert e q = Inr q'" and hb: "has_buckets q" and inv: "ladder_inv q"
  shows "has_buckets q'"
  using assms(1)
proof (cases rule: lq_insert_cases)
  note inv' = lq_insert_inv [OF assms(1) inv]
  { case top
    with hb show ?thesis by (simp add: has_buckets_def) }
  { case (rung r)
    with insert_in_rung_buckets [OF rung(3)] inv' hb show ?thesis by simp }
  { case to_bottom
    with hb show ?thesis by simp }
  { case (spill q1 q2)
    note n1 = createRungForBottomTransfer_inv(2) [OF spill(5) inv spill(3)]
    have nq: "n_rung q' = n_rung q + 1"
      using insert_in_rung_placed(7) [OF spill(7)] transfers_frame [OF spill(6)] n1 by simp
    show ?thesis
    proof (cases "n_rung q = 0")
      case True
      have "rung_content q' \<noteq> {#}" using content_insert_in_rung(1) [OF spill(7)] by simp
      with event_has_buckets [of q'] inv' nq True show ?thesis by simp
    next
      case False
      have "has_buckets q1" by (rule bottom_rung_buckets [OF spill(5) hb spill(3)]) (use False in simp)
      with transfers_buckets [OF spill(6)] insert_in_rung_buckets [OF spill(7)] inv' show ?thesis by simp
    qed }
qed

lemma lq_erase_buckets:
  assumes "lq_erase e q = Inr (found, q')" and hb: "has_buckets q" and inv: "ladder_inv q"
  shows "has_buckets q'"
  using assms(1)
proof (cases rule: lq_erase_cases)
  case (rung r)
  have "rung_0_length q' = rung_0_length q" "n_rung q' = n_rung q"
    using rung(4) by (auto simp: erase_in_rung_def shrink_rung_def split: if_splits list.split)
  with hb lq_erase_inv [OF assms(1) inv] show ?thesis by (simp add: has_buckets_def ladder_inv_def)
qed (use hb in simp_all)

lemma ladder_reach_buckets: "ladder_reach q \<Longrightarrow> has_buckets q"
proof (induction rule: ladder_reach.induct)
  case new
  show ?case using ladder_new_inv by (simp add: has_buckets_def ladder_inv_def) (simp add: ladder_new_def)
qed (auto intro: lq_insert_buckets lq_begin_buckets lq_erase_buckets ladder_reach_inv)

section \<open>Properties\<close>

text \<open>An event at address \<open>p\<close> with time \<open>t\<close>, for the examples.\<close>

definition sample :: "nat \<Rightarrow> u32 \<Rightarrow> event" where
  "sample p t = \<lparr>ev_ptr = p, receiverName = ''A'', timestamp = t, sender_name = ''B'', event_type = POSITIVE,
     send_time = 0, generation = of_nat p, payload = 0\<rparr>"

definition two_events :: ladder where
  "two_events = ladder_new\<lparr>lq_top := [sample 2 3, sample 1 5], min_ts := 3, max_ts := 5\<rparr>"

lemma two_events_inserted:
  "lq_insert (sample 1 5) ladder_new = Inr (ladder_new\<lparr>lq_top := [sample 1 5], min_ts := 5, max_ts := 5\<rparr>)"
  "lq_insert (sample 2 3) (ladder_new\<lparr>lq_top := [sample 1 5], min_ts := 5, max_ts := 5\<rparr>) = Inr two_events"
  by (simp_all add: lq_insert_def ladder_new_def sample_def two_events_def)

lemma two_events_reach: "ladder_reach two_events"
  by (rule ladder_reach.inserted [OF ladder_reach.inserted [OF ladder_reach.new two_events_inserted(1)] two_events_inserted(2)])

text \<open>C31: Every array access of the ladder queue is in range: from any state that its operations reach, with
  fewer than \<open>2\<^sup>3\<^sup>1\<close> events, \<open>insert\<close>, \<open>begin\<close> and \<open>erase\<close> access only buckets that exist, and at most
  \<open>MAX_RUNG_CNT\<close> rungs are in use.\<close>
theorem ladder_in_range:
  assumes "ladder_reach q" and "size (lq_content q) < 2 ^ 31"
  shows "lq_insert e q \<noteq> Inl Out_Of_Range \<and> lq_begin q \<noteq> Inl Out_Of_Range \<and> lq_erase e q \<noteq> Inl Out_Of_Range \<and>
    n_rung q \<le> MAX_RUNG_CNT"
proof -
  note hb = ladder_reach_buckets [OF assms(1)] and inv = ladder_reach_inv [OF assms(1)]
  from in_range_lq_insert [OF hb assms(2)] in_range_lq_begin [OF hb inv assms(2)] in_range_lq_erase [OF hb]
  show ?thesis using inv by (simp add: in_range_def ladder_inv_def ladder_wf_def)
qed

lemma two_events_content: "size (lq_content two_events) < 2 ^ 31"
proof -
  have "rung_content ladder_new = {#}" by (rule no_rung_no_event [OF ladder_new_inv]) (simp add: ladder_new_def)
  then show ?thesis by (simp add: two_events_def lq_content_def) (simp add: ladder_new_def)
qed

theorem ladder_in_range_witness: "lq_begin two_events \<noteq> Inl Out_Of_Range"
  using ladder_in_range [OF two_events_reach two_events_content] by blast

text \<open>C11: The ladder queue loses and invents no event: \<open>insert\<close> adds exactly its event, wherever it puts it;
  \<open>begin\<close>, however many events it moves, keeps the content, and it returns null only when the queue is empty.\<close>
theorem ladder_keeps_events:
  assumes "ladder_reach q"
  shows "(lq_insert e q = Inr q1 \<longrightarrow> lq_content q1 = lq_content q + {#e#}) \<and>
    (lq_begin q = Inr (r, q2) \<longrightarrow> lq_content q2 = lq_content q \<and>
       (case r of None \<Rightarrow> lq_content q = {#} | Some x \<Rightarrow> x \<in># lq_content q))"
proof (intro conjI impI)
  note inv = ladder_reach_inv [OF assms]
  show "lq_content q1 = lq_content q + {#e#}" if "lq_insert e q = Inr q1" using lq_insert_inv [OF that inv] by simp
  assume "lq_begin q = Inr (r, q2)"
  note b = lq_begin_inv [OF this inv]
  then show c: "lq_content q2 = lq_content q" by simp
  from b have rb: "r = bottom_front q2" and empty: "bottom q2 = [] \<longrightarrow> lq_content q2 = {#}" by blast+
  have h: "case bottom_front q2 of None \<Rightarrow> lq_content q2 = {#} | Some x \<Rightarrow> x \<in># lq_content q2"
    using empty by (cases "bottom q2") (simp_all add: lq_content_def)
  show "case r of None \<Rightarrow> lq_content q = {#} | Some x \<Rightarrow> x \<in># lq_content q" using h unfolding rb c .
qed

lemma two_events_begin: "\<exists>q. lq_begin two_events = Inr (Some (sample 2 3), q)"
proof -
  have "(case lq_begin two_events of Inr (Some e, q) \<Rightarrow> e = sample 2 3 | _ \<Rightarrow> False)" by code_simp
  then show ?thesis by (auto split: sum.splits option.splits)
qed

theorem ladder_keeps_events_witness: "\<exists>q. lq_begin two_events = Inr (Some (sample 2 3), q) \<and> lq_content q = lq_content two_events"
  using two_events_begin ladder_keeps_events [OF two_events_reach] by blast

text \<open>The runs in which an event is inserted only while \<open>r_current\<close> separates the rungs.\<close>

inductive ladder_fresh_reach :: "ladder \<Rightarrow> bool" where
  new: "ladder_fresh_reach ladder_new"
| inserted: "ladder_fresh_reach q \<Longrightarrow> lq_fresh q \<Longrightarrow> lq_insert e q = Inr q' \<Longrightarrow> ladder_fresh_reach q'"
| begun: "ladder_fresh_reach q \<Longrightarrow> lq_begin q = Inr (r, q') \<Longrightarrow> ladder_fresh_reach q'"
| erased: "ladder_fresh_reach q \<Longrightarrow> lq_erase e q = Inr (found, q') \<Longrightarrow> ladder_fresh_reach q'"

lemma ladder_fresh_reach_ordered: "ladder_fresh_reach q \<Longrightarrow> ladder_inv q \<and> lq_ordered q"
proof (induction rule: ladder_fresh_reach.induct)
  case new
  show ?case by (simp add: ladder_new_inv ladder_new_ordered)
next
  case (inserted q e q')
  with lq_insert_inv [OF inserted(3)] lq_insert_ordered [OF inserted(3)] show ?case by simp
next
  case (begun q r q')
  with lq_begin_inv [OF begun(2)] lq_begin_ordered [OF begun(2)] show ?case by simp
next
  case (erased q e found q')
  with lq_erase_inv [OF erased(2)] lq_erase_ordered [OF erased(2)] show ?case by simp
qed

text \<open>C10: \<open>begin\<close> returns an earliest event: as long as events are inserted only while \<open>r_current\<close> separates each
  rung from what is inside it, the event that \<open>begin\<close> returns is not after any event in the queue, in the
  order of \<open>compareEvents\<close>, although only the bottom is sorted.\<close>
theorem ladder_begin_earliest:
  assumes "ladder_fresh_reach q" and "lq_begin q = Inr (Some e, q')"
  shows "e \<in># lq_content q \<and> (\<forall>x\<in>#lq_content q. \<not> compareEvents x e)"
  using lq_begin_least [OF assms(2)] ladder_fresh_reach_ordered [OF assms(1)] by blast

lemma no_rung_fresh: "n_rung q = 0 \<Longrightarrow> lq_fresh q"
  by (simp add: lq_fresh_def)

lemma two_events_fresh_reach: "ladder_fresh_reach two_events"
  by (rule ladder_fresh_reach.inserted [OF ladder_fresh_reach.inserted [OF ladder_fresh_reach.new _ two_events_inserted(1)]
        _ two_events_inserted(2)]) (simp_all add: no_rung_fresh ladder_new_def)

theorem ladder_begin_earliest_witness: "\<not> compareEvents (sample 1 5) (sample 2 3)"
proof -
  obtain q where "lq_begin two_events = Inr (Some (sample 2 3), q)" using two_events_begin by blast
  from ladder_begin_earliest [OF two_events_fresh_reach this] show ?thesis by (simp add: two_events_def lq_content_def)
qed

text \<open>The event that \<open>begin\<close> has returned is the one that \<open>erase\<close> then takes out, together with the events
  that \<open>compareEvents\<close> cannot tell from it, provided that \<open>r_current\<close> separates the rungs after \<open>begin\<close>.\<close>

lemma lq_erase_next:
  assumes "ladder_fresh_reach q" and "lq_begin q = Inr (Some e, q')" and "lq_fresh q'"
  shows "\<exists>q''. lq_erase e q' = Inr (True, q'') \<and>
    lq_content q'' = filter_mset (\<lambda>x. \<not> ms_equiv compareEvents e x) (lq_content q)"
proof -
  note io = ladder_fresh_reach_ordered [OF assms(1)]
  then have inv: "ladder_inv q" and ord: "lq_ordered q" by simp_all
  note b = lq_begin_inv [OF assms(2) inv]
  note o = lq_begin_ordered [OF assms(2) inv ord, unfolded lq_ordered_def]
  from b obtain es where es: "bottom q' = e # es" by (cases "bottom q'") auto
  have "rung_for (timestamp e) q' = None"
    unfolding rung_for_def find_None_iff using lq_freshD(1) [OF assms(3), of _ e] es by (auto simp: not_le)
  moreover have "\<not> top_start q' < timestamp e" using o es by (simp add: not_less)
  ultimately have er: "lq_erase e q' = Inr (True, q'\<lparr>bottom := snd (ms_erase compareEvents e (bottom q'))\<rparr>)"
    using es by (simp add: lq_erase_def)
  have later: "\<not> ms_equiv compareEvents e x" if "x \<in> set (lq_top q') \<or> (\<exists>i j. in_bucket i j x q')" for x
  proof -
    have "timestamp e < timestamp x"
      using that o es by (auto dest: bspec [of _ _ x])
    then show ?thesis by (simp add: ms_equiv_def compareEvents_def)
  qed
  have "filter_mset (\<lambda>x. \<not> ms_equiv compareEvents e x) (mset (lq_top q')) = mset (lq_top q')"
    by (rule filter_mset_eq_conv [THEN iffD2]) (use later in auto)
  moreover have "filter_mset (\<lambda>x. \<not> ms_equiv compareEvents e x) (rung_content q') = rung_content q'"
    by (rule filter_mset_eq_conv [THEN iffD2]) (use later in \<open>auto simp: set_rung_content\<close>)
  ultimately have "lq_content (q'\<lparr>bottom := snd (ms_erase compareEvents e (bottom q'))\<rparr>) =
      filter_mset (\<lambda>x. \<not> ms_equiv compareEvents e x) (lq_content q')"
    by (simp add: lq_content_def ms_erase_def)
  with b er show ?thesis by simp
qed

lemma two_events_begun:
  obtains q where "lq_begin two_events = Inr (Some (sample 2 3), q)" "lq_fresh q"
proof -
  obtain q where q: "lq_begin two_events = Inr (Some (sample 2 3), q)" using two_events_begin by blast
  have "(case lq_begin two_events of Inr (_, q) \<Rightarrow> n_rung q = 1 \<and> r_current q ! 0 = 5 \<and> map timestamp (bottom q) = [3]
      \<and> list_all (list_all (\<lambda>x. timestamp x = 5)) (concat (rungs q)) | _ \<Rightarrow> False)" by code_simp
  with q have n: "n_rung q = 1" "r_current q ! 0 = 5" "map timestamp (bottom q) = [3]"
    "list_all (list_all (\<lambda>x. timestamp x = 5)) (concat (rungs q))" by simp_all
  have five: "timestamp x = 5" if "in_bucket i b x q" for i b x
    using that n(4) by (auto simp: in_bucket_def bucket_def list_all_iff) (meson nth_mem)
  have inv: "ladder_inv q" using lq_begin_inv [OF q] ladder_reach_inv [OF two_events_reach] by simp
  have "timestamp x = 3" if "x \<in> set (bottom q)" for x
    using n(3) that by auto
  then have "lq_fresh q" using n(1,2) five ladder_inv_in_bucket [OF inv] by (auto simp: lq_fresh_def)
  with q that show thesis by blast
qed

text \<open>C33: When only the top has events and the widths of the times, plus the number of events, do not fit in 32
  bits, the width of the first rung's buckets wraps around to 0, and \<open>begin\<close> divides by it: three events at
  times 1, 2 and \<open>2\<^sup>3\<^sup>2 - 1\<close> are enough.\<close>
theorem ladder_width_wraps:
  assumes "bottom q = []" and "n_rung q = 0" and "length (bucket_width q) = MAX_RUNG_CNT" and "lq_top q \<noteq> []"
    and "min_ts q < max_ts q" and "\<forall>x\<in>set (lq_top q). min_ts q \<le> timestamp x"
    and "max_ts q - min_ts q + of_nat (length (lq_top q)) - 1 < of_nat (length (lq_top q))"
    and "length (r_start q) = MAX_RUNG_CNT"
  shows "lq_begin q = Inl Div_By_Zero"
proof -
  let ?n = "of_nat (length (lq_top q)) :: u32"
  have w: "(max_ts q - min_ts q + ?n - 1) div ?n = 0"
    unfolding word_unat_eq_iff using assms(7) by (simp add: unat_div word_less_nat_alt)
  have "?n \<noteq> 0" using assms(7) by auto
  moreover have "min_ts q \<le> max_ts q" "min_ts q \<noteq> max_ts q" using assms(5) by auto
  ultimately obtain q1 where q1: "createNewRung ?n (min_ts q) q = Inr ((True, False), q1)"
    and "lq_top q1 = lq_top q" "bucket_width q1 ! 0 = 0" "r_start q1 ! 0 = min_ts q"
    using assms(2,3,8) w by (simp add: createNewRung_def MAX_RUNG_CNT_def grow_rung_0_def)
  moreover obtain e es where "lq_top q = e # es" using assms(4) by (cases "lq_top q") auto
  ultimately have "move_top q = Inl Div_By_Zero"
    using assms(6) by (simp add: move_top_def transfer_def bucket_of_def assertR_def)
  moreover have "recurseRung q = Inr ((0, False), q)"
    using assms(2) by (simp add: recurseRung.simps [of q] recurse_step_def)
  ultimately show ?thesis using assms(1,2,4) by (simp add: lq_begin_def)
qed

definition far_apart :: ladder where
  "far_apart = ladder_new\<lparr>lq_top := [sample 3 4294967295, sample 2 2, sample 1 1], min_ts := 1, max_ts := 4294967295\<rparr>"

theorem ladder_width_wraps_witness:
  "foldR lq_insert [sample 1 1, sample 2 2, sample 3 4294967295] ladder_new = Inr far_apart \<and> lq_begin far_apart = Inl Div_By_Zero"
proof
  show "foldR lq_insert [sample 1 1, sample 2 2, sample 3 4294967295] ladder_new = Inr far_apart"
    by (simp add: lq_insert_def ladder_new_def sample_def far_apart_def)
  show "lq_begin far_apart = Inl Div_By_Zero"
    by (rule ladder_width_wraps) (simp_all add: far_apart_def ladder_new_def sample_def)
qed

text \<open>A run after which the event that \<open>begin\<close> returns cannot be erased.\<close>

definition stuck_run :: "ladder res" where
  "stuck_run = bindR (lq_insert (sample 1 10) ladder_new) (\<lambda>q. bindR (lq_insert (sample 2 109) q) (\<lambda>q.
     bindR (lq_begin q) (\<lambda>(_, q). bindR (lq_erase (sample 1 10) q) (\<lambda>(_, q). bindR (lq_insert (sample 3 70) q) (\<lambda>q.
       foldR (\<lambda>i. lq_insert (sample i 100)) [4..<54] q)))))"

text \<open>After a bucket has overflowed into a new rung and no later bucket of its own rung has events,
  \<open>recurseRung\<close> sets \<open>r_current\<close> of that rung back to its start. The event that \<open>begin\<close> then returns is
  in the bottom, but \<open>erase\<close> looks for it in the emptied rung and runs into \<open>assert(0)\<close>: a run of 53
  insertions, in which no event is unusual, ends this way.\<close>
theorem ladder_cannot_erase_next:
  "case stuck_run of
     Inr q \<Rightarrow> (case lq_begin q of
        Inr (Some e, q') \<Rightarrow> e = sample 3 70 \<and> bottom q' = [e] \<and> lq_erase e q' = Inl Assert_Failed
      | _ \<Rightarrow> False)
   | Inl f \<Rightarrow> False"
  by code_simp

end
