(* ===== verification/Ladder_EventSet.thy ===== *)
theory Ladder_EventSet
  imports Ladder_Queue_Props TW_EventSet
begin

text \<open>
  The event set (\<open>src/src/TimeWarpEventSet.cpp\<close>) in the build with \<open>LADDER_QUEUE_SCHEDULER\<close>: the operations
  of the ladder queue as schedule queue, and what \<open>insertEvent\<close> does with them when a straggler arrives
  for an LP whose event is being processed.
\<close>

section \<open>The ladder queue as schedule queue\<close>

text \<open>\<open>getEvent\<close> takes the first event and erases it.\<close>

definition lq_pop :: "ladder \<Rightarrow> (event option \<times> ladder) res" where
  "lq_pop q =
     bindR (lq_begin q) (\<lambda>(event, q1).
       case event of
         None \<Rightarrow> Inr (None, q1)
       | Some e \<Rightarrow> bindR (lq_erase e q1) (\<lambda>(_, q2). Inr (Some e, q2)))"

text \<open>\<open>erase\<close> answers a boolean, which \<open>insertEvent\<close> reads as the number of events erased.\<close>

definition ladder_ops :: "ladder sched_ops" where
  "ladder_ops =
     \<lparr>sq_new = ladder_new, sq_insert = lq_insert,
      sq_erase = (\<lambda>e q. bindR (lq_erase e q) (\<lambda>(erased, q'). Inr (if erased then 1 else 0, q'))),
      sq_pop = lq_pop\<rparr>"

section \<open>Properties\<close>

text \<open>Popping from the ladder queue takes an earliest event and whatever \<open>compareEvents\<close> cannot tell from it
  out of the queue and nothing else, as long as events go into fresh queues and \<open>begin\<close> leaves a fresh one.\<close>
theorem lq_pop_earliest:
  assumes "ladder_fresh_reach q" and "lq_begin q = Inr (Some e, q1)" and "lq_fresh q1"
  shows "\<exists>q'. lq_pop q = Inr (Some e, q') \<and> (\<forall>x\<in>#lq_content q. \<not> compareEvents x e) \<and>
    lq_content q' = filter_mset (\<lambda>x. ev_key5 x \<noteq> ev_key5 e) (lq_content q)"
proof -
  have inv: "ladder_inv q" and ord: "lq_ordered q" using ladder_fresh_reach_ordered [OF assms(1)] by simp_all
  from lq_erase_next [OF assms] obtain q' where er: "lq_erase e q1 = Inr (True, q')"
    and c: "lq_content q' = filter_mset (\<lambda>x. \<not> ms_equiv compareEvents e x) (lq_content q)" by blast
  have "lq_pop q = Inr (Some e, q')" using assms(2) er by (simp add: lq_pop_def)
  with c lq_begin_least(2) [OF assms(2) inv ord] show ?thesis by (auto simp: ms_equiv_compareEvents eq_commute)
qed

theorem lq_pop_earliest_witness:
  "\<exists>q'. lq_pop two_events = Inr (Some (sample 2 3), q') \<and>
     lq_content q' = filter_mset (\<lambda>x. ev_key5 x \<noteq> ev_key5 (sample 2 3)) (lq_content two_events)"
proof -
  obtain q where "lq_begin two_events = Inr (Some (sample 2 3), q)" "lq_fresh q" by (rule two_events_begun)
  from lq_pop_earliest [OF two_events_fresh_reach this] show ?thesis by blast
qed

text \<open>C32: A straggler for an LP whose event is being processed. The event is no longer in the schedule queue, and
  the event set counts on \<open>erase\<close> to say so. The ladder queue does not: with an empty bottom it runs into
  \<open>assert(0)\<close>, and otherwise it answers true, so that the straggler is scheduled and another thread can
  process it while the LP is still processing its event.\<close>
theorem straggler_during_processing:
  assumes "lp < length (scheduled_event_pointer es)" and "s < length (schedule_queue es)" and "lp < length (input_queue es)"
    and "input_queue_scheduler_map es ! lp = s" and "scheduled_event_pointer es ! lp = Some a"
    and "input_queue es ! lp = a # iq" and "compareEvents straggler a" and "ev_ptr straggler \<noteq> ev_ptr a"
    and "timestamp a \<le> top_start (schedule_queue es ! s)" and "rung_for (timestamp a) (schedule_queue es ! s) = None"
    and "filter (ms_equiv compareEvents a) (bottom (schedule_queue es ! s)) = []"
    and "lq_insert straggler (schedule_queue es ! s) = Inr q"
  shows "if bottom (schedule_queue es ! s) = [] then insertEvent ladder_ops lp straggler es = Inl Assert_Failed
    else \<exists>es'. insertEvent ladder_ops lp straggler es = Inr es' \<and> schedule_queue es' ! s = q \<and>
       scheduled_event_pointer es' ! lp = Some straggler"
proof -
  let ?q = "schedule_queue es ! s"
  have "\<not> top_start ?q < timestamp a" using assms(9) by (simp add: not_less)
  moreover have "filter (\<lambda>y. \<not> ms_equiv compareEvents a y) (bottom ?q) = bottom ?q"
    using assms(11) by (auto simp: filter_empty_conv)
  ultimately have er: "lq_erase a ?q = (if bottom ?q = [] then Inl Assert_Failed else Inr (True, ?q))"
    using assms(10) by (simp add: lq_erase_def ms_erase_def)
  have front: "ev_insert straggler (a # iq) = straggler # a # iq" using assms(7) by simp
  show ?thesis
    using assms(1-6,8,12) er front by (simp add: insertEvent_def Let_def ladder_ops_def)
qed

text \<open>Two LPs have events at the same time; the first is being processed.\<close>

definition two_same :: ladder where
  "two_same = ladder_new\<lparr>lq_top := [sample 2 5, sample 1 5], min_ts := 5, max_ts := 5\<rparr>"

definition in_process :: "ladder event_set" where
  "in_process = event_set_new\<lparr>num_of_lps := 2, input_queue := [[sample 1 5], [sample 2 5]], processed_queue := [[], []],
     num_of_schedulers := 1, schedule_queue := [case lq_pop two_same of Inr (_, q) \<Rightarrow> q | Inl _ \<Rightarrow> ladder_new],
     input_queue_scheduler_map := [0, 0], worker_thread_scheduler_map := [0, 0],
     scheduled_event_pointer := [Some (sample 1 5), Some (sample 2 5)]\<rparr>"

theorem straggler_during_processing_witness:
  "\<exists>es'. insertEvent ladder_ops 0 (sample 3 4) in_process = Inr es' \<and> scheduled_event_pointer es' ! 0 = Some (sample 3 4) \<and>
     bottom (schedule_queue es' ! 0) = [sample 3 4, sample 2 5]"
proof -
  obtain q where q: "schedule_queue in_process = [q]" by (simp add: in_process_def)
  have "(case schedule_queue in_process of [q] \<Rightarrow> top_start q = 5 \<and> n_rung q = 0 \<and> bottom q = [sample 2 5] | _ \<Rightarrow> False)"
    by code_simp
  with q have st: "top_start q = 5" "n_rung q = 0" "bottom q = [sample 2 5]" by simp_all
  have late: "compareEvents (sample 3 4) (sample 1 5)" "compareEvents (sample 3 4) (sample 2 5)"
    "\<not> ms_equiv compareEvents (sample 1 5) (sample 2 5)" "ev_ptr (sample 3 4) \<noteq> ev_ptr (sample 1 5)" by code_simp+
  let ?q = "q\<lparr>bottom := [sample 3 4, sample 2 5]\<rparr>"
  have ins: "lq_insert (sample 3 4) q = Inr ?q"
    using st late(2) by (simp add: lq_insert_def rung_for_def THRESHOLD_def sample_def)
  have "if bottom (schedule_queue in_process ! 0) = [] then insertEvent ladder_ops 0 (sample 3 4) in_process = Inl Assert_Failed
    else \<exists>es'. insertEvent ladder_ops 0 (sample 3 4) in_process = Inr es' \<and> schedule_queue es' ! 0 = ?q \<and>
       scheduled_event_pointer es' ! 0 = Some (sample 3 4)"
  proof (rule straggler_during_processing)
    show "scheduled_event_pointer in_process ! 0 = Some (sample 1 5)" "input_queue in_process ! 0 = [sample 1 5]"
      "0 < length (scheduled_event_pointer in_process)" "0 < length (input_queue in_process)"
      "input_queue_scheduler_map in_process ! 0 = 0" by (simp_all add: in_process_def)
    show "compareEvents (sample 3 4) (sample 1 5)" "ev_ptr (sample 3 4) \<noteq> ev_ptr (sample 1 5)" by (fact late)+
    show "0 < length (schedule_queue in_process)" "timestamp (sample 1 5) \<le> top_start (schedule_queue in_process ! 0)"
      "rung_for (timestamp (sample 1 5)) (schedule_queue in_process ! 0) = None"
      "filter (ms_equiv compareEvents (sample 1 5)) (bottom (schedule_queue in_process ! 0)) = []"
      "lq_insert (sample 3 4) (schedule_queue in_process ! 0) = Inr ?q"
      using st late(3) ins by (simp_all add: q rung_for_def sample_def)
  qed
  then show ?thesis using st by (auto simp: q)
qed

end
