(* ===== verification/Json_Config.thy ===== *)
theory Json_Config
  imports Event_Statistics
begin

text \<open>
  The configuration as data: the JSON values of \<open>src/deps/json/jsoncpp.cpp\<close> with the accessors the kernel
  uses, the trimming functions of \<open>src/src/utility/strings.hpp\<close>, merging a configuration file into the settings
  (\<open>update\<close> in \<open>src/src/Configuration.cpp\<close>) and the command line options that are made from the settings
  (\<open>src/src/CommandLineConfiguration.cpp\<close>).

  Doubles are an abstract type \<open>'d\<close> with the conversions in \<open>json_ops\<close>. An object is an association list sorted
  by key, as the \<open>std::map\<close> in \<open>Json::Value\<close>. TCLAP, which reads the command line, is a parameter: for each option
  the value given, if one is given.
\<close>

section \<open>Trimming\<close>

definition whitespace :: string where
  "whitespace = [CHR '' '', CHR 0x09, CHR 0x0D, CHR 0x0A]"

definition find_first_not_of :: "string \<Rightarrow> string \<Rightarrow> nat option" where
  "find_first_not_of chars s =
     (let i = length (takeWhile (\<lambda>c. c \<in> set chars) s) in if i < length s then Some i else None)"

definition find_last_not_of :: "string \<Rightarrow> string \<Rightarrow> nat option" where
  "find_last_not_of chars s =
     (let i = length (takeWhile (\<lambda>c. c \<in> set chars) (rev s)) in if i < length s then Some (length s - 1 - i) else None)"

text \<open>\<open>front\<close> and \<open>back\<close> of an empty string are undefined.\<close>

definition trim :: "string \<Rightarrow> string \<Rightarrow> string res" where
  "trim str chars =
     (let start = (case find_first_not_of chars str of Some i \<Rightarrow> i | None \<Rightarrow> 0);
          trimmed = (case find_last_not_of chars str of
              Some l \<Rightarrow> take (l - start + 1) (drop start str)
            | None \<Rightarrow> drop start str)
      in if trimmed = [] then Inl Out_Of_Range
         else if hd trimmed \<in> set chars then Inr [] else Inr trimmed)"

definition ltrim :: "string \<Rightarrow> string \<Rightarrow> string res" where
  "ltrim str chars =
     (let start = (case find_first_not_of chars str of Some i \<Rightarrow> i | None \<Rightarrow> 0);
          trimmed = take (length str - start) (drop start str)
      in if trimmed = [] then Inl Out_Of_Range
         else if hd trimmed \<in> set chars then Inr [] else Inr trimmed)"

definition rtrim :: "string \<Rightarrow> string \<Rightarrow> string res" where
  "rtrim str chars =
     (let trimmed = (case find_last_not_of chars str of Some l \<Rightarrow> take (l + 1) str | None \<Rightarrow> str)
      in if trimmed = [] then Inl Out_Of_Range
         else if last trimmed \<in> set chars then Inr [] else Inr trimmed)"

section \<open>JSON values\<close>

datatype 'd json =
    JNull
  | JInt int
  | JUInt nat
  | JReal 'd
  | JString string
  | JBool bool
  | JArray "'d json list"
  | JObject "(string \<times> 'd json) list"

record 'd json_ops =
  jd_of_int :: "int \<Rightarrow> 'd"
  jd_trunc :: "'d \<Rightarrow> int"
  jd_integral :: "'d \<Rightarrow> bool"
  jd_in_range :: "int \<Rightarrow> int \<Rightarrow> 'd \<Rightarrow> bool"
  jd_show :: "'d \<Rightarrow> string"
  jd_float :: "'d \<Rightarrow> 'd"
  jd_div :: "'d \<Rightarrow> nat \<Rightarrow> 'd"
  jd_mult :: "'d \<Rightarrow> nat \<Rightarrow> 'd"

fun isObject :: "'d json \<Rightarrow> bool" where
  "isObject (JObject m) = True"
| "isObject _ = False"

definition obj_get :: "string \<Rightarrow> (string \<times> 'd json) list \<Rightarrow> 'd json" where
  "obj_get k m = (case map_of m k of Some v \<Rightarrow> v | None \<Rightarrow> JNull)"

text \<open>\<open>operator[]\<close>. On a non-constant object it also creates the member as null, which reads the same.\<close>

fun jget :: "string \<Rightarrow> 'd json \<Rightarrow> 'd json res" where
  "jget k JNull = Inr JNull"
| "jget k (JObject m) = Inr (obj_get k m)"
| "jget k _ = Inl (Runtime_Error ''in Json::Value::resolveReference(): requires objectValue'')"

fun asString :: "'d json_ops \<Rightarrow> 'd json \<Rightarrow> string res" where
  "asString ops JNull = Inr []"
| "asString ops (JString s) = Inr s"
| "asString ops (JBool b) = Inr (if b then ''true'' else ''false'')"
| "asString ops (JInt i) = Inr (show_int i)"
| "asString ops (JUInt i) = Inr (show_nat i)"
| "asString ops (JReal d) = Inr (jd_show ops d)"
| "asString ops _ = Inl (Runtime_Error ''Type is not convertible to string'')"

definition minInt :: int where "minInt = - (2 ^ 31)"
definition maxInt :: int where "maxInt = 2 ^ 31 - 1"
definition maxUInt :: int where "maxUInt = 2 ^ 32 - 1"

fun asInt :: "'d json_ops \<Rightarrow> 'd json \<Rightarrow> int res" where
  "asInt ops (JInt i) = (if minInt \<le> i \<and> i \<le> maxInt then Inr i else Inl (Runtime_Error ''LargestInt out of Int range''))"
| "asInt ops (JUInt i) = (if int i \<le> maxInt then Inr (int i) else Inl (Runtime_Error ''LargestUInt out of Int range''))"
| "asInt ops (JReal d) = (if jd_in_range ops minInt maxInt d then Inr (jd_trunc ops d) else Inl (Runtime_Error ''double out of Int range''))"
| "asInt ops JNull = Inr 0"
| "asInt ops (JBool b) = Inr (if b then 1 else 0)"
| "asInt ops _ = Inl (Runtime_Error ''Value is not convertible to Int.'')"

fun asUInt :: "'d json_ops \<Rightarrow> 'd json \<Rightarrow> int res" where
  "asUInt ops (JInt i) = (if 0 \<le> i \<and> i \<le> maxUInt then Inr i else Inl (Runtime_Error ''LargestInt out of UInt range''))"
| "asUInt ops (JUInt i) = (if int i \<le> maxUInt then Inr (int i) else Inl (Runtime_Error ''LargestUInt out of UInt range''))"
| "asUInt ops (JReal d) = (if jd_in_range ops 0 maxUInt d then Inr (jd_trunc ops d) else Inl (Runtime_Error ''double out of UInt range''))"
| "asUInt ops JNull = Inr 0"
| "asUInt ops (JBool b) = Inr (if b then 1 else 0)"
| "asUInt ops _ = Inl (Runtime_Error ''Value is not convertible to UInt.'')"

fun asFloat :: "'d json_ops \<Rightarrow> 'd json \<Rightarrow> 'd res" where
  "asFloat ops (JInt i) = Inr (jd_float ops (jd_of_int ops i))"
| "asFloat ops (JUInt i) = Inr (jd_float ops (jd_of_int ops (int i)))"
| "asFloat ops (JReal d) = Inr (jd_float ops d)"
| "asFloat ops JNull = Inr (jd_float ops (jd_of_int ops 0))"
| "asFloat ops (JBool b) = Inr (jd_float ops (jd_of_int ops (if b then 1 else 0)))"
| "asFloat ops _ = Inl (Runtime_Error ''Value is not convertible to float.'')"

fun isUInt :: "'d json_ops \<Rightarrow> 'd json \<Rightarrow> bool" where
  "isUInt ops (JInt i) \<longleftrightarrow> 0 \<le> i \<and> i \<le> maxUInt"
| "isUInt ops (JUInt i) \<longleftrightarrow> int i \<le> maxUInt"
| "isUInt ops (JReal d) \<longleftrightarrow> jd_in_range ops 0 maxUInt d \<and> jd_integral ops d"
| "isUInt ops _ \<longleftrightarrow> False"

text \<open>Every 64-bit integer is a double for \<open>isDouble\<close>.\<close>

fun isDouble :: "'d json \<Rightarrow> bool" where
  "isDouble (JReal d) \<longleftrightarrow> True"
| "isDouble (JInt i) \<longleftrightarrow> True"
| "isDouble (JUInt i) \<longleftrightarrow> True"
| "isDouble _ \<longleftrightarrow> False"

section \<open>update\<close>

text \<open>The loop over the members of \<open>b\<close>, for two objects. A member that is an object in \<open>a\<close> but not in \<open>b\<close> stays.\<close>

function update_members :: "(string \<times> 'd json) list \<Rightarrow> (string \<times> 'd json) list \<Rightarrow> (string \<times> 'd json) list" where
  "update_members m [] = m"
| "update_members m ((k, v) # n) =
     update_members (sm_put k
       (case obj_get k m of
          JObject mm \<Rightarrow> (case v of JObject nn \<Rightarrow> JObject (update_members mm nn) | _ \<Rightarrow> JObject mm)
        | _ \<Rightarrow> v) m) n"
  by pat_completeness auto
termination
  by (relation "measure (\<lambda>(m, n). size (JObject n))") auto

definition jupdate :: "'d json \<Rightarrow> 'd json \<Rightarrow> 'd json" where
  "jupdate a b = (case (a, b) of (JObject m, JObject n) \<Rightarrow> JObject (update_members m n) | _ \<Rightarrow> a)"

section \<open>Command line options\<close>

datatype 'd argval = AString string | ABool bool | ADouble 'd | AInt int

text \<open>The option for a member that is not an object. The branch for integers is never reached.\<close>

definition make_arg :: "'d json_ops \<Rightarrow> string \<Rightarrow> 'd json \<Rightarrow> 'd argval res" where
  "make_arg ops arg_name v =
     (case v of
        JString s \<Rightarrow> Inr (AString s)
      | JBool b \<Rightarrow> Inr (ABool b)
      | JReal d \<Rightarrow> Inr (ADouble d)
      | JInt i \<Rightarrow> Inr (ADouble (jd_of_int ops i))
      | JUInt i \<Rightarrow> Inr (ADouble (jd_of_int ops (int i)))
      | _ \<Rightarrow> Inl (Runtime_Error (''Configuration key '' @ arg_name @ '' contains unsupported type.'')))"

text \<open>The options with their names, the paths to their values in the settings, and their defaults.\<close>

type_synonym 'd option_arg = "string \<times> string list \<times> 'd argval"

function createArgs :: "'d json_ops \<Rightarrow> string \<Rightarrow> string list \<Rightarrow> (string \<times> 'd json) list \<Rightarrow> 'd option_arg list res" where
  "createArgs ops current_path at_path [] = Inr []"
| "createArgs ops current_path at_path ((k, v) # m) =
     bindR (trim k whitespace) (\<lambda>t.
     bindR (case v of
         JObject mm \<Rightarrow> createArgs ops (current_path @ t @ ''-'') (at_path @ [k]) mm
       | _ \<Rightarrow> bindR (make_arg ops (current_path @ t) v) (\<lambda>a. Inr [(current_path @ t, at_path @ [k], a)])) (\<lambda>args.
     bindR (createArgs ops current_path at_path m) (\<lambda>rest. Inr (args @ rest))))"
  by pat_completeness auto
termination
  by (relation "measure (\<lambda>(ops, c, p, m). size (JObject m))") auto

fun arg_json :: "'d argval \<Rightarrow> 'd json" where
  "arg_json (AString s) = JString s"
| "arg_json (ABool b) = JBool b"
| "arg_json (ADouble d) = JReal d"
| "arg_json (AInt i) = JInt i"

text \<open>Assigning through a pointer to a value inside the settings.\<close>

fun set_path :: "string list \<Rightarrow> 'd json \<Rightarrow> 'd json \<Rightarrow> 'd json" where
  "set_path [] v j = v"
| "set_path (k # ks) v (JObject m) = JObject (sm_put k (set_path ks v (obj_get k m)) m)"
| "set_path (k # ks) v j = j"

definition readArgs :: "(string \<rightharpoonup> 'd argval) \<Rightarrow> 'd option_arg list \<Rightarrow> 'd json \<Rightarrow> 'd json" where
  "readArgs given args root =
     fold (\<lambda>(n, p, d). set_path p (arg_json (case given n of Some v \<Rightarrow> v | None \<Rightarrow> d))) args root"

text \<open>What TCLAP finds on the command line.\<close>

record 'd cmd_line =
  cl_given :: "string \<rightharpoonup> 'd argval"
  cl_config :: string
  cl_dump :: bool
  cl_user_args :: "string list"

definition cl_own_args :: "string list" where
  "cl_own_args = [''help'', ''version'', ''ignore_rest'', ''config'', ''dump-config'']"

text \<open>TCLAP refuses two options of one name. The result: whether to dump, the configuration file, the settings.\<close>

definition cl_parse :: "'d json_ops \<Rightarrow> 'd cmd_line \<Rightarrow> (string \<times> 'd json) list \<Rightarrow> ((bool \<times> string) \<times> 'd json) res" where
  "cl_parse ops cl root =
     bindR (createArgs ops [] [] root) (\<lambda>args.
     if \<not> distinct (map fst args @ cl_own_args @ cl_user_args cl)
     then Inl (Runtime_Error ''Argument with same flag/name already exists!'')
     else Inr ((cl_dump cl, cl_config cl), readArgs (cl_given cl) args (JObject root)))"

end
