(* ===== verification/Configuration.thy ===== *)
theory Configuration
  imports Json_Config Partitioners
begin

text \<open>
  \<open>src/src/Configuration.*\<close> and the part of \<open>src/src/Simulation.cpp\<close> that uses it: the default settings, the command
  line and the configuration file become the settings of a node; the nodes compare theirs; and from them come the
  dispatcher and the partitioners. The objects that are created are described by the arguments they get.

  Files are the parameter \<open>files\<close> (\<open>None\<close> when a file cannot be opened) and the JSON reader is \<open>parse\<close>, which
  gives an error message or a value.
\<close>

section \<open>The settings\<close>

text \<open>The value of \<open>DEFAULT_CONFIG\<close>.\<close>

definition default_config :: "(string \<times> 'd json) list" where
  "default_config =
     [(''checkpointing'', JObject
         [(''count-till-termination'', JInt (- 1)), (''file'', JString ''checkpoint''), (''interval'', JInt 100),
          (''method'', JString ''none''), (''restart'', JString ''off'')]),
      (''max-sim-time'', JInt 0),
      (''partitioning'', JObject
         [(''blocksize'', JInt 0), (''file'', JString ''statistics.out''), (''type'', JString ''default'')]),
      (''simulating-rejuvenation'', JObject
         [(''interval'', JInt 300), (''mean-time'', JInt 10), (''method'', JString ''none''), (''oneshot'', JString ''off'')]),
      (''simulation-type'', JString ''time-warp''),
      (''statistics'', JObject [(''file'', JString ''statistics.out''), (''type'', JString ''none'')]),
      (''time-warp'', JObject
         [(''cancellation'', JString ''aggressive''),
          (''communication'', JObject [(''max-aggregate'', JInt 5), (''max-msg-size'', JInt 512)]),
          (''config-output-file'', JString ''none''),
          (''gvt-calculation'', JObject [(''method'', JString ''asynchronous''), (''period'', JInt 1000)]),
          (''lp-migration'', JString ''off''), (''scheduler-count'', JInt 1),
          (''state-saving'', JObject [(''period'', JInt 10), (''type'', JString ''periodic'')]),
          (''statistics-file'', JString ''none''), (''worker-threads'', JInt 3)])]"

text \<open>\<open>root_\<close> is a pointer that can be null.\<close>

record 'd configuration =
  config_file_name :: string
  cf_max_sim_time :: u32
  cf_root :: "'d json option"

definition parseJsonFile :: "(string \<Rightarrow> string option) \<Rightarrow> (string \<Rightarrow> string + 'd json) \<Rightarrow> string \<Rightarrow> 'd json res" where
  "parseJsonFile files parse filename =
     (case files filename of
        None \<Rightarrow> Inl (Runtime_Error (''Could not open configuration file '' @ filename))
      | Some text \<Rightarrow> (case parse text of
            Inl err \<Rightarrow> Inl (Runtime_Error (''Failed to parse configuration'' @ [newline] @ err))
          | Inr root \<Rightarrow> Inr root))"

definition readUserConfig ::
    "(string \<Rightarrow> string option) \<Rightarrow> (string \<Rightarrow> string + 'd json) \<Rightarrow> 'd configuration \<Rightarrow> 'd configuration res" where
  "readUserConfig files parse cf =
     (if config_file_name cf = [] then Inr cf
      else bindR (parseJsonFile files parse (config_file_name cf)) (\<lambda>root2.
        case cf_root cf of
          None \<Rightarrow> Inl Null_Deref
        | Some root \<Rightarrow> Inr (cf\<lparr>cf_root := Some (jupdate root root2)\<rparr>)))"

text \<open>The constructor that takes a file.\<close>

definition config_from_file ::
    "(string \<Rightarrow> string option) \<Rightarrow> (string \<Rightarrow> string + 'd json) \<Rightarrow> string \<Rightarrow> u32 \<Rightarrow> 'd configuration res" where
  "config_from_file files parse file_name max_sim_time =
     readUserConfig files parse \<lparr>config_file_name = file_name, cf_max_sim_time = max_sim_time, cf_root = None\<rparr>"

text \<open>The constructors that take the command line; the boolean tells that the settings are printed and the program ends.\<close>

definition config_init :: "'d json_ops \<Rightarrow> (string \<Rightarrow> string option) \<Rightarrow> (string \<Rightarrow> string + 'd json) \<Rightarrow> 'd cmd_line \<Rightarrow>
    (bool \<times> 'd configuration) res" where
  "config_init ops files parse cl =
     bindR (cl_parse ops cl default_config) (\<lambda>((should_dump, file_name), root).
     bindR (readUserConfig files parse \<lparr>config_file_name = file_name, cf_max_sim_time = 0, cf_root = Some root\<rparr>)
       (\<lambda>cf. Inr (should_dump, cf)))"

text \<open>A setting: \<open>(*root_)[k\<^sub>1][k\<^sub>2]...\<close>.\<close>

fun setting :: "string list \<Rightarrow> 'd json \<Rightarrow> 'd json res" where
  "setting [] j = Inr j"
| "setting (k # ks) j = bindR (jget k j) (setting ks)"

definition str_of :: "'d json_ops \<Rightarrow> string list \<Rightarrow> 'd json \<Rightarrow> string res" where
  "str_of ops p root = bindR (setting p root) (asString ops)"

definition int_of :: "'d json_ops \<Rightarrow> string list \<Rightarrow> 'd json \<Rightarrow> int res" where
  "int_of ops p root = bindR (setting p root) (asInt ops)"

definition uint_of :: "'d json_ops \<Rightarrow> string list \<Rightarrow> 'd json \<Rightarrow> int res" where
  "uint_of ops p root = bindR (setting p root) (asUInt ops)"

definition float_of :: "'d json_ops \<Rightarrow> string list \<Rightarrow> 'd json \<Rightarrow> 'd res" where
  "float_of ops p root = bindR (setting p root) (asFloat ops)"

section \<open>Comparing the nodes\<close>

text \<open>One node's part in \<open>makeDispatcher\<close>: its id, the number of nodes, and for each \<open>MPI_Gather\<close> what the other
  nodes send, which the root receives.\<close>

record node_view =
  nv_id :: nat
  nv_num :: nat
  nv_others :: "nat \<Rightarrow> u64 list"

text \<open>The values gathered so far and \<open>invalid_string\<close>.\<close>

record check_state =
  ck_sent :: "u64 list"
  ck_invalid :: string

definition checkTimeWarpConfigs :: "node_view \<Rightarrow> u64 \<Rightarrow> check_state \<Rightarrow> bool \<times> check_state" where
  "checkTimeWarpConfigs nv local_config_id st =
     (nv_id nv \<noteq> 0 \<or> list_all (\<lambda>v. v = local_config_id) (nv_others nv (length (ck_sent st))),
      st\<lparr>ck_sent := ck_sent st @ [local_config_id]\<rparr>)"

definition check_setting :: "node_view \<Rightarrow> string \<Rightarrow> u64 \<Rightarrow> check_state \<Rightarrow> check_state" where
  "check_setting nv what local_config_id st =
     (let (same, st') = checkTimeWarpConfigs nv local_config_id st
      in if same then st' else st'\<lparr>ck_invalid := ck_invalid st' @ what\<rparr>)"

definition check_line :: "string \<Rightarrow> string" where
  "check_line s = CHR 0x09 # s @ [newline]"

section \<open>makeDispatcher\<close>

datatype gvt_method = Synchronous_GVT | Asynchronous_GVT

datatype checkpoint_kind = Null_Checkpoint | GVT_Synchronized_Checkpoint

text \<open>The arguments of the constructors of the parts of the Time Warp dispatcher; a part that is not created is a null
  pointer, \<open>None\<close>.\<close>

record tw_parts =
  tp_worker_threads :: int
  tp_schedulers :: int
  tp_lp_migration :: bool
  tp_state_period :: "int option"
  tp_aggressive :: bool
  tp_gvt_period :: int
  tp_gvt_method :: "gvt_method option"

definition state_manager_setting :: "'d json_ops \<Rightarrow> node_view \<Rightarrow> 'd json \<Rightarrow> check_state \<Rightarrow> (int option \<times> check_state) res" where
  "state_manager_setting ops nv root st =
     bindR (str_of ops [''time-warp'', ''state-saving'', ''type''] root) (\<lambda>state_saving_type.
     if state_saving_type = ''periodic'' then
       let st1 = check_setting nv (check_line ''State-saving type'') 0 st
       in bindR (int_of ops [''time-warp'', ''state-saving'', ''period''] root) (\<lambda>state_period.
          Inr (Some state_period, check_setting nv (check_line ''State saving period'') (of_int state_period) st1))
     else Inr (None, st))"

definition gvt_setting :: "string \<Rightarrow> gvt_method option" where
  "gvt_setting method =
     (if method = ''synchronous'' then Some Synchronous_GVT
      else if method = ''asynchronous'' then Some Asynchronous_GVT else None)"

definition tw_settings :: "'d json_ops \<Rightarrow> node_view \<Rightarrow> 'd json \<Rightarrow> check_state \<Rightarrow> (tw_parts \<times> check_state) res" where
  "tw_settings ops nv root st0 =
     (let st1 = check_setting nv (check_line ''Simulation type'') 1 st0
      in bindR (int_of ops [''time-warp'', ''worker-threads''] root) (\<lambda>num_worker_threads.
      let st2 = check_setting nv (check_line ''Number of worker threads'') (of_int num_worker_threads) st1
      in bindR (int_of ops [''time-warp'', ''scheduler-count''] root) (\<lambda>num_schedulers.
      let st3 = check_setting nv (check_line ''Number of schedule queues'') (of_int num_schedulers) st2
      in bindR (str_of ops [''time-warp'', ''lp-migration''] root) (\<lambda>lp_migration_status.
      let st4 = (if lp_migration_status = ''off'' then check_setting nv (check_line ''LP Migration'') 1 st3 else st3)
      in bindR (state_manager_setting ops nv root st4) (\<lambda>(state_period, st5).
      bindR (str_of ops [''time-warp'', ''cancellation''] root) (\<lambda>cancellation_type.
      let st6 = (if cancellation_type = ''aggressive'' then check_setting nv (check_line ''Cancellation type'') 0 st5 else st5)
      in bindR (uint_of ops [''time-warp'', ''gvt-calculation'', ''period''] root) (\<lambda>gvt_period.
      let st7 = check_setting nv (check_line ''GVT period'') (of_int gvt_period) st6
      in bindR (str_of ops [''time-warp'', ''gvt-calculation'', ''method''] root) (\<lambda>method.
      Inr (\<lparr>tp_worker_threads = num_worker_threads, tp_schedulers = num_schedulers,
             tp_lp_migration = (lp_migration_status = ''on''), tp_state_period = state_period,
             tp_aggressive = (cancellation_type = ''aggressive''), tp_gvt_period = gvt_period,
             tp_gvt_method = gvt_setting method\<rparr>, st7)))))))))"

text \<open>The name of the checkpoint file gets the number of the node, in the settings.\<close>

definition checkpoint_setting :: "'d json_ops \<Rightarrow> node_view \<Rightarrow> 'd json \<Rightarrow> (checkpoint_kind \<times> 'd json) res" where
  "checkpoint_setting ops nv root =
     bindR (str_of ops [''checkpointing'', ''method''] root) (\<lambda>type.
     if type = ''none'' then Inr (Null_Checkpoint, root)
     else if type = ''gvt-synchronized'' then
       bindR (str_of ops [''checkpointing'', ''file''] root) (\<lambda>filepath.
       Inr (GVT_Synchronized_Checkpoint, set_path [''checkpointing'', ''file'']
         (JString ((if filepath = [] then ''checkpoint'' else filepath) @ ''.'' @ show_nat (nv_id nv))) root))
     else Inl Assert_Failed)"

text \<open>Uninitialised variables are \<open>None\<close>.\<close>

record 'd rejuvenation =
  rj_first :: "'d option"
  rj_interval :: 'd
  rj_time :: "'d option"
  rj_oneshot :: bool

definition rejuvenation_setting :: "'d json_ops \<Rightarrow> node_view \<Rightarrow> 'd json \<Rightarrow> 'd rejuvenation res" where
  "rejuvenation_setting ops nv root =
     bindR (str_of ops [''simulating-rejuvenation'', ''method''] root) (\<lambda>rejuv_type.
     bindR (str_of ops [''simulating-rejuvenation'', ''oneshot''] root) (\<lambda>oneshot.
     bindR (if rejuv_type \<noteq> ''none'' then
              bindR (float_of ops [''simulating-rejuvenation'', ''interval''] root) (\<lambda>interval.
              bindR (float_of ops [''simulating-rejuvenation'', ''mean-time''] root) (\<lambda>time.
              Inr (interval, Some time)))
            else Inr (jd_float ops (jd_of_int ops 0), None)) (\<lambda>(interval, time).
     bindR (if rejuv_type = ''round-robin'' then
              bindR (assertR (nv_num nv > 0)) (\<lambda>_. bindR (assertR (nv_id nv < nv_num nv)) (\<lambda>_.
              Inr (Some (jd_mult ops (jd_div ops interval (nv_num nv)) (nv_id nv + 1)))))
            else if rejuv_type = ''synchronous'' then Inr (Some interval) else Inr None) (\<lambda>first_rejuv.
     Inr \<lparr>rj_first = first_rejuv, rj_interval = interval, rj_time = time, rj_oneshot = (oneshot = ''on'')\<rparr>))))"

datatype statistics_kind = Individual_Json | Individual_Csv | Aggregate_Graphviz | Aggregate_Metis | Null_Statistics

definition statistics_setting :: "string \<Rightarrow> statistics_kind" where
  "statistics_setting type =
     (if type = ''json'' then Individual_Json else if type = ''csv'' then Individual_Csv
      else if type = ''graphviz'' then Aggregate_Graphviz else if type = ''metis'' then Aggregate_Metis
      else Null_Statistics)"

datatype 'd dispatcher_choice =
    Time_Warp u32 tw_parts string checkpoint_kind "'d rejuvenation"
  | Sequential_Dispatch u32 statistics_kind string

definition mismatch_message :: string where
  "mismatch_message = ''Configuration files do not match, check the following configurations:'' @ [newline]"

definition make_time_warp :: "'d json_ops \<Rightarrow> node_view \<Rightarrow> 'd configuration \<Rightarrow> 'd json \<Rightarrow> check_state \<Rightarrow>
    (('d dispatcher_choice \<times> u64 list) \<times> 'd configuration) res" where
  "make_time_warp ops nv cf root st0 =
     bindR (tw_settings ops nv root st0) (\<lambda>(parts, st).
     bindR (str_of ops [''time-warp'', ''statistics-file''] root) (\<lambda>stats_file.
     bindR (checkpoint_setting ops nv root) (\<lambda>(checkpoint, root').
     bindR (rejuvenation_setting ops nv root') (\<lambda>rejuvenation.
     if ck_invalid st \<noteq> [] then Inl (Runtime_Error (mismatch_message @ ck_invalid st))
     else Inr ((Time_Warp (cf_max_sim_time cf) parts stats_file checkpoint rejuvenation, ck_sent st),
               cf\<lparr>cf_root := Some root'\<rparr>)))))"

text \<open>The result: the dispatcher, the values the node has gathered, and the configuration.\<close>

definition makeDispatcher :: "'d json_ops \<Rightarrow> node_view \<Rightarrow> 'd configuration \<Rightarrow>
    (('d dispatcher_choice \<times> u64 list) \<times> 'd configuration) res" where
  "makeDispatcher ops nv cf0 =
     (case cf_root cf0 of
        None \<Rightarrow> Inl Null_Deref
      | Some root \<Rightarrow>
          bindR (setting [''max-sim-time''] root) (\<lambda>max_time.
          bindR (if isUInt ops max_time
                 then bindR (asUInt ops max_time) (\<lambda>t. Inr (cf0\<lparr>cf_max_sim_time := of_int t\<rparr>)) else Inr cf0) (\<lambda>cf.
          let st = check_setting nv (check_line ''Maximum simulation time'') (ucast (cf_max_sim_time cf))
                     \<lparr>ck_sent = [], ck_invalid = []\<rparr>
          in bindR (str_of ops [''simulation-type''] root) (\<lambda>simulation_type.
             if simulation_type = ''time-warp'' then make_time_warp ops nv cf root st
             else if nv_num nv > 1 then Inl (Runtime_Error (''Sequential simulation must be single process'' @ [newline]))
             else bindR (str_of ops [''statistics'', ''type''] root) (\<lambda>type.
                  bindR (str_of ops [''statistics'', ''file''] root) (\<lambda>file.
                  Inr ((Sequential_Dispatch (cf_max_sim_time cf) (statistics_setting type) file, ck_sent st), cf)))))))"

section \<open>Partitioners and communication\<close>

datatype 'u partitioner_choice = Round_Robin int | Profile_Guided string string | User_Partitioner 'u

definition makePartitioner :: "'d json_ops \<Rightarrow> 'd json \<Rightarrow> 'u partitioner_choice res" where
  "makePartitioner ops root =
     bindR (str_of ops [''partitioning'', ''type''] root) (\<lambda>type.
     if type = ''default'' \<or> type = ''round-robin'' then
       bindR (uint_of ops [''partitioning'', ''blocksize''] root) (\<lambda>blocksize. Inr (Round_Robin blocksize))
     else if type = ''profile-guided'' then
       bindR (str_of ops [''partitioning'', ''file''] root) (\<lambda>filename. Inr (Profile_Guided filename ''partition''))
     else Inl (Runtime_Error (''Invalid partitioning type: '' @ type)))"

text \<open>\<open>type == "default"\<close> compares JSON values.\<close>

definition makePartitioner_user :: "'d json_ops \<Rightarrow> 'u \<Rightarrow> 'd json \<Rightarrow> 'u partitioner_choice res" where
  "makePartitioner_user ops user_partitioner root =
     bindR (setting [''partitioning'', ''type''] root) (\<lambda>type.
     if type = JString ''default'' then Inr (User_Partitioner user_partitioner) else makePartitioner ops root)"

text \<open>\<open>num_schedulers\<close> is passed by reference: the second result.\<close>

definition makeLocalPartitioner :: "'d json_ops \<Rightarrow> nat \<Rightarrow> nat \<Rightarrow> 'd json \<Rightarrow> ('u partitioner_choice \<times> nat) res" where
  "makeLocalPartitioner ops node_id num_partitions root =
     bindR (uint_of ops [''time-warp'', ''scheduler-count''] root) (\<lambda>num_schedulers.
     bindR (if num_partitions = 1 then makePartitioner ops root
       else bindR (str_of ops [''partitioning'', ''type''] root) (\<lambda>type.
         if type = ''default'' \<or> type = ''round-robin'' then
           bindR (uint_of ops [''partitioning'', ''blocksize''] root) (\<lambda>blocksize. Inr (Round_Robin blocksize))
         else if type = ''profile-guided'' then
           Inr (Profile_Guided (''partitions/partition'' @ show_nat node_id @ ''.out'') (''partition'' @ show_nat node_id))
         else Inl (Runtime_Error (''Invalid partitioning type: '' @ type)))) (\<lambda>partitioner.
     Inr (partitioner, nat num_schedulers)))"

definition makeCommunicationManager :: "'d json_ops \<Rightarrow> 'd json \<Rightarrow> (int \<times> int) res" where
  "makeCommunicationManager ops root =
     bindR (uint_of ops [''time-warp'', ''communication'', ''max-msg-size''] root) (\<lambda>max_msg_size.
     bindR (uint_of ops [''time-warp'', ''communication'', ''max-aggregate''] root) (\<lambda>max_aggregate.
     Inr (max_msg_size, max_aggregate)))"

definition isRestarting :: "'d json \<Rightarrow> bool res" where
  "isRestarting root = bindR (setting [''checkpointing'', ''restart''] root) (\<lambda>r. Inr (r = JString ''on''))"

section \<open>simulate\<close>

text \<open>\<open>std::adjacent_find\<close> with \<open>equalNames\<close>.\<close>

fun adjacent_equal :: "'a list \<Rightarrow> bool" where
  "adjacent_equal (x # y # xs) = (x = y \<or> adjacent_equal (y # xs))"
| "adjacent_equal _ = False"

definition sim_check :: "string list \<Rightarrow> unit res" where
  "sim_check names =
     (if adjacent_equal names then Inl (Runtime_Error ''Two LogicalProcess with the same name.'') else Inr ())"

text \<open>\<open>partitioner->partition(lps, num_partitions)\<close>. The profile guided partitioner works on positions in \<open>lps\<close>;
  \<open>user\<close> is what the user's partitioner does.\<close>

definition run_partitioner :: "(int \<Rightarrow> int list \<Rightarrow> int list \<Rightarrow> int list \<Rightarrow> nat \<Rightarrow> int list) \<Rightarrow> (nat list \<Rightarrow> nat list) \<Rightarrow>
    (string \<Rightarrow> string option) \<Rightarrow> ('u \<Rightarrow> string list \<Rightarrow> nat \<Rightarrow> string list list res) \<Rightarrow>
    'u partitioner_choice \<Rightarrow> string list \<Rightarrow> nat \<Rightarrow> string list list res" where
  "run_partitioner metis order files user p lps num_partitions =
     (case p of
        Round_Robin block \<Rightarrow> bindR (rr_partition (nat block) lps num_partitions) (\<lambda>(parts, _). Inr parts)
      | Profile_Guided file _ \<Rightarrow>
          bindR (pg_partition metis order lps num_partitions (files file)) (\<lambda>parts. Inr (map (map (\<lambda>i. lps ! i)) parts))
      | User_Partitioner u \<Rightarrow> user u lps num_partitions)"

text \<open>The LPs of one node, by scheduler, as \<open>simulate\<close> hands them to the dispatcher; \<open>run\<close> is what a partitioner does.
  The LPs are given by their names.\<close>

definition sim_partition :: "'d json_ops \<Rightarrow> ('u partitioner_choice \<Rightarrow> string list \<Rightarrow> nat \<Rightarrow> string list list res) \<Rightarrow>
    'd json \<Rightarrow> nat \<Rightarrow> nat \<Rightarrow> string list \<Rightarrow> string list list res" where
  "sim_partition ops run root node num_partitions lps =
     bindR (sim_check lps) (\<lambda>_.
     bindR (makePartitioner ops root) (\<lambda>p.
     bindR (run p lps num_partitions) (\<lambda>partitioned_lps.
     bindR (makeLocalPartitioner ops node num_partitions root) (\<lambda>(local_partitioner, num_schedulers).
     if length partitioned_lps \<le> node then Inl Out_Of_Range
     else run local_partitioner (partitioned_lps ! node) num_schedulers))))"

end
