(* ===== verification/Json_Config_Props.thy ===== *)
theory Json_Config_Props
  imports Json_Config
begin

text \<open>
  Properties of the settings as data. A value inside the settings is addressed by a path (\<open>jpath\<close>). A settings
  document is well formed when every object in it is ordered by key (\<open>json_wf\<close>), as a \<open>std::map\<close> is.
\<close>

section \<open>Trimming\<close>

lemma drop_length_takeWhile: "drop (length (takeWhile P xs)) xs = dropWhile P xs"
  by (simp add: dropWhile_eq_drop)

lemma rev_dropWhile_rev: "rev (dropWhile P (rev xs)) = take (length xs - length (takeWhile P (rev xs))) xs"
  by (simp add: dropWhile_eq_drop rev_drop)

lemma length_takeWhile_rev_dropWhile:
  assumes "\<not> list_all P s"
  shows "length (takeWhile P (rev (dropWhile P s))) = length (takeWhile P (rev s))"
proof -
  have "takeWhile P (rev s) = takeWhile P (rev (dropWhile P s) @ rev (takeWhile P s))"
    by (metis rev_append takeWhile_dropWhile_id)
  also have "\<dots> = takeWhile P (rev (dropWhile P s))"
  proof -
    obtain x where "x \<in> set (dropWhile P s)" "\<not> P x" using assms
      by (metis dropWhile_eq_Nil_conv hd_dropWhile hd_in_set list_all_iff)
    then show ?thesis by (intro takeWhile_append1) auto
  qed
  finally show ?thesis by simp
qed

lemma takeWhile_short_iff: "length (takeWhile P s) < length s \<longleftrightarrow> \<not> list_all P s"
  by (metis length_takeWhile_le linorder_not_less list_all_iff nat_less_le takeWhile_eq_all_conv takeWhile_eq_take take_all)

lemma trim_take:
  assumes "\<not> list_all P s"
  shows "take (length s - 1 - length (takeWhile P (rev s)) - length (takeWhile P s) + 1) (dropWhile P s) =
    rev (dropWhile P (rev (dropWhile P s)))"
proof -
  have "dropWhile P s \<noteq> []" using assms by (simp add: list_all_iff)
  moreover have "length (takeWhile P (rev (dropWhile P s))) < length (dropWhile P s)"
    using assms by (metis dropWhile_eq_Nil_conv hd_dropWhile hd_in_set length_rev list_all_iff set_rev takeWhile_short_iff)
  moreover have "length s = length (takeWhile P s) + length (dropWhile P s)"
    by (metis length_append takeWhile_dropWhile_id)
  ultimately have "length s - 1 - length (takeWhile P (rev s)) - length (takeWhile P s) + 1 =
      length (dropWhile P s) - length (takeWhile P (rev (dropWhile P s)))"
    unfolding length_takeWhile_rev_dropWhile [OF assms] by linarith
  then show ?thesis by (simp add: rev_dropWhile_rev)
qed

text \<open>\<open>trim\<close>, \<open>ltrim\<close> and \<open>rtrim\<close> remove exactly the listed characters from both ends, the left end and the
  right end, and from a string of listed characters only they make the empty string; given the empty string,
  they read a character that is not there.\<close>

theorem trim_exact:
  "trim s cs = (if s = [] then Inl Out_Of_Range
     else Inr (rev (dropWhile (\<lambda>c. c \<in> set cs) (rev (dropWhile (\<lambda>c. c \<in> set cs) s))))) \<and>
   ltrim s cs = (if s = [] then Inl Out_Of_Range else Inr (dropWhile (\<lambda>c. c \<in> set cs) s)) \<and>
   rtrim s cs = (if s = [] then Inl Out_Of_Range else Inr (rev (dropWhile (\<lambda>c. c \<in> set cs) (rev s))))"
proof (cases "s = []")
  case True
  then show ?thesis by (simp add: trim_def ltrim_def rtrim_def find_first_not_of_def find_last_not_of_def)
next
  case s: False
  let ?P = "\<lambda>c. c \<in> set cs"
  show ?thesis
  proof (cases "list_all ?P s")
    case True
    then have d: "dropWhile ?P s = []" "dropWhile ?P (rev s) = []" by (simp_all add: list_all_iff)
    have "hd s \<in> set cs" "last s \<in> set cs" using s True by (simp_all add: list_all_iff)
    moreover have "find_first_not_of cs s = None" "find_last_not_of cs s = None"
      using True takeWhile_short_iff [of ?P s] takeWhile_short_iff [of ?P "rev s"]
      by (simp_all add: find_first_not_of_def find_last_not_of_def Let_def list_all_iff)
    ultimately show ?thesis using s by (simp add: trim_def ltrim_def rtrim_def Let_def d)
  next
    case False
    let ?i = "length (takeWhile ?P s)" and ?j = "length (takeWhile ?P (rev s))"
    have i: "?i < length s" and j: "?j < length s"
      using False takeWhile_short_iff [of ?P s] takeWhile_short_iff [of ?P "rev s"] by (simp_all add: list_all_iff)
    have ne: "dropWhile ?P s \<noteq> []" "dropWhile ?P (rev s) \<noteq> []" using False by (simp_all add: list_all_iff)
    let ?t = "rev (dropWhile ?P (rev (dropWhile ?P s)))"
    have t: "take (length s - 1 - ?j - ?i + 1) (dropWhile ?P s) = ?t" by (rule trim_take [OF False])
    have "?t \<noteq> []" using ne(1) by (metis dropWhile_eq_Nil_conv hd_dropWhile hd_in_set rev_is_Nil_conv set_rev)
    moreover from this have "hd ?t = hd (dropWhile ?P s)"
      using t by (metis hd_take less_nat_zero_code not_gr_zero take_eq_Nil)
    ultimately have "?t \<noteq> [] \<and> hd ?t \<notin> set cs" using hd_dropWhile [OF ne(1)] by simp
    moreover have "take (Suc (length s - Suc ?j)) s = rev (dropWhile ?P (rev s))"
      using j by (simp add: rev_dropWhile_rev Suc_diff_Suc)
    ultimately show ?thesis using s i j ne t hd_dropWhile [OF ne(1)] hd_dropWhile [OF ne(2)]
      by (simp add: trim_def ltrim_def rtrim_def find_first_not_of_def find_last_not_of_def drop_length_takeWhile Let_def
          last_rev)
  qed
qed

section \<open>Paths\<close>

fun jpath :: "string list \<Rightarrow> 'd json \<Rightarrow> 'd json option" where
  "jpath [] j = Some j"
| "jpath (k # ks) (JObject m) = (case map_of m k of Some v \<Rightarrow> jpath ks v | None \<Rightarrow> None)"
| "jpath (k # ks) _ = None"

definition leaf_at :: "string list \<Rightarrow> 'd json \<Rightarrow> bool" where
  "leaf_at p j \<longleftrightarrow> (case jpath p j of Some v \<Rightarrow> \<not> isObject v | None \<Rightarrow> False)"

lemma member_size: "kv \<in> set m \<Longrightarrow> size (snd kv) < Suc (size_list (size_prod (\<lambda>x. 0) size) m)"
  by (induction m) (auto simp: less_Suc_eq_le trans_le_add1 trans_le_add2)

function json_wf :: "'d json \<Rightarrow> bool" where
  "json_wf (JObject m) = (sm_ok m \<and> list_all (\<lambda>kv. json_wf (snd kv)) m)"
| "json_wf (JArray vs) = True"
| "json_wf JNull = True"
| "json_wf (JInt i) = True"
| "json_wf (JUInt i) = True"
| "json_wf (JReal d) = True"
| "json_wf (JString s) = True"
| "json_wf (JBool b) = True"
  by pat_completeness auto
termination
  by (relation "measure size") (auto simp: member_size)

lemma json_wf_object: "json_wf (JObject m) \<longleftrightarrow> sm_ok m \<and> (\<forall>k v. map_of m k = Some v \<longrightarrow> json_wf v)"
  by (cases "sm_ok m") (auto simp: list_all_iff sm_ok_mem, metis snd_conv map_of_SomeD)

lemma json_wf_not_object: "\<not> isObject v \<Longrightarrow> json_wf v"
  by (cases v) simp_all

lemma json_wf_member: "json_wf (JObject m) \<Longrightarrow> map_of m k = Some v \<Longrightarrow> json_wf v"
  by (auto simp: list_all_iff dest!: map_of_SomeD)

lemma jpath_Cons_Some:
  "jpath (k # ks) j = Some v \<longleftrightarrow> (\<exists>m w. j = JObject m \<and> map_of m k = Some w \<and> jpath ks w = Some v)"
  by (cases j) (auto split: option.splits)

lemma jpath_append: "jpath (p @ q) j = (case jpath p j of Some v \<Rightarrow> jpath q v | None \<Rightarrow> None)"
proof (induction p arbitrary: j)
  case (Cons k p)
  then show ?case by (cases j) (auto split: option.splits)
qed simp

lemma isObject_iff: "isObject v \<longleftrightarrow> (\<exists>m. v = JObject m)"
  by (cases v) simp_all

lemma jpath_leaf: "\<not> isObject v \<Longrightarrow> jpath p v = (if p = [] then Some v else None)"
  by (cases p; cases v) simp_all

lemma jpath_wf: "jpath p j = Some v \<Longrightarrow> json_wf j \<Longrightarrow> json_wf v"
proof (induction p arbitrary: j)
  case (Cons k p)
  from Cons.prems(1) obtain m w where m: "j = JObject m" "map_of m k = Some w" "jpath p w = Some v"
    by (auto simp: jpath_Cons_Some)
  with Cons.prems(2) have "json_wf w" by (blast intro: json_wf_member)
  with m(3) show ?case by (rule Cons.IH)
qed simp

lemma jpath_setting_free: "obj_get k m = v \<Longrightarrow> map_of m k = (if v = JNull then map_of m k else Some v)"
  by (auto simp: obj_get_def split: option.splits)

section \<open>Merging a file\<close>

definition merge_value :: "'d json \<Rightarrow> 'd json \<Rightarrow> 'd json" where
  "merge_value x v = (if isObject x then jupdate x v else v)"

lemma update_members_Cons:
  "update_members m ((k, v) # n) = update_members (sm_put k (merge_value (obj_get k m) v) m) n"
  by (cases "obj_get k m"; cases v) (simp_all add: merge_value_def jupdate_def)

declare update_members.simps(2) [simp del]

lemma merge_members:
  assumes "sm_ok m" and "distinct (map fst n)"
  shows "sm_ok (update_members m n) \<and> map_of (update_members m n) k =
    (case map_of n k of Some v \<Rightarrow> Some (merge_value (obj_get k m) v) | None \<Rightarrow> map_of m k)"
  using assms
proof (induction n arbitrary: m)
  case (Cons kv n)
  obtain k' v where kv: "kv = (k', v)" by fastforce
  let ?m = "sm_put k' (merge_value (obj_get k' m) v) m"
  have "sm_ok ?m" using Cons.prems(1) by simp
  note IH = Cons.IH [OF this] and k' = Cons.prems(2)
  show ?case
  proof (cases "k = k'")
    case True
    then have "map_of n k = None" using k' kv by (simp add: map_of_eq_None_iff)
    then show ?thesis using IH k' kv True Cons.prems(1) by (simp add: update_members_Cons)
  next
    case False
    then have "obj_get k ?m = obj_get k m" using Cons.prems(1) by (simp add: obj_get_def)
    then show ?thesis using IH k' kv False Cons.prems(1) by (cases "map_of n k") (simp_all add: update_members_Cons)
  qed
qed simp

lemma merge_value_wf:
  "json_wf x \<Longrightarrow> json_wf v \<Longrightarrow> json_wf (merge_value x v)"
proof (induction x arbitrary: v rule: measure_induct_rule [of size])
  case (less x)
  show ?case
  proof (cases "isObject x \<and> isObject v")
    case False
    then show ?thesis using less.prems by (cases x; cases v) (simp_all add: merge_value_def jupdate_def)
  next
    case True
    then obtain m n where mn: "x = JObject m" "v = JObject n" by (auto simp: isObject_iff)
    have ok: "sm_ok m" "distinct (map fst n)" using less.prems mn by (simp_all add: sm_ok_distinct)
    note M = merge_members [OF ok]
    have "json_wf w" if w: "map_of (update_members m n) k = Some w" for k w
    proof (cases "map_of n k")
      case None
      then show ?thesis using M [of k] w less.prems(1) mn by (auto intro: json_wf_member)
    next
      case (Some u)
      then have w: "w = merge_value (obj_get k m) u" using M [of k] w by simp
      have u: "json_wf u" using Some less.prems(2) mn json_wf_member by blast
      show ?thesis
      proof (cases "map_of m k")
        case None
        then show ?thesis using w u by (simp add: obj_get_def merge_value_def)
      next
        case (Some y)
        then have "size y < size x" "json_wf y"
          using mn member_size [OF map_of_SomeD [OF Some]] json_wf_member less.prems(1) by auto
        then show ?thesis using less.IH u w Some by (simp add: obj_get_def)
      qed
    qed
    then show ?thesis using mn M by (auto simp: merge_value_def jupdate_def list_all_iff sm_ok_mem)
  qed
qed

lemma jupdate_wf: "json_wf a \<Longrightarrow> json_wf b \<Longrightarrow> json_wf (jupdate a b)"
  using merge_value_wf [of a b] by (cases a; cases b) (simp_all add: merge_value_def jupdate_def)

lemma merge_value_leaf:
  assumes "json_wf a" and "json_wf b" and "jpath p a = Some v" and "\<not> isObject v"
  shows "jpath p (merge_value a b) = (case jpath p b of Some w \<Rightarrow> Some w | None \<Rightarrow> if p = [] then None else Some v)"
  using assms
proof (induction p arbitrary: a b)
  case Nil
  then show ?case by (simp add: merge_value_def)
next
  case (Cons k p)
  then obtain m x where a: "a = JObject m" "map_of m k = Some x" "jpath p x = Some v"
    by (auto simp: jpath_Cons_Some)
  show ?case
  proof (cases "isObject b")
    case False
    then show ?thesis using a by (cases b) (simp_all add: merge_value_def jupdate_def)
  next
    case True
    then obtain n where b: "b = JObject n" by (auto simp: isObject_iff)
    have ok: "sm_ok m" "distinct (map fst n)" using Cons.prems a b by (simp_all add: sm_ok_distinct)
    note M = merge_members [OF ok, of k]
    show ?thesis
    proof (cases "map_of n k")
      case None
      then show ?thesis using M a b by (simp add: merge_value_def jupdate_def)
    next
      case (Some y)
      have wf: "json_wf x" "json_wf y" using Cons.prems a b Some json_wf_member by blast+
      have IH: "jpath p (merge_value x y) = (case jpath p y of Some w \<Rightarrow> Some w | None \<Rightarrow> if p = [] then None else Some v)"
        using Cons.IH wf a(3) Cons.prems(4) by blast
      have "jpath (k # p) (merge_value a b) = jpath p (merge_value x y)"
        using M Some a b by (simp add: merge_value_def jupdate_def obj_get_def)
      then show ?thesis using IH Some b by (cases "p = []") (simp_all split: option.splits)
    qed
  qed
qed

section \<open>Options\<close>

lemma arg_json_not_object [simp]: "\<not> isObject (arg_json a)"
  by (cases a) simp_all

lemma obj_get_Some: "map_of m k = Some v \<Longrightarrow> obj_get k m = v"
  by (simp add: obj_get_def)

lemma leaf_at_Cons: "leaf_at (k # p) (JObject m) \<longleftrightarrow> (\<exists>w. map_of m k = Some w \<and> leaf_at p w)"
  by (auto simp: leaf_at_def split: option.splits)

lemma leaf_at_member: "leaf_at (k # p) j \<Longrightarrow> \<exists>m x. j = JObject m \<and> map_of m k = Some x \<and> leaf_at p x"
  by (cases j) (auto simp: leaf_at_def split: option.splits)

lemma leaf_at_Nil [simp]: "leaf_at [] j \<longleftrightarrow> \<not> isObject j"
  by (simp add: leaf_at_def)

lemma leaf_at_value: "leaf_at p v \<Longrightarrow> \<not> isObject v \<Longrightarrow> p = []"
  by (cases p; cases v) (simp_all add: leaf_at_def)

lemma set_path_leaf:
  assumes "json_wf j" and "leaf_at p j" and "leaf_at q j" and "\<not> isObject v"
  shows "jpath q (set_path p v j) = (if q = p then Some v else jpath q j) \<and> json_wf (set_path p v j)"
  using assms
proof (induction p arbitrary: q j)
  case Nil
  then show ?case by (auto simp: jpath_leaf dest: leaf_at_value json_wf_not_object)
next
  case (Cons k p)
  from leaf_at_member [OF Cons.prems(2)] obtain m x where j: "j = JObject m" "map_of m k = Some x" "leaf_at p x"
    by blast
  have ok: "sm_ok m" and x: "json_wf x" using Cons.prems(1) j by (auto intro: json_wf_member)
  have wf: "json_wf (set_path p v x)" using Cons.IH [OF x j(3) j(3) Cons.prems(4)] by simp
  have wf': "json_wf (set_path (k # p) v j)"
    using ok wf j Cons.prems(1) by (auto simp: obj_get_Some list_all_iff sm_ok_mem split: if_splits)
  from Cons.prems(3) obtain k' q' y where q: "q = k' # q'" "map_of m k' = Some y" "leaf_at q' y"
    unfolding j(1) by (cases q) (auto simp: leaf_at_Cons)
  show ?case
  proof (cases "k' = k")
    case True
    then have "leaf_at q' x" using q(2,3) j(2) by simp
    with Cons.IH [OF x j(3) this Cons.prems(4)] wf' show ?thesis using True j q ok by (simp add: obj_get_Some)
  next
    case False
    then show ?thesis using wf' j q ok by simp
  qed
qed

lemma set_path_leaf_at:
  assumes "json_wf j" and "leaf_at p j" and "leaf_at q j" and "\<not> isObject v"
  shows "leaf_at q (set_path p v j)"
  using set_path_leaf [OF assms] assms(3,4) by (simp add: leaf_at_def split: option.splits)

definition given_value :: "(string \<rightharpoonup> 'd argval) \<Rightarrow> string \<Rightarrow> 'd argval \<Rightarrow> 'd json" where
  "given_value given n d = arg_json (case given n of Some v \<Rightarrow> v | None \<Rightarrow> d)"

lemma given_value_not_object [simp]: "\<not> isObject (given_value given n d)"
  by (simp add: given_value_def)

lemma readArgs_simps:
  "readArgs given [] root = root"
  "readArgs given ((n, p, d) # args) root = readArgs given args (set_path p (given_value given n d) root)"
  by (simp_all add: readArgs_def given_value_def)

abbreviation arg_path :: "'d option_arg \<Rightarrow> string list" where
  "arg_path a \<equiv> fst (snd a)"

lemma readArgs_leaf:
  assumes "json_wf root" and "list_all (\<lambda>a. leaf_at (arg_path a) root) args" and "distinct (map arg_path args)"
    and "leaf_at q root"
  shows "json_wf (readArgs given args root) \<and> jpath q (readArgs given args root) =
    (case find (\<lambda>a. arg_path a = q) args of Some (n, p, d) \<Rightarrow> Some (given_value given n d) | None \<Rightarrow> jpath q root)"
  using assms
proof (induction args arbitrary: root)
  case (Cons a args)
  obtain n p d where a: "a = (n, p, d)" by (metis prod_cases3)
  let ?v = "given_value given n d"
  have l: "leaf_at p root" using Cons.prems(2) a by simp
  note S = set_path_leaf [OF Cons.prems(1) l _ given_value_not_object]
  note SL = set_path_leaf_at [OF Cons.prems(1) l _ given_value_not_object]
  have "list_all (\<lambda>a. leaf_at (arg_path a) (set_path p ?v root)) args"
    using Cons.prems(2) SL by (auto simp: list_all_iff)
  then have IH: "json_wf (readArgs given args (set_path p ?v root)) \<and>
      jpath q (readArgs given args (set_path p ?v root)) =
      (case find (\<lambda>a. arg_path a = q) args of Some (n, p, d) \<Rightarrow> Some (given_value given n d)
       | None \<Rightarrow> jpath q (set_path p ?v root))"
    using Cons.IH Cons.prems(3,4) S [OF l] SL by simp
  show ?case
  proof (cases "q = p")
    case True
    then have "find (\<lambda>a. arg_path a = q) args = None"
      using Cons.prems(3) a by (force simp: find_None_iff)
    then show ?thesis using IH S [OF l] True a by (simp add: readArgs_simps)
  next
    case False
    then show ?thesis using IH S [OF Cons.prems(4)] a by (auto simp: readArgs_simps split: option.splits)
  qed
qed (simp add: readArgs_simps)

lemma leaf_at_empty [simp]: "\<not> leaf_at q (JObject [])"
  by (cases q) (simp_all add: leaf_at_Cons)

lemma leaf_at_members:
  assumes "k \<notin> fst ` set m"
  shows "leaf_at q (JObject ((k, v) # m)) \<longleftrightarrow> (\<exists>q'. q = k # q' \<and> leaf_at q' v) \<or> leaf_at q (JObject m)"
proof (cases q)
  case (Cons k' q')
  have "map_of m k = None" using assms by (simp add: map_of_eq_None_iff)
  then show ?thesis using Cons by (auto simp: leaf_at_Cons)
qed simp

lemma json_wf_Cons: "json_wf (JObject ((k, v) # m)) \<Longrightarrow> json_wf v \<and> json_wf (JObject m) \<and> k \<notin> fst ` set m"
  by (auto simp: sm_ok_def)

text \<open>What \<open>createArgs\<close> makes of the members \<open>m\<close> found at the path \<open>r\<close>.\<close>

definition args_for :: "'d json_ops \<Rightarrow> string list \<Rightarrow> (string \<times> 'd json) list \<Rightarrow> 'd option_arg list \<Rightarrow> bool" where
  "args_for ops r m args \<longleftrightarrow> distinct (map arg_path args) \<and>
     arg_path ` set args = (\<lambda>q. r @ q) ` {q. leaf_at q (JObject m)} \<and>
     (\<forall>(n, p, d) \<in> set args. \<exists>q v. p = r @ q \<and> jpath q (JObject m) = Some v \<and> make_arg ops n v = Inr d)"

lemma make_arg_not_object: "make_arg ops n v = Inr d \<Longrightarrow> \<not> isObject v"
  by (cases v) (simp_all add: make_arg_def)

lemma args_for_Cons:
  assumes k: "k \<notin> fst ` set m" and rest: "args_for ops r m rest"
    and d: "distinct (map arg_path args)" and p: "arg_path ` set args = (\<lambda>q. r @ k # q) ` {q. leaf_at q v}"
    and v: "\<forall>(n, p, d) \<in> set args. \<exists>q w. p = r @ k # q \<and> jpath q v = Some w \<and> make_arg ops n w = Inr d"
  shows "args_for ops r ((k, v) # m) (args @ rest)"
proof -
  have km: "map_of m k = None" using k by (simp add: map_of_eq_None_iff)
  have "r @ k # q \<noteq> r @ q'" if "leaf_at q' (JObject m)" for q q'
    using that km by (auto simp: leaf_at_Cons)
  then have "arg_path ` set args \<inter> arg_path ` set rest = {}" using p rest by (auto simp: args_for_def)
  then have "distinct (map arg_path (args @ rest))" using d rest by (simp add: args_for_def)
  moreover have "arg_path ` set (args @ rest) = (\<lambda>q. r @ q) ` {q. leaf_at q (JObject ((k, v) # m))}"
    unfolding leaf_at_members [OF k] set_append image_Un p using rest by (auto simp: args_for_def)
  moreover have "\<forall>(n, p, d) \<in> set (args @ rest). \<exists>q w. p = r @ q \<and>
      jpath q (JObject ((k, v) # m)) = Some w \<and> make_arg ops n w = Inr d"
  proof clarify
    fix n p d assume "(n, p, d) \<in> set (args @ rest)"
    then consider "(n, p, d) \<in> set args" | "(n, p, d) \<in> set rest" by auto
    then show "\<exists>q w. p = r @ q \<and> jpath q (JObject ((k, v) # m)) = Some w \<and> make_arg ops n w = Inr d"
    proof cases
      case 1
      with v obtain q w where "p = r @ k # q" "jpath q v = Some w" "make_arg ops n w = Inr d" by blast
      then show ?thesis by (intro exI [of _ "k # q"]) simp
    next
      case 2
      with rest obtain q w where q: "p = r @ q" "jpath q (JObject m) = Some w" "make_arg ops n w = Inr d"
        unfolding args_for_def by blast
      have "jpath q (JObject ((k, v) # m)) = Some w"
      proof (cases q)
        case Nil
        then show ?thesis using q(2) make_arg_not_object [OF q(3)] by auto
      next
        case (Cons k' q')
        then show ?thesis using q(2) km by (auto split: option.splits)
      qed
      then show ?thesis using q by blast
    qed
  qed
  ultimately show ?thesis by (simp add: args_for_def)
qed

lemma createArgs_for:
  "createArgs ops c r m = Inr args \<Longrightarrow> json_wf (JObject m) \<Longrightarrow> args_for ops r m args"
proof (induction ops c r m arbitrary: args rule: createArgs.induct)
  case (1 ops c r)
  then show ?case by (simp add: args_for_def)
next
  case (2 ops c r k v m)
  note wf = json_wf_Cons [OF 2(4)]
  from 2(3) obtain t args1 rest where t: "trim k whitespace = Inr t"
    and a: "(case v of JObject mm \<Rightarrow> createArgs ops (c @ t @ ''-'') (r @ [k]) mm
       | _ \<Rightarrow> bindR (make_arg ops (c @ t) v) (\<lambda>a. Inr [(c @ t, r @ [k], a)])) = Inr args1"
    and rest: "createArgs ops c r m = Inr rest" and args: "args = args1 @ rest"
    by auto
  have R: "args_for ops r m rest" using "2.IH"(2) rest wf by blast
  show ?case
  proof (cases "isObject v")
    case True
    then obtain mm where mm: "v = JObject mm" by (auto simp: isObject_iff)
    have "args_for ops (r @ [k]) mm args1" using "2.IH"(1) [OF mm, of t args1] a mm wf by simp
    then show ?thesis unfolding args
      by (intro args_for_Cons) (use wf R mm in \<open>auto simp: args_for_def\<close>)
  next
    case False
    then obtain d where d: "make_arg ops (c @ t) v = Inr d" "args1 = [(c @ t, r @ [k], d)]"
      using a by (cases v) auto
    have "{q. leaf_at q v} = {[]}" using False leaf_at_value by auto
    then show ?thesis unfolding args
      by (intro args_for_Cons) (use wf R d in auto)
  qed
qed

end
