(* ===== verification/Configuration_Props.thy ===== *)
theory Configuration_Props
  imports Configuration Json_Config_Props Partitioners_Props
begin

text \<open>
  Properties of the configuration: which of the three sources of a setting wins, what the comparison of the nodes
  guarantees, and how the LPs are divided among nodes and schedulers.
\<close>

section \<open>Where a setting comes from\<close>

lemma default_config_wf: "json_wf (JObject default_config)"
  by (simp add: default_config_def sm_ok_def)

text \<open>The value at a path of the configuration file named \<open>file\<close>, if there is one.\<close>

definition file_value ::
    "(string \<Rightarrow> string option) \<Rightarrow> (string \<Rightarrow> string + 'd json) \<Rightarrow> string \<Rightarrow> string list \<Rightarrow> 'd json option" where
  "file_value files parse file p =
     (if file = [] then None
      else case files file of None \<Rightarrow> None
        | Some text \<Rightarrow> (case parse text of Inl _ \<Rightarrow> None | Inr j \<Rightarrow> jpath p j))"

lemma jpath_setting: "jpath p j = Some v \<Longrightarrow> setting p j = Inr v"
proof (induction p arbitrary: j)
  case (Cons k p)
  then obtain m w where "j = JObject m" "map_of m k = Some w" "jpath p w = Some v" by (auto simp: jpath_Cons_Some)
  then show ?case using Cons.IH by (simp add: obj_get_Some)
qed simp

lemma readUserConfig_file:
  assumes "readUserConfig files parse cf = Inr cf'" and "cf_root cf = Some root"
    and "\<forall>t j. parse t = Inr j \<longrightarrow> json_wf j" and "json_wf root" and "jpath p root = Some v" and "\<not> isObject v"
    and "p \<noteq> []"
  shows "\<exists>root'. cf_root cf' = Some root' \<and> json_wf root' \<and>
    jpath p root' = Some (case file_value files parse (config_file_name cf) p of Some w \<Rightarrow> w | None \<Rightarrow> v)"
proof (cases "config_file_name cf = []")
  case True
  then show ?thesis using assms by (auto simp: readUserConfig_def file_value_def)
next
  case False
  with assms(1,2) obtain contents j where j: "files (config_file_name cf) = Some contents" "parse contents = Inr j"
    "cf' = cf\<lparr>cf_root := Some (jupdate root j)\<rparr>"
    by (auto simp: readUserConfig_def parseJsonFile_def split: option.splits sum.splits)
  have wf: "json_wf j" using assms(3) j(2) by blast
  have obj: "isObject root" using assms(5,7) by (cases p; cases root) simp_all
  have "jpath p (jupdate root j) = (case jpath p j of Some w \<Rightarrow> Some w | None \<Rightarrow> Some v)"
    using merge_value_leaf [OF assms(4) wf assms(5,6)] assms(7) obj by (simp add: merge_value_def)
  then show ?thesis using j False jupdate_wf [OF assms(4) wf]
    by (simp add: file_value_def split: option.splits)
qed

lemma createArgs_members:
  assumes "createArgs ops [] [] m = Inr args" and "json_wf (JObject m)"
  shows "list_all (\<lambda>a. leaf_at (arg_path a) (JObject m)) args" and "distinct (map arg_path args)"
    and "arg_path ` set args = {q. leaf_at q (JObject m)}"
  using createArgs_for [OF assms] by (auto simp: args_for_def list_all_iff)

lemma arg_path_leaf:
  assumes "createArgs ops [] [] m = Inr args" and "json_wf (JObject m)" and "(n, p, d) \<in> set args"
  shows "leaf_at p (JObject m)" and "p \<noteq> []"
proof -
  show l: "leaf_at p (JObject m)" using createArgs_members(1) [OF assms(1,2)] assms(3) by (force simp: list_all_iff)
  then show "p \<noteq> []" by (cases p) simp_all
qed

lemma find_arg:
  assumes "distinct (map arg_path args)" and "(n, p, d) \<in> set args"
  shows "find (\<lambda>a. arg_path a = p) args = Some (n, p, d)"
  using assms
proof (induction args)
  case (Cons a args)
  show ?case
  proof (cases "a = (n, p, d)")
    case False
    then have m: "(n, p, d) \<in> set args" using Cons.prems(2) by simp
    then have "p \<in> arg_path ` set args" by force
    then have "arg_path a \<noteq> p" using Cons.prems(1) by auto
    then show ?thesis using Cons.IH [OF _ m] Cons.prems(1) by simp
  qed simp
qed simp

lemma readArgs_value:
  assumes "createArgs ops [] [] m = Inr args" and "json_wf (JObject m)" and "(n, p, d) \<in> set args"
  shows "json_wf (readArgs given args (JObject m)) \<and> jpath p (readArgs given args (JObject m)) = Some (given_value given n d)"
proof -
  note A = createArgs_members [OF assms(1,2)]
  from readArgs_leaf [OF assms(2) A(1,2) arg_path_leaf(1) [OF assms], of given] find_arg [OF A(2) assms(3)]
  show ?thesis by simp
qed

text \<open>C36: A setting has the value that the configuration file gives it; if the file does not mention it, the value
  given on the command line; and only then the default. This holds of every setting that has an option. It is not
  what is documented: the comment of the class (\<open>src/src/Configuration.hpp:24-28\<close>) says that a value from
  the command line overrides the default and the file. The code does the opposite where both give a value, since
  \<open>Configuration::init\<close> reads the command line into the settings first and the file over them; the theorem
  states what the code does.\<close>

theorem config_precedence:
  assumes "\<forall>t j. parse t = Inr j \<longrightarrow> json_wf j"
    and "config_init ops files parse cl = Inr (dump, cf)"
    and "createArgs ops [] [] default_config = Inr args" and "(n, p, d) \<in> set args"
  shows "\<exists>root. cf_root cf = Some root \<and> json_wf root \<and>
    setting p root = Inr (case file_value files parse (cl_config cl) p of
      Some w \<Rightarrow> w | None \<Rightarrow> given_value (cl_given cl) n d)"
proof -
  let ?root = "readArgs (cl_given cl) args (JObject default_config)"
  have R: "json_wf ?root" "jpath p ?root = Some (given_value (cl_given cl) n d)"
    using readArgs_value [OF assms(3) default_config_wf assms(4)] by auto
  note p = arg_path_leaf(2) [OF assms(3) default_config_wf assms(4)]
  have "readUserConfig files parse \<lparr>config_file_name = cl_config cl, cf_max_sim_time = 0, cf_root = Some ?root\<rparr> = Inr cf"
    using assms(2,3) by (auto simp: config_init_def cl_parse_def split: if_splits)
  from readUserConfig_file [OF this _ assms(1) R given_value_not_object p] jpath_setting
  show ?thesis by fastforce
qed

definition int_ops :: "int json_ops" where
  "int_ops = \<lparr>jd_of_int = (\<lambda>i. i), jd_trunc = (\<lambda>d. d), jd_integral = (\<lambda>d. True),
     jd_in_range = (\<lambda>a b d. a \<le> d \<and> d \<le> b), jd_show = show_int, jd_float = (\<lambda>d. d),
     jd_div = (\<lambda>d n. d div int n), jd_mult = (\<lambda>d n. d * int n)\<rparr>"

definition sample_cl :: "int cmd_line" where
  "sample_cl = \<lparr>cl_given = (\<lambda>n. if n = ''max-sim-time'' then Some (ADouble 50) else None), cl_config = ''w.json'',
     cl_dump = False, cl_user_args = []\<rparr>"

definition sample_parse :: "string \<Rightarrow> string + int json" where
  "sample_parse t = Inr (JObject [(''max-sim-time'', JInt 100)])"

lemma sample_init: "case config_init int_ops (\<lambda>f. Some f) sample_parse sample_cl of Inr _ \<Rightarrow> True | Inl _ \<Rightarrow> False"
  by code_simp

lemma sample_args: "case createArgs int_ops [] [] default_config of
    Inr args \<Rightarrow> (''max-sim-time'', [''max-sim-time''], ADouble 0) \<in> set args | Inl _ \<Rightarrow> False"
  by code_simp

theorem config_precedence_witness:
  "\<exists>dump cf root. config_init int_ops (\<lambda>f. Some f) sample_parse sample_cl = Inr (dump, cf) \<and> cf_root cf = Some root \<and>
     setting [''max-sim-time''] root = Inr (JInt 100)"
proof -
  obtain dump cf where i: "config_init int_ops (\<lambda>f. Some f) sample_parse sample_cl = Inr (dump, cf)"
    using sample_init by (auto split: sum.splits)
  obtain args where a: "createArgs int_ops [] [] default_config = Inr args"
    "(''max-sim-time'', [''max-sim-time''], ADouble 0) \<in> set args"
    using sample_args by (auto split: sum.splits)
  have w: "\<forall>t j. sample_parse t = Inr j \<longrightarrow> json_wf j" by (simp add: sample_parse_def sm_ok_def)
  show ?thesis using config_precedence [OF w i a] i
    by (auto simp: file_value_def sample_cl_def sample_parse_def)
qed

section \<open>Comparing the nodes\<close>

text \<open>What a conversion of a double to an integer returns is in the range it was checked for.\<close>

definition json_ops_ok :: "'d json_ops \<Rightarrow> bool" where
  "json_ops_ok ops \<longleftrightarrow> (\<forall>a b d. jd_in_range ops a b d \<longrightarrow> a \<le> jd_trunc ops d \<and> jd_trunc ops d \<le> b)"

lemma int_ops_ok: "json_ops_ok int_ops"
  by (simp add: json_ops_ok_def int_ops_def)

lemma asInt_range: "asInt ops j = Inr i \<Longrightarrow> json_ops_ok ops \<Longrightarrow> minInt \<le> i \<and> i \<le> maxInt"
  by (cases j) (auto simp: json_ops_ok_def minInt_def maxInt_def split: if_splits)

lemma asUInt_range: "asUInt ops j = Inr i \<Longrightarrow> json_ops_ok ops \<Longrightarrow> 0 \<le> i \<and> i \<le> maxUInt"
  by (cases j) (auto simp: json_ops_ok_def maxUInt_def split: if_splits)

lemma int_of_range: "int_of ops p root = Inr i \<Longrightarrow> json_ops_ok ops \<Longrightarrow> minInt \<le> i \<and> i \<le> maxInt"
  by (auto simp: int_of_def dest: asInt_range)

lemma uint_of_range: "uint_of ops p root = Inr i \<Longrightarrow> json_ops_ok ops \<Longrightarrow> 0 \<le> i \<and> i \<le> maxUInt"
  by (auto simp: uint_of_def dest: asUInt_range)

lemma of_int_u64_inj:
  assumes "(of_int a :: u64) = of_int b" and "- (2 ^ 31) \<le> a" "a < 2 ^ 32" "- (2 ^ 31) \<le> b" "b < 2 ^ 32"
  shows "a = b"
proof -
  have "uint (of_int a :: u64) = uint (of_int b :: u64)" using assms(1) by simp
  then have "a mod 2 ^ 64 = b mod 2 ^ 64" by (simp add: unsigned_of_int take_bit_eq_mod)
  then obtain k where k: "a - b = 2 ^ 64 * k" by (auto simp: mod_eq_dvd_iff dvd_def)
  have "\<bar>2 ^ 64 * k\<bar> < (2 :: int) ^ 64" unfolding k [symmetric] using assms(2-) by (simp add: abs_if)
  then have "k = 0" by (simp add: abs_mult)
  then show ?thesis using k by simp
qed

lemma ucast_u64_inj: "(ucast (a :: u32) :: u64) = ucast b \<Longrightarrow> a = b"
proof -
  assume e: "(ucast a :: u64) = ucast b"
  have "unat (ucast w :: u64) = unat w" for w :: u32
    using unat_less_power_32 [of w] by (simp add: unsigned_ucast_eq take_bit_nat_eq_self)
  then show ?thesis using e by (metis word_unat_eq_iff)
qed

text \<open>What a node has sent so far, and that it has collected no complaint exactly if all it received agrees with
  what it sent.\<close>

definition heard_same :: "node_view \<Rightarrow> u64 list \<Rightarrow> bool" where
  "heard_same nv sent \<longleftrightarrow> (nv_id nv = 0 \<longrightarrow> list_all (\<lambda>i. list_all (\<lambda>v. v = sent ! i) (nv_others nv i)) [0..<length sent])"

definition check_ok :: "node_view \<Rightarrow> check_state \<Rightarrow> bool" where
  "check_ok nv st \<longleftrightarrow> (ck_invalid st = [] \<longleftrightarrow> heard_same nv (ck_sent st))"

lemma check_setting_sent [simp]: "ck_sent (check_setting nv what v st) = ck_sent st @ [v]"
  by (simp add: check_setting_def checkTimeWarpConfigs_def)

lemma heard_same_snoc:
  "heard_same nv (sent @ [v]) \<longleftrightarrow> heard_same nv sent \<and> (nv_id nv \<noteq> 0 \<or> list_all (\<lambda>w. w = v) (nv_others nv (length sent)))"
  by (auto simp: heard_same_def list_all_iff nth_append)

lemma check_setting_ok: "check_ok nv st \<Longrightarrow> what \<noteq> [] \<Longrightarrow> check_ok nv (check_setting nv what v st)"
  by (auto simp: check_ok_def heard_same_snoc check_setting_def checkTimeWarpConfigs_def)

lemma check_line_not_Nil [simp]: "check_line s \<noteq> []"
  by (simp add: check_line_def)

text \<open>The sequence of values that a node contributes.\<close>

definition tw_values :: "tw_parts \<Rightarrow> bool \<Rightarrow> u64 list" where
  "tw_values parts off =
     [1, of_int (tp_worker_threads parts), of_int (tp_schedulers parts)] @ (if off then [1] else []) @
     (case tp_state_period parts of Some p \<Rightarrow> [0, of_int p] | None \<Rightarrow> []) @
     (if tp_aggressive parts then [0] else []) @ [of_int (tp_gvt_period parts)]"

definition parts_in_range :: "tw_parts \<Rightarrow> bool" where
  "parts_in_range parts \<longleftrightarrow>
     minInt \<le> tp_worker_threads parts \<and> tp_worker_threads parts \<le> maxInt \<and>
     minInt \<le> tp_schedulers parts \<and> tp_schedulers parts \<le> maxInt \<and>
     (case tp_state_period parts of Some p \<Rightarrow> minInt \<le> p \<and> p \<le> maxInt | None \<Rightarrow> True) \<and>
     0 \<le> tp_gvt_period parts \<and> tp_gvt_period parts \<le> maxUInt"

lemma state_manager_setting_values:
  assumes "state_manager_setting ops nv root st = Inr (period, st')" and "json_ops_ok ops"
  shows "ck_sent st' = ck_sent st @ (case period of Some p \<Rightarrow> [0, of_int p] | None \<Rightarrow> [])"
    and "case period of Some p \<Rightarrow> minInt \<le> p \<and> p \<le> maxInt | None \<Rightarrow> True"
    and "check_ok nv st \<Longrightarrow> check_ok nv st'"
  using assms by (auto simp: state_manager_setting_def Let_def check_setting_ok dest: int_of_range split: if_splits)

text \<open>The setting of LP migration, and that the dispatcher is given it.\<close>

definition lp_setting :: "'d json_ops \<Rightarrow> 'd json \<Rightarrow> tw_parts \<Rightarrow> string \<Rightarrow> bool" where
  "lp_setting ops root parts lp \<longleftrightarrow>
     str_of ops [''time-warp'', ''lp-migration''] root = Inr lp \<and> tp_lp_migration parts = (lp = ''on'')"

lemma tw_settings_values:
  assumes "tw_settings ops nv root st = Inr (parts, st')" and "json_ops_ok ops"
  shows "\<exists>lp. lp_setting ops root parts lp \<and> ck_sent st' = ck_sent st @ tw_values parts (lp = ''off'')"
    and "parts_in_range parts" and "check_ok nv st \<Longrightarrow> check_ok nv st'"
proof -
  from assms(1) obtain w s lp period st5 st4 canc g meth where
    w: "int_of ops [''time-warp'', ''worker-threads''] root = Inr w" and
    s: "int_of ops [''time-warp'', ''scheduler-count''] root = Inr s" and
    g: "uint_of ops [''time-warp'', ''gvt-calculation'', ''period''] root = Inr g" and
    lp: "str_of ops [''time-warp'', ''lp-migration''] root = Inr lp" and
    st4: "st4 = (let st3 = check_setting nv (check_line ''Number of schedule queues'') (of_int s)
       (check_setting nv (check_line ''Number of worker threads'') (of_int w)
       (check_setting nv (check_line ''Simulation type'') 1 st))
       in if lp = ''off'' then check_setting nv (check_line ''LP Migration'') 1 st3 else st3)" and
    st5: "state_manager_setting ops nv root st4 = Inr (period, st5)" and
    parts: "parts = \<lparr>tp_worker_threads = w, tp_schedulers = s,
             tp_lp_migration = (lp = ''on''), tp_state_period = period,
             tp_aggressive = (canc = ''aggressive''), tp_gvt_period = g,
             tp_gvt_method = gvt_setting meth\<rparr>" and
    st': "st' = check_setting nv (check_line ''GVT period'') (of_int g)
       (if canc = ''aggressive'' then check_setting nv (check_line ''Cancellation type'') 0 st5 else st5)"
    by (fastforce simp: tw_settings_def Let_def)
  note S = state_manager_setting_values [OF st5 assms(2)]
  have "ck_sent st' = ck_sent st @ tw_values parts (lp = ''off'')"
    unfolding st' st4 parts tw_values_def using S(1) by (simp add: st4 Let_def)
  moreover have "lp_setting ops root parts lp" using lp by (simp add: lp_setting_def parts)
  ultimately show "\<exists>lp. lp_setting ops root parts lp \<and> ck_sent st' = ck_sent st @ tw_values parts (lp = ''off'')"
    by blast
  show "parts_in_range parts" unfolding parts parts_in_range_def
    using int_of_range [OF w assms(2)] int_of_range [OF s assms(2)] uint_of_range [OF g assms(2)] S(2) by simp
  show "check_ok nv st'" if "check_ok nv st"
  proof -
    have "check_ok nv st4" using that by (simp add: st4 Let_def check_setting_ok)
    then have "check_ok nv st5" by (rule S(3))
    then show ?thesis by (simp add: st' check_setting_ok)
  qed
qed

lemma makeDispatcher_values:
  assumes "makeDispatcher ops nv cf0 = Inr ((Time_Warp t parts f c r, sent), cf)" and "json_ops_ok ops"
  shows "(\<exists>root lp. cf_root cf0 = Some root \<and> lp_setting ops root parts lp \<and>
      sent = ucast t # tw_values parts (lp = ''off'')) \<and> parts_in_range parts \<and> heard_same nv sent"
proof -
  let ?st = "check_setting nv (check_line ''Maximum simulation time'') (ucast t) \<lparr>ck_sent = [], ck_invalid = []\<rparr>"
  from assms(1) obtain root st where root: "cf_root cf0 = Some root" and
    tw: "tw_settings ops nv root ?st = Inr (parts, st)" and st: "ck_invalid st = []" "sent = ck_sent st"
    by (auto simp: makeDispatcher_def make_time_warp_def Let_def split: option.splits if_splits)
  have "check_ok nv \<lparr>ck_sent = [], ck_invalid = []\<rparr>" by (simp add: check_ok_def heard_same_def)
  then have "check_ok nv ?st" by (simp add: check_setting_ok)
  with tw_settings_values [OF tw assms(2)] st root show ?thesis by (auto simp: check_ok_def)
qed

lemma Cons_same: "x # xs = y # ys \<Longrightarrow> x = y \<and> xs = ys"
  by simp

lemma flag_values_inj:
  assumes "(if o1 then [1] else []) @ (case s1 of Some p \<Rightarrow> [0, of_int p] | None \<Rightarrow> []) @ (if a1 then [0] else []) @ [g1] =
    (if o2 then [1] else []) @ (case s2 of Some p \<Rightarrow> [0, of_int p] | None \<Rightarrow> []) @ (if a2 then [0] else []) @ [g2 :: u64]"
  shows "(case s1 of Some p \<Rightarrow> Some (of_int p :: u64) | None \<Rightarrow> None) = (case s2 of Some p \<Rightarrow> Some (of_int p) | None \<Rightarrow> None) \<and>
    a1 = a2 \<and> g1 = g2 \<and> o1 = o2"
  using assms by (cases s1; cases s2; cases o1; cases o2; cases a1; cases a2) simp_all

lemma tw_values_inj:
  assumes "tw_values p1 o1 = tw_values p2 o2" and "parts_in_range p1" and "parts_in_range p2"
  shows "tp_worker_threads p1 = tp_worker_threads p2 \<and> tp_schedulers p1 = tp_schedulers p2 \<and>
    tp_state_period p1 = tp_state_period p2 \<and> tp_aggressive p1 = tp_aggressive p2 \<and> tp_gvt_period p1 = tp_gvt_period p2 \<and> o1 = o2"
proof -
  note inj = of_int_u64_inj
  have e: "(of_int (tp_worker_threads p1) :: u64) = of_int (tp_worker_threads p2)"
    "(of_int (tp_schedulers p1) :: u64) = of_int (tp_schedulers p2)"
    and r: "(if o1 then [1] else []) @ (case tp_state_period p1 of Some p \<Rightarrow> [0, of_int p] | None \<Rightarrow> []) @
        (if tp_aggressive p1 then [0] else []) @ [of_int (tp_gvt_period p1) :: u64] =
      (if o2 then [1] else []) @ (case tp_state_period p2 of Some p \<Rightarrow> [0, of_int p] | None \<Rightarrow> []) @
        (if tp_aggressive p2 then [0] else []) @ [of_int (tp_gvt_period p2)]"
    using assms(1) by (simp_all add: tw_values_def)
  note F = flag_values_inj [OF r]
  note R = assms(2,3) [unfolded parts_in_range_def minInt_def maxInt_def maxUInt_def]
  have "tp_worker_threads p1 = tp_worker_threads p2" using inj [OF e(1)] R by simp
  moreover have "tp_schedulers p1 = tp_schedulers p2" using inj [OF e(2)] R by simp
  moreover have "tp_gvt_period p1 = tp_gvt_period p2" using inj [of "tp_gvt_period p1" "tp_gvt_period p2"] F R by simp
  moreover have "tp_state_period p1 = tp_state_period p2"
    using F R inj by (cases "tp_state_period p1"; cases "tp_state_period p2") auto
  ultimately show ?thesis using F by simp
qed

text \<open>C37: If the first node starts a Time Warp simulation, and what it received from another node in the comparison
  is what that node sent, value for value, then the two nodes agree on the end of the simulation, the numbers of
  worker threads and of schedule queues, state saving (periodic or not) and its period, the kind of cancellation
  (aggressive or not), the GVT period, and on whether LP migration is \<open>off\<close>: the sequence of the values, in
  which some appear only for some settings, cannot be read in two ways. This is all that is compared. LP migration
  is compared only where it is \<open>off\<close>, so that \<open>on\<close> against another value that is not \<open>off\<close> goes unnoticed; with the two
  valid values \<open>on\<close> and \<open>off\<close> the nodes agree on it. The GVT method and the settings of checkpoints, rejuvenation and
  statistics are not compared at all (\<open>gvt_method_not_compared\<close>).\<close>

theorem configs_agree:
  assumes "json_ops_ok ops" and "nv_id nv0 = 0"
    and "makeDispatcher ops nv0 cf1 = Inr ((Time_Warp t1 p1 f1 c1 r1, sent1), cf1')"
    and "makeDispatcher ops nv cf2 = Inr ((Time_Warp t2 p2 f2 c2 r2, sent2), cf2')"
    and "length sent2 = length sent1" and "\<forall>i < length sent1. sent2 ! i \<in> set (nv_others nv0 i)"
  shows "t1 = t2 \<and> tp_worker_threads p1 = tp_worker_threads p2 \<and> tp_schedulers p1 = tp_schedulers p2 \<and>
    tp_state_period p1 = tp_state_period p2 \<and> tp_aggressive p1 = tp_aggressive p2 \<and> tp_gvt_period p1 = tp_gvt_period p2 \<and>
    (\<exists>root1 root2 lp1 lp2. cf_root cf1 = Some root1 \<and> lp_setting ops root1 p1 lp1 \<and>
       cf_root cf2 = Some root2 \<and> lp_setting ops root2 p2 lp2 \<and> (lp1 = ''off'' \<longleftrightarrow> lp2 = ''off''))"
proof -
  from makeDispatcher_values [OF assms(3,1)] obtain root1 lp1 where
    1: "sent1 = ucast t1 # tw_values p1 (lp1 = ''off'')" "parts_in_range p1" "heard_same nv0 sent1"
    and lp1: "cf_root cf1 = Some root1" "lp_setting ops root1 p1 lp1" by blast
  from makeDispatcher_values [OF assms(4,1)] obtain root2 lp2 where
    2: "sent2 = ucast t2 # tw_values p2 (lp2 = ''off'')" "parts_in_range p2"
    and lp2: "cf_root cf2 = Some root2" "lp_setting ops root2 p2 lp2" by blast
  have "sent2 ! i = sent1 ! i" if "i < length sent1" for i
    using 1(3) assms(2,6) that by (simp add: heard_same_def list_all_iff)
  then have eq: "sent2 = sent1" using assms(5) by (simp add: list_eq_iff_nth_eq)
  then have t: "(ucast t1 :: u64) = ucast t2" and v: "tw_values p1 (lp1 = ''off'') = tw_values p2 (lp2 = ''off'')"
    unfolding 1(1) 2(1) by simp_all
  from lp1 lp2 tw_values_inj [OF v 1(2) 2(2)] show ?thesis
    by (intro conjI ucast_u64_inj [OF t]) auto
qed

definition sample_root :: "string \<Rightarrow> int json" where
  "sample_root method = jupdate (JObject default_config)
     (JObject [(''time-warp'', JObject [(''gvt-calculation'', JObject [(''method'', JString method)])])])"

definition sample_conf :: "string \<Rightarrow> int configuration" where
  "sample_conf method = \<lparr>config_file_name = [], cf_max_sim_time = 0, cf_root = Some (sample_root method)\<rparr>"

definition sample_values :: "u64 list" where
  "sample_values = [0, 1, 3, 1, 1, 0, 10, 0, 1000]"

definition sample_view :: "nat \<Rightarrow> node_view" where
  "sample_view n = \<lparr>nv_id = n, nv_num = 2, nv_others = (\<lambda>i. [sample_values ! i])\<rparr>"

definition sample_parts :: "gvt_method \<Rightarrow> tw_parts" where
  "sample_parts m = \<lparr>tp_worker_threads = 3, tp_schedulers = 1, tp_lp_migration = False, tp_state_period = Some 10,
     tp_aggressive = True, tp_gvt_period = 1000, tp_gvt_method = Some m\<rparr>"

lemma sample_tw_settings:
  "tw_settings int_ops (sample_view 0) (sample_root ''asynchronous'') \<lparr>ck_sent = [0], ck_invalid = []\<rparr> =
     Inr (sample_parts Asynchronous_GVT, \<lparr>ck_sent = sample_values, ck_invalid = []\<rparr>)"
  "tw_settings int_ops (sample_view 1) (sample_root ''synchronous'') \<lparr>ck_sent = [0], ck_invalid = []\<rparr> =
     Inr (sample_parts Synchronous_GVT, \<lparr>ck_sent = sample_values, ck_invalid = []\<rparr>)"
  by code_simp+

definition sample_rest :: "nat \<Rightarrow> string \<Rightarrow> bool" where
  "sample_rest n method \<longleftrightarrow>
     str_of int_ops [''time-warp'', ''statistics-file''] (sample_root method) = Inr ''none'' \<and>
     checkpoint_setting int_ops (sample_view n) (sample_root method) = Inr (Null_Checkpoint, sample_root method) \<and>
     rejuvenation_setting int_ops (sample_view n) (sample_root method) =
       Inr \<lparr>rj_first = None, rj_interval = 0, rj_time = None, rj_oneshot = False\<rparr> \<and>
     setting [''max-sim-time''] (sample_root method) = Inr (JInt 0) \<and>
     str_of int_ops [''simulation-type''] (sample_root method) = Inr ''time-warp'' \<and>
     check_setting (sample_view n) (check_line ''Maximum simulation time'') 0 \<lparr>ck_sent = [], ck_invalid = []\<rparr> =
       \<lparr>ck_sent = [0], ck_invalid = []\<rparr>"

lemma sample_rests: "sample_rest 0 ''asynchronous''" "sample_rest 1 ''synchronous''"
  by code_simp+

lemma sample_dispatcher:
  assumes "sample_rest n method"
    and "tw_settings int_ops (sample_view n) (sample_root method) \<lparr>ck_sent = [0], ck_invalid = []\<rparr> =
      Inr (parts, \<lparr>ck_sent = sample_values, ck_invalid = []\<rparr>)"
  shows "\<exists>f c r cf. makeDispatcher int_ops (sample_view n) (sample_conf method) = Inr ((Time_Warp 0 parts f c r, sample_values), cf)"
  using assms unfolding sample_rest_def
  by (simp add: makeDispatcher_def make_time_warp_def sample_conf_def maxUInt_def)

lemma sample_dispatchers:
  obtains f1 c1 r1 cf1 f2 c2 r2 cf2 where
    "makeDispatcher int_ops (sample_view 0) (sample_conf ''asynchronous'') =
       Inr ((Time_Warp 0 (sample_parts Asynchronous_GVT) f1 c1 r1, sample_values), cf1)"
    "makeDispatcher int_ops (sample_view 1) (sample_conf ''synchronous'') =
       Inr ((Time_Warp 0 (sample_parts Synchronous_GVT) f2 c2 r2, sample_values), cf2)"
  using sample_dispatcher [OF sample_rests(1) sample_tw_settings(1)]
    sample_dispatcher [OF sample_rests(2) sample_tw_settings(2)] by blast

theorem configs_agree_witness:
  "\<exists>d1 d2 cf1 cf2. makeDispatcher int_ops (sample_view 0) (sample_conf ''asynchronous'') = Inr (d1, cf1) \<and>
     makeDispatcher int_ops (sample_view 1) (sample_conf ''synchronous'') = Inr (d2, cf2) \<and>
     tp_gvt_period (sample_parts Asynchronous_GVT) = tp_gvt_period (sample_parts Synchronous_GVT)"
proof -
  obtain f1 c1 r1 cf1 f2 c2 r2 cf2 where
    1: "makeDispatcher int_ops (sample_view 0) (sample_conf ''asynchronous'') =
       Inr ((Time_Warp 0 (sample_parts Asynchronous_GVT) f1 c1 r1, sample_values), cf1)" and
    2: "makeDispatcher int_ops (sample_view 1) (sample_conf ''synchronous'') =
       Inr ((Time_Warp 0 (sample_parts Synchronous_GVT) f2 c2 r2, sample_values), cf2)"
    by (rule sample_dispatchers)
  have "nv_id (sample_view 0) = 0" "\<forall>i < length sample_values. sample_values ! i \<in> set (nv_others (sample_view 0) i)"
    by (simp_all add: sample_view_def)
  from configs_agree [OF int_ops_ok this(1) 1 2 refl this(2)] 1 2 show ?thesis by blast
qed

text \<open>The comparison of the nodes does not cover the GVT method: two nodes of which one is to run the asynchronous
  and the other the synchronous algorithm start, the first having received from the second what it sent itself.\<close>

theorem gvt_method_not_compared:
  "\<exists>p1 f1 c1 r1 cf1 p2 f2 c2 r2 cf2 sent.
     makeDispatcher int_ops (sample_view 0) (sample_conf ''asynchronous'') = Inr ((Time_Warp 0 p1 f1 c1 r1, sent), cf1) \<and>
     makeDispatcher int_ops (sample_view 1) (sample_conf ''synchronous'') = Inr ((Time_Warp 0 p2 f2 c2 r2, sent), cf2) \<and>
     map (nv_others (sample_view 0)) [0..<length sent] = map (\<lambda>v. [v]) sent \<and>
     tp_gvt_method p1 = Some Asynchronous_GVT \<and> tp_gvt_method p2 = Some Synchronous_GVT"
proof -
  have m: "map (nv_others (sample_view 0)) [0..<length sample_values] = map (\<lambda>v. [v]) sample_values"
    by (rule nth_equalityI) (simp_all add: sample_view_def)
  have g: "tp_gvt_method (sample_parts m) = Some m" for m by (simp add: sample_parts_def)
  obtain f1 c1 r1 cf1 f2 c2 r2 cf2 where
    1: "makeDispatcher int_ops (sample_view 0) (sample_conf ''asynchronous'') =
       Inr ((Time_Warp 0 (sample_parts Asynchronous_GVT) f1 c1 r1, sample_values), cf1)" and
    2: "makeDispatcher int_ops (sample_view 1) (sample_conf ''synchronous'') =
       Inr ((Time_Warp 0 (sample_parts Synchronous_GVT) f2 c2 r2, sample_values), cf2)"
    by (rule sample_dispatchers)
  show ?thesis by (intro exI conjI) (rule 1, rule 2, rule m, rule g, rule g)
qed

text \<open>Only the first node compares: the others start whatever the nodes have sent.\<close>

lemma check_setting_others: "nv_id nv \<noteq> 0 \<Longrightarrow> check_setting (nv\<lparr>nv_others := h\<rparr>) = check_setting nv"
  by (intro ext) (simp add: check_setting_def checkTimeWarpConfigs_def)

lemma state_manager_setting_others:
  "nv_id nv \<noteq> 0 \<Longrightarrow> state_manager_setting ops (nv\<lparr>nv_others := h\<rparr>) = state_manager_setting ops nv"
  by (intro ext) (simp only: state_manager_setting_def check_setting_others not_False_eq_True)

lemma tw_settings_others: "nv_id nv \<noteq> 0 \<Longrightarrow> tw_settings ops (nv\<lparr>nv_others := h\<rparr>) = tw_settings ops nv"
  by (intro ext) (simp only: tw_settings_def check_setting_others state_manager_setting_others not_False_eq_True)

lemma view_others: "nv_id (nv\<lparr>nv_others := h\<rparr>) = nv_id nv" "nv_num (nv\<lparr>nv_others := h\<rparr>) = nv_num nv"
  by simp_all

lemma part_settings_others:
  "checkpoint_setting ops (nv\<lparr>nv_others := h\<rparr>) = checkpoint_setting ops nv"
  "rejuvenation_setting ops (nv\<lparr>nv_others := h\<rparr>) = rejuvenation_setting ops nv"
  by (intro ext, simp only: checkpoint_setting_def rejuvenation_setting_def view_others)+

lemma make_time_warp_others: "nv_id nv \<noteq> 0 \<Longrightarrow> make_time_warp ops (nv\<lparr>nv_others := h\<rparr>) = make_time_warp ops nv"
  by (intro ext) (simp only: make_time_warp_def tw_settings_others part_settings_others not_False_eq_True)

lemma only_root_compares: "nv_id nv \<noteq> 0 \<Longrightarrow> makeDispatcher ops (nv\<lparr>nv_others := h\<rparr>) cf = makeDispatcher ops nv cf"
  by (simp only: makeDispatcher_def make_time_warp_others check_setting_others view_others not_False_eq_True)

section \<open>The name of the checkpoint file\<close>

lemma setting_two: "setting [a, b] root = Inr v \<Longrightarrow> v \<noteq> JNull \<Longrightarrow>
  \<exists>m c. root = JObject m \<and> map_of m a = Some (JObject c) \<and> map_of c b = Some v"
  by (cases root) (auto simp: obj_get_def split: option.splits elim!: jget.elims)

lemma setting_set_path:
  assumes "json_wf root" and "root = JObject m" and "map_of m a = Some (JObject c)"
  shows "setting [a, b'] (set_path [a, b] v root) = (if b' = b then Inr v else setting [a, b'] root)"
    and "json_wf v \<Longrightarrow> json_wf (set_path [a, b] v root)"
proof -
  have ok: "sm_ok m" "json_wf (JObject c)"
    using assms(1,2) json_wf_member [OF _ assms(3)] by simp_all
  then have c: "sm_ok c" by simp
  show "setting [a, b'] (set_path [a, b] v root) = (if b' = b then Inr v else setting [a, b'] root)"
    using ok c assms(2,3) by (simp add: obj_get_def)
  show "json_wf (set_path [a, b] v root)" if "json_wf v"
  proof -
    have "json_wf (JObject (sm_put b v c))"
      using c ok(2) that unfolding json_wf_object by (auto split: if_splits)
    then have "json_wf (JObject (sm_put a (JObject (sm_put b v c)) m))"
      using ok(1) assms(1) unfolding assms(2) json_wf_object [of "sm_put a _ m"] json_wf_object [of m]
      by (auto simp del: json_wf.simps split: if_splits)
    then show ?thesis using assms(2,3) by (simp add: obj_get_def del: json_wf.simps)
  qed
qed

lemma checkpoint_name:
  assumes "json_wf root" and "str_of ops [''checkpointing'', ''method''] root = Inr ''gvt-synchronized''"
    and "setting [''checkpointing'', ''method''] root = Inr (JString ''gvt-synchronized'')"
    and "str_of ops [''checkpointing'', ''file''] root = Inr f" and "f \<noteq> []"
  shows "\<exists>root'. checkpoint_setting ops nv root = Inr (GVT_Synchronized_Checkpoint, root') \<and> json_wf root' \<and>
    setting [''checkpointing'', ''method''] root' = Inr (JString ''gvt-synchronized'') \<and>
    str_of ops [''checkpointing'', ''file''] root' = Inr (f @ ''.'' @ show_nat (nv_id nv))"
proof -
  obtain m c where m: "root = JObject m" "map_of m ''checkpointing'' = Some (JObject c)"
    using setting_two [OF assms(3)] by auto
  note S = setting_set_path [OF assms(1) m, where b = "''file''" and v = "JString (f @ ''.'' @ show_nat (nv_id nv))"]
  let ?root' = "set_path [''checkpointing'', ''file''] (JString (f @ ''.'' @ show_nat (nv_id nv))) root"
  have "checkpoint_setting ops nv root = Inr (GVT_Synchronized_Checkpoint, ?root')"
    using assms(2,4,5) by (simp only: checkpoint_setting_def bindR.simps) simp
  moreover have "str_of ops [''checkpointing'', ''file''] ?root' = Inr (f @ ''.'' @ show_nat (nv_id nv))"
    unfolding str_of_def S(1) by simp
  moreover have "setting [''checkpointing'', ''method''] ?root' = Inr (JString ''gvt-synchronized'')"
    unfolding S(1) using assms(3) by simp
  moreover have "json_wf ?root'" using S(2) by simp
  ultimately show ?thesis by blast
qed

text \<open>The checkpoints of a node that was restarted do not go to the file they came from. Making the dispatcher
  appends the number of the node to the file name in the settings; the settings are saved in the checkpoint and, after a
  restart, are used to make the dispatcher again, which appends the number once more.\<close>

theorem checkpoint_file_renamed:
  assumes "json_wf root" and "setting [''checkpointing'', ''method''] root = Inr (JString ''gvt-synchronized'')"
    and "setting [''checkpointing'', ''file''] root = Inr (JString f)" and "f \<noteq> []"
  shows "\<exists>root1 root2. checkpoint_setting ops nv root = Inr (GVT_Synchronized_Checkpoint, root1) \<and>
    str_of ops [''checkpointing'', ''file''] root1 = Inr (f @ ''.'' @ show_nat (nv_id nv)) \<and>
    checkpoint_setting ops nv root1 = Inr (GVT_Synchronized_Checkpoint, root2) \<and>
    str_of ops [''checkpointing'', ''file''] root2 = Inr (f @ ''.'' @ show_nat (nv_id nv) @ ''.'' @ show_nat (nv_id nv))"
proof -
  have name: "str_of ops [''checkpointing'', ''method''] r = Inr ''gvt-synchronized''"
    if "setting [''checkpointing'', ''method''] r = Inr (JString ''gvt-synchronized'')" for r
    unfolding str_of_def that by simp
  have "str_of ops [''checkpointing'', ''file''] root = Inr f" unfolding str_of_def assms(3) by simp
  from checkpoint_name [OF assms(1) name [OF assms(2)] assms(2) this assms(4), of nv] obtain root1 where
    1: "checkpoint_setting ops nv root = Inr (GVT_Synchronized_Checkpoint, root1)" "json_wf root1"
      "setting [''checkpointing'', ''method''] root1 = Inr (JString ''gvt-synchronized'')"
      "str_of ops [''checkpointing'', ''file''] root1 = Inr (f @ ''.'' @ show_nat (nv_id nv))" by blast
  from checkpoint_name [OF 1(2) name [OF 1(3)] 1(3,4), of nv] assms(4) obtain root2 where
    "checkpoint_setting ops nv root1 = Inr (GVT_Synchronized_Checkpoint, root2)"
    "str_of ops [''checkpointing'', ''file''] root2 = Inr ((f @ ''.'' @ show_nat (nv_id nv)) @ ''.'' @ show_nat (nv_id nv))"
    by auto
  with 1(1,4) show ?thesis by (intro exI conjI) (assumption, assumption, assumption, simp)
qed

theorem checkpoint_file_renamed_witness:
  "\<exists>root1 root2. checkpoint_setting int_ops (sample_view 1) (JObject [(''checkpointing'',
       JObject [(''file'', JString ''f''), (''method'', JString ''gvt-synchronized'')])]) =
       Inr (GVT_Synchronized_Checkpoint, root1) \<and>
     checkpoint_setting int_ops (sample_view 1) root1 = Inr (GVT_Synchronized_Checkpoint, root2) \<and>
     str_of int_ops [''checkpointing'', ''file''] root2 = Inr ''f.1.1''"
proof -
  let ?root = "JObject [(''checkpointing'', JObject [(''file'', JString ''f''), (''method'', JString ''gvt-synchronized'')])] :: int json"
  have "json_wf ?root" "setting [''checkpointing'', ''method''] ?root = Inr (JString ''gvt-synchronized'')"
    "setting [''checkpointing'', ''file''] ?root = Inr (JString ''f'')" by (simp_all add: sm_ok_def obj_get_def)
  note r = checkpoint_file_renamed [OF this, of int_ops "sample_view 1"]
  have "show_nat 1 = ''1''" by code_simp
  then show ?thesis using r by (auto simp: sample_view_def)
qed

section \<open>The constructor that takes a file\<close>

text \<open>A configuration made by the constructor that takes a file and an end time never gives a dispatcher: the
  settings it would merge the file into, or read, are a null pointer.\<close>

theorem file_constructor_unusable:
  "bindR (config_from_file files parse f t) (makeDispatcher ops nv) =
     (if f = [] then Inl Null_Deref else bindR (parseJsonFile files parse f) (\<lambda>_. Inl Null_Deref))"
  by (cases "parseJsonFile files parse f") (simp_all add: config_from_file_def readUserConfig_def makeDispatcher_def)

section \<open>Dividing the LPs\<close>

lemma adjacent_equal_sorted: "sorted xs \<Longrightarrow> adjacent_equal xs \<longleftrightarrow> \<not> distinct xs"
proof (induction xs rule: adjacent_equal.induct)
  case (1 x y xs)
  then show ?case by (cases "x = y") (auto dest: order_antisym)
qed simp_all

lemma sim_check_sorted: "sorted names \<Longrightarrow> sim_check names = Inr () \<longleftrightarrow> distinct names"
  by (simp add: sim_check_def adjacent_equal_sorted)

lemma sim_check_misses: "sim_check [''a'', ''b'', ''a''] = Inr ()"
  by (simp add: sim_check_def)

lemma run_partitioner_exact:
  assumes "run_partitioner metis order files user p lps np = Inr parts" and "distinct lps" and "0 < np"
    and "\<forall>xs. mset (order xs) = mset xs" and "\<forall>u. p \<noteq> User_Partitioner u"
  shows "length parts = np \<and> mset (concat parts) = mset lps"
proof (cases p)
  case (Round_Robin b)
  then obtain bs where "rr_partition (nat b) lps np = Inr (parts, bs)"
    using assms(1) by (auto simp: run_partitioner_def)
  then show ?thesis using round_robin_partition [of lps np "nat b"] assms(3) by (auto split: if_splits)
next
  case (Profile_Guided f g)
  then obtain ps where ps: "pg_partition metis order lps np (files f) = Inr ps" "parts = map (map (\<lambda>i. lps ! i)) ps"
    using assms(1) by (auto simp: run_partitioner_def)
  from profile_guided_partition [OF assms(2,3,4) ps(1)] have "length ps = np" "mset (concat ps) = mset [0..<length lps]" by auto
  moreover from this(2) have "mset (map (\<lambda>i. lps ! i) (concat ps)) = mset (map (\<lambda>i. lps ! i) [0..<length lps])"
    by (simp add: mset_map)
  ultimately show ?thesis using ps(2) by (simp add: map_concat map_nth)
qed (use assms(5) in simp)

lemma makePartitioner_not_user: "makePartitioner ops root = Inr p \<Longrightarrow> p \<noteq> User_Partitioner u"
  by (auto simp: makePartitioner_def split: if_splits)

lemma makeLocalPartitioner_not_user:
  assumes "makeLocalPartitioner ops node np root = Inr (p, k)"
  shows "p \<noteq> User_Partitioner u"
  using assms makePartitioner_not_user [of ops root p u] by (auto simp: makeLocalPartitioner_def split: if_splits)

lemma mset_concat_concat: "mset (concat (map (\<lambda>i. concat (f i)) is)) = (\<Sum>i\<leftarrow>is. mset (concat (f i)))"
  by (induction "is") simp_all

lemma mset_concat_nth:
  assumes "\<forall>i < n. mset (concat (f i)) = mset (xss ! i)" and "length xss = n"
  shows "mset (concat (map (\<lambda>i. concat (f i)) [0..<n])) = mset (concat xss)"
proof -
  have "(\<Sum>i\<leftarrow>[0..<n]. mset (concat (f i))) = (\<Sum>i\<leftarrow>[0..<n]. mset (xss ! i))"
    using assms(1) by (intro arg_cong [where f = sum_list] map_cong) simp_all
  moreover have "mset (concat xss) = (\<Sum>i\<leftarrow>[0..<n]. mset (xss ! i))"
  proof -
    have "map (\<lambda>i. mset (xss ! i)) [0..<n] = map mset xss" unfolding assms(2) [symmetric]
      by (rule nth_equalityI) simp_all
    then show ?thesis by (simp add: mset_concat)
  qed
  ultimately show ?thesis unfolding mset_concat_concat by simp
qed

text \<open>C38: When every node divides the same LPs, with names that differ, by the same configuration, then every LP
  is on exactly one scheduler of exactly one node, and every node has the configured number of schedulers. This is
  so for the round robin and the profile guided partitioner, whatever METIS answers.\<close>

theorem every_lp_on_one_scheduler:
  assumes "distinct lps" and "0 < n" and "\<forall>xs. mset (order xs) = mset xs"
    and "uint_of ops [''time-warp'', ''scheduler-count''] root = Inr k" and "0 < k"
    and "\<forall>node < n. sim_partition ops (run_partitioner metis order files user) root node n lps = Inr (P node)"
  shows "mset (concat (map (\<lambda>node. concat (P node)) [0..<n])) = mset lps \<and> list_all (\<lambda>node. length (P node) = nat k) [0..<n]"
proof -
  let ?run = "run_partitioner metis order files user"
  from assms(2,6) have "sim_partition ops ?run root 0 n lps = Inr (P 0)" by simp
  then obtain p parts where p: "makePartitioner ops root = Inr p" "?run p lps n = Inr parts"
    by (auto simp: sim_partition_def)
  from run_partitioner_exact [OF p(2) assms(1,2,3)] makePartitioner_not_user [OF p(1)]
  have parts: "length parts = n" "mset (concat parts) = mset lps" by auto
  have local: "length (P node) = nat k \<and> mset (concat (P node)) = mset (parts ! node)" if node: "node < n" for node
  proof -
    from assms(6) node p obtain q m where q: "makeLocalPartitioner ops node n root = Inr (q, m)"
      "?run q (parts ! node) m = Inr (P node)"
      by (fastforce simp: sim_partition_def split: if_splits)
    have m: "m = nat k" using q(1) assms(4) by (auto simp: makeLocalPartitioner_def)
    have "\<forall>u. q \<noteq> User_Partitioner u" using makeLocalPartitioner_not_user [OF q(1)] by blast
    moreover have "distinct (parts ! node)" using assms(1) parts node
      by (metis distinct_concat_iff mset_eq_imp_distinct_iff nth_mem)
    ultimately show ?thesis using run_partitioner_exact [OF q(2)] assms(3,5) m by simp
  qed
  from mset_concat_nth [of n P parts] local parts show ?thesis by (auto simp: list_all_iff)
qed

theorem every_lp_on_one_scheduler_witness:
  "\<exists>P. mset (concat (map (\<lambda>node. concat (P node)) [0..<2])) = {#''a'', ''b'', ''c''#} \<and>
     map (\<lambda>node. Inr (P node)) [0, 1] = map (\<lambda>node. sim_partition int_ops (run_partitioner (\<lambda>_ _ _ _ _. []) id (\<lambda>f. None)
       (\<lambda>(u :: unit) _ _. Inr [])) (JObject default_config) node 2 [''a'', ''b'', ''c'']) [0, 1]"
proof -
  let ?s = "\<lambda>node. sim_partition int_ops (run_partitioner (\<lambda>_ _ _ _ _. []) id (\<lambda>f. None)
       (\<lambda>(u :: unit) _ _. Inr [])) (JObject default_config) node 2 [''a'', ''b'', ''c'']"
  define P where "P = (\<lambda>node :: nat. if node = 0 then [[''a'', ''c'']] else [[''b'']])"
  have "?s 0 = Inr (P 0)" "?s 1 = Inr (P 1)" unfolding P_def by code_simp+
  then have s: "\<forall>node < 2. ?s node = Inr (P node)" by (auto simp: less_2_cases_iff)
  have k: "uint_of int_ops [''time-warp'', ''scheduler-count''] (JObject default_config) = Inr 1" by code_simp
  have d: "distinct [''a'', ''b'', ''c'']" "(0 :: nat) < 2" "\<forall>xs :: nat list. mset (id xs) = mset xs" "(0 :: int) < 1"
    by simp_all
  from every_lp_on_one_scheduler [OF d(1-3) k d(4) s] s show ?thesis by (intro exI [of _ P]) (simp add: add_mset_commute)
qed

end
