(* ===== verification/SplayTree.thy ===== *)
theory SplayTree
  imports Warped_Event
begin

text \<open>
  The splay tree of \<open>src/src/SplayTree.*\<close>, a third kind of schedule queue. The nodes are linked by shared pointers to
  children and parents, and are modelled as a store from addresses to nodes; \<open>nullptr\<close> is \<open>None\<close>. The loops that
  follow pointers are partial functions: the result \<open>None\<close> means that the operation does not return. Events are
  compared by their addresses, since the code compares the shared pointers.
\<close>

section \<open>Nodes and results\<close>

record tree_node =
  left_node :: "nat option"
  right_node :: "nat option"
  parent_node :: "nat option"
  node_data :: "event option"

record splay_tree =
  nodes :: "nat \<rightharpoonup> tree_node"
  next_node :: nat
  st_root :: "nat option"
  st_current :: "nat option"
  num_nodes :: u32

text \<open>A result that is \<open>None\<close> when the operation does not return.\<close>

type_synonym 'a run = "'a res option"

fun bindN :: "'a run \<Rightarrow> ('a \<Rightarrow> 'b run) \<Rightarrow> 'b run" where
  "bindN None k = None"
| "bindN (Some (Inl f)) k = Some (Inl f)"
| "bindN (Some (Inr x)) k = k x"

definition splay_new :: splay_tree where
  "splay_new = \<lparr>nodes = Map.empty, next_node = 0, st_root = None, st_current = None, num_nodes = 0\<rparr>"

text \<open>The address of the event a shared pointer points to, the null pointer being 0.\<close>

definition event_address :: "event option \<Rightarrow> nat" where
  "event_address e = (case e of Some ev \<Rightarrow> ev_ptr ev | None \<Rightarrow> 0)"

definition deref :: "splay_tree \<Rightarrow> nat option \<Rightarrow> tree_node res" where
  "deref t p = (case p of None \<Rightarrow> Inl Null_Deref | Some a \<Rightarrow> (case nodes t a of Some n \<Rightarrow> Inr n | None \<Rightarrow> Inl Null_Deref))"

definition set_left :: "nat \<Rightarrow> nat option \<Rightarrow> splay_tree \<Rightarrow> splay_tree" where
  "set_left a v t = t\<lparr>nodes := (nodes t)(a := map_option (\<lambda>n. n\<lparr>left_node := v\<rparr>) (nodes t a))\<rparr>"

definition set_right :: "nat \<Rightarrow> nat option \<Rightarrow> splay_tree \<Rightarrow> splay_tree" where
  "set_right a v t = t\<lparr>nodes := (nodes t)(a := map_option (\<lambda>n. n\<lparr>right_node := v\<rparr>) (nodes t a))\<rparr>"

definition set_parent :: "nat \<Rightarrow> nat option \<Rightarrow> splay_tree \<Rightarrow> splay_tree" where
  "set_parent a v t = t\<lparr>nodes := (nodes t)(a := map_option (\<lambda>n. n\<lparr>parent_node := v\<rparr>) (nodes t a))\<rparr>"

section \<open>Rotations\<close>

definition hang_below :: "nat \<Rightarrow> nat \<Rightarrow> nat option \<Rightarrow> splay_tree \<Rightarrow> splay_tree res" where
  "hang_below node child parent t =
     (if st_root t = Some node then Inr (set_parent child None (t\<lparr>st_root := Some child\<rparr>))
      else let t' = set_parent child parent t in
        case parent of
          None \<Rightarrow> Inl Null_Deref
        | Some p \<Rightarrow> bindR (deref t' (Some p)) (\<lambda>pn.
            Inr (if left_node pn = Some node then set_left p (Some child) t' else set_right p (Some child) t')))"

definition rotateLeft :: "nat option \<Rightarrow> splay_tree \<Rightarrow> (nat option \<times> splay_tree) res" where
  "rotateLeft node t =
     (case node of
        None \<Rightarrow> Inr (None, t)
      | Some a \<Rightarrow> bindR (deref t (Some a)) (\<lambda>n.
          case right_node n of
            None \<Rightarrow> Inr (Some a, t)
          | Some b \<Rightarrow> bindR (deref t (Some b)) (\<lambda>nb.
              let left = left_node nb; parent = parent_node n;
                  t1 = set_right a left (set_left b (Some a) (set_parent a (Some b) t));
                  t2 = (case left of Some c \<Rightarrow> set_parent c (Some a) t1 | None \<Rightarrow> t1)
              in bindR (hang_below a b parent t2) (\<lambda>t3. Inr (Some b, t3)))))"

definition rotateRight :: "nat option \<Rightarrow> splay_tree \<Rightarrow> (nat option \<times> splay_tree) res" where
  "rotateRight node t =
     (case node of
        None \<Rightarrow> Inr (None, t)
      | Some a \<Rightarrow> bindR (deref t (Some a)) (\<lambda>n.
          case left_node n of
            None \<Rightarrow> Inr (Some a, t)
          | Some b \<Rightarrow> bindR (deref t (Some b)) (\<lambda>nb.
              let right = right_node nb; parent = parent_node n;
                  t1 = set_left a right (set_right b (Some a) (set_parent a (Some b) t));
                  t2 = (case right of Some c \<Rightarrow> set_parent c (Some a) t1 | None \<Rightarrow> t1)
              in bindR (hang_below a b parent t2) (\<lambda>t3. Inr (Some b, t3)))))"

abbreviation turn_left :: "nat option \<Rightarrow> splay_tree \<Rightarrow> splay_tree res" where
  "turn_left node t \<equiv> bindR (rotateLeft node t) (\<lambda>(_, t'). Inr t')"

abbreviation turn_right :: "nat option \<Rightarrow> splay_tree \<Rightarrow> splay_tree res" where
  "turn_right node t \<equiv> bindR (rotateRight node t) (\<lambda>(_, t'). Inr t')"

section \<open>Splaying\<close>

text \<open>One round of the loop; the boolean is the \<open>break\<close>.\<close>

definition splay_step :: "nat \<Rightarrow> splay_tree \<Rightarrow> (bool \<times> splay_tree) res" where
  "splay_step node t =
     bindR (deref t (Some node)) (\<lambda>n.
     let parent = parent_node n in
     bindR (deref t parent) (\<lambda>p.
     if parent = st_root t then
       bindR (if left_node p = Some node then turn_right parent t else turn_left parent t) (\<lambda>t'. Inr (True, t'))
     else
       let parent_flag = (left_node p \<noteq> Some node); grand_parent = parent_node p in
       bindR (deref t grand_parent) (\<lambda>g.
       let grandpa_flag = (left_node g \<noteq> parent) in
       bindR
         (if parent_flag \<noteq> grandpa_flag then
            (if \<not> parent_flag then bindR (turn_right parent t) (turn_left grand_parent)
             else bindR (turn_left parent t) (turn_right grand_parent))
          else
            (if \<not> parent_flag then bindR (turn_right grand_parent t) (turn_right parent)
             else bindR (turn_left grand_parent t) (turn_left parent)))
         (\<lambda>t'. Inr (False, t')))))"

fun splay_loop :: "nat \<Rightarrow> nat \<Rightarrow> splay_tree \<Rightarrow> splay_tree res" where
  "splay_loop rounds node t =
     (if st_root t = Some node then Inr t
      else bindR (splay_step node t) (\<lambda>(brk, t').
        if brk then Inr t'
        else case rounds of 0 \<Rightarrow> Inr t' | Suc rounds' \<Rightarrow> splay_loop rounds' node t'))"

definition splay :: "nat \<Rightarrow> splay_tree \<Rightarrow> splay_tree res" where
  "splay node t = splay_loop (unat (num_nodes t div 2)) node t"

section \<open>Operations\<close>

partial_function (option) leftmost :: "splay_tree \<Rightarrow> nat \<Rightarrow> nat run" where
  "leftmost t a =
     (case nodes t a of
        None \<Rightarrow> Some (Inl Null_Deref)
      | Some n \<Rightarrow> (case left_node n of None \<Rightarrow> Some (Inr a) | Some l \<Rightarrow> leftmost t l))"

partial_function (option) rightmost :: "splay_tree \<Rightarrow> nat \<Rightarrow> nat run" where
  "rightmost t a =
     (case nodes t a of
        None \<Rightarrow> Some (Inl Null_Deref)
      | Some n \<Rightarrow> (case right_node n of None \<Rightarrow> Some (Inr a) | Some r \<Rightarrow> rightmost t r))"

partial_function (option) find_node :: "splay_tree \<Rightarrow> event option \<Rightarrow> nat option \<Rightarrow> nat option run" where
  "find_node t event p =
     (case p of
        None \<Rightarrow> Some (Inr None)
      | Some a \<Rightarrow> (case nodes t a of
            None \<Rightarrow> Some (Inl Null_Deref)
          | Some n \<Rightarrow>
              if event_address event < event_address (node_data n) then find_node t event (left_node n)
              else if event_address event = event_address (node_data n) then Some (Inr (Some a))
              else find_node t event (right_node n)))"

text \<open>The place for a new node: its parent, and whether it becomes the left child.\<close>

partial_function (option) find_place :: "splay_tree \<Rightarrow> event option \<Rightarrow> nat \<Rightarrow> (nat \<times> bool) run" where
  "find_place t event a =
     (case nodes t a of
        None \<Rightarrow> Some (Inl Null_Deref)
      | Some n \<Rightarrow>
          if event_address event \<le> event_address (node_data n) then
            (case left_node n of Some l \<Rightarrow> find_place t event l | None \<Rightarrow> Some (Inr (a, True)))
          else
            (case right_node n of Some r \<Rightarrow> find_place t event r | None \<Rightarrow> Some (Inr (a, False))))"

definition sp_begin :: "splay_tree \<Rightarrow> (event option \<times> splay_tree) run" where
  "sp_begin t =
     (case st_root t of
        Some r \<Rightarrow>
          if num_nodes t = 0 then Some (Inr (None, t\<lparr>st_root := None, st_current := None, num_nodes := 0\<rparr>))
          else bindN (case st_current t of
              Some c \<Rightarrow> Some (Inr t)
            | None \<Rightarrow> bindN (leftmost t r) (\<lambda>node. Some (Inr (t\<lparr>st_current := Some node\<rparr>)))) (\<lambda>t'.
            bindN (Some (deref t' (st_current t'))) (\<lambda>n. Some (Inr (node_data n, t'))))
      | None \<Rightarrow> Some (Inr (None, t\<lparr>st_root := None, st_current := None, num_nodes := 0\<rparr>)))"

text \<open>The root is taken out of the tree.\<close>

definition join_children :: "splay_tree \<Rightarrow> splay_tree run" where
  "join_children t =
     bindN (Some (deref t (st_root t))) (\<lambda>n.
     case left_node n of
       Some left \<Rightarrow>
         let t1 = set_parent left None (t\<lparr>st_root := Some left\<rparr>) in
         (case right_node n of
            Some right \<Rightarrow> bindN (rightmost t1 left) (\<lambda>l.
              Some (Inr (set_parent right (Some l) (set_right l (Some right) t1))))
          | None \<Rightarrow> Some (Inr t1))
     | None \<Rightarrow>
         (case right_node n of
            Some right \<Rightarrow> Some (Inr (set_parent right None (t\<lparr>st_root := Some right\<rparr>)))
          | None \<Rightarrow> Some (Inr (t\<lparr>st_root := None\<rparr>))))"

definition reset_current :: "splay_tree \<Rightarrow> splay_tree run" where
  "reset_current t =
     (case st_root t of
        None \<Rightarrow> Some (Inr t)
      | Some r \<Rightarrow> bindN (leftmost t r) (\<lambda>node. Some (Inr (t\<lparr>st_current := Some node\<rparr>))))"

definition sp_erase :: "event option \<Rightarrow> splay_tree \<Rightarrow> (bool \<times> splay_tree) run" where
  "sp_erase event t =
     bindN (Some (assertR (event \<noteq> None))) (\<lambda>_.
     bindN (Some (assertR (st_root t \<noteq> None))) (\<lambda>_.
     case st_current t of
       None \<Rightarrow> bindN (reset_current t) (\<lambda>t'. Some (Inr (False, t')))
     | Some c \<Rightarrow>
         bindN (Some (deref t (Some c))) (\<lambda>cn.
         bindN (find_node t event
                  (if event_address event \<le> event_address (node_data cn) then Some c else st_root t)) (\<lambda>found.
         case found of
           None \<Rightarrow> Some (Inr (False, t))
         | Some node \<Rightarrow>
             bindN (if st_root t = Some node then Some (Inr t)
                    else bindN (Some (splay node t)) (\<lambda>t'.
                      bindN (Some (assertR (st_root t' = Some node))) (\<lambda>_. Some (Inr t')))) (\<lambda>t1.
             bindN (join_children (t1\<lparr>num_nodes := num_nodes t1 - 1\<rparr>)) (\<lambda>t2.
             bindN (reset_current t2) (\<lambda>t3. Some (Inr (True, t3)))))))))"

text \<open>\<open>std::make_shared<Node>(event)\<close>.\<close>

definition new_node :: "event option \<Rightarrow> splay_tree \<Rightarrow> nat \<times> splay_tree" where
  "new_node event t = (next_node t,
     t\<lparr>nodes := (nodes t)(next_node t \<mapsto> \<lparr>left_node = None, right_node = None, parent_node = None, node_data = event\<rparr>),
       next_node := next_node t + 1\<rparr>)"

definition sp_insert :: "event option \<Rightarrow> splay_tree \<Rightarrow> splay_tree run" where
  "sp_insert event t0 =
     bindN (Some (assertR (event \<noteq> None))) (\<lambda>_.
     let (a, t1) = new_node event t0; t = t1\<lparr>num_nodes := num_nodes t1 + 1\<rparr> in
     case st_root t of
       None \<Rightarrow> Some (Inr (t\<lparr>st_root := Some a, st_current := Some a\<rparr>))
     | Some r \<Rightarrow>
         bindN (Some (assertR (st_current t \<noteq> None))) (\<lambda>_.
         bindN (Some (deref t (st_current t))) (\<lambda>cn.
         bindN (if node_data cn = None then reset_current t else Some (Inr t)) (\<lambda>t'.
         case st_current t' of
           None \<Rightarrow> Some (Inl Null_Deref)
         | Some c \<Rightarrow>
             bindN (Some (deref t' (Some c))) (\<lambda>cn'.
             if event_address event \<le> event_address (node_data cn') then
               Some (splay a ((set_parent a (Some c) (set_left c (Some a) t'))\<lparr>st_current := Some a\<rparr>))
             else
               bindN (find_place t' event r) (\<lambda>(node, is_left).
               Some (splay a (set_parent a (Some node)
                 (if is_left then set_left node (Some a) t' else set_right node (Some a) t')))))))))"

end
