(* ===== verification/SplayTree_Store.thy ===== *)
theory SplayTree_Store
  imports SplayTree "HOL-Library.Tree"
begin

text \<open>
  The nodes of the splay tree as a binary tree: \<open>store_tree st t\<close> says that the store \<open>st\<close> holds exactly the tree
  \<open>t\<close>, whose labels are the addresses of the nodes and their data. A place in a tree is a list of frames, from the
  place up to the root. The rotations and \<open>splay\<close> are shown to be the functions one expects on such places.
\<close>

section \<open>Trees in the store\<close>

type_synonym label = "nat \<times> event option"
type_synonym ptree = "label tree"

fun root_of :: "ptree \<Rightarrow> nat option" where
  "root_of \<langle>\<rangle> = None"
| "root_of \<langle>l, x, r\<rangle> = Some (fst x)"

fun repr :: "(nat \<rightharpoonup> tree_node) \<Rightarrow> nat option \<Rightarrow> ptree \<Rightarrow> bool" where
  "repr h p \<langle>\<rangle> = True"
| "repr h p \<langle>l, x, r\<rangle> =
     (h (fst x) = Some \<lparr>left_node = root_of l, right_node = root_of r, parent_node = p, node_data = snd x\<rparr> \<and>
      repr h (Some (fst x)) l \<and> repr h (Some (fst x)) r)"

definition addrs :: "ptree \<Rightarrow> nat list" where
  "addrs t = map fst (inorder t)"

lemma addrs_simps [simp]:
  "addrs \<langle>\<rangle> = []"
  "addrs \<langle>l, x, r\<rangle> = addrs l @ fst x # addrs r"
  by (simp_all add: addrs_def)

lemma repr_frame [simp]: "a \<notin> set (addrs t) \<Longrightarrow> repr (h(a := v)) p t = repr h p t"
  by (induction t arbitrary: p) auto

lemma root_of_in: "root_of t = Some a \<Longrightarrow> a \<in> set (addrs t)"
  by (cases t) auto

section \<open>Places\<close>

datatype frame = In_Left label ptree | In_Right ptree label

fun plug :: "frame list \<Rightarrow> ptree \<Rightarrow> ptree" where
  "plug [] t = t"
| "plug (In_Left x r # C) t = plug C \<langle>t, x, r\<rangle>"
| "plug (In_Right l x # C) t = plug C \<langle>l, x, t\<rangle>"

fun frame_label :: "frame \<Rightarrow> label" where
  "frame_label (In_Left x r) = x"
| "frame_label (In_Right l x) = x"

fun par_of :: "frame list \<Rightarrow> nat option" where
  "par_of [] = None"
| "par_of (F # C) = Some (fst (frame_label F))"

fun ctx_addrs :: "frame list \<Rightarrow> nat list" where
  "ctx_addrs [] = []"
| "ctx_addrs (In_Left x r # C) = fst x # addrs r @ ctx_addrs C"
| "ctx_addrs (In_Right l x # C) = fst x # addrs l @ ctx_addrs C"

fun ctx_repr :: "(nat \<rightharpoonup> tree_node) \<Rightarrow> frame list \<Rightarrow> nat option \<Rightarrow> bool" where
  "ctx_repr h [] p = True"
| "ctx_repr h (In_Left x r # C) p =
     (h (fst x) = Some \<lparr>left_node = p, right_node = root_of r, parent_node = par_of C, node_data = snd x\<rparr> \<and>
      repr h (Some (fst x)) r \<and> ctx_repr h C (Some (fst x)))"
| "ctx_repr h (In_Right l x # C) p =
     (h (fst x) = Some \<lparr>left_node = root_of l, right_node = p, parent_node = par_of C, node_data = snd x\<rparr> \<and>
      repr h (Some (fst x)) l \<and> ctx_repr h C (Some (fst x)))"

fun ctx_root :: "frame list \<Rightarrow> nat option \<Rightarrow> nat option" where
  "ctx_root [] p = p"
| "ctx_root (F # C) p = ctx_root C (Some (fst (frame_label F)))"

lemma frame_cases:
  obtains x r where "F = In_Left x r" | l x where "F = In_Right l x"
  by (cases F) auto

lemma repr_plug [simp]: "repr h None (plug C t) \<longleftrightarrow> ctx_repr h C (root_of t) \<and> repr h (par_of C) t"
  by (induction C t rule: plug.induct) auto

lemma ctx_frame [simp]: "a \<notin> set (ctx_addrs C) \<Longrightarrow> ctx_repr (h(a := v)) C p = ctx_repr h C p"
  by (induction C arbitrary: p rule: ctx_addrs.induct) auto

lemma root_plug [simp]: "root_of (plug C t) = ctx_root C (root_of t)"
  by (induction C t rule: plug.induct) auto

lemma ctx_root_in: "C \<noteq> [] \<Longrightarrow> \<exists>x \<in> set (ctx_addrs C). \<forall>p. ctx_root C p = Some x"
proof (induction C rule: ctx_addrs.induct)
  case (2 x r C)
  then show ?case by (cases "C = []") auto
next
  case (3 l x C)
  then show ?case by (cases "C = []") auto
qed simp

lemma ctx_root_eq: "ctx_root C p = Some a \<Longrightarrow> a \<notin> set (ctx_addrs C) \<Longrightarrow> C = [] \<and> p = Some a"
  using ctx_root_in [of C] by (cases "C = []") auto

lemma mset_addrs_plug: "mset (addrs (plug C t)) = mset (ctx_addrs C @ addrs t)"
  by (induction C t rule: plug.induct) auto

lemma distinct_plug [simp]: "distinct (addrs (plug C t)) \<longleftrightarrow> distinct (ctx_addrs C @ addrs t)"
  by (rule mset_eq_imp_distinct_iff [OF mset_addrs_plug])

lemma set_addrs_plug [simp]: "set (addrs (plug C t)) = set (ctx_addrs C) \<union> set (addrs t)"
  using arg_cong [OF mset_addrs_plug, of set_mset] by simp

text \<open>The labels before and after a place, in order.\<close>

fun ctx_left :: "frame list \<Rightarrow> label list" where
  "ctx_left [] = []"
| "ctx_left (In_Left x r # C) = ctx_left C"
| "ctx_left (In_Right l x # C) = ctx_left C @ inorder l @ [x]"

fun ctx_right :: "frame list \<Rightarrow> label list" where
  "ctx_right [] = []"
| "ctx_right (In_Left x r # C) = x # inorder r @ ctx_right C"
| "ctx_right (In_Right l x # C) = ctx_right C"

lemma inorder_plug [simp]: "inorder (plug C t) = ctx_left C @ inorder t @ ctx_right C"
  by (induction C t rule: plug.induct) auto

lemma plug_append: "plug (C @ D) t = plug D (plug C t)"
  by (induction C t rule: plug.induct) auto

text \<open>Every node of a tree is at a place.\<close>

lemma place_exists: "a \<in> set (addrs t) \<Longrightarrow> \<exists>C l d r. t = plug C \<langle>l, (a, d), r\<rangle>"
proof (induction t)
  case (Node l x r)
  consider "a = fst x" | "a \<in> set (addrs l)" | "a \<in> set (addrs r)" using Node.prems by auto
  then show ?case
  proof cases
    case 1
    then show ?thesis by (intro exI [of _ "[]"]) (simp add: prod_eq_iff)
  next
    case 2
    then obtain C l' d r' where "l = plug C \<langle>l', (a, d), r'\<rangle>" using Node.IH by blast
    then have "\<langle>l, x, r\<rangle> = plug (C @ [In_Left x r]) \<langle>l', (a, d), r'\<rangle>" by (simp add: plug_append)
    then show ?thesis by blast
  next
    case 3
    then obtain C l' d r' where "r = plug C \<langle>l', (a, d), r'\<rangle>" using Node.IH by blast
    then have "\<langle>l, x, r\<rangle> = plug (C @ [In_Right l x]) \<langle>l', (a, d), r'\<rangle>" by (simp add: plug_append)
    then show ?thesis by blast
  qed
qed simp

lemma length_place: "length C \<le> size (plug C t)"
proof -
  have "length C + size t \<le> size (plug C t)" by (induction C t rule: plug.induct) auto
  then show ?thesis by simp
qed

section \<open>The abstraction\<close>

definition store_tree :: "splay_tree \<Rightarrow> ptree \<Rightarrow> bool" where
  "store_tree st t \<longleftrightarrow> st_root st = root_of t \<and> repr (nodes st) None t \<and> distinct (addrs t) \<and>
     (\<forall>a \<in> set (addrs t). a < next_node st)"

text \<open>Two states that differ only in the links and the root.\<close>

definition same_rest :: "splay_tree \<Rightarrow> splay_tree \<Rightarrow> bool" where
  "same_rest st st' \<longleftrightarrow> st_current st' = st_current st \<and> num_nodes st' = num_nodes st \<and> next_node st' = next_node st"

lemma same_rest_refl [simp]: "same_rest st st"
  by (simp add: same_rest_def)

lemma same_rest_trans: "same_rest a b \<Longrightarrow> same_rest b c \<Longrightarrow> same_rest a c"
  by (simp add: same_rest_def)

lemmas link_defs = set_left_def set_right_def set_parent_def deref_def

section \<open>Rotations\<close>

lemma rotateRight_place:
  assumes "store_tree st (plug C \<langle>\<langle>ll, y, lr\<rangle>, x, r\<rangle>)"
  shows "\<exists>st'. rotateRight (Some (fst x)) st = Inr (Some (fst y), st') \<and>
    store_tree st' (plug C \<langle>ll, y, \<langle>lr, x, r\<rangle>\<rangle>) \<and> same_rest st st'"
proof (cases C)
  case Nil
  with assms show ?thesis
    by (cases lr) (auto simp: store_tree_def same_rest_def rotateRight_def hang_below_def link_defs Let_def)
next
  case (Cons F D)
  have root: "st_root st \<noteq> Some (fst x)"
    using assms Cons ctx_root_eq [of C "Some (fst x)" "fst x"] by (auto simp: store_tree_def)
  show ?thesis
  proof (cases F)
    case (In_Left p s)
    with assms Cons root show ?thesis
      by (cases lr) (auto simp: store_tree_def same_rest_def rotateRight_def hang_below_def link_defs Let_def)
  next
    case (In_Right s p)
    have "root_of s \<noteq> Some (fst x)"
      using assms Cons In_Right root_of_in [of s "fst x"] by (auto simp: store_tree_def)
    with assms Cons root In_Right show ?thesis
      by (cases lr) (auto simp: store_tree_def same_rest_def rotateRight_def hang_below_def link_defs Let_def)
  qed
qed

lemma rotateLeft_place:
  assumes "store_tree st (plug C \<langle>l, x, \<langle>rl, y, rr\<rangle>\<rangle>)"
  shows "\<exists>st'. rotateLeft (Some (fst x)) st = Inr (Some (fst y), st') \<and>
    store_tree st' (plug C \<langle>\<langle>l, x, rl\<rangle>, y, rr\<rangle>) \<and> same_rest st st'"
proof (cases C)
  case Nil
  with assms show ?thesis
    by (cases rl) (auto simp: store_tree_def same_rest_def rotateLeft_def hang_below_def link_defs Let_def)
next
  case (Cons F D)
  have root: "st_root st \<noteq> Some (fst x)"
    using assms Cons ctx_root_eq [of C "Some (fst x)" "fst x"] by (auto simp: store_tree_def)
  show ?thesis
  proof (cases F)
    case (In_Left p s)
    with assms Cons root show ?thesis
      by (cases rl) (auto simp: store_tree_def same_rest_def rotateLeft_def hang_below_def link_defs Let_def)
  next
    case (In_Right s p)
    have "root_of s \<noteq> Some (fst x)"
      using assms Cons In_Right root_of_in [of s "fst x"] by (auto simp: store_tree_def)
    with assms Cons root In_Right show ?thesis
      by (cases rl) (auto simp: store_tree_def same_rest_def rotateLeft_def hang_below_def link_defs Let_def)
  qed
qed

lemma turn_right_place:
  assumes "store_tree st (plug C \<langle>\<langle>ll, y, lr\<rangle>, x, r\<rangle>)"
  shows "\<exists>st'. turn_right (Some (fst x)) st = Inr st' \<and> store_tree st' (plug C \<langle>ll, y, \<langle>lr, x, r\<rangle>\<rangle>) \<and> same_rest st st'"
  using rotateRight_place [OF assms] by auto

lemma turn_left_place:
  assumes "store_tree st (plug C \<langle>l, x, \<langle>rl, y, rr\<rangle>\<rangle>)"
  shows "\<exists>st'. turn_left (Some (fst x)) st = Inr st' \<and> store_tree st' (plug C \<langle>\<langle>l, x, rl\<rangle>, y, rr\<rangle>) \<and> same_rest st st'"
  using rotateLeft_place [OF assms] by auto

section \<open>Splaying\<close>

text \<open>Two rotations, each at a place of the tree that the one before left.\<close>

lemma two_turns:
  assumes "\<exists>s1. f st = Inr s1 \<and> store_tree s1 t1 \<and> same_rest st s1"
    and "\<And>s1. store_tree s1 t1 \<Longrightarrow> \<exists>s2. g s1 = Inr s2 \<and> store_tree s2 t2 \<and> same_rest s1 s2"
  shows "\<exists>s2. bindR (f st) g = Inr s2 \<and> store_tree s2 t2 \<and> same_rest st s2"
  using assms by (metis bindR.simps(2) same_rest_trans)

lemma deref_frames:
  assumes "store_tree st (plug (F # C) \<langle>A, x, B\<rangle>)"
  shows "\<exists>n. deref st (Some (fst x)) = Inr n \<and> parent_node n = Some (fst (frame_label F))"
    and "\<exists>p. deref st (Some (fst (frame_label F))) = Inr p \<and> parent_node p = par_of C \<and>
      (left_node p = Some (fst x) \<longleftrightarrow> (case F of In_Left _ _ \<Rightarrow> True | In_Right _ _ \<Rightarrow> False))"
    and "st_root st = Some (fst (frame_label F)) \<longleftrightarrow> C = []"
proof -
  show "\<exists>n. deref st (Some (fst x)) = Inr n \<and> parent_node n = Some (fst (frame_label F))"
    using assms by (cases F) (auto simp: store_tree_def deref_def)
  show "\<exists>p. deref st (Some (fst (frame_label F))) = Inr p \<and> parent_node p = par_of C \<and>
      (left_node p = Some (fst x) \<longleftrightarrow> (case F of In_Left _ _ \<Rightarrow> True | In_Right _ _ \<Rightarrow> False))"
    using assms by (cases F) (auto simp: store_tree_def deref_def dest!: root_of_in)
  show "st_root st = Some (fst (frame_label F)) \<longleftrightarrow> C = []"
    using assms ctx_root_eq [of C _ "fst (frame_label F)"] by (cases F) (auto simp: store_tree_def)
qed

lemma splay_step_near:
  assumes "store_tree st (plug [F] \<langle>A, x, B\<rangle>)"
  shows "\<exists>A' B' st'. splay_step (fst x) st = Inr (True, st') \<and> store_tree st' \<langle>A', x, B'\<rangle> \<and> same_rest st st' \<and>
    inorder \<langle>A', x, B'\<rangle> = inorder (plug [F] \<langle>A, x, B\<rangle>)"
proof -
  note D = deref_frames [OF assms]
  obtain n p where n: "deref st (Some (fst x)) = Inr n" "parent_node n = Some (fst (frame_label F))"
    and p: "deref st (Some (fst (frame_label F))) = Inr p"
    "left_node p = Some (fst x) \<longleftrightarrow> (case F of In_Left _ _ \<Rightarrow> True | In_Right _ _ \<Rightarrow> False)"
    and r: "st_root st = Some (fst (frame_label F))"
    using D by auto
  show ?thesis
  proof (cases F)
    case (In_Left g s)
    then have "store_tree st (plug [] \<langle>\<langle>A, x, B\<rangle>, g, s\<rangle>)" using assms by simp
    from turn_right_place [OF this] obtain st' where
      "turn_right (Some (fst g)) st = Inr st'" "store_tree st' \<langle>A, x, \<langle>B, g, s\<rangle>\<rangle>" "same_rest st st'" by auto
    then show ?thesis using In_Left n p r
      by (intro exI [of _ A] exI [of _ "\<langle>B, g, s\<rangle>"] exI [of _ st']) (simp add: splay_step_def)
  next
    case (In_Right s g)
    then have "store_tree st (plug [] \<langle>s, g, \<langle>A, x, B\<rangle>\<rangle>)" using assms by simp
    from turn_left_place [OF this] obtain st' where
      "turn_left (Some (fst g)) st = Inr st'" "store_tree st' \<langle>\<langle>s, g, A\<rangle>, x, B\<rangle>" "same_rest st st'" by auto
    then show ?thesis using In_Right n p r
      by (intro exI [of _ "\<langle>s, g, A\<rangle>"] exI [of _ B] exI [of _ st']) (simp add: splay_step_def)
  qed
qed

text \<open>The code of a round with a grandparent, its reads done.\<close>

definition far_turns :: "frame \<Rightarrow> frame \<Rightarrow> splay_tree \<Rightarrow> splay_tree res" where
  "far_turns F G st =
     (let p = Some (fst (frame_label F)); g = Some (fst (frame_label G)) in
      case (F, G) of
        (In_Left _ _, In_Left _ _) \<Rightarrow> bindR (turn_right g st) (turn_right p)
      | (In_Left _ _, In_Right _ _) \<Rightarrow> bindR (turn_right p st) (turn_left g)
      | (In_Right _ _, In_Left _ _) \<Rightarrow> bindR (turn_left p st) (turn_right g)
      | (In_Right _ _, In_Right _ _) \<Rightarrow> bindR (turn_left g st) (turn_left p))"

lemma splay_step_far_turns:
  assumes "store_tree st (plug (F # G # C) \<langle>A, x, B\<rangle>)"
  shows "splay_step (fst x) st = bindR (far_turns F G st) (\<lambda>st'. Inr (False, st'))"
proof -
  define t where "t = (case F of In_Left p r \<Rightarrow> \<langle>\<langle>A, x, B\<rangle>, p, r\<rangle> | In_Right l p \<Rightarrow> \<langle>l, p, \<langle>A, x, B\<rangle>\<rangle>)"
  obtain A2 B2 where t: "t = \<langle>A2, frame_label F, B2\<rangle>" by (cases F) (auto simp: t_def)
  have G: "store_tree st (plug (G # C) \<langle>A2, frame_label F, B2\<rangle>)"
    using assms unfolding t [symmetric] t_def by (cases F) simp_all
  note D = deref_frames [OF assms] and E = deref_frames [OF G]
  show ?thesis using D E
    by (cases F; cases G) (auto simp: splay_step_def far_turns_def Let_def)
qed

lemma far_turns_place:
  assumes "store_tree st (plug (F # G # C) \<langle>A, x, B\<rangle>)"
  shows "\<exists>A' B' st'. far_turns F G st = Inr st' \<and> store_tree st' (plug C \<langle>A', x, B'\<rangle>) \<and> same_rest st st' \<and>
    inorder \<langle>A', x, B'\<rangle> = inorder (plug [F, G] \<langle>A, x, B\<rangle>)"
proof -
  have step: ?thesis if "\<exists>s2. far_turns F G st = Inr s2 \<and> store_tree s2 (plug C \<langle>A', x, B'\<rangle>) \<and> same_rest st s2"
    and "inorder \<langle>A', x, B'\<rangle> = inorder (plug [F, G] \<langle>A, x, B\<rangle>)" for A' B'
    using that by blast
  show ?thesis
  proof (cases F; cases G)
    fix p r g s assume FG: "F = In_Left p r" "G = In_Left g s"
    have "\<exists>s2. bindR (turn_right (Some (fst g)) st) (turn_right (Some (fst p))) = Inr s2 \<and>
        store_tree s2 (plug C \<langle>A, x, \<langle>B, p, \<langle>r, g, s\<rangle>\<rangle>\<rangle>) \<and> same_rest st s2"
      using assms FG by (intro two_turns [OF turn_right_place turn_right_place]) simp_all
    then show ?thesis using FG by (intro step [of A "\<langle>B, p, \<langle>r, g, s\<rangle>\<rangle>"]) (simp_all add: far_turns_def)
  next
    fix p r s g assume FG: "F = In_Left p r" "G = In_Right s g"
    have "\<exists>s2. bindR (turn_right (Some (fst p)) st) (turn_left (Some (fst g))) = Inr s2 \<and>
        store_tree s2 (plug C \<langle>\<langle>s, g, A\<rangle>, x, \<langle>B, p, r\<rangle>\<rangle>) \<and> same_rest st s2"
      using assms FG by (intro two_turns [OF turn_right_place [where C = "G # C"] turn_left_place]) simp_all
    then show ?thesis using FG by (intro step [of "\<langle>s, g, A\<rangle>" "\<langle>B, p, r\<rangle>"]) (simp_all add: far_turns_def)
  next
    fix l p g s assume FG: "F = In_Right l p" "G = In_Left g s"
    have "\<exists>s2. bindR (turn_left (Some (fst p)) st) (turn_right (Some (fst g))) = Inr s2 \<and>
        store_tree s2 (plug C \<langle>\<langle>l, p, A\<rangle>, x, \<langle>B, g, s\<rangle>\<rangle>) \<and> same_rest st s2"
      using assms FG by (intro two_turns [OF turn_left_place [where C = "G # C"] turn_right_place]) simp_all
    then show ?thesis using FG by (intro step [of "\<langle>l, p, A\<rangle>" "\<langle>B, g, s\<rangle>"]) (simp_all add: far_turns_def)
  next
    fix l p s g assume FG: "F = In_Right l p" "G = In_Right s g"
    have "\<exists>s2. bindR (turn_left (Some (fst g)) st) (turn_left (Some (fst p))) = Inr s2 \<and>
        store_tree s2 (plug C \<langle>\<langle>\<langle>s, g, l\<rangle>, p, A\<rangle>, x, B\<rangle>) \<and> same_rest st s2"
      using assms FG by (intro two_turns [OF turn_left_place turn_left_place]) simp_all
    then show ?thesis using FG by (intro step [of "\<langle>\<langle>s, g, l\<rangle>, p, A\<rangle>" B]) (simp_all add: far_turns_def)
  qed
qed

declare splay_loop.simps [simp del]

lemma root_at_place: "store_tree st (plug C \<langle>A, x, B\<rangle>) \<Longrightarrow> st_root st = Some (fst x) \<longleftrightarrow> C = []"
  using ctx_root_eq [of C "Some (fst x)" "fst x"] by (auto simp: store_tree_def)

lemma splay_loop_near:
  assumes "store_tree st (plug [F] \<langle>A, x, B\<rangle>)"
  shows "\<exists>A' B' st'. splay_loop k (fst x) st = Inr st' \<and> store_tree st' \<langle>A', x, B'\<rangle> \<and> same_rest st st' \<and>
    inorder \<langle>A', x, B'\<rangle> = inorder (plug [F] \<langle>A, x, B\<rangle>)"
proof -
  from splay_step_near [OF assms] obtain A' B' st' where s: "splay_step (fst x) st = Inr (True, st')"
    "store_tree st' \<langle>A', x, B'\<rangle>" "same_rest st st'" "inorder \<langle>A', x, B'\<rangle> = inorder (plug [F] \<langle>A, x, B\<rangle>)" by blast
  have "splay_loop k (fst x) st = Inr st'" using root_at_place [OF assms] s(1) by (simp add: splay_loop.simps [of k])
  with s(2-4) show ?thesis by blast
qed

lemma splay_loop_place:
  assumes "store_tree st (plug C \<langle>A, x, B\<rangle>)" and "length C \<le> 2 * (k + 1)"
  shows "\<exists>A' B' st'. splay_loop k (fst x) st = Inr st' \<and> store_tree st' \<langle>A', x, B'\<rangle> \<and> same_rest st st' \<and>
    inorder \<langle>A', x, B'\<rangle> = inorder (plug C \<langle>A, x, B\<rangle>)"
  using assms
proof (induction k arbitrary: C A B st)
  case (0 C)
  note root = root_at_place [OF 0(1)]
  consider "C = []" | F where "C = [F]" | F G where "C = [F, G]"
    using 0(2) by (cases C; cases "tl C") auto
  then show ?case
  proof cases
    case 1
    then show ?thesis using root 0 by (simp add: splay_loop.simps) blast
  next
    case (2 F)
    then show ?thesis using splay_loop_near [of st F A x B] 0(1) by simp
  next
    case (3 F G)
    then have st: "store_tree st (plug [F, G] \<langle>A, x, B\<rangle>)" using 0 by simp
    from far_turns_place [OF st] obtain A' B' st' where s: "far_turns F G st = Inr st'" "store_tree st' \<langle>A', x, B'\<rangle>"
      "same_rest st st'" "inorder \<langle>A', x, B'\<rangle> = inorder (plug [F, G] \<langle>A, x, B\<rangle>)" by auto
    have "splay_loop 0 (fst x) st = Inr st'"
      using root 3 splay_step_far_turns [OF st] s(1) by (simp add: splay_loop.simps [of 0])
    then show ?thesis using s(2-4) 3 by blast
  qed
next
  case (Suc k C)
  note root = root_at_place [OF Suc.prems(1)]
  consider "C = []" | F where "C = [F]" | F G D where "C = F # G # D"
    by (cases C; cases "tl C") auto
  then show ?case
  proof cases
    case 1
    then show ?thesis using root Suc.prems by (simp add: splay_loop.simps) blast
  next
    case (2 F)
    then show ?thesis using splay_loop_near [of st F A x B] Suc.prems(1) by simp
  next
    case (3 F G D)
    have st: "store_tree st (plug (F # G # D) \<langle>A, x, B\<rangle>)" using Suc.prems 3 by simp
    from far_turns_place [OF st] obtain A1 B1 s1 where s1: "far_turns F G st = Inr s1" "store_tree s1 (plug D \<langle>A1, x, B1\<rangle>)"
      "same_rest st s1" "inorder \<langle>A1, x, B1\<rangle> = inorder (plug [F, G] \<langle>A, x, B\<rangle>)" by blast
    have "length D \<le> 2 * (k + 1)" using Suc.prems(2) 3 by simp
    from Suc.IH [OF s1(2) this] obtain A2 B2 s2 where s2: "splay_loop k (fst x) s1 = Inr s2" "store_tree s2 \<langle>A2, x, B2\<rangle>"
      "same_rest s1 s2" "inorder \<langle>A2, x, B2\<rangle> = inorder (plug D \<langle>A1, x, B1\<rangle>)" by blast
    have "splay_loop (Suc k) (fst x) st = Inr s2"
      using root 3 splay_step_far_turns [OF st] s1(1) s2(1) by (simp add: splay_loop.simps [of "Suc k"])
    moreover have "plug C \<langle>A, x, B\<rangle> = plug D (plug [F, G] \<langle>A, x, B\<rangle>)"
      using 3 by (simp flip: plug_append)
    then have "inorder \<langle>A2, x, B2\<rangle> = inorder (plug C \<langle>A, x, B\<rangle>)"
      unfolding s2(4) inorder_plug [of D] s1(4) by simp
    ultimately show ?thesis using s2(2) same_rest_trans [OF s1(3) s2(3)] by blast
  qed
qed

text \<open>The number of rounds that \<open>splay\<close> allows is enough for every node of the tree.\<close>

lemma splay_place:
  assumes "store_tree st t" and "a \<in> set (addrs t)" and "unat (num_nodes st) = size t"
  shows "\<exists>l d r st'. splay a st = Inr st' \<and> store_tree st' \<langle>l, (a, d), r\<rangle> \<and> same_rest st st' \<and>
    inorder \<langle>l, (a, d), r\<rangle> = inorder t"
proof -
  from place_exists [OF assms(2)] obtain C l d r where t: "t = plug C \<langle>l, (a, d), r\<rangle>" by blast
  have "unat (num_nodes st div 2) = size t div 2" using assms(3) by (simp add: unat_div)
  moreover have "length C \<le> size t" using length_place t by simp
  then have "length C \<le> 2 * (size t div 2 + 1)" by presburger
  ultimately show ?thesis
    using splay_loop_place [of st C l "(a, d)" r "size t div 2"] assms(1) t by (auto simp: splay_def)
qed

end
