(* ===== verification/SplayTree_Ops.thy ===== *)
theory SplayTree_Ops
  imports SplayTree_Store
begin

text \<open>
  The loops and the operations of the splay tree on the tree that the store holds. The abstract value of a splay tree is
  the sorted list of the addresses of its events (\<open>keys\<close>): inserting is \<open>insort\<close>, erasing is \<open>remove1\<close>, and
  \<open>begin\<close> gives the first.
\<close>

section \<open>The abstract value and the invariant\<close>

definition keys :: "ptree \<Rightarrow> nat list" where
  "keys t = map (\<lambda>x. event_address (snd x)) (inorder t)"

lemma keys_simps [simp]:
  "keys \<langle>\<rangle> = []"
  "keys \<langle>l, x, r\<rangle> = keys l @ event_address (snd x) # keys r"
  by (simp_all add: keys_def)

lemma length_keys: "length (keys t) = size t"
  by (induction t) simp_all

definition ctx_keys_left :: "frame list \<Rightarrow> nat list" where
  "ctx_keys_left C = map (\<lambda>x. event_address (snd x)) (ctx_left C)"

definition ctx_keys_right :: "frame list \<Rightarrow> nat list" where
  "ctx_keys_right C = map (\<lambda>x. event_address (snd x)) (ctx_right C)"

lemma ctx_keys_simps [simp]:
  "ctx_keys_left [] = []" "ctx_keys_right [] = []"
  "ctx_keys_left (In_Left x r # C) = ctx_keys_left C"
  "ctx_keys_left (In_Right l x # C) = ctx_keys_left C @ keys l @ [event_address (snd x)]"
  "ctx_keys_right (In_Left x r # C) = event_address (snd x) # keys r @ ctx_keys_right C"
  "ctx_keys_right (In_Right l x # C) = ctx_keys_right C"
  by (simp_all add: ctx_keys_left_def ctx_keys_right_def keys_def)

lemma keys_plug: "keys (plug C t) = ctx_keys_left C @ keys t @ ctx_keys_right C"
  by (simp add: keys_def ctx_keys_left_def ctx_keys_right_def)

lemma keys_inorder: "inorder t = inorder t' \<Longrightarrow> keys t = keys t'"
  by (simp add: keys_def)

definition data_there :: "ptree \<Rightarrow> bool" where
  "data_there t \<longleftrightarrow> list_all (\<lambda>x. snd x \<noteq> None) (inorder t)"

lemma data_there_inorder: "inorder t = inorder t' \<Longrightarrow> data_there t = data_there t'"
  by (simp add: data_there_def)

lemma addrs_inorder: "inorder t = inorder t' \<Longrightarrow> addrs t = addrs t'"
  by (simp add: addrs_def)

lemma size_inorder: "inorder t = inorder t' \<Longrightarrow> size t = size t'"
  by (metis length_inorder)

definition splay_inv :: "splay_tree \<Rightarrow> ptree \<Rightarrow> bool" where
  "splay_inv st t \<longleftrightarrow> store_tree st t \<and> unat (num_nodes st) = size t \<and> sorted (keys t) \<and> data_there t \<and>
     (t \<noteq> \<langle>\<rangle> \<longrightarrow> st_current st = Some (hd (addrs t)))"

lemma splay_inv_new: "splay_inv splay_new \<langle>\<rangle>"
  by (simp add: splay_inv_def store_tree_def splay_new_def data_there_def)

section \<open>Following the left and the right links\<close>

lemma leftmost_addrs:
  "repr (nodes st) p \<langle>l, x, r\<rangle> \<Longrightarrow> leftmost st (fst x) = Some (Inr (hd (addrs \<langle>l, x, r\<rangle>)))"
proof (induction l arbitrary: p x r)
  case Leaf
  then show ?case by (subst leftmost.simps) simp
next
  case (Node l y r')
  then have "leftmost st (fst y) = Some (Inr (hd (addrs \<langle>l, y, r'\<rangle>)))" by (intro Node.IH(1)) auto
  moreover have "leftmost st (fst x) = leftmost st (fst y)" using Node.prems by (subst leftmost.simps) simp
  ultimately show ?case by (cases "addrs l") simp_all
qed

lemma rightmost_place:
  "repr (nodes st) p \<langle>l, x, r\<rangle> \<Longrightarrow> \<exists>C l' y. \<langle>l, x, r\<rangle> = plug C \<langle>l', y, \<langle>\<rangle>\<rangle> \<and> ctx_right C = [] \<and>
     rightmost st (fst x) = Some (Inr (fst y))"
proof (induction r arbitrary: p l x)
  case Leaf
  then have "rightmost st (fst x) = Some (Inr (fst x))" by (subst rightmost.simps) simp
  then show ?case by (intro exI [of _ "[]"]) simp
next
  case (Node r1 y r2)
  then have "repr (nodes st) (Some (fst x)) \<langle>r1, y, r2\<rangle>" by simp
  from Node.IH(2) [OF this] obtain C l' z where
    "\<langle>r1, y, r2\<rangle> = plug C \<langle>l', z, \<langle>\<rangle>\<rangle>" "ctx_right C = []" "rightmost st (fst y) = Some (Inr (fst z))"
    by blast
  moreover have "ctx_right (C @ [In_Right l x]) = ctx_right C" by (induction C rule: ctx_right.induct) auto
  moreover have "rightmost st (fst x) = rightmost st (fst y)" using Node.prems by (subst rightmost.simps) simp
  ultimately show ?case by (intro exI [of _ "C @ [In_Right l x]"] exI [of _ l'] exI [of _ z]) (simp add: plug_append)
qed

lemma reset_current_hd:
  assumes "store_tree st t" and "t \<noteq> \<langle>\<rangle>"
  shows "reset_current st = Some (Inr (st\<lparr>st_current := Some (hd (addrs t))\<rparr>))"
proof -
  from assms(2) obtain l x r where t: "t = \<langle>l, x, r\<rangle>" by (cases t) auto
  then show ?thesis using assms(1) leftmost_addrs [of st None l x r] by (simp add: reset_current_def store_tree_def)
qed

text \<open>The leftmost node is at a place with nothing before it.\<close>

lemma leftmost_place: "t \<noteq> \<langle>\<rangle> \<Longrightarrow> \<exists>C x r. t = plug C \<langle>\<langle>\<rangle>, x, r\<rangle> \<and> ctx_left C = [] \<and> fst x = hd (addrs t)"
proof (induction t)
  case (Node l x r)
  show ?case
  proof (cases "l = \<langle>\<rangle>")
    case True
    then show ?thesis by (intro exI [of _ "[]"]) simp
  next
    case False
    then obtain C y r' where C: "l = plug C \<langle>\<langle>\<rangle>, y, r'\<rangle>" "ctx_left C = []" "fst y = hd (addrs l)" using Node.IH by blast
    have "addrs l \<noteq> []" using False by (cases l) auto
    moreover have "ctx_left (C @ [In_Left x r]) = ctx_left C" by (induction C rule: ctx_left.induct) auto
    ultimately show ?thesis using C
      by (intro exI [of _ "C @ [In_Left x r]"] exI [of _ y] exI [of _ r']) (simp add: plug_append)
  qed
qed simp

section \<open>Searching\<close>

lemma find_node_spec:
  assumes "repr (nodes st) p t" and "sorted (keys t)"
  shows "\<exists>found. find_node st ev (root_of t) = Some (Inr found) \<and>
    (case found of None \<Rightarrow> event_address ev \<notin> set (keys t)
     | Some a \<Rightarrow> \<exists>d. (a, d) \<in> set (inorder t) \<and> event_address d = event_address ev)"
  using assms
proof (induction t arbitrary: p)
  case Leaf
  then show ?case by (simp add: find_node.simps)
next
  case (Node l x r)
  let ?k = "event_address ev" and ?d = "event_address (snd x)"
  have s: "sorted (keys l)" "sorted (keys r)" "\<forall>k\<in>set (keys l). k \<le> ?d" "\<forall>k\<in>set (keys r). ?d \<le> k"
    using Node.prems(2) by (auto simp: sorted_append)
  have n: "nodes st (fst x) = Some \<lparr>left_node = root_of l, right_node = root_of r, parent_node = p, node_data = snd x\<rparr>"
    and rl: "repr (nodes st) (Some (fst x)) l" "repr (nodes st) (Some (fst x)) r" using Node.prems(1) by simp_all
  consider "?k < ?d" | "?k = ?d" | "?d < ?k" by linarith
  then show ?case
  proof cases
    case 1
    then have "find_node st ev (root_of \<langle>l, x, r\<rangle>) = find_node st ev (root_of l)" using n by (simp add: find_node.simps [of _ _ "Some _"])
    moreover have "?k \<notin> set (keys r)" using 1 s(4) by fastforce
    ultimately show ?thesis using Node.IH(1) [OF rl(1) s(1)] 1 by (fastforce split: option.splits)
  next
    case 2
    then show ?thesis using n by (auto simp: find_node.simps [of _ _ "Some _"] intro: exI [of _ "snd x"])
  next
    case 3
    then have "find_node st ev (root_of \<langle>l, x, r\<rangle>) = find_node st ev (root_of r)" using n by (simp add: find_node.simps [of _ _ "Some _"])
    moreover have "?k \<notin> set (keys l)" using 3 s(3) by fastforce
    ultimately show ?thesis using Node.IH(2) [OF rl(2) s(2)] 3 by (fastforce split: option.splits)
  qed
qed

definition is_left_frame :: "frame \<Rightarrow> bool" where
  "is_left_frame F = (case F of In_Left _ _ \<Rightarrow> True | In_Right _ _ \<Rightarrow> False)"

lemma ctx_keys_append [simp]:
  "ctx_keys_left (C @ D) = ctx_keys_left D @ ctx_keys_left C"
  "ctx_keys_right (C @ D) = ctx_keys_right C @ ctx_keys_right D"
  by (induction C rule: ctx_left.induct) auto

lemma find_place_spec:
  assumes "repr (nodes st) p \<langle>l, x, r\<rangle>" and "sorted (keys \<langle>l, x, r\<rangle>)"
  shows "\<exists>F C. find_place st ev (fst x) = Some (Inr (fst (frame_label F), is_left_frame F)) \<and> \<langle>l, x, r\<rangle> = plug (F # C) \<langle>\<rangle> \<and>
    (\<forall>k \<in> set (ctx_keys_left (F # C)). k < event_address ev) \<and> (\<forall>k \<in> set (ctx_keys_right (F # C)). event_address ev \<le> k)"
  using assms
proof (induction "\<langle>l, x, r\<rangle>" arbitrary: l x r p rule: measure_induct_rule [of size])
  case (less l x r)
  let ?k = "event_address ev" and ?d = "event_address (snd x)"
  have s: "sorted (keys l)" "sorted (keys r)" "\<forall>k\<in>set (keys l). k \<le> ?d" "\<forall>k\<in>set (keys r). ?d \<le> k"
    using less.prems(2) by (auto simp: sorted_append)
  have n: "nodes st (fst x) = Some \<lparr>left_node = root_of l, right_node = root_of r, parent_node = p, node_data = snd x\<rparr>"
    and rl: "repr (nodes st) (Some (fst x)) l" "repr (nodes st) (Some (fst x)) r" using less.prems(1) by simp_all
  show ?case
  proof (cases "?k \<le> ?d")
    case True
    have right: "\<forall>k\<in>set (keys r). ?k \<le> k" using True s(4) by fastforce
    show ?thesis
    proof (cases l)
      case Leaf
      then show ?thesis using n True right
        by (intro exI [of _ "In_Left x r"] exI [of _ "[]"]) (simp add: find_place.simps [of _ _ "fst x"] is_left_frame_def)
    next
      case (Node l1 y l2)
      then have "find_place st ev (fst x) = find_place st ev (fst y)" using n True by (subst find_place.simps) simp
      moreover obtain F C where "find_place st ev (fst y) = Some (Inr (fst (frame_label F), is_left_frame F))"
        "\<langle>l1, y, l2\<rangle> = plug (F # C) \<langle>\<rangle>" "\<forall>k \<in> set (ctx_keys_left (F # C)). k < ?k" "\<forall>k \<in> set (ctx_keys_right (F # C)). ?k \<le> k"
        using less.hyps [of l1 y l2 "Some (fst x)"] rl(1) s(1) Node by auto
      ultimately show ?thesis using Node True right plug_append [of "F # C" "[In_Left x r]"] ctx_keys_append [of "F # C" "[In_Left x r]"]
        by (intro exI [of _ F] exI [of _ "C @ [In_Left x r]"]) auto
    qed
  next
    case False
    have left: "\<forall>k\<in>set (keys l). k < ?k" using False s(3) by fastforce
    show ?thesis
    proof (cases r)
      case Leaf
      then show ?thesis using n False left
        by (intro exI [of _ "In_Right l x"] exI [of _ "[]"]) (auto simp: find_place.simps [of _ _ "fst x"] is_left_frame_def)
    next
      case (Node r1 y r2)
      then have "find_place st ev (fst x) = find_place st ev (fst y)" using n False by (subst find_place.simps) simp
      moreover obtain F C where "find_place st ev (fst y) = Some (Inr (fst (frame_label F), is_left_frame F))"
        "\<langle>r1, y, r2\<rangle> = plug (F # C) \<langle>\<rangle>" "\<forall>k \<in> set (ctx_keys_left (F # C)). k < ?k" "\<forall>k \<in> set (ctx_keys_right (F # C)). ?k \<le> k"
        using less.hyps [of r1 y r2 "Some (fst x)"] rl(2) s(2) Node by auto
      ultimately show ?thesis using Node False left plug_append [of "F # C" "[In_Right l x]"] ctx_keys_append [of "F # C" "[In_Right l x]"]
        by (intro exI [of _ F] exI [of _ "C @ [In_Right l x]"]) auto
    qed
  qed
qed

section \<open>Inserting\<close>

lemma insort_middle:
  "\<forall>k \<in> set xs. k < key \<Longrightarrow> \<forall>k \<in> set ys. key \<le> k \<Longrightarrow> insort key (xs @ ys) = xs @ key # (ys :: nat list)"
  by (induction xs) (auto simp: insort_is_Cons)

lemma current_node:
  assumes "splay_inv st t" and "t \<noteq> \<langle>\<rangle>"
  obtains C x r where "t = plug C \<langle>\<langle>\<rangle>, x, r\<rangle>" "ctx_left C = []" "st_current st = Some (fst x)"
    "nodes st (fst x) = Some \<lparr>left_node = None, right_node = root_of r, parent_node = par_of C, node_data = snd x\<rparr>"
    "snd x \<noteq> None"
proof -
  from leftmost_place [OF assms(2)] obtain C x r where t: "t = plug C \<langle>\<langle>\<rangle>, x, r\<rangle>" "ctx_left C = []" "fst x = hd (addrs t)"
    by blast
  moreover have "st_current st = Some (fst x)" using assms t(3) by (simp add: splay_inv_def)
  moreover have "nodes st (fst x) = Some \<lparr>left_node = None, right_node = root_of r, parent_node = par_of C, node_data = snd x\<rparr>"
    using assms(1) t(1) by (simp add: splay_inv_def store_tree_def)
  moreover have "snd x \<noteq> None" using assms(1) t(1) by (simp add: splay_inv_def data_there_def)
  ultimately show ?thesis using that by blast
qed

text \<open>The new node below a frame whose side is empty.\<close>

definition hang_new :: "nat \<Rightarrow> nat \<Rightarrow> bool \<Rightarrow> splay_tree \<Rightarrow> splay_tree" where
  "hang_new a p is_left st = set_parent a (Some p) (if is_left then set_left p (Some a) st else set_right p (Some a) st)"

lemma hang_new_place:
  assumes "store_tree st (plug (F # C) \<langle>\<rangle>)" and "nodes st' = (nodes st)(next_node st \<mapsto>
      \<lparr>left_node = None, right_node = None, parent_node = None, node_data = ev\<rparr>)"
    and "next_node st' = next_node st + 1" and "st_root st' = st_root st"
  shows "store_tree (hang_new (next_node st) (fst (frame_label F)) (is_left_frame F) st')
      (plug (F # C) \<langle>\<langle>\<rangle>, (next_node st, ev), \<langle>\<rangle>\<rangle>)"
    and "same_rest st' (hang_new (next_node st) (fst (frame_label F)) (is_left_frame F) st')"
proof -
  have lt: "\<forall>a \<in> set (addrs (plug (F # C) \<langle>\<rangle>)). a < next_node st"
    using assms(1) unfolding store_tree_def by blast
  then have new: "next_node st \<notin> set (addrs (plug (F # C) \<langle>\<rangle>))" by blast
  show "store_tree (hang_new (next_node st) (fst (frame_label F)) (is_left_frame F) st')
      (plug (F # C) \<langle>\<langle>\<rangle>, (next_node st, ev), \<langle>\<rangle>\<rangle>)"
  proof (cases F)
    case (In_Left x r)
    with assms new lt show ?thesis
      by (auto simp: store_tree_def hang_new_def link_defs is_left_frame_def less_Suc_eq)
  next
    case (In_Right l x)
    with assms new lt show ?thesis
      by (auto simp: store_tree_def hang_new_def link_defs is_left_frame_def less_Suc_eq)
  qed
  show "same_rest st' (hang_new (next_node st) (fst (frame_label F)) (is_left_frame F) st')"
    by (simp add: same_rest_def hang_new_def link_defs)
qed

lemma unat_Suc_u32: "unat (n :: u32) = k \<Longrightarrow> k + 1 < 2 ^ 32 \<Longrightarrow> unat (n + 1) = k + 1"
  by (simp add: unat_word_ariths)

lemma splay_new_place:
  assumes "store_tree st t" and "unat (num_nodes st) = size t" and "sorted (keys t)" and "data_there t"
    and "st_current st = Some (hd (addrs t))" and "a \<in> set (addrs t)"
  shows "\<exists>st' t'. splay a st = Inr st' \<and> splay_inv st' t' \<and> keys t' = keys t"
proof -
  from splay_place [OF assms(1,6,2)] obtain l d r st' where s: "splay a st = Inr st'" "store_tree st' \<langle>l, (a, d), r\<rangle>"
    "same_rest st st'" "inorder \<langle>l, (a, d), r\<rangle> = inorder t" by blast
  note i = keys_inorder [OF s(4)] size_inorder [OF s(4)] addrs_inorder [OF s(4)] data_there_inorder [OF s(4)]
  have "splay_inv st' \<langle>l, (a, d), r\<rangle>"
    using s(2,3) assms(2-5) unfolding splay_inv_def i same_rest_def by simp
  with s(1) i(1) show ?thesis by blast
qed

lemma insert_at:
  assumes "store_tree st (plug (F # C) \<langle>\<rangle>)" and "sorted (keys (plug (F # C) \<langle>\<rangle>))" and "data_there (plug (F # C) \<langle>\<rangle>)"
    and "unat (num_nodes st') = size (plug (F # C) \<langle>\<rangle>) + 1"
    and "nodes st' = (nodes st)(next_node st \<mapsto>
      \<lparr>left_node = None, right_node = None, parent_node = None, node_data = ev\<rparr>)"
    and "next_node st' = next_node st + 1" and "st_root st' = st_root st" and "ev \<noteq> None"
    and "\<forall>k \<in> set (ctx_keys_left (F # C)). k < event_address ev"
    and "\<forall>k \<in> set (ctx_keys_right (F # C)). event_address ev \<le> k"
    and "st_current st' = Some (hd (addrs (plug (F # C) \<langle>\<langle>\<rangle>, (next_node st, ev), \<langle>\<rangle>\<rangle>)))"
  shows "\<exists>st2 t2. splay (next_node st) (hang_new (next_node st) (fst (frame_label F)) (is_left_frame F) st') = Inr st2 \<and>
    splay_inv st2 t2 \<and> keys t2 = insort (event_address ev) (keys (plug (F # C) \<langle>\<rangle>))"
proof -
  let ?T = "plug (F # C) \<langle>\<langle>\<rangle>, (next_node st, ev), \<langle>\<rangle>\<rangle>"
  note H = hang_new_place [OF assms(1,5,6,7)]
  have k: "keys ?T = insort (event_address ev) (keys (plug (F # C) \<langle>\<rangle>))"
    unfolding keys_plug using insort_middle [OF assms(9,10)] by simp
  have "length (inorder ?T) = length (inorder (plug (F # C) \<langle>\<rangle>)) + 1" unfolding inorder_plug by simp
  then have size: "size ?T = size (plug (F # C) \<langle>\<rangle>) + 1" by (simp only: length_inorder)
  have "sorted (keys ?T)" unfolding k using assms(2) by (rule sorted_insort [THEN iffD2])
  moreover have "data_there ?T" using assms(3,8) by (simp add: data_there_def)
  moreover have "next_node st \<in> set (addrs ?T)" unfolding set_addrs_plug by simp
  ultimately show ?thesis
    using splay_new_place [OF H(1), of "next_node st"] H(2) assms(4,11) size k by (simp add: same_rest_def)
qed

lemma set_current_commute:
  "(set_parent a p (set_left c l st))\<lparr>st_current := v\<rparr> = set_parent a p (set_left c l (st\<lparr>st_current := v\<rparr>))"
  by (simp add: set_parent_def set_left_def)

lemma sp_insert_spec:
  assumes "splay_inv st t" and "ev \<noteq> None" and "size t + 1 < 2 ^ 32"
  shows "\<exists>st' t'. sp_insert ev st = Some (Inr st') \<and> splay_inv st' t' \<and> keys t' = insort (event_address ev) (keys t)"
proof (cases "t = \<langle>\<rangle>")
  case True
  let ?x = "(next_node st, ev)"
  have "st_root st = None" using assms(1) True by (simp add: splay_inv_def store_tree_def)
  moreover have "unat (num_nodes st + 1) = 1" using assms(1) True unat_Suc_u32 [of "num_nodes st" 0]
    by (simp add: splay_inv_def)
  ultimately show ?thesis using assms(2) True
    by (intro exI [of _ "(snd (new_node ev st))\<lparr>num_nodes := num_nodes st + 1, st_root := Some (next_node st),
        st_current := Some (next_node st)\<rparr>"] exI [of _ "\<langle>\<langle>\<rangle>, ?x, \<langle>\<rangle>\<rangle>"])
      (simp add: sp_insert_def new_node_def splay_inv_def store_tree_def data_there_def)
next
  case False
  from current_node [OF assms(1) False] obtain C x r where c: "t = plug C \<langle>\<langle>\<rangle>, x, r\<rangle>" "ctx_left C = []"
    "st_current st = Some (fst x)"
    "nodes st (fst x) = Some \<lparr>left_node = None, right_node = root_of r, parent_node = par_of C, node_data = snd x\<rparr>"
    "snd x \<noteq> None" .
  define sa where "sa = snd (new_node ev st)"
  have sa: "new_node ev st = (next_node st, sa)" "nodes sa = (nodes st)(next_node st \<mapsto>
      \<lparr>left_node = None, right_node = None, parent_node = None, node_data = ev\<rparr>)"
    "next_node sa = next_node st + 1" "st_root sa = st_root st" "st_current sa = Some (fst x)" "num_nodes sa = num_nodes st"
    using c(3) by (simp_all add: sa_def new_node_def)
  define st1 where "st1 = sa\<lparr>num_nodes := num_nodes sa + 1\<rparr>"
  have st1: "nodes st1 = (nodes st)(next_node st \<mapsto>
      \<lparr>left_node = None, right_node = None, parent_node = None, node_data = ev\<rparr>)"
    "next_node st1 = next_node st + 1" "st_root st1 = st_root st" "st_current st1 = Some (fst x)"
    "num_nodes st1 = num_nodes st + 1"
    using sa by (simp_all add: st1_def)
  have inv: "store_tree st t" "sorted (keys t)" "data_there t" "unat (num_nodes st1) = size t + 1"
    using assms(1,3) unat_Suc_u32 [of "num_nodes st" "size t"] by (simp_all add: splay_inv_def st1(5))
  obtain root where root: "st_root st = Some root" "nodes st root \<noteq> None"
    using inv(1) False by (cases t) (auto simp: store_tree_def)
  have "fst x < next_node st" using inv(1) c(1) by (simp add: store_tree_def)
  then have cur: "nodes st1 (fst x) = nodes st (fst x)" using st1(1) by simp
  obtain e where e: "snd x = Some e" using c(5) by blast
  have run: "sp_insert ev st =
     (if event_address ev \<le> event_address (snd x) then
        Some (splay (next_node st) (hang_new (next_node st) (fst x) True (st1\<lparr>st_current := Some (next_node st)\<rparr>)))
      else bindN (find_place st1 ev root) (\<lambda>(node, is_left).
        Some (splay (next_node st) (hang_new (next_node st) node is_left st1))))"
    using root c(4) e cur assms(2) st1(3,4)
    by (simp add: sp_insert_def sa(1,4) deref_def hang_new_def set_current_commute flip: st1_def)
  show ?thesis
  proof (cases "event_address ev \<le> event_address (snd x)")
    case True
    let ?F = "In_Left x r"
    have t: "t = plug (?F # C) \<langle>\<rangle>" using c(1) by simp
    have l: "ctx_left (?F # C) = []" using c(2) by simp
    have k: "\<forall>k \<in> set (ctx_keys_right (?F # C)). event_address ev \<le> k"
      using inv(2) True unfolding t keys_plug by (auto simp: ctx_keys_left_def c(2) intro: le_trans)
    have "hd (addrs (plug (?F # C) \<langle>\<langle>\<rangle>, (next_node st, ev), \<langle>\<rangle>\<rangle>)) = next_node st"
      unfolding addrs_def inorder_plug l by simp
    with insert_at [OF inv(1,2,3) [unfolded t], of "st1\<lparr>st_current := Some (next_node st)\<rparr>" ev] st1 inv(4) k assms(2)
    show ?thesis unfolding run t using True by (simp add: is_left_frame_def ctx_keys_left_def c(2))
  next
    case False
    obtain l y r' where ty: "t = \<langle>l, y, r'\<rangle>" using \<open>t \<noteq> \<langle>\<rangle>\<close> by (cases t) auto
    have "next_node st \<notin> set (addrs t)" using inv(1) by (auto simp: store_tree_def)
    then have "repr (nodes st1) None \<langle>l, y, r'\<rangle>" using inv(1) st1(1) unfolding ty [symmetric] by (simp add: store_tree_def)
    from find_place_spec [OF this inv(2) [unfolded ty], of ev] obtain F D where
      f: "find_place st1 ev (fst y) = Some (Inr (fst (frame_label F), is_left_frame F))" "t = plug (F # D) \<langle>\<rangle>"
      "\<forall>k \<in> set (ctx_keys_left (F # D)). k < event_address ev" "\<forall>k \<in> set (ctx_keys_right (F # D)). event_address ev \<le> k"
      unfolding ty by blast
    have "fst y = root" using root(1) inv(1) ty by (simp add: store_tree_def)
    have "ctx_left (F # D) \<noteq> []"
    proof
      assume e: "ctx_left (F # D) = []"
      then have "keys t = ctx_keys_right (F # D)" unfolding f(2) keys_plug by (simp add: ctx_keys_left_def)
      moreover have "event_address (snd x) \<in> set (keys t)" unfolding c(1) keys_plug by simp
      ultimately show False using f(4) False by auto
    qed
    then have "hd (addrs (plug (F # D) \<langle>\<langle>\<rangle>, (next_node st, ev), \<langle>\<rangle>\<rangle>)) = hd (addrs t)"
      unfolding f(2) addrs_def inorder_plug by (simp add: hd_append)
    also have "hd (addrs t) = fst x" using c(1,2) by (simp add: addrs_def)
    finally have h: "st_current st1 = Some (hd (addrs (plug (F # D) \<langle>\<langle>\<rangle>, (next_node st, ev), \<langle>\<rangle>\<rangle>)))"
      using st1(4) by simp
    from insert_at [OF inv(1,2,3) [unfolded f(2)] inv(4) [unfolded f(2)] st1(1,2,3) assms(2) f(3,4) h]
    show ?thesis unfolding run using False f(1) \<open>fst y = root\<close> f(2) by simp
  qed
qed

section \<open>Erasing and reading\<close>

lemma sorted_remove1_middle:
  assumes "sorted (xs @ k # ys)"
  shows "remove1 k (xs @ k # ys) = xs @ (ys :: nat list)"
proof -
  have "sorted (remove1 k (xs @ k # ys))" using assms by (rule sorted_remove1)
  moreover have "sorted (xs @ ys)" using assms by (simp add: sorted_append)
  moreover have "mset (remove1 k (xs @ k # ys)) = mset (xs @ ys)" by simp
  ultimately show ?thesis by (metis properties_for_sort sorted_sort_id)
qed

lemma join_children_spec:
  assumes "store_tree st \<langle>l, (a, d), r\<rangle>"
  shows "\<exists>st' t'. join_children st = Some (Inr st') \<and> store_tree st' t' \<and> inorder t' = inorder l @ inorder r \<and>
    num_nodes st' = num_nodes st"
proof (cases l)
  case Leaf
  show ?thesis
  proof (cases r)
    case Leaf
    with assms \<open>l = \<langle>\<rangle>\<close> show ?thesis
      by (intro exI [of _ "st\<lparr>st_root := None\<rparr>"] exI [of _ "\<langle>\<rangle>"]) (simp add: join_children_def store_tree_def deref_def)
  next
    case (Node r1 y r2)
    with assms \<open>l = \<langle>\<rangle>\<close> show ?thesis
      by (intro exI [of _ "set_parent (fst y) None (st\<lparr>st_root := Some (fst y)\<rparr>)"] exI [of _ r])
        (auto simp: join_children_def store_tree_def link_defs)
  qed
next
  case (Node l1 y l2)
  define st1 where "st1 = set_parent (fst y) None (st\<lparr>st_root := Some (fst y)\<rparr>)"
  have l: "store_tree st1 l" using assms Node by (auto simp: st1_def store_tree_def link_defs)
  have rest: "num_nodes st1 = num_nodes st" "next_node st1 = next_node st" by (simp_all add: st1_def set_parent_def)
  have n: "nodes st a = Some \<lparr>left_node = Some (fst y), right_node = root_of r, parent_node = None, node_data = d\<rparr>"
    "st_root st = Some a" using assms Node by (simp_all add: store_tree_def)
  show ?thesis
  proof (cases r)
    case Leaf
    then have "join_children st = Some (Inr st1)" using n by (simp add: join_children_def deref_def st1_def)
    with l rest Leaf show ?thesis by auto
  next
    case (Node r1 z r2)
    from l have "repr (nodes st1) None \<langle>l1, y, l2\<rangle>" unfolding \<open>l = \<langle>l1, y, l2\<rangle>\<close> by (simp add: store_tree_def)
    from rightmost_place [OF this] obtain C l' w where w: "l = plug C \<langle>l', w, \<langle>\<rangle>\<rangle>" "ctx_right C = []"
      "rightmost st1 (fst y) = Some (Inr (fst w))" unfolding \<open>l = \<langle>l1, y, l2\<rangle>\<close> by blast
    let ?st = "set_parent (fst z) (Some (fst w)) (set_right (fst w) (Some (fst z)) st1)"
    have run: "join_children st = Some (Inr ?st)" using n Node w(3) by (simp add: join_children_def deref_def st1_def)
    have r: "repr (nodes st1) (Some a) r" "distinct (addrs l @ addrs r)" "\<forall>b \<in> set (addrs r). b < next_node st"
      using assms \<open>l = \<langle>l1, y, l2\<rangle>\<close> by (auto simp: st1_def store_tree_def link_defs)
    have "store_tree ?st (plug (In_Right l' w # C) r)"
      using l r rest unfolding w(1) Node by (auto simp: store_tree_def link_defs)
    moreover have "inorder (plug (In_Right l' w # C) r) = inorder l @ inorder r" using w by simp
    ultimately show ?thesis using run rest by (intro exI [of _ ?st] exI [of _ "plug (In_Right l' w # C) r"])
      (simp add: link_defs)
  qed
qed

lemma key_place:
  assumes "distinct (addrs t)" and "(a, d) \<in> set (inorder t)" and "(a, d') \<in> set (inorder t)"
  shows "d = d'"
  using assms by (metis addrs_def eq_key_imp_eq_value)

lemma found_spec:
  assumes "splay_inv st t" and "t \<noteq> \<langle>\<rangle>" and "st_current st = Some c" and "deref st (Some c) = Inr cn"
  shows "\<exists>found. find_node st ev (if event_address ev \<le> event_address (node_data cn) then Some c else st_root st) =
      Some (Inr found) \<and>
    (case found of None \<Rightarrow> event_address ev \<notin> set (keys t)
     | Some a \<Rightarrow> \<exists>d. (a, d) \<in> set (inorder t) \<and> event_address d = event_address ev)"
proof -
  from current_node [OF assms(1,2)] obtain C x r where x: "t = plug C \<langle>\<langle>\<rangle>, x, r\<rangle>" "ctx_left C = []"
    "st_current st = Some (fst x)"
    "nodes st (fst x) = Some \<lparr>left_node = None, right_node = root_of r, parent_node = par_of C, node_data = snd x\<rparr>" by blast
  have c: "c = fst x" "node_data cn = snd x" using assms(3,4) x(3,4) by (auto simp: deref_def)
  have k: "keys t = keys \<langle>\<langle>\<rangle>, x, r\<rangle> @ ctx_keys_right C" unfolding x(1) keys_plug by (simp add: ctx_keys_left_def x(2))
  have t: "repr (nodes st) None t" "sorted (keys t)" "st_root st = root_of t"
    using assms(1) by (simp_all add: splay_inv_def store_tree_def)
  show ?thesis
  proof (cases "event_address ev \<le> event_address (node_data cn)")
    case False
    then show ?thesis using find_node_spec [OF t(1,2), of ev] t(3) by simp
  next
    case True
    have "repr (nodes st) (par_of C) \<langle>\<langle>\<rangle>, x, r\<rangle>" "sorted (keys \<langle>\<langle>\<rangle>, x, r\<rangle>)"
      using t(1) [unfolded x(1)] t(2) [unfolded k] by (simp_all add: sorted_append)
    from find_node_spec [OF this, of ev] obtain found where f: "find_node st ev (Some c) = Some (Inr found)"
      "case found of None \<Rightarrow> event_address ev \<notin> set (keys \<langle>\<langle>\<rangle>, x, r\<rangle>)
       | Some a \<Rightarrow> \<exists>d. (a, d) \<in> set (inorder \<langle>\<langle>\<rangle>, x, r\<rangle>) \<and> event_address d = event_address ev"
      using c(1) by auto
    have "case found of None \<Rightarrow> event_address ev \<notin> set (keys t)
       | Some a \<Rightarrow> \<exists>d. (a, d) \<in> set (inorder t) \<and> event_address d = event_address ev"
    proof (cases found)
      case None
      then have "event_address ev < event_address (snd x)" using f(2) True c(2) by simp
      then have "event_address ev \<notin> set (keys t)" using t(2) unfolding k by (auto simp: sorted_append dest!: bspec [where x = "event_address ev"])
      then show ?thesis using None by simp
    next
      case (Some a)
      then show ?thesis using f(2) unfolding x(1) inorder_plug by auto
    qed
    then show ?thesis using f(1) True by simp
  qed
qed

lemma to_root:
  assumes "splay_inv st t" and "(a, d) \<in> set (inorder t)"
  shows "\<exists>st1 l r. (if st_root st = Some a then Some (Inr st)
      else bindN (Some (splay a st)) (\<lambda>t'. bindN (Some (assertR (st_root t' = Some a))) (\<lambda>_. Some (Inr t')))) = Some (Inr st1) \<and>
    store_tree st1 \<langle>l, (a, d), r\<rangle> \<and> num_nodes st1 = num_nodes st \<and> inorder \<langle>l, (a, d), r\<rangle> = inorder t"
proof -
  have st: "store_tree st t" "distinct (addrs t)" "unat (num_nodes st) = size t"
    using assms(1) by (simp_all add: splay_inv_def store_tree_def)
  show ?thesis
  proof (cases "st_root st = Some a")
    case True
    then obtain l d' r where t: "t = \<langle>l, (a, d'), r\<rangle>" using st(1) by (cases t) (auto simp: store_tree_def)
    then have "d' = d" using key_place [OF st(2) assms(2), of d'] by simp
    then show ?thesis using True st t by auto
  next
    case False
    have "a \<in> set (addrs t)" using assms(2) by (force simp: addrs_def)
    from splay_place [OF st(1) this st(3)] obtain l d' r st' where s: "splay a st = Inr st'"
      "store_tree st' \<langle>l, (a, d'), r\<rangle>" "same_rest st st'" "inorder \<langle>l, (a, d'), r\<rangle> = inorder t" by blast
    have "(a, d') \<in> set (inorder t)" using s(4) [symmetric] by simp
    then have "d' = d" using key_place [OF st(2) assms(2)] by blast
    moreover have "st_root st' = Some a" using s(2) by (simp add: store_tree_def)
    ultimately show ?thesis using False s by (auto simp: same_rest_def)
  qed
qed

lemma sp_erase_spec:
  assumes "splay_inv st t" and "ev \<noteq> None" and "t \<noteq> \<langle>\<rangle>"
  shows "\<exists>st' t'. sp_erase ev st = Some (Inr (event_address ev \<in> set (keys t), st')) \<and> splay_inv st' t' \<and>
    keys t' = remove1 (event_address ev) (keys t)"
proof -
  from current_node [OF assms(1,3)] obtain C y rr where y: "t = plug C \<langle>\<langle>\<rangle>, y, rr\<rangle>" "ctx_left C = []"
    "st_current st = Some (fst y)"
    "nodes st (fst y) = Some \<lparr>left_node = None, right_node = root_of rr, parent_node = par_of C, node_data = snd y\<rparr>"
    "snd y \<noteq> None" .
  define x where "x = fst y"
  define cn where "cn = \<lparr>left_node = None, right_node = root_of rr, parent_node = par_of C, node_data = snd y\<rparr>"
  have c: "st_current st = Some x" "deref st (Some x) = Inr cn" using y(3,4) by (simp_all add: deref_def x_def cn_def)
  obtain rt where root: "st_root st = Some rt" using assms(1,3) by (cases t) (auto simp: splay_inv_def store_tree_def)
  from found_spec [OF assms(1,3) c] obtain found where f:
    "find_node st ev (if event_address ev \<le> event_address (node_data cn) then Some x else st_root st) = Some (Inr found)"
    "case found of None \<Rightarrow> event_address ev \<notin> set (keys t)
     | Some a \<Rightarrow> \<exists>d. (a, d) \<in> set (inorder t) \<and> event_address d = event_address ev" by blast
  show ?thesis
  proof (cases found)
    case None
    then have "sp_erase ev st = Some (Inr (False, st))" using f(1) c root assms(2) by (simp add: sp_erase_def)
    then show ?thesis using f(2) None assms(1) by (auto simp: remove1_idem)
  next
    case (Some a)
    then obtain d where d: "(a, d) \<in> set (inorder t)" "event_address d = event_address ev" using f(2) by auto
    from to_root [OF assms(1) d(1)] obtain st1 l r where r: "(if st_root st = Some a then Some (Inr st)
      else bindN (Some (splay a st)) (\<lambda>t'. bindN (Some (assertR (st_root t' = Some a))) (\<lambda>_. Some (Inr t')))) = Some (Inr st1)"
      "store_tree st1 \<langle>l, (a, d), r\<rangle>" "num_nodes st1 = num_nodes st" "inorder \<langle>l, (a, d), r\<rangle> = inorder t" by blast
    have "store_tree (st1\<lparr>num_nodes := num_nodes st1 - 1\<rparr>) \<langle>l, (a, d), r\<rangle>" using r(2) by (simp add: store_tree_def)
    from join_children_spec [OF this] obtain st2 t2 where
      j: "join_children (st1\<lparr>num_nodes := num_nodes st1 - 1\<rparr>) = Some (Inr st2)" "store_tree st2 t2"
      "inorder t2 = inorder l @ inorder r" "num_nodes st2 = num_nodes st - 1" using r(3) by auto
    obtain st3 where st3: "reset_current st2 = Some (Inr st3)" "store_tree st3 t2" "num_nodes st3 = num_nodes st2"
      "t2 \<noteq> \<langle>\<rangle> \<longrightarrow> st_current st3 = Some (hd (addrs t2))"
    proof (cases "t2 = \<langle>\<rangle>")
      case True
      then have "reset_current st2 = Some (Inr st2)" using j(2) by (simp add: reset_current_def store_tree_def)
      then show ?thesis using that j(2) True by blast
    next
      case False
      from reset_current_hd [OF j(2) this] that show ?thesis using j(2) by (auto simp: store_tree_def)
    qed
    have run: "sp_erase ev st = Some (Inr (True, st3))"
      using f(1) Some c root assms(2) r(1) j(1) st3(1) by (simp add: sp_erase_def)
    have kt: "keys t = keys l @ event_address ev # keys r" using keys_inorder [OF r(4)] d(2) by simp
    have k2: "keys t2 = keys l @ keys r" using j(3) by (simp add: keys_def)
    have rem: "remove1 (event_address ev) (keys t) = keys t2"
      unfolding kt k2 by (rule sorted_remove1_middle) (use assms(1) kt in \<open>simp add: splay_inv_def\<close>)
    have "size t = size t2 + 1" using length_keys [of t] length_keys [of t2] unfolding kt k2 by simp
    moreover have "unat (num_nodes st) = size t" using assms(1) by (simp add: splay_inv_def)
    ultimately have "unat (num_nodes st3) = size t2" unfolding st3(3) j(4) by (simp add: unat_sub_if')
    moreover have "data_there t2" using assms(1) r(4) [symmetric] j(3) by (simp add: splay_inv_def data_there_def)
    moreover have "sorted (keys t2)" using assms(1) kt k2 by (simp add: splay_inv_def sorted_append)
    ultimately have "splay_inv st3 t2" using st3 by (simp add: splay_inv_def)
    then show ?thesis using run rem kt by auto
  qed
qed

lemma sp_begin_spec:
  assumes "splay_inv st t"
  shows "\<exists>st' ev. sp_begin st = Some (Inr (ev, st')) \<and> splay_inv st' t \<and>
    (if keys t = [] then ev = None else ev \<noteq> None \<and> event_address ev = hd (keys t))"
proof (cases "t = \<langle>\<rangle>")
  case True
  then show ?thesis using assms by (auto simp: sp_begin_def splay_inv_def store_tree_def)
next
  case False
  from current_node [OF assms False] obtain C x r where c: "t = plug C \<langle>\<langle>\<rangle>, x, r\<rangle>" "ctx_left C = []"
    "st_current st = Some (fst x)"
    "nodes st (fst x) = Some \<lparr>left_node = None, right_node = root_of r, parent_node = par_of C, node_data = snd x\<rparr>"
    "snd x \<noteq> None" .
  have "keys t = event_address (snd x) # keys r @ ctx_keys_right C" unfolding c(1) keys_plug by (simp add: ctx_keys_left_def c(2))
  moreover obtain rt where "st_root st = Some rt" using assms False by (cases t) (auto simp: splay_inv_def store_tree_def)
  moreover have "num_nodes st \<noteq> 0" using assms False by (auto simp: splay_inv_def)
  ultimately show ?thesis using assms c by (auto simp: sp_begin_def deref_def)
qed

end
