(* ===== verification/SplayTree_Props.thy ===== *)
theory SplayTree_Props
  imports SplayTree_Ops
begin

text \<open>
  The splay tree as a whole: any sequence of calls on a new tree gives the answers of a sorted list of addresses.
\<close>

section \<open>Splaying\<close>

text \<open>C40: \<open>splay\<close> brings every node of the tree to the root within the number of rounds it allows itself, so the assertion
  after it in \<open>erase\<close> never fails; it changes neither the order nor the data of the nodes.\<close>

theorem splay_reaches_root:
  assumes "store_tree st t" and "a \<in> set (addrs t)" and "unat (num_nodes st) = size t"
  shows "\<exists>l d r st'. splay a st = Inr st' \<and> st_root st' = Some a \<and> store_tree st' \<langle>l, (a, d), r\<rangle> \<and>
    inorder \<langle>l, (a, d), r\<rangle> = inorder t \<and> num_nodes st' = num_nodes st"
  using splay_place [OF assms] by (auto simp: store_tree_def same_rest_def)

definition sample_event :: "nat \<Rightarrow> u32 \<Rightarrow> event" where
  "sample_event p time = (InitialEvent p)\<lparr>timestamp := time\<rparr>"

definition sample_store :: splay_tree where
  "sample_store = \<lparr>nodes = [0 \<mapsto> \<lparr>left_node = None, right_node = Some 1, parent_node = None, node_data = Some (sample_event 5 1)\<rparr>,
       1 \<mapsto> \<lparr>left_node = None, right_node = None, parent_node = Some 0, node_data = Some (sample_event 7 1)\<rparr>],
     next_node = 2, st_root = Some 0, st_current = Some 0, num_nodes = 2\<rparr>"

theorem splay_reaches_root_witness:
  "\<exists>st'. splay 1 sample_store = Inr st' \<and> st_root st' = Some 1 \<and> num_nodes st' = 2"
proof -
  let ?t = "\<langle>\<langle>\<rangle>, (0, Some (sample_event 5 1)), \<langle>\<langle>\<rangle>, (1, Some (sample_event 7 1)), \<langle>\<rangle>\<rangle>\<rangle> :: ptree"
  have "store_tree sample_store ?t" by (simp add: store_tree_def sample_store_def)
  moreover have "unat (num_nodes sample_store) = size ?t" by (simp add: sample_store_def)
  ultimately show ?thesis using splay_reaches_root [of sample_store ?t 1] by (auto simp: sample_store_def)
qed

section \<open>Sequences of calls\<close>

datatype splay_op = Op_Insert event | Op_Erase event | Op_Begin

datatype splay_answer = Done | Erased bool | First "nat option"

fun sp_do :: "splay_op \<Rightarrow> splay_tree \<Rightarrow> (splay_answer \<times> splay_tree) run" where
  "sp_do (Op_Insert e) st = bindN (sp_insert (Some e) st) (\<lambda>st'. Some (Inr (Done, st')))"
| "sp_do (Op_Erase e) st = bindN (sp_erase (Some e) st) (\<lambda>(b, st'). Some (Inr (Erased b, st')))"
| "sp_do Op_Begin st = bindN (sp_begin st) (\<lambda>(ev, st'). Some (Inr (First (map_option ev_ptr ev), st')))"

fun sp_run :: "splay_op list \<Rightarrow> splay_tree \<Rightarrow> splay_answer list run" where
  "sp_run [] st = Some (Inr [])"
| "sp_run (c # cs) st = bindN (sp_do c st) (\<lambda>(a, st'). bindN (sp_run cs st') (\<lambda>as. Some (Inr (a # as))))"

text \<open>The abstract specification: a sorted list of addresses. Erasing from an empty tree is an assertion failure.\<close>

fun ref_do :: "splay_op \<Rightarrow> nat list \<Rightarrow> (splay_answer \<times> nat list) res" where
  "ref_do (Op_Insert e) ks = Inr (Done, insort (ev_ptr e) ks)"
| "ref_do (Op_Erase e) ks =
     (if ks = [] then Inl Assert_Failed else Inr (Erased (ev_ptr e \<in> set ks), remove1 (ev_ptr e) ks))"
| "ref_do Op_Begin ks = Inr (First (case ks of [] \<Rightarrow> None | k # _ \<Rightarrow> Some k), ks)"

fun ref_run :: "splay_op list \<Rightarrow> nat list \<Rightarrow> splay_answer list res" where
  "ref_run [] ks = Inr []"
| "ref_run (c # cs) ks = bindR (ref_do c ks) (\<lambda>(a, ks'). bindR (ref_run cs ks') (\<lambda>as. Inr (a # as)))"

lemma event_address_Some [simp]: "event_address (Some e) = ev_ptr e"
  by (simp add: event_address_def)

lemma keys_Nil [simp]: "keys t = [] \<longleftrightarrow> t = \<langle>\<rangle>"
  by (cases t) simp_all

lemma sp_do_ref:
  assumes "splay_inv st t" and "size t + 1 < 2 ^ 32"
  shows "case ref_do c (keys t) of
      Inl f \<Rightarrow> sp_do c st = Some (Inl f)
    | Inr (a, ks) \<Rightarrow> \<exists>st' t'. sp_do c st = Some (Inr (a, st')) \<and> splay_inv st' t' \<and> keys t' = ks"
proof (cases c)
  case (Op_Insert e)
  then show ?thesis using sp_insert_spec [OF assms(1) _ assms(2), of "Some e"] by auto
next
  case (Op_Erase e)
  show ?thesis
  proof (cases "t = \<langle>\<rangle>")
    case True
    then have "st_root st = None" using assms(1) by (simp add: splay_inv_def store_tree_def)
    then show ?thesis using Op_Erase True by (simp add: sp_erase_def assertR_def)
  next
    case False
    then show ?thesis using Op_Erase sp_erase_spec [OF assms(1), of "Some e"] by auto
  qed
next
  case Op_Begin
  then show ?thesis using sp_begin_spec [OF assms(1)] by (cases "keys t") (auto simp: event_address_def)
qed

lemma ref_do_length: "ref_do c ks = Inr (a, ks') \<Longrightarrow> length ks' \<le> length ks + 1"
  by (cases c) (auto simp: length_remove1 split: if_splits)

lemma sp_run_ref:
  assumes "splay_inv st t" and "size t + length cs < 2 ^ 32"
  shows "sp_run cs st = Some (ref_run cs (keys t))"
  using assms
proof (induction cs arbitrary: st t)
  case (Cons c cs)
  have "size t + 1 < 2 ^ 32" using Cons.prems(2) by simp
  note step = sp_do_ref [OF Cons.prems(1) this, of c]
  show ?case
  proof (cases "ref_do c (keys t)")
    case (Inl f)
    then show ?thesis using step by simp
  next
    case (Inr r)
    then obtain a ks where r: "ref_do c (keys t) = Inr (a, ks)" by (cases r) simp
    with step obtain st' t' where s: "sp_do c st = Some (Inr (a, st'))" "splay_inv st' t'" "keys t' = ks" by auto
    have "size t' \<le> size t + 1" using ref_do_length [OF r] s(3) length_keys [of t'] length_keys [of t] by simp
    then have "sp_run cs st' = Some (ref_run cs ks)" using Cons.IH [OF s(2)] s(3) Cons.prems(2) by simp
    then show ?thesis using r s(1) by (cases "ref_run cs ks") simp_all
  qed
qed simp

text \<open>C39: On a new splay tree every sequence of calls of \<open>insert\<close>, \<open>erase\<close> and \<open>begin\<close> returns, follows no null
  pointer, and answers as a sorted list of the addresses of the events does: \<open>erase\<close> takes one occurrence out and says
  whether there was one, \<open>begin\<close> gives the least address, and \<open>erase\<close> on an empty tree fails its assertion.\<close>

theorem splay_refines_sorted_list:
  assumes "length cs < 2 ^ 32"
  shows "sp_run cs splay_new = Some (ref_run cs [])"
  using sp_run_ref [OF splay_inv_new, of cs] assms by simp

theorem splay_refines_sorted_list_witness:
  "sp_run [Op_Insert (sample_event 4 1), Op_Insert (sample_event 2 1), Op_Insert (sample_event 3 1), Op_Begin,
     Op_Erase (sample_event 2 1), Op_Begin, Op_Erase (sample_event 2 1)] splay_new =
   Some (Inr [Done, Done, Done, First (Some 2), Erased True, First (Some 3), Erased False])"
  by (subst splay_refines_sorted_list) (simp_all add: sample_event_def InitialEvent_def)

text \<open>\<open>begin\<close> is meant to give the lowest event, but the tree is ordered by the addresses of the events: of two events
  the later one comes first when its object is at the lower address.\<close>

theorem splay_begin_by_address:
  "\<exists>a b. timestamp a < timestamp b \<and>
     sp_run [Op_Insert a, Op_Insert b, Op_Begin] splay_new = Some (Inr [Done, Done, First (Some (ev_ptr b))])"
proof -
  have "sp_run [Op_Insert (sample_event 9 10), Op_Insert (sample_event 3 20), Op_Begin] splay_new =
      Some (Inr [Done, Done, First (Some (ev_ptr (sample_event 3 20)))])"
    by (subst sp_run_ref [OF splay_inv_new]) (simp_all add: sample_event_def InitialEvent_def)
  moreover have "timestamp (sample_event 9 10) < timestamp (sample_event 3 20)" by (simp add: sample_event_def)
  ultimately show ?thesis by blast
qed

end
