(* ===== verification/TW_Node.thy ===== *)
theory TW_Node
  imports TW_Dispatcher_Props
begin

text \<open>
  The node as a whole: \<open>node_ok\<close> is the refinement relation between the state of the dispatcher with all
  its managers and one history per LP, the events the LP has processed and not undone. \<open>run_ok\<close> of
  \<open>TW_LPRun\<close> holds of the view of each LP, and what the operations rely on between the LPs holds as well:
  the names, where the events are, and that addresses, generations and anti-messages are unique. The
  lemmas show that delivering and sending events and rolling back an LP keep it.
\<close>

section \<open>The invariant of a node\<close>

definition lp_view :: "(nat \<Rightarrow> event set) \<Rightarrow> (nat \<Rightarrow> event list) \<Rightarrow> nat \<Rightarrow> ('s, 'g, 'q, 'v, 'd) dispatcher \<Rightarrow> ('s, 'g, 'q) lp_run" where
  "lp_view U H i nd = \<lparr>history = H i, spent = U i, run_gvt = last_fossil_collect_gvt (d_lps nd ! i), run_es = d_es nd,
     run_sm = d_sm nd, run_lp = d_lps nd ! i\<rparr>"

abbreviation n_lps :: "('s, 'g, 'q, 'v, 'd) dispatcher \<Rightarrow> nat" where
  "n_lps nd \<equiv> num_of_lps (d_es nd)"

abbreviation out_queue :: "nat \<Rightarrow> ('s, 'g, 'q, 'v, 'd) dispatcher \<Rightarrow> OutputEvent list" where
  "out_queue i nd \<equiv> output_queue (d_om nd) ! i"

text \<open>The two maps by name agree with each other and with the map from names to nodes.\<close>

definition names_ok :: "('s, 'g, 'q, 'v, 'd) dispatcher \<Rightarrow> bool" where
  "names_ok nd \<longleftrightarrow> length (d_lps nd) = n_lps nd \<and>
     (\<forall>i<n_lps nd. lps_by_name nd (name (d_lps nd ! i)) = Some i) \<and>
     (\<forall>nm. node_id_by_lp_name (d_comm nd) nm = Some (my_id nd) \<longrightarrow>
        lp_id_of nm nd < n_lps nd \<and> lps_by_name nd nm = Some (lp_id_of nm nd))"

text \<open>The events in the queues of an LP are for this LP.\<close>

definition queues_ok :: "('s, 'g, 'q, 'v, 'd) dispatcher \<Rightarrow> bool" where
  "queues_ok nd \<longleftrightarrow> (\<forall>i<n_lps nd. \<forall>e\<in>set (input_queue (d_es nd) ! i) \<union> set (processed_queue (d_es nd) ! i).
     is_local nd e \<and> lp_id_of (receiverName e) nd = i)"

text \<open>Addresses and generations that have not been handed out.\<close>

definition fresh_ok :: "('s, 'g, 'q, 'v, 'd) dispatcher \<Rightarrow> bool" where
  "fresh_ok nd \<longleftrightarrow> (\<forall>x\<in>#all_events (d_es nd). ev_ptr x < next_ptr nd \<and>
     (\<forall>i<n_lps nd. sender_name x = name (d_lps nd ! i) \<longrightarrow> generation x < lp_generation (d_lps nd ! i)))"

text \<open>The output queue of an LP holds events that processing its history has sent, and no anti-message
  for any of them is on its way.\<close>

definition out_ok :: "event list \<Rightarrow> nat \<Rightarrow> ('s, 'g, 'q, 'v, 'd) dispatcher \<Rightarrow> bool" where
  "out_ok h i nd \<longleftrightarrow> om_sorted (out_queue i nd) \<and>
     sorted_wrt (<) (map (generation \<circ> output_event) (out_queue i nd)) \<and>
     (\<forall>x\<in>set (out_queue i nd).
        (ev_key (input_event x) = ev_key (InitialEvent 0) \<or> input_event x \<in> set h) \<and>
        sender_name (output_event x) = name (d_lps nd ! i) \<and>
        generation (output_event x) < lp_generation (d_lps nd ! i) \<and>
        node_id_by_lp_name (d_comm nd) (receiverName (output_event x)) \<noteq> None \<and>
        (\<forall>n\<in>#all_events (d_es nd). event_type n = NEGATIVE \<longrightarrow> ev_key n \<noteq> ev_key (output_event x)))"

definition sent_ok :: "(nat \<Rightarrow> event list) \<Rightarrow> ('s, 'g, 'q, 'v, 'd) dispatcher \<Rightarrow> bool" where
  "sent_ok H nd \<longleftrightarrow> length (output_queue (d_om nd)) = n_lps nd \<and> (\<forall>i<n_lps nd. out_ok (H i) i nd)"

text \<open>\<open>H i\<close> is the history of LP \<open>i\<close>, \<open>U i\<close> has its saved states that were moved out of, and \<open>sg0 i\<close> is its
  initial state; \<open>A\<close> are the LPs whose state is to be that of the history, \<open>P\<close> those in process.\<close>

definition node_ok :: "('s, 'g, event list, 'v, 'd) config \<Rightarrow> (nat \<Rightarrow> 's \<times> 'g list) \<Rightarrow>
    (nat \<Rightarrow> event set) \<Rightarrow> (nat \<Rightarrow> event list) \<Rightarrow> nat set \<Rightarrow> nat set \<Rightarrow>
    ('s, 'g, event list, 'v, 'd) dispatcher \<Rightarrow> bool" where
  "node_ok cfg sg0 U H A P nd \<longleftrightarrow>
     ms_inv P (d_es nd) \<and> names_ok nd \<and> queues_ok nd \<and> fresh_ok nd \<and> sent_ok H nd \<and>
     (\<forall>i<n_lps nd. (\<forall>x\<in>set (H i). event_type x = POSITIVE) \<and>
        (i \<in> A \<longrightarrow> run_ok (c_lp cfg) i (sg0 i) (lp_view U H i nd)))"

lemma node_okD:
  assumes "node_ok cfg sg0 U H A P nd"
  shows "ms_inv P (d_es nd)" "names_ok nd" "queues_ok nd" "fresh_ok nd" "sent_ok H nd"
    "length (d_lps nd) = n_lps nd" "length (output_queue (d_om nd)) = n_lps nd"
    "i < n_lps nd \<Longrightarrow> i < length (d_lps nd)"
    "i < n_lps nd \<Longrightarrow> x \<in> set (H i) \<Longrightarrow> event_type x = POSITIVE"
    "i < n_lps nd \<Longrightarrow> out_ok (H i) i nd"
    "i < n_lps nd \<Longrightarrow> i \<in> A \<Longrightarrow> run_ok (c_lp cfg) i (sg0 i) (lp_view U H i nd)"
    "i < n_lps nd \<Longrightarrow> lps_by_name nd (name (d_lps nd ! i)) = Some i"
  using assms by (auto simp: node_ok_def names_ok_def sent_ok_def)

text \<open>What \<open>run_ok\<close> depends on.\<close>

lemma run_ok_cong:
  assumes "run_ok ops i sg0 c" and "history c' = history c" "spent c' = spent c" "run_gvt c' = run_gvt c" "run_pq i c' = run_pq i c"
    "run_saved i c' = run_saved i c" "run_sg c' = run_sg c"
    and "i < length (state_queue (run_sm c'))" "i < length (processed_queue (run_es c'))"
      "i < length (input_queue (run_es c'))"
  shows "run_ok ops i sg0 c'"
  using assms by (simp add: run_ok_def past_gvt_def Let_def)

lemma names_unique:
  "names_ok nd \<Longrightarrow> i < n_lps nd \<Longrightarrow> j < n_lps nd \<Longrightarrow> name (d_lps nd ! i) = name (d_lps nd ! j) \<Longrightarrow> i = j"
  by (metis names_ok_def option.inject)

lemma known_receiver_names:
  "names_ok nd \<Longrightarrow> known_receiver nd e \<longleftrightarrow> node_id_by_lp_name (d_comm nd) (receiverName e) \<noteq> None"
  by (auto simp: known_receiver_def names_ok_def is_local_def)

section \<open>Delivering events\<close>

text \<open>What may be put on the node: a new address, and the generation and the anti-messages of local
  LPs stay unique.\<close>

definition may_arrive :: "('s, 'g, 'q, 'v, 'd) dispatcher \<Rightarrow> event \<Rightarrow> bool" where
  "may_arrive nd x \<longleftrightarrow> (\<forall>j<n_lps nd.
     (sender_name x = name (d_lps nd ! j) \<longrightarrow> generation x < lp_generation (d_lps nd ! j)) \<and>
     (event_type x = NEGATIVE \<longrightarrow> (\<forall>y\<in>set (out_queue j nd). ev_key x \<noteq> ev_key (output_event y))))"

lemma node_ok_deliver:
  fixes nd :: "('s, 'g, event list, 'v, 'd) dispatcher"
  assumes ok: "node_ok cfg sg0 U H A P nd" and r: "routed P nd S nd'"
    and eq: "d_lps nd' = d_lps nd" "d_om nd' = d_om nd"
    and ptr: "next_ptr nd \<le> next_ptr nd'"
    and S: "\<forall>x\<in>set S. is_local nd x \<longrightarrow> ev_ptr x < next_ptr nd' \<and> may_arrive nd x"
  shows "node_ok cfg sg0 U H A P nd'"
proof -
  note D = node_okD [OF ok]
  have f: "same_frame nd nd'" using r by (simp add: routed_def)
  note fs = same_frame_simps [OF f]
  have inv: "ms_inv P (d_es nd')" using r by (simp add: routed_def)
  have all: "x \<in># all_events (d_es nd) \<or> x \<in> set S \<and> is_local nd x" if "x \<in># all_events (d_es nd')" for x
    using r that by (auto simp: routed_def)
  have names: "names_ok nd'"
    using D(2) f eq by (simp add: names_ok_def same_frame_def lp_id_of_def my_id_def)
  have iq: "x \<in> set (input_queue (d_es nd) ! i) \<or> x \<in> set S \<and> is_local nd x \<and> lp_id_of (receiverName x) nd = i"
    if "i < n_lps nd" "x \<in> set (input_queue (d_es nd') ! i)" for i x
  proof -
    have "mset (input_queue (d_es nd') ! i) = mset (input_queue (d_es nd) ! i) +
        mset (filter (\<lambda>e. is_local nd e \<and> lp_id_of (receiverName e) nd = i) S)"
      using r that(1) by (simp add: routed_def)
    then have "set_mset (mset (input_queue (d_es nd') ! i)) = set_mset (mset (input_queue (d_es nd) ! i) +
        mset (filter (\<lambda>e. is_local nd e \<and> lp_id_of (receiverName e) nd = i) S))" by (rule arg_cong)
    with that(2) show ?thesis by auto
  qed
  have queues: "queues_ok nd'"
    using D(3) iq f unfolding queues_ok_def fs same_frame_def by auto
  have fresh: "fresh_ok nd'"
    unfolding fresh_ok_def fs eq
  proof (intro ballI conjI allI impI)
    fix x assume x: "x \<in># all_events (d_es nd')"
    show "ev_ptr x < next_ptr nd'"
      using all [OF x] D(4) S ptr unfolding fresh_ok_def by (meson order_less_le_trans)
    fix i assume "i < n_lps nd" "sender_name x = name (d_lps nd ! i)"
    then show "generation x < lp_generation (d_lps nd ! i)"
      using all [OF x] D(4) S unfolding fresh_ok_def may_arrive_def by blast
  qed
  have sent: "sent_ok H nd'"
  proof -
    have "out_ok (H i) i nd'" if "i < n_lps nd" for i
    proof -
      note o = D(10) [OF that]
      have "ev_key n \<noteq> ev_key (output_event y)"
        if "n \<in># all_events (d_es nd')" "event_type n = NEGATIVE" "y \<in> set (out_queue i nd)" for n y
        using all [OF that(1)] o S that(2,3) \<open>i < n_lps nd\<close> unfolding out_ok_def may_arrive_def by blast
      moreover have "node_id_by_lp_name (d_comm nd') = node_id_by_lp_name (d_comm nd)"
        using f by (simp add: same_frame_def)
      ultimately show ?thesis using o unfolding out_ok_def eq by metis
    qed
    then show ?thesis using D(7) eq by (simp add: sent_ok_def fs)
  qed
  have len: "i < n_lps nd \<Longrightarrow> i < length (input_queue (d_es nd'))" for i
    using inv fs(6) by (auto simp: es_inv_def es_shape_def)
  have "run_ok (c_lp cfg) i (sg0 i) (lp_view U H i nd')" if "i < n_lps nd" "i \<in> A" for i
    by (rule run_ok_cong [OF D(11) [OF that]])
      (use f eq run_okD(1,2) [OF D(11) [OF that]] len that in \<open>simp_all add: lp_view_def same_frame_def\<close>)
  then show ?thesis
    unfolding node_ok_def fs eq using inv names queues fresh sent D(9) by fastforce
qed

section \<open>Steps that concern other parts\<close>

definition node_same :: "('s, 'g, 'q, 'v, 'd) dispatcher \<Rightarrow> ('s, 'g, 'q, 'v, 'd) dispatcher \<Rightarrow> bool" where
  "node_same nd nd' \<longleftrightarrow> max_sim_time nd' = max_sim_time nd \<and> d_lps nd' = d_lps nd \<and> d_om nd' = d_om nd \<and> d_sm nd' = d_sm nd \<and>
     next_ptr nd \<le> next_ptr nd' \<and> lps_by_name nd' = lps_by_name nd \<and>
     local_lp_id_by_name nd' = local_lp_id_by_name nd \<and>
     node_id_by_lp_name (d_comm nd') = node_id_by_lp_name (d_comm nd) \<and>
     my_rank (d_comm nd') = my_rank (d_comm nd) \<and> n_lps nd' = n_lps nd \<and>
     input_queue (d_es nd') = input_queue (d_es nd) \<and> processed_queue (d_es nd') = processed_queue (d_es nd)"

lemma node_ok_same:
  assumes ok: "node_ok cfg sg0 U H A P nd" and same: "node_same nd nd'"
    and inv: "ms_inv P' (d_es nd')"
  shows "node_ok cfg sg0 U H A P' nd'"
proof -
  note D = node_okD [OF ok]
  note s = same [unfolded node_same_def]
  have all: "all_events (d_es nd') = all_events (d_es nd)" using s by (simp add: all_events_def)
  have names: "names_ok nd'" using D(2) s by (simp add: names_ok_def my_id_def lp_id_of_def)
  have queues: "queues_ok nd'" using D(3) s by (simp add: queues_ok_def is_local_def my_id_def lp_id_of_def)
  have fresh: "fresh_ok nd'" using D(4) s all by (auto simp: fresh_ok_def)
  have sent: "sent_ok H nd'" using D(5) s all by (simp add: sent_ok_def out_ok_def)
  have run: "run_ok (c_lp cfg) i (sg0 i) (lp_view U H i nd')" if "i < n_lps nd" "i \<in> A" for i
    by (rule run_ok_cong [OF D(11) [OF that]])
      (use s run_okD(1-3) [OF D(11) [OF that]] in \<open>simp_all add: lp_view_def\<close>)
  show ?thesis
    unfolding node_ok_def using inv names queues fresh sent run D(9) s by simp
qed

lemma getEvent_node:
  assumes ok: "node_ok cfg sg0 U H A P nd" and t: "t < length (worker_thread_scheduler_map (d_es nd))"
    and get: "getEvent multiset_ops t (d_es nd) = Inr (r, es)"
  shows "r = None \<Longrightarrow> node_ok cfg sg0 U H A P (nd\<lparr>d_es := es\<rparr>)"
    "r = Some e \<Longrightarrow> \<exists>i<n_lps nd. i \<notin> P \<and> scheduled_event_pointer es ! i = Some e \<and>
       e \<in> set (input_queue es ! i) \<and> node_ok cfg sg0 U H A (insert i P) (nd\<lparr>d_es := es\<rparr>)"
proof -
  note inv = node_okD(1) [OF ok]
  obtain q where es: "es = set_schedule (worker_thread_scheduler_map (d_es nd) ! t) q (d_es nd)"
    and r: "case r of None \<Rightarrow> ms_inv P es
      | Some e \<Rightarrow> \<exists>lp\<in>waiting P (d_es nd) (worker_thread_scheduler_map (d_es nd) ! t).
          scheduled_event_pointer (d_es nd) ! lp = Some e \<and> ms_inv (insert lp P) es"
  proof -
    obtain r' q where q: "getEvent multiset_ops t (d_es nd) =
        Inr (r', set_schedule (worker_thread_scheduler_map (d_es nd) ! t) q (d_es nd))"
      "case r' of None \<Rightarrow> ms_inv P (set_schedule (worker_thread_scheduler_map (d_es nd) ! t) q (d_es nd))
       | Some e \<Rightarrow> \<exists>lp\<in>waiting P (d_es nd) (worker_thread_scheduler_map (d_es nd) ! t).
          scheduled_event_pointer (d_es nd) ! lp = Some e \<and>
          ms_inv (insert lp P) (set_schedule (worker_thread_scheduler_map (d_es nd) ! t) q (d_es nd))"
      using msq.getEvent_ok [OF inv t] by (fastforce split: option.splits)
    then have e: "es = set_schedule (worker_thread_scheduler_map (d_es nd) ! t) q (d_es nd)" "r' = r"
      using get by (simp_all del: set_defs)
    show ?thesis by (rule that [OF e(1)]) (use q(2) in \<open>simp only: e\<close>)
  qed
  have same: "node_same nd (nd\<lparr>d_es := es\<rparr>)" by (simp add: node_same_def es)
  show "node_ok cfg sg0 U H A P (nd\<lparr>d_es := es\<rparr>)" if "r = None"
    using r that by (intro node_ok_same [OF ok same]) simp_all
  show "\<exists>i<n_lps nd. i \<notin> P \<and> scheduled_event_pointer es ! i = Some e \<and>
       e \<in> set (input_queue es ! i) \<and> node_ok cfg sg0 U H A (insert i P) (nd\<lparr>d_es := es\<rparr>)" if some: "r = Some e"
  proof -
    obtain i where i: "i \<in> waiting P (d_es nd) (worker_thread_scheduler_map (d_es nd) ! t)"
      "scheduled_event_pointer (d_es nd) ! i = Some e" "ms_inv (insert i P) es"
      using r some by auto
    then have "i < n_lps nd" "i \<notin> P" by (auto simp: waiting_def)
    moreover have "e \<in> set (input_queue es ! i)"
      using es_inv_pointer(1) [OF inv \<open>i < n_lps nd\<close> i(2)] by (simp add: es)
    moreover have "node_ok cfg sg0 U H A (insert i P) (nd\<lparr>d_es := es\<rparr>)"
      using i(3) by (intro node_ok_same [OF ok same]) simp_all
    ultimately show ?thesis using i(2) by (auto simp: es)
  qed
qed

section \<open>The events that an LP sends\<close>

lemma stamped_mem:
  assumes "x \<in> set (stamped mx p s lp es)" and "unat (lp_generation lp) + length es < 2 ^ 64"
  shows "p \<le> ev_ptr x \<and> ev_ptr x < p + length (stamped mx p s lp es) \<and> timestamp x \<le> mx \<and>
    sender_name x = name lp \<and> unat (lp_generation lp) \<le> unat (generation x) \<and>
    unat (generation x) < unat (lp_generation lp) + length (stamped mx p s lp es) \<and>
    (\<exists>e\<in>set es. event_type x = event_type e \<and> receiverName x = receiverName e)"
  using assms
proof (induction mx p s lp es rule: stamped.induct)
  case (2 mx p s lp e es)
  have g: "unat (lp_generation lp + 1) = Suc (unat (lp_generation lp))"
    using 2(4) by (intro unat_generation_Suc) simp
  show ?case
  proof (cases "timestamp e \<le> mx")
    case True
    with 2(3) consider "x = stamp p s lp e" | "x \<in> set (stamped mx (p + 1) s (lp\<lparr>lp_generation := lp_generation lp + 1\<rparr>) es)"
      by auto
    then show ?thesis
    proof cases
      case 1
      then show ?thesis using True by (auto simp: stamp_def)
    next
      case 2
      with "2.IH"(1) [OF True] "2.prems"(2) g True show ?thesis by auto
    qed
  qed (use 2 in auto)
qed simp

lemma stamped_increasing:
  assumes "unat (lp_generation lp) + length es < 2 ^ 64"
  shows "sorted_wrt (<) (map generation (stamped mx p s lp es))"
  using assms
proof (induction mx p s lp es rule: stamped.induct)
  case (2 mx p s lp e es)
  have g: "unat (lp_generation lp + 1) = Suc (unat (lp_generation lp))"
    using 2(3) by (intro unat_generation_Suc) simp
  have "lp_generation lp < generation x"
    if "x \<in> set (stamped mx (p + 1) s (lp\<lparr>lp_generation := lp_generation lp + 1\<rparr>) es)" for x
    using stamped_mem [OF that] 2(3) g by (auto simp: word_less_nat_alt)
  with 2 g show ?case by simp
qed simp

lemma stamped_length: "length (stamped mx p s lp es) \<le> length es"
  by (induction mx p s lp es rule: stamped.induct) auto

lemma record_outputs_queue:
  "output_queue (record_outputs s i S om) =
     (if i < length (output_queue om)
      then (output_queue om)[i := output_queue om ! i @ map (\<lambda>e. \<lparr>input_event = s, output_event = e\<rparr>) S]
      else output_queue om)"
  by (induction S arbitrary: om) (auto simp: record_outputs_def om_insertEvent_def list_update_beyond not_less)

text \<open>What the model's event handler returns: positive events for known receivers.\<close>

definition may_send :: "('s, 'g, 'q, 'v, 'd) dispatcher \<Rightarrow> ('s, 'g) lp \<Rightarrow> event list \<Rightarrow> bool" where
  "may_send nd lp es \<longleftrightarrow> unat (lp_generation lp) + length es < 2 ^ 64 \<and>
     (\<forall>e\<in>set es. event_type e = POSITIVE \<and> node_id_by_lp_name (d_comm nd) (receiverName e) \<noteq> None)"

lemma om_sorted_extend:
  assumes "om_sorted q" and "\<forall>x\<in>set q. ev_key (input_event x) \<le> ev_key s"
  shows "om_sorted (q @ map (\<lambda>e. \<lparr>input_event = s, output_event = e\<rparr>) S)"
  using assms by (auto simp: om_sorted_wrt sorted_wrt_append sorted_wrt_map intro: sorted_wrt_true)

text \<open>Recording the events in the output queue, before they are delivered.\<close>

lemma record_outputs_node:
  fixes nd :: "('s, 'g, event list, 'v, 'd) dispatcher" and p :: nat
  assumes ok: "node_ok cfg sg0 U H A P nd" and i: "i < n_lps nd"
    and send: "may_send nd (d_lps nd ! i) es"
    and source: "ev_key source = ev_key (InitialEvent 0) \<or> source \<in> set (H i)"
      "\<forall>x\<in>set (out_queue i nd). ev_key (input_event x) \<le> ev_key source"
  defines "S \<equiv> stamped (max_sim_time nd) p source (d_lps nd ! i) es"
  shows "node_ok cfg sg0 U H A P (nd\<lparr>d_lps := (d_lps nd)[i := (d_lps nd ! i)\<lparr>lp_generation :=
      lp_generation (d_lps nd ! i) + of_nat (length S)\<rparr>], d_om := record_outputs source i S (d_om nd)\<rparr>)"
    (is "node_ok _ _ _ _ _ _ ?nd1")
proof -
  note D = node_okD [OF ok]
  let ?lp = "d_lps nd ! i"
  have bound: "unat (lp_generation ?lp) + length es < 2 ^ 64" using send by (simp add: may_send_def)
  have len: "length S \<le> length es" unfolding S_def by (rule stamped_length)
  have g': "unat (lp_generation ?lp + of_nat (length S)) = unat (lp_generation ?lp) + length S"
    using bound len by (simp add: unat_word_ariths unat_of_nat)
  have grow: "generation x < lp_generation ?lp \<Longrightarrow> generation x < lp_generation ?lp + of_nat (length S)" for x
    using g' by (simp add: word_less_nat_alt)
  have mem: "sender_name x = name ?lp \<and> unat (lp_generation ?lp) \<le> unat (generation x) \<and>
      generation x < lp_generation ?lp + of_nat (length S) \<and>
      node_id_by_lp_name (d_comm nd) (receiverName x) \<noteq> None" if "x \<in> set S" for x
    using stamped_mem [OF that [unfolded S_def] bound, folded S_def] send g'
    by (auto simp: may_send_def word_less_nat_alt)
  have lps: "name (d_lps ?nd1 ! j) = name (d_lps nd ! j)" "lp_state (d_lps ?nd1 ! j) = lp_state (d_lps nd ! j)"
    "rng_list (d_lps ?nd1 ! j) = rng_list (d_lps nd ! j)"
    "last_fossil_collect_gvt (d_lps ?nd1 ! j) = last_fossil_collect_gvt (d_lps nd ! j)" for j
    using i D(6) by (simp_all add: nth_list_update_if)
  have names: "names_ok ?nd1"
    using D(2) unfolding names_ok_def lps by (simp add: my_id_def lp_id_of_def)
  have queues: "queues_ok ?nd1" using D(3) by (simp add: queues_ok_def is_local_def my_id_def lp_id_of_def)
  have fresh: "fresh_ok ?nd1"
    using D(4,6) i grow by (auto simp: fresh_ok_def nth_list_update_if)
  have oi: "output_queue (d_om ?nd1) = (output_queue (d_om nd))[i := out_queue i nd @
      map (\<lambda>e. \<lparr>input_event = source, output_event = e\<rparr>) S]"
    using i D(7) by (simp add: record_outputs_queue)
  note o = D(10) [OF i, unfolded out_ok_def]
  have neg: "ev_key n \<noteq> ev_key x" if "x \<in> set S" "n \<in># all_events (d_es nd)" for n x
  proof
    assume "ev_key n = ev_key x"
    then have "sender_name n = name ?lp" "generation n = generation x"
      using mem [OF that(1)] by (simp_all add: ev_key_def)
    then have "generation x < lp_generation ?lp" using D(4) that(2) i by (metis fresh_ok_def)
    with mem [OF that(1)] show False by (simp add: word_less_nat_alt)
  qed
  have gens: "sorted_wrt (<) (map (generation \<circ> output_event) (out_queue i nd @
      map (\<lambda>e. \<lparr>input_event = source, output_event = e\<rparr>) S))"
  proof -
    have "generation (output_event y) < generation x" if "y \<in> set (out_queue i nd)" "x \<in> set S" for x y
    proof -
      have "generation (output_event y) < lp_generation ?lp" using o that(1) by blast
      with mem [OF that(2)] show ?thesis by (simp add: word_less_nat_alt)
    qed
    then show ?thesis
      using o stamped_increasing [OF bound, of "max_sim_time nd" p source, folded S_def]
      by (auto simp: sorted_wrt_append o_def)
  qed
  have "out_ok (H j) j ?nd1" if j: "j < n_lps nd" for j
  proof (cases "j = i")
    case False
    then have q: "out_queue j ?nd1 = out_queue j nd" "d_lps ?nd1 ! j = d_lps nd ! j"
      by (simp_all add: oi [simplified])
    show ?thesis unfolding out_ok_def q using D(10) [OF j] by (simp add: out_ok_def)
  next
    case True
    have sorted: "om_sorted (out_queue i nd @ map (\<lambda>e. \<lparr>input_event = source, output_event = e\<rparr>) S)"
      using o source(2) by (intro om_sorted_extend) simp_all
    have q: "out_queue i ?nd1 = out_queue i nd @ map (\<lambda>e. \<lparr>input_event = source, output_event = e\<rparr>) S"
      using i D(7) by (simp add: oi [simplified])
    have lp: "d_lps ?nd1 ! i = ?lp\<lparr>lp_generation := lp_generation ?lp + of_nat (length S)\<rparr>"
      using i D(6) by simp
    have og: "generation (output_event y) < lp_generation ?lp + of_nat (length S)"
      if "y \<in> set (out_queue i nd)" for y using o grow that by blast
    show ?thesis
      unfolding True out_ok_def q lp using sorted gens o og mem neg source(1) by auto
  qed
  then have sent: "sent_ok H ?nd1" using D(7) by (simp add: sent_ok_def record_outputs_queue)
  have run: "run_ok (c_lp cfg) j (sg0 j) (lp_view U H j ?nd1)" if "j < n_lps nd" "j \<in> A" for j
    by (rule run_ok_cong [OF D(11) [OF that]])
      (use lps run_okD(1-3) [OF D(11) [OF that]] in \<open>simp_all add: lp_view_def\<close>)
  show ?thesis
    unfolding node_ok_def lps using D(1,8,9) names queues fresh sent run by simp
qed

lemma sendEvents_node:
  fixes nd :: "('s, 'g, event list, 'v, 'd) dispatcher"
  assumes ok: "node_ok cfg sg0 U H A P nd" and cfg: "c_sched cfg = multiset_ops" "keeps_gvt (c_gvt cfg)"
    and i: "i < n_lps nd" and send: "may_send nd (d_lps nd ! i) es"
    and source: "ev_key source = ev_key (InitialEvent 0) \<or> source \<in> set (H i)"
      "\<forall>x\<in>set (out_queue i nd). ev_key (input_event x) \<le> ev_key source"
  shows "\<exists>nd' g. sendEvents cfg t source es i i nd = Inr nd' \<and> node_ok cfg sg0 U H A P nd' \<and>
    same_frame nd nd' \<and> node_gvt cfg nd' = node_gvt cfg nd \<and> next_ptr nd \<le> next_ptr nd' \<and>
    d_lps nd' = (d_lps nd)[i := (d_lps nd ! i)\<lparr>lp_generation := g\<rparr>] \<and>
    d_om nd' = record_outputs source i (stamped (max_sim_time nd) (next_ptr nd) source (d_lps nd ! i) es) (d_om nd) \<and>
    routed P nd (stamped (max_sim_time nd) (next_ptr nd) source (d_lps nd ! i) es) nd'"
proof -
  note D = node_okD [OF ok]
  let ?lp = "d_lps nd ! i"
  define S where "S = stamped (max_sim_time nd) (next_ptr nd) source ?lp es"
  define g where "g = lp_generation ?lp + of_nat (length S)"
  let ?nd1 = "nd\<lparr>d_lps := (d_lps nd)[i := ?lp\<lparr>lp_generation := g\<rparr>], d_om := record_outputs source i S (d_om nd)\<rparr>"
  have bound: "unat (lp_generation ?lp) + length es < 2 ^ 64" using send by (simp add: may_send_def)
  have il: "i < length (d_lps nd)" using i D(6) by simp
  have known: "\<forall>e\<in>set es. known_receiver nd e"
    using send known_receiver_names [OF D(2)] by (simp add: may_send_def)
  have sf: "sender_fresh (next_ptr nd) ?lp es (d_es nd)"
    using send D(4) i by (fastforce simp: sender_fresh_def may_send_def fresh_ok_def word_less_nat_alt)
  obtain nd' where nd': "sendEvents cfg t source es i i nd = Inr nd'" "routed P nd S nd'"
    "d_om nd' = record_outputs source i S (d_om nd)" "d_lps nd' = (d_lps nd)[i := ?lp\<lparr>lp_generation := g\<rparr>]"
    "next_ptr nd' = next_ptr nd + length S"
    using sendEvents_ok [OF D(1) cfg(1) il known sf, of t source i] unfolding S_def g_def by blast
  have gvt: "node_gvt cfg nd' = node_gvt cfg nd" by (rule sendEvents_gvt [OF nd'(1) cfg(2)])
  have ok1: "node_ok cfg sg0 U H A P ?nd1"
    using record_outputs_node [OF ok i send source, of "next_ptr nd"] unfolding S_def g_def .
  have r1: "routed P ?nd1 S nd'" by (rule routed_cong_source [OF nd'(2)]) simp_all
  have names1: "name (d_lps ?nd1 ! j) = name (d_lps nd ! j)" for j
    using i D(6) by (simp add: nth_list_update_if)
  have "ev_ptr x < next_ptr nd' \<and> may_arrive ?nd1 x" if x: "x \<in> set S" for x
  proof -
    obtain e where e: "e \<in> set es" "ev_ptr x < next_ptr nd + length S" "event_type x = event_type e" "sender_name x = name ?lp"
      "unat (generation x) < unat (lp_generation ?lp) + length S"
      using stamped_mem [OF x [unfolded S_def] bound, folded S_def] by auto
    have "length S \<le> length es" unfolding S_def by (rule stamped_length)
    then have "generation x < g"
      using bound e(5) by (simp add: g_def word_less_nat_alt unat_word_ariths unat_of_nat)
    then have "generation x < lp_generation (d_lps ?nd1 ! j)"
      if "j < n_lps nd" "sender_name x = name (d_lps ?nd1 ! j)" for j
      using names_unique [OF D(2) that(1) i] that(2) e(4) names1 i D(6) by simp
    then show ?thesis
      using send e(1-3) nd'(5) by (auto simp: may_send_def may_arrive_def)
  qed
  then have "node_ok cfg sg0 U H A P nd'"
    using nd' by (intro node_ok_deliver [OF ok1 r1]) simp_all
  then show ?thesis
    using nd' gvt by (intro exI [of _ nd'] exI [of _ g]) (simp add: routed_def S_def)
qed

section \<open>The flow of events\<close>

text \<open>What an operation on LP \<open>i\<close> does to the events of the node: \<open>add\<close> come into the input queues and \<open>del\<close> leave
  them, only such come into the processed queues, and if \<open>G j\<close> is all that the history of LP \<open>j\<close> has sent, of which the output queue has what fossil
  collection has left, then it is so afterwards with \<open>f (G i)\<close> for LP \<open>i\<close>.\<close>

abbreviation inputs :: "('s, 'g, 'q, 'v, 'd) dispatcher \<Rightarrow> event multiset" where
  "inputs nd \<equiv> mset (concat (input_queue (d_es nd)))"

definition record_ok :: "(nat \<Rightarrow> OutputEvent list) \<Rightarrow> ('s, 'g, 'q, 'v, 'd) dispatcher \<Rightarrow> bool" where
  "record_ok G nd \<longleftrightarrow> (\<forall>j<n_lps nd. \<exists>p. G j = p @ out_queue j nd \<and>
     (\<forall>x\<in>set p. timestamp (input_event x) < last_fossil_collect_gvt (d_lps nd ! j)))"

definition node_frame :: "('s, 'g, 'q, 'v, 'd) dispatcher \<Rightarrow> ('s, 'g, 'q, 'v, 'd) dispatcher \<Rightarrow> bool" where
  "node_frame nd nd' \<longleftrightarrow> max_sim_time nd' = max_sim_time nd \<and> n_lps nd' = n_lps nd \<and>
     node_id_by_lp_name (d_comm nd') = node_id_by_lp_name (d_comm nd) \<and> my_rank (d_comm nd') = my_rank (d_comm nd) \<and>
     local_lp_id_by_name nd' = local_lp_id_by_name nd \<and>
     (\<forall>j<n_lps nd. name (d_lps nd' ! j) = name (d_lps nd ! j))"

definition flows :: "('s, 'g, 'q, 'v, 'd) dispatcher \<Rightarrow> nat \<Rightarrow> (OutputEvent list \<Rightarrow> OutputEvent list) \<Rightarrow>
    event multiset \<Rightarrow> event multiset \<Rightarrow> ('s, 'g, 'q, 'v, 'd) dispatcher \<Rightarrow> bool" where
  "flows nd i f add del nd' \<longleftrightarrow> node_frame nd nd' \<and> inputs nd' + del = inputs nd + add \<and>
     (\<forall>j<n_lps nd. set (processed_queue (d_es nd') ! j) \<subseteq> set (processed_queue (d_es nd) ! j) \<union> set_mset del) \<and>
     (\<forall>G. record_ok G nd \<longrightarrow> record_ok (G(i := f (G i))) nd')"

text \<open>All that the LPs have sent to LPs of this node.\<close>

definition local_sent :: "(nat \<Rightarrow> OutputEvent list) \<Rightarrow> ('s, 'g, 'q, 'v, 'd) dispatcher \<Rightarrow> event multiset" where
  "local_sent G nd = (\<Sum>j<n_lps nd. mset (filter (is_local nd) (map output_event (G j))))"

lemma local_sent_update:
  assumes "i < n_lps nd"
  shows "local_sent (G(i := g)) nd + mset (filter (is_local nd) (map output_event (G i))) =
    local_sent G nd + mset (filter (is_local nd) (map output_event g))"
proof -
  have "local_sent (G(i := g)) nd = mset (filter (is_local nd) (map output_event g)) +
      (\<Sum>j\<in>{..<n_lps nd} - {i}. mset (filter (is_local nd) (map output_event (G j))))"
    unfolding local_sent_def by (subst sum.remove [of _ i]) (use assms in simp_all)
  moreover have "local_sent G nd = mset (filter (is_local nd) (map output_event (G i))) +
      (\<Sum>j\<in>{..<n_lps nd} - {i}. mset (filter (is_local nd) (map output_event (G j))))"
    unfolding local_sent_def by (subst sum.remove [of _ i]) (use assms in simp_all)
  ultimately show ?thesis by simp
qed

lemma local_sent_cong:
  "(\<And>j. j < n_lps nd \<Longrightarrow> G j = G' j) \<Longrightarrow> local_sent G nd = local_sent G' nd"
  by (simp add: local_sent_def)

lemma node_frame_is_local: "node_frame nd nd' \<Longrightarrow> is_local nd' = is_local nd"
  by (simp add: node_frame_def is_local_def [abs_def] my_id_def)

lemma flows_trans:
  assumes "flows nd i f a d nd1" and "flows nd1 i g a' d' nd2"
  shows "flows nd i (g \<circ> f) (a + a') (d + d') nd2"
proof -
  have "inputs nd2 + d' = inputs nd1 + a'" "inputs nd1 + d = inputs nd + a" using assms by (simp_all add: flows_def)
  then have "inputs nd2 + (d + d') = inputs nd + (a + a')" by (metis add.assoc add.commute)
  moreover have "record_ok (G(i := g (f (G i)))) nd2" if "record_ok G nd" for G
  proof -
    have "record_ok (G(i := f (G i))) nd1" using that assms(1) by (simp add: flows_def)
    moreover have "\<forall>G. record_ok G nd1 \<longrightarrow> record_ok (G(i := g (G i))) nd2" using assms(2) by (simp add: flows_def)
    ultimately have "record_ok ((G(i := f (G i)))(i := g ((G(i := f (G i))) i))) nd2" by blast
    then show ?thesis by simp
  qed
  moreover have "set (processed_queue (d_es nd2) ! j) \<subseteq> set (processed_queue (d_es nd) ! j) \<union> set_mset (d + d')"
    if "j < n_lps nd" for j
  proof -
    have "set (processed_queue (d_es nd1) ! j) \<subseteq> set (processed_queue (d_es nd) ! j) \<union> set_mset d"
      "set (processed_queue (d_es nd2) ! j) \<subseteq> set (processed_queue (d_es nd1) ! j) \<union> set_mset d'"
      using assms that by (simp_all add: flows_def node_frame_def)
    then show ?thesis by auto
  qed
  ultimately show ?thesis using assms by (simp add: flows_def node_frame_def)
qed

lemma flows_id:
  assumes "node_frame nd nd'" and "inputs nd' + d = inputs nd + a"
    and "\<And>j. j < n_lps nd \<Longrightarrow> set (processed_queue (d_es nd') ! j) \<subseteq> set (processed_queue (d_es nd) ! j) \<union> set_mset d"
    and "\<And>j. j < n_lps nd \<Longrightarrow> out_queue j nd' = out_queue j nd"
    and "\<And>j. j < n_lps nd \<Longrightarrow> last_fossil_collect_gvt (d_lps nd' ! j) = last_fossil_collect_gvt (d_lps nd ! j)"
  shows "flows nd i id a d nd'"
  using assms by (simp add: flows_def record_ok_def node_frame_def)

lemma node_same_flows: "node_same nd nd' \<Longrightarrow> flows nd i id {#} {#} nd'"
  by (rule flows_id) (simp_all add: node_same_def node_frame_def)

text \<open>The LP's part of the record changes by \<open>f\<close>, which does to the output queue what was done to it.\<close>

lemma flows_record:
  assumes "node_frame nd nd'" and "inputs nd' + d = inputs nd + a" and "i < n_lps nd"
    and "\<And>j. j < n_lps nd \<Longrightarrow> set (processed_queue (d_es nd') ! j) \<subseteq> set (processed_queue (d_es nd) ! j) \<union> set_mset d"
    and "\<And>j. j < n_lps nd \<Longrightarrow> j \<noteq> i \<Longrightarrow> out_queue j nd' = out_queue j nd"
    and "\<And>j. j < n_lps nd \<Longrightarrow> last_fossil_collect_gvt (d_lps nd' ! j) = last_fossil_collect_gvt (d_lps nd ! j)"
    and "\<And>p. \<forall>x\<in>set p. timestamp (input_event x) < last_fossil_collect_gvt (d_lps nd ! i) \<Longrightarrow>
      f (p @ out_queue i nd) = p @ out_queue i nd'"
  shows "flows nd i f a d nd'"
proof -
  have "record_ok (G(i := f (G i))) nd'" if G: "record_ok G nd" for G
    unfolding record_ok_def
  proof (intro allI impI)
    fix j assume "j < n_lps nd'"
    then have j: "j < n_lps nd" using assms(1) by (simp add: node_frame_def)
    obtain p where p: "G j = p @ out_queue j nd"
      "\<forall>x\<in>set p. timestamp (input_event x) < last_fossil_collect_gvt (d_lps nd ! j)"
      using G j unfolding record_ok_def by blast
    have "(G(i := f (G i))) j = p @ out_queue j nd'"
      using p assms(5) [OF j] assms(7) [of p] by (cases "j = i") auto
    then show "\<exists>p. (G(i := f (G i))) j = p @ out_queue j nd' \<and>
        (\<forall>x\<in>set p. timestamp (input_event x) < last_fossil_collect_gvt (d_lps nd' ! j))"
      using p(2) assms(6) [OF j] by auto
  qed
  then show ?thesis using assms(1,2,4) by (simp add: flows_def)
qed

lemma routed_inputs: "routed P nd S nd' \<Longrightarrow> inputs nd' = inputs nd + mset (filter (is_local nd) S)"
  by (auto simp: routed_def same_frame_def all_events_def)

lemma rollback_inputs:
  assumes "sorted_wrt ev_less (processed_queue es ! i)" and "i < length (processed_queue es)" "i < length (input_queue es)"
  shows "mset (concat (input_queue (rollback i r es))) =
    mset (concat (input_queue es)) + mset (filter (\<lambda>x. ev_ge x r) (processed_queue es ! i))"
proof -
  have "input_queue (rollback i r es) = (input_queue es)[i := input_queue (rollback i r es) ! i]"
    using assms(2,3) by (simp add: rollback_def split: prod.split)
  then have "mset (concat (input_queue (rollback i r es))) + mset (input_queue es ! i) =
      mset (concat (input_queue es)) + mset (input_queue (rollback i r es) ! i)"
    using concat_update_mset [OF assms(3)] by metis
  then show ?thesis using rollback_queues(2) [OF assms] by simp
qed

text \<open>What an LP has collected fossils for only grows, up to \<open>g\<close>.\<close>

definition fossils_to :: "u32 \<Rightarrow> ('s, 'g, 'q, 'v, 'd) dispatcher \<Rightarrow> ('s, 'g, 'q, 'v, 'd) dispatcher \<Rightarrow> bool" where
  "fossils_to g nd nd' \<longleftrightarrow> (\<forall>j<n_lps nd.
     last_fossil_collect_gvt (d_lps nd' ! j) = last_fossil_collect_gvt (d_lps nd ! j) \<or>
     last_fossil_collect_gvt (d_lps nd ! j) < last_fossil_collect_gvt (d_lps nd' ! j) \<and>
     last_fossil_collect_gvt (d_lps nd' ! j) \<le> g)"

lemma fossils_to_same: "d_lps nd' = d_lps nd \<Longrightarrow> fossils_to g nd nd'"
  by (simp add: fossils_to_def)

lemma fossils_to_trans:
  "fossils_to g a b \<Longrightarrow> fossils_to g b c \<Longrightarrow> n_lps b = n_lps a \<Longrightarrow> fossils_to g a c"
  unfolding fossils_to_def by (fastforce dest: order_less_trans)

section \<open>Rollback\<close>

lemma restoreState_static:
  assumes "restoreState ops r i lp sm = Inr (ev, lp1, sm')"
  shows "name lp1 = name lp" "lp_generation lp1 = lp_generation lp"
    "last_fossil_collect_gvt lp1 = last_fossil_collect_gvt lp"
    "length (state_queue sm') = length (state_queue sm)"
    "j \<noteq> i \<Longrightarrow> state_queue sm' ! j = state_queue sm ! j"
  using assms by (auto simp: restoreState_def Let_def split: prod.splits)

lemma lp_receive_static:
  "name (fst (lp_receive ops e lp)) = name lp" "lp_generation (fst (lp_receive ops e lp)) = lp_generation lp"
  "last_fossil_collect_gvt (fst (lp_receive ops e lp)) = last_fossil_collect_gvt lp"
  by (simp_all add: lp_receive_def split: prod.splits)

lemma coast_loop_static:
  assumes "coast_forward_loop ops r es lp = Inr lp2"
  shows "name lp2 = name lp \<and> lp_generation lp2 = lp_generation lp \<and>
    last_fossil_collect_gvt lp2 = last_fossil_collect_gvt lp"
  using assms by (induction es arbitrary: lp) (auto simp: lp_receive_static)

lemma coastForward_static:
  assumes "coastForward ops r ev i es lp = Inr lp2"
  shows "name lp2 = name lp \<and> lp_generation lp2 = lp_generation lp \<and>
    last_fossil_collect_gvt lp2 = last_fossil_collect_gvt lp"
  using assms by (auto simp: coastForward_def dest!: coast_loop_static)

lemma negatives_mem:
  "x \<in> set (negatives mx p es) \<Longrightarrow>
   \<exists>e\<in>set es. \<exists>q. x = NegativeEvent q e \<and> p \<le> q \<and> q < p + length es"
proof (induction mx p es rule: negatives.induct)
  case (2 mx p e es)
  then show ?case by (cases "timestamp e \<le> mx") (force split: if_splits)+
qed simp

lemma out_keys_distinct:
  assumes "out_ok h i nd"
  shows "distinct (map ev_key (map output_event (filter Q (out_queue i nd))))"
    "\<lbrakk>x \<in> set (out_queue i nd); y \<in> set (out_queue i nd); generation (output_event x) = generation (output_event y)\<rbrakk>
      \<Longrightarrow> x = y"
proof -
  have d: "distinct (map (generation \<circ> output_event) (out_queue i nd))"
    using assms by (simp add: out_ok_def strict_sorted_iff)
  then show "\<lbrakk>x \<in> set (out_queue i nd); y \<in> set (out_queue i nd); generation (output_event x) = generation (output_event y)\<rbrakk>
      \<Longrightarrow> x = y"
    by (auto simp: distinct_map inj_on_def)
  have "distinct (map (generation \<circ> output_event) (filter Q (out_queue i nd)))"
    using d by (rule distinct_map_filter)
  then have "distinct (map (\<lambda>k. snd (snd (snd k))) (map ev_key (map output_event (filter Q (out_queue i nd)))))"
    by (simp add: o_def ev_key_def)
  then show "distinct (map ev_key (map output_event (filter Q (out_queue i nd))))"
    unfolding distinct_map by blast
qed

lemma past_view:
  assumes "last_fossil_collect_gvt (d_lps nd ! i) \<le> timestamp r" "ev_less (InitialEvent 0) r"
  shows "past_gvt (lp_view U H i nd) r"
  using assms by (simp add: past_gvt_def lp_view_def)

text \<open>The saved state that a rollback of LP \<open>i\<close> to before \<open>r\<close> restores.\<close>

abbreviation restored :: "event \<Rightarrow> nat \<Rightarrow> ('s, 'g, 'q, 'v, 'd) dispatcher \<Rightarrow> 's SavedState" where
  "restored r i nd \<equiv> restored_from r (state_queue (d_sm nd) ! i)"

text \<open>The node between the two halves of a rollback: everything is set back, and the anti-messages are
  still to be sent.\<close>

definition rolled_back :: "event \<Rightarrow> nat \<Rightarrow> 's state_manager \<Rightarrow> ('s, 'g) lp \<Rightarrow> ('s, 'g, 'q, 'v, 'd) dispatcher \<Rightarrow>
    ('s, 'g, 'q, 'v, 'd) dispatcher" where
  "rolled_back r i sm lp nd = nd\<lparr>d_es := rollback i r (d_es nd), d_sm := sm, d_fsm := fsm_rollback r i (d_fsm nd),
     d_lps := (d_lps nd)[i := lp], d_om := snd (om_rollback r i (d_om nd))\<rparr>"

lemma rolled_back_node:
  fixes nd :: "('s, 'g, event list, 'v, 'd) dispatcher"
  assumes ok: "node_ok cfg sg0 U H A P nd" and i: "i < n_lps nd" "i \<in> P" "i \<in> A"
    and r: "last_fossil_collect_gvt (d_lps nd ! i) \<le> timestamp r" "ev_less (InitialEvent 0) r"
    and laws: "rng_law (c_lp cfg)" "rng_count_law (c_lp cfg)"
    and intact: "state_event (restored r i nd) \<notin> U i"
    and rest: "restoreState (c_lp cfg) r i (d_lps nd ! i) (d_sm nd) = Inr (ev, lp1, sm')"
      "coastForward (c_lp cfg) r ev i (rollback i r (d_es nd)) lp1 = Inr lp2"
  shows "node_ok cfg sg0 (U(i := spend (c_lp cfg) (restored r i nd) (U i))) (H(i := filter (\<lambda>e. ev_less e r) (H i)))
    A P (rolled_back r i sm' lp2 nd)" (is "node_ok _ _ ?U ?H _ _ ?nd")
proof -
  note D = node_okD [OF ok]
  let ?es = "rollback i r (d_es nd)"
  have sel: "d_es ?nd = ?es" "d_sm ?nd = sm'" "d_lps ?nd = (d_lps nd)[i := lp2]" "d_comm ?nd = d_comm nd"
    "lps_by_name ?nd = lps_by_name nd" "local_lp_id_by_name ?nd = local_lp_id_by_name nd"
    "next_ptr ?nd = next_ptr nd" "d_gvt ?nd = d_gvt nd" "d_om ?nd = snd (om_rollback r i (d_om nd))"
    by (simp_all add: rolled_back_def)
  have n: "n_lps ?nd = n_lps nd" using rollback_frame(1) [of "d_es nd" i r] by (simp add: sel same_config_def)
  have lp2: "name lp2 = name (d_lps nd ! i)" "lp_generation lp2 = lp_generation (d_lps nd ! i)"
    "last_fossil_collect_gvt lp2 = last_fossil_collect_gvt (d_lps nd ! i)"
    using restoreState_static(1-3) [OF rest(1)] coastForward_static [OF rest(2)] by simp_all
  have lps: "name (d_lps ?nd ! j) = name (d_lps nd ! j)" "lp_generation (d_lps ?nd ! j) = lp_generation (d_lps nd ! j)"
    "last_fossil_collect_gvt (d_lps ?nd ! j) = last_fossil_collect_gvt (d_lps nd ! j)" for j
    using lp2 i D(6) by (simp_all add: sel nth_list_update_if)
  have es: "ms_inv P ?es" "all_events ?es = all_events (d_es nd)"
    using rollback_ok [OF D(1) i(1,2)] by simp_all
  note shape = es_inv_shapeD [OF D(1) i(1)]
  have view: "run_ok (c_lp cfg) i (sg0 i) (lp_view U H i nd)" using D(11) [OF i(1,3)] .
  note pq_sorted = run_okD(10) [OF view]
  have qs: "processed_queue ?es ! i = filter (\<lambda>e. ev_less e r) (processed_queue (d_es nd) ! i)"
    "set (input_queue ?es ! i) = set (input_queue (d_es nd) ! i) \<union>
       set (filter (\<lambda>x. ev_ge x r) (processed_queue (d_es nd) ! i))"
    using rollback_queues [OF pq_sorted [unfolded lp_view_def, simplified] shape(3,2), of r]
    by (simp_all flip: set_mset_mset)
  have names: "names_ok ?nd"
    using D(2) unfolding names_ok_def n lps by (simp add: sel my_id_def lp_id_of_def)
  have queues: "queues_ok ?nd"
  proof -
    have "x \<in> set (input_queue (d_es nd) ! j) \<union> set (processed_queue (d_es nd) ! j)"
      if "x \<in> set (input_queue ?es ! j) \<union> set (processed_queue ?es ! j)" for x j
      using that qs rollback_frame(5,6) [of j i r "d_es nd"] by (cases "j = i") auto
    then show ?thesis
      using D(3) unfolding queues_ok_def n by (simp add: sel is_local_def my_id_def lp_id_of_def)
  qed
  have fresh: "fresh_ok ?nd" using D(4) unfolding fresh_ok_def n lps by (simp add: sel es(2))
  have om: "output_queue (d_om ?nd) = (output_queue (d_om nd))[i :=
      filter (\<lambda>x. ev_less (input_event x) r) (out_queue i nd)]"
    using D(10) [OF i(1)] unfolding out_ok_def
    by (simp add: sel om_rollback_def removeEventsSentAfter_def remove_loop_sorted)
  have "out_ok (?H j) j ?nd" if j: "j < n_lps nd" for j
  proof (cases "j = i")
    case False
    then have q: "out_queue j ?nd = out_queue j nd" by (simp add: om)
    show ?thesis using D(10) [OF j] False unfolding out_ok_def q lps sel(1,4) es(2) by simp
  next
    case True
    then have q: "out_queue j ?nd = filter (\<lambda>x. ev_less (input_event x) r) (out_queue i nd)"
      using i D(7) by (simp add: om)
    have "sorted_wrt (<) (map (generation \<circ> output_event) (filter (\<lambda>x. ev_less (input_event x) r) (out_queue i nd)))"
      using D(10) [OF i(1)] by (auto simp: out_ok_def sorted_wrt_map intro: sorted_wrt_filter)
    then show ?thesis
      using D(10) [OF i(1)] unfolding True out_ok_def q [unfolded True] lps sel(1,4) es(2)
      by (auto simp: om_sorted_filter)
  qed
  then have sent: "sent_ok ?H ?nd" using D(7) by (simp add: sent_ok_def n om)
  have run: "run_ok (c_lp cfg) j (sg0 j) (lp_view ?U ?H j ?nd)" if "j < n_lps nd" "j \<in> A" for j
  proof (cases "j = i")
    case False
    have len: "j < length (input_queue ?es)" "j < length (processed_queue ?es)"
      using es_inv_shapeD(2,3) [OF es(1)] that(1) n by (simp_all add: sel)
    show ?thesis
      by (rule run_ok_cong [OF D(11) [OF that]])
        (use False run_okD(1) [OF D(11) [OF that]] rollback_frame(6) [of j i r "d_es nd"] len
          restoreState_static(4,5) [OF rest(1)] in \<open>simp_all add: lp_view_def sel\<close>)
  next
    case True
    have past: "past_gvt (lp_view U H i nd) r" by (rule past_view [OF r])
    have "run_ok (c_lp cfg) i (sg0 i) ((lp_view U H i nd)\<lparr>history := filter (\<lambda>e. ev_less e r) (H i),
        spent := spend (c_lp cfg) (restored r i nd) (U i), run_es := ?es, run_sm := sm', run_lp := lp2\<rparr>)"
      using run_ok_recover [OF view past laws] intact rest by (auto simp: lp_view_def)
    then show ?thesis unfolding True using lps(3) [of i] i D(6) by (simp add: lp_view_def sel)
  qed
  show ?thesis
    unfolding node_ok_def n lps
    using es(1) names queues fresh sent run D(8,9) by (auto simp: sel)
qed

lemma rollback_ready_node:
  fixes nd :: "('s, 'g, event list, 'v, 'd) dispatcher"
  assumes ok: "node_ok cfg sg0 U H A P nd" and cfg: "c_sched cfg = multiset_ops"
    and i: "i < n_lps nd" "i \<in> P" "i \<in> A" and e: "r \<in> set (input_queue (d_es nd) ! i)"
    and r: "node_gvt cfg nd \<le> timestamp r" "last_fossil_collect_gvt (d_lps nd ! i) \<le> timestamp r"
      "ev_less (InitialEvent 0) r"
  shows "\<exists>sg. rollback_ready P cfg r i i (U i) sg nd"
proof -
  note D = node_okD [OF ok]
  have view: "run_ok (c_lp cfg) i (sg0 i) (lp_view U H i nd)" using D(11) [OF i(1,3)] .
  note R = run_okD [OF view, unfolded lp_view_def, simplified]
  have "ev_less (state_event (hd (state_queue (d_sm nd) ! i))) r"
    using run_okD(8) [OF view] past_view [OF r(2,3)] by (simp add: lp_view_def)
  moreover have "i = lp_id_of (receiverName r) nd" "lps_by_name nd (receiverName r) = Some i"
    using D(2,3) i(1) e unfolding queues_ok_def names_ok_def is_local_def by auto
  moreover have "cancel_fresh (next_ptr nd)
      (map output_event (filter (\<lambda>x. ev_ge (input_event x) r) (out_queue i nd))) (d_es nd)"
    using D(4) D(10) [OF i(1)] out_keys_distinct(1) [OF D(10) [OF i(1)]]
    unfolding cancel_fresh_def fresh_ok_def out_ok_def by auto
  moreover have "\<forall>e\<in>set (map output_event (filter (\<lambda>x. ev_ge (input_event x) r) (out_queue i nd))). known_receiver nd e"
    using D(10) [OF i(1)] known_receiver_names [OF D(2)] by (auto simp: out_ok_def)
  moreover have "om_sorted (out_queue i nd)" using D(10) [OF i(1)] by (simp add: out_ok_def)
  moreover obtain sg where "lp_consistent (c_lp cfg) (U i) sg (state_queue (d_sm nd) ! i) (processed_queue (d_es nd) ! i)
      (lp_state (d_lps nd ! i), rng_list (d_lps nd ! i))"
    using R(4) by blast
  ultimately have "rollback_ready P cfg r i i (U i) sg nd"
    unfolding rollback_ready_def Let_def using R(1) cfg D(1,6) i(1,2) r(1) by simp
  then show ?thesis by blast
qed

lemma d_rollback_node:
  fixes nd :: "('s, 'g, event list, 'v, 'd) dispatcher"
  assumes ok: "node_ok cfg sg0 U H A P nd" and cfg: "c_sched cfg = multiset_ops" "keeps_gvt (c_gvt cfg)"
    and i: "i < n_lps nd" "i \<in> P" "i \<in> A" and e: "r \<in> set (input_queue (d_es nd) ! i)"
    and r: "node_gvt cfg nd \<le> timestamp r" "last_fossil_collect_gvt (d_lps nd ! i) \<le> timestamp r"
      "ev_less (InitialEvent 0) r"
    and laws: "rng_law (c_lp cfg)" "rng_count_law (c_lp cfg)"
    and intact: "state_event (restored r i nd) \<notin> U i"
  shows "\<exists>nd' lp. d_rollback cfg t r nd = Inr nd' \<and>
    node_ok cfg sg0 (U(i := spend (c_lp cfg) (restored r i nd) (U i))) (H(i := filter (\<lambda>e. ev_less e r) (H i))) A P nd' \<and>
    n_lps nd' = n_lps nd \<and> node_gvt cfg nd' = node_gvt cfg nd \<and>
    d_lps nd' = (d_lps nd)[i := lp] \<and> name lp = name (d_lps nd ! i) \<and>
    lp_generation lp = lp_generation (d_lps nd ! i) \<and>
    last_fossil_collect_gvt lp = last_fossil_collect_gvt (d_lps nd ! i) \<and>
    (\<forall>lp es. may_send nd lp es \<longrightarrow> may_send nd' lp es) \<and>
    processed_queue (d_es nd') ! i = filter (\<lambda>e. ev_less e r) (processed_queue (d_es nd) ! i) \<and>
    set (input_queue (d_es nd) ! i) \<union> set (filter (\<lambda>x. ev_ge x r) (processed_queue (d_es nd) ! i))
      \<subseteq> set (input_queue (d_es nd') ! i) \<and>
    (\<forall>j\<in>P. scheduled_event_pointer (d_es nd') ! j = scheduled_event_pointer (d_es nd) ! j) \<and>
    flows nd i (filter (\<lambda>x. ev_less (input_event x) r))
      (mset (filter (\<lambda>x. ev_ge x r) (processed_queue (d_es nd) ! i)) + mset (filter (is_local nd)
        (negatives (max_sim_time nd) (next_ptr nd) (map output_event (filter (\<lambda>x. ev_ge (input_event x) r) (out_queue i nd))))))
      {#} nd'"
proof -
  note D = node_okD [OF ok]
  let ?cancel = "map output_event (filter (\<lambda>x. ev_ge (input_event x) r) (out_queue i nd))"
  let ?S = "negatives (max_sim_time nd) (next_ptr nd) ?cancel"
  obtain sg where ready: "rollback_ready P cfg r i i (U i) sg nd"
    using rollback_ready_node [OF ok cfg(1) i e r] by blast
  obtain nd' ev lp1 sm' lp2 where nd': "d_rollback cfg t r nd = Inr nd'"
    "restoreState (c_lp cfg) r i (d_lps nd ! i) (d_sm nd) = Inr (ev, lp1, sm')"
    "coastForward (c_lp cfg) r ev i (rollback i r (d_es nd)) lp1 = Inr lp2"
    "d_lps nd' = (d_lps nd)[i := lp2]" "d_om nd' = snd (om_rollback r i (d_om nd))"
    "node_gvt cfg nd' = node_gvt cfg nd" "next_ptr nd' = next_ptr nd + length ?cancel"
    "routed P (nd\<lparr>d_es := rollback i r (d_es nd), d_sm := sm', d_fsm := fsm_rollback r i (d_fsm nd)\<rparr>) ?S nd'"
    using d_rollback_ok [OF ready laws, of t] cfg(2) by auto
  let ?nd = "rolled_back r i sm' lp2 nd" and ?H = "H(i := filter (\<lambda>e. ev_less e r) (H i))"
    and ?U = "U(i := spend (c_lp cfg) (restored r i nd) (U i))"
  have ok1: "node_ok cfg sg0 ?U ?H A P ?nd" by (rule rolled_back_node [OF ok i r(2,3) laws intact nd'(2,3)])
  note E = node_okD [OF ok1]
  have sel: "d_es ?nd = rollback i r (d_es nd)" "d_lps ?nd = d_lps nd'" "d_om ?nd = d_om nd'"
    "next_ptr ?nd = next_ptr nd" "d_gvt ?nd = d_gvt nd" "d_comm ?nd = d_comm nd"
    by (simp_all add: rolled_back_def nd'(4,5))
  have n: "n_lps ?nd = n_lps nd" using rollback_frame(1) [of "d_es nd" i r] by (simp add: sel same_config_def)
  have lp2: "name lp2 = name (d_lps nd ! i)" "lp_generation lp2 = lp_generation (d_lps nd ! i)"
    "last_fossil_collect_gvt lp2 = last_fossil_collect_gvt (d_lps nd ! i)"
    using restoreState_static(1-3) [OF nd'(2)] coastForward_static [OF nd'(3)] by simp_all
  have lps: "name (d_lps nd' ! j) = name (d_lps nd ! j)" "lp_generation (d_lps nd' ! j) = lp_generation (d_lps nd ! j)" for j
    using lp2 i D(6) by (simp_all add: nd'(4) nth_list_update_if)
  have r1: "routed P ?nd ?S nd'"
    by (rule routed_cong_source [OF nd'(8)]) (simp_all add: rolled_back_def)
  have out: "set (out_queue i ?nd) \<subseteq> {x \<in> set (out_queue i nd). ev_less (input_event x) r}"
    using remove_loop_sorted [of "out_queue i nd" r] D(7) D(10) [OF i(1)] i(1)
    by (auto simp: out_ok_def sel nd'(5) om_rollback_def removeEventsSentAfter_def)
  have "ev_ptr x < next_ptr nd' \<and> may_arrive ?nd x" if x: "x \<in> set ?S" for x
  proof -
    obtain y q where y: "y \<in> set (out_queue i nd)" "ev_ge (input_event y) r" "x = NegativeEvent q (output_event y)"
      "q < next_ptr nd'"
      using negatives_mem [OF x] nd'(7) by auto
    note o = D(10) [OF i(1), unfolded out_ok_def]
    have own: "j = i" if "j < n_lps nd" "sender_name x = name (d_lps nd' ! j)" for j
      using names_unique [OF D(2) that(1) i(1)] that(2) y(1,3) o lps by simp
    have "ev_key x \<noteq> ev_key (output_event z)" if j: "j < n_lps nd" "z \<in> set (out_queue j ?nd)" for j z
    proof
      assume eq: "ev_key x = ev_key (output_event z)"
      have "sender_name (output_event z) = name (d_lps nd' ! j)"
        using E(10) [unfolded n, OF j(1)] j(2) by (simp add: out_ok_def sel)
      then have "j = i" using own j(1) eq by (simp add: ev_key_def)
      then have z: "z \<in> set (out_queue i nd)" "ev_less (input_event z) r" using out j(2) by auto
      have "generation (output_event z) = generation (output_event y)"
        using eq y(3) by (simp add: ev_key_def)
      with out_keys_distinct(2) [OF D(10) [OF i(1)] z(1) y(1)] z(2) y(2) show False
        by (simp add: ev_ge_def)
    qed
    moreover have "generation x < lp_generation (d_lps nd' ! j)"
      if "j < n_lps nd" "sender_name x = name (d_lps nd' ! j)" for j
      using own [OF that] y(1,3) o lps by simp
    ultimately show ?thesis using y(3,4) unfolding may_arrive_def n sel(2) by simp
  qed
  then have ok': "node_ok cfg sg0 ?U ?H A P nd'"
    using nd'(6,7) by (intro node_ok_deliver [OF ok1 r1]) (simp_all add: sel)
  have all: "all_events (rollback i r (d_es nd)) = all_events (d_es nd)"
    using rollback_ok [OF D(1) i(1,2)] by simp
  have send: "may_send nd' lp es" if "may_send nd lp es" for lp es
    using that nd'(7) r1 unfolding may_send_def routed_def same_frame_def sel by fastforce
  note shape = es_inv_shapeD [OF D(1) i(1)]
  note pq_sorted = run_okD(10) [OF D(11) [OF i(1,3)], unfolded lp_view_def, simplified]
  note qs = rollback_queues [OF pq_sorted shape(3,2), of r]
  have iq: "set (input_queue (d_es nd) ! i) \<union> set (filter (\<lambda>x. ev_ge x r) (processed_queue (d_es nd) ! i))
      \<subseteq> set (input_queue (d_es nd') ! i)"
  proof -
    have "mset (input_queue (rollback i r (d_es nd)) ! i) \<subseteq># mset (input_queue (d_es nd') ! i)"
      using r1 i(1) n by (auto simp: routed_def sel)
    from set_mset_mono [OF this] show ?thesis using qs(2) by (simp flip: set_mset_mset)
  qed
  have "n_lps nd' = n_lps nd" "processed_queue (d_es nd') = processed_queue (rollback i r (d_es nd))"
    "\<forall>j\<in>P. scheduled_event_pointer (d_es nd') ! j = scheduled_event_pointer (d_es nd) ! j"
    using r1 n rollback_frame(2) [of i r "d_es nd"] by (simp_all add: routed_def same_frame_def sel)
  moreover have "flows nd i (filter (\<lambda>x. ev_less (input_event x) r))
      (mset (filter (\<lambda>x. ev_ge x r) (processed_queue (d_es nd) ! i)) + mset (filter (is_local nd) ?S)) {#} nd'"
  proof (rule flows_record [OF _ _ i(1)])
    have lfc: "last_fossil_collect_gvt lp2 = last_fossil_collect_gvt (d_lps nd ! i)"
      using restoreState_static(3) [OF nd'(2)] coastForward_static [OF nd'(3)] by simp
    have om: "output_queue (d_om nd') = (output_queue (d_om nd))[i :=
        filter (\<lambda>x. ev_less (input_event x) r) (out_queue i nd)]"
      using D(10) [OF i(1)] by (simp add: out_ok_def nd'(5) om_rollback_def removeEventsSentAfter_def remove_loop_sorted)
    show "node_frame nd nd'"
      using r1 n lps by (simp add: node_frame_def routed_def same_frame_def rolled_back_def)
    have "is_local ?nd = is_local nd" by (simp add: is_local_def [abs_def] rolled_back_def my_id_def)
    then show "inputs nd' + {#} = inputs nd + (mset (filter (\<lambda>x. ev_ge x r) (processed_queue (d_es nd) ! i)) +
        mset (filter (is_local nd) ?S))"
      using routed_inputs [OF r1] rollback_inputs [OF pq_sorted shape(3,2), of r] by (simp add: sel)
    fix j assume j: "j < n_lps nd"
    show "last_fossil_collect_gvt (d_lps nd' ! j) = last_fossil_collect_gvt (d_lps nd ! j)"
      using lfc j D(6) by (cases "j = i") (simp_all add: nd'(4))
    show "out_queue j nd' = out_queue j nd" if "j \<noteq> i" using that by (simp add: om)
    show "set (processed_queue (d_es nd') ! j) \<subseteq> set (processed_queue (d_es nd) ! j) \<union> set_mset {#}"
      using r1 qs(1) rollback_frame(6) [of j i r "d_es nd"] by (cases "j = i") (auto simp: routed_def same_frame_def sel)
  next
    fix p :: "OutputEvent list" assume p: "\<forall>x\<in>set p. timestamp (input_event x) < last_fossil_collect_gvt (d_lps nd ! i)"
    have "ev_less (input_event x) r" if "x \<in> set p" for x
      using p that r(2) timestamp_less_ev_key [of "input_event x" r] by (fastforce simp: ev_less_key)
    then have "filter (\<lambda>x. ev_less (input_event x) r) p = p" by (simp add: filter_id_conv)
    moreover have "out_queue i nd' = filter (\<lambda>x. ev_less (input_event x) r) (out_queue i nd)"
      using D(7,10) i(1) by (simp add: out_ok_def nd'(5) om_rollback_def removeEventsSentAfter_def remove_loop_sorted)
    ultimately show "filter (\<lambda>x. ev_less (input_event x) r) (p @ out_queue i nd) = p @ out_queue i nd'" by simp
  qed
  ultimately show ?thesis
    using nd'(1,4,6) ok' send iq qs(1) lp2 by (intro exI [of _ nd'] exI [of _ lp2]) simp
qed

end
