(* ===== verification/TW_Node_Ops.thy ===== *)
theory TW_Node_Ops
  imports TW_Node
begin

text \<open>
  What a worker thread does with the event it has taken: processing a positive event, with saving the
  state, sending, fossil collection and scheduling the next event, cancelling a negative one, and one
  iteration of the worker's loop. Each keeps \<open>node_ok\<close>, for the history that it is to have then.
\<close>

section \<open>Processing an event\<close>

text \<open>The LP after \<open>receiveEvent\<close>: the event is in the history, but not yet in the processed queue. \<open>ahead\<close> is
  the view of the LP in which it is.\<close>

definition ahead :: "(nat \<Rightarrow> event set) \<Rightarrow> (nat \<Rightarrow> event list) \<Rightarrow> nat \<Rightarrow> event \<Rightarrow> ('s, 'g, 'q, 'v, 'd) dispatcher \<Rightarrow> ('s, 'g, 'q) lp_run" where
  "ahead U H i e nd = (lp_view U H i nd)\<lparr>run_es := set_processed i (processed_queue (d_es nd) ! i @ [e]) (d_es nd)\<rparr>"

lemma ahead_sel [simp]:
  "history (ahead U H i e nd) = H i" "spent (ahead U H i e nd) = U i" "run_gvt (ahead U H i e nd) = last_fossil_collect_gvt (d_lps nd ! i)"
  "run_sm (ahead U H i e nd) = d_sm nd" "run_lp (ahead U H i e nd) = d_lps nd ! i"
  "i < length (processed_queue (d_es nd)) \<Longrightarrow> run_pq i (ahead U H i e nd) = processed_queue (d_es nd) ! i @ [e]"
  "length (processed_queue (run_es (ahead U H i e nd))) = length (processed_queue (d_es nd))"
  "input_queue (run_es (ahead U H i e nd)) = input_queue (d_es nd)"
  by (simp_all add: ahead_def lp_view_def)

definition received :: "('s, 'g) lp_ops \<Rightarrow> event \<Rightarrow> nat \<Rightarrow> ('s, 'g, 'q, 'v, 'd) dispatcher \<Rightarrow> ('s, 'g, 'q, 'v, 'd) dispatcher" where
  "received ops e i nd = (let lp = fst (lp_receive ops e (d_lps nd ! i))
     in nd\<lparr>d_lps := (d_lps nd)[i := lp], d_sm := saveState ops e i lp (d_sm nd)\<rparr>)"

lemma saveState_other: "j \<noteq> i \<Longrightarrow> state_queue (saveState ops e i lp sm) ! j = state_queue sm ! j"
  "length (state_queue (saveState ops e i lp sm)) = length (state_queue sm)"
  by (simp_all add: saveState_def)

lemma received_node:
  fixes nd :: "('s, 'g, event list, 'v, 'd) dispatcher"
  assumes ok: "node_ok cfg sg0 U H A P nd" and i: "i < n_lps nd" "i \<in> A"
    and e: "last_fossil_collect_gvt (d_lps nd ! i) \<le> timestamp e" "ev_less (InitialEvent 0) e" "event_type e = POSITIVE"
    and pq: "\<forall>p\<in>set (processed_queue (d_es nd) ! i). ev_less p e"
  defines "nd' \<equiv> received (c_lp cfg) e i nd" and "H' \<equiv> H(i := H i @ [e])" and "U' \<equiv> U(i := U i - {e})"
  shows "node_ok cfg sg0 U' H' (A - {i}) P nd'"
    "run_ok (c_lp cfg) i (sg0 i) (ahead U' H' i e nd')"
    "\<forall>x\<in>set (state_queue (d_sm nd') ! i). timestamp (state_event x) \<le> timestamp e"
    "\<forall>x\<in>set (out_queue i nd'). ev_key (input_event x) \<le> ev_key e"
proof -
  note D = node_okD [OF ok]
  let ?lp = "d_lps nd ! i" and ?lp' = "fst (lp_receive (c_lp cfg) e (d_lps nd ! i))"
  let ?sm = "saveState (c_lp cfg) e i ?lp' (d_sm nd)"
  have view: "run_ok (c_lp cfg) i (sg0 i) (lp_view U H i nd)" using D(11) [OF i] .
  note V = run_okD [OF view]
  have past: "past_gvt (lp_view U H i nd) e" by (rule past_view [OF e(1,2)])
  have pq': "\<forall>p\<in>set (run_pq i (lp_view U H i nd)). ev_less p e" using pq by (simp add: lp_view_def)
  note shape = es_inv_shapeD [OF D(1) i(1)]
  have sel: "d_lps nd' = (d_lps nd)[i := ?lp']" "d_sm nd' = ?sm" "d_es nd' = d_es nd" "d_om nd' = d_om nd"
    "d_comm nd' = d_comm nd" "lps_by_name nd' = lps_by_name nd" "local_lp_id_by_name nd' = local_lp_id_by_name nd"
    "next_ptr nd' = next_ptr nd" "d_gvt nd' = d_gvt nd"
    by (simp_all add: nd'_def received_def Let_def)
  have lps: "name (d_lps nd' ! j) = name (d_lps nd ! j)" "lp_generation (d_lps nd' ! j) = lp_generation (d_lps nd ! j)"
    "last_fossil_collect_gvt (d_lps nd' ! j) = last_fossil_collect_gvt (d_lps nd ! j)" for j
    using i D(6) by (simp_all add: sel nth_list_update_if lp_receive_static)
  have names: "names_ok nd'" using D(2) unfolding names_ok_def lps by (simp add: sel my_id_def lp_id_of_def)
  have queues: "queues_ok nd'" using D(3) by (simp add: queues_ok_def sel is_local_def my_id_def lp_id_of_def)
  have fresh: "fresh_ok nd'" using D(4) unfolding fresh_ok_def lps by (simp add: sel)
  have "out_ok (H' j) j nd'" if j: "j < n_lps nd" for j
    using D(10) [OF j] unfolding out_ok_def lps sel(3-5) by (auto simp: H'_def)
  then have sent: "sent_ok H' nd'" using D(7) by (simp add: sent_ok_def sel)
  have run: "run_ok (c_lp cfg) j (sg0 j) (lp_view U' H' j nd')" if j: "j < n_lps nd" "j \<in> A - {i}" for j
  proof -
    have j': "j \<in> A" "j \<noteq> i" using j(2) by auto
    show ?thesis
      by (rule run_ok_cong [OF D(11) [OF j(1) j'(1)]])
        (use j'(2) run_okD(1-3) [OF D(11) [OF j(1) j'(1)]] in \<open>simp_all add: lp_view_def sel H'_def U'_def saveState_other\<close>)
  qed
  show "node_ok cfg sg0 U' H' (A - {i}) P nd'"
    unfolding node_ok_def lps using D(1,8,9) names queues fresh sent run e(3) by (auto simp: sel H'_def)
  have "run_ok (c_lp cfg) i (sg0 i) ((lp_view U H i nd)\<lparr>history := history (lp_view U H i nd) @ [e],
      spent := spent (lp_view U H i nd) - {e}, run_es := set_processed i (processed_queue (d_es nd) ! i @ [e]) (d_es nd),
      run_sm := saveState (c_lp cfg) e i ?lp' (run_sm (lp_view U H i nd)), run_lp := ?lp'\<rparr>)"
    by (rule run_ok_process_gen [OF view past pq']) (use shape in \<open>simp_all add: lp_view_def\<close>)
  moreover have "last_fossil_collect_gvt ?lp' = last_fossil_collect_gvt ?lp" by (simp add: lp_receive_static)
  ultimately show "run_ok (c_lp cfg) i (sg0 i) (ahead U' H' i e nd')"
    using i D(6) by (simp add: ahead_def lp_view_def sel H'_def U'_def)
  show "\<forall>x\<in>set (state_queue (d_sm nd') ! i). timestamp (state_event x) \<le> timestamp e"
  proof
    fix x assume "x \<in> set (state_queue (d_sm nd') ! i)"
    then have "x \<in> set (state_queue (d_sm nd) ! i) \<or> state_event x = e"
      using saveState_queue [of i "d_sm nd" "c_lp cfg" e ?lp'] V(1) by (auto simp: sel lp_view_def split: if_splits)
    then show "timestamp (state_event x) \<le> timestamp e"
      using saved_all_less [OF view past pq'] ev_key_timestamp_le
      by (auto simp: lp_view_def ev_less_key dest!: bspec less_imp_le)
  qed
  show "\<forall>x\<in>set (out_queue i nd'). ev_key (input_event x) \<le> ev_key e"
  proof
    fix x assume "x \<in> set (out_queue i nd')"
    then have "ev_key (input_event x) = ev_key (InitialEvent 0) \<or> input_event x \<in> set (H i)"
      using D(10) [OF i(1)] by (simp add: out_ok_def sel)
    then show "ev_key (input_event x) \<le> ev_key e"
      using history_all_less [OF view past pq'] e(2) by (auto simp: lp_view_def ev_less_key)
  qed
qed

lemma fossilCollect_inv:
  assumes inv: "ms_inv P es" and i: "i < num_of_lps es" and run: "fossilCollect t i es = (n, es')"
  shows "ms_inv P es'" "all_events es' \<subseteq># all_events es"
    "\<exists>d pq. processed_queue es ! i = d @ pq \<and> es' = set_processed i pq es \<and>
       (t \<noteq> uint_max \<longrightarrow> (\<forall>e\<in>set d. timestamp e < t))"
proof -
  note shape = es_inv_shapeD [OF inv i]
  show ex: "\<exists>d pq. processed_queue es ! i = d @ pq \<and> es' = set_processed i pq es \<and>
       (t \<noteq> uint_max \<longrightarrow> (\<forall>e\<in>set d. timestamp e < t))"
  proof (cases "processed_queue es ! i = [] \<or> t = uint_max")
    case True
    then consider "processed_queue es ! i = []" | "t = uint_max" "processed_queue es ! i \<noteq> []" by blast
    then show ?thesis
    proof cases
      case 1
      with run have "es' = es" by (simp add: fossilCollect_def)
      moreover have "es = set_processed i (processed_queue es ! i) es" by simp
      ultimately have "es' = set_processed i (processed_queue es ! i) es" by (rule trans)
      then show ?thesis by (intro exI [of _ "[]"] exI [of _ "processed_queue es ! i"]) simp
    qed (use run in \<open>auto simp: fossilCollect_def\<close>)
  next
    case False
    obtain c pq where loop: "fossil_loop t (processed_queue es ! i) 0 = (c, pq)" by fastforce
    with fossil_loop_dropped [OF loop] False run show ?thesis by (auto simp: fossilCollect_def)
  qed
  then obtain d pq where d: "processed_queue es ! i = d @ pq" "es' = set_processed i pq es" by blast
  show sub: "all_events es' \<subseteq># all_events es"
  proof -
    have "all_events es' + mset (d @ pq) = all_events es + mset pq"
      using all_events_set_processed [OF shape(3), of pq] d by simp
    then have "all_events es = all_events es' + mset d" by simp
    then show ?thesis by simp
  qed
  show "ms_inv P es'"
  proof (rule es_inv_update [OF inv])
    show "agree_off i P es P es'" "es_shape es'" using shape(1) by (simp_all add: d(2) agree_off_def es_shape_def)
    show "distinct_events (all_events es')" using inv sub distinct_events_subset by (auto simp: es_inv_def)
    show "lp_ok (i \<in> P) (input_queue es' ! i) (scheduled_event_pointer es' ! i)"
      using inv i by (simp add: d(2) es_inv_def)
  qed (use inv in \<open>simp add: d(2) contrib_def waiting_def es_inv_def\<close>)
qed

lemma out_ok_suffix:
  assumes "out_ok h i nd" and "out_queue i nd = p @ out_queue i nd'"
    and "name (d_lps nd' ! i) = name (d_lps nd ! i)" "lp_generation (d_lps nd' ! i) = lp_generation (d_lps nd ! i)"
    "d_comm nd' = d_comm nd" "set_mset (all_events (d_es nd')) \<subseteq> set_mset (all_events (d_es nd))"
  shows "out_ok h i nd'"
  using assms by (auto simp: out_ok_def om_sorted_wrt sorted_wrt_append)

lemma om_fossilCollect_suffix:
  assumes "om_fossilCollect gvt i om = (x, om')"
  shows "length (output_queue om') = length (output_queue om)"
    "i < length (output_queue om) \<Longrightarrow> \<exists>p. output_queue om ! i = p @ output_queue om' ! i \<and>
       (\<forall>x\<in>set p. timestamp (input_event x) < gvt)"
    "j \<noteq> i \<Longrightarrow> output_queue om' ! j = output_queue om ! j"
  using assms by (auto simp: om_fossilCollect_def om_fossil_loop_eq Let_def split: if_splits
      intro!: exI [of _ "takeWhile (\<lambda>x. timestamp (input_event x) < gvt) (output_queue om ! i)"] dest: set_takeWhileD)

lemma collect_fossils_node:
  fixes nd :: "('s, 'g, event list, 'v, 'd) dispatcher" and t :: nat
  assumes ok: "node_ok cfg sg0 U H A P nd" and i: "i < n_lps nd" "i \<notin> A"
    and ah: "run_ok (c_lp cfg) i (sg0 i) (ahead U H i e nd)"
    and gvt: "node_gvt cfg nd \<noteq> uint_max"
    and saved: "\<forall>x\<in>set (state_queue (d_sm nd) ! i). timestamp (state_event x) \<noteq> uint_max"
  defines "nd' \<equiv> collect_fossils t i i (node_gvt cfg nd) nd"
  shows "node_ok cfg sg0 U H A P nd'" "run_ok (c_lp cfg) i (sg0 i) (ahead U H i e nd')" "n_lps nd' = n_lps nd"
    "scheduled_event_pointer (d_es nd') = scheduled_event_pointer (d_es nd)" "flows nd i id {#} {#} nd'"
    "fossils_to (node_gvt cfg nd) nd nd'"
proof -
  let ?gvt = "node_gvt cfg nd"
  note D = node_okD [OF ok]
  note shape = es_inv_shapeD [OF D(1) i(1)]
  have "node_ok cfg sg0 U H A P nd' \<and> run_ok (c_lp cfg) i (sg0 i) (ahead U H i e nd') \<and> n_lps nd' = n_lps nd \<and>
    scheduled_event_pointer (d_es nd') = scheduled_event_pointer (d_es nd) \<and> flows nd i id {#} {#} nd'"
  proof (cases "?gvt > last_fossil_collect_gvt (d_lps nd ! i)")
    case False
    then have "nd' = nd" by (simp add: nd'_def collect_fossils_def)
    with ok ah show ?thesis by (simp add: flows_id node_frame_def)
  next
    case True
    obtain x om' where om: "om_fossilCollect ?gvt i (d_om nd) = (x, om')" by fastforce
    obtain ts sm' where sm: "sm_fossilCollect ?gvt i (d_sm nd) = (ts, sm')" by fastforce
    obtain n es' where es: "fossilCollect ts i (d_es nd) = (n, es')" by fastforce
    have sel: "d_lps nd' = (d_lps nd)[i := (d_lps nd ! i)\<lparr>last_fossil_collect_gvt := ?gvt\<rparr>]" "d_om nd' = om'"
      "d_sm nd' = sm'" "d_es nd' = es'" "d_comm nd' = d_comm nd" "lps_by_name nd' = lps_by_name nd"
      "local_lp_id_by_name nd' = local_lp_id_by_name nd" "next_ptr nd' = next_ptr nd" "d_gvt nd' = d_gvt nd"
      using True by (simp_all add: nd'_def collect_fossils_def om sm es)
    note V = run_okD [OF ah, simplified]
    have sm': "length (state_queue sm') = length (state_queue (d_sm nd))"
      "j \<noteq> i \<Longrightarrow> state_queue sm' ! j = state_queue (d_sm nd) ! j" for j
      using sm by (auto simp: sm_fossilCollect_def Let_def split: if_splits)
    have ts: "ts \<noteq> uint_max"
    proof -
      let ?q = "sm_fossil_loop ?gvt (state_queue (d_sm nd) ! i)"
      have "hd ?q \<in> set ?q" using sm_fossil_loop_neq_Nil [OF V(9)] by (rule hd_in_set)
      moreover have "set ?q \<subseteq> set (state_queue (d_sm nd) ! i)"
      proof -
        obtain p where "state_queue (d_sm nd) ! i = p @ ?q" using sm_fossil_loop_suffix by blast
        then have "set (state_queue (d_sm nd) ! i) = set p \<union> set ?q" by (metis set_append)
        then show ?thesis by blast
      qed
      ultimately have "hd ?q \<in> set (state_queue (d_sm nd) ! i)" by blast
      moreover have "ts = timestamp (state_event (hd ?q))"
        using sm gvt V(9) by (auto simp: sm_fossilCollect_def Let_def)
      ultimately show ?thesis using saved by simp
    qed
    obtain d pq where d: "processed_queue (d_es nd) ! i = d @ pq" "es' = set_processed i pq (d_es nd)"
      "\<forall>e\<in>set d. timestamp e < ts"
      using fossilCollect_inv(3) [OF D(1) i(1) es] ts by blast
    note inv = fossilCollect_inv(1,2) [OF D(1) i(1) es]
    have sub: "set_mset (all_events es') \<subseteq> set_mset (all_events (d_es nd))"
      using inv(2) by (rule set_mset_mono)
    have n: "n_lps nd' = n_lps nd" by (simp add: sel d(2))
    have lps: "name (d_lps nd' ! j) = name (d_lps nd ! j)" "lp_generation (d_lps nd' ! j) = lp_generation (d_lps nd ! j)"
      "lp_state (d_lps nd' ! j) = lp_state (d_lps nd ! j)" "rng_list (d_lps nd' ! j) = rng_list (d_lps nd ! j)" for j
      using i D(6) by (simp_all add: sel(1) nth_list_update_if)
    have names: "names_ok nd'"
      using D(2) unfolding names_ok_def lps n by (simp add: sel my_id_def lp_id_of_def)
    have queues: "queues_ok nd'"
    proof -
      have "set (processed_queue es' ! j) \<subseteq> set (processed_queue (d_es nd) ! j)" for j
        using d shape(3) by (cases "j = i") auto
      then show ?thesis
        using D(3) unfolding queues_ok_def n
        by (auto simp: sel d(2) is_local_def my_id_def lp_id_of_def)
    qed
    have fresh: "fresh_ok nd'" using D(4) sub unfolding fresh_ok_def n unfolding lps sel(4,8) by blast
    have "out_ok (H j) j nd'" if "j < n_lps nd" for j
    proof -
      have "\<exists>p. out_queue j nd = p @ out_queue j nd'"
        using om_fossilCollect_suffix(2,3) [OF om] D(7) i(1) by (cases "j = i") (auto simp: sel)
      then show ?thesis
        using out_ok_suffix [OF D(10) [OF that] _ lps(1,2) sel(5)] sub by (auto simp: sel(4))
    qed
    then have sent: "sent_ok H nd'" using D(7) om_fossilCollect_suffix(1) [OF om] by (simp add: sent_ok_def n sel(2))
    have run: "run_ok (c_lp cfg) j (sg0 j) (lp_view U H j nd')" if j: "j < n_lps nd" "j \<in> A" for j
    proof -
      have "j \<noteq> i" using i(2) j(2) by auto
      then show ?thesis
        by (intro run_ok_cong [OF D(11) [OF j]])
          (use run_okD(1-3) [OF D(11) [OF j]] in \<open>simp_all add: lp_view_def sel sm' d(2)\<close>)
    qed
    have "node_ok cfg sg0 U H A P nd'"
      unfolding node_ok_def n using inv(1) names queues fresh sent run D(9) by (simp add: sel(4))
    moreover have "run_ok (c_lp cfg) i (sg0 i) (ahead U H i e nd')"
    proof -
      let ?es = "set_processed i (pq @ [e]) es'"
      have "run_ok (c_lp cfg) i (sg0 i) ((ahead U H i e nd)\<lparr>run_gvt := ?gvt, run_es := ?es, run_sm := sm'\<rparr>)"
      proof (rule run_ok_fossil_gen [OF ah _ gvt])
        show "run_gvt (ahead U H i e nd) \<le> ?gvt" using True by simp
        show "sm_fossilCollect ?gvt i (run_sm (ahead U H i e nd)) = (ts, sm')" using sm by simp
        show "run_pq i (ahead U H i e nd) = d @ processed_queue ?es ! i" "i < length (processed_queue ?es)"
          "i < length (input_queue ?es)"
          using d shape by simp_all
        show "\<forall>e\<in>set d. timestamp e < ts" using d(3) .
      qed
      then show ?thesis
        by (rule run_ok_cong) (use V(1) shape i D(6) d sm' lps in \<open>simp_all add: sel(1,3,4)\<close>)
    qed
    moreover have "flows nd i id {#} {#} nd'"
    proof -
      have "record_ok G nd'" if G: "record_ok G nd" for G
        unfolding record_ok_def n
      proof (intro allI impI)
        fix j assume j: "j < n_lps nd"
        obtain p where p: "G j = p @ out_queue j nd"
          "\<forall>x\<in>set p. timestamp (input_event x) < last_fossil_collect_gvt (d_lps nd ! j)"
          using G j unfolding record_ok_def by blast
        obtain p' where p': "out_queue j nd = p' @ out_queue j nd'"
          "\<forall>x\<in>set p'. timestamp (input_event x) < last_fossil_collect_gvt (d_lps nd' ! j)"
          using om_fossilCollect_suffix(2,3) [OF om] D(6,7) i(1) by (cases "j = i") (auto simp: sel)
        have "last_fossil_collect_gvt (d_lps nd ! j) \<le> last_fossil_collect_gvt (d_lps nd' ! j)"
          using True D(6) i(1) by (cases "j = i") (simp_all add: sel)
        then have "G j = (p @ p') @ out_queue j nd' \<and>
            (\<forall>x\<in>set (p @ p'). timestamp (input_event x) < last_fossil_collect_gvt (d_lps nd' ! j))"
          using p p' by (auto dest: order_less_le_trans)
        then show "\<exists>p. G j = p @ out_queue j nd' \<and>
            (\<forall>x\<in>set p. timestamp (input_event x) < last_fossil_collect_gvt (d_lps nd' ! j))" by blast
      qed
      moreover have "node_frame nd nd'"
      proof -
        have "max_sim_time nd' = max_sim_time nd" by (simp add: nd'_def collect_fossils_def om sm es)
        then show ?thesis using lps n by (simp add: node_frame_def sel(5,7))
      qed
      moreover have "set (processed_queue (d_es nd') ! j) \<subseteq> set (processed_queue (d_es nd) ! j)" for j
        using d(1) shape(3) by (cases "j = i") (auto simp: sel(4) d(2))
      ultimately show ?thesis by (simp add: flows_def sel d(2))
    qed
    ultimately show ?thesis using n d(2) by (simp add: sel(4))
  qed
  then show "node_ok cfg sg0 U H A P nd'" "run_ok (c_lp cfg) i (sg0 i) (ahead U H i e nd')" "n_lps nd' = n_lps nd"
    "scheduled_event_pointer (d_es nd') = scheduled_event_pointer (d_es nd)" "flows nd i id {#} {#} nd'" by blast+
  show "fossils_to (node_gvt cfg nd) nd nd'"
    using D(6) i(1) by (auto simp: nd'_def fossils_to_def collect_fossils_def nth_list_update_if split: prod.splits)
qed

lemma replenish_node:
  fixes nd :: "('s, 'g, event list, 'v, 'd) dispatcher"
  assumes ok: "node_ok cfg sg0 U H (A - {i}) P nd" and i: "i < n_lps nd" "i \<in> P"
    and ptr: "scheduled_event_pointer (d_es nd) ! i = Some e"
    and ah: "run_ok (c_lp cfg) i (sg0 i) (ahead U H i e nd)"
  shows "\<exists>es. replenishScheduler multiset_ops i (d_es nd) = Inr es \<and>
    node_ok cfg sg0 U H A (P - {i}) (nd\<lparr>d_es := es\<rparr>) \<and> num_of_lps es = n_lps nd \<and>
    flows nd i id {#} {#e#} (nd\<lparr>d_es := es\<rparr>)"
proof -
  note D = node_okD [OF ok]
  note shape = es_inv_shapeD [OF D(1) i(1)]
  obtain es where es: "replenishScheduler multiset_ops i (d_es nd) = Inr es" "ms_inv (P - {i}) es"
    "same_config (d_es nd) es" "all_events es = all_events (d_es nd)"
    "input_queue es = (input_queue (d_es nd))[i := filter (\<lambda>x. x \<noteq> e) (input_queue (d_es nd) ! i)]"
    "processed_queue es = (processed_queue (d_es nd))[i := processed_queue (d_es nd) ! i @ [e]]"
    using msq.replenishScheduler_ok [OF D(1) i ptr] by blast
  have n: "num_of_lps es = n_lps nd" using es(3) by (simp add: same_config_def)
  have e: "e \<in> set (input_queue (d_es nd) ! i)" by (rule es_inv_pointer(1) [OF D(1) i(1) ptr])
  let ?nd = "nd\<lparr>d_es := es\<rparr>"
  have names: "names_ok ?nd" using D(2) by (simp add: names_ok_def n my_id_def lp_id_of_def)
  have queues: "queues_ok ?nd"
  proof -
    have "x \<in> set (input_queue (d_es nd) ! j) \<union> set (processed_queue (d_es nd) ! j)"
      if "x \<in> set (input_queue es ! j) \<union> set (processed_queue es ! j)" for x j
      using that e shape(2,3) by (cases "j = i") (auto simp: es(5,6))
    then show ?thesis
      using D(3) unfolding queues_ok_def by (simp add: n is_local_def my_id_def lp_id_of_def)
  qed
  have fresh: "fresh_ok ?nd" using D(4) by (simp add: fresh_ok_def n es(4))
  have sent: "sent_ok H ?nd" using D(5) by (simp add: sent_ok_def out_ok_def n es(4))
  have run: "run_ok (c_lp cfg) j (sg0 j) (lp_view U H j ?nd)" if j: "j < n_lps nd" "j \<in> A" for j
  proof (cases "j = i")
    case True
    show ?thesis unfolding True
      by (rule run_ok_cong [OF ah])
        (use run_okD(1) [OF ah] shape es(5,6) in \<open>simp_all add: lp_view_def\<close>)
  next
    case False
    with j have j': "j \<in> A - {i}" by simp
    show ?thesis
      by (rule run_ok_cong [OF D(11) [OF j(1) j']])
        (use False run_okD(1-3) [OF D(11) [OF j(1) j']] es(5,6) in \<open>simp_all add: lp_view_def\<close>)
  qed
  have "node_ok cfg sg0 U H A (P - {i}) ?nd"
    unfolding node_ok_def using es(2) names queues fresh sent run D(8,9) by (simp add: n)
  moreover have "flows nd i id {#} {#e#} ?nd"
  proof (rule flows_id)
    show "node_frame nd ?nd" by (simp add: node_frame_def n)
    have "mset (concat (processed_queue es)) = mset (concat (processed_queue (d_es nd))) + {#e#}"
      using concat_update_mset [OF shape(3), of "processed_queue (d_es nd) ! i @ [e]"] by (simp add: es(6))
    then show "inputs ?nd + {#e#} = inputs nd + {#}" using es(4) by (simp add: all_events_def)
    show "set (processed_queue (d_es ?nd) ! j) \<subseteq> set (processed_queue (d_es nd) ! j) \<union> set_mset {#e#}" for j
      using shape(3) by (cases "j = i") (auto simp: es(6))
  qed simp_all
  ultimately show ?thesis using es(1) n by blast
qed

lemma rejuvenate_same: "node_same nd (rejuvenate t th nd)" "d_gvt (rejuvenate t th nd) = d_gvt nd"
  "d_es (rejuvenate t th nd) = d_es nd" "next_ptr (rejuvenate t th nd) = next_ptr nd"
  by (simp_all add: rejuvenate_def node_same_def Let_def)

lemma below_max: "x \<le> y \<Longrightarrow> y \<noteq> uint_max \<Longrightarrow> x \<noteq> uint_max"
  by (metis uint_max_ge order_antisym)

text \<open>The events that LP \<open>i\<close> sends for \<open>e\<close>, from those that the model has made.\<close>

definition sent_as :: "('s, 'g, 'q, 'v, 'd) dispatcher \<Rightarrow> nat \<Rightarrow> event \<Rightarrow> event list \<Rightarrow> event list \<Rightarrow> bool" where
  "sent_as nd i e out S \<longleftrightarrow> (\<exists>p (lp :: ('s, 'g) lp). name lp = name (d_lps nd ! i) \<and>
     lp_generation lp = lp_generation (d_lps nd ! i) \<and> S = stamped (max_sim_time nd) p e lp out)"

definition outputs_of :: "event \<Rightarrow> event list \<Rightarrow> OutputEvent list" where
  "outputs_of e S = map (\<lambda>x. \<lparr>input_event = e, output_event = x\<rparr>) S"

lemma process_positive_node:
  fixes nd :: "('s, 'g, event list, 'v, 'd) dispatcher"
  assumes ok: "node_ok cfg sg0 U H A P nd" and cfg: "c_sched cfg = multiset_ops" "keeps_gvt (c_gvt cfg)"
    and i: "i < n_lps nd" "i \<in> P" "i \<in> A" and ptr: "scheduled_event_pointer (d_es nd) ! i = Some e"
    and e: "node_gvt cfg nd \<le> timestamp e" "last_fossil_collect_gvt (d_lps nd ! i) \<le> timestamp e"
      "ev_less (InitialEvent 0) e" "event_type e = POSITIVE" "timestamp e \<noteq> uint_max"
    and pq: "\<forall>p\<in>set (processed_queue (d_es nd) ! i). ev_less p e"
    and send: "may_send nd (d_lps nd ! i) (snd (lp_receive (c_lp cfg) e (d_lps nd ! i)))"
  shows "\<exists>nd'. process_positive cfg now t i i e nd = Inr nd' \<and>
    node_ok cfg sg0 (U(i := U i - {e})) (H(i := H i @ [e])) A (P - {i}) nd' \<and> node_gvt cfg nd' = node_gvt cfg nd \<and>
    n_lps nd' = n_lps nd \<and> fossils_to (node_gvt cfg nd) nd nd' \<and>
    (\<exists>S. sent_as nd i e (snd (lp_receive (c_lp cfg) e (d_lps nd ! i))) S \<and>
      flows nd i (\<lambda>g. g @ outputs_of e S) (mset (filter (is_local nd) S)) {#e#} nd')"
proof -
  note D = node_okD [OF ok]
  let ?H = "H(i := H i @ [e])" and ?U = "U(i := U i - {e})" and ?out = "snd (lp_receive (c_lp cfg) e (d_lps nd ! i))"
  let ?nd1 = "received (c_lp cfg) e i nd"
  note rec = received_node [OF ok i(1,3) e(2-4) pq]
  define nd0 where "nd0 = rejuvenate now t nd"
  define nd2 where "nd2 = (let lp = fst (lp_receive (c_lp cfg) e (d_lps nd ! i));
    nd1 = up EVENTS_PROCESSED t (nd0\<lparr>d_lps := (d_lps nd0)[i := lp]\<rparr>)
    in nd1\<lparr>d_sm := saveState (c_lp cfg) e i lp (d_sm nd1)\<rparr>)"
  have nd0: "node_same nd nd0" "d_gvt nd0 = d_gvt nd" "d_es nd0 = d_es nd" "next_ptr nd0 = next_ptr nd"
    using rejuvenate_same [where nd = nd] by (simp_all add: nd0_def)
  have same2: "node_same ?nd1 nd2" "d_gvt nd2 = d_gvt nd" "d_es nd2 = d_es nd"
    using nd0 by (simp_all add: node_same_def nd2_def received_def Let_def)
  have es1: "d_es ?nd1 = d_es nd" "d_gvt ?nd1 = d_gvt nd" by (simp_all add: received_def Let_def)
  have ok2: "node_ok cfg sg0 ?U ?H (A - {i}) P nd2"
    by (rule node_ok_same [OF rec(1) same2(1)]) (use D(1) same2 es1 in simp_all)
  note E = node_okD [OF ok2]
  have sel2: "d_lps nd2 = d_lps ?nd1" "d_sm nd2 = d_sm ?nd1" "d_om nd2 = d_om ?nd1"
    using same2(1) by (simp_all add: node_same_def)
  have lp2: "lp_generation (d_lps nd2 ! i) = lp_generation (d_lps nd ! i)"
    using i(1) D(6) by (simp add: sel2 received_def Let_def lp_receive_static)
  have send2: "may_send nd2 (d_lps nd2 ! i) ?out"
    using send same2 nd0 unfolding may_send_def lp2 by (simp add: node_same_def nd2_def Let_def)
  have i2: "i < n_lps nd2" using i(1) by (simp add: same2(3))
  obtain nd3 g where nd3: "sendEvents cfg t e ?out i i nd2 = Inr nd3" "node_ok cfg sg0 ?U ?H (A - {i}) P nd3"
    "same_frame nd2 nd3" "node_gvt cfg nd3 = node_gvt cfg nd2"
    "d_lps nd3 = (d_lps nd2)[i := (d_lps nd2 ! i)\<lparr>lp_generation := g\<rparr>]"
    "d_om nd3 = record_outputs e i (stamped (max_sim_time nd2) (next_ptr nd2) e (d_lps nd2 ! i) ?out) (d_om nd2)"
    "routed P nd2 (stamped (max_sim_time nd2) (next_ptr nd2) e (d_lps nd2 ! i) ?out) nd3"
  proof -
    have "ev_key e = ev_key (InitialEvent 0) \<or> e \<in> set (?H i)" by simp
    moreover have "\<forall>x\<in>set (out_queue i nd2). ev_key (input_event x) \<le> ev_key e" using rec(4) by (simp add: sel2)
    ultimately show ?thesis
      using sendEvents_node [OF ok2 cfg i2 send2, of e t] by (metis that)
  qed
  have ptr3: "\<forall>j\<in>P. scheduled_event_pointer (d_es nd3) ! j = scheduled_event_pointer (d_es nd2) ! j"
    using nd3(7) by (simp add: routed_def)
  note f3 = nd3(3) [unfolded same_frame_def]
  have i3: "i < n_lps nd3" using f3 i2 by simp
  have gvt3: "node_gvt cfg nd3 = node_gvt cfg nd" using nd3(4) same2(2) by simp
  have max: "node_gvt cfg nd3 \<noteq> uint_max"
    using below_max [OF e(1,5)] gvt3 by simp
  note shape3 = es_inv_shapeD [OF node_okD(1) [OF nd3(2)] i3]
  have ah3: "run_ok (c_lp cfg) i (sg0 i) (ahead ?U ?H i e nd3)"
    by (rule run_ok_cong [OF rec(2)])
      (use run_okD(1-3) [OF rec(2)] f3 nd3(5) shape3 i3 E(6) es1(1) same2(3) sel2 in simp_all)
  have saved3: "\<forall>x\<in>set (state_queue (d_sm nd3) ! i). timestamp (state_event x) \<noteq> uint_max"
    using rec(3) f3 below_max [OF _ e(5)] sel2(2) by simp
  let ?nd4 = "collect_fossils t i i (node_gvt cfg nd3) nd3"
  have "i \<notin> A - {i}" by simp
  note fos = collect_fossils_node [OF nd3(2) i3 this ah3 max saved3, of t]
  have i4: "i < n_lps ?nd4" using fos(3) i3 by simp
  have ptr4: "scheduled_event_pointer (d_es ?nd4) ! i = Some e"
    using fos(4) ptr3 i(2) ptr same2(3) by simp
  obtain es where es: "replenishScheduler multiset_ops i (d_es ?nd4) = Inr es"
    "node_ok cfg sg0 ?U ?H A (P - {i}) (?nd4\<lparr>d_es := es\<rparr>)" "num_of_lps es = n_lps ?nd4"
    "flows ?nd4 i id {#} {#e#} (?nd4\<lparr>d_es := es\<rparr>)"
    using replenish_node [OF fos(1) i4 i(2) ptr4 fos(2)] by blast
  have gvt4: "d_gvt ?nd4 = d_gvt nd3" by (simp add: collect_fossils_def split: prod.split)
  define S where "S = stamped (max_sim_time nd2) (next_ptr nd2) e (d_lps nd2 ! i) ?out"
  have frame2: "node_frame nd nd2"
    using same2(1) i(1) D(6) by (simp add: node_frame_def node_same_def received_def Let_def lp_receive_static nth_list_update_if)
  have "flows nd i id {#} {#} nd2"
    by (rule flows_id [OF frame2]) (use same2 i(1) D(6) sel2 in \<open>simp_all add: received_def Let_def lp_receive_static nth_list_update_if\<close>)
  moreover have "flows nd2 i (\<lambda>g. g @ outputs_of e S) (mset (filter (is_local nd2) S)) {#} nd3"
  proof (rule flows_record [OF _ _ i2])
    have len: "i < length (output_queue (d_om nd2))" using E(7) i2 by simp
    show "node_frame nd2 nd3"
      using f3 E(6) i2 by (simp add: node_frame_def nd3(5) nth_list_update_if)
    show "inputs nd3 + {#} = inputs nd2 + mset (filter (is_local nd2) S)"
      using routed_inputs [OF nd3(7)] by (simp add: S_def)
    show "set (processed_queue (d_es nd3) ! j) \<subseteq> set (processed_queue (d_es nd2) ! j) \<union> set_mset {#}" for j
      using f3 by simp
    fix j assume "j < n_lps nd2"
    show "last_fossil_collect_gvt (d_lps nd3 ! j) = last_fossil_collect_gvt (d_lps nd2 ! j)"
      using E(6) i2 by (simp add: nd3(5) nth_list_update_if)
    show "out_queue j nd3 = out_queue j nd2" if "j \<noteq> i" using that by (simp add: nd3(6) record_outputs_queue)
  next
    fix p :: "OutputEvent list"
    show "(p @ out_queue i nd2) @ outputs_of e S = p @ out_queue i nd3"
      using E(7) i2 by (simp add: nd3(6) record_outputs_queue outputs_of_def S_def)
  qed
  ultimately have "flows nd i ((\<lambda>g. g @ outputs_of e S) \<circ> id) ({#} + mset (filter (is_local nd2) S)) ({#} + {#}) nd3"
    by (rule flows_trans)
  from flows_trans [OF flows_trans [OF this fos(5)] es(4)] frame2
  have flow: "flows nd i (\<lambda>g. g @ outputs_of e S) (mset (filter (is_local nd) S)) {#e#} (?nd4\<lparr>d_es := es\<rparr>)"
    by (simp add: node_frame_is_local comp_def)
  have sent: "sent_as nd i e ?out S"
    using frame2 i(1) lp2 unfolding sent_as_def S_def node_frame_def by metis
  have "d_lps nd0 ! i = d_lps nd ! i" using nd0(1) by (simp add: node_same_def)
  then have "process_positive cfg now t i i e nd = Inr (?nd4\<lparr>d_es := es\<rparr>)"
    using nd3(1) es(1) cfg(1)
    unfolding process_positive_def nd0_def [symmetric]
    by (cases "lp_receive (c_lp cfg) e (d_lps nd ! i)") (simp add: nd2_def Let_def)
  moreover have "fossils_to (node_gvt cfg nd) nd (?nd4\<lparr>d_es := es\<rparr>)"
  proof (rule fossils_to_trans)
    show "fossils_to (node_gvt cfg nd) nd nd3"
      using same2(1) i(1) D(6) E(6) i2
      by (auto simp: fossils_to_def nd3(5) sel2 received_def Let_def lp_receive_static nth_list_update_if)
    show "fossils_to (node_gvt cfg nd) nd3 (?nd4\<lparr>d_es := es\<rparr>)" using fos(6) gvt3 by (simp add: fossils_to_def)
    show "n_lps nd3 = n_lps nd" using f3 same2(3) by simp
  qed
  ultimately show ?thesis using es(2,3) gvt3 gvt4 flow sent f3 same2(3) fos(3) by auto
qed

section \<open>Cancelling an event\<close>

lemma cancelEvent_frame:
  assumes "cancelEvent i e es = Inr (found, es1)"
  shows "set (input_queue es1 ! j) \<subseteq> set (input_queue es ! j)"
    "length (input_queue es1) = length (input_queue es)"
proof -
  have sub: "set (ms_erase_at a (ms_erase_at b q)) \<subseteq> set q" for a b and q :: "event list"
    by (auto simp: ms_erase_at_def dest!: in_set_takeD in_set_dropD)
  have upd: "set ((input_queue es)[i := q] ! j) \<subseteq> set (input_queue es ! j)"
    if "set q \<subseteq> set (input_queue es ! i)" for q
    using that by (cases "j = i"; cases "i < length (input_queue es)") (simp_all add: list_update_beyond)
  show "set (input_queue es1 ! j) \<subseteq> set (input_queue es ! j)"
    "length (input_queue es1) = length (input_queue es)"
    using assms subsetD [OF upd [OF sub]] by (auto simp: cancelEvent_def Let_def split: option.splits if_splits)
qed

lemma process_negative_node:
  fixes nd :: "('s, 'g, event list, 'v, 'd) dispatcher"
  assumes ok: "node_ok cfg sg0 U H A P nd" and cfg: "c_sched cfg = multiset_ops"
    and i: "i < n_lps nd" "i \<in> P" and ptr: "scheduled_event_pointer (d_es nd) ! i = Some e"
    and e: "event_type e = NEGATIVE"
    and p: "p \<in> set (input_queue (d_es nd) ! i)" "event_type p = POSITIVE" "ev_key p = ev_key e"
  shows "\<exists>nd'. process_negative cfg t i e nd = Inr nd' \<and> node_ok cfg sg0 U H A (P - {i}) nd' \<and>
    node_gvt cfg nd' = node_gvt cfg nd \<and> n_lps nd' = n_lps nd \<and> flows nd i id {#} {#e, p#} nd' \<and>
    fossils_to (node_gvt cfg nd) nd nd'"
proof -
  note D = node_okD [OF ok]
  obtain es1 es where es: "cancelEvent i e (d_es nd) = Inr (True, es1)"
    "startScheduling multiset_ops i es1 = Inr es" "ms_inv (P - {i}) es" "same_config (d_es nd) es"
    "processed_queue es = processed_queue (d_es nd)" "all_events (d_es nd) = add_mset e (add_mset p (all_events es))"
    using msq.cancelEvent_ok [OF D(1) i ptr e p] by blast
  let ?nd = "up CANCELLED_EVENTS t (nd\<lparr>d_es := es\<rparr>)"
  have n: "num_of_lps es = n_lps nd" using es(4) by (simp add: same_config_def)
  have iq: "set (input_queue es ! j) \<subseteq> set (input_queue (d_es nd) ! j)"
    "length (input_queue es) = length (input_queue (d_es nd))" for j
    using cancelEvent_frame [OF es(1)] startScheduling_processed [OF es(2)] by simp_all
  have sub: "set_mset (all_events es) \<subseteq> set_mset (all_events (d_es nd))" unfolding es(6) by auto
  have names: "names_ok ?nd" using D(2) by (simp add: names_ok_def n my_id_def lp_id_of_def)
  have queues: "queues_ok ?nd"
    using D(3) iq(1) unfolding queues_ok_def
    by (auto simp: n es(5) is_local_def my_id_def lp_id_of_def dest: subsetD)
  have fresh: "fresh_ok ?nd" using D(4) sub by (auto simp: fresh_ok_def n)
  have "out_ok (H j) j ?nd" if "j < n_lps nd" for j
    by (rule out_ok_suffix [OF D(10) [OF that], of "[]"]) (use sub in simp_all)
  then have sent: "sent_ok H ?nd" using D(7) by (simp add: sent_ok_def n)
  have run: "run_ok (c_lp cfg) j (sg0 j) (lp_view U H j ?nd)" if j: "j < n_lps nd" "j \<in> A" for j
    by (rule run_ok_cong [OF D(11) [OF j]])
      (use run_okD(1-3) [OF D(11) [OF j]] iq(2) es(5) in \<open>simp_all add: lp_view_def\<close>)
  have "node_ok cfg sg0 U H A (P - {i}) ?nd"
    unfolding node_ok_def using es(3) names queues fresh sent run D(8,9) by (simp add: n)
  moreover have "process_negative cfg t i e nd = Inr ?nd"
    using es(1,2) cfg by (simp add: process_negative_def Let_def)
  moreover have "node_gvt cfg ?nd = node_gvt cfg nd" "n_lps ?nd = n_lps nd" by (simp_all add: n)
  moreover have "flows nd i id {#} {#e, p#} ?nd"
    by (rule flows_id) (use es(5,6) n in \<open>simp_all add: node_frame_def all_events_def subset_insertI2 subset_insertI\<close>)
  moreover have "fossils_to (node_gvt cfg nd) nd ?nd" by (rule fossils_to_same) simp
  ultimately show ?thesis by blast
qed

section \<open>Events in time\<close>

text \<open>An event that comes after the initial ones and before the end of time, and one that is not before GVT nor
  before what an LP of the node has committed.\<close>

definition proper :: "event \<Rightarrow> bool" where
  "proper e \<longleftrightarrow> timestamp e \<noteq> uint_max \<and> ev_less (InitialEvent 0) e"

definition not_before :: "('s, 'g, 'q, 'v, 'd) config \<Rightarrow> ('s, 'g, 'q, 'v, 'd) dispatcher \<Rightarrow> event \<Rightarrow> bool" where
  "not_before cfg nd e \<longleftrightarrow> node_gvt cfg nd \<le> timestamp e \<and>
     (\<forall>j<n_lps nd. last_fossil_collect_gvt (d_lps nd ! j) \<le> timestamp e)"

text \<open>Nothing that is still to be processed or may yet be cancelled is too early.\<close>

definition timely :: "('s, 'g, 'q, 'v, 'd) config \<Rightarrow> (nat \<Rightarrow> event list) \<Rightarrow> ('s, 'g, 'q, 'v, 'd) dispatcher \<Rightarrow> bool" where
  "timely cfg H nd \<longleftrightarrow> (\<forall>e\<in>#inputs nd. not_before cfg nd e \<and> proper e) \<and>
     (\<forall>j<n_lps nd. name (d_lps nd ! j) \<noteq> '''' \<and> (\<forall>x\<in>set (H j). proper x) \<and>
        (\<forall>x\<in>set (out_queue j nd). timestamp (input_event x) \<le> timestamp (output_event x) \<and> proper (output_event x)))"

lemma proper_named: "sender_name x \<noteq> '''' \<Longrightarrow> timestamp x \<noteq> uint_max \<Longrightarrow> proper x"
  by (cases "sender_name x") (auto simp: proper_def ev_less_key ev_key_def InitialEvent_def order_less_le)

lemma stamped_source:
  "x \<in> set (stamped mx p s lp es) \<Longrightarrow> sender_name x = name lp \<and> (\<exists>e\<in>set es. timestamp x = timestamp e)"
  by (induction mx p s lp es rule: stamped.induct) (auto split: if_splits)

section \<open>One iteration of a worker thread\<close>

lemma input_processed_disjoint:
  assumes inv: "ms_inv P es" and i: "i < num_of_lps es"
    and a: "a \<in> set (input_queue es ! i)" and b: "b \<in> set (processed_queue es ! i)"
  shows "ev_key5 a \<noteq> ev_key5 b"
proof -
  note shape = es_inv_shapeD [OF inv i]
  have "mset (input_queue es ! i) + mset (processed_queue es ! i) \<subseteq># all_events es"
    unfolding all_events_def
    using mset_concat_member [OF shape(2)] mset_concat_member [OF shape(3)] by (rule subset_mset.add_mono)
  moreover have "{#a#} + {#b#} \<subseteq># mset (input_queue es ! i) + mset (processed_queue es ! i)"
    using a b by (intro subset_mset.add_mono) simp_all
  ultimately have "distinct_events ({#a#} + {#b#})"
    using inv distinct_events_subset subset_mset.order_trans unfolding es_inv_def by blast
  then show ?thesis by (auto simp: distinct_events_add)
qed

text \<open>No rollback is needed: the event is after every processed one.\<close>

lemma no_rollback_later:
  assumes inv: "ms_inv P es" and i: "i < num_of_lps es" and e: "e \<in> set (input_queue es ! i)"
    and sorted: "sorted_wrt ev_less (processed_queue es ! i)"
    and pos: "\<forall>p\<in>set (processed_queue es ! i). event_type p = POSITIVE"
    and no: "\<not> must_rollback e (lastProcessedEvent i es)"
  shows "\<forall>p\<in>set (processed_queue es ! i). ev_less p e"
proof (rule lastProcessed_all [OF sorted], intro allI impI)
  fix l assume l: "lastProcessedEvent i es = Some l"
  then have mem: "l \<in> set (processed_queue es ! i)"
    by (auto simp: lastProcessedEvent_def split: if_splits)
  have ne: "ev_key5 e \<noteq> ev_key5 l" by (rule input_processed_disjoint [OF inv i e mem])
  have "\<not> ev_less e l" "\<not> (ev_eq e l \<and> event_type e = NEGATIVE)"
    using no l by (auto simp: must_rollback_def)
  moreover have "event_type e = POSITIVE \<Longrightarrow> ev_key e \<noteq> ev_key l"
    using ne pos mem by (simp add: ev_key5_def)
  ultimately show "ev_less l e"
    by (cases "event_type e") (auto simp: ev_key_simps)
qed

lemma history_positive_processed:
  assumes "node_ok cfg sg0 U H A P nd" "i < n_lps nd" "i \<in> A"
  shows "set (processed_queue (d_es nd) ! i) \<subseteq> set (H i)"
    "\<forall>p\<in>set (processed_queue (d_es nd) ! i). event_type p = POSITIVE"
proof -
  obtain d where "H i = d @ processed_queue (d_es nd) ! i"
    using run_okD(6) [OF node_okD(11) [OF assms]] by (auto simp: lp_view_def)
  then show "set (processed_queue (d_es nd) ! i) \<subseteq> set (H i)" by auto
  then show "\<forall>p\<in>set (processed_queue (d_es nd) ! i). event_type p = POSITIVE"
    using node_okD(9) [OF assms(1,2)] by blast
qed

text \<open>The assumptions on the configuration: the schedule queue of the default build, a GVT manager that
  changes GVT in the master loop only, and a model whose generators can be saved and restored as text and stay
  the same in number. The states of the model are any values, also such that a move leaves empty.\<close>

definition sound_config :: "('s, 'g, event list, 'v, 'd) config \<Rightarrow> bool" where
  "sound_config cfg \<longleftrightarrow> c_sched cfg = multiset_ops \<and> keeps_gvt (c_gvt cfg) \<and> rng_law (c_lp cfg) \<and>
     rng_count_law (c_lp cfg)"

text \<open>The events that a model sends for \<open>e\<close> are not for the time before it, nor for the largest number, which is
  infinity in the code.\<close>

definition in_future :: "event \<Rightarrow> event list \<Rightarrow> bool" where
  "in_future e es \<longleftrightarrow> (\<forall>x\<in>set es. timestamp e \<le> timestamp x \<and> timestamp x \<noteq> uint_max)"

text \<open>What the worker that takes the event relies on: the model sends new events to known LPs and not into
  the past, a negative event comes after its counterpart, and the state that a rollback restores has not been
  moved out of before.\<close>

definition event_ready :: "('s, 'g, event list, 'v, 'd) config \<Rightarrow> (nat \<Rightarrow> 's \<times> 'g list) \<Rightarrow> (nat \<Rightarrow> event set) \<Rightarrow>
    (nat \<Rightarrow> event list) \<Rightarrow> ('s, 'g, event list, 'v, 'd) dispatcher \<Rightarrow> event \<Rightarrow> bool" where
  "event_ready cfg sg0 U H nd e \<longleftrightarrow>
     (let i = lp_id_of (receiverName e) nd;
          out = snd (receiveEvent (c_lp cfg) e (exec (c_lp cfg) (sg0 i) (filter (\<lambda>x. ev_less x e) (H i))))
      in (must_rollback e (lastProcessedEvent i (d_es nd)) \<longrightarrow> state_event (restored e i nd) \<notin> U i) \<and>
         (case event_type e of
            NEGATIVE \<Rightarrow> \<exists>p\<in>set (input_queue (d_es nd) ! i) \<union> set (processed_queue (d_es nd) ! i).
              event_type p = POSITIVE \<and> ev_key p = ev_key e
          | POSITIVE \<Rightarrow> may_send nd (d_lps nd ! i) out \<and> in_future e out))"

text \<open>The spent saved states of an LP after an event has been taken: a rollback moves out of the one it restores,
  and processing a positive event saves the state anew.\<close>

definition spent_after :: "('s, 'g) lp_ops \<Rightarrow> nat \<Rightarrow> event \<Rightarrow> ('s, 'g, 'q, 'v, 'd) dispatcher \<Rightarrow> event set \<Rightarrow> event set" where
  "spent_after ops i e nd V =
     (if must_rollback e (lastProcessedEvent i (d_es nd)) then spend ops (restored e i nd) V else V) -
     (if event_type e = NEGATIVE then {} else {e})"

text \<open>The history of an LP after an event has been taken: a negative event undoes its counterpart.\<close>

definition after_event :: "event \<Rightarrow> event list \<Rightarrow> event list" where
  "after_event e h = filter (\<lambda>x. ev_less x e) h @ (if event_type e = NEGATIVE then [] else [e])"

lemma lp_receive_out: "snd (lp_receive ops e lp) = snd (receiveEvent ops e (lp_state lp, rng_list lp))"
  by (simp add: lp_receive_def split: prod.split)

text \<open>What leaves the input queue with the event, and what is sent for it.\<close>

definition taken :: "('s, 'g, 'q, 'v, 'd) dispatcher \<Rightarrow> nat \<Rightarrow> event \<Rightarrow> event list \<Rightarrow> event list \<Rightarrow> event multiset \<Rightarrow> bool" where
  "taken nd i e out S del \<longleftrightarrow>
     (case event_type e of
        NEGATIVE \<Rightarrow> S = [] \<and> (\<exists>p. event_type p = POSITIVE \<and> ev_key p = ev_key e \<and> del = {#e, p#})
      | POSITIVE \<Rightarrow> sent_as nd i e out S \<and> del = {#e#})"

text \<open>The second half of an iteration, after the rollback, if any.\<close>

lemma process_event_node:
  fixes nd :: "('s, 'g, event list, 'v, 'd) dispatcher"
  assumes ok: "node_ok cfg sg0 U H A P nd" and cfg: "c_sched cfg = multiset_ops" "keeps_gvt (c_gvt cfg)"
    and i: "i < n_lps nd" "i \<in> P" "i \<in> A" and ptr: "scheduled_event_pointer (d_es nd) ! i = Some e"
    and e: "node_gvt cfg nd \<le> timestamp e" "last_fossil_collect_gvt (d_lps nd ! i) \<le> timestamp e"
      "timestamp e \<noteq> uint_max" "ev_less (InitialEvent 0) e"
    and later: "\<forall>p\<in>set (processed_queue (d_es nd) ! i). ev_less p e"
    and neg: "event_type e = NEGATIVE \<Longrightarrow>
      \<exists>p\<in>set (input_queue (d_es nd) ! i). event_type p = POSITIVE \<and> ev_key p = ev_key e"
    and send: "event_type e = POSITIVE \<Longrightarrow>
      may_send nd (d_lps nd ! i) (snd (receiveEvent (c_lp cfg) e (exec (c_lp cfg) (sg0 i) (H i))))"
  shows "\<exists>nd'. (if event_type e = NEGATIVE then process_negative cfg t i e nd
      else process_positive cfg now t i i e nd) = Inr nd' \<and>
    node_ok cfg sg0 (U(i := U i - (if event_type e = NEGATIVE then {} else {e})))
      (H(i := H i @ (if event_type e = NEGATIVE then [] else [e]))) A (P - {i}) nd' \<and>
    node_gvt cfg nd' = node_gvt cfg nd \<and> n_lps nd' = n_lps nd \<and> fossils_to (node_gvt cfg nd) nd nd' \<and>
    (\<exists>S del. taken nd i e (snd (receiveEvent (c_lp cfg) e (exec (c_lp cfg) (sg0 i) (H i)))) S del \<and>
      flows nd i (\<lambda>g. g @ outputs_of e S) (mset (filter (is_local nd) S)) del nd')"
proof (cases "event_type e")
  case NEGATIVE
  then obtain p where p: "p \<in> set (input_queue (d_es nd) ! i)" "event_type p = POSITIVE" "ev_key p = ev_key e"
    using neg by blast
  obtain nd' where nd': "process_negative cfg t i e nd = Inr nd'" "node_ok cfg sg0 U H A (P - {i}) nd'"
    "node_gvt cfg nd' = node_gvt cfg nd" "n_lps nd' = n_lps nd" "flows nd i id {#} {#e, p#} nd'"
    "fossils_to (node_gvt cfg nd) nd nd'"
    using process_negative_node [OF ok cfg(1) i(1,2) ptr NEGATIVE p] by blast
  have "(\<lambda>g. g @ outputs_of e []) = id" by (simp add: outputs_of_def fun_eq_iff)
  then have "taken nd i e out [] {#e, p#} \<and>
      flows nd i (\<lambda>g. g @ outputs_of e []) (mset (filter (is_local nd) [])) {#e, p#} nd'" for out
    using nd'(5) p NEGATIVE by (auto simp: taken_def)
  with nd' NEGATIVE show ?thesis by fastforce
next
  case POSITIVE
  have "snd (lp_receive (c_lp cfg) e (d_lps nd ! i)) =
      snd (receiveEvent (c_lp cfg) e (exec (c_lp cfg) (sg0 i) (H i)))"
    using run_ok_sequential [OF node_okD(11) [OF ok i(1,3)]] by (simp add: lp_receive_out lp_view_def)
  with process_positive_node [OF ok cfg i ptr e(1,2,4) POSITIVE e(3) later, where t = t and now = now] send [OF POSITIVE] POSITIVE
  show ?thesis by (auto simp: taken_def)
qed

text \<open>The flow of events in an iteration: what a rollback brings back, its anti-messages, and what the event sends.\<close>

definition back_to_input :: "nat \<Rightarrow> event \<Rightarrow> ('s, 'g, 'q, 'v, 'd) dispatcher \<Rightarrow> event list" where
  "back_to_input i e nd = filter (\<lambda>x. ev_ge x e) (processed_queue (d_es nd) ! i)"

definition to_cancel :: "nat \<Rightarrow> event \<Rightarrow> ('s, 'g, 'q, 'v, 'd) dispatcher \<Rightarrow> event list" where
  "to_cancel i e nd = map output_event (filter (\<lambda>x. ev_ge (input_event x) e) (out_queue i nd))"

definition iteration_flow :: "('s, 'g, event list, 'v, 'd) config \<Rightarrow> (nat \<Rightarrow> 's \<times> 'g list) \<Rightarrow> (nat \<Rightarrow> event list) \<Rightarrow>
    nat \<Rightarrow> event \<Rightarrow> ('s, 'g, event list, 'v, 'd) dispatcher \<Rightarrow> ('s, 'g, event list, 'v, 'd) dispatcher \<Rightarrow> bool" where
  "iteration_flow cfg sg0 H i e nd nd' \<longleftrightarrow>
     (let out = snd (receiveEvent (c_lp cfg) e (exec (c_lp cfg) (sg0 i) (filter (\<lambda>x. ev_less x e) (H i))))
      in \<exists>S del p. taken nd i e out S del \<and>
        flows nd i (\<lambda>g. filter (\<lambda>x. ev_less (input_event x) e) g @ outputs_of e S)
          (mset (back_to_input i e nd) + mset (filter (is_local nd) (negatives (max_sim_time nd) p (to_cancel i e nd))) +
           mset (filter (is_local nd) S)) del nd')"

lemma taken_cong:
  fixes nd nd1 :: "('s, 'g, 'q, 'v, 'd) dispatcher"
  assumes "taken nd1 i e out S del" and "max_sim_time nd1 = max_sim_time nd"
    and "name (d_lps nd1 ! i) = name (d_lps nd ! i)" "lp_generation (d_lps nd1 ! i) = lp_generation (d_lps nd ! i)"
  shows "taken nd i e out S del"
  using assms by (simp add: taken_def sent_as_def split: EventType.splits)

lemma flows_cong:
  assumes "flows nd i f a d nd'" and "\<And>G. record_ok G nd \<Longrightarrow> f (G i) = f' (G i)"
  shows "flows nd i f' a d nd'"
  using assms by (simp add: flows_def)

lemma worker_iteration:
  fixes nd :: "('s, 'g, event list, 'v, 'd) dispatcher"
  assumes cfg: "sound_config cfg" and ok: "node_ok cfg sg0 U H A P nd"
    and t: "t < length (worker_thread_scheduler_map (d_es nd))"
    and get: "getEvent multiset_ops t (d_es nd) = Inr (Some e, es)"
    and A: "lp_id_of (receiverName e) nd \<in> A" and ready: "event_ready cfg sg0 U H nd e"
    and late: "not_before cfg nd e" "proper e"
  defines "i \<equiv> lp_id_of (receiverName e) nd"
  shows "\<exists>nd'. process_iteration cfg now t nd = Inr nd' \<and>
    node_ok cfg sg0 (U(i := spent_after (c_lp cfg) i e nd (U i))) (H(i := after_event e (H i))) A P nd' \<and> node_gvt cfg nd' = node_gvt cfg nd \<and>
    i < n_lps nd' \<and> iteration_flow cfg sg0 H i e nd nd' \<and> fossils_to (node_gvt cfg nd) nd nd'"
proof -
  have c: "c_sched cfg = multiset_ops" "keeps_gvt (c_gvt cfg)" "rng_law (c_lp cfg)" "rng_count_law (c_lp cfg)"
    using cfg by (simp_all add: sound_config_def)
  obtain j where j: "j < n_lps nd" "j \<notin> P" "scheduled_event_pointer es ! j = Some e"
    "e \<in> set (input_queue es ! j)" "node_ok cfg sg0 U H A (insert j P) (nd\<lparr>d_es := es\<rparr>)"
    using getEvent_node(2) [OF ok t get HOL.refl] by blast
  obtain q where es: "es = set_schedule (worker_thread_scheduler_map (d_es nd) ! t) q (d_es nd)"
    using get by (auto simp: getEvent_def Let_def)
  have iq: "input_queue es = input_queue (d_es nd)" "processed_queue es = processed_queue (d_es nd)"
    "num_of_lps es = n_lps nd" "all_events es = all_events (d_es nd)"
    by (simp_all add: es)
  have local: "is_local nd e" "lp_id_of (receiverName e) nd = j"
    using node_okD(3) [OF ok] j(1,4) iq unfolding queues_ok_def by auto
  have ij: "i = j" using local(2) by (simp add: i_def)
  let ?flag = "gvt_getLocalGVTFlag (c_gvt cfg) (d_gvt nd)"
  define tm2 where "tm2 = (if threadPassive t (d_tm nd) then setThreadActive t (d_tm nd) else d_tm nd)"
  define nd2 where "nd2 = nd\<lparr>d_es := es, d_gvt := gvt_reportThreadMin (c_gvt cfg) (timestamp e) t ?flag (d_gvt nd),
    d_tm := tm2\<rparr>"
  have gvt2: "node_gvt cfg nd2 = node_gvt cfg nd" using c(2) by (simp add: nd2_def keeps_gvt_def)
  have ok2: "node_ok cfg sg0 U H A (insert i P) nd2"
    by (rule node_ok_same [OF j(5)])
      (use node_okD(1) [OF j(5)] gvt2 ij in \<open>simp_all add: node_same_def nd2_def\<close>)
  have i2: "i < n_lps nd2" "i \<in> insert i P" "i \<in> A" using j(1) ij A iq by (simp_all add: nd2_def i_def)
  have sel2: "d_es nd2 = es" "d_lps nd2 = d_lps nd" "lp_id_of (receiverName e) nd2 = i"
    by (simp_all add: nd2_def lp_id_of_def i_def)
  have lpk: "lp_of (receiverName e) nd2 = Inr i"
    using node_okD(2) [OF ok] local by (simp add: names_ok_def is_local_def lp_of_def nd2_def ij)
  have node: "node_of (receiverName e) nd2 = (my_id nd2, nd2)"
    using local(1) by (simp add: is_local_def node_of_def getNodeID_def nd2_def my_id_def)
  have rdy: "node_gvt cfg nd \<le> timestamp e" "last_fossil_collect_gvt (d_lps nd ! i) \<le> timestamp e"
    "timestamp e \<noteq> uint_max" "ev_less (InitialEvent 0) e"
    using late j(1) ij by (simp_all add: not_before_def proper_def)
  have last: "lastProcessedEvent i (d_es nd) = lastProcessedEvent i es" using iq by (simp add: lastProcessedEvent_def)
  have sm2: "d_sm nd2 = d_sm nd" by (simp add: nd2_def)
  have neg: "\<exists>p\<in>set (input_queue es ! i) \<union> set (processed_queue es ! i).
      event_type p = POSITIVE \<and> ev_key p = ev_key e" if "event_type e = NEGATIVE"
    using ready that by (simp add: event_ready_def Let_def iq flip: i_def)
  have send: "may_send nd2 lp (snd (receiveEvent (c_lp cfg) e
      (exec (c_lp cfg) (sg0 i) (filter (\<lambda>x. ev_less x e) (H i)))))"
    if "event_type e = POSITIVE" "lp_generation lp = lp_generation (d_lps nd ! i)" for lp
    using ready that by (simp add: event_ready_def Let_def may_send_def nd2_def iq flip: i_def)
  note pos = history_positive_processed [OF ok2 i2(1,3), unfolded sel2]
  have view: "run_ok (c_lp cfg) i (sg0 i) (lp_view U H i nd2)" by (rule node_okD(11) [OF ok2 i2(1,3)])
  have sorted: "sorted_wrt ev_less (processed_queue es ! i)"
    using run_okD(10) [OF view] by (simp add: lp_view_def sel2)
  have inv2: "ms_inv (insert i P) es" using node_okD(1) [OF ok2] by (simp add: sel2)
  have run: "process_iteration cfg now t nd =
      bindR (if must_rollback e (lastProcessedEvent i es) then d_rollback cfg t e nd2 else Inr nd2)
        (\<lambda>nd. if event_type e = NEGATIVE then process_negative cfg t i e nd
               else process_positive cfg now t i i e nd)"
  proof (cases "threadPassive t (d_tm nd)")
    case True
    then have "nd\<lparr>d_es := es, d_gvt := gvt_reportThreadMin (c_gvt cfg) (timestamp e) t ?flag (d_gvt nd),
        d_tm := setThreadActive t (d_tm nd)\<rparr> = nd2"
      by (simp add: nd2_def tm2_def)
    with True get c(1) node lpk show ?thesis by (simp add: process_iteration_def sel2 Let_def)
  next
    case False
    then have "nd\<lparr>d_es := es, d_gvt := gvt_reportThreadMin (c_gvt cfg) (timestamp e) t ?flag (d_gvt nd)\<rparr> = nd2"
      by (simp add: nd2_def tm2_def)
    with False get c(1) node lpk show ?thesis by (simp add: process_iteration_def sel2 Let_def)
  qed
  have P: "insert i P - {i} = P" using j(2) ij by auto
  have i0: "i < n_lps nd" using j(1) ij by simp
  have flow2: "flows nd i id {#} {#} nd2"
    by (rule node_same_flows) (simp add: node_same_def nd2_def es)
  have local2: "is_local nd2 = is_local nd" by (simp add: nd2_def is_local_def [abs_def] my_id_def)
  show ?thesis
  proof (cases "must_rollback e (lastProcessedEvent i es)")
    case False
    have later: "\<forall>p\<in>set (processed_queue es ! i). ev_less p e"
      using no_rollback_later [OF inv2 _ _ sorted pos(2) False] j(4) i2(1) ij by (simp add: sel2)
    have "\<forall>p\<in>set (H i). ev_less p e"
      using history_all_less [OF view past_view] rdy later
      by (simp add: lp_view_def sel2)
    then have H: "filter (\<lambda>x. ev_less x e) (H i) = H i" by (simp add: filter_id_conv)
    have "\<exists>p\<in>set (input_queue es ! i). event_type p = POSITIVE \<and> ev_key p = ev_key e"
      if "event_type e = NEGATIVE"
      using neg [OF that] later by (auto simp: ev_less_key)
    then obtain nd' S del where nd': "(if event_type e = NEGATIVE then process_negative cfg t i e nd2
          else process_positive cfg now t i i e nd2) = Inr nd'"
      "node_ok cfg sg0 (U(i := U i - (if event_type e = NEGATIVE then {} else {e})))
        (H(i := H i @ (if event_type e = NEGATIVE then [] else [e]))) A (insert i P - {i}) nd'"
      "node_gvt cfg nd' = node_gvt cfg nd2" "n_lps nd' = n_lps nd2"
      "taken nd2 i e (snd (receiveEvent (c_lp cfg) e (exec (c_lp cfg) (sg0 i) (H i)))) S del"
      "flows nd2 i (\<lambda>g. g @ outputs_of e S) (mset (filter (is_local nd2) S)) del nd'"
      "fossils_to (node_gvt cfg nd2) nd2 nd'"
      using process_event_node [OF ok2 c(1,2) i2, of e t now] j(3) ij rdy gvt2 later send H
      by (auto simp: sel2)
    have less: "ev_less (input_event x) e" if G: "record_ok G nd" and x: "x \<in> set (G i)" for G x
    proof -
      obtain p where p: "G i = p @ out_queue i nd"
        "\<forall>x\<in>set p. timestamp (input_event x) < last_fossil_collect_gvt (d_lps nd ! i)"
        using G i0 unfolding record_ok_def by blast
      then consider "x \<in> set p" | "x \<in> set (out_queue i nd)" using x by auto
      then show ?thesis
      proof cases
        case 1
        then have "timestamp (input_event x) < timestamp e"
          using p(2) rdy(2) by fastforce
        then show ?thesis using timestamp_less_ev_key by (simp add: ev_less_key)
      next
        case 2
        then have "ev_key (input_event x) = ev_key (InitialEvent 0) \<or> input_event x \<in> set (H i)"
          using node_okD(10) [OF ok i0] by (simp add: out_ok_def)
        then show ?thesis using \<open>\<forall>p\<in>set (H i). ev_less p e\<close> rdy(4) by (auto simp: ev_less_key)
      qed
    qed
    have "record_ok (\<lambda>j. out_queue j nd) nd" by (simp add: record_ok_def)
    then have none: "to_cancel i e nd = []" "back_to_input i e nd = []"
      using less later iq(2) by (auto simp: to_cancel_def back_to_input_def ev_ge_def filter_empty_conv)
    have "flows nd i (\<lambda>g. filter (\<lambda>x. ev_less (input_event x) e) g @ outputs_of e S) (mset (filter (is_local nd) S)) del nd'"
    proof (rule flows_cong)
      show "flows nd i (\<lambda>g. g @ outputs_of e S) (mset (filter (is_local nd) S)) del nd'"
        using flows_trans [OF flow2 nd'(6)] by (simp add: local2 comp_def)
    qed (use less in \<open>simp add: filter_id_conv\<close>)
    moreover have "taken nd i e (snd (receiveEvent (c_lp cfg) e (exec (c_lp cfg) (sg0 i) (filter (\<lambda>x. ev_less x e) (H i))))) S del"
      unfolding H by (rule taken_cong [OF nd'(5)]) (simp_all add: nd2_def)
    ultimately have "iteration_flow cfg sg0 H i e nd nd'"
      unfolding iteration_flow_def Let_def none by (intro exI conjI) (assumption, simp)
    moreover have "fossils_to (node_gvt cfg nd) nd nd'"
      using nd'(7) gvt2 iq(3) by (simp add: fossils_to_def nd2_def)
    moreover have "spent_after (c_lp cfg) i e nd (U i) = U i - (if event_type e = NEGATIVE then {} else {e})"
      using False by (simp add: spent_after_def last)
    ultimately show ?thesis using nd'(1-4) False i2(1) gvt2 unfolding run P after_event_def H by auto
  next
    case True
    let ?H = "H(i := filter (\<lambda>x. ev_less x e) (H i))" and ?U = "U(i := spend (c_lp cfg) (restored e i nd) (U i))"
    have intact: "state_event (restored e i nd2) \<notin> U i"
      using ready True by (simp add: event_ready_def Let_def sm2 last flip: i_def)
    obtain nd3 lp where nd3: "d_rollback cfg t e nd2 = Inr nd3" "node_ok cfg sg0 ?U ?H A (insert i P) nd3"
      "n_lps nd3 = n_lps nd2" "node_gvt cfg nd3 = node_gvt cfg nd2" "d_lps nd3 = (d_lps nd2)[i := lp]"
      "lp_generation lp = lp_generation (d_lps nd2 ! i)" "\<forall>lp es. may_send nd2 lp es \<longrightarrow> may_send nd3 lp es"
      "processed_queue (d_es nd3) ! i = filter (\<lambda>x. ev_less x e) (processed_queue es ! i)"
      "set (input_queue es ! i) \<union> set (filter (\<lambda>x. ev_ge x e) (processed_queue es ! i))
        \<subseteq> set (input_queue (d_es nd3) ! i)"
      "\<forall>j\<in>insert i P. scheduled_event_pointer (d_es nd3) ! j = scheduled_event_pointer es ! j"
      "name lp = name (d_lps nd2 ! i)"
      "flows nd2 i (filter (\<lambda>x. ev_less (input_event x) e)) (mset (back_to_input i e nd2) +
         mset (filter (is_local nd2) (negatives (max_sim_time nd2) (next_ptr nd2) (to_cancel i e nd2)))) {#} nd3"
      "last_fossil_collect_gvt lp = last_fossil_collect_gvt (d_lps nd2 ! i)"
      using d_rollback_node [OF ok2 c(1,2) i2 _ _ _ _ c(3,4) intact, of t] j(4) ij rdy gvt2
      unfolding sel2 sm2 back_to_input_def to_cancel_def by auto
    have i3: "i < n_lps nd3" using i2(1) nd3(3) by simp
    have "\<exists>p\<in>set (input_queue (d_es nd3) ! i). event_type p = POSITIVE \<and> ev_key p = ev_key e"
      if n: "event_type e = NEGATIVE"
    proof -
      obtain p where p: "p \<in> set (input_queue es ! i) \<union> set (processed_queue es ! i)"
        "event_type p = POSITIVE" "ev_key p = ev_key e" using neg [OF n] by blast
      then have "p \<in> set (input_queue (d_es nd3) ! i)" using nd3(9) by (auto simp: ev_ge_key)
      with p show ?thesis by blast
    qed
    moreover have "may_send nd3 (d_lps nd3 ! i)
        (snd (receiveEvent (c_lp cfg) e (exec (c_lp cfg) (sg0 i) (?H i))))" if "event_type e = POSITIVE"
      using send [OF that, of "d_lps nd3 ! i"] nd3(5-7) i2(1) node_okD(6) [OF ok2] sel2(2) by simp
    ultimately obtain nd' S del where nd': "(if event_type e = NEGATIVE then process_negative cfg t i e nd3
          else process_positive cfg now t i i e nd3) = Inr nd'"
      "node_ok cfg sg0 (?U(i := ?U i - (if event_type e = NEGATIVE then {} else {e}))) (?H(i := ?H i @ (if event_type e = NEGATIVE then [] else [e]))) A (insert i P - {i}) nd'"
      "node_gvt cfg nd' = node_gvt cfg nd3" "n_lps nd' = n_lps nd3"
      "taken nd3 i e (snd (receiveEvent (c_lp cfg) e (exec (c_lp cfg) (sg0 i) (?H i)))) S del"
      "flows nd3 i (\<lambda>g. g @ outputs_of e S) (mset (filter (is_local nd3) S)) del nd'"
      "fossils_to (node_gvt cfg nd3) nd3 nd'"
      using process_event_node [OF nd3(2) c(1,2) i3 _ i2(3), of e t now] nd3(4,5,8,10,13) j(3) ij rdy gvt2 i2(1) node_okD(6) [OF ok2] sel2(2)
      by auto
    have frame3: "node_frame nd2 nd3" using nd3(12) by (simp add: flows_def)
    have same: "back_to_input i e nd2 = back_to_input i e nd" "to_cancel i e nd2 = to_cancel i e nd"
      "max_sim_time nd2 = max_sim_time nd"
      by (simp_all add: back_to_input_def to_cancel_def nd2_def iq(2))
    have "taken nd i e (snd (receiveEvent (c_lp cfg) e (exec (c_lp cfg) (sg0 i) (filter (\<lambda>x. ev_less x e) (H i))))) S del"
      using taken_cong [OF nd'(5), of nd] frame3 nd3(5,6,11) i2(1) node_okD(6) [OF ok2] sel2(2) same(3)
      by (simp add: node_frame_def)
    moreover have "flows nd i (\<lambda>g. filter (\<lambda>x. ev_less (input_event x) e) g @ outputs_of e S)
        (mset (back_to_input i e nd) + mset (filter (is_local nd) (negatives (max_sim_time nd) (next_ptr nd2) (to_cancel i e nd))) +
         mset (filter (is_local nd) S)) del nd'"
      using flows_trans [OF flows_trans [OF flow2 nd3(12)] nd'(6)]
      by (simp add: local2 node_frame_is_local [OF frame3] same comp_def)
    ultimately have "iteration_flow cfg sg0 H i e nd nd'"
      unfolding iteration_flow_def Let_def by blast
    moreover have "fossils_to (node_gvt cfg nd) nd nd'"
    proof (rule fossils_to_trans)
      show "fossils_to (node_gvt cfg nd) nd nd3"
        using i2(1) node_okD(6) [OF ok2] iq(3)
        by (auto simp: fossils_to_def nd3(5,13) sel2(2) nth_list_update_if)
      show "fossils_to (node_gvt cfg nd) nd3 nd'" using nd'(7) nd3(4) gvt2 by simp
      show "n_lps nd3 = n_lps nd" using nd3(3) iq(3) sel2(1) by simp
    qed
    moreover have "spent_after (c_lp cfg) i e nd (U i) = ?U i - (if event_type e = NEGATIVE then {} else {e})"
      using True by (simp add: spent_after_def last)
    ultimately show ?thesis using True nd3(1,4) i3 gvt2 nd'(1-4) unfolding run P after_event_def by auto
  qed
qed

end
