(* ===== verification/TW_Node_Step.thy ===== *)
theory TW_Node_Step
  imports TW_Node_Ops
begin

text \<open>
  The execution of a node as a step relation on its histories and its state, in which worker threads,
  received messages and the master loop follow each other in any order, and what every step keeps.
\<close>

section \<open>The other steps\<close>

lemma idle_iteration:
  fixes nd :: "('s, 'g, event list, 'v, 'd) dispatcher"
  assumes cfg: "sound_config cfg" and ok: "node_ok cfg sg0 U H A P nd"
    and t: "t < length (worker_thread_scheduler_map (d_es nd))"
    and get: "getEvent multiset_ops t (d_es nd) = Inr (None, es)"
  shows "\<exists>nd'. process_iteration cfg now t nd = Inr nd' \<and> node_ok cfg sg0 U H A P nd' \<and>
    node_gvt cfg nd' = node_gvt cfg nd \<and> node_same nd nd'"
proof -
  let ?flag = "gvt_getLocalGVTFlag (c_gvt cfg) (d_gvt nd)"
  define tm where "tm = (if threadPassive t (d_tm nd) then d_tm nd else setThreadPassive t (d_tm nd))"
  define nd' where "nd' = nd\<lparr>d_es := es, d_tm := tm,
    d_gvt := gvt_reportThreadMin (c_gvt cfg) uint_max t ?flag (d_gvt nd)\<rparr>"
  have gvt: "node_gvt cfg nd' = node_gvt cfg nd" using cfg by (simp add: nd'_def sound_config_def keeps_gvt_def)
  note ok1 = getEvent_node(1) [OF ok t get HOL.refl]
  have "node_ok cfg sg0 U H A P nd'"
    by (rule node_ok_same [OF ok1]) (use node_okD(1) [OF ok1] in \<open>simp_all add: node_same_def nd'_def\<close>)
  moreover have "process_iteration cfg now t nd = Inr nd'"
    using get cfg unfolding nd'_def tm_def by (simp add: process_iteration_def sound_config_def Let_def)
  moreover have "node_same nd nd'" using get by (auto simp: nd'_def node_same_def getEvent_def Let_def)
  ultimately show ?thesis using gvt by blast
qed

text \<open>What may arrive in a message: a new event for this node that is not too early.\<close>

definition arrival_ok :: "('s, 'g, event list, 'v, 'd) config \<Rightarrow> ('s, 'g, event list, 'v, 'd) dispatcher \<Rightarrow>
    event \<Rightarrow> bool" where
  "arrival_ok cfg nd e \<longleftrightarrow> is_local nd e \<and> fresh_event (d_es nd) e \<and> ev_ptr e < next_ptr nd \<and> may_arrive nd e \<and>
     not_before cfg nd e \<and> proper e"

lemma receive_node:
  fixes nd :: "('s, 'g, event list, 'v, 'd) dispatcher"
  assumes cfg: "sound_config cfg" and ok: "node_ok cfg sg0 U H A P nd" and e: "arrival_ok cfg nd (em_event msg)"
  shows "\<exists>nd'. receiveEventMessage cfg t msg nd = Inr nd' \<and> node_ok cfg sg0 U H A P nd' \<and>
    node_gvt cfg nd' = node_gvt cfg nd \<and> d_lps nd' = d_lps nd \<and> flows nd 0 id {#em_event msg#} {#} nd'"
proof -
  let ?e = "em_event msg"
  define nd1 where "nd1 = (let nd1 = up TOTAL_EVENTS_RECEIVED t nd
    in nd1\<lparr>d_tm := updateMsgCount (- 1) (d_tm nd1),
           d_gvt := gvt_receiveEventUpdate (c_gvt cfg) ?e (em_color msg) (d_gvt nd1)\<rparr>)"
  have sel: "d_es nd1 = d_es nd" "d_lps nd1 = d_lps nd" "d_om nd1 = d_om nd" "next_ptr nd1 = next_ptr nd"
    "is_local nd1 = is_local nd" "lp_id_of nm nd1 = lp_id_of nm nd" for nm
    by (simp_all add: nd1_def Let_def is_local_def fun_eq_iff my_id_def lp_id_of_def)
  have gvt: "node_gvt cfg nd1 = node_gvt cfg nd"
    using cfg by (simp add: nd1_def Let_def sound_config_def keeps_gvt_def)
  have ok1: "node_ok cfg sg0 U H A P nd1"
    by (rule node_ok_same [OF ok]) (use node_okD(1) [OF ok] in \<open>simp_all add: node_same_def nd1_def Let_def\<close>)
  note D = node_okD [OF ok1]
  have i: "lp_id_of (receiverName ?e) nd1 < n_lps nd1"
    using D(2) e sel(5) by (metis arrival_ok_def is_local_def names_ok_def)
  obtain nd' where nd': "sendLocalEvent cfg t ?e nd1 = Inr nd'" "routed P nd1 [?e] nd'"
    "d_lps nd' = d_lps nd1" "d_om nd' = d_om nd1" "next_ptr nd' = next_ptr nd1"
    using sendLocalEvent_ok [OF D(1) _ i, of cfg t] e cfg
    by (auto simp: sel arrival_ok_def sound_config_def)
  have gvt': "node_gvt cfg nd' = node_gvt cfg nd"
    using sendLocalEvent_gvt [OF nd'(1)] gvt cfg by (simp add: sound_config_def)
  have "node_ok cfg sg0 U H A P nd'"
    by (rule node_ok_deliver [OF ok1 nd'(2-4)])
      (use e nd'(5) in \<open>simp_all add: arrival_ok_def may_arrive_def sel\<close>)
  moreover have "flows nd 0 id {#?e#} {#} nd'"
  proof (rule flows_id)
    have "max_sim_time nd1 = max_sim_time nd" "d_comm nd1 = d_comm nd" "local_lp_id_by_name nd1 = local_lp_id_by_name nd"
      by (simp_all add: nd1_def Let_def)
    then show "node_frame nd nd'"
      using nd'(2,3) by (simp add: routed_def same_frame_def node_frame_def sel)
    show "inputs nd' + {#} = inputs nd + {#?e#}"
      using routed_inputs [OF nd'(2)] e by (simp add: sel arrival_ok_def)
    show "set (processed_queue (d_es nd') ! j) \<subseteq> set (processed_queue (d_es nd) ! j) \<union> set_mset {#}" for j
      using nd'(2) by (simp add: routed_def same_frame_def sel)
  qed (simp_all add: nd'(3,4) sel)
  ultimately show ?thesis using nd'(1,3) gvt' by (auto simp: receiveEventMessage_def nd1_def Let_def)
qed

lemma do_comm_calls_frame:
  "node_id_by_lp_name (do_comm_calls cs c) = node_id_by_lp_name c" "my_rank (do_comm_calls cs c) = my_rank c"
  by (induction cs c rule: do_comm_calls.induct) (simp_all add: insertMessage_def)

lemma quiet_trans:
  "node_same a b \<and> d_es b = d_es a \<Longrightarrow> node_same b c \<and> d_es c = d_es b \<Longrightarrow> node_same a c \<and> d_es c = d_es a"
  by (simp add: node_same_def)

lemma d_onGVT_same: "d_onGVT m nd = Inr nd' \<Longrightarrow> node_same nd nd' \<and> d_es nd' = d_es nd"
  by (auto simp: d_onGVT_def Let_def node_same_def split: prod.splits)

lemma master_same:
  assumes "master_iteration cfg now m secs sz nd = Inr (nd', fl)"
  shows "node_same nd nd' \<and> d_es nd' = d_es nd"
proof -
  define nd1 where "nd1 = (if nodePassive (d_tm nd)
    then let (_, tm, out) = sendTerminationToken (my_id nd) (of_nat (num_processes (d_comm nd)))
           PASSIVE (my_id nd) 0 (d_tm nd)
         in nd\<lparr>d_tm := tm, d_comm := do_comm_calls (map Insert_Message out) (d_comm nd)\<rparr> else nd)"
  have 1: "node_same nd nd1 \<and> d_es nd1 = d_es nd"
    by (simp add: nd1_def node_same_def do_comm_calls_frame split: prod.split)
  note run = assms [unfolded master_iteration_def, folded nd1_def, unfolded Let_def]
  obtain v calls where vc: "gvt_checkProgress (c_gvt cfg) now (d_gvt nd1) = Inr (v, calls)"
    using run by auto
  obtain updated v' where u: "gvt_gvtUpdated (c_gvt cfg) v = (updated, v')" by fastforce
  define nd3 where "nd3 = nd1\<lparr>d_comm := do_comm_calls calls (d_comm nd1), d_gvt := v'\<rparr>"
  have 3: "node_same nd1 nd3 \<and> d_es nd3 = d_es nd1" by (simp add: nd3_def node_same_def do_comm_calls_frame)
  obtain nd4 where nd4: "(if updated then d_onGVT m nd3 else Inr nd3) = Inr nd4"
    "\<exists>cp tm st. nd' = nd4\<lparr>d_cp := cp, d_tm := tm, d_stats := st\<rparr>"
  proof -
    have "bindR (if updated then d_onGVT m nd3 else Inr nd3) (\<lambda>nd4.
        let (cp, tm, st) = checkpointIfNecessary (c_dbl cfg) secs sz (d_cp nd4, d_tm nd4, d_stats nd4)
        in Inr (nd4\<lparr>d_cp := cp, d_tm := tm, d_stats := st\<rparr>, Flush_Messages \<in> set calls)) = Inr (nd', fl)"
      using run by (cases updated) (simp_all add: vc u nd3_def Let_def)
    then obtain nd4 where nd4: "(if updated then d_onGVT m nd3 else Inr nd3) = Inr nd4"
      "(let (cp, tm, st) = checkpointIfNecessary (c_dbl cfg) secs sz (d_cp nd4, d_tm nd4, d_stats nd4)
        in Inr (nd4\<lparr>d_cp := cp, d_tm := tm, d_stats := st\<rparr>, Flush_Messages \<in> set calls)) =
        (Inr (nd', fl) :: (_ \<times> bool) res)"
      unfolding bindR_eq_Inr by (elim exE conjE) (rule that)
    from nd4(2) have "\<exists>cp tm st. nd' = nd4\<lparr>d_cp := cp, d_tm := tm, d_stats := st\<rparr>"
      by (auto split: prod.splits)
    with nd4(1) show ?thesis by (rule that)
  qed
  have 4: "node_same nd3 nd4 \<and> d_es nd4 = d_es nd3"
    using nd4(1) d_onGVT_same by (auto simp: node_same_def split: if_splits)
  have "node_same nd4 nd' \<and> d_es nd' = d_es nd4" using nd4(2) by (auto simp: node_same_def)
  with 1 3 4 show ?thesis by (meson quiet_trans)
qed

section \<open>Steps of a node\<close>

text \<open>The states of a node with its histories and its spent saved states. GVT changes only in the master loop, to
  a value that is not past an event that is still to be processed here.\<close>

type_synonym ('s, 'g, 'v, 'd) traced =
  "(nat \<Rightarrow> event set) \<times> (nat \<Rightarrow> event list) \<times> ('s, 'g, event list, 'v, 'd) dispatcher"

inductive node_step :: "('s, 'g, event list, 'v, 'd) config \<Rightarrow> (nat \<Rightarrow> 's \<times> 'g list) \<Rightarrow>
    ('s, 'g, 'v, 'd) traced \<Rightarrow> ('s, 'g, 'v, 'd) traced \<Rightarrow> bool" for cfg sg0 where
  work: "t < length (worker_thread_scheduler_map (d_es nd)) \<Longrightarrow>
    getEvent multiset_ops t (d_es nd) = Inr (Some e, es) \<Longrightarrow> event_ready cfg sg0 U H nd e \<Longrightarrow>
    process_iteration cfg now t nd = Inr nd' \<Longrightarrow> i = lp_id_of (receiverName e) nd \<Longrightarrow>
    node_step cfg sg0 (U, H, nd)
      (U(i := spent_after (c_lp cfg) i e nd (U i)), H(i := after_event e (H i)), nd')"
| idle: "t < length (worker_thread_scheduler_map (d_es nd)) \<Longrightarrow>
    getEvent multiset_ops t (d_es nd) = Inr (None, es) \<Longrightarrow>
    process_iteration cfg now t nd = Inr nd' \<Longrightarrow> node_step cfg sg0 (U, H, nd) (U, H, nd')"
| receive: "arrival_ok cfg nd (em_event msg) \<Longrightarrow> receiveEventMessage cfg t msg nd = Inr nd' \<Longrightarrow>
    node_step cfg sg0 (U, H, nd) (U, H, nd')"
| master: "master_iteration cfg now m secs sz nd = Inr (nd', fl) \<Longrightarrow>
    \<forall>e\<in>#inputs nd. node_gvt cfg nd' \<le> timestamp e \<Longrightarrow> node_step cfg sg0 (U, H, nd) (U, H, nd')"
| elsewhere: "node_same nd nd' \<Longrightarrow> d_es nd' = d_es nd \<Longrightarrow> d_gvt nd' = d_gvt nd \<Longrightarrow>
    node_step cfg sg0 (U, H, nd) (U, H, nd')"

section \<open>Nothing is too early\<close>

lemma not_before_later: "not_before cfg nd e \<Longrightarrow> timestamp e \<le> timestamp x \<Longrightarrow> not_before cfg nd x"
  unfolding not_before_def by (meson order_trans)

lemma not_before_step:
  assumes "not_before cfg nd e" and "fossils_to (node_gvt cfg nd) nd nd'"
    and "node_gvt cfg nd' = node_gvt cfg nd" "n_lps nd' = n_lps nd"
  shows "not_before cfg nd' e"
proof -
  have "last_fossil_collect_gvt (d_lps nd' ! j) \<le> timestamp e" if j: "j < n_lps nd" for j
    using assms(1,2) j order_trans [of _ "node_gvt cfg nd" "timestamp e"]
    by (auto simp: not_before_def fossils_to_def)
  then show ?thesis using assms by (simp add: not_before_def)
qed

lemma timely_flow:
  assumes time: "timely cfg H nd" and flow: "flows nd i f add del nd'"
    and add: "\<And>x. x \<in># add \<Longrightarrow> not_before cfg nd x \<and> proper x"
    and out: "\<And>x. x \<in> set (f (out_queue i nd)) \<Longrightarrow>
      timestamp (input_event x) \<le> timestamp (output_event x) \<and> proper (output_event x)"
    and H': "\<And>j x. j < n_lps nd \<Longrightarrow> x \<in> set (H' j) \<Longrightarrow> proper x"
    and gvt: "node_gvt cfg nd' = node_gvt cfg nd" "fossils_to (node_gvt cfg nd) nd nd'"
  shows "timely cfg H' nd'"
proof -
  have f: "node_frame nd nd'" "inputs nd' + del = inputs nd + add"
    "record_ok ((\<lambda>j. out_queue j nd)(i := f (out_queue i nd))) nd'"
    using flow by (auto simp: flows_def record_ok_def)
  then have n: "n_lps nd' = n_lps nd" by (simp add: node_frame_def)
  have "not_before cfg nd' x \<and> proper x" if "x \<in># inputs nd'" for x
  proof -
    have "x \<in># inputs nd + add" using that by (simp flip: f(2))
    then have "not_before cfg nd x \<and> proper x" using time add by (auto simp: timely_def)
    with not_before_step [OF _ gvt(2,1) n] show ?thesis by blast
  qed
  moreover have "timestamp (input_event x) \<le> timestamp (output_event x) \<and> proper (output_event x)"
    if j: "j < n_lps nd" and x: "x \<in> set (out_queue j nd')" for j x
  proof -
    obtain p where "((\<lambda>j. out_queue j nd)(i := f (out_queue i nd))) j = p @ out_queue j nd'"
      using f(3) j n unfolding record_ok_def by metis
    then have "x \<in> set (((\<lambda>j. out_queue j nd)(i := f (out_queue i nd))) j)" using x by simp
    then show ?thesis using out time j by (auto simp: timely_def split: if_splits)
  qed
  moreover have "name (d_lps nd' ! j) \<noteq> ''''" if "j < n_lps nd" for j
    using time f(1) that by (simp add: timely_def node_frame_def)
  ultimately show ?thesis using H' unfolding timely_def n by blast
qed

lemma taken_input:
  assumes ok: "node_ok cfg sg0 U H A P nd" and t: "t < length (worker_thread_scheduler_map (d_es nd))"
    and get: "getEvent multiset_ops t (d_es nd) = Inr (Some e, es)"
  shows "e \<in># inputs nd"
proof -
  obtain j where j: "j < n_lps nd" "e \<in> set (input_queue es ! j)"
    using getEvent_node(2) [OF ok t get HOL.refl] by blast
  moreover have "input_queue es = input_queue (d_es nd)" using get by (auto simp: getEvent_def Let_def)
  moreover have "length (input_queue (d_es nd)) = n_lps nd"
    using node_okD(1) [OF ok] by (simp add: es_inv_def es_shape_def)
  ultimately have "input_queue (d_es nd) ! j \<in> set (input_queue (d_es nd))" "e \<in> set (input_queue (d_es nd) ! j)" by simp_all
  then show ?thesis by auto
qed

lemma timely_work:
  fixes nd :: "('s, 'g, event list, 'v, 'd) dispatcher"
  assumes time: "timely cfg H nd" and e: "e \<in># inputs nd" and ready: "event_ready cfg sg0 U H nd e"
    and i: "i = lp_id_of (receiverName e) nd" "i < n_lps nd" and flow: "iteration_flow cfg sg0 H i e nd nd'"
    and ok: "node_ok cfg sg0 U H UNIV P nd"
    and gvt: "node_gvt cfg nd' = node_gvt cfg nd" "fossils_to (node_gvt cfg nd) nd nd'"
  shows "timely cfg (H(i := after_event e (H i))) nd'"
proof -
  have late: "not_before cfg nd e" "proper e" using time e unfolding timely_def by blast+
  define out where "out = snd (receiveEvent (c_lp cfg) e (exec (c_lp cfg) (sg0 i) (filter (\<lambda>x. ev_less x e) (H i))))"
  obtain S del p where S: "taken nd i e out S del" and fl: "flows nd i (\<lambda>g. filter (\<lambda>x. ev_less (input_event x) e) g @ outputs_of e S)
      (mset (back_to_input i e nd) + mset (filter (is_local nd) (negatives (max_sim_time nd) p (to_cancel i e nd))) +
       mset (filter (is_local nd) S)) del nd'"
    using flow unfolding iteration_flow_def Let_def out_def by blast
  have sent: "timestamp e \<le> timestamp x \<and> proper x" if x: "x \<in> set S" for x
  proof (cases "event_type e")
    case POSITIVE
    then obtain q and lp :: "('s, 'g) lp" where lp: "name lp = name (d_lps nd ! i)" "S = stamped (max_sim_time nd) q e lp out"
      using S by (auto simp: taken_def sent_as_def)
    have "in_future e out" using ready POSITIVE by (simp add: event_ready_def Let_def out_def i(1))
    moreover have "name (d_lps nd ! i) \<noteq> ''''" using time i(2) by (simp add: timely_def)
    ultimately show ?thesis
      using stamped_source [OF x [unfolded lp(2)]] lp(1) by (auto simp: in_future_def intro!: proper_named)
  qed (use S x in \<open>simp add: taken_def\<close>)
  have again: "timestamp e \<le> timestamp x \<and> proper x" if x: "x \<in> set (back_to_input i e nd)" for x
  proof -
    have "x \<in> set (H i)" using x history_positive_processed(1) [OF ok i(2) UNIV_I] by (auto simp: back_to_input_def)
    then show ?thesis using x time i(2) ev_key_timestamp_le by (auto simp: timely_def back_to_input_def ev_ge_key)
  qed
  have cancel: "timestamp e \<le> timestamp x \<and> proper x"
    if x: "x \<in> set (negatives (max_sim_time nd) p (to_cancel i e nd))" for x
  proof -
    obtain y q where y: "y \<in> set (out_queue i nd)" "ev_ge (input_event y) e" "x = NegativeEvent q (output_event y)"
      using negatives_mem [OF x] by (auto simp: to_cancel_def)
    then have "timestamp e \<le> timestamp (input_event y)" using ev_key_timestamp_le by (simp add: ev_ge_key)
    with y time i(2) show ?thesis by (fastforce simp: timely_def proper_def ev_less_key)
  qed
  show ?thesis
  proof (rule timely_flow [OF time fl _ _ _ gvt])
    fix x assume "x \<in># mset (back_to_input i e nd) + mset (filter (is_local nd) (negatives (max_sim_time nd) p (to_cancel i e nd))) +
       mset (filter (is_local nd) S)"
    then show "not_before cfg nd x \<and> proper x"
      using sent again cancel not_before_later [OF late(1)] by auto
  next
    fix x assume "x \<in> set (filter (\<lambda>x. ev_less (input_event x) e) (out_queue i nd) @ outputs_of e S)"
    then show "timestamp (input_event x) \<le> timestamp (output_event x) \<and> proper (output_event x)"
      using sent time i(2) by (auto simp: timely_def outputs_of_def)
  next
    fix j x assume "j < n_lps nd" "x \<in> set ((H(i := after_event e (H i))) j)"
    then show "proper x" using time late(2) by (auto simp: timely_def after_event_def split: if_splits)
  qed
qed

section \<open>What a step keeps\<close>

text \<open>\<open>keeps_below g\<close>: what LP \<open>i\<close> has processed before \<open>g\<close> stays processed, if it is not collected.\<close>

definition keeps_below :: "u32 \<Rightarrow> nat \<Rightarrow> ('s, 'g, 'v, 'd) traced \<Rightarrow> ('s, 'g, 'v, 'd) traced \<Rightarrow> bool" where
  "keeps_below g i c c' \<longleftrightarrow> (case (c, c') of ((U, H, nd), (U', H', nd')) \<Rightarrow>
     n_lps nd' = n_lps nd \<and>
     last_fossil_collect_gvt (d_lps nd ! i) \<le> last_fossil_collect_gvt (d_lps nd' ! i) \<and>
     filter (\<lambda>x. timestamp x < g) (H' i) = filter (\<lambda>x. timestamp x < g) (H i) \<and>
     {x \<in> set (processed_queue (d_es nd') ! i). timestamp x < g} \<subseteq> set (processed_queue (d_es nd) ! i))"

definition traced_ok :: "('s, 'g, event list, 'v, 'd) config \<Rightarrow> (nat \<Rightarrow> 's \<times> 'g list) \<Rightarrow> nat set \<Rightarrow>
    ('s, 'g, 'v, 'd) traced \<Rightarrow> bool" where
  "traced_ok cfg sg0 P c \<longleftrightarrow> (case c of (U, H, nd) \<Rightarrow> node_ok cfg sg0 U H UNIV P nd \<and> timely cfg H nd)"

lemma filter_before_gvt:
  assumes "gvt \<le> timestamp e"
  shows "filter (\<lambda>x. timestamp x < gvt) (after_event e h) = filter (\<lambda>x. timestamp x < gvt) h"
proof -
  have "ev_less x e" if "timestamp x < gvt" for x
    using that assms timestamp_less_ev_key [of x e] by (simp add: ev_less_key)
  then have "filter (\<lambda>x. ev_less x e \<and> timestamp x < gvt) h = filter (\<lambda>x. timestamp x < gvt) h"
    by (auto intro: filter_cong)
  then show ?thesis using assms by (simp add: after_event_def conj_commute not_less)
qed

lemma fossils_to_mono:
  "fossils_to g nd nd' \<Longrightarrow> j < n_lps nd \<Longrightarrow> last_fossil_collect_gvt (d_lps nd ! j) \<le> last_fossil_collect_gvt (d_lps nd' ! j)"
  unfolding fossils_to_def by (metis order_less_imp_le order_refl)

lemma timely_same:
  assumes "timely cfg H nd" and "node_same nd nd'" and "\<forall>e\<in>#inputs nd. node_gvt cfg nd' \<le> timestamp e"
  shows "timely cfg H nd'"
  using assms by (simp add: timely_def not_before_def node_same_def)

lemma iteration_processed:
  assumes "iteration_flow cfg sg0 H i e nd nd'" and "j < n_lps nd" and "x \<in> set (processed_queue (d_es nd') ! j)"
  shows "x \<in> set (processed_queue (d_es nd) ! j) \<or> timestamp x = timestamp e"
proof -
  obtain S del f a out where "flows nd i f a del nd'" and del: "taken nd i e out S del"
    using assms(1) unfolding iteration_flow_def Let_def by blast
  then have "x \<in> set (processed_queue (d_es nd) ! j) \<or> x \<in># del" using assms(2,3) by (auto simp: flows_def)
  moreover have "timestamp y = timestamp e" if "y \<in># del" for y
    using del that by (auto simp: taken_def ev_key_def split: EventType.splits)
  ultimately show ?thesis by blast
qed

lemma work_keeps:
  assumes cfg: "sound_config cfg" and ok: "traced_ok cfg sg0 P (U, H, nd)"
    and t: "t < length (worker_thread_scheduler_map (d_es nd))"
    and get: "getEvent multiset_ops t (d_es nd) = Inr (Some e, es)" and ready: "event_ready cfg sg0 U H nd e"
  defines "i \<equiv> lp_id_of (receiverName e) nd"
  defines "U' \<equiv> U(i := spent_after (c_lp cfg) i e nd (U i))" and "H' \<equiv> H(i := after_event e (H i))"
  shows "\<exists>nd'. process_iteration cfg now t nd = Inr nd' \<and> traced_ok cfg sg0 P (U', H', nd') \<and> i < n_lps nd' \<and>
    (\<forall>j<n_lps nd. \<forall>g\<le>last_fossil_collect_gvt (d_lps nd ! j). keeps_below g j (U, H, nd) (U', H', nd'))"
proof -
  have ok1: "node_ok cfg sg0 U H UNIV P nd" and time: "timely cfg H nd" using ok by (simp_all add: traced_ok_def)
  note e = taken_input [OF ok1 t get]
  have late: "not_before cfg nd e" "proper e" using time e unfolding timely_def by blast+
  obtain nd' where nd': "process_iteration cfg now t nd = Inr nd'" "node_ok cfg sg0 U' H' UNIV P nd'"
    "node_gvt cfg nd' = node_gvt cfg nd" "i < n_lps nd'" "iteration_flow cfg sg0 H i e nd nd'"
    "fossils_to (node_gvt cfg nd) nd nd'"
    using worker_iteration [OF cfg ok1 t get UNIV_I ready late] unfolding i_def U'_def H'_def by blast
  have fr: "node_frame nd nd'" using nd'(5) by (auto simp: iteration_flow_def flows_def Let_def)
  have n: "n_lps nd' = n_lps nd" using fr by (simp add: node_frame_def)
  have "keeps_below g j (U, H, nd) (U', H', nd')"
    if j: "j < n_lps nd" and g: "g \<le> last_fossil_collect_gvt (d_lps nd ! j)" for j g
  proof -
    have ge: "g \<le> timestamp e" using g late(1) j by (auto simp: not_before_def intro: order_trans)
    then have "filter (\<lambda>x. timestamp x < g) (H' j) = filter (\<lambda>x. timestamp x < g) (H j)"
      by (simp add: H'_def filter_before_gvt)
    moreover have "{x \<in> set (processed_queue (d_es nd') ! j). timestamp x < g} \<subseteq> set (processed_queue (d_es nd) ! j)"
    proof
      fix x assume "x \<in> {x \<in> set (processed_queue (d_es nd') ! j). timestamp x < g}"
      with iteration_processed [OF nd'(5) j, of x] ge show "x \<in> set (processed_queue (d_es nd) ! j)" by force
    qed
    ultimately show ?thesis using fossils_to_mono [OF nd'(6) j] n by (simp add: keeps_below_def)
  qed
  moreover have "timely cfg H' nd'"
    using timely_work [OF time e ready _ _ nd'(5) ok1 nd'(3,6)] nd'(4) n unfolding H'_def i_def by simp
  ultimately show ?thesis using nd'(1,2,4) by (auto simp: traced_ok_def)
qed

lemma node_step_keeps:
  assumes "node_step cfg sg0 c c'" and cfg: "sound_config cfg" and ok: "traced_ok cfg sg0 P c"
  shows "traced_ok cfg sg0 P c' \<and>
    (\<forall>j<n_lps (snd (snd c)). \<forall>g\<le>last_fossil_collect_gvt (d_lps (snd (snd c)) ! j). keeps_below g j c c')"
  using assms(1,3)
proof (cases rule: node_step.cases)
  case (work t nd e es U H now nd' i)
  from work_keeps [OF cfg _ work(3-5), of P now] ok work show ?thesis by auto
next
  case (idle t nd es now nd' U H)
  have ok1: "node_ok cfg sg0 U H UNIV P nd" and time: "timely cfg H nd" using ok idle(1) by (simp_all add: traced_ok_def)
  have "node_ok cfg sg0 U H UNIV P nd'" "node_gvt cfg nd' = node_gvt cfg nd" and same: "node_same nd nd'"
    using idle_iteration [OF cfg ok1 idle(3,4), of now] idle(5) by auto
  moreover have "timely cfg H nd'"
    by (rule timely_same [OF time same]) (use time \<open>node_gvt cfg nd' = node_gvt cfg nd\<close> in \<open>simp add: timely_def not_before_def\<close>)
  ultimately show ?thesis using idle(1,2) by (auto simp: traced_ok_def keeps_below_def node_same_def)
next
  case (receive nd msg t nd' U H)
  have ok1: "node_ok cfg sg0 U H UNIV P nd" and time: "timely cfg H nd" using ok receive(1) by (simp_all add: traced_ok_def)
  have rec: "node_ok cfg sg0 U H UNIV P nd'" "node_gvt cfg nd' = node_gvt cfg nd" "d_lps nd' = d_lps nd"
    and flow: "flows nd 0 id {#em_event msg#} {#} nd'"
    using receive_node [OF cfg ok1 receive(3), of t] receive(4) by auto
  have "timely cfg H nd'"
  proof (rule timely_flow [OF time flow])
    show "not_before cfg nd x \<and> proper x" if "x \<in># {#em_event msg#}" for x
      using that receive(3) by (simp add: arrival_ok_def)
    show "timestamp (input_event x) \<le> timestamp (output_event x) \<and> proper (output_event x)"
      if "x \<in> set (id (out_queue 0 nd))" for x
      using that time receive(3) node_okD(2) [OF ok1] by (force simp: timely_def arrival_ok_def is_local_def names_ok_def)
    show "fossils_to (node_gvt cfg nd) nd nd'" by (rule fossils_to_same) (rule rec(3))
  qed (use time rec(2) in \<open>simp_all add: timely_def\<close>)
  then show ?thesis using rec flow receive(1,2) by (auto simp: traced_ok_def keeps_below_def flows_def node_frame_def)
next
  case (master now m secs sz nd nd' fl U H)
  have ok1: "node_ok cfg sg0 U H UNIV P nd" and time: "timely cfg H nd" using ok master(1) by (simp_all add: traced_ok_def)
  note same = master_same [OF master(3)]
  have "node_ok cfg sg0 U H UNIV P nd'"
    by (rule node_ok_same [OF ok1 conjunct1 [OF same]]) (use same node_okD(1) [OF ok1] in simp)
  moreover have "timely cfg H nd'" by (rule timely_same [OF time conjunct1 [OF same] master(4)])
  ultimately show ?thesis using same master(1,2) by (auto simp: traced_ok_def keeps_below_def node_same_def)
next
  case (elsewhere nd nd' U H)
  have ok1: "node_ok cfg sg0 U H UNIV P nd" and time: "timely cfg H nd" using ok elsewhere(1) by (simp_all add: traced_ok_def)
  have "node_ok cfg sg0 U H UNIV P nd'"
    by (rule node_ok_same [OF ok1 elsewhere(3)]) (use elsewhere(4) node_okD(1) [OF ok1] in simp)
  moreover have "timely cfg H nd'"
    by (rule timely_same [OF time elsewhere(3)]) (use time elsewhere(5) in \<open>simp add: timely_def not_before_def\<close>)
  ultimately show ?thesis using elsewhere by (auto simp: traced_ok_def keeps_below_def node_same_def)
qed

lemma keeps_below_trans: "keeps_below g i a b \<Longrightarrow> keeps_below g i b c \<Longrightarrow> keeps_below g i a c"
  by (auto simp: keeps_below_def split: prod.splits)

lemma node_reach_keeps:
  assumes "(node_step cfg sg0)\<^sup>*\<^sup>* c c'" and "sound_config cfg" and "traced_ok cfg sg0 P c"
  shows "traced_ok cfg sg0 P c' \<and>
    (\<forall>j<n_lps (snd (snd c)). \<forall>g\<le>last_fossil_collect_gvt (d_lps (snd (snd c)) ! j). keeps_below g j c c')"
  using assms(1,3)
proof (induction rule: rtranclp_induct)
  case base
  then show ?case by (auto simp: keeps_below_def split: prod.splits)
next
  case (step c' c'')
  then have IH: "traced_ok cfg sg0 P c'"
    "\<And>j g. j < n_lps (snd (snd c)) \<Longrightarrow> g \<le> last_fossil_collect_gvt (d_lps (snd (snd c)) ! j) \<Longrightarrow> keeps_below g j c c'"
    by blast+
  note then_ok = node_step_keeps [OF step.hyps(2) assms(2) IH(1)]
  have "keeps_below g j c c''"
    if "j < n_lps (snd (snd c))" "g \<le> last_fossil_collect_gvt (d_lps (snd (snd c)) ! j)" for j g
  proof (rule keeps_below_trans [OF IH(2) [OF that]])
    have "n_lps (snd (snd c')) = n_lps (snd (snd c))"
      "last_fossil_collect_gvt (d_lps (snd (snd c)) ! j) \<le> last_fossil_collect_gvt (d_lps (snd (snd c')) ! j)"
      using IH(2) [OF that] by (auto simp: keeps_below_def split: prod.splits)
    then show "keeps_below g j c' c''" using then_ok that by (auto intro: order_trans)
  qed
  with then_ok show ?case by blast
qed

end
