(* ===== verification/TW_Node_Init.thy ===== *)
theory TW_Node_Init
  imports TW_Node_Ops
begin

text \<open>
  Initialization of a node (\<open>d_initialize\<close>): each LP sends its initial events and its state is saved
  with the initial event, and \<open>node_ok\<close> holds at the end, with empty histories.
\<close>

section \<open>Initialization\<close>

lemma run_ok_initial:
  assumes "run_saved i c = [\<lparr>state_event = InitialEvent p, saved_lp_state = lp_state (run_lp c),
      rng_state = map (rng_getState ops) (rng_list (run_lp c))\<rparr>]"
    and "history c = []" "spent c = {}" "run_pq i c = []" "i < length (state_queue (run_sm c))"
    and "i < length (processed_queue (run_es c))" "i < length (input_queue (run_es c))"
  shows "run_ok ops i (run_sg c) c"
proof -
  have "ev_key (InitialEvent p) = ev_key (InitialEvent 0)" by (simp add: ev_key_def InitialEvent_def)
  then show ?thesis
    using assms by (simp add: run_ok_def Let_def lp_consistent_def saved_sorted_def
        saved_as_def exec_def between_def after_def past_gvt_def ev_less_key)
qed

lemma set_state_node:
  fixes nd :: "('s, 'g, event list, 'v, 'd) dispatcher"
  assumes ok: "node_ok cfg sg0 U H A P nd" and i: "i < n_lps nd" "i \<notin> A"
  shows "node_ok cfg sg0 U H A P (nd\<lparr>d_lps := (d_lps nd)[i := (d_lps nd ! i)\<lparr>lp_state := s, rng_list := g\<rparr>]\<rparr>)"
    (is "node_ok _ _ _ _ _ _ ?nd")
proof -
  note D = node_okD [OF ok]
  have lps: "name (d_lps ?nd ! j) = name (d_lps nd ! j)" "lp_generation (d_lps ?nd ! j) = lp_generation (d_lps nd ! j)"
    "last_fossil_collect_gvt (d_lps ?nd ! j) = last_fossil_collect_gvt (d_lps nd ! j)"
    "j \<noteq> i \<Longrightarrow> d_lps ?nd ! j = d_lps nd ! j" for j
    using i D(6) by (simp_all add: nth_list_update_if)
  have names: "names_ok ?nd" using D(2) unfolding names_ok_def lps by (simp add: my_id_def lp_id_of_def)
  have queues: "queues_ok ?nd" using D(3) by (simp add: queues_ok_def is_local_def my_id_def lp_id_of_def)
  have fresh: "fresh_ok ?nd" using D(4) unfolding fresh_ok_def lps by simp
  have sent: "sent_ok H ?nd" using D(5) unfolding sent_ok_def out_ok_def lps by simp
  have run: "run_ok (c_lp cfg) j (sg0 j) (lp_view U H j ?nd)" if j: "j < n_lps nd" "j \<in> A" for j
  proof -
    have "j \<noteq> i" using i(2) j(2) by auto
    then show ?thesis
      by (intro run_ok_cong [OF D(11) [OF j]])
        (use run_okD(1-3) [OF D(11) [OF j]] in \<open>simp_all add: lp_view_def\<close>)
  qed
  show ?thesis unfolding node_ok_def lps using D(1,8,9) names queues fresh sent run by simp
qed

lemma save_initial_node:
  fixes nd :: "('s, 'g, event list, 'v, 'd) dispatcher"
  assumes ok: "node_ok cfg sg0 U H A P nd" and i: "i < n_lps nd" "i \<notin> A" "H i = []" "U i = {}"
    and sm: "i < length (state_queue (d_sm nd))" "state_queue (d_sm nd) ! i = []" "count (d_sm nd) ! i = 0"
    and pq: "processed_queue (d_es nd) ! i = []"
    and sg0: "sg0 i = (lp_state (d_lps nd ! i), rng_list (d_lps nd ! i))"
  shows "node_ok cfg sg0 U H (insert i A) P (nd\<lparr>d_sm := saveState (c_lp cfg) (InitialEvent p) i (d_lps nd ! i) (d_sm nd)\<rparr>)"
    (is "node_ok _ _ _ _ _ _ ?nd")
proof -
  note D = node_okD [OF ok]
  note shape = es_inv_shapeD [OF D(1) i(1)]
  have names: "names_ok ?nd" using D(2) by (simp add: names_ok_def my_id_def lp_id_of_def)
  have queues: "queues_ok ?nd" using D(3) by (simp add: queues_ok_def is_local_def my_id_def lp_id_of_def)
  have fresh: "fresh_ok ?nd" using D(4) by (simp add: fresh_ok_def)
  have sent: "sent_ok H ?nd" using D(5) by (simp add: sent_ok_def out_ok_def)
  have run: "run_ok (c_lp cfg) j (sg0 j) (lp_view U H j ?nd)" if j: "j < n_lps nd" "j \<in> insert i A" for j
  proof (cases "j = i")
    case True
    have "run_ok (c_lp cfg) i (run_sg (lp_view U H i ?nd)) (lp_view U H i ?nd)"
      by (rule run_ok_initial [where p = p])
        (use sm shape i(3,4) pq saveState_queue [OF sm(1)] in \<open>simp_all add: lp_view_def saveState_other\<close>)
    then show ?thesis using sg0 True by (simp add: lp_view_def)
  next
    case False
    then have j': "j \<in> A" using j(2) by simp
    show ?thesis
      by (rule run_ok_cong [OF D(11) [OF j(1) j']])
        (use False run_okD(1-3) [OF D(11) [OF j(1) j']] in \<open>simp_all add: lp_view_def saveState_other\<close>)
  qed
  show ?thesis unfolding node_ok_def using D(1,8,9) names queues fresh sent run by simp
qed

abbreviation init_state :: "('s, 'g, 'q, 'v, 'd) config \<Rightarrow> ('s, 'g) lp \<Rightarrow> 's \<times> 'g list" where
  "init_state cfg lp \<equiv> fst (initializeLP (c_lp cfg) (lp_state lp, rng_list lp))"

abbreviation init_events :: "('s, 'g, 'q, 'v, 'd) config \<Rightarrow> ('s, 'g) lp \<Rightarrow> event list" where
  "init_events cfg lp \<equiv> snd (initializeLP (c_lp cfg) (lp_state lp, rng_list lp))"

text \<open>What the initial events of the LPs have to be: positive, for known receivers, and not before GVT.\<close>

definition init_events_ok :: "('s, 'g, 'q, 'v, 'd) config \<Rightarrow> u32 \<Rightarrow> ('s, 'g) lp list \<Rightarrow> (string \<rightharpoonup> u32) \<Rightarrow> bool" where
  "init_events_ok cfg g lps nodes \<longleftrightarrow> (\<forall>i<length lps.
     unat (lp_generation (lps ! i)) + length (init_events cfg (lps ! i)) < 2 ^ 64 \<and>
     (\<forall>e\<in>set (init_events cfg (lps ! i)). event_type e = POSITIVE \<and> nodes (receiverName e) \<noteq> None \<and>
        g \<le> timestamp e \<and> timestamp e \<noteq> uint_max))"

text \<open>The events that an LP has sent initially, and that all of them that are for this node are in the input queues.\<close>

definition init_sent :: "('s, 'g, 'q, 'v, 'd) config \<Rightarrow> u32 \<Rightarrow> nat \<Rightarrow> ('s, 'g) lp \<Rightarrow> event list \<Rightarrow> bool" where
  "init_sent cfg mx q lp S \<longleftrightarrow>
     (\<exists>p (lp' :: ('s, 'g) lp). name lp' = name lp \<and> S = stamped mx p (InitialEvent q) lp' (init_events cfg lp))"

definition init_flow :: "('s, 'g, event list, 'v, 'd) config \<Rightarrow> ('s, 'g) lp list \<Rightarrow> nat \<Rightarrow> nat \<Rightarrow>
    ('s, 'g, event list, 'v, 'd) dispatcher \<Rightarrow> bool" where
  "init_flow cfg lps q k nd \<longleftrightarrow> inputs nd = local_sent (\<lambda>j. out_queue j nd) nd \<and>
     (\<forall>j<length lps. if j < k then \<exists>S. init_sent cfg (max_sim_time nd) q (lps ! j) S \<and> out_queue j nd = outputs_of (InitialEvent q) S
        else out_queue j nd = [])"

definition init_inv :: "('s, 'g, event list, 'v, 'd) config \<Rightarrow> u32 \<Rightarrow> ('s, 'g) lp list \<Rightarrow> (string \<rightharpoonup> u32) \<Rightarrow> nat \<Rightarrow> nat \<Rightarrow>
    ('s, 'g, event list, 'v, 'd) dispatcher \<Rightarrow> bool" where
  "init_inv cfg g lps nodes q k nd \<longleftrightarrow>
     node_ok cfg (\<lambda>i. init_state cfg (lps ! i)) (\<lambda>_. {}) (\<lambda>_. []) {..<k} {} nd \<and> n_lps nd = length lps \<and>
     length (state_queue (d_sm nd)) = length lps \<and> length (count (d_sm nd)) = length lps \<and>
     (\<forall>j<length lps. processed_queue (d_es nd) ! j = [] \<and>
        node_id_by_lp_name (d_comm nd) (name (d_lps nd ! j)) = Some (my_id nd) \<and>
        (k \<le> j \<longrightarrow> d_lps nd ! j = lps ! j \<and> state_queue (d_sm nd) ! j = [] \<and> count (d_sm nd) ! j = 0)) \<and>
     node_id_by_lp_name (d_comm nd) = nodes \<and> (\<forall>j<length lps. name (d_lps nd ! j) = name (lps ! j)) \<and>
     node_gvt cfg nd = g \<and>
     (\<forall>j<length lps. last_fossil_collect_gvt (d_lps nd ! j) = last_fossil_collect_gvt (lps ! j)) \<and>
     init_flow cfg lps q k nd"

lemma initialize_step:
  fixes nd :: "('s, 'g, event list, 'v, 'd) dispatcher"
  assumes cfg: "sound_config cfg" and evs: "init_events_ok cfg g lps nodes"
    and inv: "init_inv cfg g lps nodes q k nd" and k: "k < length lps"
  shows "\<exists>nd'. initialize_lps cfg t (InitialEvent q) (k # ks) nd = initialize_lps cfg t (InitialEvent q) ks nd' \<and>
    init_inv cfg g lps nodes q (Suc k) nd' \<and> max_sim_time nd' = max_sim_time nd"
proof -
  let ?sg0 = "\<lambda>i. init_state cfg (lps ! i)" and ?H = "\<lambda>_::nat. []::event list" and ?U = "\<lambda>_::nat. {}::event set"
  let ?out = "init_events cfg (lps ! k)"
  have ok: "node_ok cfg ?sg0 ?U ?H {..<k} {} nd" and n: "n_lps nd = length lps"
    and sm: "length (state_queue (d_sm nd)) = length lps" "length (count (d_sm nd)) = length lps"
      "\<And>j. j < length lps \<Longrightarrow> k \<le> j \<Longrightarrow> state_queue (d_sm nd) ! j = [] \<and> count (d_sm nd) ! j = 0"
    and lp: "\<And>j. j < length lps \<Longrightarrow> k \<le> j \<Longrightarrow> d_lps nd ! j = lps ! j"
    and pq: "\<And>j. j < length lps \<Longrightarrow> processed_queue (d_es nd) ! j = []"
    and here: "\<And>j. j < length lps \<Longrightarrow> node_id_by_lp_name (d_comm nd) (name (d_lps nd ! j)) = Some (my_id nd)"
    and nm: "node_id_by_lp_name (d_comm nd) = nodes" and flow: "init_flow cfg lps q k nd"
    and lnames: "\<And>j. j < length lps \<Longrightarrow> name (d_lps nd ! j) = name (lps ! j)"
    and lgvt: "node_gvt cfg nd = g"
      "\<And>j. j < length lps \<Longrightarrow> last_fossil_collect_gvt (d_lps nd ! j) = last_fossil_collect_gvt (lps ! j)"
    using inv unfolding init_inv_def by blast+
  note D = node_okD [OF ok]
  have kn: "k < n_lps nd" "k < length (d_lps nd)" using k n D(6) by simp_all
  have id: "lp_id_of (name (d_lps nd ! k)) nd = k"
    using D(2) here [OF k] kn unfolding names_ok_def by (metis option.inject)
  obtain sk rs where sg: "init_state cfg (lps ! k) = (sk, rs)" by fastforce
  define nd1 where "nd1 = nd\<lparr>d_lps := (d_lps nd)[k := (d_lps nd ! k)\<lparr>lp_state := sk, rng_list := rs\<rparr>]\<rparr>"
  have ok1: "node_ok cfg ?sg0 ?U ?H {..<k} {} nd1"
    unfolding nd1_def by (rule set_state_node [OF ok kn(1)]) simp
  have sel1: "d_es nd1 = d_es nd" "d_sm nd1 = d_sm nd" "d_comm nd1 = d_comm nd" "next_ptr nd1 = next_ptr nd"
    "d_lps nd1 = (d_lps nd)[k := (d_lps nd ! k)\<lparr>lp_state := sk, rng_list := rs\<rparr>]" "d_om nd1 = d_om nd"
    "d_gvt nd1 = d_gvt nd"
    by (simp_all add: nd1_def)
  have ev: "unat (lp_generation (lps ! k)) + length ?out < 2 ^ 64"
    "\<forall>e\<in>set ?out. event_type e = POSITIVE \<and> nodes (receiverName e) \<noteq> None"
    using evs k unfolding init_events_ok_def by blast+
  have send: "may_send nd1 (d_lps nd1 ! k) ?out"
    using ev nm lp [OF k] kn by (simp add: may_send_def sel1)
  have late: "\<forall>x\<in>set (out_queue k nd1). ev_key (input_event x) \<le> ev_key (InitialEvent q)"
    using D(10) [OF kn(1)] by (auto simp: out_ok_def sel1 ev_key_def InitialEvent_def)
  have key: "ev_key (InitialEvent q) = ev_key (InitialEvent 0) \<or> InitialEvent q \<in> set (?H k)"
    by (simp add: ev_key_def InitialEvent_def)
  have c: "c_sched cfg = multiset_ops" "keeps_gvt (c_gvt cfg)" using cfg by (simp_all add: sound_config_def)
  have kn1: "k < n_lps nd1" using kn(1) by (simp add: sel1)
  obtain nd2 g2 where nd2: "sendEvents cfg t (InitialEvent q) ?out k k nd1 = Inr nd2"
    "node_ok cfg ?sg0 ?U ?H {..<k} {} nd2" "same_frame nd1 nd2"
    "d_lps nd2 = (d_lps nd1)[k := (d_lps nd1 ! k)\<lparr>lp_generation := g2\<rparr>]"
    "d_om nd2 = record_outputs (InitialEvent q) k
       (stamped (max_sim_time nd1) (next_ptr nd1) (InitialEvent q) (d_lps nd1 ! k) ?out) (d_om nd1)"
    "routed {} nd1 (stamped (max_sim_time nd1) (next_ptr nd1) (InitialEvent q) (d_lps nd1 ! k) ?out) nd2" "node_gvt cfg nd2 = node_gvt cfg nd1"
    using sendEvents_node [OF ok1 c kn1 send key late, of t] by blast
  note f = nd2(3) [unfolded same_frame_def]
  define nd3 where "nd3 = nd2\<lparr>d_sm := saveState (c_lp cfg) (InitialEvent q) k (d_lps nd2 ! k) (d_sm nd2)\<rparr>"
  have st: "lp_state (d_lps nd2 ! k) = sk" "rng_list (d_lps nd2 ! k) = rs"
    using kn by (simp_all add: nd2(4) sel1)
  have kn2: "k < n_lps nd2" using f kn1 by simp
  have "node_ok cfg ?sg0 ?U ?H (insert k {..<k}) {} nd3"
    unfolding nd3_def
    by (rule save_initial_node [OF nd2(2) kn2]) (use f sm k pq st sg in \<open>simp_all add: sel1\<close>)
  then have ok3: "node_ok cfg ?sg0 ?U ?H {..<Suc k} {} nd3" by (simp add: lessThan_Suc)
  have lps3: "d_lps nd3 ! j = d_lps nd ! j" if "j \<noteq> k" for j using that by (simp add: nd3_def nd2(4) sel1)
  have names3: "name (d_lps nd3 ! j) = name (d_lps nd ! j)" for j
    using kn by (cases "j = k") (simp_all add: nd3_def nd2(4) sel1)
  define S where "S = stamped (max_sim_time nd1) (next_ptr nd1) (InitialEvent q) (d_lps nd1 ! k) ?out"
  have mx: "max_sim_time nd3 = max_sim_time nd" "is_local nd3 = is_local nd" "is_local nd1 = is_local nd" "n_lps nd3 = n_lps nd"
    using f by (simp_all add: nd3_def nd1_def is_local_def [abs_def] my_id_def)
  have out3: "output_queue (d_om nd3) = (output_queue (d_om nd))[k := out_queue k nd @ outputs_of (InitialEvent q) S]"
    using kn D(7) by (simp add: nd3_def nd2(5) record_outputs_queue outputs_of_def sel1 S_def)
  have empty: "out_queue k nd = []" using flow k by (simp add: init_flow_def)
  have flow3: "init_flow cfg lps q (Suc k) nd3"
    unfolding init_flow_def mx
  proof (intro conjI allI impI)
    have "inputs nd3 = inputs nd + mset (filter (is_local nd) S)"
      using routed_inputs [OF nd2(6)] by (simp add: nd3_def sel1 S_def mx(3))
    also have "\<dots> = local_sent (\<lambda>j. out_queue j nd) nd + mset (filter (is_local nd) S)"
      using flow by (simp add: init_flow_def)
    also have "\<dots> = local_sent (\<lambda>j. out_queue j nd3) nd"
    proof -
      have eq: "(\<lambda>j. out_queue j nd3) = (\<lambda>j. out_queue j nd)(k := outputs_of (InitialEvent q) S)"
        using kn D(7) by (simp add: out3 empty fun_eq_iff)
      then show ?thesis
        using local_sent_update [OF kn(1), of "\<lambda>j. out_queue j nd" "outputs_of (InitialEvent q) S"]
        unfolding eq by (simp add: empty outputs_of_def comp_def del: fun_upd_apply)
    qed
    finally show "inputs nd3 = local_sent (\<lambda>j. out_queue j nd3) nd3"
      by (simp add: local_sent_def mx)
    fix j assume j: "j < length lps"
    have "init_sent cfg (max_sim_time nd) q (lps ! k) S"
      unfolding init_sent_def S_def using lp [OF k] kn
      by (intro exI [of _ "next_ptr nd1"] exI [of _ "d_lps nd1 ! k"]) (simp add: nd1_def)
    then show "if j < Suc k then \<exists>S. init_sent cfg (max_sim_time nd) q (lps ! j) S \<and>
          out_queue j nd3 = outputs_of (InitialEvent q) S else out_queue j nd3 = []"
      using flow j kn D(7) by (cases "j = k") (auto simp: init_flow_def out3 empty less_Suc_eq)
  qed
  have "init_inv cfg g lps nodes q (Suc k) nd3"
    unfolding init_inv_def
  proof (intro conjI allI impI ballI)
    show "node_ok cfg ?sg0 ?U ?H {..<Suc k} {} nd3" by (rule ok3)
    show "n_lps nd3 = length lps" "length (state_queue (d_sm nd3)) = length lps"
      "length (count (d_sm nd3)) = length lps" "node_id_by_lp_name (d_comm nd3) = nodes"
      using f n sm nm by (simp_all add: nd3_def sel1 saveState_other) (simp add: saveState_def)
    fix j assume j: "j < length lps"
    show "name (d_lps nd3 ! j) = name (lps ! j)" using names3 lnames [OF j] by simp
    show "last_fossil_collect_gvt (d_lps nd3 ! j) = last_fossil_collect_gvt (lps ! j)"
      using lgvt(2) [OF j] kn by (cases "j = k") (simp_all add: nd3_def nd2(4) sel1)
    show "processed_queue (d_es nd3) ! j = []" using f pq [OF j] by (simp add: nd3_def sel1)
    show "node_id_by_lp_name (d_comm nd3) (name (d_lps nd3 ! j)) = Some (my_id nd3)"
      using here [OF j] f names3 [of j] by (simp add: nd3_def sel1 my_id_def)
    assume "Suc k \<le> j"
    then have "j \<noteq> k" "k \<le> j" by simp_all
    then show "d_lps nd3 ! j = lps ! j" "state_queue (d_sm nd3) ! j = []" "count (d_sm nd3) ! j = 0"
      using lp [OF j] lps3 [of j] sm(3) [OF j] f by (simp_all add: nd3_def sel1 saveState_other) (simp add: saveState_def)
  next
    show "node_gvt cfg nd3 = g" using nd2(7) lgvt(1) by (simp add: nd3_def sel1)
  qed (rule flow3)
  moreover have "initialize_lps cfg t (InitialEvent q) (k # ks) nd = initialize_lps cfg t (InitialEvent q) ks nd3"
    using nd2(1) sg unfolding nd3_def nd1_def
    by (cases "initializeLP (c_lp cfg) (lp_state (lps ! k), rng_list (lps ! k))")
      (simp add: id [unfolded lp [OF k order_refl]] lp [OF k] Let_def)
  ultimately show ?thesis using mx(1) by blast
qed

lemma initialize_loop:
  fixes nd :: "('s, 'g, event list, 'v, 'd) dispatcher"
  assumes cfg: "sound_config cfg" and evs: "init_events_ok cfg g lps nodes"
  shows "init_inv cfg g lps nodes q k nd \<Longrightarrow> k + m = length lps \<Longrightarrow>
    \<exists>nd'. initialize_lps cfg t (InitialEvent q) [k..<length lps] nd = Inr nd' \<and>
      init_inv cfg g lps nodes q (length lps) nd' \<and> max_sim_time nd' = max_sim_time nd"
proof (induction m arbitrary: k nd)
  case (Suc m)
  then have k: "k < length lps" by simp
  obtain nd2 where "initialize_lps cfg t (InitialEvent q) (k # [Suc k..<length lps]) nd =
      initialize_lps cfg t (InitialEvent q) [Suc k..<length lps] nd2" "init_inv cfg g lps nodes q (Suc k) nd2" "max_sim_time nd2 = max_sim_time nd"
    using initialize_step [OF cfg evs Suc.prems(1) k] by blast
  with Suc.IH [of "Suc k" nd2] Suc.prems(2) show ?case by (simp add: upt_conv_Cons [OF k])
qed simp

lemma init_sent_mem:
  fixes cfg :: "('b, 'c, 'q, 'v, 'd) config"
  assumes "init_sent cfg mx q (lps ! j) S" and "x \<in> set S" and "j < length lps" and "init_events_ok cfg g lps nodes"
  shows "sender_name x = name (lps ! j)" "g \<le> timestamp x" "timestamp x \<noteq> uint_max"
proof -
  obtain p and lp' :: "('b, 'c) lp" where S: "name lp' = name (lps ! j)"
    "S = stamped mx p (InitialEvent q) lp' (init_events cfg (lps ! j))"
    using assms(1) by (auto simp: init_sent_def)
  obtain e where "e \<in> set (init_events cfg (lps ! j))" "timestamp x = timestamp e" "sender_name x = name lp'"
    using stamped_source [OF assms(2) [unfolded S(2)]] by blast
  with assms(3,4) S(1) show "sender_name x = name (lps ! j)" "g \<le> timestamp x" "timestamp x \<noteq> uint_max"
    by (auto simp: init_events_ok_def)
qed

lemma init_timely:
  assumes inv: "init_inv cfg g lps nodes q (length lps) nd" and evs: "init_events_ok cfg g lps nodes"
    and lps: "\<forall>lp\<in>set lps. name lp \<noteq> '''' \<and> last_fossil_collect_gvt lp \<le> g"
  shows "timely cfg (\<lambda>_. []) nd"
proof -
  have n: "n_lps nd = length lps" and flow: "inputs nd = local_sent (\<lambda>j. out_queue j nd) nd"
    and g: "node_gvt cfg nd = g" "\<And>j. j < length lps \<Longrightarrow> last_fossil_collect_gvt (d_lps nd ! j) \<le> g"
      "\<And>j. j < length lps \<Longrightarrow> name (d_lps nd ! j) \<noteq> ''''"
    using inv lps by (auto simp: init_inv_def init_flow_def)
  have out: "input_event x = InitialEvent q \<and> g \<le> timestamp (output_event x) \<and> proper (output_event x)"
    if j: "j < length lps" and x: "x \<in> set (out_queue j nd)" for j x
  proof -
    have "\<forall>j<length lps. \<exists>S. init_sent cfg (max_sim_time nd) q (lps ! j) S \<and> out_queue j nd = outputs_of (InitialEvent q) S"
      using inv by (simp add: init_inv_def init_flow_def)
    then obtain S where "init_sent cfg (max_sim_time nd) q (lps ! j) S" "out_queue j nd = outputs_of (InitialEvent q) S"
      using j by blast
    then show ?thesis
      using init_sent_mem [OF _ _ j evs] j x lps by (auto simp: outputs_of_def intro!: proper_named)
  qed
  have "g \<le> timestamp e \<and> proper e" if "e \<in># inputs nd" for e
    using that out unfolding flow local_sent_def n by (auto simp: set_mset_sum)
  moreover have "not_before cfg nd e" if "g \<le> timestamp e" for e
    unfolding not_before_def n g(1) using that order_trans [OF g(2) that] by blast
  ultimately show ?thesis
    using out g(3) unfolding timely_def n by (auto simp: InitialEvent_def)
qed

lemma zip_upt_Cons: "zip [a..<a + length (x # xs)] (x # xs) = (a, x) # zip [Suc a..<Suc a + length xs] xs"
  by (subst upt_conv_Cons) simp_all

lemma fold_names_other:
  "nm \<notin> name ` set lps \<Longrightarrow>
   fold (\<lambda>(k, lp) mp. mp(name lp \<mapsto> k)) (zip [a..<a + length lps] lps) m nm = m nm"
proof (induction lps arbitrary: a m)
  case (Cons lp lps)
  then show ?case using Cons.IH [of "Suc a" "m(name lp \<mapsto> a)"] unfolding zip_upt_Cons by auto
qed simp

lemma fold_names:
  assumes "distinct (map name lps)"
  shows "i < length lps \<Longrightarrow>
    fold (\<lambda>(k, lp) mp. mp(name lp \<mapsto> k)) (zip [a..<a + length lps] lps) m (name (lps ! i)) = Some (a + i)"
  using assms
proof (induction lps arbitrary: a m i)
  case (Cons lp lps)
  have "name lp \<notin> name ` set lps" using Cons.prems(2) by simp
  note other = fold_names_other [OF this, of "Suc a" "m(name lp \<mapsto> a)"]
  show ?case
  proof (cases i)
    case 0
    with other show ?thesis unfolding zip_upt_Cons by (simp del: upt_Suc fun_upd_apply) simp
  next
    case (Suc j)
    with Cons.IH [of j "Suc a" "m(name lp \<mapsto> a)"] Cons.prems show ?thesis
      unfolding zip_upt_Cons by (simp del: upt_Suc fun_upd_apply)
  qed
qed simp

text \<open>What the start of a node needs: LPs with different names that are not empty, the map of nodes that has just these names here,
  and initial events as above.\<close>

definition start_ok :: "('s, 'g, event list, 'v, 'd) config \<Rightarrow> ('s, 'g) lp list list \<Rightarrow> 'v \<Rightarrow>
    ('s, 'g, event list, 'v, 'd) dispatcher \<Rightarrow> bool" where
  "start_ok cfg parts v nd \<longleftrightarrow>
     parts \<noteq> [] \<and> d_es nd = event_set_new \<and> distinct (map name (concat parts)) \<and>
     (\<forall>lp\<in>set (concat parts). name lp \<noteq> '''' \<and> last_fossil_collect_gvt lp \<le> gvt_getGVT (c_gvt cfg) v) \<and>
     (\<forall>nm. node_id_by_lp_name (d_comm nd) nm = Some (my_id nd) \<longleftrightarrow> nm \<in> name ` set (concat parts)) \<and>
     init_events_ok cfg (gvt_getGVT (c_gvt cfg) v) (concat parts) (node_id_by_lp_name (d_comm nd))"

lemma initialize_new:
  assumes "parts \<noteq> []"
  shows "\<exists>es. initialize multiset_ops parts (length (concat parts)) mig th event_set_new = Inr es \<and> ms_inv {} es \<and>
    num_of_lps es = length (concat parts) \<and> all_events es = {#} \<and> (\<forall>j. input_queue es ! j = (map (\<lambda>_. []) (concat parts)) ! j) \<and>
    (\<forall>j. processed_queue es ! j = (map (\<lambda>_. []) (concat parts)) ! j)"
proof -
  obtain es where es: "initialize multiset_ops parts (length (concat parts)) mig th event_set_new = Inr es"
    using assms by (simp add: initialize_def Let_def del: length_concat)
  have "num_of_lps es = length (concat parts) \<and> all_events es = {#} \<and>
    (\<forall>j. input_queue es ! j = (map (\<lambda>_. []) (concat parts)) ! j) \<and>
    (\<forall>j. processed_queue es ! j = (map (\<lambda>_. []) (concat parts)) ! j)"
    using es by (auto simp: initialize_def event_set_new_def Let_def all_events_def simp del: length_concat
        split: if_splits)
  with es initialize_inv [OF es] show ?thesis by blast
qed

lemma d_initialize_ok:
  fixes nd :: "('s, 'g, event list, 'v, 'd) dispatcher"
  assumes cfg: "sound_config cfg" and start: "start_ok cfg parts v nd"
  defines "lps \<equiv> concat parts"
  shows "\<exists>nd'. d_initialize cfg parts v nd = Inr nd' \<and>
    node_ok cfg (\<lambda>i. init_state cfg (lps ! i)) (\<lambda>_. {}) (\<lambda>_. []) UNIV {} nd' \<and> n_lps nd' = length lps \<and>
    init_inv cfg (gvt_getGVT (c_gvt cfg) v) lps (node_id_by_lp_name (d_comm nd)) (next_ptr nd) (length lps) nd' \<and>
    timely cfg (\<lambda>_. []) nd' \<and> max_sim_time nd' = max_sim_time nd"
proof -
  let ?th = "unat (d_num_workers nd)" and ?n = "length lps"
  have st: "parts \<noteq> []" "d_es nd = event_set_new" "distinct (map name lps)"
    "\<forall>lp\<in>set lps. name lp \<noteq> '''' \<and> last_fossil_collect_gvt lp \<le> gvt_getGVT (c_gvt cfg) v"
    "\<And>nm. node_id_by_lp_name (d_comm nd) nm = Some (my_id nd) \<longleftrightarrow> nm \<in> name ` set lps"
    "init_events_ok cfg (gvt_getGVT (c_gvt cfg) v) lps (node_id_by_lp_name (d_comm nd))"
    using start unfolding start_ok_def lps_def by blast+
  obtain es where es: "initialize multiset_ops parts ?n (d_migration nd) ?th event_set_new = Inr es" "ms_inv {} es"
    "num_of_lps es = ?n" "all_events es = {#}" "\<And>j. j < ?n \<Longrightarrow> input_queue es ! j = []"
    "\<And>j. j < ?n \<Longrightarrow> processed_queue es ! j = []"
    using initialize_new [OF st(1)] unfolding lps_def [symmetric] by (metis nth_map)
  define f where "f = (\<lambda>mp. fold (\<lambda>(k, lp) mp. mp(name lp \<mapsto> k)) (zip [0..<?n] lps) mp :: string \<rightharpoonup> nat)"
  have f: "f m (name (lps ! i)) = Some i" if "i < ?n" for i m
    using fold_names [OF st(3) that, of 0 m] by (simp add: f_def)
  define nd0 where "nd0 = nd\<lparr>d_lps := lps, d_es := es, lps_by_name := f (lps_by_name nd),
    local_lp_id_by_name := f (local_lp_id_by_name nd), d_sm := sm_initialize ?n (d_sm nd), d_om := om_initialize ?n,
    d_fsm := fsm_initialize ?n (d_fsm nd), d_gvt := v, d_tm := tm_initialize (my_id nd) (d_num_workers nd) (d_tm nd),
    d_stats := st_initialize (c_dbl cfg) (d_num_workers nd) (of_nat ?n) (d_stats nd), next_ptr := next_ptr nd + 1\<rparr>"
  have run: "d_initialize cfg parts v nd = initialize_lps cfg ?th (InitialEvent (next_ptr nd)) [0..<?n] nd0"
    using es(1) cfg st(2) by (simp add: d_initialize_def sound_config_def nd0_def f_def lps_def Let_def)
  have sel: "d_lps nd0 = lps" "d_es nd0 = es" "d_sm nd0 = sm_initialize ?n (d_sm nd)" "d_om nd0 = om_initialize ?n"
    "d_comm nd0 = d_comm nd" "next_ptr nd0 = next_ptr nd + 1" "d_gvt nd0 = v" "my_id nd0 = my_id nd"
    by (simp_all add: nd0_def my_id_def)
  have id: "lp_id_of (name (lps ! i)) nd0 = i" "lps_by_name nd0 (name (lps ! i)) = Some i" if "i < ?n" for i
    using f [OF that] by (simp_all add: nd0_def lp_id_of_def)
  have names: "names_ok nd0"
    unfolding names_ok_def sel es(3) using id by (auto simp: st(5) in_set_conv_nth)
  have queues: "queues_ok nd0" unfolding queues_ok_def sel es(3) using es(5,6) by simp
  have sent: "sent_ok (\<lambda>_. []) nd0"
    unfolding sent_ok_def out_ok_def sel es(3) by (simp add: om_initialize_def om_sorted_def)
  have init_flow0: "init_flow cfg lps (next_ptr nd) 0 nd0"
    using es(3,4) by (simp add: init_flow_def local_sent_def sel all_events_def om_initialize_def)
  have "node_ok cfg (\<lambda>i. init_state cfg (lps ! i)) (\<lambda>_. {}) (\<lambda>_. []) {..<0} {} nd0"
    unfolding node_ok_def using es(2,3) names queues sent st(4) by (simp add: sel fresh_ok_def es(4))
  then have "init_inv cfg (gvt_getGVT (c_gvt cfg) v) lps (node_id_by_lp_name (d_comm nd)) (next_ptr nd) 0 nd0"
    unfolding init_inv_def using es(3,4,6) st(5) by (simp add: sel sm_initialize_def init_flow0)
  from initialize_loop [OF cfg st(6) this, of ?n ?th] obtain nd' where
    nd': "initialize_lps cfg ?th (InitialEvent (next_ptr nd)) [0..<?n] nd0 = Inr nd'"
    "init_inv cfg (gvt_getGVT (c_gvt cfg) v) lps (node_id_by_lp_name (d_comm nd)) (next_ptr nd) ?n nd'" "max_sim_time nd' = max_sim_time nd"
    by (auto simp: nd0_def)
  then have ok: "node_ok cfg (\<lambda>i. init_state cfg (lps ! i)) (\<lambda>_. {}) (\<lambda>_. []) {..<?n} {} nd'" and n: "n_lps nd' = ?n"
    by (simp_all add: init_inv_def)
  have "node_ok cfg (\<lambda>i. init_state cfg (lps ! i)) (\<lambda>_. {}) (\<lambda>_. []) UNIV {} nd'"
    using ok unfolding node_ok_def n by simp
  moreover have "timely cfg (\<lambda>_. []) nd'" by (rule init_timely [OF nd'(2) st(6,4)])
  ultimately show ?thesis using run nd' n by auto
qed

end
