(* ===== verification/TW_Node_Props.thy ===== *)
theory TW_Node_Props
  imports TW_Node_Step TW_Node_Init
begin

text \<open>
  The correctness of optimistic execution for a node with all its LPs and managers.
\<close>

section \<open>Sample node\<close>

text \<open>The LP has processed the event at 10, which sent \<open>sample_out\<close>; now the anti-message for it is there.\<close>

definition sample_neg :: event where
  "sample_neg = sample_event 3 NEGATIVE 10 1"

definition sample_node_es :: "event list event_set" where
  "sample_node_es = sample_es0\<lparr>input_queue := [[sample_neg, sample_event 2 POSITIVE 20 2, sample_out]],
     processed_queue := [[sample_event 1 POSITIVE 10 1]], schedule_queue := [[sample_neg]],
     scheduled_event_pointer := [Some sample_neg]\<rparr>"

definition sample_node :: "(nat, string, event list, async_gvt, unit) dispatcher" where
  "sample_node = sample_disp\<lparr>d_es := sample_node_es, d_lps := [(run_lp sample_run2)\<lparr>lp_generation := 8, last_fossil_collect_gvt := 10\<rparr>],
     d_gvt := (d_gvt sample_disp)\<lparr>gVT := 10\<rparr>\<rparr>"

abbreviation sample_H :: "nat \<Rightarrow> event list" where
  "sample_H \<equiv> \<lambda>_. [sample_event 1 POSITIVE 10 1]"

abbreviation sample_sg :: "nat \<Rightarrow> nat \<times> string list" where
  "sample_sg \<equiv> \<lambda>_. run_sg sample_run"

lemma sample_node_sel:
  "d_es sample_node = sample_node_es" "d_lps sample_node = [(run_lp sample_run2)\<lparr>lp_generation := 8, last_fossil_collect_gvt := 10\<rparr>]"
  "d_sm sample_node = run_sm sample_run2" "lps_by_name sample_node = [''lp'' \<mapsto> 0]"
  "local_lp_id_by_name sample_node = [''lp'' \<mapsto> 0]" "next_ptr sample_node = 10"
  "output_queue (d_om sample_node) = [[\<lparr>input_event = sample_event 1 POSITIVE 10 1, output_event = sample_out\<rparr>]]"
  "node_id_by_lp_name (d_comm sample_node) = [''lp'' \<mapsto> 0]" "my_id sample_node = 0" "node_gvt sample_cfg sample_node = 10"
  by (simp_all add: sample_node_def sample_disp_def om_insertEvent_def om_initialize_def my_id_def sample_cfg_def
      async_ops_def getGVT_def comm_initialize_def comm_new_def initializeLPMap_def)

lemma sample_es_sel:
  "num_of_lps sample_node_es = 1" "input_queue sample_node_es = [[sample_neg, sample_event 2 POSITIVE 20 2, sample_out]]"
  "processed_queue sample_node_es = [[sample_event 1 POSITIVE 10 1]]"
  "all_events sample_node_es = {#sample_neg, sample_event 2 POSITIVE 20 2, sample_out, sample_event 1 POSITIVE 10 1#}"
  by (simp_all add: sample_node_es_def sample_es0_def all_events_def)

lemma sample_event_more [simp]:
  "sender_name (sample_event p ty t g) = ''lp''" "generation (sample_event p ty t g) = of_nat g"
  by (simp_all add: sample_event_def)

lemma sample_node_inv: "ms_inv {} sample_node_es"
proof -
  have w: "waiting {} sample_node_es 0 = {0}"
    by (auto simp: waiting_def sample_node_es_def sample_es0_def)
  have "waiting_events {} sample_node_es 0 = {#sample_neg#}"
    unfolding waiting_events_def w by (simp add: sample_node_es_def)
  then show ?thesis
    by (simp add: es_inv_def es_shape_def sample_es_sel distinct_events_add)
      (simp add: sample_node_es_def sample_es0_def lp_ok_def ms_sorted_Cons compareEvents_key sample_neg_def
        sample_out_def less_EventType_def)
qed

lemma sample_node_run: "run_ok sample_ops_moved 0 (run_sg sample_run) (lp_view (\<lambda>_. {}) sample_H 0 sample_node)"
proof -
  have "run_gvt sample_run2 \<le> 10" by (simp add: sample_run2_def sample_run_def Let_def)
  note ok = run_ok_later [OF sample_run_ok this]
  show ?thesis
    by (rule run_ok_cong [OF ok])
      (use run_okD(1) [OF ok] in \<open>simp_all add: lp_view_def sample_node_sel sample_es_sel sample_run2_def sample_run_def
        Let_def lp_receive_static sample_lp_def\<close>)
qed

lemma sample_sound: "sound_config sample_cfg"
  using sample_laws by (simp add: sound_config_def sample_cfg_def keeps_gvt_async)

lemma sample_node_ok: "node_ok sample_cfg sample_sg (\<lambda>_. {}) sample_H UNIV {} sample_node"
proof -
  have lp: "name (run_lp sample_run2) = ''lp''" "last_fossil_collect_gvt (run_lp sample_run2) = 0"
    by (simp_all add: sample_run2_def Let_def lp_receive_static sample_lp_def)
  have local: "is_local sample_node e" if "receiverName e = ''lp''" for e
    using that by (simp add: is_local_def sample_node_sel)
  have id: "lp_id_of ''lp'' sample_node = 0" by (simp add: lp_id_of_def sample_node_sel)
  have names: "names_ok sample_node"
    by (simp add: names_ok_def sample_node_sel sample_es_sel lp lp_id_of_def)
  have queues: "queues_ok sample_node"
    using local id by (simp add: queues_ok_def sample_node_sel sample_es_sel sample_neg_def)
  have fresh: "fresh_ok sample_node"
    by (simp add: fresh_ok_def sample_node_sel sample_es_sel sample_neg_def sample_out_def lp)
  have sent: "sent_ok sample_H sample_node"
    by (simp add: sent_ok_def out_ok_def sample_node_sel sample_es_sel om_sorted_def lp)
      (simp add: sample_neg_def sample_out_def)
  show ?thesis
    unfolding node_ok_def
    using names queues fresh sent sample_node_inv sample_node_run
    by (simp add: sample_node_sel sample_es_sel lp) (simp add: sample_cfg_def)
qed

lemma sample_get:
  "\<exists>es. getEvent multiset_ops 0 (d_es sample_node) = Inr (Some sample_neg, es)"
  by (simp add: getEvent_def sample_node_sel sample_node_es_def sample_es0_def multiset_ops_def multiset_pop_def)

lemma sample_ready: "event_ready sample_cfg sample_sg (\<lambda>_. {}) sample_H sample_node sample_neg"
  by (simp add: event_ready_def Let_def sample_node_sel sample_es_sel lp_id_of_def)
    (simp add: sample_neg_def sample_node_sel sample_es_sel sample_event_def ev_key_def)

lemma sample_proper: "t \<noteq> uint_max \<Longrightarrow> proper (sample_event p ty t g)"
  by (rule proper_named) simp_all

lemma sample_timely: "timely sample_cfg sample_H sample_node"
proof -
  have max: "10 \<noteq> uint_max" "20 \<noteq> uint_max" "30 \<noteq> uint_max" by (simp_all add: uint_max_def)
  have "not_before sample_cfg sample_node e" if "10 \<le> timestamp e" for e
    using that by (simp add: not_before_def sample_node_sel sample_es_sel)
  moreover have "name (run_lp sample_run2) = ''lp''"
    by (simp add: sample_run2_def Let_def lp_receive_static sample_lp_def)
  moreover have "timestamp sample_neg = 10" "proper sample_neg" "proper sample_out"
    using sample_proper max by (simp_all add: sample_neg_def sample_out_def)
  ultimately show ?thesis
    using sample_proper max by (simp add: timely_def sample_node_sel sample_es_sel)
qed

lemma sample_after: "after_event sample_neg [sample_event (Suc 0) POSITIVE 10 (Suc 0)] = []"
  by (simp add: after_event_def sample_neg_def ev_less_key)

lemma sample_id: "lp_id_of (receiverName sample_neg) sample_node = 0" "0 < length (worker_thread_scheduler_map (d_es sample_node))"
  by (simp_all add: sample_neg_def lp_id_of_def sample_node_sel sample_node_es_def sample_es0_def)

section \<open>The properties\<close>

text \<open>C2: One iteration of a worker thread on the node as a whole refines the sequential execution of one LP.
  No assertion fails, the relation between the state of the node with all its managers and the histories
  of the LPs is kept, and the state of the LP becomes the one that processing its new history in order
  gives: its events before the one that is taken, and then this event, unless it is negative. This covers
  taking the event from the schedule queue, a rollback with its anti-messages when the event is a
  straggler, the cancellation of a negative event with its counterpart, and for a positive one saving the
  state, sending, fossil collection and scheduling the next event. That nothing in the input queues is before GVT
  or before what has been committed, and that nothing that may still be cancelled is, is kept as well. The
  conditions, in \<open>event_ready\<close>: the model sends its events to known LPs and not into the past, a
  negative event finds its counterpart in the queues of the LP, and if the iteration rolls back, the saved state that it
  restores is none that an earlier rollback has moved a state out of; the states of the model are any values.\<close>

theorem worker_iteration_refines:
  fixes nd :: "('s, 'g, event list, 'v, 'd) dispatcher"
  assumes "sound_config cfg" and "node_ok cfg sg0 U H UNIV P nd" and "timely cfg H nd"
    and "t < length (worker_thread_scheduler_map (d_es nd))"
    and "getEvent multiset_ops t (d_es nd) = Inr (Some e, es)" and "event_ready cfg sg0 U H nd e"
    and "i = lp_id_of (receiverName e) nd"
  shows "\<exists>nd'. process_iteration cfg now t nd = Inr nd' \<and>
    node_ok cfg sg0 (U(i := spent_after (c_lp cfg) i e nd (U i))) (H(i := after_event e (H i))) UNIV P nd' \<and>
    timely cfg (H(i := after_event e (H i))) nd' \<and>
    (lp_state (d_lps nd' ! i), rng_list (d_lps nd' ! i)) = exec (c_lp cfg) (sg0 i) (after_event e (H i))"
proof -
  have "traced_ok cfg sg0 P (U, H, nd)" using assms(2,3) by (simp add: traced_ok_def)
  then obtain nd' where nd': "process_iteration cfg now t nd = Inr nd'" "i < n_lps nd'"
    "node_ok cfg sg0 (U(i := spent_after (c_lp cfg) i e nd (U i))) (H(i := after_event e (H i))) UNIV P nd'"
    "timely cfg (H(i := after_event e (H i))) nd'"
    using work_keeps [OF assms(1) _ assms(4-6), of P now] unfolding assms(7) by (auto simp: traced_ok_def)
  from run_ok_sequential [OF node_okD(11) [OF nd'(3,2) UNIV_I]] nd' show ?thesis
    by (auto simp: lp_view_def)
qed

text \<open>The anti-message is a straggler: the LP is rolled back to its initial state.\<close>

theorem worker_iteration_refines_witness:
  "\<exists>nd'. process_iteration sample_cfg 0 0 sample_node = Inr nd' \<and> lp_state (d_lps nd' ! 0) = 7"
proof -
  obtain es where "getEvent multiset_ops 0 (d_es sample_node) = Inr (Some sample_neg, es)" using sample_get by blast
  from worker_iteration_refines [OF sample_sound sample_node_ok sample_timely sample_id(2) this sample_ready
      sample_id(1) [symmetric], of 0]
  show ?thesis by (auto simp: sample_after exec_def sample_run_def sample_lp_def)
qed

lemma sorted_less_distinct: "sorted_wrt ev_less h \<Longrightarrow> distinct h"
  by (induction h) (auto simp: ev_less_key)

lemma distinct_suffixes:
  assumes "distinct zs" and "zs = xs @ ys" "zs = xs' @ ys'" and "set ys' \<subseteq> set ys"
  shows "\<exists>p. ys = p @ ys'"
proof -
  from assms(2,3) obtain us where "xs = xs' @ us \<and> us @ ys = ys' \<or> xs @ us = xs' \<and> ys = us @ ys'"
    by (auto simp: append_eq_append_conv2)
  then show ?thesis
  proof
    assume us: "xs = xs' @ us \<and> us @ ys = ys'"
    then have "us = []" using assms(1,2,4) by (cases us) auto
    with us show ?thesis by simp
  qed blast
qed

lemma sample_traced: "traced_ok sample_cfg sample_sg {} (\<lambda>_. {}, sample_H, sample_node)"
  using sample_node_ok sample_timely by (simp add: traced_ok_def)

lemma sample_node_step:
  "\<exists>U nd'. (node_step sample_cfg sample_sg)\<^sup>*\<^sup>* (\<lambda>_. {}, sample_H, sample_node) (U, sample_H(0 := []), nd')"
proof -
  obtain es where es: "getEvent multiset_ops 0 (d_es sample_node) = Inr (Some sample_neg, es)" using sample_get by blast
  obtain nd' where nd': "process_iteration sample_cfg 0 0 sample_node = Inr nd'"
    using work_keeps [OF sample_sound sample_traced sample_id(2) es sample_ready, of 0] by blast
  from node_step.work [OF sample_id(2) es sample_ready nd' sample_id(1) [symmetric]] show ?thesis
    by (auto simp: sample_after)
qed

text \<open>C5: Initialization of a node with any partition of its LPs never fails, and it establishes the relation
  between node and histories that all later steps rely on, with empty histories: each LP is in the state
  that \<open>initializeLP\<close> leaves, its initial events are where they belong, and its state is saved.\<close>

theorem initialization_establishes:
  fixes nd :: "('s, 'g, event list, 'v, 'd) dispatcher"
  assumes "sound_config cfg" and "start_ok cfg parts v nd"
  shows "\<exists>nd'. d_initialize cfg parts v nd = Inr nd' \<and> n_lps nd' = length (concat parts) \<and>
    node_ok cfg (\<lambda>i. init_state cfg (concat parts ! i)) (\<lambda>_. {}) (\<lambda>_. []) UNIV {} nd' \<and>
    timely cfg (\<lambda>_. []) nd'"
  using d_initialize_ok [OF assms] by blast

text \<open>C1: Start a node and let worker threads, received messages and the master loop do what they do, in any
  order and any number of times: the state of each LP is the one that processing the LP's history in
  order gives from its initial state, and the history is in the order of the timestamps; it ends with the processed
  queue, the rest of it having been collected as fossils. Rollbacks, state saving at a period, anti-messages and fossil collection cannot be told from the result. What this rests on
  are the conditions in \<open>node_step\<close>: a message brings a new event, not before GVT nor before what the node has
  committed; the GVT manager announces no GVT past an event in the input queues; the model sends its events to known LPs
  and not into the past; a negative event is taken when its counterpart is in the queues of the LP; and no rollback
  restores a saved state that an earlier one has moved a state out of, as \<open>LPStateMixin\<close> does it
  (a state that a move leaves as it is, such as one of numbers, is never lost).\<close>

theorem node_runs_sequentially:
  fixes nd :: "('s, 'g, event list, 'v, 'd) dispatcher"
  assumes "sound_config cfg" and "start_ok cfg parts v nd" and "d_initialize cfg parts v nd = Inr nd0"
    and "(node_step cfg (\<lambda>i. init_state cfg (concat parts ! i)))\<^sup>*\<^sup>* (\<lambda>_. {}, \<lambda>_. [], nd0) (U, H, nd')"
    and "i < n_lps nd'"
  shows "(lp_state (d_lps nd' ! i), rng_list (d_lps nd' ! i)) =
      exec (c_lp cfg) (init_state cfg (concat parts ! i)) (H i) \<and>
    sorted_wrt ev_less (H i) \<and> (\<exists>d. H i = d @ processed_queue (d_es nd') ! i)"
proof -
  have "traced_ok cfg (\<lambda>i. init_state cfg (concat parts ! i)) {} (\<lambda>_. {}, \<lambda>_. [], nd0)"
    using d_initialize_ok [OF assms(1,2)] assms(3) by (auto simp: traced_ok_def)
  then have "node_ok cfg (\<lambda>i. init_state cfg (concat parts ! i)) U H UNIV {} nd'"
    using node_reach_keeps [OF assms(4,1), of "{}"] by (simp add: traced_ok_def)
  from node_okD(11) [OF this assms(5) UNIV_I]
  have ok: "run_ok (c_lp cfg) i (init_state cfg (concat parts ! i)) (lp_view U H i nd')" .
  from run_ok_sequential [OF ok] run_okD(5,6) [OF ok] show ?thesis by (auto simp: lp_view_def)
qed

text \<open>The start of a node with one LP, which sends itself an event for time 10.\<close>

definition start_cfg :: "(nat, string, event list, async_gvt, unit) config" where
  "start_cfg = sample_cfg\<lparr>c_lp := sample_ops_moved\<lparr>initializeLP := (\<lambda>sg. (sg, [sample_event 5 POSITIVE 10 0]))\<rparr>\<rparr>"

definition start_node :: "(nat, string, event list, async_gvt, unit) dispatcher" where
  "start_node = sample_disp\<lparr>d_es := event_set_new, lps_by_name := Map.empty, local_lp_id_by_name := Map.empty\<rparr>"

abbreviation start_gvt :: async_gvt where
  "start_gvt \<equiv> async_initialize 0 (async_new 100 1 0)"

lemma start_sound: "sound_config start_cfg"
  using sample_laws by (simp add: sound_config_def start_cfg_def sample_cfg_def keeps_gvt_async sample_ops_moved_def sample_ops_def
      rng_law_def rng_count_law_def)

lemma start_start_ok: "start_ok start_cfg [[sample_lp]] start_gvt start_node"
  by (simp add: start_ok_def start_node_def sample_disp_def sample_lp_def init_events_ok_def start_cfg_def
      sample_cfg_def async_ops_def getGVT_def async_initialize_def async_new_def gvt_initialize_def resetLocalState_def
      Let_def my_id_def comm_initialize_def comm_new_def initializeLPMap_def uint_max_def)

lemma start_run:
  "\<exists>nd0 es. d_initialize start_cfg [[sample_lp]] start_gvt start_node = Inr nd0 \<and>
     getEvent multiset_ops 0 (d_es nd0) = Inr (Some (sample_event 11 POSITIVE 10 0), es) \<and>
     0 < length (worker_thread_scheduler_map (d_es nd0)) \<and> node_gvt start_cfg nd0 = 0 \<and>
     lp_id_of ''lp'' nd0 = 0 \<and> lp_generation (d_lps nd0 ! 0) = 1"
proof -
  let ?e = "sample_event 11 POSITIVE 10 0"
  have stamp: "(sample_event 5 POSITIVE 10 0)\<lparr>ev_ptr := 11, sender_name := ''lp'', send_time := 0, generation := 0\<rparr> = ?e"
    by (simp add: sample_event_def)
  have es: "initialize multiset_ops [[sample_lp]] (Suc 0) False (Suc 0) event_set_new = Inr sample_es0"
    by (simp add: initialize_def event_set_new_def multiset_ops_def sample_es0_def Let_def)
  define nd1 where "nd1 = start_node\<lparr>d_lps := [sample_lp], d_es := sample_es0, lps_by_name := [''lp'' \<mapsto> 0],
    local_lp_id_by_name := [''lp'' \<mapsto> 0], d_sm := sm_initialize 1 (d_sm start_node), d_om := om_initialize 1,
    d_fsm := fsm_initialize 1 (d_fsm start_node), d_gvt := start_gvt, d_tm := tm_initialize 0 1 (d_tm start_node),
    d_stats := st_initialize (c_dbl start_cfg) 1 1 (d_stats start_node), next_ptr := 11\<rparr>"
  have nd1: "d_initialize start_cfg [[sample_lp]] start_gvt start_node =
      initialize_lps start_cfg 1 (InitialEvent 10) [0] nd1"
    using es by (simp add: d_initialize_def nd1_def start_node_def sample_disp_def start_cfg_def sample_cfg_def
        Let_def my_id_def comm_initialize_def comm_new_def sample_lp_def initializeLPMap_def)
  have sel: "d_lps nd1 = [sample_lp]" "d_es nd1 = sample_es0" "local_lp_id_by_name nd1 = [''lp'' \<mapsto> 0]"
    "node_id_by_lp_name (d_comm nd1) = [''lp'' \<mapsto> 0]" "my_rank (d_comm nd1) = 0" "max_sim_time nd1 = 100"
    "d_gvt nd1 = start_gvt" "next_ptr nd1 = 11"
    by (simp_all add: nd1_def start_node_def sample_disp_def comm_initialize_def comm_new_def initializeLPMap_def)
  have gvt: "getGVT (async_reportThreadSendMin 10 (Suc 0) start_gvt) = 0"
    by (simp add: getGVT_def async_reportThreadSendMin_def async_initialize_def async_new_def gvt_initialize_def
        resetLocalState_def Let_def)
  have cfg: "c_sched start_cfg = multiset_ops" "c_gvt start_cfg = async_ops 0 1"
    "initializeLP (c_lp start_cfg) = (\<lambda>sg. (sg, [sample_event 5 POSITIVE 10 0]))"
    by (simp_all add: start_cfg_def sample_cfg_def)
  show ?thesis
    unfolding nd1
    by (simp add: sel cfg lp_id_of_def route_def node_of_def getNodeID_def my_id_def stamp_def stamp sample_lp_def
        InitialEvent_def sendLocalEvent_def insertEvent_def sample_es0_def multiset_ops_def getEvent_def multiset_pop_def
        async_ops_def Let_def gvt)
qed

lemma start_ready:
  assumes "node_gvt start_cfg nd0 = 0" and "lp_generation (d_lps nd0 ! 0) = 1" and "lp_id_of ''lp'' nd0 = 0"
  shows "event_ready start_cfg (\<lambda>i. init_state start_cfg (concat [[sample_lp]] ! i)) (\<lambda>_. {}) (\<lambda>_. []) nd0 (sample_event 11 POSITIVE 10 0)"
  using assms
  by (simp add: event_ready_def Let_def may_send_def in_future_def start_cfg_def sample_cfg_def sample_ops_moved_def sample_ops_def sample_lp_def exec_def uint_max_def
      uint_max_def ev_less_key ev_key_def InitialEvent_def sample_event_def)

theorem initialization_establishes_witness:
  "\<exists>nd0. d_initialize start_cfg [[sample_lp]] start_gvt start_node = Inr nd0 \<and> n_lps nd0 = 1"
  using initialization_establishes [OF start_sound start_start_ok] by auto

text \<open>A worker takes the event.\<close>

theorem node_runs_sequentially_witness:
  "\<exists>nd0 U H nd'. d_initialize start_cfg [[sample_lp]] start_gvt start_node = Inr nd0 \<and>
     (node_step start_cfg (\<lambda>i. init_state start_cfg (concat [[sample_lp]] ! i)))\<^sup>*\<^sup>* (\<lambda>_. {}, \<lambda>_. [], nd0) (U, H, nd') \<and>
     H 0 = [sample_event 11 POSITIVE 10 0] \<and> lp_state (d_lps nd' ! 0) = 17"
proof -
  let ?sg0 = "\<lambda>i. init_state start_cfg (concat [[sample_lp]] ! i)" and ?e = "sample_event 11 POSITIVE 10 0"
  obtain nd0 es where nd0: "d_initialize start_cfg [[sample_lp]] start_gvt start_node = Inr nd0"
    "getEvent multiset_ops 0 (d_es nd0) = Inr (Some ?e, es)" "0 < length (worker_thread_scheduler_map (d_es nd0))"
    "node_gvt start_cfg nd0 = 0" "lp_id_of ''lp'' nd0 = 0" "lp_generation (d_lps nd0 ! 0) = 1"
    using start_run by blast
  have ok: "traced_ok start_cfg ?sg0 {} (\<lambda>_. {}, \<lambda>_. [], nd0)"
    using d_initialize_ok [OF start_sound start_start_ok] nd0(1) by (auto simp: traced_ok_def)
  note ready = start_ready [OF nd0(4,6,5)]
  have id: "lp_id_of (receiverName ?e) nd0 = 0" using nd0(5) by simp
  obtain nd' where nd': "process_iteration start_cfg 0 0 nd0 = Inr nd'" "0 < n_lps nd'"
    using work_keeps [OF start_sound ok nd0(3,2) ready, of 0] id by auto
  let ?H = "(\<lambda>_. [])(0 := after_event ?e [])"
  obtain U where steps: "(node_step start_cfg ?sg0)\<^sup>*\<^sup>* (\<lambda>_. {}, \<lambda>_. [], nd0) (U, ?H, nd')"
    using node_step.work [OF nd0(3,2) ready nd'(1) id [symmetric]] by blast
  have H: "?H 0 = [?e]" by (simp add: after_event_def)
  have "lp_state (d_lps nd' ! 0) = 17"
    using node_runs_sequentially [OF start_sound start_start_ok nd0(1) steps nd'(2)]
    by (simp add: after_event_def exec_def start_cfg_def sample_cfg_def sample_ops_moved_def sample_ops_def sample_lp_def)
  with nd0(1) steps H show ?thesis by blast
qed

text \<open>C4: What an LP has committed is final. Take the GVT at which an LP has last collected its fossils, and let the
  node do any number of steps, under the conditions of \<open>node_step\<close> (a message brings a new event, not before GVT nor before what the
  node has committed; no GVT is announced that is past an event in the input queues; the model sends to known LPs and not
  into the past; a negative event finds its counterpart; no rollback restores a saved state that was moved
  out of): the LP never collects
  at an earlier GVT, its processed events before that time are only taken away from the front, by further fossil
  collection, and no other comes among them, its history up to then stays, and no event before that time is in
  any input queue, so that none will be processed, be rolled back by a straggler or be cancelled. That the events
  which the LPs send and cancel and those that rollbacks bring back keep to this is what is proved.\<close>

theorem committed_history_final:
  fixes nd :: "('s, 'g, event list, 'v, 'd) dispatcher"
  assumes "sound_config cfg" and "node_ok cfg sg0 U H UNIV P nd" and "timely cfg H nd"
    and "(node_step cfg sg0)\<^sup>*\<^sup>* (U, H, nd) (U', H', nd')" and "i < n_lps nd"
  defines "g \<equiv> last_fossil_collect_gvt (d_lps nd ! i)"
  shows "g \<le> last_fossil_collect_gvt (d_lps nd' ! i) \<and>
    (\<exists>d. filter (\<lambda>x. timestamp x < g) (processed_queue (d_es nd) ! i) =
       d @ filter (\<lambda>x. timestamp x < g) (processed_queue (d_es nd') ! i)) \<and>
    filter (\<lambda>x. timestamp x < g) (H' i) = filter (\<lambda>x. timestamp x < g) (H i) \<and>
    (\<forall>e\<in>#inputs nd'. g \<le> timestamp e)"
proof -
  have ok: "traced_ok cfg sg0 P (U, H, nd)" using assms(2,3) by (simp add: traced_ok_def)
  note reach = node_reach_keeps [OF assms(4,1) ok]
  have ok': "node_ok cfg sg0 U' H' UNIV P nd'" "timely cfg H' nd'" using reach by (simp_all add: traced_ok_def)
  have keep: "keeps_below g i (U, H, nd) (U', H', nd')" using reach assms(5) by (simp add: g_def)
  then have i': "i < n_lps nd'" using assms(5) by (simp add: keeps_below_def)
  let ?F = "filter (\<lambda>x. timestamp x < g)"
  obtain d d' where d: "H i = d @ processed_queue (d_es nd) ! i" "H' i = d' @ processed_queue (d_es nd') ! i"
    using run_okD(6) [OF node_okD(11) [OF assms(2,5) UNIV_I]] run_okD(6) [OF node_okD(11) [OF ok'(1) i' UNIV_I]]
    by (auto simp: lp_view_def)
  have "distinct (H i)" using run_okD(5) [OF node_okD(11) [OF assms(2,5) UNIV_I]] sorted_less_distinct
    by (simp add: lp_view_def)
  then have "distinct (?F (H i))" by simp
  moreover have "?F (H i) = ?F d @ ?F (processed_queue (d_es nd) ! i)" using d(1) by simp
  moreover have "?F (H i) = ?F d' @ ?F (processed_queue (d_es nd') ! i)"
    using d(2) keep by (simp add: keeps_below_def flip: filter_append)
  moreover have "set (?F (processed_queue (d_es nd') ! i)) \<subseteq> set (?F (processed_queue (d_es nd) ! i))"
    using keep by (auto simp: keeps_below_def)
  ultimately have "\<exists>p. ?F (processed_queue (d_es nd) ! i) = p @ ?F (processed_queue (d_es nd') ! i)"
    by (rule distinct_suffixes)
  moreover have "g \<le> timestamp e" if "e \<in># inputs nd'" for e
    using ok'(2) that keep i' unfolding timely_def not_before_def keeps_below_def g_def
    by (fastforce intro: order_trans)
  ultimately show ?thesis using keep by (simp add: keeps_below_def g_def)
qed

text \<open>The anti-message for time 10, the GVT of the last fossil collection, is processed.\<close>

theorem committed_history_final_witness:
  "\<exists>U H' nd'. (node_step sample_cfg sample_sg)\<^sup>*\<^sup>* (\<lambda>_. {}, sample_H, sample_node) (U, H', nd') \<and>
     H' 0 = [] \<and> 10 \<le> last_fossil_collect_gvt (d_lps nd' ! 0) \<and> (\<forall>e\<in>#inputs nd'. 10 \<le> timestamp e)"
proof -
  obtain U nd' where nd': "(node_step sample_cfg sample_sg)\<^sup>*\<^sup>* (\<lambda>_. {}, sample_H, sample_node) (U, sample_H(0 := []), nd')"
    using sample_node_step by blast
  have "0 < n_lps sample_node" by (simp add: sample_node_sel sample_es_sel)
  from committed_history_final [OF sample_sound sample_node_ok sample_timely nd' this] nd' show ?thesis
    by (intro exI [of _ U] exI [of _ "sample_H(0 := [])"] exI [of _ nd']) (simp add: sample_node_sel)
qed

end
