(* ===== verification/Cereal_Archive.thy ===== *)
theory Cereal_Archive
  imports TW_Comm Text_IO Stl_Ordered
begin

text \<open>
  The binary archives in which a checkpoint is kept (\<open>src/deps/cereal/archives/portable_binary.hpp\<close> and
  \<open>src/deps/cereal/types\<close>), as far as the kernel uses them: numbers, strings, containers and smart pointers
  to objects that are not polymorphic, byte by byte.

  Saving a value gives the bytes it adds to the file; loading takes bytes from the front. An archive
  also remembers which shared objects and which type names it has met, so that each is written
  once; the tables of the two archives have the types \<open>'w\<close> and \<open>'r\<close>. The functions for pointers to
  polymorphic classes, in which the tables are used, are the business of the registered classes and
  parameters of the theories that import this one; \<open>reads_back\<close> is their contract. The machine is little endian.
\<close>

section \<open>Archives\<close>

type_synonym 'w saver = "'w \<Rightarrow> byte list \<times> 'w"

record 'r iarchive =
  itsBytes :: "byte list"
  itsPointers :: 'r
  itsConvertEndianness :: bool

type_synonym ('r, 'a) loader = "'r iarchive \<Rightarrow> ('a \<times> 'r iarchive) res"

text \<open>\<open>ar(a, b, c)\<close> for the two kinds of archive.\<close>

fun save_all :: "'w saver list \<Rightarrow> 'w saver" where
  "save_all [] w = ([], w)"
| "save_all (s # ss) w = (let (b, w1) = s w; (bs, w2) = save_all ss w1 in (b @ bs, w2))"

definition returnL :: "'a \<Rightarrow> ('r, 'a) loader" where
  "returnL x ar = Inr (x, ar)"

definition failL :: "fault \<Rightarrow> ('r, 'a) loader" where
  "failL f ar = Inl f"

definition bindL :: "('r, 'a) loader \<Rightarrow> ('a \<Rightarrow> ('r, 'b) loader) \<Rightarrow> ('r, 'b) loader" where
  "bindL m k ar = bindR (m ar) (\<lambda>(x, ar'). k x ar')"

section \<open>Binary data\<close>

text \<open>The bytes of a number, low byte first.\<close>

fun le_bytes :: "nat \<Rightarrow> nat \<Rightarrow> byte list" where
  "le_bytes 0 x = []"
| "le_bytes (Suc n) x = of_nat x # le_bytes n (x div 256)"

fun le_value :: "byte list \<Rightarrow> nat" where
  "le_value [] = 0"
| "le_value (b # bs) = unat b + 256 * le_value bs"

text \<open>The elements of an array, of \<open>k\<close> bytes each.\<close>

function chunks :: "nat \<Rightarrow> byte list \<Rightarrow> byte list list" where
  "chunks k bs = (if k = 0 \<or> bs = [] then [] else take k bs # chunks k (drop k bs))"
  by pat_completeness auto
termination
  by (relation "measure (length \<circ> snd)") auto

declare chunks.simps [simp del]

definition swap_bytes :: "nat \<Rightarrow> byte list \<Rightarrow> byte list" where
  "swap_bytes k bs = concat (map rev (chunks k bs))"

definition saveBinary :: "byte list \<Rightarrow> 'w saver" where
  "saveBinary bs w = (bs, w)"

definition loadBinary :: "nat \<Rightarrow> nat \<Rightarrow> ('r, byte list) loader" where
  "loadBinary data_size sz ar =
     (let bs = take sz (itsBytes ar)
      in if length bs \<noteq> sz then
           Inl (Runtime_Error (''Failed to read '' @ show_nat sz @ '' bytes from input stream! Read '' @
             show_nat (length bs)))
         else Inr (if itsConvertEndianness ar then swap_bytes data_size bs else bs,
                   ar\<lparr>itsBytes := drop sz (itsBytes ar)\<rparr>))"

text \<open>The constructors: the first byte tells the byte order of the writer.\<close>

definition output_archive :: "'w \<Rightarrow> byte list \<times> 'w" where
  "output_archive w0 = saveBinary [1] w0"

definition input_archive :: "'r \<Rightarrow> byte list \<Rightarrow> 'r iarchive res" where
  "input_archive r0 bs =
     bindR (loadBinary 1 1 \<lparr>itsBytes = bs, itsPointers = r0, itsConvertEndianness = False\<rparr>) (\<lambda>(b, ar).
     Inr (ar\<lparr>itsConvertEndianness := (le_value b = 0)\<rparr>))"

section \<open>Numbers\<close>

definition save_word :: "nat \<Rightarrow> 'a::len word \<Rightarrow> 'w saver" where
  "save_word n x = saveBinary (le_bytes n (unat x))"

definition load_word :: "nat \<Rightarrow> ('r, 'a::len word) loader" where
  "load_word n = bindL (loadBinary n n) (\<lambda>bs. returnL (of_nat (le_value bs)))"

definition save_u32 :: "u32 \<Rightarrow> 'w saver" where
  "save_u32 = save_word 4"

definition load_u32 :: "('r, u32) loader" where
  "load_u32 = load_word 4"

definition save_u64 :: "u64 \<Rightarrow> 'w saver" where
  "save_u64 = save_word 8"

definition load_u64 :: "('r, u64) loader" where
  "load_u64 = load_word 8"

definition save_bool :: "bool \<Rightarrow> 'w saver" where
  "save_bool b = saveBinary [if b then 1 else 0]"

definition load_bool :: "('r, bool) loader" where
  "load_bool = bindL (loadBinary 1 1) (\<lambda>bs. returnL (le_value bs \<noteq> 0))"

text \<open>An enumeration is saved as its underlying \<open>int\<close>. A number that is no enumerator is a fault here.\<close>

definition save_enum :: "('a \<Rightarrow> i32) \<Rightarrow> 'a \<Rightarrow> 'w saver" where
  "save_enum f x = save_word 4 (f x)"

definition load_enum :: "(i32 \<Rightarrow> 'a option) \<Rightarrow> ('r, 'a) loader" where
  "load_enum g = bindL load_u32 (\<lambda>n. case g n of Some x \<Rightarrow> returnL x | None \<Rightarrow> failL Out_Of_Range)"

text \<open>A size is a 64 bit number; counters of the model are natural numbers.\<close>

definition save_size :: "nat \<Rightarrow> 'w saver" where
  "save_size n = save_u64 (of_nat n)"

definition load_size :: "('r, nat) loader" where
  "load_size = bindL load_u64 (\<lambda>n. returnL (unat n))"

definition save_uint :: "nat \<Rightarrow> 'w saver" where
  "save_uint n = save_u32 (of_nat n)"

definition load_uint :: "('r, nat) loader" where
  "load_uint = bindL load_u32 (\<lambda>n. returnL (unat n))"

definition save_time :: "int \<Rightarrow> 'w saver" where
  "save_time t = save_u64 (of_int t)"

definition load_time :: "('r, int) loader" where
  "load_time = bindL load_u64 (\<lambda>t. returnL (sint t))"

section \<open>Strings, containers, pointers\<close>

definition save_string :: "string \<Rightarrow> 'w saver" where
  "save_string s = save_all [save_size (length s), saveBinary (map (\<lambda>c. of_nat (of_char c)) s)]"

definition load_string :: "('r, string) loader" where
  "load_string = bindL load_size (\<lambda>n. bindL (loadBinary 1 n) (\<lambda>bs. returnL (map (char_of \<circ> unat) bs)))"

fun load_n :: "nat \<Rightarrow> ('r, 'a) loader \<Rightarrow> ('r, 'a list) loader" where
  "load_n 0 ld = returnL []"
| "load_n (Suc n) ld = bindL ld (\<lambda>x. bindL (load_n n ld) (\<lambda>xs. returnL (x # xs)))"

text \<open>\<open>std::vector\<close> and \<open>std::deque\<close> of objects.\<close>

definition save_list :: "('a \<Rightarrow> 'w saver) \<Rightarrow> 'a list \<Rightarrow> 'w saver" where
  "save_list sv xs = save_all [save_size (length xs), save_all (map sv xs)]"

definition load_list :: "('r, 'a) loader \<Rightarrow> ('r, 'a list) loader" where
  "load_list ld = bindL load_size (\<lambda>n. load_n n ld)"

text \<open>\<open>std::vector<unsigned int>\<close>: the array at once.\<close>

definition save_uints :: "nat list \<Rightarrow> 'w saver" where
  "save_uints ns = save_all [save_size (length ns), saveBinary (concat (map (\<lambda>n. le_bytes 4 (unat (of_nat n :: u32))) ns))]"

definition load_uints :: "('r, nat list) loader" where
  "load_uints = bindL load_size (\<lambda>n. bindL (loadBinary 4 (n * 4)) (\<lambda>bs. returnL (map le_value (chunks 4 bs))))"

text \<open>A \<open>std::unique_ptr\<close> that is not null.\<close>

definition save_unique :: "('a \<Rightarrow> 'w saver) \<Rightarrow> 'a \<Rightarrow> 'w saver" where
  "save_unique sv x = save_all [saveBinary [1], sv x]"

definition load_unique :: "('r, 'a) loader \<Rightarrow> ('r, 'a) loader" where
  "load_unique ld = bindL (loadBinary 1 1) (\<lambda>valid. if le_value valid = 0 then failL Null_Deref else ld)"

text \<open>\<open>emplace_hint\<close> of a \<open>std::multiset\<close>: the element goes where it belongs, as close as possible
  before the position \<open>hint\<close>. The result is its position and the new content.\<close>

definition emplace_hint :: "('a \<Rightarrow> 'a \<Rightarrow> bool) \<Rightarrow> nat \<Rightarrow> 'a \<Rightarrow> 'a list \<Rightarrow> nat \<times> 'a list" where
  "emplace_hint lt hint x ys =
     (let lower = length (takeWhile (\<lambda>y. lt y x) ys);
          upper = length (takeWhile (\<lambda>y. \<not> lt x y) ys);
          p = max lower (min upper hint)
      in (p, take p ys @ x # drop p ys))"

fun load_multiset_loop :: "('a \<Rightarrow> 'a \<Rightarrow> bool) \<Rightarrow> nat \<Rightarrow> ('r, 'a) loader \<Rightarrow> nat \<Rightarrow> 'a list \<Rightarrow> ('r, 'a list) loader" where
  "load_multiset_loop lt 0 ld hint ys = returnL ys"
| "load_multiset_loop lt (Suc n) ld hint ys =
     bindL ld (\<lambda>key. let (hint', ys') = emplace_hint lt hint key ys in load_multiset_loop lt n ld hint' ys')"

definition load_multiset :: "('a \<Rightarrow> 'a \<Rightarrow> bool) \<Rightarrow> ('r, 'a) loader \<Rightarrow> ('r, 'a list) loader" where
  "load_multiset lt ld = bindL load_size (\<lambda>n. load_multiset_loop lt n ld 0 [])"

text \<open>\<open>std::unordered_map\<close>: the entries in the order of the iteration. \<open>emplace\<close> keeps an entry that is there.\<close>

definition save_map :: "(string \<times> u32) list \<Rightarrow> 'w saver" where
  "save_map = save_list (\<lambda>(k, v). save_all [save_string k, save_u32 v])"

fun load_map_loop :: "nat \<Rightarrow> (string \<rightharpoonup> u32) \<Rightarrow> ('r, string \<rightharpoonup> u32) loader" where
  "load_map_loop 0 m = returnL m"
| "load_map_loop (Suc n) m = bindL load_string (\<lambda>k. bindL load_u32 (\<lambda>v.
     load_map_loop n (if k \<in> dom m then m else m(k \<mapsto> v))))"

definition load_map :: "('r, string \<rightharpoonup> u32) loader" where
  "load_map = bindL load_size (\<lambda>n. load_map_loop n Map.empty)"

section \<open>Reading back what was saved\<close>

text \<open>\<open>J\<close> relates the tables of an archive that is written and one that is read. Loading what was saved, whatever
  follows it in the file, gives \<open>x\<close> and leaves what follows.\<close>

definition reads_back :: "('w \<Rightarrow> 'r \<Rightarrow> bool) \<Rightarrow> 'w saver \<Rightarrow> ('r, 'a) loader \<Rightarrow> 'a \<Rightarrow> bool" where
  "reads_back J sv ld x \<longleftrightarrow> (\<forall>w r. J w r \<longrightarrow> (\<exists>r'. J (snd (sv w)) r' \<and>
     (\<forall>rest. ld \<lparr>itsBytes = fst (sv w) @ rest, itsPointers = r, itsConvertEndianness = False\<rparr> =
        Inr (x, \<lparr>itsBytes = rest, itsPointers = r', itsConvertEndianness = False\<rparr>))))"

lemma length_le_bytes [simp]: "length (le_bytes n x) = n"
  by (induction n arbitrary: x) simp_all

lemma le_value_bytes [simp]: "le_value (le_bytes n x) = x mod 256 ^ n"
proof (induction n arbitrary: x)
  case (Suc n)
  have "x mod (256 * 256 ^ n) = 256 * (x div 256 mod 256 ^ n) + x mod 256"
    by (rule mod_mult2_eq)
  then show ?case by (simp add: Suc unat_of_nat)
qed simp

lemma le_bytes_add: "le_bytes (m + n) x = le_bytes m x @ le_bytes n (x div 256 ^ m)"
  by (induction m arbitrary: x) (simp_all add: div_mult2_eq)

lemma reads_return: "x = y \<Longrightarrow> reads_back J (save_all []) (returnL x) y"
  by (auto simp: reads_back_def returnL_def)

lemma reads_bind:
  assumes "reads_back J s ld x" and "reads_back J (save_all ss) (k x) y"
  shows "reads_back J (save_all (s # ss)) (bindL ld k) y"
  unfolding reads_back_def
proof (intro allI impI)
  fix w r assume "J w r"
  with assms(1) obtain r1 where r1: "J (snd (s w)) r1" "ld \<lparr>itsBytes = fst (s w) @ rest, itsPointers = r,
      itsConvertEndianness = False\<rparr> = Inr (x, \<lparr>itsBytes = rest, itsPointers = r1, itsConvertEndianness = False\<rparr>)" for rest
    unfolding reads_back_def by blast
  with assms(2) obtain r2 where r2: "J (snd (save_all ss (snd (s w)))) r2" "k x \<lparr>itsBytes = fst (save_all ss (snd (s w))) @ rest,
      itsPointers = r1, itsConvertEndianness = False\<rparr> = Inr (y, \<lparr>itsBytes = rest, itsPointers = r2,
      itsConvertEndianness = False\<rparr>)" for rest
    unfolding reads_back_def by blast
  show "\<exists>r'. J (snd (save_all (s # ss) w)) r' \<and> (\<forall>rest. bindL ld k \<lparr>itsBytes = fst (save_all (s # ss) w) @ rest,
      itsPointers = r, itsConvertEndianness = False\<rparr> =
      Inr (y, \<lparr>itsBytes = rest, itsPointers = r', itsConvertEndianness = False\<rparr>))"
    using r1 r2 by (intro exI [of _ r2]) (auto simp: bindL_def split: prod.split)
qed

lemma save_all_nested: "save_all [s, t, save_all us] = save_all (save_all [s, t] # us)"
  by (rule ext) (simp split: prod.splits)

text \<open>A function that saves in one step is a list of one.\<close>

lemma reads_single: "reads_back J (save_all [s]) ld x \<Longrightarrow> reads_back J s ld x"
  by (simp add: reads_back_def split: prod.splits)

lemma reads_then:
  assumes "reads_back J s ld x" and "f x = y"
  shows "reads_back J s (bindL ld (\<lambda>x. returnL (f x))) y"
  by (rule reads_single, rule reads_bind [OF assms(1)]) (simp add: assms(2) reads_return)

lemma reads_binary: "length bs = n \<Longrightarrow> reads_back J (saveBinary bs) (loadBinary k n) bs"
  by (auto simp: reads_back_def saveBinary_def loadBinary_def Let_def)

lemma reads_word: "LENGTH('a) \<le> 8 * n \<Longrightarrow> reads_back J (save_word n (x :: 'a::len word)) (load_word n) x"
  unfolding save_word_def load_word_def
proof (rule reads_then [OF reads_binary])
  assume "LENGTH('a) \<le> 8 * n"
  then have "(2::nat) ^ LENGTH('a) \<le> 2 ^ (8 * n)" by (intro power_increasing) simp_all
  moreover have "unat x < 2 ^ LENGTH('a)" by (rule unsigned_less)
  moreover have "(2::nat) ^ (8 * n) = 256 ^ n" by (simp add: power_mult)
  ultimately have "unat x < 256 ^ n" by linarith
  then show "of_nat (le_value (le_bytes n (unat x))) = x" by simp
qed simp_all

lemma reads_u32: "reads_back J (save_u32 x) load_u32 x"
  unfolding save_u32_def load_u32_def by (rule reads_word) simp

lemma reads_u64: "reads_back J (save_u64 x) load_u64 x"
  unfolding save_u64_def load_u64_def by (rule reads_word) simp

lemma reads_bool: "reads_back J (save_bool b) load_bool b"
  unfolding save_bool_def load_bool_def by (rule reads_then [OF reads_binary]) simp_all

lemma reads_enum: "g (f x) = Some x \<Longrightarrow> reads_back J (save_enum f x) (load_enum g) x"
  unfolding save_enum_def load_enum_def save_u32_def [symmetric]
  by (rule reads_single, rule reads_bind [OF reads_u32]) (simp add: reads_return)

lemma reads_size: "n < 2 ^ 64 \<Longrightarrow> reads_back J (save_size n) load_size n"
  unfolding save_size_def load_size_def
  by (rule reads_then [OF reads_u64]) (simp_all add: unat_of_nat)

lemma reads_uint: "n < 2 ^ 32 \<Longrightarrow> reads_back J (save_uint n) load_uint n"
  unfolding save_uint_def load_uint_def
  by (rule reads_then [OF reads_u32]) (simp_all add: unat_of_nat)

lemma reads_time: "- (2 ^ 63) \<le> t \<Longrightarrow> t < 2 ^ 63 \<Longrightarrow> reads_back J (save_time t) load_time t"
  unfolding save_time_def load_time_def
  by (rule reads_then [OF reads_u64]) (simp_all add: signed_of_int signed_take_bit_int_eq_self)

lemma reads_last: "reads_back J s ld x \<Longrightarrow> reads_back J (save_all [s]) ld x"
  by (simp add: reads_back_def split: prod.splits)

lemma reads_string:
  assumes "length s < 2 ^ 64"
  shows "reads_back J (save_string s) load_string s"
proof -
  have "char_of (unat (of_nat (of_char c) :: byte)) = c" for c
    by (simp add: unat_of_nat)
  then have "map (char_of \<circ> unat) (map (\<lambda>c. of_nat (of_char c) :: byte) s) = s" by (simp add: map_idI)
  then show ?thesis unfolding save_string_def load_string_def
    by (intro reads_bind [OF reads_size [OF assms]] reads_last reads_then [OF reads_binary]) simp_all
qed

lemma reads_n: "(\<And>x. x \<in> set xs \<Longrightarrow> reads_back J (sv x) ld x) \<Longrightarrow>
  reads_back J (save_all (map sv xs)) (load_n (length xs) ld) xs"
proof (induction xs)
  case (Cons x xs)
  have "reads_back J (save_all [save_all (map sv xs)]) (bindL (load_n (length xs) ld) (\<lambda>xs. returnL (x # xs))) (x # xs)"
    by (rule reads_bind [OF Cons.IH]) (simp_all add: Cons.prems reads_return)
  then have "reads_back J (save_all (map sv xs)) (bindL (load_n (length xs) ld) (\<lambda>xs. returnL (x # xs))) (x # xs)"
    by (simp add: reads_back_def split: prod.splits)
  then show ?case unfolding list.map list.size add_0_right add_Suc_right One_nat_def load_n.simps by (intro reads_bind [OF Cons.prems]) simp_all
qed (simp add: reads_return)

lemma reads_list:
  assumes "length xs < 2 ^ 64" and "\<And>x. x \<in> set xs \<Longrightarrow> reads_back J (sv x) ld x"
  shows "reads_back J (save_list sv xs) (load_list ld) xs"
  unfolding save_list_def load_list_def
  by (rule reads_bind [OF reads_size [OF assms(1)]], rule reads_last, rule reads_n [OF assms(2)])

lemma chunks_append: "length b = k \<Longrightarrow> 0 < k \<Longrightarrow> chunks k (b @ bs) = b # chunks k bs"
  by (subst chunks.simps) (auto simp: length_0_conv [symmetric] simp del: length_0_conv)

lemma chunks_concat: "0 < k \<Longrightarrow> (\<And>b. b \<in> set bs \<Longrightarrow> length b = k) \<Longrightarrow> chunks k (concat bs) = bs"
proof (induction bs)
  case Nil
  show ?case by (subst chunks.simps) simp
qed (simp add: chunks_append)

lemma reads_uints:
  assumes "length ns < 2 ^ 64" and "\<forall>n\<in>set ns. n < 2 ^ 32"
  shows "reads_back J (save_uints ns) load_uints ns"
proof -
  let ?bs = "map (\<lambda>n. le_bytes 4 (unat (of_nat n :: u32))) ns"
  have "length (concat ?bs) = length ns * 4" by (induction ns) simp_all
  moreover have "chunks 4 (concat ?bs) = ?bs" by (rule chunks_concat) auto
  moreover have "map le_value ?bs = ns" using assms(2) by (auto simp: unat_of_nat intro!: map_idI)
  ultimately show ?thesis unfolding save_uints_def load_uints_def
    by (intro reads_bind [OF reads_size [OF assms(1)]] reads_last reads_then [OF reads_binary]) simp_all
qed

lemma reads_unique: "reads_back J (sv x) ld x \<Longrightarrow> reads_back J (save_unique sv x) (load_unique ld) x"
  unfolding save_unique_def load_unique_def
  by (rule reads_bind [OF reads_binary]) (simp_all add: reads_last)

text \<open>A multiset whose elements are pairwise not equivalent comes back in its order.\<close>

lemma emplace_hint_last:
  assumes "sorted_wrt lt (ys @ [x])" and "\<And>a b. lt a b \<Longrightarrow> \<not> lt b a" and "ys = [] \<and> hint = 0 \<or> Suc hint = length ys"
  shows "emplace_hint lt hint x ys = (length ys, ys @ [x])"
proof -
  have "\<forall>y\<in>set ys. lt y x \<and> \<not> lt x y" using assms(1,2) by (auto simp: sorted_wrt_append)
  then have "length (takeWhile (\<lambda>y. lt y x) ys) = length ys" "length (takeWhile (\<lambda>y. \<not> lt x y) ys) = length ys"
    by (metis takeWhile_eq_all_conv)+
  then show ?thesis using assms(3) unfolding emplace_hint_def Let_def by auto
qed

lemma reads_multiset_loop:
  assumes "\<And>a b. lt a b \<Longrightarrow> \<not> lt b a"
  shows "sorted_wrt lt (ys @ xs) \<Longrightarrow> (\<And>x. x \<in> set xs \<Longrightarrow> reads_back J (sv x) ld x) \<Longrightarrow>
    ys = [] \<and> hint = 0 \<or> Suc hint = length ys \<Longrightarrow>
    reads_back J (save_all (map sv xs)) (load_multiset_loop lt (length xs) ld hint ys) (ys @ xs)"
proof (induction xs arbitrary: ys hint)
  case (Cons x xs)
  have "sorted_wrt lt (ys @ [x])" using Cons.prems(1) by (simp add: sorted_wrt_append)
  note e = emplace_hint_last [OF this assms Cons.prems(3)]
  have "reads_back J (save_all (map sv xs)) (load_multiset_loop lt (length xs) ld (length ys) (ys @ [x])) ((ys @ [x]) @ xs)"
    by (rule Cons.IH) (use Cons.prems in auto)
  then have "reads_back J (save_all (map sv xs)) (let (hint', ys') = emplace_hint lt hint x ys
      in load_multiset_loop lt (length xs) ld hint' ys') (ys @ x # xs)"
    by (simp add: e)
  then show ?case unfolding list.map list.size add_0_right add_Suc_right load_multiset_loop.simps
    by (intro reads_bind [OF Cons.prems(2)]) simp_all
qed (simp add: reads_return)

lemma reads_multiset:
  assumes "\<And>a b. lt a b \<Longrightarrow> \<not> lt b a" and "length xs < 2 ^ 64" and "sorted_wrt lt xs"
    and "\<And>x. x \<in> set xs \<Longrightarrow> reads_back J (sv x) ld x"
  shows "reads_back J (save_list sv xs) (load_multiset lt ld) xs"
  unfolding save_list_def load_multiset_def
  by (rule reads_bind [OF reads_size [OF assms(2)]], rule reads_last,
      rule reads_multiset_loop [where ys = "[]", simplified]) (use assms in auto)

lemma reads_map_loop:
  assumes "distinct (map fst xs)" and "set (map fst xs) \<inter> dom m = {}" and "\<forall>(k, v)\<in>set xs. length k < 2 ^ 64"
  shows "reads_back J (save_all (map (\<lambda>(k, v). save_all [save_string k, save_u32 v]) xs)) (load_map_loop (length xs) m)
    (m ++ map_of xs)"
  using assms
proof (induction xs arbitrary: m)
  case (Cons x xs)
  obtain k v where x: "x = (k, v)" by (cases x)
  let ?sv = "\<lambda>(k, v). save_all [save_string k, save_u32 v]"
  have m: "m(k \<mapsto> v) ++ map_of xs = m ++ map_of (x # xs)"
    using Cons.prems(1) by (simp add: x map_add_upd_left dom_map_of_conv_image_fst)
  have IH: "reads_back J (save_all (map ?sv xs)) (load_map_loop (length xs) (m(k \<mapsto> v))) (m ++ map_of (x # xs))"
    unfolding m [symmetric] by (rule Cons.IH) (use Cons.prems in \<open>simp_all add: x del: fun_upd_apply\<close>)
  have "reads_back J (save_all [save_string k, save_u32 v, save_all (map ?sv xs)]) (load_map_loop (length (x # xs)) m) (m ++ map_of (x # xs))"
    unfolding load_map_loop.simps list.size add_0_right add_Suc_right
    by (intro reads_bind [OF reads_string] reads_bind [OF reads_u32] reads_last) (use Cons.prems IH in \<open>auto simp: x\<close>)
  then show ?case unfolding save_all_nested by (simp add: x del: save_all.simps map_of.simps)
qed (simp add: reads_return)

lemma reads_map:
  assumes "length xs < 2 ^ 64" and "distinct (map fst xs)" and "\<forall>(k, v)\<in>set xs. length k < 2 ^ 64"
  shows "reads_back J (save_map xs) load_map (map_of xs)"
  unfolding save_map_def save_list_def load_map_def
  by (rule reads_bind [OF reads_size [OF assms(1)]], rule reads_last)
    (use reads_map_loop [OF assms(2) _ assms(3), of Map.empty] in simp)

text \<open>Numbers that were never written can be read as well, as long as there are bytes.\<close>

lemma load_word_there:
  assumes "itsConvertEndianness ar = False" and "n \<le> length (itsBytes ar)"
  shows "load_word n ar = Inr (of_nat (le_value (take n (itsBytes ar))), ar\<lparr>itsBytes := drop n (itsBytes ar)\<rparr>)"
  using assms by (simp add: load_word_def bindL_def returnL_def loadBinary_def Let_def)

end
