(* ===== verification/TW_Archive.thy ===== *)
theory TW_Archive
  imports Cereal_Archive TW_Dispatcher Configuration
begin

text \<open>
  The \<open>save\<close> and \<open>load\<close> members of the classes that are written to a checkpoint, in the headers under
  \<open>src/src\<close>. A class with a single \<open>serialize\<close> has one function for each direction here.

  Pointers to events and to LP states point to polymorphic classes, most of them the model's: how they are
  written is a parameter, with the contract \<open>cereal_law\<close>; so are the bytes of a \<open>double\<close>, the text of a
  JSON value and the order in which a hash map is iterated.
\<close>

section \<open>What the archives are used with\<close>

record ('s, 'd, 'w, 'r) cereal_ops =
  ca_save_event :: "event option \<Rightarrow> 'w saver"
  ca_load_event :: "('r, event option) loader"
  ca_save_state :: "'s \<Rightarrow> 'w saver"
  ca_load_state :: "('r, 's) loader"
  ca_save_double :: "'d \<Rightarrow> 'w saver"
  ca_load_double :: "('r, 'd) loader"
  ca_json_text :: "'d json \<Rightarrow> string"
  ca_json_parse :: "string \<Rightarrow> 'd json"
  ca_map_order :: "(string \<rightharpoonup> u32) \<Rightarrow> (string \<times> u32) list"
  ca_pointers_out :: 'w
  ca_pointers_in :: 'r

text \<open>A pointer that is not null.\<close>

definition save_event :: "('s, 'd, 'w, 'r) cereal_ops \<Rightarrow> event \<Rightarrow> 'w saver" where
  "save_event ca e = ca_save_event ca (Some e)"

definition load_event :: "('s, 'd, 'w, 'r) cereal_ops \<Rightarrow> ('r, event) loader" where
  "load_event ca = bindL (ca_load_event ca) (\<lambda>p. case p of Some e \<Rightarrow> returnL e | None \<Rightarrow> failL Null_Deref)"

section \<open>Event set\<close>

definition es_save :: "('s, 'd, 'w, 'r) cereal_ops \<Rightarrow> event list event_set \<Rightarrow> 'w saver" where
  "es_save ca es = save_all
     [save_uint (num_of_lps es),
      save_list (save_unique (save_list (save_event ca))) (input_queue es),
      save_list (save_unique (save_list (save_event ca))) (processed_queue es),
      save_uint (num_of_schedulers es),
      save_list (save_unique (save_list (save_event ca))) (schedule_queue es),
      save_uints (input_queue_scheduler_map es), save_bool (is_lp_migration_on es),
      save_uints (worker_thread_scheduler_map es),
      save_list (ca_save_event ca) (scheduled_event_pointer es)]"

definition es_load :: "('s, 'd, 'w, 'r) cereal_ops \<Rightarrow> event list event_set \<Rightarrow> ('r, event list event_set) loader" where
  "es_load ca es =
     bindL load_uint (\<lambda>lps.
     bindL (load_list (load_unique (load_multiset compareEvents (load_event ca)))) (\<lambda>input.
     bindL (load_list (load_unique (load_list (load_event ca)))) (\<lambda>processed.
     bindL load_uint (\<lambda>schedulers.
     bindL (load_list (load_unique (load_multiset compareEvents (load_event ca)))) (\<lambda>sched.
     bindL load_uints (\<lambda>input_map. bindL load_bool (\<lambda>migration. bindL load_uints (\<lambda>worker_map.
     bindL (load_list (ca_load_event ca)) (\<lambda>pointers.
     returnL (es\<lparr>num_of_lps := lps, input_queue := input, processed_queue := processed,
       num_of_schedulers := schedulers, schedule_queue := sched, input_queue_scheduler_map := input_map,
       is_lp_migration_on := migration, worker_thread_scheduler_map := worker_map,
       scheduled_event_pointer := pointers\<rparr>))))))))))"

section \<open>GVT managers\<close>

fun GVTState_num :: "GVTState \<Rightarrow> i32" where
  "GVTState_num IDLE = 0"
| "GVTState_num LOCAL = 1"
| "GVTState_num GLOBAL = 2"

definition GVTState_of :: "i32 \<Rightarrow> GVTState option" where
  "GVTState_of n = (if n = 0 then Some IDLE else if n = 1 then Some LOCAL else if n = 2 then Some GLOBAL else None)"

fun Color_num :: "Color \<Rightarrow> i32" where
  "Color_num WHITE = 0"
| "Color_num RED = 1"

definition Color_of :: "i32 \<Rightarrow> Color option" where
  "Color_of n = (if n = 0 then Some WHITE else if n = 1 then Some RED else None)"

text \<open>The base class.\<close>

definition gvt_save :: "'a gvt_base_scheme \<Rightarrow> 'w saver" where
  "gvt_save gm = save_all
     [save_u32 (gVT gm), save_time (gvt_start gm), save_time (gvt_stop gm), save_u32 (gvt_period gm),
      save_enum GVTState_num (gvt_state gm), save_u32 (num_worker_threads gm)]"

definition gvt_load :: "'a gvt_base_scheme \<Rightarrow> ('r, 'a gvt_base_scheme) loader" where
  "gvt_load gm =
     bindL load_u32 (\<lambda>gvt. bindL load_time (\<lambda>start. bindL load_time (\<lambda>stop. bindL load_u32 (\<lambda>per.
     bindL (load_enum GVTState_of) (\<lambda>st. bindL load_u32 (\<lambda>threads.
     returnL (gm\<lparr>gVT := gvt, gvt_start := start, gvt_stop := stop, gvt_period := per, gvt_state := st,
       num_worker_threads := threads\<rparr>)))))))"

text \<open>The loops over an array with an entry per thread and one more; an array that is not there is a null pointer.\<close>

definition save_array :: "('a \<Rightarrow> 'w saver) \<Rightarrow> u32 \<Rightarrow> 'a list \<Rightarrow> 'w saver" where
  "save_array sv threads xs = save_all (map (\<lambda>i. sv (xs ! i)) [0..<unat threads + 1])"

definition load_array :: "('r, 'a) loader \<Rightarrow> u32 \<Rightarrow> 'a list \<Rightarrow> ('r, 'a list) loader" where
  "load_array ld threads xs =
     (let n = unat threads + 1
      in if length xs < n then failL Null_Deref
         else bindL (load_n n ld) (\<lambda>ys. returnL (ys @ drop n xs)))"

text \<open>\<open>red_msg_count_\<close> is not among the members that are registered.\<close>

definition mattern_save :: "MatternNodeState \<Rightarrow> 'w saver" where
  "mattern_save s = save_all
     [save_enum Color_num (color s), save_enum Color_num (initial_color s), save_u32 (white_msg_count s),
      save_u32 (min_send_timestamp s), save_u32 (min_recv_timestamp s)]"

definition mattern_load :: "MatternNodeState \<Rightarrow> ('r, MatternNodeState) loader" where
  "mattern_load s =
     bindL (load_enum Color_of) (\<lambda>c. bindL (load_enum Color_of) (\<lambda>ic. bindL load_u32 (\<lambda>white.
     bindL load_u32 (\<lambda>ms. bindL load_u32 (\<lambda>mr.
     returnL (s\<lparr>color := c, initial_color := ic, white_msg_count := white, min_send_timestamp := ms,
       min_recv_timestamp := mr\<rparr>))))))"

definition async_save :: "async_gvt \<Rightarrow> 'w saver" where
  "async_save gm = save_all
     [gvt_save gm, mattern_save (state gm), save_u32 (global_min_clock gm), save_u32 (msg_count gm),
      save_bool (gvt_updated gm), save_bool (started_global_gvt gm), save_u32 (local_gvt_flag gm),
      save_array save_u32 (num_worker_threads gm) (local_min gm),
      save_array save_u32 (num_worker_threads gm) (send_min gm),
      save_array save_bool (num_worker_threads gm) (calculated_min_flag gm),
      save_bool (started_local_gvt gm)]"

text \<open>New arrays are only made when the number of threads is not the one the manager had before.\<close>

definition async_load :: "async_gvt \<Rightarrow> ('r, async_gvt) loader" where
  "async_load gm0 =
     bindL (gvt_load gm0) (\<lambda>gm. bindL (mattern_load (state gm)) (\<lambda>st. bindL load_u32 (\<lambda>clk. bindL load_u32 (\<lambda>cnt.
     bindL load_bool (\<lambda>updated. bindL load_bool (\<lambda>global. bindL load_u32 (\<lambda>flag.
     let n = num_worker_threads gm; fresh = (n \<noteq> num_worker_threads gm0); m = unat n + 1
     in bindL (load_array load_u32 n (if fresh then replicate m 0 else local_min gm)) (\<lambda>lm.
        bindL (load_array load_u32 n (if fresh then replicate m 0 else send_min gm)) (\<lambda>sm.
        bindL (load_array load_bool n (if fresh then replicate m False else calculated_min_flag gm)) (\<lambda>cm.
        bindL load_bool (\<lambda>loc.
        returnL (gm\<lparr>state := st, global_min_clock := clk, msg_count := cnt, gvt_updated := updated,
          started_global_gvt := global, local_gvt_flag := flag, local_min := lm, send_min := sm,
          calculated_min_flag := cm, started_local_gvt := loc\<rparr>))))))))))))"

definition sync_save :: "sync_gvt \<Rightarrow> 'w saver" where
  "sync_save gm = save_all
     [gvt_save gm, save_bool (sync_updated gm), save_u64 (sync_white_count gm),
      save_enum Color_num (sync_color gm), save_u32 (sync_flag gm),
      save_array save_u32 (num_worker_threads gm) (sync_local_min gm),
      save_array save_u32 (num_worker_threads gm) (sync_send_min gm), save_u32 (recv_min gm)]"

text \<open>\<open>gvt_updated_\<close> is written, but not read.\<close>

definition sync_load :: "sync_gvt \<Rightarrow> ('r, sync_gvt) loader" where
  "sync_load gm0 =
     bindL (gvt_load gm0) (\<lambda>gm. bindL load_u64 (\<lambda>white. bindL (load_enum Color_of) (\<lambda>c. bindL load_u32 (\<lambda>flag.
     let n = num_worker_threads gm; fresh = (n \<noteq> num_worker_threads gm0); m = unat n + 1
     in bindL (load_array load_u32 n (if fresh then replicate m 0 else sync_local_min gm)) (\<lambda>lm.
        bindL (load_array load_u32 n (if fresh then replicate m 0 else sync_send_min gm)) (\<lambda>sm.
        bindL load_u32 (\<lambda>rm.
        returnL (gm\<lparr>sync_white_count := white, sync_color := c, sync_flag := flag, sync_local_min := lm,
          sync_send_min := sm, recv_min := rm\<rparr>))))))))"

section \<open>State and output managers\<close>

definition saved_state_save :: "('s, 'd, 'w, 'r) cereal_ops \<Rightarrow> 's SavedState \<Rightarrow> 'w saver" where
  "saved_state_save ca s = save_all
     [save_event ca (state_event s), ca_save_state ca (saved_lp_state s), save_size (length (rng_state s)),
      save_all (map save_string (rng_state s))]"

definition saved_state_load :: "('s, 'd, 'w, 'r) cereal_ops \<Rightarrow> ('r, 's SavedState) loader" where
  "saved_state_load ca =
     bindL (load_event ca) (\<lambda>e. bindL (ca_load_state ca) (\<lambda>s. bindL load_size (\<lambda>n. bindL (load_n n load_string) (\<lambda>rs.
     returnL \<lparr>state_event = e, saved_lp_state = s, rng_state = rs\<rparr>))))"

text \<open>\<open>TimeWarpStateManager\<close>. Its \<open>load\<close> calls \<open>initialize\<close>, which is virtual: the periodic manager's.\<close>

definition sm_save :: "('s, 'd, 'w, 'r) cereal_ops \<Rightarrow> 's state_manager \<Rightarrow> 'w saver" where
  "sm_save ca sm = save_all
     [save_uint (sm_num_local_lps sm),
      save_all (map (\<lambda>i. save_list (saved_state_save ca) (state_queue sm ! i)) [0..<sm_num_local_lps sm])]"

definition sm_load :: "('s, 'd, 'w, 'r) cereal_ops \<Rightarrow> 's state_manager \<Rightarrow> ('r, 's state_manager) loader" where
  "sm_load ca sm =
     bindL load_uint (\<lambda>n. bindL (load_n n (load_list (saved_state_load ca))) (\<lambda>qs.
     returnL ((sm_initialize n sm)\<lparr>state_queue := qs\<rparr>)))"

text \<open>\<open>TimeWarpPeriodicStateManager\<close>.\<close>

definition periodic_save :: "('s, 'd, 'w, 'r) cereal_ops \<Rightarrow> 's state_manager \<Rightarrow> 'w saver" where
  "periodic_save ca sm = save_all
     [save_u32 (period sm), sm_save ca sm, save_uint (sm_num_local_lps sm),
      save_all (map (\<lambda>i. save_u32 (count sm ! i)) [0..<sm_num_local_lps sm])]"

text \<open>The second call of \<open>initialize\<close> makes new state queues, after the base class has loaded them.\<close>

definition periodic_load :: "('s, 'd, 'w, 'r) cereal_ops \<Rightarrow> 's state_manager \<Rightarrow> ('r, 's state_manager) loader" where
  "periodic_load ca sm0 =
     bindL load_u32 (\<lambda>per. bindL (sm_load ca (sm0\<lparr>period := per\<rparr>)) (\<lambda>sm. bindL load_uint (\<lambda>n.
     bindL (load_n n load_u32) (\<lambda>cs. returnL ((sm_initialize n sm)\<lparr>count := cs\<rparr>)))))"

definition om_save :: "('s, 'd, 'w, 'r) cereal_ops \<Rightarrow> output_manager \<Rightarrow> 'w saver" where
  "om_save ca om = save_all
     [save_uint (om_num_local_lps om),
      save_all (map (\<lambda>i. save_list (\<lambda>o1. save_all [save_event ca (input_event o1), save_event ca (output_event o1)])
        (output_queue om ! i)) [0..<om_num_local_lps om])]"

definition om_load :: "('s, 'd, 'w, 'r) cereal_ops \<Rightarrow> ('r, output_manager) loader" where
  "om_load ca =
     bindL load_uint (\<lambda>n.
     bindL (load_n n (load_list (bindL (load_event ca) (\<lambda>ie. bindL (load_event ca) (\<lambda>oe.
       returnL \<lparr>input_event = ie, output_event = oe\<rparr>))))) (\<lambda>qs.
     returnL ((om_initialize n)\<lparr>output_queue := qs\<rparr>)))"

section \<open>Termination manager and statistics\<close>

fun State_num :: "State \<Rightarrow> i32" where
  "State_num ACTIVE = 0"
| "State_num PASSIVE = 1"

definition State_of :: "i32 \<Rightarrow> State option" where
  "State_of n = (if n = 0 then Some ACTIVE else if n = 1 then Some PASSIVE else None)"

fun TerminationStatus_num :: "TerminationStatus \<Rightarrow> i32" where
  "TerminationStatus_num TS_NOT_TERMINATED = - 1"
| "TerminationStatus_num TS_NORMAL = 0"
| "TerminationStatus_num TS_PAUSED = 1"
| "TerminationStatus_num TS_ERROR = 666"

definition TerminationStatus_of :: "i32 \<Rightarrow> TerminationStatus option" where
  "TerminationStatus_of n = (if n = - 1 then Some TS_NOT_TERMINATED else if n = 0 then Some TS_NORMAL
     else if n = 1 then Some TS_PAUSED else if n = 666 then Some TS_ERROR else None)"

definition tm_save :: "termination_manager \<Rightarrow> 'w saver" where
  "tm_save tm = save_all
     [save_enum State_num (tm_state tm), save_enum State_num (sticky_state tm), save_u32 (tm_msg_count tm),
      save_bool (is_master tm), save_enum TerminationStatus_num (terminate tm), save_u32 (tm_num_threads tm),
      save_all (map (\<lambda>i. save_enum State_num (state_by_thread tm ! i)) [0..<unat (tm_num_threads tm)]),
      save_u32 (active_thread_count tm)]"

definition tm_load :: "termination_manager \<Rightarrow> ('r, termination_manager) loader" where
  "tm_load tm =
     bindL (load_enum State_of) (\<lambda>st. bindL (load_enum State_of) (\<lambda>sticky. bindL load_u32 (\<lambda>cnt.
     bindL load_bool (\<lambda>master. bindL (load_enum TerminationStatus_of) (\<lambda>ts. bindL load_u32 (\<lambda>n.
     bindL (load_n (unat n) (load_enum State_of)) (\<lambda>states. bindL load_u32 (\<lambda>active.
     returnL (tm\<lparr>tm_state := st, sticky_state := sticky, tm_msg_count := cnt, is_master := master,
       terminate := ts, tm_num_threads := n, state_by_thread := states, active_thread_count := active\<rparr>)))))))))"

text \<open>The tuple of \<open>Stats\<close> is written from its last entry to the first; the last is a dummy, which is 0.\<close>

definition stats_entries :: "(stat + double_stat) list" where
  "stats_entries =
     [Inl TOTAL_REJUVENATION, Inr REJUVENATION_TIME, Inr CHECKPOINT_LOAD_TIME, Inr CHECKPOINT_SAVE_TIME,
      Inr CHECKPOINT_SIZE, Inl TOTAL_CHECKPOINTS, Inr RECOVERY_TIME, Inr ROLLBACK_TIME, Inr POSITIVE_TIME,
      Inr EFFICIENCY, Inr AVERAGE_RBLENGTH, Inl EVENTS_ROLLEDBACK, Inl NUM_OBJECTS, Inl GVT_CYCLES,
      Inl AVERAGE_MAX_MEMORY, Inl TOTAL_EVENTS_RECEIVED, Inl CANCELLED_EVENTS, Inl TOTAL_NEGATIVE_EVENTS,
      Inl EVENTS_COMMITTED, Inl EVENTS_PROCESSED, Inl COAST_FORWARDED_EVENTS, Inl TOTAL_ROLLBACKS,
      Inl SECONDARY_ROLLBACKS, Inl PRIMARY_ROLLBACKS, Inr PERCENT_REMOTE, Inl TOTAL_EVENTS_SENT,
      Inl REMOTE_NEGATIVE_EVENTS_SENT, Inl LOCAL_NEGATIVE_EVENTS_SENT, Inl REMOTE_POSITIVE_EVENTS_SENT,
      Inl LOCAL_POSITIVE_EVENTS_SENT]"

fun entry_save :: "('s, 'd, 'w, 'r) cereal_ops \<Rightarrow> 'd Stats \<Rightarrow> stat + double_stat \<Rightarrow> 'w saver" where
  "entry_save ca s (Inl i) = save_u64 (counts s i)"
| "entry_save ca s (Inr i) = ca_save_double ca (doubles s i)"

fun entries_load :: "('s, 'd, 'w, 'r) cereal_ops \<Rightarrow> (stat + double_stat) list \<Rightarrow> 'd Stats \<Rightarrow> ('r, 'd Stats) loader" where
  "entries_load ca [] s = returnL s"
| "entries_load ca (Inl i # es) s = bindL load_u64 (\<lambda>n. entries_load ca es (s\<lparr>counts := (counts s)(i := n)\<rparr>))"
| "entries_load ca (Inr i # es) s =
     bindL (ca_load_double ca) (\<lambda>x. entries_load ca es (s\<lparr>doubles := (doubles s)(i := x)\<rparr>))"

definition Stats_save :: "('s, 'd, 'w, 'r) cereal_ops \<Rightarrow> 'd Stats \<Rightarrow> 'w saver" where
  "Stats_save ca s = save_all [save_u64 0, save_all (map (entry_save ca s) stats_entries)]"

definition Stats_load :: "('s, 'd, 'w, 'r) cereal_ops \<Rightarrow> 'd Stats \<Rightarrow> ('r, 'd Stats) loader" where
  "Stats_load ca s = bindL load_u64 (\<lambda>_. entries_load ca stats_entries s)"

text \<open>\<open>file\<close> is \<open>stats_file_\<close>, which is loaded together with the statistics. The arrays over the nodes are not saved.\<close>

definition st_save :: "('s, 'd, 'w, 'r) cereal_ops \<Rightarrow> string \<Rightarrow> 'd tw_statistics \<Rightarrow> 'w saver" where
  "st_save ca file st = save_all
     [save_string file, save_u32 (st_num_threads st), Stats_save ca (global_stats st),
      save_all (map (\<lambda>i. Stats_save ca (local_stats st ! i)) [0..<unat (st_num_threads st) + 1])]"

definition st_load :: "('s, 'd, 'w, 'r) cereal_ops \<Rightarrow> 'd double_ops \<Rightarrow> 'd tw_statistics \<Rightarrow>
    ('r, string \<times> 'd tw_statistics) loader" where
  "st_load ca d st =
     bindL load_string (\<lambda>file. bindL load_u32 (\<lambda>n. bindL (Stats_load ca (global_stats st)) (\<lambda>g.
     bindL (load_n (unat n + 1) (Stats_load ca (no_stats d))) (\<lambda>ls.
     returnL (file, (st_initialize d n 0 st)\<lparr>global_stats := g, local_stats := ls\<rparr>)))))"

section \<open>Configuration, communication manager, LPs\<close>

definition comm_save :: "('s, 'd, 'w, 'r) cereal_ops \<Rightarrow> 'h comm \<Rightarrow> 'w saver" where
  "comm_save ca c = save_map (ca_map_order ca (node_id_by_lp_name c))"

definition comm_load :: "'h comm \<Rightarrow> ('r, 'h comm) loader" where
  "comm_load c = bindL load_map (\<lambda>m. returnL (c\<lparr>node_id_by_lp_name := m\<rparr>))"

text \<open>\<open>json\<close> is the JSON value to which \<open>root_\<close> points.\<close>

definition config_save :: "('s, 'd, 'w, 'r) cereal_ops \<Rightarrow> 'd configuration \<Rightarrow> 'd json \<Rightarrow> 'w saver" where
  "config_save ca cf json = save_all
     [save_string (config_file_name cf), save_u32 (cf_max_sim_time cf), save_string (ca_json_text ca json)]"

definition config_load :: "('s, 'd, 'w, 'r) cereal_ops \<Rightarrow> 'd configuration \<Rightarrow> ('r, 'd configuration) loader" where
  "config_load ca cf =
     bindL load_string (\<lambda>file. bindL load_u32 (\<lambda>t. bindL load_string (\<lambda>json.
     returnL (cf\<lparr>config_file_name := file, cf_max_sim_time := t, cf_root := Some (ca_json_parse ca json)\<rparr>))))"

text \<open>The random number generators are left out, and the name that is read is dropped.\<close>

definition lp_save :: "('s, 'd, 'w, 'r) cereal_ops \<Rightarrow> ('s, 'g) lp \<Rightarrow> 'w saver" where
  "lp_save ca lp = save_all
     [save_string (name lp), save_u32 (last_fossil_collect_gvt lp), save_u64 (lp_generation lp),
      ca_save_state ca (lp_state lp)]"

definition lp_load :: "('s, 'd, 'w, 'r) cereal_ops \<Rightarrow> ('s, 'g) lp_ops \<Rightarrow> ('s, 'g) lp \<Rightarrow> ('r, ('s, 'g) lp) loader" where
  "lp_load ca ops lp =
     bindL load_string (\<lambda>_. bindL load_u32 (\<lambda>lfc. bindL load_u64 (\<lambda>gen. bindL (ca_load_state ca) (\<lambda>s.
     returnL (lp\<lparr>last_fossil_collect_gvt := lfc, lp_generation := gen,
       lp_state := fst (LPState_restoreState ops s)\<rparr>)))))"

end
