(* ===== verification/TW_Restart.thy ===== *)
theory TW_Restart
  imports TW_Archive
begin

text \<open>
  Writing a checkpoint (\<open>TimeWarpCheckpointManager::generateCheckpoint\<close>) and restarting from one
  (\<open>Simulation::restart\<close>, \<open>TimeWarpEventDispatcher::restart\<close>).

  A file is a list of bytes. Files, the dispatcher that \<open>makeDispatcher\<close> builds from a configuration and the
  durations that are measured are parameters. The managers are passed to the archive as references to
  their base classes, and \<open>save\<close> and \<open>load\<close> are not virtual: of a GVT manager only the base class is written and read.
\<close>

section \<open>Writing\<close>

text \<open>What the master thread has at hand.\<close>

definition managers_save :: "('s, 'd, 'w, 'r) cereal_ops \<Rightarrow> string \<Rightarrow>
    ('s, 'g, event list, 'a gvt_base_scheme, 'd) dispatcher \<Rightarrow> 'w saver" where
  "managers_save ca stats_file nd = save_all
     [es_save ca (d_es nd), gvt_save (d_gvt nd), sm_save ca (d_sm nd), om_save ca (d_om nd), tm_save (d_tm nd),
      st_save ca stats_file (d_stats nd)]"

definition checkpoint_file :: "('s, 'd, 'w, 'r) cereal_ops \<Rightarrow> int \<Rightarrow> 'd configuration \<Rightarrow> string \<Rightarrow>
    ('s, 'g, event list, 'a gvt_base_scheme, 'd) dispatcher \<Rightarrow> byte list res" where
  "checkpoint_file ca now cf stats_file nd =
     (case cf_root cf of
        None \<Rightarrow> Inl Null_Deref
      | Some json \<Rightarrow>
          (let (header, w) = output_archive (ca_pointers_out ca);
               (bs, _) = save_all [save_time now, config_save ca cf json, comm_save ca (d_comm nd),
                  managers_save ca stats_file nd, save_all (map (lp_save ca) (d_lps nd))] w
           in Inr (header @ bs)))"

section \<open>Reading\<close>

fun lps_load :: "('s, 'd, 'w, 'r) cereal_ops \<Rightarrow> ('s, 'g) lp_ops \<Rightarrow> ('s, 'g) lp list \<Rightarrow> ('r, ('s, 'g) lp list) loader" where
  "lps_load ca ops [] = returnL []"
| "lps_load ca ops (lp # lps) = bindL (lp_load ca ops lp) (\<lambda>lp'. bindL (lps_load ca ops lps) (\<lambda>lps'. returnL (lp' # lps')))"

text \<open>The first part of \<open>TimeWarpEventDispatcher::restart\<close>: the managers, then the LPs in the order in which they are given.\<close>

definition d_load :: "('s, 'd, 'w, 'r) cereal_ops \<Rightarrow> ('s, 'g, event list, 'a gvt_base_scheme, 'd) config \<Rightarrow> ('s, 'g) lp list \<Rightarrow>
    ('s, 'g, event list, 'a gvt_base_scheme, 'd) dispatcher \<Rightarrow>
    ('r, ('s, 'g, event list, 'a gvt_base_scheme, 'd) dispatcher) loader" where
  "d_load ca cfg lps nd =
     bindL (es_load ca (d_es nd)) (\<lambda>es. bindL (gvt_load (d_gvt nd)) (\<lambda>gm. bindL (sm_load ca (d_sm nd)) (\<lambda>sm.
     bindL (om_load ca) (\<lambda>om. bindL (tm_load (d_tm nd)) (\<lambda>tm. bindL (st_load ca (c_dbl cfg) (d_stats nd)) (\<lambda>(file, st).
     bindL (lps_load ca (c_lp cfg) lps) (\<lambda>lps'.
     returnL (nd\<lparr>d_es := es, d_gvt := gm, d_sm := sm, d_om := om, d_tm := tm, d_stats := st, d_lps := lps',
       lps_by_name := fold (\<lambda>(k, lp) mp. mp(name lp \<mapsto> k)) (zip [0..<length lps] lps) (lps_by_name nd),
       local_lp_id_by_name :=
         fold (\<lambda>(k, lp) mp. mp(name lp \<mapsto> k)) (zip [0..<length lps] lps) (local_lp_id_by_name nd)\<rparr>))))))))"

text \<open>The rest of it. The threads and the loop of the master are in a block that is not compiled (\<open>#if 0\<close>), \<open>status\<close> is
  \<open>TS_NORMAL\<close> from the start. \<open>n\<close> is \<open>num_local_lps_\<close>, which nothing has set, and \<open>thread_id\<close> is still 0. Where \<open>n\<close> is
  more than the number of queues, the code reads past the end of the queues, which is undefined; the definition is the code
  only for an \<open>n\<close> within them.\<close>

definition d_restart :: "('s, 'd, 'w, 'r) cereal_ops \<Rightarrow> ('s, 'g, event list, 'a gvt_base_scheme, 'd) config \<Rightarrow> nat \<Rightarrow>
    (stat \<Rightarrow> u64 list) \<Rightarrow> (double_stat \<Rightarrow> 'd list) \<Rightarrow> 'd \<Rightarrow> 'd \<Rightarrow> ('s, 'g) lp list \<Rightarrow> 'r iarchive \<Rightarrow>
    ('s, 'g, event list, 'a gvt_base_scheme, 'd) dispatcher \<Rightarrow>
    (TerminationStatus \<times> ('s, 'g, event list, 'a gvt_base_scheme, 'd) dispatcher) res" where
  "d_restart ca cfg n others dothers load_sec rejuv_sec lps ar nd =
     bindR (d_load ca cfg lps nd ar) (\<lambda>(nd1, _).
     let st = updateAverage_double (c_dbl cfg) REJUVENATION_TIME rejuv_sec 1
                (updateAverage_double (c_dbl cfg) CHECKPOINT_LOAD_TIME load_sec 1 (d_stats nd1));
         nd2 = final_commit 0 [0..<n] (nd1\<lparr>d_stats := st\<rparr>)
     in Inr (TS_NORMAL, nd2\<lparr>d_stats := calculateStats (c_dbl cfg) others dothers (d_stats nd2)\<rparr>))"

text \<open>\<open>Simulation::restart\<close>. \<open>files\<close> gives the content of a file that can be opened, \<open>file\<close> is the setting, \<open>make_dispatcher\<close> is
  \<open>makeDispatcher\<close> for the configuration and the communication manager that have been read. The call of \<open>finalize\<close> at its end
  is in \<open>TW_Simulate\<close>.\<close>

definition checkpoint_filename :: "string \<Rightarrow> nat \<Rightarrow> string" where
  "checkpoint_filename file node = (if file = [] then ''checkpoint'' else file) @ ''.'' @ show_nat node"

definition sim_restart :: "('s, 'd, 'w, 'r) cereal_ops \<Rightarrow> ('s, 'g, event list, 'a gvt_base_scheme, 'd) config \<Rightarrow>
    (string \<rightharpoonup> byte list) \<Rightarrow>
    ('d configuration \<Rightarrow> unit comm \<Rightarrow> ('s, 'g, event list, 'a gvt_base_scheme, 'd) dispatcher res) \<Rightarrow>
    nat \<Rightarrow> (stat \<Rightarrow> u64 list) \<Rightarrow> (double_stat \<Rightarrow> 'd list) \<Rightarrow> 'd \<Rightarrow> (int \<Rightarrow> 'd) \<Rightarrow>
    'd configuration \<Rightarrow> string \<Rightarrow> unit comm \<Rightarrow> ('s, 'g) lp list \<Rightarrow>
    (TerminationStatus \<times> ('s, 'g, event list, 'a gvt_base_scheme, 'd) dispatcher) res" where
  "sim_restart ca cfg files make_dispatcher n others dothers load_sec rejuv_sec cf file comm lps =
     bindR (input_archive (ca_pointers_in ca) (case files (checkpoint_filename file (my_rank comm)) of Some bs \<Rightarrow> bs | None \<Rightarrow> []))
       (\<lambda>ar.
     bindR (load_time ar) (\<lambda>(saved, ar). bindR (config_load ca cf ar) (\<lambda>(cf', ar). bindR (comm_load comm ar) (\<lambda>(comm', ar).
     bindR (make_dispatcher cf' comm') (\<lambda>nd. d_restart ca cfg n others dothers load_sec (rejuv_sec saved) lps ar nd)))))"

end
