(* ===== verification/TW_Restart_Props.thy ===== *)
theory TW_Restart_Props
  imports TW_Restart Partitioners
begin

text \<open>
  What a restart finds in a checkpoint, and what it does with it.
\<close>

section \<open>Contract of the archive library, and what fits\<close>

text \<open>Each object has one address: \<open>E\<close> are the events of the node, so that a pointer stands for one event.\<close>

definition cereal_law :: "('s, 'd, 'w, 'r) cereal_ops \<Rightarrow> ('w \<Rightarrow> 'r \<Rightarrow> bool) \<Rightarrow> event set \<Rightarrow> bool" where
  "cereal_law ca J E \<longleftrightarrow> J (ca_pointers_out ca) (ca_pointers_in ca) \<and>
     (\<forall>p. set_option p \<subseteq> E \<longrightarrow> reads_back J (ca_save_event ca p) (ca_load_event ca) p) \<and>
     (\<forall>s. reads_back J (ca_save_state ca s) (ca_load_state ca) s) \<and>
     (\<forall>x. reads_back J (ca_save_double ca x) (ca_load_double ca) x) \<and>
     (\<forall>m. finite (dom m) \<longrightarrow> map_of (ca_map_order ca m) = m \<and> distinct (map fst (ca_map_order ca m)))"

definition short :: "'a list \<Rightarrow> bool" where
  "short xs \<longleftrightarrow> length xs < 2 ^ 64"

definition es_fits :: "event set \<Rightarrow> event list event_set \<Rightarrow> bool" where
  "es_fits E es \<longleftrightarrow> num_of_lps es < 2 ^ 32 \<and> num_of_schedulers es < 2 ^ 32 \<and>
     (\<forall>n\<in>{length (input_queue es), length (processed_queue es), length (schedule_queue es),
       length (input_queue_scheduler_map es), length (worker_thread_scheduler_map es),
       length (scheduled_event_pointer es)}. n < 2 ^ 64) \<and>
     (\<forall>n\<in>set (input_queue_scheduler_map es) \<union> set (worker_thread_scheduler_map es). n < 2 ^ 32) \<and>
     (\<forall>q\<in>set (input_queue es) \<union> set (processed_queue es) \<union> set (schedule_queue es). short q \<and> set q \<subseteq> E) \<and>
     (\<forall>q\<in>set (input_queue es) \<union> set (schedule_queue es). sorted_wrt compareEvents q) \<and>
     (\<forall>p\<in>set (scheduled_event_pointer es). set_option p \<subseteq> E)"

definition gvt_fits :: "'a gvt_base_scheme \<Rightarrow> bool" where
  "gvt_fits gm \<longleftrightarrow> - (2 ^ 63) \<le> gvt_start gm \<and> gvt_start gm < 2 ^ 63 \<and> - (2 ^ 63) \<le> gvt_stop gm \<and> gvt_stop gm < 2 ^ 63"

definition sm_fits :: "event set \<Rightarrow> 's state_manager \<Rightarrow> bool" where
  "sm_fits E sm \<longleftrightarrow> sm_num_local_lps sm = length (state_queue sm) \<and> length (state_queue sm) < 2 ^ 32 \<and>
     (\<forall>q\<in>set (state_queue sm). short q \<and> (\<forall>s\<in>set q. state_event s \<in> E \<and> short (rng_state s) \<and> (\<forall>r\<in>set (rng_state s). short r)))"

definition om_fits :: "event set \<Rightarrow> output_manager \<Rightarrow> bool" where
  "om_fits E om \<longleftrightarrow> om_num_local_lps om = length (output_queue om) \<and> length (output_queue om) < 2 ^ 32 \<and>
     (\<forall>q\<in>set (output_queue om). short q \<and> (\<forall>x\<in>set q. input_event x \<in> E \<and> output_event x \<in> E))"

definition d_fits :: "event set \<Rightarrow> ('s, 'g, event list, 'a gvt_base_scheme, 'd) dispatcher \<Rightarrow> bool" where
  "d_fits E nd \<longleftrightarrow> es_fits E (d_es nd) \<and> gvt_fits (d_gvt nd) \<and> sm_fits E (d_sm nd) \<and> om_fits E (d_om nd) \<and>
     length (state_by_thread (d_tm nd)) = unat (tm_num_threads (d_tm nd)) \<and>
     length (local_stats (d_stats nd)) = unat (st_num_threads (d_stats nd)) + 1 \<and>
     finite (dom (node_id_by_lp_name (d_comm nd))) \<and> (\<forall>lp\<in>set (d_lps nd). short (name lp))"

section \<open>The managers come back\<close>

lemma lawD:
  assumes "cereal_law ca J E"
  shows "J (ca_pointers_out ca) (ca_pointers_in ca)"
    "set_option p \<subseteq> E \<Longrightarrow> reads_back J (ca_save_event ca p) (ca_load_event ca) p"
    "reads_back J (ca_save_state ca s) (ca_load_state ca) s"
    "reads_back J (ca_save_double ca x) (ca_load_double ca) x"
    "finite (dom m) \<Longrightarrow> map_of (ca_map_order ca m) = m"
    "finite (dom m) \<Longrightarrow> distinct (map fst (ca_map_order ca m))"
  using assms by (simp_all add: cereal_law_def)

lemma reads_event:
  assumes "cereal_law ca J E" and "e \<in> E"
  shows "reads_back J (save_event ca e) (load_event ca) e"
  unfolding save_event_def load_event_def
  by (rule reads_single, rule reads_bind [OF lawD(2) [OF assms(1)]]) (simp_all add: assms(2) reads_return)

lemma compareEvents_asym: "compareEvents a b \<Longrightarrow> \<not> compareEvents b a"
  by (simp add: compareEvents_key)

lemma reads_es:
  assumes law: "cereal_law ca J E" and fits: "es_fits E es"
  shows "reads_back J (es_save ca es) (es_load ca es0) (es\<lparr>input_queue_lock := input_queue_lock es0\<rparr>)"
proof -
  note D = fits [unfolded es_fits_def short_def]
  have multi: "reads_back J (save_list (save_unique (save_list (save_event ca))) qs)
      (load_list (load_unique (load_multiset compareEvents (load_event ca)))) qs"
    if "qs = input_queue es \<or> qs = schedule_queue es" for qs
    using that D by (intro reads_list reads_unique reads_multiset reads_event [OF law] compareEvents_asym) auto
  have deq: "reads_back J (save_list (save_unique (save_list (save_event ca))) (processed_queue es))
      (load_list (load_unique (load_list (load_event ca)))) (processed_queue es)"
    using D by (intro reads_list reads_unique reads_event [OF law]) auto
  have ptr: "reads_back J (save_list (ca_save_event ca) (scheduled_event_pointer es)) (load_list (ca_load_event ca))
      (scheduled_event_pointer es)"
    using D by (intro reads_list lawD(2) [OF law]) auto
  show ?thesis unfolding es_save_def es_load_def
    using D by (intro reads_bind [OF reads_uint] reads_bind [OF multi] reads_bind [OF deq] reads_bind [OF reads_uints]
        reads_bind [OF reads_bool] reads_bind [OF ptr] reads_return) auto
qed

lemma GVTState_of_num [simp]: "GVTState_of (GVTState_num s) = Some s"
  by (cases s) (simp_all add: GVTState_of_def)

lemma Color_of_num [simp]: "Color_of (Color_num c) = Some c"
  by (cases c) (simp_all add: Color_of_def)

lemma State_of_num [simp]: "State_of (State_num s) = Some s"
  by (cases s) (simp_all add: State_of_def)

lemma TerminationStatus_of_num [simp]: "TerminationStatus_of (TerminationStatus_num s) = Some s"
  by (cases s) (simp_all add: TerminationStatus_of_def)

lemma reads_gvt:
  assumes "gvt_fits gm"
  shows "reads_back J (gvt_save gm) (gvt_load gm0)
    (gm0\<lparr>gVT := gVT gm, gvt_start := gvt_start gm, gvt_stop := gvt_stop gm, gvt_period := gvt_period gm,
      gvt_state := gvt_state gm, num_worker_threads := num_worker_threads gm\<rparr>)"
  unfolding gvt_save_def gvt_load_def
  using assms by (intro reads_bind [OF reads_u32] reads_bind [OF reads_time] reads_bind [OF reads_enum] reads_return)
    (simp_all add: gvt_fits_def)

lemma reads_indexed:
  assumes "n = length xs" and "\<And>x. x \<in> set xs \<Longrightarrow> reads_back J (sv x) ld x"
  shows "reads_back J (save_all (map (\<lambda>i. sv (xs ! i)) [0..<n])) (load_n n ld) xs"
proof -
  have "map (\<lambda>i. sv (xs ! i)) [0..<n] = map sv xs"
    unfolding assms(1) by (rule nth_equalityI) simp_all
  then show ?thesis using reads_n [OF assms(2)] by (simp only: assms(1))
qed

lemma reads_queues:
  assumes "n = length qs" and "\<And>q. q \<in> set qs \<Longrightarrow> short q" and "\<And>q x. q \<in> set qs \<Longrightarrow> x \<in> set q \<Longrightarrow> reads_back J (sv x) ld x"
  shows "reads_back J (save_all (map (\<lambda>i. save_list sv (qs ! i)) [0..<n])) (load_n n (load_list ld)) qs"
  by (rule reads_indexed [OF assms(1)], rule reads_list) (use assms(2,3) in \<open>auto simp: short_def\<close>)

lemma reads_sm:
  assumes law: "cereal_law ca J E" and fits: "sm_fits E sm"
  shows "reads_back J (sm_save ca sm) (sm_load ca sm0)
    ((sm_initialize (sm_num_local_lps sm) sm0)\<lparr>state_queue := state_queue sm\<rparr>)"
proof -
  have one: "reads_back J (saved_state_save ca s) (saved_state_load ca) s" if "q \<in> set (state_queue sm)" "s \<in> set q" for q s
    unfolding saved_state_save_def saved_state_load_def
    using fits that by (intro reads_bind [OF reads_event [OF law]] reads_bind [OF lawD(3) [OF law]] reads_bind [OF reads_size]
        reads_bind [OF reads_n] reads_string reads_return) (auto simp: sm_fits_def short_def)
  show ?thesis unfolding sm_save_def sm_load_def
    using fits by (intro reads_bind [OF reads_uint] reads_bind [OF reads_queues] reads_return one) (auto simp: sm_fits_def)
qed

lemma reads_om:
  assumes law: "cereal_law ca J E" and fits: "om_fits E om"
  shows "reads_back J (om_save ca om) (om_load ca) om"
proof -
  have one: "reads_back J (save_all [save_event ca (input_event x), save_event ca (output_event x)])
      (bindL (load_event ca) (\<lambda>ie. bindL (load_event ca) (\<lambda>oe. returnL \<lparr>input_event = ie, output_event = oe\<rparr>))) x"
    if "q \<in> set (output_queue om)" "x \<in> set q" for q x
    using fits that by (intro reads_bind [OF reads_event [OF law]] reads_return) (auto simp: om_fits_def)
  show ?thesis unfolding om_save_def om_load_def
    using fits by (intro reads_bind [OF reads_uint] reads_bind [OF reads_queues] reads_return one)
      (auto simp: om_fits_def om_initialize_def)
qed

lemma reads_tm:
  assumes "length (state_by_thread tm) = unat (tm_num_threads tm)"
  shows "reads_back J (tm_save tm) (tm_load tm0) tm"
  unfolding tm_save_def tm_load_def
  by (intro reads_bind [OF reads_u32] reads_bind [OF reads_bool] reads_bind [OF reads_enum]
      reads_bind [OF reads_indexed] reads_enum reads_return) (simp_all add: assms)

lemma reads_entries:
  assumes law: "cereal_law ca J E"
  shows "reads_back J (save_all (map (entry_save ca s) es)) (entries_load ca es s0)
    (s0\<lparr>counts := (\<lambda>i. if Inl i \<in> set es then counts s i else counts s0 i),
       doubles := (\<lambda>i. if Inr i \<in> set es then doubles s i else doubles s0 i)\<rparr>)"
proof (induction es arbitrary: s0)
  case (Cons x es)
  show ?case
  proof (cases x)
    case (Inl i)
    show ?thesis unfolding Inl list.map entries_load.simps entry_save.simps
      by (rule reads_bind [OF reads_u64], rule back_subst [of "reads_back J _ _", OF Cons.IH]) (auto simp: fun_eq_iff)
  next
    case (Inr i)
    show ?thesis unfolding Inr list.map entries_load.simps entry_save.simps
      by (rule reads_bind [OF lawD(4) [OF law]], rule back_subst [of "reads_back J _ _", OF Cons.IH]) (auto simp: fun_eq_iff)
  qed
qed (simp add: reads_return)

lemma all_entries: "Inl i \<in> set stats_entries" "Inr j \<in> set stats_entries"
  by (cases i; simp add: stats_entries_def) (cases j; simp add: stats_entries_def)

lemma reads_Stats:
  assumes "cereal_law ca J E"
  shows "reads_back J (Stats_save ca s) (Stats_load ca s0) s"
proof -
  have "reads_back J (save_all (map (entry_save ca s) stats_entries)) (entries_load ca stats_entries s0) s"
    by (rule back_subst [of "reads_back J _ _", OF reads_entries [OF assms]]) (simp add: all_entries)
  then show ?thesis unfolding Stats_save_def Stats_load_def
    by (intro reads_bind [OF reads_u64] reads_last)
qed

lemma reads_st:
  assumes law: "cereal_law ca J E" and n: "length (local_stats st) = unat (st_num_threads st) + 1" and fl: "short file"
  shows "reads_back J (st_save ca file st) (st_load ca d st0) (file, st)"
  unfolding st_save_def st_load_def
  using fl by (intro reads_bind [OF reads_string] reads_bind [OF reads_u32] reads_bind [OF reads_Stats [OF law]]
      reads_bind [OF reads_indexed] reads_Stats [OF law] reads_return) (simp_all add: n short_def st_initialize_def Let_def)

text \<open>The \<open>save\<close> and \<open>load\<close> of the derived classes, which no checkpoint uses: the periodic state manager comes back
  without its states, since \<open>initialize\<close> is called once more, and the asynchronous GVT manager without its count of
  red messages.\<close>

lemma reads_periodic:
  assumes law: "cereal_law ca J E" and fits: "sm_fits E sm" and n: "length (count sm) = sm_num_local_lps sm"
  shows "reads_back J (periodic_save ca sm) (periodic_load ca sm0)
    (sm0\<lparr>period := period sm, sm_num_local_lps := sm_num_local_lps sm, count := count sm,
      state_queue := replicate (sm_num_local_lps sm) []\<rparr>)"
  unfolding periodic_save_def periodic_load_def
  using fits by (intro reads_bind [OF reads_u32] reads_bind [OF reads_sm [OF law fits]] reads_bind [OF reads_uint]
      reads_bind [OF reads_indexed [OF n [symmetric]]] reads_u32 reads_return) (simp_all add: sm_fits_def sm_initialize_def)

lemma reads_array:
  assumes "length xs = unat n + 1" and "length xs0 = unat n + 1" and "\<And>x. reads_back J (sv x) ld x"
  shows "reads_back J (save_array sv n xs) (load_array ld n xs0) xs"
  using assms(1,2) reads_then [OF reads_indexed [OF assms(1) [symmetric] assms(3)], of "\<lambda>ys. ys @ drop (unat n + 1) xs0" xs]
  by (simp add: save_array_def load_array_def Let_def)

lemma reads_mattern:
  "reads_back J (mattern_save s) (mattern_load s0) (s\<lparr>red_msg_count := red_msg_count s0\<rparr>)"
  unfolding mattern_save_def mattern_load_def
  by (intro reads_bind [OF reads_enum] reads_bind [OF reads_u32] reads_return) simp_all

lemma reads_async:
  assumes "gvt_fits gm" and "num_worker_threads gm0 \<noteq> num_worker_threads gm"
    and n: "length (local_min gm) = unat (num_worker_threads gm) + 1" "length (send_min gm) = unat (num_worker_threads gm) + 1"
      "length (calculated_min_flag gm) = unat (num_worker_threads gm) + 1"
  shows "reads_back J (async_save gm) (async_load gm0) (gm\<lparr>state := (state gm)\<lparr>red_msg_count := red_msg_count (state gm0)\<rparr>\<rparr>)"
  unfolding async_save_def async_load_def Let_def
  using assms by (intro reads_bind [OF reads_gvt] reads_bind [OF reads_mattern] reads_bind [OF reads_u32]
      reads_bind [OF reads_bool], simp_all)
    (intro reads_bind [OF reads_array] reads_bind [OF reads_bool] reads_u32 reads_bool reads_return, simp_all)

section \<open>The whole file\<close>

definition loaded_lp :: "('s, 'g) lp \<Rightarrow> ('s, 'g) lp \<Rightarrow> ('s, 'g) lp" where
  "loaded_lp lp saved = lp\<lparr>last_fossil_collect_gvt := last_fossil_collect_gvt saved,
     lp_generation := lp_generation saved, lp_state := lp_state saved\<rparr>"

text \<open>The new dispatcher \<open>nd0\<close> with what \<open>nd\<close> has saved; \<open>lps\<close> are the LPs that are there at the restart.\<close>

definition restored :: "('s, 'g, event list, 'a gvt_base_scheme, 'd) dispatcher \<Rightarrow> ('s, 'g) lp list \<Rightarrow>
    ('s, 'g, event list, 'a gvt_base_scheme, 'd) dispatcher \<Rightarrow> ('s, 'g, event list, 'a gvt_base_scheme, 'd) dispatcher" where
  "restored nd lps nd0 = nd0
     \<lparr>d_es := (d_es nd)\<lparr>input_queue_lock := input_queue_lock (d_es nd0)\<rparr>,
      d_gvt := (d_gvt nd0)\<lparr>gVT := gVT (d_gvt nd), gvt_start := gvt_start (d_gvt nd), gvt_stop := gvt_stop (d_gvt nd),
        gvt_period := gvt_period (d_gvt nd), gvt_state := gvt_state (d_gvt nd),
        num_worker_threads := num_worker_threads (d_gvt nd)\<rparr>,
      d_sm := (sm_initialize (sm_num_local_lps (d_sm nd)) (d_sm nd0))\<lparr>state_queue := state_queue (d_sm nd)\<rparr>,
      d_om := d_om nd, d_tm := d_tm nd, d_stats := d_stats nd, d_lps := map2 loaded_lp lps (d_lps nd),
      lps_by_name := fold (\<lambda>(k, lp) mp. mp(name lp \<mapsto> k)) (zip [0..<length lps] lps) (lps_by_name nd0),
      local_lp_id_by_name := fold (\<lambda>(k, lp) mp. mp(name lp \<mapsto> k)) (zip [0..<length lps] lps) (local_lp_id_by_name nd0)\<rparr>"

lemma reads_lp:
  assumes "cereal_law ca J E" and "short (name saved)"
  shows "reads_back J (lp_save ca saved) (lp_load ca ops lp) (loaded_lp lp saved)"
  unfolding lp_save_def lp_load_def
  using assms(2) by (intro reads_bind [OF reads_string] reads_bind [OF reads_u32] reads_bind [OF reads_u64]
      reads_bind [OF lawD(3) [OF assms(1)]] reads_return)
    (simp_all add: short_def loaded_lp_def LPState_restoreState_def)

lemma reads_lps:
  assumes "cereal_law ca J E"
  shows "length lps = length saved \<Longrightarrow> \<forall>lp\<in>set saved. short (name lp) \<Longrightarrow>
    reads_back J (save_all (map (lp_save ca) saved)) (lps_load ca ops lps) (map2 loaded_lp lps saved)"
proof (induction lps saved rule: list_induct2)
  case (Cons lp lps s saved)
  have "reads_back J (save_all (map (lp_save ca) saved)) (lps_load ca ops lps) (map2 loaded_lp lps saved)"
    using Cons by simp
  then show ?case unfolding list.map lps_load.simps
    using Cons.prems by (intro reads_bind [OF reads_lp [OF assms]] reads_then) simp_all
qed (simp add: reads_return)

lemma reads_bind2:
  assumes "reads_back J s ld (a, b)" and "reads_back J (save_all ss) (k a b) y"
  shows "reads_back J (save_all (s # ss)) (bindL ld (\<lambda>(a, b). k a b)) y"
  by (rule reads_bind [OF assms(1)]) (simp add: assms(2))

lemma reads_d:
  assumes law: "cereal_law ca J E" and fits: "d_fits E nd" and lps: "length lps = length (d_lps nd)" and fl: "short file"
  shows "reads_back J (save_all [managers_save ca file nd, save_all (map (lp_save ca) (d_lps nd))]) (d_load ca cfg lps nd0)
    (restored nd lps nd0)"
proof -
  note D = fits [unfolded d_fits_def]
  have st: "reads_back J (st_save ca file (d_stats nd)) (st_load ca (c_dbl cfg) (d_stats nd0)) (file, d_stats nd)"
    using D fl by (intro reads_st [OF law]) auto
  have all: "reads_back J (save_all (map (lp_save ca) (d_lps nd))) (lps_load ca (c_lp cfg) lps) (map2 loaded_lp lps (d_lps nd))"
    using D lps by (intro reads_lps [OF law]) auto
  have split: "save_all [managers_save ca file nd, save_all (map (lp_save ca) (d_lps nd))] =
      save_all [es_save ca (d_es nd), gvt_save (d_gvt nd), sm_save ca (d_sm nd), om_save ca (d_om nd), tm_save (d_tm nd),
        st_save ca file (d_stats nd), save_all (map (lp_save ca) (d_lps nd))]"
    unfolding managers_save_def by (rule ext) (simp split: prod.splits)
  show ?thesis unfolding split d_load_def restored_def
    using D by (intro reads_bind [OF reads_es [OF law]] reads_bind [OF reads_gvt] reads_bind [OF reads_sm [OF law]]
        reads_bind [OF reads_om [OF law]] reads_bind [OF reads_tm] reads_bind2 [OF st]
        reads_bind [OF all] reads_return) auto
qed

text \<open>The time, the configuration, whose JSON value survives being printed and parsed, and the map of the communication manager.\<close>

definition head_fits :: "('s, 'd, 'w, 'r) cereal_ops \<Rightarrow> int \<Rightarrow> 'd configuration \<Rightarrow> 'd json \<Rightarrow> (string \<rightharpoonup> u32) \<Rightarrow> bool" where
  "head_fits ca now cf json m \<longleftrightarrow> - (2 ^ 63) \<le> now \<and> now < 2 ^ 63 \<and> cf_root cf = Some json \<and> short (config_file_name cf) \<and>
     ca_json_parse ca (ca_json_text ca json) = json \<and> short (ca_json_text ca json) \<and> short (ca_map_order ca m) \<and> (\<forall>k\<in>dom m. short k)"

definition loaded_config :: "'d configuration \<Rightarrow> 'd configuration \<Rightarrow> 'd configuration" where
  "loaded_config cf0 cf = cf0\<lparr>config_file_name := config_file_name cf, cf_max_sim_time := cf_max_sim_time cf, cf_root := cf_root cf\<rparr>"

definition loaded_comm :: "'h comm \<Rightarrow> 'h comm \<Rightarrow> 'h comm" where
  "loaded_comm c0 c = c0\<lparr>node_id_by_lp_name := node_id_by_lp_name c\<rparr>"

lemma reads_config:
  assumes "head_fits ca now cf json m"
  shows "reads_back J (config_save ca cf json) (config_load ca cf0) (loaded_config cf0 cf)"
  unfolding config_save_def config_load_def
  using assms by (intro reads_bind [OF reads_string] reads_bind [OF reads_u32] reads_return)
    (simp_all add: head_fits_def short_def loaded_config_def)

lemma reads_comm:
  assumes law: "cereal_law ca J E" and fits: "head_fits ca now cf json (node_id_by_lp_name c)"
    and fin: "finite (dom (node_id_by_lp_name c))"
  shows "reads_back J (comm_save ca c) (comm_load c0) (loaded_comm c0 c)"
proof -
  let ?xs = "ca_map_order ca (node_id_by_lp_name c)"
  note l = lawD(5,6) [OF law fin]
  have "k \<in> dom (node_id_by_lp_name c)" if "(k, v) \<in> set ?xs" for k v
    using that l by (metis domI map_of_is_SomeI)
  then have "reads_back J (save_map ?xs) load_map (map_of ?xs)"
    using fits l(2) by (intro reads_map) (auto simp: head_fits_def short_def)
  then show ?thesis unfolding comm_save_def comm_load_def l(1) by (rule reads_then) (simp add: loaded_comm_def)
qed

abbreviation little_endian :: "byte list \<Rightarrow> 'r \<Rightarrow> 'r iarchive" where
  "little_endian bs r \<equiv> \<lparr>itsBytes = bs, itsPointers = r, itsConvertEndianness = False\<rparr>"

lemma reads_backE:
  assumes "reads_back J s ld x" and "J w r"
  obtains b w' r' where "s w = (b, w')" and "J w' r'"
    and "\<And>xs. ld (little_endian (b @ xs) r) = Inr (x, little_endian xs r')"
proof -
  obtain b w' where s: "s w = (b, w')" by (cases "s w")
  from assms obtain r' where "J w' r'" "\<forall>xs. ld (little_endian (b @ xs) r) = Inr (x, little_endian xs r')"
    unfolding reads_back_def by (metis s fst_conv snd_conv)
  with that s show ?thesis by simp
qed

text \<open>The file, step by step: what is loaded, and what then is left of it.\<close>

lemma file_loads:
  assumes law: "cereal_law ca J E" and fits: "d_fits E nd" and lps: "length lps = length (d_lps nd)" and fl: "short file"
    and hd: "head_fits ca now cf json (node_id_by_lp_name (d_comm nd))" and bs: "checkpoint_file ca now cf file nd = Inr bs"
  obtains a1 a2 a3 a4 a5 where "input_archive (ca_pointers_in ca) bs = Inr a1" and "load_time a1 = Inr (now, a2)"
    and "config_load ca cf0 a2 = Inr (loaded_config cf0 cf, a3)" and "comm_load comm a3 = Inr (loaded_comm comm (d_comm nd), a4)"
    and "d_load ca cfg lps nd0 a4 = Inr (restored nd lps nd0, little_endian [] a5)"
proof -
  have root: "cf_root cf = Some json" using hd by (simp add: head_fits_def)
  have time: "reads_back J (save_time now) load_time now" using hd by (intro reads_time) (simp_all add: head_fits_def)
  note config = reads_config [OF hd, where ?cf0.0 = cf0 and J = J]
  have comm: "reads_back J (comm_save ca (d_comm nd)) (comm_load comm) (loaded_comm comm (d_comm nd))"
    using reads_comm [OF law hd] fits by (simp add: d_fits_def)
  note rest = reads_d [OF law fits lps fl, of cfg nd0]
  obtain b1 w1 r1 where 1: "save_time now (ca_pointers_out ca) = (b1, w1)" "J w1 r1"
    "\<And>xs. load_time (little_endian (b1 @ xs) (ca_pointers_in ca)) = Inr (now, little_endian xs r1)"
    by (rule reads_backE [OF time lawD(1) [OF law]]) (rule that)
  obtain b2 w2 r2 where 2: "config_save ca cf json w1 = (b2, w2)" "J w2 r2"
    "\<And>xs. config_load ca cf0 (little_endian (b2 @ xs) r1) = Inr (loaded_config cf0 cf, little_endian xs r2)"
    by (rule reads_backE [OF config 1(2)]) (rule that)
  obtain b3 w3 r3 where 3: "comm_save ca (d_comm nd) w2 = (b3, w3)" "J w3 r3"
    "\<And>xs. comm_load comm (little_endian (b3 @ xs) r2) = Inr (loaded_comm comm (d_comm nd), little_endian xs r3)"
    by (rule reads_backE [OF comm 2(2)]) (rule that)
  obtain b4 w4 r4 where 4: "save_all [managers_save ca file nd, save_all (map (lp_save ca) (d_lps nd))] w3 = (b4, w4)"
    "\<And>xs. d_load ca cfg lps nd0 (little_endian (b4 @ xs) r3) = Inr (restored nd lps nd0, little_endian xs r4)"
    by (rule reads_backE [OF rest 3(2)]) (rule that)
  have "bs = 1 # b1 @ b2 @ b3 @ b4"
    using bs 4(1) by (auto simp: checkpoint_file_def root output_archive_def saveBinary_def 1(1) 2(1) 3(1) split: prod.splits)
  then have "input_archive (ca_pointers_in ca) bs = Inr (little_endian (b1 @ b2 @ b3 @ b4) (ca_pointers_in ca))"
    by (simp add: input_archive_def loadBinary_def Let_def)
  from that [OF this 1(3) 2(3) 3(3)] 4(2) [of "[]"] show ?thesis by simp
qed

text \<open>Reading a file from its first byte to its last.\<close>

definition read_checkpoint :: "('s, 'd, 'w, 'r) cereal_ops \<Rightarrow> ('s, 'g, event list, 'a gvt_base_scheme, 'd) config \<Rightarrow>
    'd configuration \<Rightarrow> unit comm \<Rightarrow> ('s, 'g) lp list \<Rightarrow> ('s, 'g, event list, 'a gvt_base_scheme, 'd) dispatcher \<Rightarrow>
    byte list \<Rightarrow> ((int \<times> 'd configuration \<times> unit comm \<times> ('s, 'g, event list, 'a gvt_base_scheme, 'd) dispatcher) \<times> 'r iarchive) res" where
  "read_checkpoint ca cfg cf0 comm lps nd0 bs =
     bindR (input_archive (ca_pointers_in ca) bs) (bindL load_time (\<lambda>t. bindL (config_load ca cf0) (\<lambda>cf.
       bindL (comm_load comm) (\<lambda>c. bindL (d_load ca cfg lps nd0) (\<lambda>nd. returnL (t, cf, c, nd))))))"

lemma file_there:
  assumes "head_fits ca now cf json m"
  shows "\<exists>bs. checkpoint_file ca now cf file nd = Inr bs"
  using assms by (simp add: head_fits_def checkpoint_file_def split: prod.splits)

lemma read_back:
  assumes "cereal_law ca J E" and "d_fits E nd" and "head_fits ca now cf json (node_id_by_lp_name (d_comm nd))"
    and "short stats_file" and "length lps = length (d_lps nd)"
  shows "\<exists>bs ar. checkpoint_file ca now cf stats_file nd = Inr bs \<and> itsBytes ar = [] \<and>
    read_checkpoint ca cfg cf0 comm lps nd0 bs =
      Inr ((now, loaded_config cf0 cf, loaded_comm comm (d_comm nd), restored nd lps nd0), ar)"
proof -
  obtain bs where bs: "checkpoint_file ca now cf stats_file nd = Inr bs" using file_there [OF assms(3)] by blast
  show ?thesis
    by (rule file_loads [OF assms(1,2,5,4,3) bs, of cf0 comm cfg nd0])
      (use bs in \<open>simp add: read_checkpoint_def bindL_def returnL_def\<close>)
qed

lemma final_commit_frame:
  "input_queue (d_es (final_commit t ids nd)) = input_queue (d_es nd) \<and>
   schedule_queue (d_es (final_commit t ids nd)) = schedule_queue (d_es nd) \<and>
   d_lps (final_commit t ids nd) = d_lps nd \<and> d_tm (final_commit t ids nd) = d_tm nd"
  by (induction t ids nd rule: final_commit.induct) (auto simp: Let_def fossilCollect_def split: prod.splits)

section \<open>A manager read out of step\<close>

lemma load_words_there:
  "4 * k \<le> length bs \<Longrightarrow> \<exists>xs. load_n k load_u32 (little_endian bs r) = Inr (xs, little_endian (drop (4 * k) bs) r) \<and> length xs = k"
proof (induction k arbitrary: bs)
  case (Suc k)
  have 1: "load_u32 (little_endian bs r) = Inr (of_nat (le_value (take 4 bs)), little_endian (drop 4 bs) r)"
    using Suc.prems load_word_there [of "little_endian bs r" 4] by (simp add: load_u32_def)
  have "4 * k \<le> length (drop 4 bs)" using Suc.prems by simp
  from Suc.IH [OF this] obtain xs where xs: "load_n k load_u32 (little_endian (drop 4 bs) r) =
      Inr (xs, little_endian (drop (4 * k) (drop 4 bs)) r)" "length xs = k" by blast
  show ?case unfolding load_n.simps bindL_def 1 bindR.simps prod.case xs(1) returnL_def
    using xs(2) by (simp add: add.commute)
qed (simp add: returnL_def)

lemma load_array_there:
  assumes "4 * (unat n + 1) \<le> length bs" and "unat n + 1 \<le> length xs"
  shows "\<exists>ys. load_array load_u32 n xs (little_endian bs r) = Inr (ys, little_endian (drop (4 * (unat n + 1)) bs) r)"
proof -
  obtain ys where ys: "load_n (unat n + 1) load_u32 (little_endian bs r) =
      Inr (ys, little_endian (drop (4 * (unat n + 1)) bs) r)"
    using load_words_there [OF assms(1), of r] by (elim exE conjE) (rule that)
  have "load_array load_u32 n xs = bindL (load_n (unat n + 1) load_u32) (\<lambda>ys. returnL (ys @ drop (unat n + 1) xs))"
    using assms(2) by (simp add: load_array_def Let_def)
  from fun_cong [OF this, of "little_endian bs r"]
  have "load_array load_u32 n xs (little_endian bs r) =
      bindR (load_n (unat n + 1) load_u32 (little_endian bs r)) (\<lambda>(ys, ar). returnL (ys @ drop (unat n + 1) xs) ar)"
    by (simp only: bindL_def)
  also have "\<dots> = Inr (ys @ drop (unat n + 1) xs, little_endian (drop (4 * (unat n + 1)) bs) r)"
    unfolding ys by (simp add: returnL_def)
  finally show ?thesis by blast
qed

lemma save_words: "save_all (map (\<lambda>i. save_u32 (xs i)) is) w = (concat (map (\<lambda>i. le_bytes 4 (unat (xs i))) is), w)"
  by (induction "is") (simp_all add: save_u32_def save_word_def saveBinary_def)

lemma length_words: "length (concat (map (\<lambda>i. le_bytes 4 (f i)) is)) = 4 * length is"
  by (induction "is") simp_all

lemma le_bytes_0: "le_bytes n 0 = replicate n 0"
  by (induction n) simp_all

text \<open>The state after an exchange: white, and no message on its way back that would make the count negative.\<close>

lemma sync_misread:
  assumes gm: "sync_color gm = WHITE" "unat (sync_white_count gm) < 2 ^ 56" "gvt_fits gm"
    and n: "num_worker_threads gm0 = num_worker_threads gm" "unat (num_worker_threads gm) + 1 \<le> length (sync_local_min gm0)"
      "unat (num_worker_threads gm) + 1 \<le> length (sync_send_min gm0)"
  shows "\<exists>gm' b. sync_load gm0 (little_endian (fst (sync_save gm w) @ rest) r) = Inr (gm', little_endian (b # rest) r) \<and>
    unat (sync_white_count gm') = 256 * unat (sync_white_count gm) + (if sync_updated gm then 1 else 0)"
proof -
  let ?W = "unat (sync_white_count gm)" and ?b = "if sync_updated gm then 1 else 0 :: byte"
    and ?n = "unat (num_worker_threads gm) + 1"
  let ?words = "\<lambda>xs. concat (map (\<lambda>i. le_bytes 4 (unat (xs ! i))) [0..<?n])"
  obtain g where g: "gvt_save gm w = (g, w)"
    by (simp add: gvt_save_def save_u32_def save_time_def save_u64_def save_enum_def save_word_def saveBinary_def)
  define tail where "tail = le_bytes 4 (unat (sync_flag gm)) @ ?words (sync_local_min gm) @ ?words (sync_send_min gm) @
    le_bytes 4 (unat (recv_min gm))"
  define gm1 where "gm1 = gm0\<lparr>gVT := gVT gm, gvt_start := gvt_start gm, gvt_stop := gvt_stop gm, gvt_period := gvt_period gm,
      gvt_state := gvt_state gm, num_worker_threads := num_worker_threads gm\<rparr>"
  have saved: "fst (sync_save gm w) = g @ (?b # le_bytes 7 ?W) @ [0] @ [0, 0, 0, 0] @ tail"
  proof -
    have "?W div 256 ^ 7 = 0" using gm(2) by simp
    then have "le_bytes 8 ?W = le_bytes 7 ?W @ [0]" using le_bytes_add [of 7 1 ?W] by simp
    moreover have "le_bytes 4 0 = [0, 0, 0, 0]" by (simp add: le_bytes_0 numeral_eq_Suc)
    moreover have "save_u32 x w = (le_bytes 4 (unat x), w)" for x by (simp add: save_u32_def save_word_def saveBinary_def)
    ultimately show ?thesis
      by (simp add: sync_save_def g save_bool_def saveBinary_def save_u64_def save_word_def save_enum_def gm(1) save_array_def
          save_words tail_def del: upt_Suc)
  qed
  have "reads_back (\<lambda>_ r'. r' = r) (gvt_save gm) (gvt_load gm0) gm1"
    unfolding gm1_def by (rule reads_gvt [OF gm(3)])
  then have base: "gvt_load gm0 (little_endian (g @ xs) r) = Inr (gm1, little_endian xs r)" for xs
    using g unfolding reads_back_def by (metis fst_conv)
  define A where "A = 0 # tail @ rest"
  have len: "length tail = 4 + 4 * ?n + 4 * ?n + 4" unfolding tail_def by (simp only: length_append length_words length_le_bytes length_upt) simp
  obtain b where b: "drop (length tail) A = b # rest"
  proof
    have "A = butlast (0 # tail) @ [last (0 # tail)] @ rest" unfolding A_def by (simp add: append_assoc [symmetric] del: append_assoc)
    then show "drop (length tail) A = last (0 # tail) # rest" by simp
  qed
  have W: "load_u64 (little_endian ((?b # le_bytes 7 ?W) @ [0] @ [0, 0, 0, 0] @ tail @ rest) r) =
      Inr (of_nat (unat ?b + 256 * ?W), little_endian ([0, 0, 0, 0] @ A) r)"
    using gm(2) by (simp add: load_u64_def load_word_there A_def)
  have C: "load_enum Color_of (little_endian ([0, 0, 0, 0] @ A) r) = Inr (WHITE, little_endian A r)"
    by (simp add: load_enum_def load_u32_def bindL_def load_word_there Color_of_def returnL_def)
  have L: "load_u32 (little_endian A r) = Inr (of_nat (le_value (take 4 A)), little_endian (drop 4 A) r)"
    using load_word_there [of "little_endian A r" 4] by (simp add: load_u32_def A_def len)
  obtain lm where lm: "load_array load_u32 (num_worker_threads gm) (sync_local_min gm0) (little_endian (drop 4 A) r) =
      Inr (lm, little_endian (drop (4 * ?n) (drop 4 A)) r)"
    using load_array_there [OF _ n(2), of "drop 4 A" r] len by (auto simp: A_def)
  obtain sm where sm: "load_array load_u32 (num_worker_threads gm) (sync_send_min gm0)
      (little_endian (drop (4 * ?n) (drop 4 A)) r) = Inr (sm, little_endian (drop (4 * ?n) (drop (4 * ?n) (drop 4 A))) r)"
    using load_array_there [OF _ n(3), of "drop (4 * ?n) (drop 4 A)" r] len by (auto simp: A_def)
  have "drop 4 (drop (4 * ?n) (drop (4 * ?n) (drop 4 A))) = drop (length tail) A"
    unfolding drop_drop by (rule arg_cong [of _ _ "\<lambda>k. drop k A"]) (simp add: len)
  then obtain rm where R: "load_u32 (little_endian (drop (4 * ?n) (drop (4 * ?n) (drop 4 A))) r) =
      Inr (rm, little_endian (b # rest) r)"
    using load_word_there [of "little_endian (drop (4 * ?n) (drop (4 * ?n) (drop 4 A))) r" 4] len b
    by (auto simp: load_u32_def A_def)
  have same: "num_worker_threads gm1 = num_worker_threads gm" "sync_local_min gm1 = sync_local_min gm0"
    "sync_send_min gm1 = sync_send_min gm0" by (simp_all add: gm1_def)
  have "unat ?b + 256 * ?W < 2 ^ LENGTH(64)" using gm(2) by simp
  then have "unat (of_nat (unat ?b + 256 * ?W) :: u64) = unat ?b + 256 * ?W" by (simp only: unat_of_nat mod_less)
  then have "unat (of_nat (unat ?b + 256 * ?W) :: u64) = 256 * ?W + (if sync_updated gm then 1 else 0)"
    by (simp only:) simp
  then show ?thesis unfolding saved sync_load_def append_assoc
    by (simp only: bindL_def base bindR.simps prod.case W C L Let_def same n(1) simp_thms if_False lm sm R returnL_def)
      (intro exI conjI, rule HOL.refl, simp)
qed

end
