(* ===== verification/TW_Restart_Results.thy ===== *)
theory TW_Restart_Results
  imports TW_Restart_Props TW_Dispatcher_Props
begin

text \<open>
  The properties of checkpoint and restart, and an instance of the archive library's contract.
\<close>

section \<open>An instance of the contract\<close>

text \<open>Numbers in unary, events as lists of numbers; nothing is shared.\<close>

definition unary_save :: "nat \<Rightarrow> unit saver" where
  "unary_save n u = (replicate n 1 @ [0], u)"

definition unary_load :: "(unit, nat) loader" where
  "unary_load ar =
     (let n = length (takeWhile (\<lambda>b. b = 1) (itsBytes ar))
      in Inr (n, ar\<lparr>itsBytes := drop (Suc n) (itsBytes ar)\<rparr>))"

definition event_numbers :: "event \<Rightarrow> nat list" where
  "event_numbers e = [ev_ptr e, unat (timestamp e), event_type_num (event_type e), unat (send_time e), unat (generation e),
     payload e, length (receiverName e)] @ map of_char (receiverName e) @ map of_char (sender_name e)"

definition event_of :: "nat list \<Rightarrow> event" where
  "event_of ns = (let cs = drop 7 ns in
     \<lparr>ev_ptr = ns ! 0, receiverName = map char_of (take (ns ! 6) cs), timestamp = of_nat (ns ! 1),
      sender_name = map char_of (drop (ns ! 6) cs), event_type = (if ns ! 2 = 0 then NEGATIVE else POSITIVE),
      send_time = of_nat (ns ! 3), generation = of_nat (ns ! 4), payload = ns ! 5\<rparr>)"

definition plain_save_event :: "event option \<Rightarrow> unit saver" where
  "plain_save_event p = (case p of None \<Rightarrow> unary_save 0
     | Some e \<Rightarrow> save_all [unary_save (length (event_numbers e) + 1), save_all (map unary_save (event_numbers e))])"

definition plain_load_event :: "(unit, event option) loader" where
  "plain_load_event = bindL unary_load (\<lambda>n. if n = 0 then returnL None
     else bindL (load_n (n - 1) unary_load) (\<lambda>ns. returnL (Some (event_of ns))))"

definition plain_cereal :: "(nat, unit, unit, unit) cereal_ops" where
  "plain_cereal = \<lparr>ca_save_event = plain_save_event, ca_load_event = plain_load_event, ca_save_state = unary_save,
     ca_load_state = unary_load, ca_save_double = (\<lambda>_ u. ([], u)), ca_load_double = returnL (),
     ca_json_text = (\<lambda>_. ''{}''), ca_json_parse = (\<lambda>_. JObject []),
     ca_map_order = (\<lambda>m. map (\<lambda>k. (k, the (m k))) (sorted_list_of_set (dom m))),
     ca_pointers_out = (), ca_pointers_in = ()\<rparr>"

lemma reads_unary: "reads_back J (unary_save n) unary_load n"
proof -
  have "takeWhile (\<lambda>b. b = 1) (replicate n 1 @ 0 # rest) = (replicate n 1 :: byte list)" for rest
    by (induction n) simp_all
  then show ?thesis by (auto simp: reads_back_def unary_save_def unary_load_def Let_def)
qed

lemma event_of_numbers: "event_of (event_numbers e) = e"
proof -
  have "event_type_num t = 0 \<longleftrightarrow> t = NEGATIVE" for t by (cases t) simp_all
  moreover have "(if t = NEGATIVE then NEGATIVE else POSITIVE) = t" for t by (cases t) simp_all
  ultimately show ?thesis by (cases e) (simp add: event_of_def event_numbers_def Let_def comp_def)
qed

lemma plain_law: "cereal_law plain_cereal (\<lambda>_ _. True) E"
proof -
  have ev: "reads_back (\<lambda>_ _. True) (plain_save_event p) plain_load_event p" for p
  proof (cases p)
    case None
    show ?thesis unfolding None plain_save_event_def plain_load_event_def option.case
      by (rule reads_single, rule reads_bind [OF reads_unary]) (simp add: reads_return)
  next
    case (Some e)
    show ?thesis unfolding Some plain_save_event_def plain_load_event_def option.case
      by (rule reads_bind [OF reads_unary], simp, rule reads_bind [OF reads_n [OF reads_unary]])
        (simp add: reads_return event_of_numbers)
  qed
  have "map_of (map (\<lambda>k. (k, the (m k))) (sorted_list_of_set (dom m))) = m" if "finite (dom m)" for m :: "string \<rightharpoonup> u32"
    using that by (auto simp: map_of_map_restrict restrict_map_def fun_eq_iff domIff)
  moreover have "All (reads_back (\<lambda>_ _. True) (Pair []) (returnL ()) :: unit \<Rightarrow> bool)"
    by (rule allI) (simp add: reads_back_def returnL_def)
  ultimately show ?thesis by (simp add: cereal_law_def plain_cereal_def ev reads_unary comp_def)
qed

text \<open>The node of the dispatcher's sample, with the LPs \<open>lps\<close>, and a node after the restart.\<close>

definition sample_saved :: "(nat, string) lp list \<Rightarrow> (nat, string, event list, async_gvt, unit) dispatcher" where
  "sample_saved lps = sample_disp\<lparr>d_lps := lps\<rparr>"

definition sample_config :: "unit configuration" where
  "sample_config = \<lparr>config_file_name = ''conf'', cf_max_sim_time = 100, cf_root = Some (JObject [])\<rparr>"

lemma sample_fits:
  assumes "\<forall>lp\<in>set lps. short (name lp)"
  shows "d_fits UNIV (sample_saved lps)"
proof -
  have es: "es_fits UNIV sample_es2"
    by (simp add: es_fits_def short_def sample_es2_def sample_es0_def)
  have gm: "gvt_fits (d_gvt sample_disp)"
    by (simp add: gvt_fits_def sample_disp_def async_initialize_def async_new_def gvt_initialize_def resetLocalState_def Let_def)
  have sm: "sm_fits UNIV (run_sm sample_run2)"
    by (simp add: sm_fits_def short_def sample_run2_def sample_run_def sample_sm_def saveState_def sm_initialize_def Let_def
        sample_ops_def sample_lp_def lp_receive_def)
  have om: "om_fits UNIV (om_insertEvent (sample_event 1 POSITIVE 10 1) sample_out 0 (om_initialize 1))"
    by (simp add: om_fits_def short_def om_insertEvent_def om_initialize_def)
  show ?thesis using assms es gm sm om
    by (simp add: d_fits_def sample_saved_def sample_disp_def tm_initialize_def tm_new_def comm_initialize_def comm_new_def
        initializeLPMap_def Let_def)
qed

lemma sample_head: "head_fits plain_cereal 0 sample_config (JObject []) (node_id_by_lp_name (d_comm (sample_saved lps)))"
  by (simp add: head_fits_def short_def plain_cereal_def sample_config_def sample_saved_def sample_disp_def comm_initialize_def
      comm_new_def initializeLPMap_def)

section \<open>The properties\<close>

text \<open>C17: A checkpoint is read to its last byte, and what is read is what was saved: time, configuration, the map of the
  LPs to nodes, the queues of the event set, GVT, the queues of saved states and sent events, the
  termination manager, the statistics, and per LP its state and counters. Whatever follows the pointers that
  the archive keeps, the result is the new node with these parts replaced (\<open>restored\<close>). So what is not
  in \<open>restored\<close> is lost: the locks of the event set, all of the GVT manager but the base class, the files,
  the messages that wait to be sent, and the random number generators.\<close>

theorem checkpoint_read_back:
  fixes nd :: "('s, 'g, event list, 'a gvt_base_scheme, 'd) dispatcher"
    and cfg :: "('s, 'g, event list, 'a gvt_base_scheme, 'd) config"
  assumes "cereal_law ca J E" and "d_fits E nd" and "head_fits ca now cf json (node_id_by_lp_name (d_comm nd))"
    and "short stats_file" and "length lps = length (d_lps nd)"
  shows "\<exists>bs ar. checkpoint_file ca now cf stats_file nd = Inr bs \<and> itsBytes ar = [] \<and>
    read_checkpoint ca cfg cf0 comm lps nd0 bs =
      Inr ((now, loaded_config cf0 cf, loaded_comm comm (d_comm nd), restored nd lps nd0), ar)"
  by (rule read_back [OF assms])

theorem checkpoint_read_back_witness:
  "\<exists>bs ar nd'. checkpoint_file plain_cereal 0 sample_config ''none'' (sample_saved [sample_lp\<lparr>lp_state := 17\<rparr>]) = Inr bs \<and>
     read_checkpoint plain_cereal sample_cfg sample_config (comm_new 100 1) [sample_lp] (sample_disp\<lparr>d_es := event_set_new\<rparr>) bs =
       Inr ((0, sample_config, nd'), ar) \<and>
     lp_state (d_lps (snd nd') ! 0) = 17 \<and> input_queue_lock (d_es (snd nd')) = []"
proof -
  let ?nd = "sample_saved [sample_lp\<lparr>lp_state := 17\<rparr>]"
  have fits: "d_fits UNIV ?nd" by (rule sample_fits) (simp add: short_def sample_lp_def)
  have len: "length [sample_lp] = length (d_lps ?nd)" by (simp add: sample_saved_def)
  have "short ''none''" by (simp add: short_def)
  from checkpoint_read_back [OF plain_law fits sample_head this len, of sample_cfg sample_config "comm_new 100 1"
      "sample_disp\<lparr>d_es := event_set_new\<rparr>"]
  show ?thesis by (auto simp: restored_def loaded_lp_def loaded_config_def sample_config_def event_set_new_def sample_saved_def)
qed

text \<open>C27: A restart processes nothing. \<open>TimeWarpEventDispatcher::restart\<close> loads a checkpoint, but its threads and its loop
  are not compiled: it reports normal completion, with every event that was waiting in the checkpoint still
  waiting, and each LP in the state that it had. (\<open>n\<close> stands for the uninitialised \<open>num_local_lps_\<close>; the code
  is defined only where it is within the queues.)\<close>

theorem restart_processes_nothing:
  fixes nd :: "('s, 'g, event list, 'a gvt_base_scheme, 'd) dispatcher"
    and cfg :: "('s, 'g, event list, 'a gvt_base_scheme, 'd) config"
  assumes "cereal_law ca J E" and "d_fits E nd" and "head_fits ca now cf json (node_id_by_lp_name (d_comm nd))"
    and "short stats_file" and "length lps = length (d_lps nd)" and "checkpoint_file ca now cf stats_file nd = Inr bs"
    and "files (checkpoint_filename cp_file (my_rank comm)) = Some bs"
    and "make_dispatcher (loaded_config cf0 cf) (loaded_comm comm (d_comm nd)) = Inr nd0"
  shows "\<exists>nd'. sim_restart ca cfg files make_dispatcher n others dothers load_sec rejuv_sec cf0 cp_file comm lps = Inr (TS_NORMAL, nd') \<and>
    input_queue (d_es nd') = input_queue (d_es nd) \<and> schedule_queue (d_es nd') = schedule_queue (d_es nd) \<and>
    d_tm nd' = d_tm nd \<and> d_lps nd' = map2 loaded_lp lps (d_lps nd)"
  by (rule file_loads [OF assms(1,2,5,4,3,6), of cf0 comm cfg nd0])
    (simp add: sim_restart_def assms(7,8) d_restart_def Let_def final_commit_frame restored_def)

theorem restart_processes_nothing_witness:
  "\<exists>bs nd'. checkpoint_file plain_cereal 0 sample_config ''none'' (sample_saved [sample_lp\<lparr>lp_state := 17\<rparr>]) = Inr bs \<and>
     sim_restart plain_cereal sample_cfg [''checkpoint.0'' \<mapsto> bs] (\<lambda>_ _. Inr (sample_disp\<lparr>d_es := event_set_new\<rparr>)) 1
       (\<lambda>_. []) (\<lambda>_. []) () (\<lambda>_. ()) sample_config [] (comm_new 100 1) [sample_lp] = Inr (TS_NORMAL, nd') \<and>
     input_queue (d_es nd') = [[sample_event 2 POSITIVE 20 2]] \<and> lp_state (d_lps nd' ! 0) = 17"
proof -
  let ?nd = "sample_saved [sample_lp\<lparr>lp_state := 17\<rparr>]"
  have fits: "d_fits UNIV ?nd" by (rule sample_fits) (simp add: short_def sample_lp_def)
  have len: "length [sample_lp] = length (d_lps ?nd)" by (simp add: sample_saved_def)
  have short: "short ''none''" by (simp add: short_def)
  obtain bs where bs: "checkpoint_file plain_cereal 0 sample_config ''none'' ?nd = Inr bs" using file_there [OF sample_head] by blast
  have name: "checkpoint_filename [] (my_rank (comm_new 100 1 :: unit comm)) = ''checkpoint.0''"
    by (simp add: checkpoint_filename_def comm_new_def show_nat.simps) code_simp
  from restart_processes_nothing [OF plain_law fits sample_head short len bs, of "[''checkpoint.0'' \<mapsto> bs]" "[]" "comm_new 100 1"
      "\<lambda>_ _. Inr (sample_disp\<lparr>d_es := event_set_new\<rparr>)" sample_config "sample_disp\<lparr>d_es := event_set_new\<rparr>"
      sample_cfg 1 "\<lambda>_. []" "\<lambda>_. []" "()" "\<lambda>_. ()"] bs
  show ?thesis
    by (auto simp: name sample_saved_def sample_disp_sel sample_es2_def loaded_lp_def)
qed

lemma three_on_two: "rr_partition 0 [a, b, c] 2 = Inr ([[a, c], [b]], 1)"
  by (simp add: rr_partition_def push_to_def upt_rec) (simp add: numeral_2_eq_2)

text \<open>C26: LPs get each other's states. A checkpoint lists the LPs scheduler by scheduler, a restart reads it in the
  order that the LPs have in the node, and does not compare the names. With three LPs on two schedulers, divided
  by the default partitioner, the second and the third are exchanged.\<close>

theorem restart_mixes_lps:
  fixes nd :: "('s, 'g, event list, 'a gvt_base_scheme, 'd) dispatcher"
    and cfg :: "('s, 'g, event list, 'a gvt_base_scheme, 'd) config"
  assumes "cereal_law ca J E" and "d_fits E nd" and "head_fits ca now cf json (node_id_by_lp_name (d_comm nd))"
    and "short stats_file" and "rr_partition 0 [a, b, c] 2 = Inr (parts, block)" and "map name (d_lps nd) = concat parts"
    and "map name lps = [a, b, c]" and "checkpoint_file ca now cf stats_file nd = Inr bs"
  shows "\<exists>ar nd'. read_checkpoint ca cfg cf0 comm lps nd0 bs = Inr ((now, loaded_config cf0 cf, loaded_comm comm (d_comm nd), nd'), ar) \<and>
    name (d_lps nd ! 1) = c \<and> name (d_lps nd' ! 1) = b \<and> lp_state (d_lps nd' ! 1) = lp_state (d_lps nd ! 1) \<and>
    name (d_lps nd ! 2) = b \<and> name (d_lps nd' ! 2) = c \<and> lp_state (d_lps nd' ! 2) = lp_state (d_lps nd ! 2)"
proof -
  have "concat parts = [a, c, b]" using assms(5) by (auto simp: three_on_two)
  then obtain x y z where nd: "d_lps nd = [x, y, z]" "name x = a" "name y = c" "name z = b" using assms(6) by auto
  obtain u v w where lps: "lps = [u, v, w]" "name u = a" "name v = b" "name w = c" using assms(7) by auto
  have "length lps = length (d_lps nd)" by (simp add: nd lps)
  from read_back [OF assms(1-4) this, of cfg cf0 comm nd0] assms(8) nd lps show ?thesis
    by (auto simp: restored_def loaded_lp_def)
qed

theorem restart_mixes_lps_witness:
  "\<exists>bs ar nd'. checkpoint_file plain_cereal 0 sample_config ''none'' (sample_saved
       [sample_lp\<lparr>name := ''a'', lp_state := 1\<rparr>, sample_lp\<lparr>name := ''c'', lp_state := 3\<rparr>, sample_lp\<lparr>name := ''b'', lp_state := 2\<rparr>]) = Inr bs \<and>
     read_checkpoint plain_cereal sample_cfg sample_config (comm_new 100 1)
       [sample_lp\<lparr>name := ''a''\<rparr>, sample_lp\<lparr>name := ''b''\<rparr>, sample_lp\<lparr>name := ''c''\<rparr>] (sample_disp\<lparr>d_es := event_set_new\<rparr>) bs =
       Inr ((0, sample_config, nd'), ar) \<and>
     name (d_lps (snd nd') ! 1) = ''b'' \<and> lp_state (d_lps (snd nd') ! 1) = 3"
proof -
  let ?nd = "sample_saved [sample_lp\<lparr>name := ''a'', lp_state := 1\<rparr>, sample_lp\<lparr>name := ''c'', lp_state := 3\<rparr>,
    sample_lp\<lparr>name := ''b'', lp_state := 2\<rparr>]"
  let ?lps = "[sample_lp\<lparr>name := ''a''\<rparr>, sample_lp\<lparr>name := ''b''\<rparr>, sample_lp\<lparr>name := ''c''\<rparr>]"
  have fits: "d_fits UNIV ?nd" by (rule sample_fits) (simp add: short_def)
  have short: "short ''none''" by (simp add: short_def)
  have names: "map name (d_lps ?nd) = concat [[''a'', ''c''], [''b'']]" "map name ?lps = [''a'', ''b'', ''c'']"
    by (simp_all add: sample_saved_def)
  obtain bs where bs: "checkpoint_file plain_cereal 0 sample_config ''none'' ?nd = Inr bs" using file_there [OF sample_head] by blast
  from restart_mixes_lps [OF plain_law fits sample_head short three_on_two names bs, of sample_cfg sample_config "comm_new 100 1"
      "sample_disp\<lparr>d_es := event_set_new\<rparr>"] bs
  show ?thesis by (auto simp: loaded_config_def sample_config_def sample_saved_def)
qed

text \<open>C28: The synchronous GVT manager does not read what it wrote: \<open>save\<close> begins with \<open>gvt_updated_\<close>, \<open>load\<close> does not
  read it. From there on every number is read one byte too early. A count of white messages comes back
  multiplied by 256, and one byte is left for the next object in the archive.\<close>

theorem sync_gvt_misread:
  assumes "sync_color gm = WHITE" and "unat (sync_white_count gm) < 2 ^ 56" and "gvt_fits gm"
    and "num_worker_threads gm0 = num_worker_threads gm" and "unat (num_worker_threads gm) + 1 \<le> length (sync_local_min gm0)"
    and "unat (num_worker_threads gm) + 1 \<le> length (sync_send_min gm0)"
  shows "\<exists>gm' b. sync_load gm0 (little_endian (fst (sync_save gm w) @ rest) r) = Inr (gm', little_endian (b # rest) r) \<and>
    unat (sync_white_count gm') = 256 * unat (sync_white_count gm) + (if sync_updated gm then 1 else 0)"
  by (rule sync_misread [OF assms])

text \<open>Two messages in transit become 512.\<close>

theorem sync_gvt_misread_witness:
  "\<exists>gm' b. sync_load (sync_initialize 0 (sync_new 100 1))
       (little_endian (fst (sync_save ((sync_initialize 0 (sync_new 100 1))\<lparr>sync_white_count := 2\<rparr>) ()) @ []) ()) =
       Inr (gm', little_endian [b] ()) \<and> unat (sync_white_count gm') = 512"
proof -
  let ?gm = "(sync_initialize 0 (sync_new 100 1))\<lparr>sync_white_count := 2\<rparr>"
  have "sync_color ?gm = WHITE" "unat (sync_white_count ?gm) < 2 ^ 56" "gvt_fits ?gm"
    "num_worker_threads (sync_initialize 0 (sync_new 100 1)) = num_worker_threads ?gm"
    "unat (num_worker_threads ?gm) + 1 \<le> length (sync_local_min (sync_initialize 0 (sync_new 100 1)))"
    "unat (num_worker_threads ?gm) + 1 \<le> length (sync_send_min (sync_initialize 0 (sync_new 100 1)))"
    "\<not> sync_updated ?gm"
    by (simp_all add: sync_initialize_def sync_new_def gvt_initialize_def gvt_fits_def Let_def)
  from sync_gvt_misread [OF this(1-6), of "()" "[]" "()"] this(7) show ?thesis by simp
qed

end
