(* ===== verification/TW_Simulate.thy ===== *)
theory TW_Simulate
  imports TW_Restart Configuration_Props
begin

text \<open>
  \<open>Simulation::simulate\<close>, in its two forms: what it does with the LPs, and what it asks of the communication
  manager. The dispatcher (\<open>start\<close>, given the LPs of this node by scheduler) and \<open>Simulation::restart\<close> are parameters; what
  they do is the subject of the other theories. LPs are given by their names.
\<close>

datatype comm_call = Call_initialize | Call_initializeLPMap "string list list" | Call_waitForAllProcesses | Call_finalize

text \<open>The branches for a new simulation and for a restart. A restart finalizes the communication itself (\<open>restart\<close>, last
  lines), and \<open>status\<close> keeps the value it was made with.\<close>

definition simulate_new :: "'d json_ops \<Rightarrow> ('u partitioner_choice \<Rightarrow> string list \<Rightarrow> nat \<Rightarrow> string list list res) \<Rightarrow>
    (string list list \<Rightarrow> TerminationStatus res) \<Rightarrow> 'd json \<Rightarrow> nat \<Rightarrow> nat \<Rightarrow> string list list \<Rightarrow>
    (TerminationStatus \<times> comm_call list) res" where
  "simulate_new ops run start settings node num_partitions partitioned_lps =
     bindR (makeLocalPartitioner ops node num_partitions settings) (\<lambda>(local_partitioner, num_schedulers).
     if length partitioned_lps \<le> node then Inl Out_Of_Range
     else bindR (run local_partitioner (partitioned_lps ! node) num_schedulers) (\<lambda>local_partitions.
          bindR (start local_partitions) (\<lambda>status.
          Inr (status, [Call_initializeLPMap partitioned_lps, Call_waitForAllProcesses]))))"

definition simulate_restart :: "(string list \<Rightarrow> TerminationStatus res) \<Rightarrow> string list \<Rightarrow> (TerminationStatus \<times> comm_call list) res" where
  "simulate_restart restart lps = bindR (restart lps) (\<lambda>_. Inr (TS_NORMAL, [Call_finalize]))"

definition simulate_end :: "TerminationStatus \<times> comm_call list \<Rightarrow> (TerminationStatus \<times> comm_call list) res" where
  "simulate_end r = (case r of (status, calls) \<Rightarrow> Inr (status, Call_initialize # calls @ [Call_finalize]))"

text \<open>With the partitioner of the configuration, and with one that the model gives.\<close>

definition sim_simulate :: "'d json_ops \<Rightarrow> ('u partitioner_choice \<Rightarrow> string list \<Rightarrow> nat \<Rightarrow> string list list res) \<Rightarrow>
    (string list list \<Rightarrow> TerminationStatus res) \<Rightarrow> (string list \<Rightarrow> TerminationStatus res) \<Rightarrow> 'd json \<Rightarrow> nat \<Rightarrow> nat \<Rightarrow>
    string list \<Rightarrow> (TerminationStatus \<times> comm_call list) res" where
  "sim_simulate ops run start restart settings node num_partitions lps =
     bindR (sim_check lps) (\<lambda>_.
     bindR (makePartitioner ops settings) (\<lambda>p.
     bindR (run p lps num_partitions) (\<lambda>partitioned_lps.
     bindR (isRestarting settings) (\<lambda>again.
     bindR (if again
            then if length partitioned_lps \<le> node then Inl Out_Of_Range else simulate_restart restart (partitioned_lps ! node)
            else simulate_new ops run start settings node num_partitions partitioned_lps) simulate_end))))"

definition sim_simulate_user :: "'d json_ops \<Rightarrow> ('u partitioner_choice \<Rightarrow> string list \<Rightarrow> nat \<Rightarrow> string list list res) \<Rightarrow>
    (string list list \<Rightarrow> TerminationStatus res) \<Rightarrow> (string list \<Rightarrow> TerminationStatus res) \<Rightarrow> 'd json \<Rightarrow> nat \<Rightarrow> nat \<Rightarrow> 'u \<Rightarrow>
    string list \<Rightarrow> (TerminationStatus \<times> comm_call list) res" where
  "sim_simulate_user ops run start restart settings node num_partitions user lps =
     bindR (sim_check lps) (\<lambda>_.
     bindR (isRestarting settings) (\<lambda>again.
     bindR (if again then simulate_restart restart lps
            else bindR (makePartitioner_user ops user settings) (\<lambda>p.
                 bindR (run p lps num_partitions) (simulate_new ops run start settings node num_partitions))) simulate_end))"

section \<open>What it does\<close>

text \<open>A new simulation starts the dispatcher on the partition of its node, between \<open>initialize\<close> and \<open>finalize\<close>.\<close>

theorem simulate_starts:
  assumes "isRestarting settings = Inr False" and "sim_partition ops run settings node num_partitions lps = Inr local_partitions"
    and "start local_partitions = Inr status"
  shows "\<exists>parts. sim_simulate ops run start restart settings node num_partitions lps =
      Inr (status, [Call_initialize, Call_initializeLPMap parts, Call_waitForAllProcesses, Call_finalize]) \<and>
    run (projr (makePartitioner ops settings)) lps num_partitions = Inr parts"
  using assms
  by (auto simp: sim_simulate_def sim_partition_def simulate_new_def simulate_end_def split: if_splits)

text \<open>A restart says that all is well whatever became of it, and ends the communication twice, which MPI forbids.\<close>

theorem restart_finalizes_twice:
  assumes "isRestarting settings = Inr True" and "sim_simulate ops run start restart settings node num_partitions lps = Inr (status, calls)"
  shows "status = TS_NORMAL \<and> calls = [Call_initialize, Call_finalize, Call_finalize]"
  using assms
  by (auto simp: sim_simulate_def simulate_restart_def simulate_end_def split: if_splits)

text \<open>With a partitioner of the model, every node restarts with all LPs.\<close>

theorem user_restart_takes_all:
  assumes "isRestarting settings = Inr True" and "\<not> adjacent_equal lps" and "restart lps = Inr st"
  shows "sim_simulate_user ops run start restart settings node num_partitions user lps =
    Inr (TS_NORMAL, [Call_initialize, Call_finalize, Call_finalize])"
  using assms by (simp add: sim_simulate_user_def sim_check_def simulate_restart_def simulate_end_def)

end
