(* ===== verification/TW_Statistics_File.thy ===== *)
theory TW_Statistics_File
  imports TW_Statistics Text_IO
begin

text \<open>
  The text that \<open>TimeWarpStatistics\<close> writes at the end: a line for every node and one with the totals
  (\<open>writeToFile\<close>), and the report on the console (\<open>printStats\<close>). How a stream writes a \<open>double\<close> is the parameter \<open>sd\<close>.
  \<open>others\<close> and \<open>dothers\<close> are what has been gathered from the other nodes, as in \<open>calculateStats\<close>.
\<close>

section \<open>writeToFile\<close>

definition show_u64 :: "u64 \<Rightarrow> string" where
  "show_u64 x = show_nat (unat x)"

definition by_node :: "(stat \<Rightarrow> u64 list) \<Rightarrow> 'd tw_statistics \<Rightarrow> nat \<Rightarrow> stat \<Rightarrow> u64" where
  "by_node others st i j = (local_sum j st # others j) ! i"

definition by_node_double :: "'d double_ops \<Rightarrow> (double_stat \<Rightarrow> 'd list) \<Rightarrow> 'd tw_statistics \<Rightarrow> nat \<Rightarrow> double_stat \<Rightarrow> 'd" where
  "by_node_double d dothers st i j = (local_sum_double d j st # dothers j) ! i"

fun stats_line :: "string list \<Rightarrow> string" where
  "stats_line [] = [newline]"
| "stats_line [x] = x @ [newline]"
| "stats_line (x # y # xs) = x @ '','' @ [CHR 0x09] @ stats_line (y # xs)"

definition node_fields :: "'d double_ops \<Rightarrow> ('d \<Rightarrow> string) \<Rightarrow> (stat \<Rightarrow> u64 list) \<Rightarrow> (double_stat \<Rightarrow> 'd list) \<Rightarrow>
    'd tw_statistics \<Rightarrow> nat \<Rightarrow> string list" where
  "node_fields d sd others dothers st i =
     [show_nat i, []] @ map (\<lambda>j. show_u64 (by_node others st i j))
       [NUM_OBJECTS, LOCAL_POSITIVE_EVENTS_SENT, REMOTE_POSITIVE_EVENTS_SENT, LOCAL_NEGATIVE_EVENTS_SENT,
        REMOTE_NEGATIVE_EVENTS_SENT, PRIMARY_ROLLBACKS, SECONDARY_ROLLBACKS, COAST_FORWARDED_EVENTS, CANCELLED_EVENTS,
        EVENTS_PROCESSED, EVENTS_COMMITTED] @
     map (\<lambda>j. sd (by_node_double d dothers st i j)) [ROLLBACK_TIME, RECOVERY_TIME] @
     [show_u64 (by_node others st i TOTAL_REJUVENATION)]"

definition total_fields :: "('d \<Rightarrow> string) \<Rightarrow> 'd \<Rightarrow> 'd Stats \<Rightarrow> string list" where
  "total_fields sd num_seconds g =
     [''Total'', sd num_seconds] @ map (\<lambda>j. show_u64 (counts g j))
       [NUM_OBJECTS, LOCAL_POSITIVE_EVENTS_SENT, REMOTE_POSITIVE_EVENTS_SENT, LOCAL_NEGATIVE_EVENTS_SENT,
        REMOTE_NEGATIVE_EVENTS_SENT, PRIMARY_ROLLBACKS, SECONDARY_ROLLBACKS, COAST_FORWARDED_EVENTS, CANCELLED_EVENTS,
        EVENTS_PROCESSED, EVENTS_COMMITTED, AVERAGE_MAX_MEMORY] @
     map (\<lambda>j. sd (doubles g j)) [ROLLBACK_TIME, RECOVERY_TIME] @ [show_u64 (counts g TOTAL_CHECKPOINTS)] @
     map (\<lambda>j. sd (doubles g j)) [CHECKPOINT_SIZE, CHECKPOINT_SAVE_TIME, CHECKPOINT_LOAD_TIME, REJUVENATION_TIME] @
     [show_u64 (counts g TOTAL_REJUVENATION)]"

text \<open>\<open>None\<close>: no file is opened. Otherwise the text is appended to the file.\<close>

definition st_writeToFile :: "'d double_ops \<Rightarrow> ('d \<Rightarrow> string) \<Rightarrow> (stat \<Rightarrow> u64 list) \<Rightarrow> (double_stat \<Rightarrow> 'd list) \<Rightarrow>
    nat \<Rightarrow> 'd \<Rightarrow> string \<Rightarrow> 'd tw_statistics \<Rightarrow> string option" where
  "st_writeToFile d sd others dothers num_processes num_seconds stats_file st =
     (if stats_file = ''none'' then None
      else Some (concat (map (\<lambda>i. stats_line (node_fields d sd others dothers st i)) [0..<num_processes]) @
                 stats_line (total_fields sd num_seconds (global_stats st))))"

section \<open>printStats\<close>

datatype report_item = Item string stat string | Item_Double string double_stat string | Item_Percent string double_stat | Gap

fun print_item :: "'d double_ops \<Rightarrow> ('d \<Rightarrow> string) \<Rightarrow> 'd Stats \<Rightarrow> report_item \<Rightarrow> string" where
  "print_item d sd g (Item l j unit) = CHR 0x09 # l @ show_u64 (counts g j) @ unit @ [newline]"
| "print_item d sd g (Item_Double l j unit) = CHR 0x09 # l @ sd (doubles g j) @ unit @ [newline]"
| "print_item d sd g (Item_Percent l j) = CHR 0x09 # l @ sd (d_mult d (doubles g j) (d_of_u64 d 100)) @ ''%'' @ [newline]"
| "print_item d sd g Gap = [newline]"

definition report :: "report_item list" where
  "report =
     [Item ''Number of objects:         '' NUM_OBJECTS [], Gap,
      Item ''Local events sent:         '' LOCAL_POSITIVE_EVENTS_SENT [],
      Item ''Remote events sent:        '' REMOTE_POSITIVE_EVENTS_SENT [],
      Item ''Local anti-messages sent:  '' LOCAL_NEGATIVE_EVENTS_SENT [],
      Item ''Remote anti-messages sent: '' REMOTE_NEGATIVE_EVENTS_SENT [],
      Item ''Total events sent:         '' TOTAL_EVENTS_SENT [],
      Item_Percent ''Percent remote:            '' PERCENT_REMOTE, Gap,
      Item ''Primary rollbacks:         '' PRIMARY_ROLLBACKS [],
      Item ''Secondary rollbacks:       '' SECONDARY_ROLLBACKS [],
      Item ''Total Rollbacks:           '' TOTAL_ROLLBACKS [], Gap,
      Item ''Total anti-messages sent:  '' TOTAL_NEGATIVE_EVENTS [],
      Item ''Cancelled events:          '' CANCELLED_EVENTS [], Gap,
      Item ''Coast forward events:      '' COAST_FORWARDED_EVENTS [], Gap,
      Item ''Total events processed:    '' EVENTS_PROCESSED [],
      Item ''Total events committed:    '' EVENTS_COMMITTED [],
      Item ''Total events rolled back:  '' EVENTS_ROLLEDBACK [], Gap,
      Item_Double ''Average rollback length:   '' AVERAGE_RBLENGTH [],
      Item_Percent ''Efficiency:                '' EFFICIENCY, Gap,
      Item ''Average maximum memory:    '' AVERAGE_MAX_MEMORY '' MB'',
      Item ''GVT cycles:                '' GVT_CYCLES [], Gap,
      Item_Double ''Average time for rollback: '' ROLLBACK_TIME '' sec'',
      Item_Double ''Average time for recovery: '' RECOVERY_TIME '' sec'', Gap,
      Item ''Total checkpoints:         '' TOTAL_CHECKPOINTS [],
      Item_Double ''Checkpoint size:           '' CHECKPOINT_SIZE '' MB'',
      Item_Double ''Checkpoint save time:      '' CHECKPOINT_SAVE_TIME '' sec'',
      Item_Double ''Checkpoint load time:      '' CHECKPOINT_LOAD_TIME '' sec'',
      Item_Double ''Rejuvenation time:         '' REJUVENATION_TIME '' sec'',
      Item ''Total rejuvenation count:  '' TOTAL_REJUVENATION [], Gap]"

definition st_printStats :: "'d double_ops \<Rightarrow> ('d \<Rightarrow> string) \<Rightarrow> 'd Stats \<Rightarrow> string" where
  "st_printStats d sd g = ''Totals'' @ [newline] @ concat (map (print_item d sd g) report)"

section \<open>The columns of the file\<close>

text \<open>The counters of the nodes add up to the one in the last line, modulo the width of the counters.\<close>

definition summed_columns :: "stat list" where
  "summed_columns =
     [NUM_OBJECTS, LOCAL_POSITIVE_EVENTS_SENT, REMOTE_POSITIVE_EVENTS_SENT, LOCAL_NEGATIVE_EVENTS_SENT,
      REMOTE_NEGATIVE_EVENTS_SENT, PRIMARY_ROLLBACKS, SECONDARY_ROLLBACKS, COAST_FORWARDED_EVENTS, CANCELLED_EVENTS,
      EVENTS_PROCESSED, EVENTS_COMMITTED]"

lemma calculateStats_total:
  assumes "j \<in> set summed_columns"
  shows "counts (global_stats (calculateStats d others dothers st)) j = total_of others st j"
  using calculateStats_totals [of d others dothers st] assms unfolding summed_columns_def by (auto simp: Let_def)

lemma local_sum_calculateStats [simp]: "local_sum j (calculateStats d others dothers st) = local_sum j st"
  by (simp add: calculateStats_def Let_def)

theorem columns_add_up:
  assumes "counts (global_stats st) j = 0" and "j \<in> set summed_columns" and "n = Suc (length (others j))"
  shows "counts (global_stats (calculateStats d others dothers st)) j =
    (\<Sum>i<n. by_node others (calculateStats d others dothers st) i j)"
proof -
  let ?xs = "local_sum j st # others j"
  have "(\<Sum>i<n. by_node others (calculateStats d others dothers st) i j) = (\<Sum>i<length ?xs. ?xs ! i)"
    by (simp add: by_node_def assms(3))
  also have "\<dots> = sum_list ?xs" by (simp add: sum_list_sum_nth lessThan_atLeast0)
  finally show ?thesis by (simp add: calculateStats_total [OF assms(2)] total_of_def assms(1))
qed

text \<open>The fields up to the thirteenth of the lines of the nodes and of the totals are the same entries; from there on
  they are not below each other: under the rollback times of the nodes is the average memory.\<close>

theorem columns_shift:
  "map (\<lambda>k. node_fields d sd others dothers st i ! (k + 2)) [0..<11] = map (\<lambda>j. show_u64 (by_node others st i j)) summed_columns"
  "map (\<lambda>k. total_fields sd secs g ! (k + 2)) [0..<11] = map (\<lambda>j. show_u64 (counts g j)) summed_columns"
  "node_fields d sd others dothers st i ! 13 = sd (by_node_double d dothers st i ROLLBACK_TIME)"
  "total_fields sd secs g ! 13 = show_u64 (counts g AVERAGE_MAX_MEMORY)"
  "length (node_fields d sd others dothers st i) = 16" "length (total_fields sd secs g) = 22"
  by (simp_all add: node_fields_def total_fields_def summed_columns_def upt_rec)

end
