(* ===== verification/FileStream.thy ===== *)
theory FileStream
  imports TW_FileStream
begin

text \<open>
  Output files of a sequential simulation (\<open>src/src/FileStream.*\<close>), which are written at once, and what becomes of
  the same output under Time Warp. A file is the text written so far; a stream also keeps the format that
  manipulators set. Reading, positions and opening are calls of \<open>std::fstream\<close> and left out.
\<close>

section \<open>Formats\<close>

text \<open>The flags of \<open>std::ios_base\<close> that change the text of integers and truth values. A manipulator is a function
  on them (\<open>std::ios_base& (*pf)(std::ios_base&)\<close>).\<close>

record ios_format =
  ios_basefield :: nat
  ios_boolalpha :: bool
  ios_showpos :: bool

definition ios_init :: ios_format where
  "ios_init = \<lparr>ios_basefield = 10, ios_boolalpha = False, ios_showpos = False\<rparr>"

definition std_hex :: "ios_format \<Rightarrow> ios_format" where
  "std_hex f = f\<lparr>ios_basefield := 16\<rparr>"

definition std_boolalpha :: "ios_format \<Rightarrow> ios_format" where
  "std_boolalpha f = f\<lparr>ios_boolalpha := True\<rparr>"

definition digit_char :: "nat \<Rightarrow> char" where
  "digit_char d = (if d < 10 then char_of (48 + d) else char_of (87 + d))"

function show_base :: "nat \<Rightarrow> nat \<Rightarrow> string" where
  "show_base b n = (if n < b \<or> b < 2 then [digit_char n] else show_base b (n div b) @ [digit_char (n mod b)])"
  by pat_completeness auto
termination
  by (relation "measure snd") auto

declare show_base.simps [simp del]

text \<open>The argument types of the output operations; a signed integer comes with its number of bits.\<close>

datatype fs_value =
    Fs_Signed nat int
  | Fs_Unsigned nat
  | Fs_Bool bool
  | Fs_Str string
  | Fs_Write string nat
  | Fs_Char char
  | Fs_Formatted "ios_format \<Rightarrow> string"
  | Fs_Ios "ios_format \<Rightarrow> ios_format"
  | Fs_FileStream

definition fs_signed :: "ios_format \<Rightarrow> nat \<Rightarrow> int \<Rightarrow> string" where
  "fs_signed f bits i =
     (if ios_basefield f = 10 then (if ios_showpos f \<and> 0 \<le> i then ''+'' else []) @ show_int i
      else show_base (ios_basefield f) (nat (i mod 2 ^ bits)))"

fun fs_format :: "ios_format \<Rightarrow> fs_value \<Rightarrow> string" where
  "fs_format f (Fs_Signed bits i) = fs_signed f bits i"
| "fs_format f (Fs_Unsigned n) = (if ios_basefield f = 10 then show_nat n else show_base (ios_basefield f) n)"
| "fs_format f (Fs_Bool b) =
     (if ios_boolalpha f then (if b then ''true'' else ''false'') else fs_signed f 64 (if b then 1 else 0))"
| "fs_format f (Fs_Str s) = s"
| "fs_format f (Fs_Write s n) = take n s"
| "fs_format f (Fs_Char c) = [c]"
| "fs_format f (Fs_Formatted s) = s f"
| "fs_format f (Fs_Ios m) = []"
| "fs_format f Fs_FileStream = []"

section \<open>Streams\<close>

record file_stream =
  fs_text :: string
  fs_flags :: ios_format

definition fs_new :: file_stream where
  "fs_new = \<lparr>fs_text = [], fs_flags = ios_init\<rparr>"

text \<open>The overload for manipulators of \<open>FileStream\<close> calls itself (\<open>*this << pf\<close>), and so do the move operations
  (\<open>*this = std::move(rhs)\<close>).\<close>

partial_function (option) fs_manipulate :: "file_stream \<Rightarrow> file_stream option" where
  "fs_manipulate fs = fs_manipulate fs"

partial_function (option) fs_move_assign :: "file_stream \<Rightarrow> file_stream \<Rightarrow> file_stream option" where
  "fs_move_assign this rhs = fs_move_assign this rhs"

definition fs_move :: "file_stream \<Rightarrow> file_stream option" where
  "fs_move x = fs_move_assign fs_new x"

fun fs_output :: "fs_value \<Rightarrow> file_stream \<Rightarrow> file_stream option" where
  "fs_output (Fs_Ios m) fs = Some (fs\<lparr>fs_flags := m (fs_flags fs)\<rparr>)"
| "fs_output Fs_FileStream fs = fs_manipulate fs"
| "fs_output v fs = Some (fs\<lparr>fs_text := fs_text fs @ fs_format (fs_flags fs) v\<rparr>)"

text \<open>\<open>out << v1 << v2 << ...\<close>, for the two kinds of stream.\<close>

fun fs_outputs :: "fs_value list \<Rightarrow> file_stream \<Rightarrow> file_stream option" where
  "fs_outputs [] fs = Some fs"
| "fs_outputs (v # vs) fs = Option.bind (fs_output v fs) (fs_outputs vs)"

text \<open>A value as \<open>TimeWarpFileStream\<close> gets it: it is formatted by a stream of its own, which has the initial format.\<close>

fun tw_value :: "fs_value \<Rightarrow> out_value" where
  "tw_value (Fs_Signed bits i) = Out_Int i"
| "tw_value (Fs_Unsigned n) = Out_Int (int n)"
| "tw_value (Fs_Bool b) = Out_Bool b"
| "tw_value (Fs_Str s) = Out_Str s"
| "tw_value (Fs_Write s n) = Out_Write s n"
| "tw_value (Fs_Char c) = Out_Char c"
| "tw_value (Fs_Formatted s) = Out_Formatted (s ios_init)"
| "tw_value (Fs_Ios m) = Out_Ios_Manipulator"
| "tw_value Fs_FileStream = Out_FileStream_Manipulator"

fun tws_outputs :: "fs_value list \<Rightarrow> tw_file_stream \<Rightarrow> tw_file_stream option" where
  "tws_outputs [] fs = Some fs"
| "tws_outputs (v # vs) fs = Option.bind (tws_output (tw_value v) fs) (tws_outputs vs)"

section \<open>Calls that never return\<close>

lemma fs_manipulate_loops: "fs_manipulate fs = None"
proof (cases "fs_manipulate fs")
  case (Some y)
  have False by (rule fs_manipulate.raw_induct [where P = "\<lambda>_ _. False", OF _ Some]) blast
  then show ?thesis ..
qed simp

lemma fs_move_loops: "fs_move x = None"
proof -
  have "fs_move_assign a b = None" for a b
  proof (cases "fs_move_assign a b")
    case (Some y)
    have False by (rule fs_move_assign.raw_induct [where P = "\<lambda>_ _ _. False", OF _ Some]) blast
    then show ?thesis ..
  qed simp
  then show ?thesis by (simp add: fs_move_def)
qed

section \<open>The two kinds of stream\<close>

definition plain :: "fs_value \<Rightarrow> bool" where
  "plain v \<longleftrightarrow> (\<forall>m. v \<noteq> Fs_Ios m) \<and> v \<noteq> Fs_FileStream"

lemma show_bits: "show_nat 0 = ''0''" "show_nat (Suc 0) = ''1''"
  by (simp_all add: show_nat.simps) code_simp+

lemma format_plain: "plain v \<Longrightarrow> format_value (tw_value v) = fs_format ios_init v"
  using show_bits by (cases v) (auto simp: plain_def fs_signed_def ios_init_def show_int_def)

lemma fs_outputs_plain:
  "list_all plain vs \<Longrightarrow> fs_flags fs = ios_init \<Longrightarrow>
    fs_outputs vs fs = Some (fs\<lparr>fs_text := fs_text fs @ concat (map (fs_format ios_init) vs)\<rparr>)"
proof (induction vs arbitrary: fs)
  case (Cons v vs)
  then have "fs_output v fs = Some (fs\<lparr>fs_text := fs_text fs @ fs_format ios_init v\<rparr>)"
    by (cases v) (auto simp: plain_def)
  with Cons show ?case by simp
qed simp

lemma tws_outputs_plain:
  "list_all plain vs \<Longrightarrow>
    tws_outputs vs fs = Some (fs\<lparr>output_requests :=
      output_requests fs @ map (\<lambda>v. (current_event fs, fs_format ios_init v)) vs\<rparr>)"
proof (induction vs arbitrary: fs)
  case (Cons v vs)
  then have "tw_value v \<noteq> Out_FileStream_Manipulator" by (cases v) (auto simp: plain_def)
  with Cons show ?case by (simp add: tws_output_def format_plain)
qed simp

text \<open>Without manipulators, the text that an event writes is the same in a sequential simulation and, once GVT has
  passed the event, under Time Warp.\<close>

theorem output_is_the_same:
  assumes "list_all plain vs" and "timestamp e < gvt"
  shows "\<exists>fs ts. fs_outputs vs fs_new = Some fs \<and> tws_outputs vs (setCurrentEvent e tws_new) = Some ts \<and>
    fstream (commitOutputRequestsBefore gvt ts) = fs_text fs"
proof -
  have all: "takeWhile (\<lambda>x. timestamp (the (fst x)) < gvt) (map (\<lambda>v. (Some e, fs_format ios_init v)) vs) =
      map (\<lambda>v. (Some e, fs_format ios_init v)) vs"
    using assms(2) by (auto simp: takeWhile_eq_all_conv)
  then show ?thesis
    using fs_outputs_plain [OF assms(1), of fs_new] tws_outputs_plain [OF assms(1), of "setCurrentEvent e tws_new"]
    by (simp add: fs_new_def setCurrentEvent_def tws_new_def commitOutputRequestsBefore_def commit_loop_eq all comp_def)
qed

text \<open>Manipulators work in a sequential simulation and are lost under Time Warp: \<open>out << std::hex << 255\<close> writes \<open>ff\<close>
  in the one, and \<open>255\<close> in the other.\<close>

theorem manipulators_are_lost:
  "\<exists>fs ts. fs_outputs [Fs_Ios std_hex, Fs_Signed 32 255] fs_new = Some fs \<and> fs_text fs = ''ff'' \<and>
    tws_outputs [Fs_Ios std_hex, Fs_Signed 32 255] (setCurrentEvent (InitialEvent 0) tws_new) = Some ts \<and>
    fstream (commitOutputRequestsBefore 1 ts) = ''255''"
proof -
  have "show_base 16 255 = ''ff''" by (simp add: show_base.simps digit_char_def) code_simp
  moreover have "show_nat 255 = ''255''" by (simp add: show_nat.simps) code_simp
  ultimately show ?thesis
    by (simp add: fs_new_def std_hex_def fs_signed_def tws_output_def setCurrentEvent_def tws_new_def
        commitOutputRequestsBefore_def InitialEvent_def show_int_def)
qed

end
