(* ===== verification/TicketLock.thy ===== *)
theory TicketLock
  imports Warped_Prelude
begin

text \<open>
  The spin lock of the schedule queues (\<open>src/src/TicketLock.hpp\<close>), with its two counters at their width. The other
  theories take a section under this lock as a single step; here is why they may: at most one thread is inside,
  and the threads get in in the order in which they took their numbers, though the counters wrap around.
\<close>

section \<open>The lock\<close>

record ticket_lock =
  ticket :: u32
  users :: u32

definition ticket_lock_new :: ticket_lock where
  "ticket_lock_new = \<lparr>ticket = 0, users = 0\<rparr>"

text \<open>The two parts of \<open>lock\<close>: taking a number, and one round of the loop, which tells whether it ends.\<close>

definition take_number :: "ticket_lock \<Rightarrow> u32 \<times> ticket_lock" where
  "take_number l = (users l, l\<lparr>users := users l + 1\<rparr>)"

definition my_turn :: "u32 \<Rightarrow> ticket_lock \<Rightarrow> bool" where
  "my_turn me l \<longleftrightarrow> ticket l = me"

definition tl_unlock :: "ticket_lock \<Rightarrow> ticket_lock" where
  "tl_unlock l = l\<lparr>ticket := ticket l + 1\<rparr>"

section \<open>Threads that use it\<close>

text \<open>Where a thread is: not using the lock, in the loop with its number, or after \<open>lock\<close> and before \<open>unlock\<close>.\<close>

datatype lock_place = Outside | Waiting u32 | Inside

record lock_state =
  tlock :: ticket_lock
  places :: "lock_place list"

definition lock_start :: "nat \<Rightarrow> lock_state" where
  "lock_start n = \<lparr>tlock = ticket_lock_new, places = replicate n Outside\<rparr>"

text \<open>One atomic access of a thread, labelled with what it was and whose.\<close>

datatype lock_act = Takes nat | Spins nat | Enters nat | Leaves nat

inductive lock_step :: "lock_state \<Rightarrow> lock_act \<Rightarrow> lock_state \<Rightarrow> bool" where
  Take: "t < length (places s) \<Longrightarrow> places s ! t = Outside \<Longrightarrow> take_number (tlock s) = (me, l) \<Longrightarrow>
     lock_step s (Takes t) (s\<lparr>tlock := l, places := (places s)[t := Waiting me]\<rparr>)"
| Spin: "t < length (places s) \<Longrightarrow> places s ! t = Waiting me \<Longrightarrow> \<not> my_turn me (tlock s) \<Longrightarrow>
     lock_step s (Spins t) s"
| Enter: "t < length (places s) \<Longrightarrow> places s ! t = Waiting me \<Longrightarrow> my_turn me (tlock s) \<Longrightarrow>
     lock_step s (Enters t) (s\<lparr>places := (places s)[t := Inside]\<rparr>)"
| Leave: "t < length (places s) \<Longrightarrow> places s ! t = Inside \<Longrightarrow>
     lock_step s (Leaves t) (s\<lparr>tlock := tl_unlock (tlock s), places := (places s)[t := Outside]\<rparr>)"

text \<open>A run, with everything that happened in it, the oldest first.\<close>

inductive lock_run :: "lock_state \<Rightarrow> lock_act list \<Rightarrow> lock_state \<Rightarrow> bool" for s0 where
  Idle: "lock_run s0 [] s0"
| Act: "lock_run s0 as s \<Longrightarrow> lock_step s a s' \<Longrightarrow> lock_run s0 (as @ [a]) s'"

text \<open>The threads that took a number, got the lock and gave it back, each in the order in which it happened.\<close>

definition takers :: "lock_act list \<Rightarrow> nat list" where
  "takers as = concat (map (\<lambda>a. case a of Takes t \<Rightarrow> [t] | _ \<Rightarrow> []) as)"

definition enterers :: "lock_act list \<Rightarrow> nat list" where
  "enterers as = concat (map (\<lambda>a. case a of Enters t \<Rightarrow> [t] | _ \<Rightarrow> []) as)"

definition leavers :: "lock_act list \<Rightarrow> nat list" where
  "leavers as = concat (map (\<lambda>a. case a of Leaves t \<Rightarrow> [t] | _ \<Rightarrow> []) as)"

lemmas trace_defs = takers_def enterers_def leavers_def

lemma trace_simps [simp]:
  "takers [] = []" "enterers [] = []" "leavers [] = []"
  "takers (as @ [a]) = takers as @ (case a of Takes t \<Rightarrow> [t] | _ \<Rightarrow> [])"
  "enterers (as @ [a]) = enterers as @ (case a of Enters t \<Rightarrow> [t] | _ \<Rightarrow> [])"
  "leavers (as @ [a]) = leavers as @ (case a of Leaves t \<Rightarrow> [t] | _ \<Rightarrow> [])"
  by (simp_all add: trace_defs)

section \<open>The queue\<close>

text \<open>The threads that have a number, in the order of their numbers, and whether the first is inside.\<close>

type_synonym lock_queue = "nat list \<times> bool"

definition in_queue :: "lock_state \<Rightarrow> lock_queue \<Rightarrow> bool" where
  "in_queue s q = (case q of (ts, b) \<Rightarrow>
     distinct ts \<and> (\<forall>t<length (places s). t \<in> set ts \<longleftrightarrow> places s ! t \<noteq> Outside) \<and> (\<forall>t\<in>set ts. t < length (places s)) \<and>
     users (tlock s) = ticket (tlock s) + of_nat (length ts) \<and> (b \<longrightarrow> ts \<noteq> []) \<and>
     (\<forall>k<length ts. places s ! (ts ! k) = (if b \<and> k = 0 then Inside else Waiting (ticket (tlock s) + of_nat k))))"

text \<open>The queue that a history leaves: those who have a number and have not given the lock back.\<close>

definition queue_of :: "lock_act list \<Rightarrow> lock_queue \<Rightarrow> bool" where
  "queue_of as q = (case q of (ts, b) \<Rightarrow>
     takers as = leavers as @ ts \<and> enterers as = leavers as @ (if b then [hd ts] else []))"

lemma in_queueD:
  assumes "in_queue s (ts, b)"
  shows "distinct ts" "t < length (places s) \<Longrightarrow> t \<in> set ts \<longleftrightarrow> places s ! t \<noteq> Outside" "t \<in> set ts \<Longrightarrow> t < length (places s)"
    "users (tlock s) = ticket (tlock s) + of_nat (length ts)" "b \<Longrightarrow> ts \<noteq> []"
    "k < length ts \<Longrightarrow> places s ! (ts ! k) = (if b \<and> k = 0 then Inside else Waiting (ticket (tlock s) + of_nat k))"
  using assms by (auto simp: in_queue_def)

lemma in_queue_start: "in_queue (lock_start n) ([], False)"
  by (simp add: in_queue_def lock_start_def ticket_lock_new_def)

lemma queue_length:
  assumes "in_queue s (ts, b)"
  shows "length ts \<le> length (places s)"
proof -
  have "set ts \<subseteq> {..<length (places s)}" using in_queueD(3) [OF assms] by blast
  from card_mono [OF _ this] show ?thesis by (simp add: distinct_card [OF in_queueD(1) [OF assms]])
qed

text \<open>Numbers that are waiting at the same time differ, wrapped or not.\<close>

lemma numbers_differ:
  assumes "(of_nat k :: u32) = of_nat j" and "k < 2 ^ 32" and "j < 2 ^ 32"
  shows "k = j"
proof -
  have "unat (of_nat k :: u32) = unat (of_nat j :: u32)" using assms(1) by simp
  then show ?thesis using assms(2,3) by (simp add: unat_of_nat take_bit_eq_mod)
qed

lemma place_in_queue:
  assumes "in_queue s (ts, b)" and "t < length (places s)" and "places s ! t \<noteq> Outside"
  obtains k where "k < length ts" and "ts ! k = t"
  using in_queueD(2) [OF assms(1,2)] assms(3) by (auto simp: in_set_conv_nth)

lemma inside_is_first:
  assumes "in_queue s (ts, b)" and "t < length (places s)" and "places s ! t = Inside"
  shows "b \<and> ts \<noteq> [] \<and> hd ts = t"
proof -
  obtain k where k: "k < length ts" "ts ! k = t" using place_in_queue [OF assms(1,2)] assms(3) by auto
  from in_queueD(6) [OF assms(1) k(1)] assms(3) k show ?thesis by (auto simp: hd_conv_nth split: if_splits)
qed

lemma turn_is_first:
  assumes q: "in_queue s (ts, b)" and n: "length (places s) \<le> 2 ^ 32" and t: "t < length (places s)"
    and me: "places s ! t = Waiting me" and turn: "my_turn me (tlock s)"
  shows "\<not> b \<and> ts \<noteq> [] \<and> hd ts = t"
proof -
  obtain k where k: "k < length ts" "ts ! k = t" using place_in_queue [OF q t] me by auto
  have w: "\<not> (b \<and> k = 0)" and eq: "me = ticket (tlock s) + of_nat k"
    using in_queueD(6) [OF q k(1)] k(2) me by (auto split: if_splits)
  have "k < 2 ^ 32" using k(1) queue_length [OF q] n by simp
  then have "k = 0" using numbers_differ [of k 0] eq turn by (simp add: my_turn_def)
  with w k show ?thesis by (auto simp: hd_conv_nth)
qed

lemma arrive_in_queue:
  assumes "in_queue s (ts, b)" and "t < length (places s)" and "places s ! t = Outside" and "take_number (tlock s) = (me, l)"
  shows "in_queue (s\<lparr>tlock := l, places := (places s)[t := Waiting me]\<rparr>) (ts @ [t], b)"
proof -
  note D = in_queueD [OF assms(1)]
  have new: "t \<notin> set ts" using D(2) [OF assms(2)] assms(3) by simp
  have ne: "ts ! k \<noteq> t" if "k < length ts" for k using new that by (metis nth_mem)
  from new D(1-5) D(6) ne assms(2,4) show ?thesis
    by (auto simp: in_queue_def take_number_def nth_list_update nth_append less_Suc_eq)
qed

lemma get_in_queue:
  assumes "in_queue s (t # ts, False)"
  shows "in_queue (s\<lparr>places := (places s)[t := Inside]\<rparr>) (t # ts, True)"
proof -
  note D = in_queueD [OF assms]
  have ne: "t \<noteq> (t # ts) ! k" if "k < length (t # ts)" "k \<noteq> 0" for k
    using D(1) that by (cases k) auto
  have t: "t < length (places s)" using D(3) by simp
  have "places s ! ((t # ts) ! k) = Waiting (ticket (tlock s) + of_nat k)" if "k < length (t # ts)" for k
    using D(6) [OF that] by simp
  with D(1-4) ne t show ?thesis
    by (auto simp: in_queue_def nth_list_update simp del: nth_Cons_Suc nth_Cons_pos)
qed

lemma give_back_in_queue:
  assumes "in_queue s (t # ts, True)"
  shows "in_queue (s\<lparr>tlock := tl_unlock (tlock s), places := (places s)[t := Outside]\<rparr>) (ts, False)"
proof -
  note D = in_queueD [OF assms]
  have new: "t \<notin> set ts" using D(1) by simp
  have ne: "ts ! k \<noteq> t" if "k < length ts" for k using new that by (metis nth_mem)
  have "places s ! (ts ! k) = Waiting (ticket (tlock s) + 1 + of_nat k)" if "k < length ts" for k
    using D(6) [of "Suc k"] that by (simp add: add.assoc)
  with D(1-4) ne new show ?thesis
    by (auto simp: in_queue_def tl_unlock_def nth_list_update add.assoc)
qed

lemma step_in_queue:
  assumes "lock_step s a s'" and "in_queue s (ts, b)" and "length (places s) \<le> 2 ^ 32" and "queue_of as (ts, b)"
  shows "\<exists>q. queue_of (as @ [a]) q \<and> in_queue s' q \<and> length (places s') = length (places s)"
  using assms(1)
proof cases
  case (Take t me l)
  then have "queue_of (as @ [a]) (ts @ [t], b)"
    using assms(4) in_queueD(5) [OF assms(2)] by (cases b) (auto simp: queue_of_def)
  then show ?thesis using arrive_in_queue [of s ts b t me l] assms(2) Take by auto
next
  case (Spin t me)
  then show ?thesis using assms(2,4) by (intro exI [of _ "(ts, b)"]) (simp add: queue_of_def)
next
  case (Enter t me)
  have "\<not> b \<and> ts \<noteq> [] \<and> hd ts = t" using turn_is_first [of s ts b t me] assms(2,3) Enter by simp
  then obtain us where "ts = t # us" "b = False" by (cases ts) auto
  then show ?thesis using get_in_queue [of s t us] assms(2,4) Enter
    by (intro exI [of _ "(ts, True)"]) (simp add: queue_of_def)
next
  case (Leave t)
  have "b \<and> ts \<noteq> [] \<and> hd ts = t" using inside_is_first [of s ts b t] assms(2) Leave by simp
  then obtain us where "ts = t # us" "b = True" by (cases ts) auto
  then show ?thesis using give_back_in_queue [of s t us] assms(2,4) Leave
    by (intro exI [of _ "(us, False)"]) (simp add: queue_of_def)
qed

lemma run_in_queue:
  assumes "lock_run (lock_start n) as s" and "n \<le> 2 ^ 32"
  shows "\<exists>ts b. queue_of as (ts, b) \<and> in_queue s (ts, b) \<and> length (places s) = n"
  using assms(1)
proof induction
  case Idle
  have "queue_of [] ([], False)" by (simp add: queue_of_def)
  with in_queue_start [of n] show ?case by (force simp: lock_start_def)
next
  case (Act as s a s')
  then obtain ts b where "queue_of as (ts, b)" "in_queue s (ts, b)" "length (places s) = n" by blast
  with step_in_queue [OF Act.hyps(2)] assms(2) show ?case by fastforce
qed

text \<open>C18: The ticket lock is a fair queue. In every run of at most 2^32 threads, from the unlocked lock and with any
  interleaving of their accesses, the threads get the lock exactly in the order in which they took their numbers, and
  give it back in that order: those who have given it back are the first of those who got it, and these are the first of
  those who took a number. At most one has the lock, the one that got it last, until it gives it back; the threads
  that have a number and are not served are exactly the rest, each once; and if the lock is free, the next in the order of
  arrival finds that it is its turn. The counters may wrap around any number of times. Whether a waiting thread
  is ever scheduled is not modelled.\<close>

theorem ticket_lock_is_queue:
  assumes "lock_run (lock_start n) as s" and "n \<le> 2 ^ 32"
  shows "enterers as = take (length (enterers as)) (takers as) \<and>
    leavers as = take (length (leavers as)) (enterers as) \<and>
    distinct (drop (length (leavers as)) (takers as)) \<and>
    set (drop (length (leavers as)) (takers as)) = {t. t < n \<and> places s ! t \<noteq> Outside} \<and>
    (\<forall>t<n. places s ! t = Inside \<longleftrightarrow> enterers as = leavers as @ [t]) \<and>
    (enterers as = leavers as \<and> takers as \<noteq> leavers as \<longrightarrow>
      (\<exists>me. places s ! (takers as ! length (leavers as)) = Waiting me \<and> my_turn me (tlock s)))"
proof -
  from run_in_queue [OF assms] obtain ts b
    where q: "queue_of as (ts, b)" "in_queue s (ts, b)" "length (places s) = n" by blast
  note D = in_queueD [OF q(2)]
  have tr: "takers as = leavers as @ ts" "enterers as = leavers as @ (if b then [hd ts] else [])"
    using q(1) by (simp_all add: queue_of_def)
  have first: "places s ! hd ts = (if b then Inside else Waiting (ticket (tlock s)))" if "ts \<noteq> []"
    using D(6) [of 0] that by (simp add: hd_conv_nth)
  have inside: "places s ! t = Inside \<longleftrightarrow> b \<and> t = hd ts" if "t < n" for t
    using inside_is_first [OF q(2), of t] first D(5) q(3) that by auto
  have "enterers as = take (length (enterers as)) (takers as)" using tr D(5) by (cases ts) auto
  moreover have "set ts = {t. t < n \<and> places s ! t \<noteq> Outside}" using D(2,3) q(3) by auto
  moreover have "enterers as = leavers as \<and> takers as \<noteq> leavers as \<longrightarrow>
      (\<exists>me. places s ! (takers as ! length (leavers as)) = Waiting me \<and> my_turn me (tlock s))"
    using tr first by (auto simp: my_turn_def nth_append hd_conv_nth)
  moreover have "\<forall>t<n. places s ! t = Inside \<longleftrightarrow> enterers as = leavers as @ [t]" using inside tr(2) by auto
  ultimately show ?thesis using tr D(1) by simp
qed

definition two_wait :: lock_state where
  "two_wait = \<lparr>tlock = \<lparr>ticket = 0, users = 2\<rparr>, places = [Waiting 1, Inside]\<rparr>"

definition two_acts :: "lock_act list" where
  "two_acts = [Takes 1, Takes 0, Enters 1]"

lemma two_wait_reached: "lock_run (lock_start 2) two_acts two_wait"
proof -
  let ?a = "\<lparr>tlock = \<lparr>ticket = 0, users = 1\<rparr>, places = [Outside, Waiting 0]\<rparr>"
  let ?b = "\<lparr>tlock = \<lparr>ticket = 0, users = 2\<rparr>, places = [Waiting 1, Waiting 0]\<rparr>"
  have "lock_step (lock_start 2) (Takes 1) ?a"
    using lock_step.Take [of 1 "lock_start 2" 0 "\<lparr>ticket = 0, users = 1\<rparr>"]
    by (simp add: lock_start_def take_number_def ticket_lock_new_def numeral_2_eq_2)
  moreover have "lock_step ?a (Takes 0) ?b"
    using lock_step.Take [of 0 ?a 1 "\<lparr>ticket = 0, users = 2\<rparr>"] by (simp add: take_number_def)
  moreover have "lock_step ?b (Enters 1) two_wait"
    using lock_step.Enter [of 1 ?b 0] by (simp add: my_turn_def two_wait_def)
  ultimately have "lock_run (lock_start 2) ((([] @ [Takes 1]) @ [Takes 0]) @ [Enters 1]) two_wait"
    by (metis lock_run.Act lock_run.Idle)
  then show ?thesis by (simp add: two_acts_def)
qed

text \<open>The second thread came first and is inside; the first waits for number 1.\<close>

theorem ticket_lock_is_queue_witness:
  "lock_run (lock_start 2) two_acts two_wait \<and> takers two_acts = [1, 0] \<and>
   enterers two_acts = take 1 (takers two_acts) \<and> places two_wait ! 1 = Inside \<and> places two_wait ! 0 = Waiting 1"
proof -
  have acts: "takers two_acts = [1, 0]" "enterers two_acts = [1]" "leavers two_acts = []"
    by (simp_all add: trace_defs two_acts_def)
  have "(2::nat) \<le> 2 ^ 32" by simp
  from ticket_lock_is_queue [OF two_wait_reached this]
  have "enterers two_acts = take (length (enterers two_acts)) (takers two_acts)"
    "\<forall>t<2. places two_wait ! t = Inside \<longleftrightarrow> enterers two_acts = leavers two_acts @ [t]" by blast+
  with acts two_wait_reached show ?thesis by (simp add: two_wait_def)
qed

end
